(* ===== verification/Idsm_Prelude.thy ===== *)
theory Idsm_Prelude
  imports Main "HOL-Library.Word" "HOL-Library.Monad_Syntax"
begin

text \<open>
  Shared material of the development: the machine integers of the C and C++ code, byte buffers
  with checked reads and writes, big-endian encoding and decoding, and the generic lemmas on
  lists, words and partial maps that the component theories use.

  A buffer is a list of bytes. A read or a write of the code at an index of a buffer is
  \<open>rd8\<close> or \<open>wr8\<close>: the result is \<open>None\<close> when the index is outside the buffer, which in the
  code is an access out of bounds. A theorem that an operation never gives \<open>None\<close> therefore
  says that the code never leaves its buffer.
\<close>

unbundle bit_operations_syntax

type_synonym u8 = "8 word"
type_synonym u16 = "16 word"
type_synonym u32 = "32 word"
type_synonym u64 = "64 word"
type_synonym bytes = "u8 list"

named_theorems idsm_defs "unfolding of the constants and small helpers of the code"
named_theorems rd_simps "evaluation of checked reads and writes"

subsection \<open>Checked buffer access\<close>

definition rd8 :: "bytes \<Rightarrow> nat \<Rightarrow> u8 option" where
  "rd8 p i = (if i < length p then Some (p ! i) else None)"

definition wr8 :: "bytes \<Rightarrow> nat \<Rightarrow> u8 \<Rightarrow> bytes option" where
  "wr8 p i b = (if i < length p then Some (p[i := b]) else None)"

text \<open>A borrowed view \<open>p + off\<close> of \<open>n\<close> bytes: the whole view has to lie inside the buffer.\<close>

definition view :: "bytes \<Rightarrow> nat \<Rightarrow> nat \<Rightarrow> bytes option" where
  "view p off n = (if off + n \<le> length p then Some (take n (drop off p)) else None)"

definition be16 :: "u8 \<Rightarrow> u8 \<Rightarrow> u16" where
  "be16 a b = push_bit 8 (ucast a) OR ucast b"

definition be32 :: "u8 \<Rightarrow> u8 \<Rightarrow> u8 \<Rightarrow> u8 \<Rightarrow> u32" where
  "be32 a b c d = push_bit 24 (ucast a) OR push_bit 16 (ucast b) OR push_bit 8 (ucast c) OR ucast d"

definition rd16 :: "bytes \<Rightarrow> nat \<Rightarrow> u16 option" where
  "rd16 p i = do { a \<leftarrow> rd8 p i; b \<leftarrow> rd8 p (i + 1); Some (be16 a b) }"

definition rd32 :: "bytes \<Rightarrow> nat \<Rightarrow> u32 option" where
  "rd32 p i = do { a \<leftarrow> rd8 p i; b \<leftarrow> rd8 p (i + 1); c \<leftarrow> rd8 p (i + 2); d \<leftarrow> rd8 p (i + 3);
     Some (be32 a b c d) }"

lemma rd8_Some [rd_simps]: "i < length p \<Longrightarrow> rd8 p i = Some (p ! i)"
  by (simp add: rd8_def)

lemma rd16_Some [rd_simps]: "i + 1 < length p \<Longrightarrow> rd16 p i = Some (be16 (p ! i) (p ! (i + 1)))"
  by (simp add: rd16_def rd8_def)

lemma rd32_Some [rd_simps]:
  "i + 3 < length p \<Longrightarrow> rd32 p i = Some (be32 (p ! i) (p ! (i + 1)) (p ! (i + 2)) (p ! (i + 3)))"
  by (simp add: rd32_def rd8_def)

lemma view_Some [rd_simps]: "off + n \<le> length p \<Longrightarrow> view p off n = Some (take n (drop off p))"
  by (simp add: view_def)

lemma view_length: "view p off n = Some v \<Longrightarrow> length v = n"
  by (auto simp: view_def split: if_splits)

lemma view_nth: "view p off n = Some v \<Longrightarrow> i < n \<Longrightarrow> v ! i = p ! (off + i)"
  by (auto simp: view_def split: if_splits)

subsection \<open>Computations that stay inside their buffers\<close>

text \<open>
  \<open>safely m P\<close>: the checked computation \<open>m\<close> makes no access outside its buffers and no size
  subtraction that wraps, and its result satisfies \<open>P\<close>. The rules of \<open>safe_simps\<close> push it through
  a computation, as a weakest precondition.
\<close>

definition safely :: "'a option \<Rightarrow> ('a \<Rightarrow> bool) \<Rightarrow> bool" where
  "safely m P = (case m of None \<Rightarrow> False | Some x \<Rightarrow> P x)"

named_theorems safe_simps "weakest preconditions of checked computations"

definition size_sub :: "nat \<Rightarrow> nat \<Rightarrow> nat option" where
  "size_sub a b = (if b \<le> a then Some (a - b) else None)"

lemma safely_iff: "safely m P \<longleftrightarrow> (\<exists>x. m = Some x \<and> P x)"
  by (auto simp: safely_def split: option.split)

lemma safely_Some [safe_simps]: "safely (Some x) P = P x"
  by (simp add: safely_def)

lemma safely_bind [safe_simps]: "safely (Option.bind m f) P = safely m (\<lambda>x. safely (f x) P)"
  by (simp add: safely_def split: option.split)

lemma safely_if [safe_simps]: "safely (if b then m else m') P = (if b then safely m P else safely m' P)"
  by simp

lemma safely_rd8 [safe_simps]: "safely (rd8 p i) P = (i < length p \<and> P (p ! i))"
  by (simp add: safely_def rd8_def)

lemma safely_rd16 [safe_simps]: "safely (rd16 p i) P = (i + 1 < length p \<and> P (be16 (p ! i) (p ! (i + 1))))"
  by (auto simp: rd16_def safe_simps)

lemma safely_rd32 [safe_simps]:
  "safely (rd32 p i) P = (i + 3 < length p \<and> P (be32 (p ! i) (p ! (i + 1)) (p ! (i + 2)) (p ! (i + 3))))"
  by (auto simp: rd32_def safe_simps)

lemma safely_view [safe_simps]:
  "safely (view p off n) P = (off + n \<le> length p \<and> P (take n (drop off p)))"
  by (simp add: safely_def view_def)

lemma safely_size_sub [safe_simps]: "safely (size_sub a b) P = (b \<le> a \<and> P (a - b))"
  by (simp add: safely_def size_sub_def)

lemma safely_mono: "safely m P \<Longrightarrow> (\<And>x. P x \<Longrightarrow> Q x) \<Longrightarrow> safely m Q"
  by (auto simp: safely_iff)

lemma safely_conj: "safely m P \<Longrightarrow> safely m Q \<Longrightarrow> safely m (\<lambda>x. P x \<and> Q x)"
  by (auto simp: safely_iff)

subsection \<open>Big-endian round trips\<close>

definition hi8 :: "u16 \<Rightarrow> u8" where "hi8 x = ucast (drop_bit 8 x)"
definition lo8 :: "u16 \<Rightarrow> u8" where "lo8 x = ucast x"

definition byte3 :: "u32 \<Rightarrow> u8" where "byte3 x = ucast (drop_bit 24 x)"
definition byte2 :: "u32 \<Rightarrow> u8" where "byte2 x = ucast (drop_bit 16 x)"
definition byte1 :: "u32 \<Rightarrow> u8" where "byte1 x = ucast (drop_bit 8 x)"
definition byte0 :: "u32 \<Rightarrow> u8" where "byte0 x = ucast x"

lemma be16_hi_lo [simp]: "be16 (hi8 x) (lo8 x) = x"
  by (rule bit_word_eqI) (auto simp: be16_def hi8_def lo8_def bit_simps)

lemma hi8_be16 [simp]: "hi8 (be16 a b) = a"
  by (rule bit_word_eqI) (auto simp: be16_def hi8_def bit_simps dest: bit_imp_le_length)

lemma lo8_be16 [simp]: "lo8 (be16 a b) = b"
  by (rule bit_word_eqI) (auto simp: be16_def lo8_def bit_simps dest: bit_imp_le_length)

lemma bit_u8_ge: "8 \<le> n \<Longrightarrow> \<not> bit (a :: u8) n"
  by (auto dest: bit_imp_le_length)

lemma bit_be32:
  "bit (be32 a b c d) n = (bit d n \<or> (8 \<le> n \<and> bit c (n - 8)) \<or> (16 \<le> n \<and> bit b (n - 16)) \<or>
     (24 \<le> n \<and> n < 32 \<and> bit a (n - 24)))"
  by (simp only: be32_def bit_or_iff bit_push_bit_iff bit_unsigned_iff possible_bit_word)
    (auto dest: bit_imp_le_length)

lemma byte_bits:
  "bit (byte3 x) n = (n < 8 \<and> bit x (24 + n))"
  "bit (byte2 x) n = (n < 8 \<and> bit x (16 + n))"
  "bit (byte1 x) n = (n < 8 \<and> bit x (8 + n))"
  "bit (byte0 x) n = (n < 8 \<and> bit x n)"
  by (simp_all add: byte3_def byte2_def byte1_def byte0_def bit_unsigned_iff bit_drop_bit_eq)

lemma be32_bytes [simp]: "be32 (byte3 x) (byte2 x) (byte1 x) (byte0 x) = x"
proof (rule bit_word_eqI)
  fix n assume n: "n < LENGTH(32)"
  then consider "n < 8" | "8 \<le> n" "n < 16" | "16 \<le> n" "n < 24" | "24 \<le> n" "n < 32"
    by fastforce
  then show "bit (be32 (byte3 x) (byte2 x) (byte1 x) (byte0 x)) n = bit x n"
    by cases (auto simp add: bit_be32 byte_bits)
qed

lemma byte3_be32 [simp]: "byte3 (be32 a b c d) = a"
  by (rule bit_word_eqI) (simp add: bit_be32 byte_bits bit_u8_ge)

lemma byte2_be32 [simp]: "byte2 (be32 a b c d) = b"
  by (rule bit_word_eqI) (simp add: bit_be32 byte_bits bit_u8_ge)

lemma byte1_be32 [simp]: "byte1 (be32 a b c d) = c"
  by (rule bit_word_eqI) (simp add: bit_be32 byte_bits bit_u8_ge)

lemma byte0_be32 [simp]: "byte0 (be32 a b c d) = d"
  by (rule bit_word_eqI) (simp add: bit_be32 byte_bits bit_u8_ge)

subsection \<open>Words as numbers\<close>

lemma unat_u8_bound [simp]: "unat (x :: u8) < 256"
  using unsigned_less [of x, where 'a = nat] by simp

lemma unat_u16_bound [simp]: "unat (x :: u16) < 65536"
  using unsigned_less [of x, where 'a = nat] by simp

lemma unat_u32_bound [simp]: "unat (x :: u32) < 4294967296"
  using unsigned_less [of x, where 'a = nat] by simp

lemma unat_inc32: "unat (x + 1 :: u32) = (if unat x = 4294967295 then 0 else Suc (unat x))"
proof (cases "unat x = 4294967295")
  case True
  then have "x = 4294967295"
    by (simp add: word_unat_eq_iff)
  then show ?thesis by simp
next
  case False
  with unat_u32_bound [of x] have "Suc (unat x) < 4294967296" by linarith
  with False show ?thesis by (simp add: unat_word_ariths)
qed

lemma unat_ucast_16_32 [simp]: "unat (ucast (x :: u16) :: u32) = unat x"
proof -
  have "unat x < 4294967296" using unat_u16_bound [of x] by linarith
  then show ?thesis by (simp add: unsigned_ucast_eq take_bit_eq_mod)
qed

lemma unat_plus_u32:
  "unat a + unat b < 4294967296 \<Longrightarrow> unat (a + b :: u32) = unat a + unat b"
  by (simp add: unat_word_ariths)

lemma unat_sum_16_32 [simp]: "unat (ucast (a :: u16) + ucast b :: u32) = unat a + unat (b :: u16)"
proof -
  have "unat a + unat b < 4294967296"
    using unat_u16_bound [of a] unat_u16_bound [of b] by linarith
  then show ?thesis by (subst unat_plus_u32) simp_all
qed

lemma unat_ucast_32_16: "unat (x :: u32) < 65536 \<Longrightarrow> unat (ucast x :: u16) = unat x"
  by (simp add: unsigned_ucast_eq take_bit_eq_mod)

lemma unat_ucast_32_64 [simp]: "unat (ucast (x :: u32) :: u64) = unat x"
proof -
  have "unat x < 18446744073709551616" using unat_u32_bound [of x] by linarith
  then show ?thesis by (simp add: unsigned_ucast_eq take_bit_eq_mod)
qed

lemma unat_diff_u64: "unat b \<le> unat a \<Longrightarrow> unat (a - b :: u64) = unat a - unat b"
  by (simp add: unat_sub word_le_nat_alt)

subsection \<open>Running a stateful operation over a sequence of inputs\<close>

fun run :: "('s \<Rightarrow> 'a \<Rightarrow> 'b \<times> 's) \<Rightarrow> 's \<Rightarrow> 'a list \<Rightarrow> 'b list \<times> 's" where
  "run f s [] = ([], s)"
| "run f s (x # xs) = (let (y, s1) = f s x; (ys, s2) = run f s1 xs in (y # ys, s2))"

lemma run_append:
  "run f s (xs @ ys) = (let (us, s1) = run f s xs; (vs, s2) = run f s1 ys in (us @ vs, s2))"
  by (induction xs arbitrary: s) (simp_all add: Let_def split_def)

lemma run_length [simp]: "length (fst (run f s xs)) = length xs"
  by (induction xs arbitrary: s) (simp_all add: Let_def split_def)

lemma run_invariant:
  "(\<And>s x. I s \<Longrightarrow> I (snd (f s x))) \<Longrightarrow> I s \<Longrightarrow> I (snd (run f s xs))"
  by (induction xs arbitrary: s) (simp_all add: Let_def split_def)

lemma sum_list_replicate_1 [simp]: "sum_list (replicate n (Suc 0)) = n"
  by (simp add: sum_list_replicate)

subsection \<open>Numbers as text\<close>

definition digit :: "nat \<Rightarrow> char" where
  "digit n = (if n < 10 then char_of (48 + n) else char_of (55 + n))"

text \<open>The \<open>%u\<close> conversion.\<close>

fun dec :: "nat \<Rightarrow> string" where
  "dec n = (if n < 10 then [digit n] else dec (n div 10) @ [digit (n mod 10)])"

declare dec.simps [simp del]

text \<open>The \<open>%02X\<close> conversion of a byte, and of a buffer.\<close>

definition hex2 :: "u8 \<Rightarrow> string" where
  "hex2 b = [digit (unat b div 16), digit (unat b mod 16)]"

definition to_hex :: "bytes \<Rightarrow> string" where
  "to_hex p = concat (map hex2 p)"

definition undigit :: "char \<Rightarrow> nat" where
  "undigit c = (let n = of_char c :: nat in if n < 58 then n - 48 else n - 55)"

fun of_hex :: "string \<Rightarrow> bytes" where
  "of_hex (a # b # s) = of_nat (16 * undigit a + undigit b) # of_hex s"
| "of_hex _ = []"

lemma undigit_digit: "n < 16 \<Longrightarrow> undigit (digit n) = n"
  by (auto simp: undigit_def digit_def Let_def)

lemma of_hex_to_hex [simp]: "of_hex (to_hex p) = p"
proof (induction p)
  case (Cons b p)
  have "unat b div 16 < 16" using unat_u8_bound [of b] by (simp add: less_mult_imp_div_less)
  then show ?case using Cons by (simp add: to_hex_def hex2_def undigit_digit)
qed (simp add: to_hex_def)

lemma to_hex_length [simp]: "length (to_hex p) = 2 * length p"
  by (induction p) (simp_all add: to_hex_def hex2_def)

lemma dec_length_bound: "n < 10 ^ Suc k \<Longrightarrow> length (dec n) \<le> Suc k"
proof (induction k arbitrary: n)
  case 0
  then show ?case by (simp add: dec.simps)
next
  case (Suc k)
  then have "n div 10 < 10 ^ Suc k" by (simp add: less_mult_imp_div_less mult.commute)
  from Suc.IH [OF this] show ?case by (simp add: dec.simps [of n])
qed

lemma dec_u8: "length (dec (unat (x :: u8))) \<le> 3"
  using dec_length_bound [of "unat x" 2] unat_u8_bound [of x] by simp

lemma dec_u16: "length (dec (unat (x :: u16))) \<le> 5"
  using dec_length_bound [of "unat x" 4] unat_u16_bound [of x] by simp

lemma dec_u32: "length (dec (unat (x :: u32))) \<le> 10"
  using dec_length_bound [of "unat x" 9] unat_u32_bound [of x] by simp

subsection \<open>Reading text\<close>

definition is_space :: "char \<Rightarrow> bool" where
  "is_space c \<longleftrightarrow> c = CHR '' '' \<or> c = CHR 0x09 \<or> c = CHR 0x0A \<or> c = CHR 0x0B \<or> c = CHR 0x0C \<or> c = CHR 0x0D"

text \<open>The tokens that \<open>>>\<close> reads from a line, in order.\<close>

function tokens :: "string \<Rightarrow> string list" where
  "tokens [] = []"
| "tokens (c # s) =
     (if is_space c then tokens s
      else (c # takeWhile (\<lambda>d. \<not> is_space d) s) # tokens (dropWhile (\<lambda>d. \<not> is_space d) s))"
  by pat_completeness auto
termination
  by (relation "measure length") (auto simp: length_dropWhile_le le_imp_less_Suc)

definition digit_val :: "char \<Rightarrow> nat" where
  "digit_val c = (let n = of_char c :: nat in
     if 48 \<le> n \<and> n \<le> 57 then n - 48
     else if 97 \<le> n \<and> n \<le> 122 then n - 87
     else if 65 \<le> n \<and> n \<le> 90 then n - 55 else 99)"

text \<open>
  \<open>strtoul\<close> on a token without leading white space: the value modulo 2^64, and what follows the
  number; an overflow gives the largest value, and a token without digits is returned whole.
\<close>

definition digits_of :: "nat \<Rightarrow> string \<Rightarrow> string" where
  "digits_of base s = takeWhile (\<lambda>c. digit_val c < base) s"

definition number_of :: "nat \<Rightarrow> string \<Rightarrow> nat" where
  "number_of base ds = fold (\<lambda>c n. n * base + digit_val c) ds 0"

definition strip_sign :: "string \<Rightarrow> bool \<times> string" where
  "strip_sign s = (case s of c # r \<Rightarrow>
     if c = CHR ''-'' then (True, r) else if c = CHR ''+'' then (False, r) else (False, s)
   | [] \<Rightarrow> (False, s))"

definition strip_0x :: "nat \<Rightarrow> string \<Rightarrow> string" where
  "strip_0x base s = (case s of a # b # c # r \<Rightarrow>
     if base = 16 \<and> a = CHR ''0'' \<and> (b = CHR ''x'' \<or> b = CHR ''X'') \<and> digit_val c < 16
     then c # r else s
   | _ \<Rightarrow> s)"

definition strtoul :: "nat \<Rightarrow> string \<Rightarrow> nat \<times> string" where
  "strtoul base s = (let (neg, r) = strip_sign s; r = strip_0x base r; ds = digits_of base r;
       n = number_of base ds in
     if ds = [] then (0, s)
     else (if n \<ge> 2 ^ 64 then 2 ^ 64 - 1 else if neg then (2 ^ 64 - n) mod 2 ^ 64 else n,
           drop (length ds) r))"

subsection \<open>Bounded queues\<close>

text \<open>
  The contract of a queue that refuses what does not fit: \<open>offer\<close> appends the converted element
  while the queue is open and shorter than its capacity, and otherwise leaves the items alone.
\<close>

locale bounded_queue =
  fixes items :: "'s \<Rightarrow> 'e list"
    and offer :: "'a \<Rightarrow> 's \<Rightarrow> 's"
    and conv :: "'a \<Rightarrow> 'e"
    and open_for :: "'s \<Rightarrow> bool"
    and cap :: nat
  assumes offer_items:
    "items (offer a s) = (if open_for s \<and> length (items s) < cap then items s @ [conv a] else items s)"
begin

lemma offer_bounded: "length (items s) \<le> cap \<Longrightarrow> length (items (offer a s)) \<le> cap"
  by (simp add: offer_items)

lemma offers_bounded: "length (items s) \<le> cap \<Longrightarrow> length (items (fold offer as s)) \<le> cap"
  by (induction "as" arbitrary: s) (simp_all add: offer_bounded)

lemma offer_keeps_prefix: "\<exists>new. items (offer a s) = items s @ new"
  by (simp add: offer_items)

end

text \<open>A queue that stays open: it keeps the first offers that fit, in order, and drops the rest.\<close>

locale fifo_queue = bounded_queue +
  assumes stays_open: "open_for s \<Longrightarrow> open_for (offer a s)"
begin

lemma offers_items:
  "open_for s \<Longrightarrow> length (items s) \<le> cap \<Longrightarrow>
   items (fold offer as s) = take cap (items s @ map conv as)"
proof (induction "as" arbitrary: s)
  case (Cons a "as")
  then show ?case
    using Cons.IH [of "offer a s"] offer_bounded [of s a]
    by (auto simp: stays_open offer_items take_Cons')
qed simp

end

end
