(* ===== verification/Idsm_Types.thy ===== *)
theory Idsm_Types
  imports Idsm_Prelude
begin

text \<open>
  The data of the IdsM library, from \<open>include/IdsM_Types.h\<close> and \<open>include/IdsM_Internal.h\<close>:
  return codes, the enumerations, the event and configuration structures, and the per-event
  run-time state of the manager. A pointer that may be null is an \<open>option\<close>; a pointer with a
  separate size is the memory it points to (a list of bytes) together with the size field, so
  that the size can disagree with the memory, as it can in C. An enumeration that is only
  compared with its enumerators has one constructor for each; the reporting mode, which the code
  range-checks as a number, has a constructor for the values outside its enumerators too.
\<close>

subsection \<open>Return codes and constants\<close>

definition E_OK :: u8 where [idsm_defs]: "E_OK = 0x00"
definition E_NOT_OK :: u8 where [idsm_defs]: "E_NOT_OK = 0x01"
definition E_PARAM_POINTER :: u8 where [idsm_defs]: "E_PARAM_POINTER = 0x02"
definition E_PARAM_CONFIG :: u8 where [idsm_defs]: "E_PARAM_CONFIG = 0x03"
definition E_MODE_INVALID :: u8 where [idsm_defs]: "E_MODE_INVALID = 0x04"

definition EXTERNAL_EVENT_ID_INVALID :: u16 where
  [idsm_defs]: "EXTERNAL_EVENT_ID_INVALID = 0xFFFF"
definition INSTANCE_ID_MAX :: u16 where [idsm_defs]: "INSTANCE_ID_MAX = 1023"

lemma return_codes_distinct [simp]:
  "E_OK \<noteq> E_NOT_OK" "E_OK \<noteq> E_PARAM_POINTER" "E_OK \<noteq> E_PARAM_CONFIG"
  "E_NOT_OK \<noteq> E_OK" "E_PARAM_POINTER \<noteq> E_OK" "E_PARAM_CONFIG \<noteq> E_OK"
  "E_PARAM_POINTER \<noteq> E_PARAM_CONFIG" "E_PARAM_CONFIG \<noteq> E_PARAM_POINTER"
  by (simp_all add: idsm_defs)

subsection \<open>Enumerations\<close>

datatype detection_status = STATUS_OK | STATUS_VIOLATION | STATUS_UNINITIALIZED

datatype severity = SEVERITY_LOW | SEVERITY_MEDIUM | SEVERITY_HIGH | SEVERITY_CRITICAL

datatype timestamp_source = SOURCE_AUTOSAR | SOURCE_OEM

datatype reporting_mode =
    REPORTING_OFF | REPORTING_BRIEF | REPORTING_DETAILED
  | REPORTING_BRIEF_BYPASSING_FILTERS | REPORTING_DETAILED_BYPASSING_FILTERS
  | REPORTING_OTHER nat

fun severity_val :: "severity \<Rightarrow> nat" where
  "severity_val SEVERITY_LOW = 0"
| "severity_val SEVERITY_MEDIUM = 1"
| "severity_val SEVERITY_HIGH = 2"
| "severity_val SEVERITY_CRITICAL = 3"

text \<open>\<open>REPORTING_OTHER n\<close> is the enumeration value \<open>5 + n\<close>, which C lets a caller pass.\<close>

fun mode_val :: "reporting_mode \<Rightarrow> nat" where
  "mode_val REPORTING_OFF = 0"
| "mode_val REPORTING_BRIEF = 1"
| "mode_val REPORTING_DETAILED = 2"
| "mode_val REPORTING_BRIEF_BYPASSING_FILTERS = 3"
| "mode_val REPORTING_DETAILED_BYPASSING_FILTERS = 4"
| "mode_val (REPORTING_OTHER n) = 5 + n"

lemma mode_val_inj: "mode_val a = mode_val b \<Longrightarrow> a = b"
  by (cases a; cases b) simp_all

lemma severity_val_inj: "severity_val a = severity_val b \<Longrightarrow> a = b"
  by (cases a; cases b) simp_all

instantiation reporting_mode :: linorder
begin
definition less_eq_reporting_mode :: "reporting_mode \<Rightarrow> reporting_mode \<Rightarrow> bool" where
  "a \<le> b = (mode_val a \<le> mode_val b)"
definition less_reporting_mode :: "reporting_mode \<Rightarrow> reporting_mode \<Rightarrow> bool" where
  "a < b = (mode_val a < mode_val b)"
instance
  by standard (auto simp: less_eq_reporting_mode_def less_reporting_mode_def intro: mode_val_inj)
end

instantiation severity :: linorder
begin
definition less_eq_severity :: "severity \<Rightarrow> severity \<Rightarrow> bool" where
  "a \<le> b = (severity_val a \<le> severity_val b)"
definition less_severity :: "severity \<Rightarrow> severity \<Rightarrow> bool" where
  "a < b = (severity_val a < severity_val b)"
instance
  by standard (auto simp: less_eq_severity_def less_severity_def intro: severity_val_inj)
end

lemma mode_gt_max_iff: "REPORTING_DETAILED_BYPASSING_FILTERS < m \<longleftrightarrow> (\<exists>n. m = REPORTING_OTHER n)"
  by (cases m) (auto simp: less_reporting_mode_def)

subsection \<open>Events\<close>

record timestamp_data =
  ts_seconds :: u32
  ts_nanoseconds :: u32
  ts_source :: timestamp_source

text \<open>\<open>IdsM_TimestampDataType ts{}\<close>: every field zero.\<close>

definition timestamp_zero :: timestamp_data where
  "timestamp_zero = \<lparr> ts_seconds = 0, ts_nanoseconds = 0, ts_source = SOURCE_AUTOSAR \<rparr>"

text \<open>\<open>IdsM_QualifiedSecurityEventType\<close>, the C view of a qualified event.\<close>

record qsev_c =
  q_idsm_instance_id :: u16
  q_external_event_id :: u16
  q_sensor_instance_id :: u8
  q_severity :: severity
  q_count :: u16
  q_has_timestamp :: bool
  q_timestamp :: timestamp_data
  q_context_data_version :: u16
  q_context_data :: "bytes option"
  q_context_data_size :: u16

text \<open>\<open>IdsM_OwnedSEv\<close>, an event in the ingress queue.\<close>

record owned_sev =
  s_event_id :: u16
  s_context_data :: bytes
  s_context_data_version :: u16
  s_count :: u16
  s_has_timestamp :: bool
  s_timestamp :: timestamp_data

text \<open>\<open>IdsM_OwnedQSEv\<close>, a qualified event that owns its context data.\<close>

record owned_qsev =
  o_idsm_instance_id :: u16
  o_external_event_id :: u16
  o_sensor_instance_id :: u8
  o_severity :: severity
  o_count :: u16
  o_has_timestamp :: bool
  o_timestamp :: timestamp_data
  o_context_data_version :: u16
  o_context_data :: bytes

definition to_c :: "owned_qsev \<Rightarrow> qsev_c" where
  "to_c q = \<lparr>
     q_idsm_instance_id = o_idsm_instance_id q,
     q_external_event_id = o_external_event_id q,
     q_sensor_instance_id = o_sensor_instance_id q,
     q_severity = o_severity q,
     q_count = o_count q,
     q_has_timestamp = o_has_timestamp q,
     q_timestamp = o_timestamp q,
     q_context_data_version = o_context_data_version q,
     q_context_data = (if o_context_data q = [] then None else Some (o_context_data q)),
     q_context_data_size = of_nat (length (o_context_data q)) \<rparr>"

subsection \<open>Configuration\<close>

text \<open>
  \<open>blocked_states[8]\<close> and \<open>num_blocked_states\<close>: the list holds the entries of the array, the
  count is the separate byte that the code trusts.
\<close>

record block_state_config =
  bs_blocked_states :: "u8 list"
  bs_num_blocked_states :: u8

record sev_config =
  c_external_event_id :: u16
  c_sensor_instance_id :: u8
  c_severity :: severity
  c_default_reporting_mode :: reporting_mode
  c_block_state :: "block_state_config option"
  c_forward_every_nth :: u16
  c_aggregation_interval_ms :: u32
  c_threshold :: u16
  c_threshold_interval_ms :: u32
  c_sink_to_dem :: bool
  c_sink_to_idsr :: bool

record idsm_config =
  g_idsm_instance_id :: u16
  g_main_function_period_ms :: u32
  g_rate_max_events :: u32
  g_rate_interval_ms :: u32
  g_traffic_max_bytes :: u32
  g_traffic_interval_ms :: u32
  g_sev_configs :: "sev_config list option"
  g_sev_count :: u16
  g_event_buffer_size :: u32

subsection \<open>Run-time state of one security event\<close>

text \<open>\<open>IdsM_SevState\<close>.\<close>

record sev_state =
  v_config :: sev_config
  v_reporting_mode :: reporting_mode
  v_detection_status :: detection_status
  v_pending_count :: u32
  v_nth_counter :: u16
  v_agg_pending :: "owned_qsev option"
  v_agg_has_context :: bool
  v_agg_window_start_ms :: u32
  v_thr_accumulated :: u32
  v_thr_window_start_ms :: u32
  v_thr_window_open :: bool

end
