(* ===== verification/Idsm_Filters.thy ===== *)
theory Idsm_Filters
  imports Idsm_Types
begin

text \<open>
  The filter chain of \<open>src/IdsM_Manager.cpp\<close>: Block State, Forward Every Nth, Event Aggregation and
  Event Threshold, each on the run-time state of one security event. A filter that returns
  \<open>bool\<close> and mutates its argument gives the pair of its result and the new state. The clock
  reading a filter takes is an argument. Reading \<open>blocked_states\<close> outside its array is \<open>None\<close>.
\<close>

subsection \<open>The filters\<close>

fun scan_blocked :: "u8 list \<Rightarrow> u8 \<Rightarrow> nat \<Rightarrow> nat \<Rightarrow> bool option" where
  "scan_blocked states s i 0 = Some False"
| "scan_blocked states s i (Suc n) =
     do { b \<leftarrow> rd8 states i; if b = s then Some True else scan_blocked states s (i + 1) n }"

definition isBlockedByState :: "sev_state \<Rightarrow> u8 \<Rightarrow> bool option" where
  "isBlockedByState sev block_state = (case c_block_state (v_config sev) of
     None \<Rightarrow> Some False
   | Some cfg \<Rightarrow>
       scan_blocked (bs_blocked_states cfg) block_state 0 (unat (bs_num_blocked_states cfg)))"

definition passForwardEveryNth :: "sev_state \<Rightarrow> u16 \<Rightarrow> bool \<times> sev_state" where
  "passForwardEveryNth sev count = (let n = c_forward_every_nth (v_config sev) in
     if n = 0 then (True, sev)
     else let accumulated = (ucast (v_nth_counter sev) + ucast count :: u32) in
       if accumulated \<ge> ucast n then (True, sev\<lparr>v_nth_counter := 0\<rparr>)
       else (False, sev\<lparr>v_nth_counter := ucast accumulated\<rparr>))"

definition passAggregation :: "sev_state \<Rightarrow> owned_qsev \<Rightarrow> u32 \<Rightarrow> bool \<times> sev_state" where
  "passAggregation sev qsev now =
     (if c_aggregation_interval_ms (v_config sev) = 0 then (True, sev)
      else case v_agg_pending sev of
        None \<Rightarrow> (False, sev\<lparr>v_agg_pending := Some qsev,
                             v_agg_has_context := (o_context_data qsev \<noteq> []),
                             v_agg_window_start_ms := now\<rparr>)
      | Some staged \<Rightarrow>
          let merged = (ucast (o_count staged) + ucast (o_count qsev) :: u32) in
          (False, sev\<lparr>v_agg_pending :=
             Some (staged\<lparr>o_count := ucast (if merged > 0xFFFF then 0xFFFF else merged)\<rparr>)\<rparr>))"

definition passThreshold :: "sev_state \<Rightarrow> u16 \<Rightarrow> u32 \<Rightarrow> bool \<times> sev_state" where
  "passThreshold sev count now_ms = (let threshold = c_threshold (v_config sev) in
     if threshold = 0 then (True, sev)
     else let sev = (if \<not> v_thr_window_open sev
                     then sev\<lparr>v_thr_window_open := True, v_thr_window_start_ms := now_ms,
                              v_thr_accumulated := 0\<rparr>
                     else sev);
              sev = sev\<lparr>v_thr_accumulated := v_thr_accumulated sev + ucast count\<rparr>
          in (v_thr_accumulated sev \<ge> ucast threshold, sev))"

subsection \<open>Block State\<close>

text \<open>A configuration whose count of blocked states stays inside the array of eight.\<close>

definition block_config_ok :: "sev_config \<Rightarrow> bool" where
  "block_config_ok c = (case c_block_state c of None \<Rightarrow> True
     | Some b \<Rightarrow> unat (bs_num_blocked_states b) \<le> length (bs_blocked_states b))"

lemma scan_blocked_Some:
  "i + n \<le> length xs \<Longrightarrow> scan_blocked xs s i n = Some (s \<in> set (take n (drop i xs)))"
  by (induction n arbitrary: i)
    (auto simp: rd_simps take_Suc hd_drop_conv_nth drop_Suc tl_drop)

lemma scan_blocked_None:
  "length xs < i + n \<Longrightarrow> s \<notin> set (drop i xs) \<Longrightarrow> i \<le> length xs \<Longrightarrow> scan_blocked xs s i n = None"
proof (induction n arbitrary: i)
  case (Suc n)
  show ?case
  proof (cases "i < length xs")
    case True
    then have "drop i xs = xs ! i # drop (Suc i) xs" by (simp add: Cons_nth_drop_Suc)
    with Suc True show ?thesis by (auto simp: rd_simps)
  qed (simp add: rd8_def)
qed simp

lemma isBlockedByState_Some:
  "block_config_ok (v_config sev) \<Longrightarrow> isBlockedByState sev s = Some (case c_block_state (v_config sev) of
     None \<Rightarrow> False
   | Some b \<Rightarrow> s \<in> set (take (unat (bs_num_blocked_states b)) (bs_blocked_states b)))"
  by (auto simp: isBlockedByState_def block_config_ok_def scan_blocked_Some split: option.splits)

subsection \<open>Forward Every Nth\<close>

lemma nth_pass:
  "fst (passForwardEveryNth sev c) = (c_forward_every_nth (v_config sev) = 0 \<or>
     unat (c_forward_every_nth (v_config sev)) \<le> unat (v_nth_counter sev) + unat c)"
  by (simp add: passForwardEveryNth_def Let_def word_le_nat_alt)

lemma nth_counter:
  "unat (v_nth_counter (snd (passForwardEveryNth sev c))) =
     (if c_forward_every_nth (v_config sev) = 0 then unat (v_nth_counter sev)
      else if fst (passForwardEveryNth sev c) then 0 else unat (v_nth_counter sev) + unat c)"
proof (cases "c_forward_every_nth (v_config sev) = 0 \<or> fst (passForwardEveryNth sev c)")
  case True
  then show ?thesis by (auto simp: passForwardEveryNth_def Let_def split: if_splits)
next
  case False
  then have lt: "unat (v_nth_counter sev) + unat c < unat (c_forward_every_nth (v_config sev))"
    by (simp add: nth_pass)
  with unat_u16_bound [of "c_forward_every_nth (v_config sev)"]
  have "unat (v_nth_counter sev) + unat c < 65536" by linarith
  with False lt show ?thesis
    by (simp add: passForwardEveryNth_def Let_def word_le_nat_alt unat_ucast_32_16)
qed

lemma nth_frame:
  "\<exists>k. snd (passForwardEveryNth sev c) = sev\<lparr>v_nth_counter := k\<rparr>"
  by (auto simp: passForwardEveryNth_def Let_def intro: exI [of _ "v_nth_counter sev"])

lemma nth_config [simp]:
  "v_config (snd (passForwardEveryNth sev c)) = v_config sev"
  by (simp_all add: passForwardEveryNth_def Let_def)

lemma nth_run_from:
  assumes "c_forward_every_nth (v_config sev) = n" "n \<noteq> 0" "unat (v_nth_counter sev) < unat n"
  shows "fst (run passForwardEveryNth sev (replicate k 1)) =
     map (\<lambda>i. (unat (v_nth_counter sev) + i + 1) mod unat n = 0) [0..<k]"
  using assms
proof (induction k arbitrary: sev)
  case (Suc k)
  let ?j = "unat (v_nth_counter sev)"
  let ?s = "snd (passForwardEveryNth sev 1)"
  have pass: "fst (passForwardEveryNth sev 1) = (unat n = ?j + 1)"
    using Suc.prems by (auto simp: nth_pass)
  have cnt: "unat (v_nth_counter ?s) = (?j + 1) mod unat n"
    using Suc.prems pass by (auto simp: nth_counter)
  have n0: "0 < unat n" using Suc.prems by (simp add: unat_gt_0)
  have IH: "fst (run passForwardEveryNth ?s (replicate k 1)) =
     map (\<lambda>i. (unat (v_nth_counter ?s) + i + 1) mod unat n = 0) [0..<k]"
    by (rule Suc.IH)
      (simp_all only: nth_config Suc.prems cnt mod_less_divisor [OF n0] not_False_eq_True)
  have hd: "((?j + 1) mod unat n = 0) = (unat n = ?j + 1)"
    using Suc.prems by (cases "unat n = ?j + 1") auto
  have tl: "((?j + 1) mod unat n + i + 1) mod unat n = (?j + (i + 1) + 1) mod unat n" for i
  proof -
    have "((?j + 1) mod unat n + i + 1) mod unat n = ((?j + 1) mod unat n + (i + 1)) mod unat n"
      by (simp only: add.assoc)
    also have "\<dots> = (?j + 1 + (i + 1)) mod unat n" by (rule mod_add_left_eq)
    also have "\<dots> = (?j + (i + 1) + 1) mod unat n" by (simp only: ac_simps)
    finally show ?thesis .
  qed
  have up: "[0..<Suc k] = 0 # map Suc [0..<k]"
    by (simp add: map_Suc_upt upt_conv_Cons del: upt_Suc)
  show ?case
    unfolding up replicate_Suc run.simps Let_def split_def fst_conv IH pass cnt
    using hd tl by simp
qed simp

subsection \<open>Event Aggregation\<close>

definition merge_counts :: "u16 \<Rightarrow> u16 \<Rightarrow> u16" where
  "merge_counts a b = (let merged = (ucast a + ucast b :: u32) in
     ucast (if merged > 0xFFFF then 0xFFFF else merged))"

lemma unat_merge_counts: "unat (merge_counts a b) = min 65535 (unat a + unat b)"
  by (auto simp: merge_counts_def Let_def word_less_nat_alt unat_ucast_32_16 min_def)

lemma passAggregation_merge:
  "c_aggregation_interval_ms (v_config sev) \<noteq> 0 \<Longrightarrow> v_agg_pending sev = Some staged \<Longrightarrow>
   passAggregation sev q t = (False, sev\<lparr>v_agg_pending :=
     Some (staged\<lparr>o_count := merge_counts (o_count staged) (o_count q)\<rparr>)\<rparr>)"
  by (simp add: passAggregation_def merge_counts_def Let_def)

lemma aggregation_staged:
  assumes "c_aggregation_interval_ms (v_config sev) \<noteq> 0" "v_agg_pending sev = Some staged"
  shows "run (\<lambda>s (q, t). passAggregation s q t) sev es =
     (replicate (length es) False, sev\<lparr>v_agg_pending := Some (staged\<lparr>o_count :=
        of_nat (min 65535 (unat (o_count staged) + (\<Sum>(q, t) \<leftarrow> es. unat (o_count q))))\<rparr>)\<rparr>)"
  using assms
proof (induction es arbitrary: sev staged)
  case Nil
  have "min 65535 (unat (o_count staged)) = unat (o_count staged)"
    using unat_u16_bound [of "o_count staged"] by linarith
  with Nil show ?case by simp
next
  case (Cons e es)
  obtain q t where e: "e = (q, t)" by (cases e)
  define c where "c = merge_counts (o_count staged) (o_count q)"
  have c: "unat c = min 65535 (unat (o_count staged) + unat (o_count q))"
    unfolding c_def by (rule unat_merge_counts)
  have step: "passAggregation sev q t =
     (False, sev\<lparr>v_agg_pending := Some (staged\<lparr>o_count := c\<rparr>)\<rparr>)"
    using Cons.prems unfolding c_def by (rule passAggregation_merge)
  have "min 65535 (min 65535 (a + b) + d) = min 65535 (a + (b + d :: nat))" for a b d
    by (simp add: min_def)
  then show ?case
    using Cons.prems
    by (simp add: e step Cons.IH [of _ "staged\<lparr>o_count := c\<rparr>"] c)
qed

subsection \<open>Event Threshold\<close>

lemma threshold_step:
  assumes "c_threshold (v_config sev) \<noteq> 0" "v_thr_window_open sev"
    "unat (v_thr_accumulated sev) + unat c < 4294967296"
  shows "fst (passThreshold sev c t) =
           (unat (c_threshold (v_config sev)) \<le> unat (v_thr_accumulated sev) + unat c)"
    "unat (v_thr_accumulated (snd (passThreshold sev c t))) = unat (v_thr_accumulated sev) + unat c"
    "v_thr_window_open (snd (passThreshold sev c t))"
    "v_config (snd (passThreshold sev c t)) = v_config sev"
  using assms by (simp_all add: passThreshold_def Let_def word_le_nat_alt unat_plus_u32)

lemma threshold_run_open:
  assumes "c_threshold (v_config sev) \<noteq> 0" "v_thr_window_open sev"
    "unat (v_thr_accumulated sev) + (\<Sum>(c, t) \<leftarrow> es. unat (c :: u16)) < 4294967296"
  shows "fst (run (\<lambda>s (c, t). passThreshold s c t) sev es) =
     map (\<lambda>i. unat (c_threshold (v_config sev)) \<le>
               unat (v_thr_accumulated sev) + (\<Sum>(c, t) \<leftarrow> take (Suc i) es. unat c)) [0..<length es]"
  using assms
proof (induction es arbitrary: sev)
  case (Cons e es)
  obtain c t where e: "e = (c, t)" by (cases e)
  have b: "unat (v_thr_accumulated sev) + unat c < 4294967296"
    using Cons.prems(3) by (simp add: e)
  note st = threshold_step [OF Cons.prems(1,2) b, of t]
  have IH: "fst (run (\<lambda>s (c, t). passThreshold s c t) (snd (passThreshold sev c t)) es) =
     map (\<lambda>i. unat (c_threshold (v_config sev)) \<le>
        unat (v_thr_accumulated sev) + unat c + (\<Sum>(c, t) \<leftarrow> take (Suc i) es. unat c)) [0..<length es]"
    using Cons.prems st by (subst Cons.IH) (simp_all add: e)
  have up: "[0..<length (e # es)] = 0 # map Suc [0..<length es]"
    by (simp add: map_Suc_upt upt_conv_Cons del: upt_Suc)
  show ?case
    unfolding up by (simp add: e Let_def split_def st(1)) (simp add: IH [unfolded split_def] add.assoc)
qed simp

subsection \<open>Properties\<close>

definition sample_config :: sev_config where
  "sample_config = \<lparr> c_external_event_id = 0x8001, c_sensor_instance_id = 1,
     c_severity = SEVERITY_HIGH, c_default_reporting_mode = REPORTING_DETAILED,
     c_block_state = None, c_forward_every_nth = 0, c_aggregation_interval_ms = 0,
     c_threshold = 0, c_threshold_interval_ms = 0, c_sink_to_dem = True, c_sink_to_idsr = True \<rparr>"

text \<open>\<open>IdsM_SevState st{}\<close> followed by the assignments of \<open>Init\<close>.\<close>

definition init_sev :: "sev_config \<Rightarrow> sev_state" where
  "init_sev c = \<lparr> v_config = c, v_reporting_mode = c_default_reporting_mode c,
     v_detection_status = STATUS_UNINITIALIZED, v_pending_count = 0,
     v_nth_counter = c_forward_every_nth c, v_agg_pending = None, v_agg_has_context = False,
     v_agg_window_start_ms = 0, v_thr_accumulated = 0, v_thr_window_start_ms = 0,
     v_thr_window_open = False \<rparr>"

text \<open>
  C9: Forward Every Nth. Starting from the state that \<open>Init\<close> builds, of any number of single
  events exactly those at the positions 0, n, 2n, ... pass the filter (the first one included),
  whatever the configured n other than 0.
\<close>

theorem forward_every_nth:
  assumes "c_forward_every_nth c \<noteq> 0"
  shows "fst (run passForwardEveryNth (init_sev c) (replicate k 1)) =
     map (\<lambda>i. i mod unat (c_forward_every_nth c) = 0) [0..<k]"
proof (cases k)
  case (Suc k')
  define n where "n = unat (c_forward_every_nth c)"
  let ?s = "snd (passForwardEveryNth (init_sev c) 1)"
  have n0: "0 < n" using assms by (simp add: n_def unat_gt_0)
  have pass: "fst (passForwardEveryNth (init_sev c) 1)"
    by (simp add: nth_pass init_sev_def)
  have cnt: "unat (v_nth_counter ?s) = 0" and cfg: "v_config ?s = c"
    using assms pass by (simp_all add: nth_counter) (simp_all add: init_sev_def)
  have rest: "fst (run passForwardEveryNth ?s (replicate k' 1)) =
     map (\<lambda>i. (i + 1) mod n = 0) [0..<k']"
    using nth_run_from [of ?s "c_forward_every_nth c" k'] assms n0
    by (simp only: cnt cfg n_def [symmetric] add_0 simp_thms)
  have up: "[0..<Suc k'] = 0 # map Suc [0..<k']"
    by (simp add: map_Suc_upt upt_conv_Cons del: upt_Suc)
  show ?thesis
    unfolding Suc up replicate_Suc run.simps Let_def split_def fst_conv rest n_def [symmetric]
    using pass by simp
qed simp

lemma forward_every_nth_witness:
  "fst (run passForwardEveryNth (init_sev (sample_config\<lparr>c_forward_every_nth := 3\<rparr>)) (replicate 7 1)) =
     [True, False, False, True, False, False, True]"
  using forward_every_nth [of "sample_config\<lparr>c_forward_every_nth := 3\<rparr>" 7]
  by (simp add: sample_config_def upt_rec)

text \<open>
  Event Aggregation. With the filter configured and no window open, every event of a sequence
  is absorbed; what is staged afterwards is the first event, with its own context data and
  timestamp, carrying the sum of all counts, saturated at 65535, and the window opened when the
  first event came.
\<close>

lemma aggregation_merges:
  assumes "c_aggregation_interval_ms (v_config sev) \<noteq> 0" and "v_agg_pending sev = None"
  shows "run (\<lambda>s (q, t). passAggregation s q t) sev ((q, t) # es) =
     (replicate (length es + 1) False,
      sev\<lparr>v_agg_pending := Some (q\<lparr>o_count := of_nat
             (min 65535 (\<Sum>(q, t) \<leftarrow> (q, t) # es. unat (o_count q)))\<rparr>),
          v_agg_has_context := (o_context_data q \<noteq> []), v_agg_window_start_ms := t\<rparr>)"
proof -
  have "passAggregation sev q t = (False, sev\<lparr>v_agg_pending := Some q,
      v_agg_has_context := (o_context_data q \<noteq> []), v_agg_window_start_ms := t\<rparr>)"
    using assms by (simp add: passAggregation_def)
  then show ?thesis
    using assms by (simp add: aggregation_staged [where staged = q])
qed

definition sample_owned :: owned_qsev where
  "sample_owned = \<lparr> o_idsm_instance_id = 1, o_external_event_id = 0x8001,
     o_sensor_instance_id = 1, o_severity = SEVERITY_HIGH, o_count = 40000,
     o_has_timestamp = True, o_timestamp = timestamp_zero, o_context_data_version = 1,
     o_context_data = [1, 2, 3] \<rparr>"

text \<open>
  Event Threshold. When the window is closed, a sequence of events opens it, and each event
  passes exactly when the counts received in the window so far, its own included, reach the
  threshold, as long as the counts of the window sum to less than 2^32.
\<close>

lemma threshold_passes_from:
  assumes "c_threshold (v_config sev) \<noteq> 0" and "\<not> v_thr_window_open sev"
    and "(\<Sum>(c, t) \<leftarrow> es. unat (c :: u16)) < 2 ^ 32"
  shows "fst (run (\<lambda>s (c, t). passThreshold s c t) sev es) =
     map (\<lambda>i. unat (c_threshold (v_config sev)) \<le> (\<Sum>(c, t) \<leftarrow> take (Suc i) es. unat c))
       [0..<length es]"
proof (cases es)
  case (Cons e es')
  obtain c t where e: "e = (c, t)" by (cases e)
  let ?s = "sev\<lparr>v_thr_window_open := True, v_thr_window_start_ms := t, v_thr_accumulated := 0\<rparr>"
  have "passThreshold sev c t = passThreshold ?s c t"
    using assms by (simp add: passThreshold_def)
  then have "run (\<lambda>s (c, t). passThreshold s c t) sev es = run (\<lambda>s (c, t). passThreshold s c t) ?s es"
    by (simp add: Cons e)
  then show ?thesis
    using assms threshold_run_open [of ?s es] by simp
qed simp

text \<open>
  Block State. The number of blocked states is not validated against the array of eight: when
  it is larger than the array and the current state is not among the entries, the filter reads
  past the end of the array.
\<close>

theorem block_state_overread:
  assumes "c_block_state (v_config sev) = Some b"
    and "length (bs_blocked_states b) < unat (bs_num_blocked_states b)"
    and "s \<notin> set (bs_blocked_states b)"
  shows "isBlockedByState sev s = None"
  using assms by (simp add: isBlockedByState_def scan_blocked_None)

lemma block_state_overread_witness:
  "isBlockedByState (init_sev (sample_config\<lparr>c_block_state :=
     Some \<lparr> bs_blocked_states = replicate 8 1, bs_num_blocked_states = 9 \<rparr>\<rparr>)) 0 = None"
  by (rule block_state_overread
      [where b = "\<lparr> bs_blocked_states = replicate 8 1, bs_num_blocked_states = 9 \<rparr>"]) (simp_all add: init_sev_def sample_config_def)

end
