(* ===== verification/Idsm_Manager.thy ===== *)
theory Idsm_Manager
  imports Idsm_Filters
begin

text \<open>
  The class \<open>IdsM_Manager\<close> of \<open>src/IdsM_Manager.cpp\<close>: its state, its public operations, and the
  operations of the worker thread. Every operation runs under \<open>m_mutex\<close>, so each is one
  transformation of the state. Clock readings are arguments. A sink callback is an opaque handle,
  and a call of it is appended to \<open>m_calls\<close> with the event it was given. \<open>None\<close> is an access
  out of bounds (in the Block State filter) or a call of \<open>std::terminate\<close> (in \<open>Init\<close>).
\<close>

subsection \<open>State\<close>

record stats =
  events_reported :: u32
  dropped_reporting_off :: u32
  dropped_block_state :: u32
  dropped_sampling :: u32
  dropped_threshold :: u32
  events_qualified :: u32
  sent_to_dem :: u32
  sent_to_idsr :: u32

definition stats_zero :: stats where
  "stats_zero = \<lparr> events_reported = 0, dropped_reporting_off = 0, dropped_block_state = 0,
     dropped_sampling = 0, dropped_threshold = 0, events_qualified = 0, sent_to_dem = 0,
     sent_to_idsr = 0 \<rparr>"

type_synonym callback = nat

record manager =
  m_worker_running :: bool
  m_thread_joinable :: bool
  m_incoming_queue :: "owned_sev list"
  m_sevs :: "sev_state list"
  m_idsm_instance_id :: u16
  m_main_function_period_ms :: u32
  m_block_state :: u8
  m_dem_cb :: "callback option"
  m_idsr_cb :: "callback option"
  m_nvm_cb :: "callback option"
  m_stats :: stats
  m_calls :: "(callback \<times> qsev_c) list"

definition manager_start :: manager where
  "manager_start = \<lparr> m_worker_running = False, m_thread_joinable = False, m_incoming_queue = [],
     m_sevs = [], m_idsm_instance_id = 0, m_main_function_period_ms = 10, m_block_state = 0,
     m_dem_cb = None, m_idsr_cb = None, m_nvm_cb = None, m_stats = stats_zero, m_calls = [] \<rparr>"

definition upd_stats :: "(stats \<Rightarrow> stats) \<Rightarrow> manager \<Rightarrow> manager" where
  "upd_stats f m = m\<lparr>m_stats := f (m_stats m)\<rparr>"

definition put_sev :: "nat \<Rightarrow> sev_state \<Rightarrow> manager \<Rightarrow> manager" where
  "put_sev i st m = m\<lparr>m_sevs := (m_sevs m)[i := st]\<rparr>"

text \<open>The readings of the clocks while one event is processed.\<close>

record clock =
  k_now_ms :: u32
  k_now_agg_ms :: u32
  k_sys_secs :: int
  k_sys_nanos :: int

subsection \<open>Qualification and dispatch\<close>

definition makeInternalTimestamp :: "int \<Rightarrow> int \<Rightarrow> timestamp_data" where
  "makeInternalTimestamp secs nanos =
     \<lparr> ts_seconds = of_int secs, ts_nanoseconds = of_int nanos AND 0x3FFFFFFF,
       ts_source = SOURCE_AUTOSAR \<rparr>"

definition dispatchQsev :: "sev_state \<Rightarrow> owned_qsev \<Rightarrow> manager \<Rightarrow> manager" where
  "dispatchQsev sev qsev m0 = (let
     c_qsev = to_c qsev;
     m1 = (case m_dem_cb m0 of
             Some cb \<Rightarrow> if c_sink_to_dem (v_config sev)
               then (upd_stats (\<lambda>s. s\<lparr>sent_to_dem := sent_to_dem s + 1\<rparr>) m0)
                      \<lparr>m_calls := m_calls m0 @ [(cb, c_qsev)]\<rparr>
               else m0
           | None \<Rightarrow> m0);
     m2 = (case m_idsr_cb m1 of
             Some cb \<Rightarrow> if c_sink_to_idsr (v_config sev)
               then (upd_stats (\<lambda>s. s\<lparr>sent_to_idsr := sent_to_idsr s + 1\<rparr>) m1)
                      \<lparr>m_calls := m_calls m1 @ [(cb, c_qsev)]\<rparr>
               else m1
           | None \<Rightarrow> m1)
     in m2)"

definition qualify :: "sev_state \<Rightarrow> owned_qsev \<Rightarrow> manager \<Rightarrow> manager" where
  "qualify sev qsev m =
     dispatchQsev sev qsev (upd_stats (\<lambda>s. s\<lparr>events_qualified := events_qualified s + 1\<rparr>) m)"

definition is_brief :: "reporting_mode \<Rightarrow> bool" where
  "is_brief mode = (mode = REPORTING_BRIEF \<or> mode = REPORTING_BRIEF_BYPASSING_FILTERS)"

definition is_bypassing :: "reporting_mode \<Rightarrow> bool" where
  "is_bypassing mode =
     (mode = REPORTING_BRIEF_BYPASSING_FILTERS \<or> mode = REPORTING_DETAILED_BYPASSING_FILTERS)"

definition build_qsev :: "manager \<Rightarrow> sev_state \<Rightarrow> owned_sev \<Rightarrow> clock \<Rightarrow> owned_qsev" where
  "build_qsev m state sev k = \<lparr>
     o_idsm_instance_id = m_idsm_instance_id m,
     o_external_event_id = c_external_event_id (v_config state),
     o_sensor_instance_id = c_sensor_instance_id (v_config state),
     o_severity = c_severity (v_config state),
     o_count = s_count sev,
     o_has_timestamp = True,
     o_timestamp = (if s_has_timestamp sev then s_timestamp sev
                    else makeInternalTimestamp (k_sys_secs k) (k_sys_nanos k)),
     o_context_data_version = s_context_data_version sev,
     o_context_data = (if is_brief (v_reporting_mode state) then [] else s_context_data sev) \<rparr>"

text \<open>The filter chain of \<open>processEvent\<close>, from the Block State filter to the dispatch.\<close>

definition run_chain ::
  "nat \<Rightarrow> sev_state \<Rightarrow> owned_qsev \<Rightarrow> clock \<Rightarrow> manager \<Rightarrow> manager option" where
  "run_chain i state0 qsev k m = do {
     blocked \<leftarrow> isBlockedByState state0 (m_block_state m);
     Some (if blocked
       then upd_stats (\<lambda>s. s\<lparr>dropped_block_state := dropped_block_state s + 1\<rparr>) m
       else let (ok1, state1) = passForwardEveryNth state0 (o_count qsev); m1 = put_sev i state1 m in
         if \<not> ok1 then upd_stats (\<lambda>s. s\<lparr>dropped_sampling := dropped_sampling s + 1\<rparr>) m1
         else let (ok2, state2) = passAggregation state1 qsev (k_now_agg_ms k);
                  m2 = put_sev i state2 m1 in
           if \<not> ok2 then m2
           else let (ok3, state3) = passThreshold state2 (o_count qsev) (k_now_ms k);
                    m3 = put_sev i state3 m2 in
             if \<not> ok3 then upd_stats (\<lambda>s. s\<lparr>dropped_threshold := dropped_threshold s + 1\<rparr>) m3
             else qualify state3 qsev m3) }"

definition processEvent :: "owned_sev \<Rightarrow> clock \<Rightarrow> manager \<Rightarrow> manager option" where
  "processEvent sev k m = (let i = unat (s_event_id sev) in
     if i \<ge> length (m_sevs m) then Some m
     else let state = m_sevs m ! i; mode = v_reporting_mode state in
       if mode = REPORTING_OFF
       then Some (upd_stats (\<lambda>s. s\<lparr>dropped_reporting_off := dropped_reporting_off s + 1\<rparr>) m)
       else let state = state\<lparr>v_detection_status := STATUS_VIOLATION\<rparr>;
                m = put_sev i state m;
                qsev = build_qsev m state sev k in
         if is_bypassing mode then Some (qualify state qsev m)
         else run_chain i state qsev k m)"

subsection \<open>Time windows\<close>

text \<open>
  Releasing a staged aggregate: the window is closed, and the aggregate continues with the
  Threshold filter. Used by \<open>expireWindows\<close> and by \<open>FlushEvents\<close>.
\<close>

definition release_agg :: "nat \<Rightarrow> sev_state \<Rightarrow> owned_qsev \<Rightarrow> u32 \<Rightarrow> manager \<Rightarrow> manager" where
  "release_agg i state released now_ms m = (let
     state = state\<lparr>v_agg_pending := None, v_agg_has_context := False\<rparr>;
     (ok, state) = passThreshold state (o_count released) now_ms;
     m = put_sev i state m
     in if ok then qualify state released m else m)"

definition earlier :: "u32 \<Rightarrow> u32 \<Rightarrow> u32" where
  "earlier next_deadline deadline =
     (if next_deadline = 0 \<or> deadline < next_deadline then deadline else next_deadline)"

definition expire_threshold :: "nat \<Rightarrow> sev_state \<Rightarrow> u32 \<Rightarrow> u32 \<Rightarrow> manager \<Rightarrow> u32 \<times> manager" where
  "expire_threshold i state now_ms next_deadline m =
     (if v_thr_window_open state
      then let deadline = v_thr_window_start_ms state + c_threshold_interval_ms (v_config state) in
        if now_ms \<ge> deadline
        then (next_deadline,
              put_sev i (state\<lparr>v_thr_window_open := False, v_thr_accumulated := 0\<rparr>) m)
        else (earlier next_deadline deadline, m)
      else (next_deadline, m))"

definition expire_sev :: "nat \<Rightarrow> u32 \<Rightarrow> u32 \<times> manager \<Rightarrow> u32 \<times> manager" where
  "expire_sev i now_ms acc = (let (next_deadline, m) = acc; state = m_sevs m ! i in
     case v_agg_pending state of
       Some staged \<Rightarrow>
         if c_aggregation_interval_ms (v_config state) \<noteq> 0
         then let deadline = v_agg_window_start_ms state + c_aggregation_interval_ms (v_config state) in
           if now_ms \<ge> deadline then (next_deadline, release_agg i state staged now_ms m)
           else expire_threshold i state now_ms (earlier next_deadline deadline) m
         else expire_threshold i state now_ms next_deadline m
     | None \<Rightarrow> expire_threshold i state now_ms next_deadline m)"

definition expireWindows :: "u32 \<Rightarrow> manager \<Rightarrow> u32 \<times> manager" where
  "expireWindows now_ms m =
     fold (\<lambda>i. expire_sev i now_ms) [0 ..< length (m_sevs m)] (0, m)"

definition shutdown_poll_ms :: u32 where "shutdown_poll_ms = 100"

text \<open>The time of the timed wait, when a deadline is pending.\<close>

definition wait_time :: "u32 \<Rightarrow> u32 \<Rightarrow> u32" where
  "wait_time next_deadline_ms now =
     max (if next_deadline_ms > now then min (next_deadline_ms - now) shutdown_poll_ms else 0) 1"

subsection \<open>The worker's queue\<close>

definition drain_pending :: "owned_sev \<Rightarrow> sev_state list \<Rightarrow> sev_state list" where
  "drain_pending e sevs = (let i = unat (s_event_id e) in
     if i < length sevs \<and> v_pending_count (sevs ! i) > 0
     then sevs[i := (sevs ! i)\<lparr>v_pending_count := v_pending_count (sevs ! i) - 1\<rparr>]
     else sevs)"

definition drain_queue :: "manager \<Rightarrow> owned_sev list \<times> manager" where
  "drain_queue m = (m_incoming_queue m,
     m\<lparr>m_sevs := fold drain_pending (m_incoming_queue m) (m_sevs m), m_incoming_queue := []\<rparr>)"

subsection \<open>Init and DeInit\<close>

definition sev_config_valid :: "u32 \<Rightarrow> sev_config \<Rightarrow> bool" where
  "sev_config_valid period sc \<longleftrightarrow>
     \<not> (c_external_event_id sc = EXTERNAL_EVENT_ID_INVALID \<or>
        c_sensor_instance_id sc > 63 \<or>
        c_default_reporting_mode sc > REPORTING_DETAILED_BYPASSING_FILTERS \<or>
        c_aggregation_interval_ms sc mod period \<noteq> 0 \<or>
        c_threshold_interval_ms sc mod period \<noteq> 0)"

text \<open>
  The list \<open>g_sev_configs\<close> is the array that the configuration pointer leads to. \<open>None\<close> is a read
  past that array, or the assignment of \<open>std::thread\<close> over a joinable thread, which terminates
  the process.
\<close>

definition Init :: "idsm_config option \<Rightarrow> manager \<Rightarrow> (u8 \<times> manager) option" where
  "Init config m = (case config of
     None \<Rightarrow> Some (E_PARAM_POINTER, m)
   | Some g \<Rightarrow>
       let n = unat (g_sev_count g); arr = (case g_sev_configs g of None \<Rightarrow> [] | Some l \<Rightarrow> l) in
       if g_sev_count g > 0 \<and> g_sev_configs g = None then Some (E_PARAM_POINTER, m)
       else if g_idsm_instance_id g > INSTANCE_ID_MAX then Some (E_PARAM_CONFIG, m)
       else if g_main_function_period_ms g = 0 then Some (E_PARAM_CONFIG, m)
       else if \<not> list_all (sev_config_valid (g_main_function_period_ms g)) (take n arr)
       then Some (E_PARAM_CONFIG, m)
       else if length arr < n then None
       else if m_thread_joinable m then None
       else Some (E_OK, m\<lparr>m_sevs := map init_sev (take n arr),
                          m_idsm_instance_id := g_idsm_instance_id g,
                          m_main_function_period_ms := g_main_function_period_ms g,
                          m_block_state := 0,
                          m_stats := stats_zero,
                          m_worker_running := True,
                          m_thread_joinable := True\<rparr>))"

text \<open>\<open>DeInit\<close> first stops the worker and joins it, and then, once it has ended, clears the state.\<close>

definition DeInit_stop :: "manager \<Rightarrow> manager" where
  "DeInit_stop m = m\<lparr>m_worker_running := False\<rparr>"

definition DeInit_clear :: "manager \<Rightarrow> u8 \<times> manager" where
  "DeInit_clear m = (E_OK, m\<lparr>m_thread_joinable := False, m_sevs := [], m_dem_cb := None,
     m_idsr_cb := None, m_nvm_cb := None, m_stats := stats_zero, m_main_function_period_ms := 10,
     m_incoming_queue := []\<rparr>)"

subsection \<open>The public operations\<close>

text \<open>
  The part of \<open>ReportSecurityEvent\<close> under the lock. The context is the memory the pointer leads
  to and the size the caller gives; \<open>None\<close> is a null pointer.
\<close>

definition report_locked ::
  "u16 \<Rightarrow> bytes option \<Rightarrow> u16 \<Rightarrow> u16 \<Rightarrow> u16 \<Rightarrow> timestamp_data option \<Rightarrow> manager \<Rightarrow> manager" where
  "report_locked sev_id context_data context_size context_version count timestamp m =
     (let i = unat sev_id in
      if i \<ge> length (m_sevs m) then m
      else let owned = \<lparr>
          s_event_id = sev_id,
          s_context_data = (case context_data of
             Some p \<Rightarrow> if context_size > 0 then take (unat context_size) p else []
           | None \<Rightarrow> []),
          s_context_data_version = context_version,
          s_count = (if count = 0 then 1 else count),
          s_has_timestamp = (timestamp \<noteq> None),
          s_timestamp = (case timestamp of Some t \<Rightarrow> t | None \<Rightarrow> timestamp_zero) \<rparr>;
        st = m_sevs m ! i;
        m = put_sev i (st\<lparr>v_pending_count := v_pending_count st + 1\<rparr>) m;
        m = m\<lparr>m_incoming_queue := m_incoming_queue m @ [owned]\<rparr>
      in upd_stats (\<lambda>s. s\<lparr>events_reported := events_reported s + 1\<rparr>) m)"

definition ReportSecurityEvent ::
  "u16 \<Rightarrow> bytes option \<Rightarrow> u16 \<Rightarrow> u16 \<Rightarrow> u16 \<Rightarrow> timestamp_data option \<Rightarrow> manager \<Rightarrow> manager" where
  "ReportSecurityEvent sev_id context_data context_size context_version count timestamp m =
     (if \<not> m_worker_running m then m
      else report_locked sev_id context_data context_size context_version count timestamp m)"

definition GetReportingMode :: "u16 \<Rightarrow> manager \<Rightarrow> reporting_mode" where
  "GetReportingMode sev_id m = (let i = unat sev_id in
     if i \<ge> length (m_sevs m) then REPORTING_OFF else v_reporting_mode (m_sevs m ! i))"

definition SetReportingMode :: "u16 \<Rightarrow> reporting_mode \<Rightarrow> manager \<Rightarrow> u8 \<times> manager" where
  "SetReportingMode sev_id mode m = (let i = unat sev_id in
     if mode > REPORTING_DETAILED_BYPASSING_FILTERS then (E_PARAM_CONFIG, m)
     else if i \<ge> length (m_sevs m) then (E_PARAM_CONFIG, m)
     else (E_OK, put_sev i ((m_sevs m ! i)\<lparr>v_reporting_mode := mode\<rparr>) m))"

definition BswM_StateChanged :: "u8 \<Rightarrow> manager \<Rightarrow> manager" where
  "BswM_StateChanged state m = m\<lparr>m_block_state := state\<rparr>"

definition GetDetectionStatus :: "u16 \<Rightarrow> manager \<Rightarrow> detection_status" where
  "GetDetectionStatus sev_id m = (let i = unat sev_id in
     if i \<ge> length (m_sevs m) then STATUS_UNINITIALIZED else v_detection_status (m_sevs m ! i))"

definition ResetDetectionStatus :: "u16 \<Rightarrow> manager \<Rightarrow> u8 \<times> manager" where
  "ResetDetectionStatus sev_id m = (let i = unat sev_id in
     if i \<ge> length (m_sevs m) then (E_PARAM_CONFIG, m)
     else (E_OK, put_sev i ((m_sevs m ! i)\<lparr>v_detection_status := STATUS_OK\<rparr>) m))"

definition GetPendingEventCount :: "u16 \<Rightarrow> manager \<Rightarrow> u32" where
  "GetPendingEventCount sev_id m = (let i = unat sev_id in
     if i \<ge> length (m_sevs m) then 0 else v_pending_count (m_sevs m ! i))"

definition FlushEvents :: "u16 \<Rightarrow> u32 \<Rightarrow> manager \<Rightarrow> u8 \<times> manager" where
  "FlushEvents sev_id now_ms m = (let i = unat sev_id in
     if i \<ge> length (m_sevs m) then (E_PARAM_CONFIG, m)
     else let state = m_sevs m ! i in
       (E_OK, case v_agg_pending state of
                Some staged \<Rightarrow> release_agg i state staged now_ms m
              | None \<Rightarrow> m))"

definition IsSecurityEventConfigured :: "u16 \<Rightarrow> manager \<Rightarrow> bool" where
  "IsSecurityEventConfigured sev_id m \<longleftrightarrow> unat sev_id < length (m_sevs m)"

definition SetDemReportCallback :: "callback option \<Rightarrow> manager \<Rightarrow> manager" where
  "SetDemReportCallback cb m = m\<lparr>m_dem_cb := cb\<rparr>"

definition RegisterIdsrSink :: "callback option \<Rightarrow> manager \<Rightarrow> manager" where
  "RegisterIdsrSink cb m = m\<lparr>m_idsr_cb := cb\<rparr>"

definition SetNvmStoreCallback :: "callback option \<Rightarrow> manager \<Rightarrow> manager" where
  "SetNvmStoreCallback cb m = m\<lparr>m_nvm_cb := cb\<rparr>"

definition GetStats :: "manager \<Rightarrow> stats" where
  "GetStats m = m_stats m"

definition ResetStats :: "manager \<Rightarrow> manager" where
  "ResetStats m = m\<lparr>m_stats := stats_zero\<rparr>"

text \<open>\<open>IdsM_ReportEvent\<close> of \<open>IdsM.c\<close>, the deprecated wrapper; the payload is given with its size.\<close>

definition IdsM_ReportEvent :: "(u16 \<times> bytes option \<times> u16) option \<Rightarrow> manager \<Rightarrow> u8 \<times> manager" where
  "IdsM_ReportEvent event m = (case event of
     None \<Rightarrow> (E_PARAM_POINTER, m)
   | Some (monitor_id, payload, payload_len) \<Rightarrow>
       if \<not> IsSecurityEventConfigured monitor_id m then (E_PARAM_CONFIG, m)
       else (E_OK, ReportSecurityEvent monitor_id payload payload_len 1 1 None m))"

end
