(* ===== verification/Idsm_Manager_Ops.thy ===== *)
theory Idsm_Manager_Ops
  imports Idsm_Manager
begin

text \<open>
  What the operations of \<open>IdsM_Manager\<close> do, one at a time: the frame of every operation, the
  effect of the reporting modes, the accounting of a processed event, the validation of
  \<open>Init\<close>, and the deadlines of the time windows.
\<close>

subsection \<open>Frames\<close>

lemma upd_stats_simps [simp]:
  "m_worker_running (upd_stats f m) = m_worker_running m"
  "m_thread_joinable (upd_stats f m) = m_thread_joinable m"
  "m_incoming_queue (upd_stats f m) = m_incoming_queue m"
  "m_sevs (upd_stats f m) = m_sevs m"
  "m_idsm_instance_id (upd_stats f m) = m_idsm_instance_id m"
  "m_block_state (upd_stats f m) = m_block_state m"
  "m_dem_cb (upd_stats f m) = m_dem_cb m" "m_idsr_cb (upd_stats f m) = m_idsr_cb m"
  "m_calls (upd_stats f m) = m_calls m" "m_stats (upd_stats f m) = f (m_stats m)"
  by (simp_all add: upd_stats_def)

lemma put_sev_simps [simp]:
  "m_worker_running (put_sev i st m) = m_worker_running m"
  "m_thread_joinable (put_sev i st m) = m_thread_joinable m"
  "m_incoming_queue (put_sev i st m) = m_incoming_queue m"
  "m_sevs (put_sev i st m) = (m_sevs m)[i := st]"
  "m_idsm_instance_id (put_sev i st m) = m_idsm_instance_id m"
  "m_block_state (put_sev i st m) = m_block_state m"
  "m_dem_cb (put_sev i st m) = m_dem_cb m" "m_idsr_cb (put_sev i st m) = m_idsr_cb m"
  "m_calls (put_sev i st m) = m_calls m" "m_stats (put_sev i st m) = m_stats m"
  by (simp_all add: put_sev_def)

lemma put_sev_overwrite [simp]: "put_sev i a (put_sev i b m) = put_sev i a m"
  by (simp add: put_sev_def)

text \<open>The calls that qualifying an event makes, in order.\<close>

definition deliveries :: "manager \<Rightarrow> sev_state \<Rightarrow> owned_qsev \<Rightarrow> (callback \<times> qsev_c) list" where
  "deliveries m sev q =
     (case m_dem_cb m of Some cb \<Rightarrow> if c_sink_to_dem (v_config sev) then [(cb, to_c q)] else []
      | None \<Rightarrow> []) @
     (case m_idsr_cb m of Some cb \<Rightarrow> if c_sink_to_idsr (v_config sev) then [(cb, to_c q)] else []
      | None \<Rightarrow> [])"

lemma qualify_simps [simp]:
  "m_worker_running (qualify sev q m) = m_worker_running m"
  "m_thread_joinable (qualify sev q m) = m_thread_joinable m"
  "m_incoming_queue (qualify sev q m) = m_incoming_queue m"
  "m_sevs (qualify sev q m) = m_sevs m"
  "m_idsm_instance_id (qualify sev q m) = m_idsm_instance_id m"
  "m_block_state (qualify sev q m) = m_block_state m"
  "m_dem_cb (qualify sev q m) = m_dem_cb m" "m_idsr_cb (qualify sev q m) = m_idsr_cb m"
  "m_calls (qualify sev q m) = m_calls m @ deliveries m sev q"
  by (auto simp: qualify_def dispatchQsev_def deliveries_def Let_def split: option.splits)

text \<open>The counters of a qualified event: one for the event, and one for every sink that is called.\<close>

definition count_delivery :: "manager \<Rightarrow> sev_state \<Rightarrow> stats \<Rightarrow> stats" where
  "count_delivery m sev s = s\<lparr>events_qualified := events_qualified s + 1,
     sent_to_dem := sent_to_dem s + (if m_dem_cb m \<noteq> None \<and> c_sink_to_dem (v_config sev) then 1 else 0),
     sent_to_idsr := sent_to_idsr s + (if m_idsr_cb m \<noteq> None \<and> c_sink_to_idsr (v_config sev) then 1 else 0)\<rparr>"

lemma qualify_stats: "m_stats (qualify sev q m) = count_delivery m sev (m_stats m)"
  by (auto simp: qualify_def dispatchQsev_def count_delivery_def Let_def split: option.splits)

lemma count_delivery_cong:
  "m_dem_cb m = m_dem_cb m' \<Longrightarrow> m_idsr_cb m = m_idsr_cb m' \<Longrightarrow> v_config a = v_config b \<Longrightarrow>
   count_delivery m a = count_delivery m' b"
  by (simp add: count_delivery_def fun_eq_iff)

subsection \<open>The filters keep the configuration\<close>

lemma aggregation_config [simp]: "v_config (snd (passAggregation sev q t)) = v_config sev"
  by (auto simp: passAggregation_def Let_def split: option.splits)

lemma threshold_config [simp]: "v_config (snd (passThreshold sev c t)) = v_config sev"
  by (simp add: passThreshold_def Let_def)

lemma aggregation_absorbs:
  "\<not> fst (passAggregation sev q t) \<Longrightarrow> v_agg_pending (snd (passAggregation sev q t)) \<noteq> None"
  by (auto simp: passAggregation_def Let_def split: option.splits if_splits)

lemma aggregation_pass:
  "fst (passAggregation sev q t) \<longleftrightarrow> c_aggregation_interval_ms (v_config sev) = 0"
  by (auto simp: passAggregation_def Let_def split: option.splits)

lemma aggregation_pass_state:
  "fst (passAggregation sev q t) \<Longrightarrow> snd (passAggregation sev q t) = sev"
  by (auto simp: passAggregation_def Let_def split: option.splits if_splits)

lemma processEvent_unknown:
  "length (m_sevs m) \<le> unat (s_event_id e) \<Longrightarrow> processEvent e k m = Some m"
  by (simp add: processEvent_def Let_def)

text \<open>The four ways out of the filter chain, as one case rule.\<close>

lemma run_chain_cases [consumes 1, case_names blocked sampled staged below passed]:
  assumes "run_chain i st q k m = Some m'"
  obtains
    "m' = upd_stats (\<lambda>s. s\<lparr>dropped_block_state := dropped_block_state s + 1\<rparr>) m"
      "isBlockedByState st (m_block_state m) = Some True"
  | st1 where "passForwardEveryNth st (o_count q) = (False, st1)"
      "m' = upd_stats (\<lambda>s. s\<lparr>dropped_sampling := dropped_sampling s + 1\<rparr>) (put_sev i st1 m)"
  | st1 st2 where "passForwardEveryNth st (o_count q) = (True, st1)"
      "passAggregation st1 q (k_now_agg_ms k) = (False, st2)" "m' = put_sev i st2 m"
  | st1 st2 st3 where "passForwardEveryNth st (o_count q) = (True, st1)"
      "passAggregation st1 q (k_now_agg_ms k) = (True, st2)"
      "passThreshold st2 (o_count q) (k_now_ms k) = (False, st3)"
      "m' = upd_stats (\<lambda>s. s\<lparr>dropped_threshold := dropped_threshold s + 1\<rparr>) (put_sev i st3 m)"
  | st1 st2 st3 where "passForwardEveryNth st (o_count q) = (True, st1)"
      "passAggregation st1 q (k_now_agg_ms k) = (True, st2)"
      "passThreshold st2 (o_count q) (k_now_ms k) = (True, st3)"
      "m' = qualify st3 q (put_sev i st3 m)"
proof -
  obtain ok1 st1 where 1: "passForwardEveryNth st (o_count q) = (ok1, st1)" by fastforce
  obtain ok2 st2 where 2: "passAggregation st1 q (k_now_agg_ms k) = (ok2, st2)" by fastforce
  obtain ok3 st3 where 3: "passThreshold st2 (o_count q) (k_now_ms k) = (ok3, st3)" by fastforce
  from assms obtain b where b: "isBlockedByState st (m_block_state m) = Some b"
    by (auto simp: run_chain_def bind_eq_Some_conv)
  have "run_chain i st q k m = Some (if b then upd_stats (\<lambda>s. s\<lparr>dropped_block_state := dropped_block_state s + 1\<rparr>) m
       else if \<not> ok1
       then upd_stats (\<lambda>s. s\<lparr>dropped_sampling := dropped_sampling s + 1\<rparr>) (put_sev i st1 m)
       else if \<not> ok2 then put_sev i st2 m
       else if \<not> ok3
       then upd_stats (\<lambda>s. s\<lparr>dropped_threshold := dropped_threshold s + 1\<rparr>) (put_sev i st3 m)
       else qualify st3 q (put_sev i st3 m))"
    by (simp add: run_chain_def b 1 2 3 Let_def)
  note m' = this [unfolded assms option.inject]
  consider (a) "b" | (b) "\<not> b" "\<not> ok1" | (c) "\<not> b" "ok1" "\<not> ok2" | (d) "\<not> b" "ok1" "ok2" "\<not> ok3"
    | (e) "\<not> b" "ok1" "ok2" "ok3" by blast
  then show thesis
  proof cases
    case a then show thesis using that(1) m' b by simp
  next
    case b then show thesis using that(2) m' 1 by simp
  next
    case c then show thesis using that(3) m' 1 2 by simp
  next
    case d then show thesis using that(4) m' 1 2 3 by simp
  next
    case e then show thesis using that(5) m' 1 2 3 by simp
  qed
qed

text \<open>The state that \<open>processEvent\<close> starts the chain from.\<close>

definition marked :: "manager \<Rightarrow> nat \<Rightarrow> sev_state" where
  "marked m i = (m_sevs m ! i)\<lparr>v_detection_status := STATUS_VIOLATION\<rparr>"

lemma marked_simps [simp]:
  "v_config (marked m i) = v_config (m_sevs m ! i)"
  "v_reporting_mode (marked m i) = v_reporting_mode (m_sevs m ! i)"
  "v_agg_pending (marked m i) = v_agg_pending (m_sevs m ! i)"
  "v_pending_count (marked m i) = v_pending_count (m_sevs m ! i)"
  "v_nth_counter (marked m i) = v_nth_counter (m_sevs m ! i)"
  by (simp_all add: marked_def)

lemma processEvent_cases [consumes 1, case_names unknown off bypass chain]:
  assumes "processEvent e k m = Some m'"
  obtains
    "length (m_sevs m) \<le> unat (s_event_id e)" "m' = m"
  | "unat (s_event_id e) < length (m_sevs m)"
      "v_reporting_mode (m_sevs m ! unat (s_event_id e)) = REPORTING_OFF"
      "m' = upd_stats (\<lambda>s. s\<lparr>dropped_reporting_off := dropped_reporting_off s + 1\<rparr>) m"
  | st q m1 where "unat (s_event_id e) < length (m_sevs m)" "st = marked m (unat (s_event_id e))"
      "m1 = put_sev (unat (s_event_id e)) st m" "q = build_qsev m1 st e k"
      "is_bypassing (v_reporting_mode st)" "m' = qualify st q m1"
  | st q m1 where "unat (s_event_id e) < length (m_sevs m)" "st = marked m (unat (s_event_id e))"
      "m1 = put_sev (unat (s_event_id e)) st m" "q = build_qsev m1 st e k"
      "v_reporting_mode st \<noteq> REPORTING_OFF" "\<not> is_bypassing (v_reporting_mode st)"
      "run_chain (unat (s_event_id e)) st q k m1 = Some m'"
  using assms that
  by (simp add: processEvent_def Let_def marked_def [symmetric] split: if_splits)

lemma deliveries_simps [simp]:
  "deliveries (put_sev i st m) = deliveries m" "deliveries (upd_stats f m) = deliveries m"
  by (simp_all add: deliveries_def fun_eq_iff)

lemma deliveries_config: "v_config a = v_config b \<Longrightarrow> deliveries m a q = deliveries m b q"
  by (simp add: deliveries_def split: option.split)

lemma chain_config:
  "passForwardEveryNth st c = (a, st1) \<Longrightarrow> v_config st1 = v_config st"
  "passAggregation st1 q t = (b, st2) \<Longrightarrow> v_config st2 = v_config st1"
  "passThreshold st2 c t' = (d, st3) \<Longrightarrow> v_config st3 = v_config st2"
  by (metis nth_config snd_conv, metis aggregation_config snd_conv, metis threshold_config snd_conv)

text \<open>
  The outcomes of a processed event, with the counters that each moves. \<open>processed_as\<close> says what an outcome changes: the
  counters, the calls to the sinks, the staged aggregate, and nothing of another SEv or of the queue.
\<close>

datatype outcome = Switched_off | Blocked | Sampled | Staged | Below | Qualified

fun outcome_stats :: "outcome \<Rightarrow> manager \<Rightarrow> sev_state \<Rightarrow> stats \<Rightarrow> stats" where
  "outcome_stats Switched_off m st s = s\<lparr>dropped_reporting_off := dropped_reporting_off s + 1\<rparr>"
| "outcome_stats Blocked m st s = s\<lparr>dropped_block_state := dropped_block_state s + 1\<rparr>"
| "outcome_stats Sampled m st s = s\<lparr>dropped_sampling := dropped_sampling s + 1\<rparr>"
| "outcome_stats Staged m st s = s"
| "outcome_stats Below m st s = s\<lparr>dropped_threshold := dropped_threshold s + 1\<rparr>"
| "outcome_stats Qualified m st s = count_delivery m st s"

text \<open>The aggregate after an event was staged: the event itself, or the earlier one with the sum of the counts.\<close>

definition staged_with :: "owned_qsev \<Rightarrow> owned_qsev option \<Rightarrow> owned_qsev option" where
  "staged_with q old = (case old of None \<Rightarrow> Some q
     | Some a \<Rightarrow> Some (a\<lparr>o_count := of_nat (min 65535 (unat (o_count a) + unat (o_count q)))\<rparr>))"

definition processed_as :: "outcome \<Rightarrow> manager \<Rightarrow> owned_sev \<Rightarrow> clock \<Rightarrow> manager \<Rightarrow> bool" where
  "processed_as out m e k m' \<longleftrightarrow> (let i = unat (s_event_id e); st = m_sevs m ! i; q = build_qsev m st e k in
     m_stats m' = outcome_stats out m st (m_stats m) \<and>
     m_calls m' = m_calls m @ (if out = Qualified then deliveries m st q else []) \<and>
     v_agg_pending (m_sevs m' ! i) =
       (if out = Staged then staged_with q (v_agg_pending st) else v_agg_pending st) \<and>
     m_incoming_queue m' = m_incoming_queue m \<and> length (m_sevs m') = length (m_sevs m) \<and>
     (\<forall>j. j \<noteq> i \<longrightarrow> m_sevs m' ! j = m_sevs m ! j))"

text \<open>No two outcomes move the same counters.\<close>

definition outcome_counts :: "stats \<Rightarrow> u32 list" where
  "outcome_counts s = [dropped_reporting_off s, dropped_block_state s, dropped_sampling s, dropped_threshold s,
     events_qualified s]"

lemma outcome_stats_inj: "outcome_stats a m st s = outcome_stats b m st s \<Longrightarrow> a = b"
  by (drule arg_cong [where f = outcome_counts], cases a; cases b; simp add: outcome_counts_def count_delivery_def)

lemma staged_aggregation:
  assumes "passAggregation st q t = (False, st')"
  shows "v_agg_pending st' = staged_with q (v_agg_pending st)"
proof (cases "v_agg_pending st")
  case None
  then show ?thesis using assms by (auto simp: passAggregation_def staged_with_def split: if_splits)
next
  case (Some a)
  have "c_aggregation_interval_ms (v_config st) \<noteq> 0"
    using aggregation_pass [of st q t] assms by simp
  from passAggregation_merge [OF this Some, of q t]
  have "v_agg_pending st' = Some (a\<lparr>o_count := merge_counts (o_count a) (o_count q)\<rparr>)" using assms by simp
  moreover have "merge_counts (o_count a) (o_count q) = of_nat (min 65535 (unat (o_count a) + unat (o_count q)))"
    by (simp flip: unat_merge_counts)
  ultimately show ?thesis using Some by (simp add: staged_with_def)
qed

lemma nth_agg: "passForwardEveryNth st c = (ok, st') \<Longrightarrow> v_agg_pending st' = v_agg_pending st"
  using nth_frame [of st c] by auto

lemma threshold_agg [simp]: "v_agg_pending (snd (passThreshold st c now)) = v_agg_pending st"
  by (simp add: passThreshold_def Let_def)

lemma threshold_agg_eq: "passThreshold st c t = (ok, st') \<Longrightarrow> v_agg_pending st' = v_agg_pending st"
  by (metis threshold_agg snd_conv)

text \<open>The chain starts from the marked entry, so that everything but the detection status is that of \<open>m\<close>.\<close>

lemma run_chain_processed:
  assumes "run_chain i (marked m i) q k (put_sev i (marked m i) m) = Some m'" "i < length (m_sevs m)"
    "i = unat (s_event_id e)" "q = build_qsev m (m_sevs m ! i) e k"
  shows "\<exists>out. processed_as out m e k m'"
  using assms(1)
proof (cases rule: run_chain_cases)
  case blocked
  then have "processed_as Blocked m e k m'" using assms by (simp add: processed_as_def Let_def)
  then show ?thesis ..
next
  case (sampled st1)
  then have "processed_as Sampled m e k m'" using assms nth_agg [OF sampled(1)] by (simp add: processed_as_def Let_def)
  then show ?thesis ..
next
  case (staged st1 st2)
  then have "processed_as Staged m e k m'"
    using assms nth_agg [OF staged(1)] staged_aggregation [OF staged(2)] by (simp add: processed_as_def Let_def)
  then show ?thesis ..
next
  case (below st1 st2 st3)
  have "st2 = st1" using aggregation_pass_state [of st1 q "k_now_agg_ms k"] below by simp
  then have "processed_as Below m e k m'"
    using assms below nth_agg [OF below(1)] threshold_agg_eq [OF below(3)] by (simp add: processed_as_def Let_def)
  then show ?thesis ..
next
  case (passed st1 st2 st3)
  have "st2 = st1" using aggregation_pass_state [of st1 q "k_now_agg_ms k"] passed by simp
  moreover have cfg: "v_config st3 = v_config (m_sevs m ! i)" using passed chain_config by (metis marked_simps(1))
  ultimately have "processed_as Qualified m e k m'"
    using assms passed nth_agg [OF passed(1)] threshold_agg_eq [OF passed(3)] deliveries_config [OF cfg]
      count_delivery_cong [OF _ _ cfg, of "put_sev i st3 m" m]
    by (simp add: processed_as_def Let_def qualify_stats)
  then show ?thesis ..
qed

lemma build_qsev_marked: "build_qsev (put_sev i st m) (marked m j) e k = build_qsev m (m_sevs m ! j) e k"
  by (simp add: build_qsev_def)

subsection \<open>Properties of event processing\<close>

text \<open>
  C3: every event that the worker processes for a configured SEv has exactly one outcome. It moves exactly one of the
  four drop counters by one, or it is staged, which moves no counter and leaves the aggregate with its count added (up to
  65535), or it is qualified, which moves the qualified counter by one, the counter of each sink by the calls made to it,
  and hands the event to exactly the registered sinks of its SEv. In every case the ingress queue, the state of any other
  SEv, and, unless the event was staged, the aggregate of its own SEv stay as they were.
\<close>

theorem processEvent_accounts:
  assumes "processEvent e k m = Some m'" and "unat (s_event_id e) < length (m_sevs m)"
  shows "\<exists>!out. processed_as out m e k m'"
proof -
  let ?i = "unat (s_event_id e)"
  have "\<exists>out. processed_as out m e k m'"
    using assms(1)
  proof (cases rule: processEvent_cases)
    case off
    then have "processed_as Switched_off m e k m'" by (simp add: processed_as_def Let_def)
    then show ?thesis ..
  next
    case (bypass st q m1)
    then have "processed_as Qualified m e k m'"
      using deliveries_config [of st "m_sevs m ! ?i"] count_delivery_cong [of m1 m st "m_sevs m ! ?i"]
      by (simp add: processed_as_def Let_def qualify_stats build_qsev_marked)
    then show ?thesis ..
  next
    case (chain st q m1)
    then show ?thesis using run_chain_processed [of ?i m q k m' e] by (simp add: build_qsev_marked)
  qed (use assms in simp)
  moreover have "a = b" if "processed_as a m e k m'" "processed_as b m e k m'" for a b
    using that outcome_stats_inj [of a m "m_sevs m ! ?i" "m_stats m" b] by (simp add: processed_as_def Let_def)
  ultimately show ?thesis by blast
qed

definition sample_event :: owned_sev where
  "sample_event = \<lparr> s_event_id = 0, s_context_data = [1, 2], s_context_data_version = 1, s_count = 2,
     s_has_timestamp = False, s_timestamp = timestamp_zero \<rparr>"

definition sample_clock :: clock where
  "sample_clock = \<lparr> k_now_ms = 50, k_now_agg_ms = 50, k_sys_secs = 1000, k_sys_nanos = 5 \<rparr>"

definition sample_manager :: "sev_config \<Rightarrow> manager" where
  "sample_manager c = manager_start\<lparr>m_sevs := [init_sev c], m_worker_running := True,
     m_thread_joinable := True, m_dem_cb := Some 1, m_idsr_cb := Some 2\<rparr>"

lemma processEvent_accounts_witness:
  "\<exists>!out. processed_as out (sample_manager sample_config) sample_event sample_clock
     (the (processEvent sample_event sample_clock (sample_manager sample_config)))"
  using processEvent_accounts [of sample_event sample_clock "sample_manager sample_config"
      "the (processEvent sample_event sample_clock (sample_manager sample_config))"]
  by (simp add: processEvent_def Let_def sample_event_def sample_manager_def manager_start_def
      init_sev_def sample_config_def is_bypassing_def run_chain_def isBlockedByState_def)

lemma build_qsev_brief:
  "is_brief (v_reporting_mode st) \<Longrightarrow> o_context_data (build_qsev m st e k) = []"
  by (simp add: build_qsev_def)

lemma deliveries_context:
  "(cb, c) \<in> set (deliveries m st q) \<Longrightarrow> c = to_c q"
  by (auto simp: deliveries_def split: option.splits if_splits)

text \<open>
  C4: the reporting mode decides first. In mode OFF processing an event does nothing but count it as dropped by the
  reporting mode. In the two bypassing modes the event is delivered to the registered sinks at once, whatever the filters and the
  block state, with the context data of the report in the detailed mode and without it in the brief mode. In the two
  brief modes no call made for the event carries context data, and an aggregate that the event opens holds none, so that
  none is released later either. (An aggregate that was opened in another mode, before the mode was switched, keeps its context:
  \<open>aggregate_keeps_context\<close>.)
\<close>

theorem reporting_mode_decides:
  assumes "processEvent e k m = Some m'" and "i = unat (s_event_id e)" and "i < length (m_sevs m)"
    and "mode = v_reporting_mode (m_sevs m ! i)"
  shows "(mode = REPORTING_OFF \<longrightarrow>
        m' = upd_stats (\<lambda>s. s\<lparr>dropped_reporting_off := dropped_reporting_off s + 1\<rparr>) m) \<and>
     (is_bypassing mode \<longrightarrow>
        (\<exists>q. m_calls m' = m_calls m @ deliveries m (m_sevs m ! i) q \<and> o_count q = s_count e \<and>
             o_context_data q = (if is_brief mode then [] else s_context_data e))) \<and>
     (is_brief mode \<longrightarrow> (\<exists>new. m_calls m' = m_calls m @ new \<and>
        (\<forall>(cb, c) \<in> set new. q_context_data c = None)) \<and>
        (v_agg_pending (m_sevs m ! i) = None \<longrightarrow>
           (\<forall>a. v_agg_pending (m_sevs m' ! i) = Some a \<longrightarrow> o_context_data a = [])))"
  using assms(1)
proof (cases rule: processEvent_cases)
  case (bypass st q m1)
  have cfg: "deliveries m st q = deliveries m (m_sevs m ! i) q"
    using bypass assms by (intro deliveries_config) simp
  have q: "o_count q = s_count e" "o_context_data q = (if is_brief mode then [] else s_context_data e)"
    using bypass assms by (simp_all add: build_qsev_def)
  have calls: "m_calls m' = m_calls m @ deliveries m (m_sevs m ! i) q"
    using bypass assms cfg by simp
  have "\<forall>(cb, c) \<in> set (deliveries m (m_sevs m ! i) q). q_context_data c = None" if "is_brief mode"
    using that q(2) by (auto simp: to_c_def dest: deliveries_context)
  moreover have "mode \<noteq> REPORTING_OFF" using bypass assms by (auto simp: is_bypassing_def)
  moreover have "v_agg_pending (m_sevs m' ! i) = v_agg_pending (m_sevs m ! i)" using bypass assms by simp
  ultimately show ?thesis using calls q by auto
next
  case (chain st q m1)
  have new: "\<exists>new. m_calls m' = m_calls m @ new \<and> (\<forall>(cb, c) \<in> set new. c = to_c q)"
    using chain(7) chain(3)
    by (cases rule: run_chain_cases) (auto dest: deliveries_context)
  obtain out where out: "processed_as out m e k m'"
    using chain assms run_chain_processed [of i m q k m' e] by (auto simp: build_qsev_marked)
  have q: "o_context_data q = []" "q = build_qsev m (m_sevs m ! i) e k" if "is_brief mode"
    using that chain assms by (simp_all add: build_qsev_def)
  have "v_agg_pending (m_sevs m' ! i) = None \<or> v_agg_pending (m_sevs m' ! i) = Some q"
    if "is_brief mode" "v_agg_pending (m_sevs m ! i) = None"
    using that q out assms by (auto simp: processed_as_def Let_def staged_with_def)
  moreover have "q_context_data (to_c q) = None" if "is_brief mode" using q that by (simp add: to_c_def)
  moreover have "\<not> is_bypassing mode" "mode \<noteq> REPORTING_OFF" using chain assms by simp_all
  ultimately show ?thesis using new q by fastforce
qed (use assms in \<open>auto simp: is_bypassing_def is_brief_def\<close>)

definition brief_manager :: manager where
  "brief_manager =
     sample_manager (sample_config\<lparr>c_default_reporting_mode := REPORTING_BRIEF_BYPASSING_FILTERS\<rparr>)"

lemma reporting_mode_decides_witness:
  "list_all (\<lambda>(cb, c). q_context_data c = None)
     (m_calls (the (processEvent sample_event sample_clock brief_manager)))"
proof -
  have some: "processEvent sample_event sample_clock brief_manager =
      Some (the (processEvent sample_event sample_clock brief_manager))"
    and st: "0 < length (m_sevs brief_manager)" "m_calls brief_manager = []"
      "REPORTING_BRIEF_BYPASSING_FILTERS = v_reporting_mode (m_sevs brief_manager ! 0)"
    by (simp_all add: brief_manager_def processEvent_def Let_def sample_event_def sample_manager_def
        manager_start_def init_sev_def sample_config_def is_bypassing_def)
  show ?thesis
    using reporting_mode_decides [OF some, of 0 REPORTING_BRIEF_BYPASSING_FILTERS] st
    by (auto simp: sample_event_def is_brief_def list_all_iff)
qed

subsection \<open>Expiry of the time windows\<close>

definition agg_due :: "u32 \<Rightarrow> sev_state \<Rightarrow> bool" where
  "agg_due now st \<longleftrightarrow> v_agg_pending st \<noteq> None \<and> c_aggregation_interval_ms (v_config st) \<noteq> 0 \<and>
     now \<ge> v_agg_window_start_ms st + c_aggregation_interval_ms (v_config st)"

definition thr_due :: "u32 \<Rightarrow> sev_state \<Rightarrow> bool" where
  "thr_due now st \<longleftrightarrow> v_thr_window_open st \<and>
     now \<ge> v_thr_window_start_ms st + c_threshold_interval_ms (v_config st)"

definition close_agg :: "sev_state \<Rightarrow> sev_state" where
  "close_agg st = st\<lparr>v_agg_pending := None, v_agg_has_context := False\<rparr>"

text \<open>What one pass of \<open>expireWindows\<close> makes of an entry, and the calls it makes for it.\<close>

definition expire_entry :: "u32 \<Rightarrow> sev_state \<Rightarrow> sev_state" where
  "expire_entry now st =
     (if agg_due now st
      then snd (passThreshold (close_agg st) (o_count (the (v_agg_pending st))) now)
      else if thr_due now st then st\<lparr>v_thr_window_open := False, v_thr_accumulated := 0\<rparr>
      else st)"

definition expire_calls :: "u32 \<Rightarrow> manager \<Rightarrow> sev_state \<Rightarrow> (callback \<times> qsev_c) list" where
  "expire_calls now m st =
     (if agg_due now st \<and> fst (passThreshold (close_agg st) (o_count (the (v_agg_pending st))) now)
      then deliveries m st (the (v_agg_pending st)) else [])"

lemma close_agg_config [simp]: "v_config (close_agg st) = v_config st"
  by (simp add: close_agg_def)

lemma release_agg_sevs:
  "m_sevs (release_agg i st q now m) =
     (m_sevs m)[i := snd (passThreshold (close_agg st) (o_count q) now)]"
  "m_calls (release_agg i st q now m) = m_calls m @
     (if fst (passThreshold (close_agg st) (o_count q) now) then deliveries m st q else [])"
  by (auto simp: release_agg_def close_agg_def [symmetric] Let_def split_def intro: deliveries_config)

lemma release_agg_frame [simp]:
  "m_worker_running (release_agg i st q now m) = m_worker_running m"
  "m_thread_joinable (release_agg i st q now m) = m_thread_joinable m"
  "m_incoming_queue (release_agg i st q now m) = m_incoming_queue m"
  "m_idsm_instance_id (release_agg i st q now m) = m_idsm_instance_id m"
  "m_dem_cb (release_agg i st q now m) = m_dem_cb m"
  "m_idsr_cb (release_agg i st q now m) = m_idsr_cb m"
  by (simp_all add: release_agg_def Let_def split_def)

lemma expire_threshold_sevs:
  assumes "i < length (m_sevs m)" "st = m_sevs m ! i"
  shows "m_sevs (snd (expire_threshold i st now nd m)) =
      (m_sevs m)[i := if thr_due now st
         then st\<lparr>v_thr_window_open := False, v_thr_accumulated := 0\<rparr> else st]"
    "m_calls (snd (expire_threshold i st now nd m)) = m_calls m"
  using assms by (auto simp: expire_threshold_def thr_due_def Let_def)

lemma expire_threshold_frame [simp]:
  "m_worker_running (snd (expire_threshold i st now nd m)) = m_worker_running m"
  "m_thread_joinable (snd (expire_threshold i st now nd m)) = m_thread_joinable m"
  "m_incoming_queue (snd (expire_threshold i st now nd m)) = m_incoming_queue m"
  "m_idsm_instance_id (snd (expire_threshold i st now nd m)) = m_idsm_instance_id m"
  "m_dem_cb (snd (expire_threshold i st now nd m)) = m_dem_cb m"
  "m_idsr_cb (snd (expire_threshold i st now nd m)) = m_idsr_cb m"
  by (simp_all add: expire_threshold_def Let_def)

lemma expire_sev_sevs:
  assumes "i < length (m_sevs m)"
  shows "m_sevs (snd (expire_sev i now (nd, m))) = (m_sevs m)[i := expire_entry now (m_sevs m ! i)]"
    and "m_calls (snd (expire_sev i now (nd, m))) = m_calls m @ expire_calls now m (m_sevs m ! i)"
  using assms
  by (auto simp: expire_sev_def expire_entry_def expire_calls_def agg_due_def Let_def
      release_agg_sevs expire_threshold_sevs split: option.splits)

lemma expire_sev_frame [simp]:
  "m_worker_running (snd (expire_sev i now acc)) = m_worker_running (snd acc)"
  "m_thread_joinable (snd (expire_sev i now acc)) = m_thread_joinable (snd acc)"
  "m_incoming_queue (snd (expire_sev i now acc)) = m_incoming_queue (snd acc)"
  "m_idsm_instance_id (snd (expire_sev i now acc)) = m_idsm_instance_id (snd acc)"
  "m_dem_cb (snd (expire_sev i now acc)) = m_dem_cb (snd acc)"
  "m_idsr_cb (snd (expire_sev i now acc)) = m_idsr_cb (snd acc)"
  by (simp_all add: expire_sev_def Let_def split_def split: option.split)

lemma expire_fold_frame [simp]:
  "m_worker_running (snd (fold (\<lambda>i. expire_sev i now) is acc)) = m_worker_running (snd acc)"
  "m_thread_joinable (snd (fold (\<lambda>i. expire_sev i now) is acc)) = m_thread_joinable (snd acc)"
  "m_incoming_queue (snd (fold (\<lambda>i. expire_sev i now) is acc)) = m_incoming_queue (snd acc)"
  "m_idsm_instance_id (snd (fold (\<lambda>i. expire_sev i now) is acc)) = m_idsm_instance_id (snd acc)"
  "m_dem_cb (snd (fold (\<lambda>i. expire_sev i now) is acc)) = m_dem_cb (snd acc)"
  "m_idsr_cb (snd (fold (\<lambda>i. expire_sev i now) is acc)) = m_idsr_cb (snd acc)"
  by (induction "is" arbitrary: acc) simp_all

lemma expire_calls_cong:
  "m_dem_cb m = m_dem_cb m' \<Longrightarrow> m_idsr_cb m = m_idsr_cb m' \<Longrightarrow>
   expire_calls now m st = expire_calls now m' st"
  by (simp add: expire_calls_def deliveries_def)

lemma expire_fold:
  "k \<le> length (m_sevs m) \<Longrightarrow>
   m_sevs (snd (fold (\<lambda>i. expire_sev i now) [0..<k] (nd, m))) =
     map (expire_entry now) (take k (m_sevs m)) @ drop k (m_sevs m) \<and>
   m_calls (snd (fold (\<lambda>i. expire_sev i now) [0..<k] (nd, m))) =
     m_calls m @ concat (map (expire_calls now m) (take k (m_sevs m)))"
proof (induction k)
  case (Suc k)
  let ?acc = "fold (\<lambda>i. expire_sev i now) [0..<k] (nd, m)"
  have IH: "m_sevs (snd ?acc) = map (expire_entry now) (take k (m_sevs m)) @ drop k (m_sevs m)"
      "m_calls (snd ?acc) = m_calls m @ concat (map (expire_calls now m) (take k (m_sevs m)))"
    using Suc by simp_all
  have kl: "k < length (m_sevs (snd ?acc))" using Suc.prems by (simp add: IH)
  have at: "m_sevs (snd ?acc) ! k = m_sevs m ! k"
    using Suc.prems by (simp add: IH nth_append)
  have dr: "drop k (m_sevs m) = m_sevs m ! k # drop (Suc k) (m_sevs m)"
    using Suc.prems by (simp add: Cons_nth_drop_Suc)
  have ec: "expire_calls now (snd ?acc) st = expire_calls now m st" for st
    by (rule expire_calls_cong) simp_all
  show ?case
    using expire_sev_sevs [OF kl, of now "fst ?acc"] Suc.prems
    by (simp add: at ec) (simp add: IH dr take_Suc_conv_app_nth list_update_append)
qed simp

lemma expireWindows_sevs:
  "m_sevs (snd (expireWindows now m)) = map (expire_entry now) (m_sevs m)"
  "m_calls (snd (expireWindows now m)) =
     m_calls m @ concat (map (expire_calls now m) (m_sevs m))"
  using expire_fold [of "length (m_sevs m)" m now 0] by (simp_all add: expireWindows_def)

lemma expireWindows_frame [simp]:
  "m_worker_running (snd (expireWindows now m)) = m_worker_running m"
  "m_thread_joinable (snd (expireWindows now m)) = m_thread_joinable m"
  "m_incoming_queue (snd (expireWindows now m)) = m_incoming_queue m"
  "m_idsm_instance_id (snd (expireWindows now m)) = m_idsm_instance_id m"
  "m_dem_cb (snd (expireWindows now m)) = m_dem_cb m"
  "m_idsr_cb (snd (expireWindows now m)) = m_idsr_cb m"
  by (simp_all add: expireWindows_def)

lemma expire_entry_agg:
  "v_agg_pending (expire_entry now st) = (if agg_due now st then None else v_agg_pending st)"
  by (simp add: expire_entry_def close_agg_def)

subsection \<open>Properties of the time windows and of the interface\<close>

lemma agg_due_exact:
  assumes "v_agg_pending st = Some q" "c_aggregation_interval_ms (v_config st) \<noteq> 0"
    "unat (v_agg_window_start_ms st) + unat (c_aggregation_interval_ms (v_config st)) < 4294967296"
  shows "agg_due now st \<longleftrightarrow>
     unat (v_agg_window_start_ms st) + unat (c_aggregation_interval_ms (v_config st)) \<le> unat now"
  using assms by (simp add: agg_due_def word_le_nat_alt unat_plus_u32)

text \<open>Whether the Threshold filter lets a released aggregate through.\<close>

definition agg_passes :: "sev_state \<Rightarrow> owned_qsev \<Rightarrow> bool" where
  "agg_passes st q \<longleftrightarrow> c_threshold (v_config st) = 0 \<or>
     ucast (c_threshold (v_config st)) \<le> (if v_thr_window_open st then v_thr_accumulated st else 0) + ucast (o_count q)"

lemma agg_passes_eq: "fst (passThreshold (close_agg st) (o_count q) now) = agg_passes st q"
  by (simp add: passThreshold_def agg_passes_def close_agg_def Let_def)

text \<open>The calls that a pass makes for a list of SEvs, in their order.\<close>

definition pass_calls :: "u32 \<Rightarrow> manager \<Rightarrow> sev_state list \<Rightarrow> (callback \<times> qsev_c) list" where
  "pass_calls now m sts = concat (map (expire_calls now m) sts)"

text \<open>
  C6: while the millisecond clock does not wrap within the window, a pass of \<open>expireWindows\<close> keeps a
  staged aggregate and makes no call for it until its interval has elapsed. From then on it takes it out of the window and
  hands it once to each registered sink of its SEv, if the Threshold filter is off or reached with the count of the
  aggregate; otherwise the aggregate is dropped. The calls of the pass are those for the SEvs before it, these, and those for
  the SEvs after it, in this order.
\<close>

theorem aggregate_released_when_due:
  assumes "i < length (m_sevs m)" and "st = m_sevs m ! i"
    and "v_agg_pending st = Some q" and "c_aggregation_interval_ms (v_config st) \<noteq> 0"
    and "unat (v_agg_window_start_ms st) + unat (c_aggregation_interval_ms (v_config st)) < 2 ^ 32"
    and "v_agg_window_start_ms st \<le> now"
    and "due \<longleftrightarrow> unat (c_aggregation_interval_ms (v_config st)) \<le> unat now - unat (v_agg_window_start_ms st)"
  shows "v_agg_pending (m_sevs (snd (expireWindows now m)) ! i) = (if due then None else Some q) \<and>
     m_calls (snd (expireWindows now m)) = m_calls m @ pass_calls now m (take i (m_sevs m)) @
       (if due \<and> agg_passes st q then deliveries m st q else []) @ pass_calls now m (drop (Suc i) (m_sevs m))"
proof -
  have le: "unat (v_agg_window_start_ms st) \<le> unat now" using assms by (simp add: word_le_nat_alt)
  have due: "agg_due now st \<longleftrightarrow> due"
    using agg_due_exact [OF assms(3,4), of now] assms(5,7) le by auto
  have "m_sevs m = take i (m_sevs m) @ st # drop (Suc i) (m_sevs m)"
    using assms(1,2) by (simp add: id_take_nth_drop)
  then have "pass_calls now m (m_sevs m) = pass_calls now m (take i (m_sevs m)) @ expire_calls now m st @
      pass_calls now m (drop (Suc i) (m_sevs m))"
    by (metis (no_types, lifting) concat.simps(2) concat_append list.simps(9) map_append pass_calls_def)
  moreover have "expire_calls now m st = (if due \<and> agg_passes st q then deliveries m st q else [])"
    by (simp add: expire_calls_def due assms(3) agg_passes_eq)
  ultimately show ?thesis
    using due assms by (simp add: expireWindows_sevs expire_entry_agg flip: pass_calls_def)
qed

text \<open>An aggregate that the Threshold filter drops on its release is counted nowhere.\<close>

lemma released_drop_uncounted:
  assumes "\<not> agg_passes st q"
  shows "m_stats (release_agg i st q now m) = m_stats m" "m_calls (release_agg i st q now m) = m_calls m"
  using assms by (simp_all add: release_agg_def Let_def split_def agg_passes_eq flip: close_agg_def)

definition staged_manager :: "u32 \<Rightarrow> manager" where
  "staged_manager start = (sample_manager (sample_config\<lparr>c_aggregation_interval_ms := 100\<rparr>))
     \<lparr>m_sevs := [(init_sev (sample_config\<lparr>c_aggregation_interval_ms := 100\<rparr>))
        \<lparr>v_agg_pending := Some sample_owned, v_agg_window_start_ms := start\<rparr>]\<rparr>"

lemma aggregate_released_when_due_witness:
  "v_agg_pending (m_sevs (snd (expireWindows 149 (staged_manager 50))) ! 0) = Some sample_owned \<and>
   v_agg_pending (m_sevs (snd (expireWindows 150 (staged_manager 50))) ! 0) = None \<and>
   map fst (m_calls (snd (expireWindows 150 (staged_manager 50)))) = [1, 2]"
  using aggregate_released_when_due [of 0 "staged_manager 50" "m_sevs (staged_manager 50) ! 0" sample_owned 149 False]
    aggregate_released_when_due [of 0 "staged_manager 50" "m_sevs (staged_manager 50) ! 0" sample_owned 150 True]
  by (simp add: staged_manager_def sample_manager_def manager_start_def init_sev_def sample_config_def
      pass_calls_def agg_passes_def deliveries_def)

text \<open>An aggregate that was staged in a detailed mode is released with its context, also when the mode is brief by then.\<close>

lemma aggregate_keeps_context:
  assumes "0 < length (m_sevs m)" "v_agg_pending (m_sevs m ! 0) = Some q"
    "SetReportingMode 0 REPORTING_BRIEF m = (E_OK, m')" "agg_passes (m_sevs m ! 0) q"
  shows "m_calls (snd (FlushEvents 0 now m')) = m_calls m @ deliveries m (m_sevs m ! 0) q"
proof -
  let ?st = "(m_sevs m ! 0)\<lparr>v_reporting_mode := REPORTING_BRIEF\<rparr>"
  have m': "m' = put_sev 0 ?st m"
    using assms(1,3) by (auto simp: SetReportingMode_def Let_def split: if_splits)
  have "agg_passes ?st q" using assms(4) by (auto simp: agg_passes_def split: if_split_asm)
  moreover have "deliveries m ?st q = deliveries m (m_sevs m ! 0) q" by (rule deliveries_config) simp
  ultimately show ?thesis
    using assms(1,2) by (simp add: FlushEvents_def Let_def m' release_agg_sevs agg_passes_eq)
qed

text \<open>
  The deadline of a window is computed in 32 bits. When the start plus the interval passes 2^32
  (the millisecond clock wraps every 49.7 days), the deadline wraps to a small number and the window
  is closed by the very next pass, in the same millisecond in which it was opened.
\<close>

theorem aggregate_released_early:
  assumes "i < length (m_sevs m)" and "st = m_sevs m ! i"
    and "v_agg_pending st = Some q" and "c_aggregation_interval_ms (v_config st) \<noteq> 0"
    and "unat (v_agg_window_start_ms st) + unat (c_aggregation_interval_ms (v_config st)) \<ge> 2 ^ 32"
    and "now = v_agg_window_start_ms st"
  shows "v_agg_pending (m_sevs (snd (expireWindows now m)) ! i) = None"
proof -
  let ?a = "v_agg_window_start_ms st" and ?b = "c_aggregation_interval_ms (v_config st)"
  have b: "unat ?b < 4294967296" by (rule unat_u32_bound)
  have "unat (?a + ?b) = (unat ?a + unat ?b) mod 4294967296" by (simp add: unat_word_ariths)
  also have "\<dots> = unat ?a + unat ?b - 4294967296"
  proof -
    have "4294967296 \<le> unat ?a + unat ?b" using assms(5) by simp
    moreover have "unat ?a + unat ?b - 4294967296 < 4294967296"
      using b unat_u32_bound [of ?a] by linarith
    ultimately show ?thesis by (simp only: le_mod_geq mod_less)
  qed
  also have "\<dots> \<le> unat ?a" using b by linarith
  finally have "agg_due now st" using assms by (simp add: agg_due_def word_le_nat_alt)
  then show ?thesis using assms by (simp add: expireWindows_sevs expire_entry_agg)
qed

lemma aggregate_released_early_witness:
  "v_agg_pending (m_sevs (snd (expireWindows 0xFFFFFFF0 (staged_manager 0xFFFFFFF0))) ! 0) = None"
  by (rule aggregate_released_early [where st = "m_sevs (staged_manager 0xFFFFFFF0) ! 0" and q = sample_owned])
    (simp_all add: staged_manager_def sample_manager_def manager_start_def init_sev_def sample_config_def)

definition idsm_config_valid :: "idsm_config \<Rightarrow> bool" where
  "idsm_config_valid g \<longleftrightarrow>
     (g_sev_count g = 0 \<or> g_sev_configs g \<noteq> None) \<and>
     unat (g_idsm_instance_id g) \<le> 1023 \<and> g_main_function_period_ms g \<noteq> 0 \<and>
     (\<forall>sc \<in> set (take (unat (g_sev_count g)) (case g_sev_configs g of None \<Rightarrow> [] | Some l \<Rightarrow> l)).
        c_external_event_id sc \<noteq> 0xFFFF \<and> unat (c_sensor_instance_id sc) \<le> 63 \<and>
        mode_val (c_default_reporting_mode sc) \<le> 4 \<and>
        unat (g_main_function_period_ms g) dvd unat (c_aggregation_interval_ms sc) \<and>
        unat (g_main_function_period_ms g) dvd unat (c_threshold_interval_ms sc))"

lemma word_mod_dvd: "(a :: u32) mod b = 0 \<longleftrightarrow> unat b dvd unat a"
  by (simp add: word_unat_eq_iff unat_mod_distrib mod_eq_0_iff_dvd)

lemma sev_config_valid_iff:
  "sev_config_valid p sc \<longleftrightarrow>
     c_external_event_id sc \<noteq> 0xFFFF \<and> unat (c_sensor_instance_id sc) \<le> 63 \<and>
     mode_val (c_default_reporting_mode sc) \<le> 4 \<and>
     unat p dvd unat (c_aggregation_interval_ms sc) \<and> unat p dvd unat (c_threshold_interval_ms sc)"
  by (auto simp: sev_config_valid_def word_mod_dvd EXTERNAL_EVENT_ID_INVALID_def word_less_nat_alt
      less_reporting_mode_def not_less)

text \<open>
  C7: when the configuration array is as long as its count and no worker is running, \<open>Init\<close> always
  returns; it returns \<open>E_OK\<close> exactly for the valid configurations (identifiers in range, a known
  reporting mode, windows that are multiples of the main function period), and then every configured
  SEv starts in its default mode with an empty window, and the worker runs; any other return leaves
  the manager as it was.
\<close>

theorem Init_validates:
  assumes "\<And>g l. cfg = Some g \<Longrightarrow> g_sev_configs g = Some l \<Longrightarrow> unat (g_sev_count g) \<le> length l"
    and "\<not> m_thread_joinable m"
  shows "\<exists>r m'. Init cfg m = Some (r, m') \<and>
     (r = E_OK \<longleftrightarrow> (\<exists>g. cfg = Some g \<and> idsm_config_valid g)) \<and>
     (if r = E_OK
      then m_worker_running m' \<and> m_stats m' = stats_zero \<and>
        length (m_sevs m') = unat (g_sev_count (the cfg)) \<and>
        (\<forall>st \<in> set (m_sevs m'). v_reporting_mode st = c_default_reporting_mode (v_config st) \<and>
           v_agg_pending st = None \<and> \<not> v_thr_window_open st \<and> v_pending_count st = 0)
      else m' = m)"
proof (cases cfg)
  case (Some g)
  define l where "l = (case g_sev_configs g of None \<Rightarrow> [] | Some l \<Rightarrow> l)"
  have len: "\<not> length l < unat (g_sev_count g)" if "g_sev_count g > 0 \<longrightarrow> g_sev_configs g \<noteq> None"
    using assms(1) [OF Some] that word_gt_0 [of "g_sev_count g"]
    by (cases "g_sev_configs g") (auto simp: l_def)
  have iid: "g_idsm_instance_id g > INSTANCE_ID_MAX \<longleftrightarrow> \<not> unat (g_idsm_instance_id g) \<le> 1023"
    by (simp add: INSTANCE_ID_MAX_def word_less_nat_alt not_le)
  have valid: "idsm_config_valid g \<longleftrightarrow>
     \<not> (g_sev_count g > 0 \<and> g_sev_configs g = None) \<and> \<not> g_idsm_instance_id g > INSTANCE_ID_MAX \<and>
     g_main_function_period_ms g \<noteq> 0 \<and>
     list_all (sev_config_valid (g_main_function_period_ms g)) (take (unat (g_sev_count g)) l)"
    unfolding idsm_config_valid_def iid l_def [symmetric] list_all_iff sev_config_valid_iff
    by (auto simp: word_gt_0)
  show ?thesis
  proof (cases "g_sev_count g > 0 \<and> g_sev_configs g = None")
    case True
    then have "Init cfg m = Some (E_PARAM_POINTER, m)" by (simp add: Init_def Some Let_def)
    then show ?thesis using True by (simp add: Some valid)
  next
    case False
    then have "\<not> length l < unat (g_sev_count g)" by (intro len) simp
    with False assms(2) show ?thesis
      unfolding Init_def Some Let_def l_def [symmetric] option.case
      by (auto simp: valid init_sev_def min_def not_less)
  qed
qed (simp add: Init_def)

definition sample_idsm_config :: idsm_config where
  "sample_idsm_config = \<lparr> g_idsm_instance_id = 7, g_main_function_period_ms = 10,
     g_rate_max_events = 0, g_rate_interval_ms = 0, g_traffic_max_bytes = 0,
     g_traffic_interval_ms = 0, g_sev_configs = Some [sample_config], g_sev_count = 1,
     g_event_buffer_size = 64 \<rparr>"

lemma Init_validates_witness:
  "\<exists>m'. Init (Some sample_idsm_config) manager_start = Some (E_OK, m') \<and> length (m_sevs m') = 1"
proof -
  have "idsm_config_valid sample_idsm_config"
    by (simp add: idsm_config_valid_def sample_idsm_config_def sample_config_def)
  then show ?thesis
    using Init_validates [of "Some sample_idsm_config" manager_start]
    by (fastforce simp: sample_idsm_config_def manager_start_def)
qed

end
