(* ===== verification/Idsm_Protocol.thy ===== *)
theory Idsm_Protocol
  imports Idsm_Types
begin

text \<open>
  \<open>src/IdsM_Protocol.c\<close>: the size and the serialisation of an IDS message. The output buffer and
  the write offset of the C code are the pair \<open>(buffer, offset)\<close>, each store through
  \<open>buffer[offset++]\<close> is \<open>put\<close>, and a run of stores is \<open>emit\<close>. \<open>None\<close> means that a store or a load
  left its memory. The offset is a 16-bit word, as in the code. The reading side of the protocol,
  \<open>decode_ids\<close>, is the layout of the comment at the head of the C file, and the main theorem
  is that it reads back what the serialiser wrote.
\<close>

subsection \<open>The code\<close>

definition PROTOCOL_VERSION :: u8 where [idsm_defs]: "PROTOCOL_VERSION = 2"
definition EVENT_FRAME_SIZE :: u16 where [idsm_defs]: "EVENT_FRAME_SIZE = 8"
definition TIMESTAMP_SIZE :: u16 where [idsm_defs]: "TIMESTAMP_SIZE = 8"
definition CONTEXT_SHORT_MAX :: u16 where [idsm_defs]: "CONTEXT_SHORT_MAX = 127"
definition HEADER_CONTEXT_DATA :: u8 where [idsm_defs]: "HEADER_CONTEXT_DATA = 0x01"
definition HEADER_TIMESTAMP :: u8 where [idsm_defs]: "HEADER_TIMESTAMP = 0x02"

definition context_length_field_size :: "u16 \<Rightarrow> u16" where
  "context_length_field_size n = (if n \<le> CONTEXT_SHORT_MAX then 1 else 4)"

definition has_context :: "qsev_c \<Rightarrow> bool" where
  "has_context q = (q_context_data q \<noteq> None \<and> q_context_data_size q > 0)"

definition GetMessageSize :: "qsev_c option \<Rightarrow> u16" where
  "GetMessageSize qo = (case qo of
     None \<Rightarrow> 0
   | Some q \<Rightarrow>
       let size = EVENT_FRAME_SIZE;
           size = (if q_has_timestamp q then size + TIMESTAMP_SIZE else size);
           size = (if has_context q
                   then size + 2 + context_length_field_size (q_context_data_size q)
                        + q_context_data_size q
                   else size)
       in size)"

definition put :: "u8 \<Rightarrow> bytes \<times> u16 \<Rightarrow> (bytes \<times> u16) option" where
  "put b st = map_option (\<lambda>buf. (buf, snd st + 1)) (wr8 (fst st) (unat (snd st)) b)"

fun emit :: "bytes \<Rightarrow> bytes \<times> u16 \<Rightarrow> (bytes \<times> u16) option" where
  "emit [] st = Some st"
| "emit (b # bs) st = put b st \<bind> emit bs"

text \<open>The loop that copies the context data: \<open>n\<close> iterations are left, \<open>i\<close> is the index.\<close>

fun copy_context :: "bytes \<Rightarrow> nat \<Rightarrow> nat \<Rightarrow> bytes \<times> u16 \<Rightarrow> (bytes \<times> u16) option" where
  "copy_context ctx i 0 st = Some st"
| "copy_context ctx i (Suc n) st =
     do { b \<leftarrow> rd8 ctx i; st \<leftarrow> put b st; copy_context ctx (i + 1) n st }"

definition header_byte :: "qsev_c \<Rightarrow> u8" where
  "header_byte q = (if has_context q then HEADER_CONTEXT_DATA else 0) OR
                   (if q_has_timestamp q then HEADER_TIMESTAMP else 0)"

definition event_frame :: "qsev_c \<Rightarrow> bytes" where
  "event_frame q =
     [push_bit 4 PROTOCOL_VERSION OR header_byte q,
      ucast (drop_bit 2 (q_idsm_instance_id q)),
      ucast (push_bit 6 (q_idsm_instance_id q AND 0x03)) OR (q_sensor_instance_id q AND 0x3F),
      ucast (drop_bit 8 (q_external_event_id q)),
      ucast (q_external_event_id q AND 0xFF),
      ucast (drop_bit 8 (q_count q)),
      ucast (q_count q AND 0xFF),
      0]"

definition timestamp_frame :: "timestamp_data \<Rightarrow> bytes" where
  "timestamp_frame t =
     (let ns30 = ts_nanoseconds t AND 0x3FFFFFFF; s = ts_seconds t in
      [(if ts_source t = SOURCE_OEM then 0x80 else 0x00) OR ucast (drop_bit 24 ns30 AND 0x3F),
       ucast (drop_bit 16 ns30 AND 0xFF), ucast (drop_bit 8 ns30 AND 0xFF), ucast (ns30 AND 0xFF),
       ucast (drop_bit 24 s), ucast (drop_bit 16 s AND 0xFF), ucast (drop_bit 8 s AND 0xFF),
       ucast (s AND 0xFF)])"

definition context_header :: "u16 \<Rightarrow> u16 \<Rightarrow> bytes" where
  "context_header version sz =
     [ucast (drop_bit 8 version), ucast (version AND 0xFF)] @
     (if sz \<le> CONTEXT_SHORT_MAX then [ucast sz]
      else let len = (ucast sz :: u32) in
        [0x80 OR ucast (drop_bit 24 len AND 0x7F), ucast (drop_bit 16 len AND 0xFF),
         ucast (drop_bit 8 len AND 0xFF), ucast (len AND 0xFF)])"

text \<open>
  The result is \<open>None\<close> when the code accesses memory out of bounds, and otherwise the returned
  size with the contents of the buffer afterwards.
\<close>

definition SerializeQSEv :: "qsev_c option \<Rightarrow> bytes option \<Rightarrow> u16 \<Rightarrow> (u16 \<times> bytes option) option" where
  "SerializeQSEv qo buffer buffer_size = (case (qo, buffer) of
     (Some q, Some buf) \<Rightarrow>
       let required = GetMessageSize qo in
       if required = 0 \<or> buffer_size < required then Some (0, buffer)
       else do {
         st \<leftarrow> emit (event_frame q) (buf, 0);
         st \<leftarrow> (if q_has_timestamp q then emit (timestamp_frame (q_timestamp q)) st else Some st);
         st \<leftarrow> (if has_context q then do {
                  st \<leftarrow> emit (context_header (q_context_data_version q) (q_context_data_size q)) st;
                  copy_context (the (q_context_data q)) 0 (unat (q_context_data_size q)) st }
                else Some st);
         Some (snd st, Some (fst st)) }
   | _ \<Rightarrow> Some (0, buffer))"

subsection \<open>The layout of the message\<close>

record ids_message =
  w_version :: u8
  w_instance_id :: u16
  w_sensor_id :: u8
  w_event_id :: u16
  w_count :: u16
  w_timestamp :: "timestamp_data option"
  w_context :: "(u16 \<times> bytes) option"

definition decode_timestamp :: "bytes \<Rightarrow> timestamp_data option" where
  "decode_timestamp p = do {
     w \<leftarrow> rd32 p 0; s \<leftarrow> rd32 p 4;
     Some \<lparr> ts_seconds = s, ts_nanoseconds = w AND 0x3FFFFFFF,
            ts_source = (if bit w 31 then SOURCE_OEM else SOURCE_AUTOSAR) \<rparr> }"

definition decode_context :: "bytes \<Rightarrow> (u16 \<times> bytes) option" where
  "decode_context p = do {
     v \<leftarrow> rd16 p 0; l \<leftarrow> rd8 p 2;
     if l \<le> 127 then (if length p = 3 + unat l then Some (v, drop 3 p) else None)
     else do { w \<leftarrow> rd32 p 2;
               if length p = 6 + unat (w AND 0x7FFFFFFF) then Some (v, drop 6 p) else None } }"

definition decode_ids :: "bytes \<Rightarrow> ids_message option" where
  "decode_ids p = do {
     b0 \<leftarrow> rd8 p 0; ids \<leftarrow> rd16 p 1; ev \<leftarrow> rd16 p 3; cnt \<leftarrow> rd16 p 5; r \<leftarrow> rd8 p 7;
     let p1 = drop 8 p;
     (ts, p2) \<leftarrow> (if bit b0 1 then do { t \<leftarrow> decode_timestamp p1; Some (Some t, drop 8 p1) }
                  else Some (None, p1));
     ctx \<leftarrow> (if bit b0 0 then map_option Some (decode_context p2)
             else if p2 = [] then Some None else None);
     Some \<lparr> w_version = drop_bit 4 b0, w_instance_id = drop_bit 6 ids,
            w_sensor_id = ucast (ids AND 0x3F), w_event_id = ev, w_count = cnt,
            w_timestamp = ts, w_context = ctx \<rparr> }"

text \<open>What the fields of an event become on the wire: 10, 6 and 30 bits are kept.\<close>

definition message_of :: "qsev_c \<Rightarrow> ids_message" where
  "message_of q = \<lparr>
     w_version = PROTOCOL_VERSION,
     w_instance_id = q_idsm_instance_id q AND 0x3FF,
     w_sensor_id = q_sensor_instance_id q AND 0x3F,
     w_event_id = q_external_event_id q,
     w_count = q_count q,
     w_timestamp = (if q_has_timestamp q
       then Some ((q_timestamp q) \<lparr> ts_nanoseconds := ts_nanoseconds (q_timestamp q) AND 0x3FFFFFFF \<rparr>)
       else None),
     w_context = (if has_context q
       then Some (q_context_data_version q,
                  take (unat (q_context_data_size q)) (the (q_context_data q)))
       else None) \<rparr>"

definition message_length :: "qsev_c \<Rightarrow> nat" where
  "message_length q = 8 + (if q_has_timestamp q then 8 else 0) +
     (if has_context q
      then 2 + (if unat (q_context_data_size q) \<le> 127 then 1 else 4) + unat (q_context_data_size q)
      else 0)"

text \<open>The context pointer of an event points to at least as many bytes as its size field says.\<close>

definition context_readable :: "qsev_c \<Rightarrow> bool" where
  "context_readable q = (case q_context_data q of None \<Rightarrow> True
     | Some ctx \<Rightarrow> unat (q_context_data_size q) \<le> length ctx)"

definition wire :: "qsev_c \<Rightarrow> bytes" where
  "wire q = event_frame q @ (if q_has_timestamp q then timestamp_frame (q_timestamp q) else []) @
     (if has_context q
      then context_header (q_context_data_version q) (q_context_data_size q) @
           take (unat (q_context_data_size q)) (the (q_context_data q))
      else [])"

subsection \<open>What the stores do\<close>

lemma put_Some:
  "unat off < length buf \<Longrightarrow> put b (buf, off) = Some (buf[unat off := b], off + 1)"
  by (simp add: put_def wr8_def)

lemma put_None: "length buf \<le> unat off \<Longrightarrow> put b (buf, off) = None"
  by (simp add: put_def wr8_def)

lemma emit_append: "emit (xs @ ys) st = emit xs st \<bind> emit ys"
  by (induction xs arbitrary: st) (simp_all split: Option.bind_split)

lemma unat_inc16: "unat (x :: u16) + 1 < 65536 \<Longrightarrow> unat (x + 1) = unat x + 1"
  by (simp add: unat_word_ariths)

lemma emit_Some:
  "unat off + length bs \<le> length buf \<Longrightarrow> unat off + length bs < 65536 \<Longrightarrow>
   emit bs (buf, off) = Some (take (unat off) buf @ bs @ drop (unat off + length bs) buf,
                              off + of_nat (length bs))"
proof (induction bs arbitrary: buf off)
  case (Cons b bs)
  have off1: "unat (off + 1) = unat off + 1"
    using Cons.prems by (intro unat_inc16) simp
  have "emit (b # bs) (buf, off) = emit bs (buf[unat off := b], off + 1)"
    using Cons.prems by (simp add: put_Some)
  also have "\<dots> = Some (take (unat off + 1) (buf[unat off := b]) @ bs @
      drop (unat off + 1 + length bs) (buf[unat off := b]), off + 1 + of_nat (length bs))"
    using Cons.prems by (subst Cons.IH) (simp_all add: off1)
  also have "take (unat off + 1) (buf[unat off := b]) = take (unat off) buf @ [b]"
    using Cons.prems by (simp add: take_Suc_conv_app_nth)
  finally show ?case by (simp add: algebra_simps)
qed simp

lemma emit_None:
  "length buf < unat off + length bs \<Longrightarrow> unat off \<le> length buf \<Longrightarrow> length buf < 65536 \<Longrightarrow>
   emit bs (buf, off) = None"
proof (induction bs arbitrary: buf off)
  case (Cons b bs)
  show ?case
  proof (cases "unat off < length buf")
    case True
    with Cons.prems have *: "unat (off + 1) = unat off + 1" by (intro unat_inc16) simp
    show ?thesis
      using True Cons.prems by (simp add: put_Some) (rule Cons.IH; simp add: *)
  qed (simp add: put_None)
qed simp

lemma copy_context_emit:
  "i + n \<le> length ctx \<Longrightarrow> copy_context ctx i n st = emit (take n (drop i ctx)) st"
  by (induction n arbitrary: i st)
    (auto simp: rd_simps take_Suc hd_drop_conv_nth drop_Suc tl_drop split: Option.bind_split)

lemma event_frame_length [simp]: "length (event_frame q) = 8"
  by (simp add: event_frame_def)

lemma timestamp_frame_length [simp]: "length (timestamp_frame t) = 8"
  by (simp add: timestamp_frame_def Let_def)

lemma context_header_length:
  "length (context_header v n) = 2 + (if unat n \<le> 127 then 1 else 4)"
  by (auto simp: context_header_def CONTEXT_SHORT_MAX_def Let_def word_le_nat_alt)

lemma wire_length: "context_readable q \<Longrightarrow> length (wire q) = message_length q"
  by (auto simp: wire_def message_length_def context_header_length context_readable_def has_context_def
      split: option.splits)

lemma GetMessageSize_eq: "GetMessageSize (Some q) = of_nat (message_length q)"
  by (auto simp: GetMessageSize_def message_length_def context_length_field_size_def idsm_defs Let_def
      word_le_nat_alt)

lemma serialize_wire:
  assumes "context_readable q" "\<not> (GetMessageSize (Some q) = 0 \<or> n < GetMessageSize (Some q))"
  shows "SerializeQSEv (Some q) (Some buf) n =
     map_option (\<lambda>st. (snd st, Some (fst st))) (emit (wire q) (buf, 0))"
  using assms
  by (auto simp: SerializeQSEv_def wire_def emit_append Let_def context_readable_def has_context_def
      copy_context_emit split: option.splits Option.bind_splits)

subsection \<open>Reading the frames back\<close>

lemma bit_80: "bit (0x80 :: int) k = (k = 7)"
proof -
  have "(0x80 :: int) = push_bit 7 1" by simp
  then show ?thesis by (simp only: bit_push_bit_iff) (auto simp: bit_1_iff)
qed

lemma Suc_Suc_minus_2: "2 \<le> n \<Longrightarrow> Suc (Suc (n - 2)) = n"
  by simp

lemma byte_and_FF:
  "ucast (x AND 0xFF :: u16) = lo8 x" "ucast (drop_bit 8 (x :: u16)) = hi8 x"
  "ucast (drop_bit 24 y :: u32) = byte3 y" "ucast (drop_bit 16 y AND 0xFF :: u32) = byte2 y"
  "ucast (drop_bit 8 y AND 0xFF :: u32) = byte1 y" "ucast (y AND 0xFF :: u32) = byte0 y"
proof -
  have m: "(0xFF :: u16) = mask 8" "(0xFF :: u32) = mask 8" by (simp_all add: mask_eq_exp_minus_1)
  show
    "ucast (x AND 0xFF :: u16) = lo8 x" "ucast (drop_bit 8 (x :: u16)) = hi8 x"
    "ucast (drop_bit 24 y :: u32) = byte3 y" "ucast (drop_bit 16 y AND 0xFF :: u32) = byte2 y"
    "ucast (drop_bit 8 y AND 0xFF :: u32) = byte1 y" "ucast (y AND 0xFF :: u32) = byte0 y"
    unfolding m
    by (auto intro!: bit_word_eqI simp: lo8_def hi8_def byte3_def byte2_def byte1_def byte0_def
        bit_unsigned_iff bit_and_iff bit_drop_bit_eq bit_mask_iff)
qed

lemma instance_bits:
  "drop_bit 6 (be16 (ucast (drop_bit 2 i)) (ucast (push_bit 6 (i AND 0x03)) OR (s AND 0x3F)))
     = i AND 0x3FF"
proof -
  have m: "(0x03 :: u16) = mask 2" "(0x3F :: u8) = mask 6" "(0x3FF :: u16) = mask 10"
    by (simp_all add: mask_eq_exp_minus_1)
  show ?thesis unfolding m
  proof (rule bit_word_eqI)
    fix n
    show "bit (drop_bit 6 (be16 (ucast (drop_bit 2 i)) (ucast (push_bit 6 (i AND mask 2)) OR
       (s AND mask 6)))) n = bit (i AND mask 10) n"
      by (cases "2 \<le> n")
        (auto simp: be16_def bit_unsigned_iff bit_and_iff bit_or_iff bit_drop_bit_eq
          bit_push_bit_iff bit_mask_iff Suc_Suc_minus_2)
  qed
qed

lemma sensor_bits:
  "ucast (be16 (ucast (drop_bit 2 i)) (ucast (push_bit 6 (i AND 0x03)) OR (s AND 0x3F)) AND 0x3F)
     = (s AND 0x3F :: u8)"
proof -
  have m: "(0x03 :: u16) = mask 2" "(0x3F :: u8) = mask 6" "(0x3F :: u16) = mask 6"
    by (simp_all add: mask_eq_exp_minus_1)
  show ?thesis unfolding m
    by (rule bit_word_eqI)
      (auto simp: be16_def bit_unsigned_iff bit_and_iff bit_or_iff bit_drop_bit_eq bit_push_bit_iff
        bit_mask_iff)
qed

lemma nanoseconds_bits:
  fixes ns :: u32 and b :: bool
  defines "w \<equiv> be32 ((if b then 0x80 else 0x00) OR ucast (drop_bit 24 (ns AND 0x3FFFFFFF) AND 0x3F))
     (byte2 (ns AND 0x3FFFFFFF)) (byte1 (ns AND 0x3FFFFFFF)) (byte0 (ns AND 0x3FFFFFFF))"
  shows "w AND 0x3FFFFFFF = ns AND 0x3FFFFFFF" "bit w 31 = b"
proof -
  have m: "(0x3F :: u32) = mask 6" "(0x3FFFFFFF :: u32) = mask 30"
    by (simp_all add: mask_eq_exp_minus_1)
  show "w AND 0x3FFFFFFF = ns AND 0x3FFFFFFF"
  proof (rule bit_word_eqI)
    fix n assume n: "n < LENGTH(32)"
    then consider "n < 8" | "8 \<le> n" "n < 16" | "16 \<le> n" "n < 24" | "24 \<le> n" "n < 30" | "30 \<le> n"
      by fastforce
    then show "bit (w AND 0x3FFFFFFF) n = bit (ns AND 0x3FFFFFFF) n"
      unfolding w_def m
      by cases (auto simp: bit_be32 byte_bits bit_and_iff bit_mask_iff bit_or_iff bit_push_bit_iff
          bit_unsigned_iff bit_drop_bit_eq bit_80)
  qed
  show "bit w 31 = b"
    unfolding w_def m
    by (auto simp: bit_be32 byte_bits bit_and_iff bit_mask_iff bit_or_iff bit_push_bit_iff
        bit_unsigned_iff bit_drop_bit_eq bit_80 bit_u8_ge)
qed

lemma length_bits:
  fixes n :: u16
  defines "len \<equiv> (ucast n :: u32)"
  shows "be32 (0x80 OR ucast (drop_bit 24 len AND 0x7F)) (byte2 len) (byte1 len) (byte0 len)
           AND 0x7FFFFFFF = len"
    "\<not> (0x80 OR ucast (drop_bit 24 len AND 0x7F) :: u8) \<le> 127"
proof -
  have m: "(0x7F :: u32) = mask 7" "(0x7FFFFFFF :: u32) = mask 31"
    by (simp_all add: mask_eq_exp_minus_1)
  have z: "drop_bit 24 len = 0"
    by (rule bit_word_eqI) (auto simp: len_def bit_drop_bit_eq bit_unsigned_iff dest: bit_imp_le_length)
  show "be32 (0x80 OR ucast (drop_bit 24 len AND 0x7F)) (byte2 len) (byte1 len) (byte0 len)
           AND 0x7FFFFFFF = len"
  proof (rule bit_word_eqI)
    fix k assume k: "k < LENGTH(32)"
    then consider "k < 8" | "8 \<le> k" "k < 16" | "16 \<le> k" "k < 24" | "24 \<le> k" "k < 31" | "k = 31"
      by fastforce
    then show "bit (be32 (0x80 OR ucast (drop_bit 24 len AND 0x7F)) (byte2 len) (byte1 len) (byte0 len)
           AND 0x7FFFFFFF) k = bit len k"
      unfolding z m
      by cases (auto simp: len_def bit_be32 byte_bits bit_and_iff bit_mask_iff bit_or_iff
          bit_push_bit_iff bit_unsigned_iff bit_80 dest: bit_imp_le_length)
  qed
  show "\<not> (0x80 OR ucast (drop_bit 24 len AND 0x7F) :: u8) \<le> 127"
    unfolding z by (simp add: word_le_nat_alt)
qed

lemma header_bits:
  "bit (push_bit 4 PROTOCOL_VERSION OR header_byte q) 0 = has_context q"
  "bit (push_bit 4 PROTOCOL_VERSION OR header_byte q) 1 = q_has_timestamp q"
  "drop_bit 4 (push_bit 4 PROTOCOL_VERSION OR header_byte q) = PROTOCOL_VERSION"
  by (cases "has_context q"; cases "q_has_timestamp q"; simp add: header_byte_def idsm_defs)+

lemma timestamp_frame_eq:
  "timestamp_frame t =
     [(if ts_source t = SOURCE_OEM then 0x80 else 0x00) OR
        ucast (drop_bit 24 (ts_nanoseconds t AND 0x3FFFFFFF) AND 0x3F),
      byte2 (ts_nanoseconds t AND 0x3FFFFFFF), byte1 (ts_nanoseconds t AND 0x3FFFFFFF),
      byte0 (ts_nanoseconds t AND 0x3FFFFFFF),
      byte3 (ts_seconds t), byte2 (ts_seconds t), byte1 (ts_seconds t), byte0 (ts_seconds t)]"
  unfolding timestamp_frame_def Let_def byte_and_FF(3-5) by (simp only: byte_and_FF(6))

lemma context_header_eq:
  "context_header v n = (if n \<le> 127 then [hi8 v, lo8 v, ucast n]
     else [hi8 v, lo8 v, 0x80 OR ucast (drop_bit 24 (ucast n :: u32) AND 0x7F),
           byte2 (ucast n), byte1 (ucast n), byte0 (ucast n)])"
  unfolding context_header_def Let_def byte_and_FF(1-5) CONTEXT_SHORT_MAX_def
  by (simp only: byte_and_FF(6) append.simps split: if_split) simp

lemma decode_timestamp_bytes:
  "decode_timestamp ([a, b, c, d, e, f, g, h] @ rest) =
     Some \<lparr> ts_seconds = be32 e f g h, ts_nanoseconds = be32 a b c d AND 0x3FFFFFFF,
            ts_source = (if bit (be32 a b c d) 31 then SOURCE_OEM else SOURCE_AUTOSAR) \<rparr>"
  by (simp add: decode_timestamp_def rd32_def rd8_def)

lemma decode_timestamp_frame:
  "decode_timestamp (timestamp_frame t @ rest) =
     Some (t\<lparr>ts_nanoseconds := ts_nanoseconds t AND 0x3FFFFFFF\<rparr>)"
  unfolding timestamp_frame_eq decode_timestamp_bytes nanoseconds_bits be32_bytes
  by (cases t; cases "ts_source t") simp_all

lemma unat_ucast_u8: "unat (n :: u16) < 256 \<Longrightarrow> unat (ucast n :: u8) = unat n"
  by (simp add: unsigned_ucast_eq take_bit_eq_mod)

lemma decode_context_frame:
  assumes "n = of_nat (length ctx)" "length ctx < 65536"
  shows "decode_context (context_header v n @ ctx) = Some (v, ctx)"
proof -
  have un: "unat n = length ctx" using assms by (simp add: unat_of_nat)
  show ?thesis
  proof (cases "n \<le> 127")
    case True
    then have "unat n \<le> 127" by (simp add: word_le_nat_alt)
    then have "unat (ucast n :: u8) = unat n" by (simp add: unat_ucast_u8)
    then show ?thesis
      using True un \<open>unat n \<le> 127\<close>
      by (simp add: decode_context_def context_header_eq rd_simps word_le_nat_alt)
  next
    case False
    have "unat n < 4294967296" using unat_u16_bound [of n] by linarith
    then have "unat (ucast n :: u32) = unat n"
      by (simp add: unsigned_ucast_eq take_bit_eq_mod)
    then show ?thesis
      using False un length_bits [of n]
      by (simp add: decode_context_def context_header_eq rd_simps)
  qed
qed

lemma message_length_bound:
  "message_length q < 65536 \<Longrightarrow> unat (GetMessageSize (Some q)) = message_length q"
  by (simp add: GetMessageSize_eq unat_of_nat)

lemma decode_ids_bytes:
  "decode_ids ([b0, b1, b2, b3, b4, b5, b6, b7] @ rest) = do {
     (ts, p2) \<leftarrow> (if bit b0 1 then do { t \<leftarrow> decode_timestamp rest; Some (Some t, drop 8 rest) }
                  else Some (None, rest));
     ctx \<leftarrow> (if bit b0 0 then map_option Some (decode_context p2)
             else if p2 = [] then Some None else None);
     Some \<lparr> w_version = drop_bit 4 b0, w_instance_id = drop_bit 6 (be16 b1 b2),
            w_sensor_id = ucast (be16 b1 b2 AND 0x3F), w_event_id = be16 b3 b4,
            w_count = be16 b5 b6, w_timestamp = ts, w_context = ctx \<rparr> }"
  by (simp add: decode_ids_def rd16_def rd8_def Let_def)

lemma decode_wire:
  assumes "context_readable q"
  shows "decode_ids (wire q) = Some (message_of q)"
proof -
  have ctx: "decode_context (context_header (q_context_data_version q) (q_context_data_size q) @
       take (unat (q_context_data_size q)) (the (q_context_data q))) =
     Some (q_context_data_version q, take (unat (q_context_data_size q)) (the (q_context_data q)))"
    if "has_context q"
    using that assms
    by (intro decode_context_frame)
      (auto simp: context_readable_def has_context_def min_absorb2 split: option.splits)
  show ?thesis
    unfolding wire_def event_frame_def decode_ids_bytes header_bits instance_bits sensor_bits
      byte_and_FF be16_hi_lo message_of_def
    by (cases "q_has_timestamp q"; cases "has_context q")
      (simp_all add: decode_timestamp_frame decode_timestamp_frame [of _ "[]", simplified] ctx)
qed

lemma serialize_fits:
  assumes "context_readable q" "message_length q < 65536"
    "GetMessageSize (Some q) \<le> n" "unat n \<le> length buf"
  shows "SerializeQSEv (Some q) (Some buf) n =
     Some (GetMessageSize (Some q), Some (wire q @ drop (message_length q) buf))"
proof -
  have sz: "unat (GetMessageSize (Some q)) = message_length q"
    using assms(2) by (rule message_length_bound)
  have pos: "GetMessageSize (Some q) \<noteq> 0"
    using sz by (auto simp: message_length_def)
  have len: "message_length q \<le> length buf"
    using assms(3,4) sz by (simp add: word_le_nat_alt)
  have "SerializeQSEv (Some q) (Some buf) n =
     map_option (\<lambda>st. (snd st, Some (fst st))) (emit (wire q) (buf, 0))"
    using assms pos by (intro serialize_wire) auto
  also have "emit (wire q) (buf, 0) =
     Some (take 0 buf @ wire q @ drop (message_length q) buf, 0 + of_nat (message_length q))"
    using assms len by (subst emit_Some) (simp_all add: wire_length)
  finally show ?thesis by (simp add: GetMessageSize_eq)
qed

subsection \<open>Properties\<close>

text \<open>
  C1: for every event whose context data is readable and whose message is shorter than 65536
  bytes, the serialiser stays inside a buffer that has the required size, returns that size,
  leaves the rest of the buffer alone, and the bytes it wrote decode to exactly the fields of the
  event (10, 6 and 30 bits of the fields that the wire truncates), with or without a timestamp,
  and with the short or the long form of the context length.
\<close>

theorem serialize_roundtrip:
  assumes "context_readable q" and "message_length q < 65536"
    and "GetMessageSize (Some q) \<le> n" and "unat n \<le> length buf"
  shows "\<exists>buf'. SerializeQSEv (Some q) (Some buf) n = Some (GetMessageSize (Some q), Some buf') \<and>
     length buf' = length buf \<and>
     drop (unat (GetMessageSize (Some q))) buf' = drop (unat (GetMessageSize (Some q))) buf \<and>
     decode_ids (take (unat (GetMessageSize (Some q))) buf') = Some (message_of q)"
proof -
  have "message_length q \<le> length buf"
    using assms message_length_bound [of q] by (simp add: word_le_nat_alt)
  then show ?thesis
    using assms by (simp add: serialize_fits message_length_bound wire_length decode_wire)
qed

definition sample_qsev :: qsev_c where
  "sample_qsev = \<lparr> q_idsm_instance_id = 0x155, q_external_event_id = 0x8001,
     q_sensor_instance_id = 5, q_severity = SEVERITY_HIGH, q_count = 3, q_has_timestamp = True,
     q_timestamp = \<lparr> ts_seconds = 100, ts_nanoseconds = 7, ts_source = SOURCE_OEM \<rparr>,
     q_context_data_version = 1, q_context_data = Some [0xAA, 0xBB], q_context_data_size = 2 \<rparr>"

lemma serialize_roundtrip_witness:
  "\<exists>buf'. SerializeQSEv (Some sample_qsev) (Some (replicate 32 0)) 32 =
       Some (GetMessageSize (Some sample_qsev), Some buf') \<and>
     length buf' = length (replicate 32 (0 :: u8)) \<and>
     drop (unat (GetMessageSize (Some sample_qsev))) buf' =
       drop (unat (GetMessageSize (Some sample_qsev))) (replicate 32 0) \<and>
     decode_ids (take (unat (GetMessageSize (Some sample_qsev))) buf') =
       Some (message_of sample_qsev)"
  by (rule serialize_roundtrip)
    (simp_all add: sample_qsev_def context_readable_def message_length_def has_context_def
      GetMessageSize_def context_length_field_size_def idsm_defs)

text \<open>
  The serialiser rejects exactly the calls with a null pointer or a buffer that is too small,
  and a rejected call returns 0 and leaves the buffer as it was.
\<close>

lemma serialize_rejects:
  assumes "\<And>q. qo = Some q \<Longrightarrow> context_readable q \<and> message_length q < 65536"
    and "\<And>buf. buffer = Some buf \<Longrightarrow> unat n \<le> length buf"
  shows "(if qo = None \<or> buffer = None \<or> n < GetMessageSize qo
          then SerializeQSEv qo buffer n = Some (0, buffer)
          else \<exists>k b. k \<noteq> 0 \<and> SerializeQSEv qo buffer n = Some (k, b))"
proof (cases "qo = None \<or> buffer = None \<or> n < GetMessageSize qo")
  case True
  then show ?thesis by (auto simp: SerializeQSEv_def Let_def split: option.splits)
next
  case False
  then obtain q buf where q: "qo = Some q" "buffer = Some buf" by auto
  have "GetMessageSize (Some q) \<noteq> 0"
    using message_length_bound [of q] assms(1) [OF q(1)] by (auto simp: message_length_def)
  with False q assms show ?thesis by (simp add: serialize_fits)
qed

text \<open>
  The size of a message is computed in 16 bits. When the context data is so long that the
  message would need 65536 bytes or more, the size wraps, the buffer check passes on a buffer of
  the wrapped size, and the serialiser writes past the end of that buffer.
\<close>

lemma serialize_overrun:
  assumes "context_readable q" and "message_length q \<ge> 65536"
    and "GetMessageSize (Some q) \<noteq> 0" and "GetMessageSize (Some q) \<le> n" and "length buf = unat n"
  shows "SerializeQSEv (Some q) (Some buf) n = None"
proof -
  have n: "unat n < 65536" by (rule unat_u16_bound)
  with assms(2) have "length buf < length (wire q)"
    using assms(1,5) by (simp only: wire_length)
  with n assms(5) have "emit (wire q) (buf, 0) = None"
    by (intro emit_None) (simp_all only: unsigned_0 add_0 le0)
  then show ?thesis
    using assms by (subst serialize_wire) auto
qed

end
