(* ===== verification/Idsm_System.thy ===== *)
theory Idsm_System
  imports Idsm_Manager_Ops Idsm_Protocol
begin

text \<open>
  The manager with its worker thread as a step relation. The worker's program counter says where
  \<open>worker_loop\<close> stands; between two of its critical sections every operation of the interface can
  run, in any order and number. The clocks and the arguments of the operations are arbitrary.
  The invariant of the reachable states gives what holds of every event that reaches a sink and
  of the counters of the manager.
\<close>

subsection \<open>The step relation\<close>

datatype worker_pc = Stopped | LoopTop | Locking | Waiting | Processing "owned_sev list"

record sys =
  y_mgr :: manager
  y_pc :: worker_pc

definition sys_start :: sys where
  "sys_start = \<lparr> y_mgr = manager_start, y_pc = Stopped \<rparr>"

text \<open>
  \<open>report\<close> is the locked part of \<open>ReportSecurityEvent\<close>, since the flag is read before the lock is
  taken and the worker may be stopped in between. \<open>clear\<close> is the part of \<open>DeInit\<close> after the join.
  A thread that waits can wake at any time.
\<close>

inductive step :: "sys \<Rightarrow> sys \<Rightarrow> bool" where
  init: "Init cfg m = Some (r, m') \<Longrightarrow>
    step \<lparr>y_mgr = m, y_pc = pc\<rparr> \<lparr>y_mgr = m', y_pc = (if r = E_OK then LoopTop else pc)\<rparr>"
| stop: "step \<lparr>y_mgr = m, y_pc = pc\<rparr> \<lparr>y_mgr = DeInit_stop m, y_pc = pc\<rparr>"
| clear: "step \<lparr>y_mgr = m, y_pc = Stopped\<rparr> \<lparr>y_mgr = snd (DeInit_clear m), y_pc = Stopped\<rparr>"
| report: "step \<lparr>y_mgr = m, y_pc = pc\<rparr> \<lparr>y_mgr = report_locked i ctx sz ver cnt ts m, y_pc = pc\<rparr>"
| set_mode: "step \<lparr>y_mgr = m, y_pc = pc\<rparr> \<lparr>y_mgr = snd (SetReportingMode i mode m), y_pc = pc\<rparr>"
| bswm: "step \<lparr>y_mgr = m, y_pc = pc\<rparr> \<lparr>y_mgr = BswM_StateChanged b m, y_pc = pc\<rparr>"
| reset_status: "step \<lparr>y_mgr = m, y_pc = pc\<rparr> \<lparr>y_mgr = snd (ResetDetectionStatus i m), y_pc = pc\<rparr>"
| flush: "step \<lparr>y_mgr = m, y_pc = pc\<rparr> \<lparr>y_mgr = snd (FlushEvents i now m), y_pc = pc\<rparr>"
| set_dem: "step \<lparr>y_mgr = m, y_pc = pc\<rparr> \<lparr>y_mgr = SetDemReportCallback cb m, y_pc = pc\<rparr>"
| set_idsr: "step \<lparr>y_mgr = m, y_pc = pc\<rparr> \<lparr>y_mgr = RegisterIdsrSink cb m, y_pc = pc\<rparr>"
| set_nvm: "step \<lparr>y_mgr = m, y_pc = pc\<rparr> \<lparr>y_mgr = SetNvmStoreCallback cb m, y_pc = pc\<rparr>"
| reset_stats: "step \<lparr>y_mgr = m, y_pc = pc\<rparr> \<lparr>y_mgr = ResetStats m, y_pc = pc\<rparr>"
| w_exit: "\<not> m_worker_running m \<Longrightarrow>
    step \<lparr>y_mgr = m, y_pc = LoopTop\<rparr> \<lparr>y_mgr = m, y_pc = Stopped\<rparr>"
| w_enter: "m_worker_running m \<Longrightarrow>
    step \<lparr>y_mgr = m, y_pc = LoopTop\<rparr> \<lparr>y_mgr = m, y_pc = Locking\<rparr>"
| w_wait: "m_incoming_queue m = [] \<Longrightarrow>
    step \<lparr>y_mgr = m, y_pc = Locking\<rparr> \<lparr>y_mgr = snd (expireWindows now m), y_pc = Waiting\<rparr>"
| w_direct: "m_incoming_queue m \<noteq> [] \<Longrightarrow> drain_queue m = (batch, m') \<Longrightarrow>
    step \<lparr>y_mgr = m, y_pc = Locking\<rparr> \<lparr>y_mgr = m', y_pc = Processing batch\<rparr>"
| w_wake_exit: "\<not> m_worker_running m \<Longrightarrow> m_incoming_queue m = [] \<Longrightarrow>
    step \<lparr>y_mgr = m, y_pc = Waiting\<rparr> \<lparr>y_mgr = m, y_pc = Stopped\<rparr>"
| w_wake: "m_worker_running m \<or> m_incoming_queue m \<noteq> [] \<Longrightarrow> drain_queue m = (batch, m') \<Longrightarrow>
    step \<lparr>y_mgr = m, y_pc = Waiting\<rparr> \<lparr>y_mgr = m', y_pc = Processing batch\<rparr>"
| w_process: "processEvent e k m = Some m' \<Longrightarrow>
    step \<lparr>y_mgr = m, y_pc = Processing (e # es)\<rparr> \<lparr>y_mgr = m', y_pc = Processing es\<rparr>"
| w_tick: "step \<lparr>y_mgr = m, y_pc = Processing []\<rparr>
    \<lparr>y_mgr = snd (expireWindows now m), y_pc = LoopTop\<rparr>"

inductive reachable :: "sys \<Rightarrow> bool" where
  start: "reachable sys_start"
| next_step: "reachable s \<Longrightarrow> step s s' \<Longrightarrow> reachable s'"

subsection \<open>Well-formed data\<close>

definition wf_config :: "sev_config \<Rightarrow> bool" where
  "wf_config c \<longleftrightarrow> c_external_event_id c \<noteq> 0xFFFF \<and> unat (c_sensor_instance_id c) \<le> 63"

definition wf_event :: "owned_sev \<Rightarrow> bool" where
  "wf_event e \<longleftrightarrow> s_count e \<noteq> 0 \<and> length (s_context_data e) < 65536"

definition wf_qsev :: "owned_qsev \<Rightarrow> bool" where
  "wf_qsev q \<longleftrightarrow> o_count q \<noteq> 0 \<and> unat (o_idsm_instance_id q) \<le> 1023 \<and>
     o_external_event_id q \<noteq> 0xFFFF \<and> unat (o_sensor_instance_id q) \<le> 63 \<and>
     o_has_timestamp q \<and> length (o_context_data q) < 65536"

text \<open>An event as a sink gets it.\<close>

definition wf_call :: "qsev_c \<Rightarrow> bool" where
  "wf_call q \<longleftrightarrow> q_count q \<noteq> 0 \<and> unat (q_idsm_instance_id q) \<le> 1023 \<and>
     q_external_event_id q \<noteq> 0xFFFF \<and> unat (q_sensor_instance_id q) \<le> 63 \<and> q_has_timestamp q \<and>
     (case q_context_data q of None \<Rightarrow> q_context_data_size q = 0
      | Some ctx \<Rightarrow> ctx \<noteq> [] \<and> unat (q_context_data_size q) = length ctx)"

definition wf_sev :: "sev_state \<Rightarrow> bool" where
  "wf_sev st \<longleftrightarrow> wf_config (v_config st) \<and> mode_val (v_reporting_mode st) \<le> 4 \<and>
     unat (v_nth_counter st) \<le> unat (c_forward_every_nth (v_config st)) \<and>
     (\<forall>q. v_agg_pending st = Some q \<longrightarrow> c_aggregation_interval_ms (v_config st) \<noteq> 0 \<and> wf_qsev q)"

definition queued :: "owned_sev list \<Rightarrow> nat \<Rightarrow> nat" where
  "queued q i = length (filter (\<lambda>e. unat (s_event_id e) = i) q)"

definition wf_mgr :: "manager \<Rightarrow> bool" where
  "wf_mgr m \<longleftrightarrow> list_all wf_sev (m_sevs m) \<and> list_all wf_event (m_incoming_queue m) \<and>
     unat (m_idsm_instance_id m) \<le> 1023 \<and> list_all (\<lambda>(cb, q). wf_call q) (m_calls m) \<and>
     (\<forall>i < length (m_sevs m). v_pending_count (m_sevs m ! i) = of_nat (queued (m_incoming_queue m) i)) \<and>
     (\<not> m_thread_joinable m \<longrightarrow> m_sevs m = [] \<and> m_incoming_queue m = [])"

subsection \<open>The filters keep a SEv well formed\<close>

lemma wf_sev_nth:
  assumes "wf_sev st" "passForwardEveryNth st c = (ok, st')"
  shows "wf_sev st'"
proof -
  obtain k where st': "st' = st\<lparr>v_nth_counter := k\<rparr>"
    using nth_frame [of st c] assms(2) by auto
  have "unat (v_nth_counter st') \<le> unat (c_forward_every_nth (v_config st))"
    using nth_counter [of st c] nth_pass [of st c] assms
    by (auto simp: wf_sev_def split: if_splits)
  then show ?thesis using assms(1) by (simp add: st' wf_sev_def)
qed

lemma merge_counts_nonzero: "a \<noteq> 0 \<Longrightarrow> merge_counts a b \<noteq> 0"
  using unat_merge_counts [of a b] unat_gt_0 [of a] by (auto simp: min_def split: if_splits)

lemma wf_sev_aggregation:
  assumes "wf_sev st" "wf_qsev q" "passAggregation st q t = (ok, st')"
  shows "wf_sev st'"
proof (cases "c_aggregation_interval_ms (v_config st) = 0")
  case True
  then show ?thesis using assms by (simp add: passAggregation_def)
next
  case False
  show ?thesis
  proof (cases "v_agg_pending st")
    case None
    with False assms show ?thesis by (auto simp: passAggregation_def wf_sev_def)
  next
    case (Some a)
    then have "wf_qsev (a\<lparr>o_count := merge_counts (o_count a) (o_count q)\<rparr>)"
      using assms(1) by (simp add: wf_sev_def wf_qsev_def merge_counts_nonzero)
    then show ?thesis
      using passAggregation_merge [OF False Some, of q t] assms False by (auto simp: wf_sev_def)
  qed
qed

lemma wf_sev_threshold: "wf_sev st \<Longrightarrow> wf_sev (snd (passThreshold st c t))"
  by (simp add: wf_sev_def passThreshold_def Let_def)

lemma wf_sev_close: "wf_sev st \<Longrightarrow> wf_sev (close_agg st)"
  by (simp add: wf_sev_def close_agg_def)

lemma wf_sev_expire: "wf_sev st \<Longrightarrow> wf_sev (expire_entry now st)"
  by (auto simp: expire_entry_def intro!: wf_sev_threshold wf_sev_close)
    (simp add: wf_sev_def)

lemma pending_simps [simp]:
  "v_pending_count (snd (passThreshold st c t)) = v_pending_count st"
  "v_pending_count (snd (passAggregation st q t)) = v_pending_count st"
  "v_pending_count (snd (passForwardEveryNth st c)) = v_pending_count st"
  "v_pending_count (close_agg st) = v_pending_count st"
  by (auto simp: passThreshold_def passAggregation_def passForwardEveryNth_def close_agg_def Let_def
      split: option.split)

lemma pending_expire [simp]: "v_pending_count (expire_entry now st) = v_pending_count st"
  by (simp add: expire_entry_def)

lemma wf_call_to_c: "wf_qsev q \<Longrightarrow> wf_call (to_c q)"
  by (auto simp: wf_qsev_def wf_call_def to_c_def unat_of_nat)

lemma wf_deliveries: "wf_qsev q \<Longrightarrow> list_all (\<lambda>(cb, q). wf_call q) (deliveries m st q)"
  by (auto simp: list_all_iff wf_call_to_c dest: deliveries_context)

subsection \<open>The operations keep the manager well formed\<close>

lemma wf_mgr_upd_stats [simp]: "wf_mgr (upd_stats f m) = wf_mgr m"
  by (simp add: wf_mgr_def)

lemma wf_mgr_sev: "wf_mgr m \<Longrightarrow> i < length (m_sevs m) \<Longrightarrow> wf_sev (m_sevs m ! i)"
  by (simp add: wf_mgr_def list_all_length)

lemma list_all_update: "list_all P xs \<Longrightarrow> P x \<Longrightarrow> list_all P (xs[i := x])"
  using set_update_subset_insert [of xs i x] by (auto simp: list_all_iff)

lemma wf_mgr_put:
  assumes "wf_mgr m" "wf_sev st" "i < length (m_sevs m)"
    "v_pending_count st = v_pending_count (m_sevs m ! i)"
  shows "wf_mgr (put_sev i st m)"
  using assms by (auto simp: wf_mgr_def list_all_update nth_list_update)

lemma wf_mgr_qualify: "wf_mgr m \<Longrightarrow> wf_qsev q \<Longrightarrow> wf_mgr (qualify st q m)"
  by (simp add: wf_mgr_def wf_deliveries)

lemma wf_build_qsev:
  "wf_mgr m \<Longrightarrow> wf_sev st \<Longrightarrow> wf_event e \<Longrightarrow> wf_qsev (build_qsev m st e k)"
  by (simp add: wf_mgr_def wf_sev_def wf_event_def wf_qsev_def build_qsev_def wf_config_def)

lemma wf_sev_marked: "wf_sev (m_sevs m ! i) \<Longrightarrow> wf_sev (marked m i)"
  by (simp add: wf_sev_def)

lemma wf_mgr_chain:
  assumes "run_chain i st q k m = Some m'" "wf_mgr m" "wf_sev st" "wf_qsev q"
    "i < length (m_sevs m)" "v_pending_count st = v_pending_count (m_sevs m ! i)"
  shows "wf_mgr m'"
proof -
  have 1: "wf_sev st1" "v_pending_count st1 = v_pending_count st"
    if "passForwardEveryNth st (o_count q) = (ok, st1)" for ok st1
    using that assms(3) wf_sev_nth pending_simps(3) [of st "o_count q"] by auto
  have 2: "wf_sev st2" "v_pending_count st2 = v_pending_count st1"
    if "passAggregation st1 q t = (ok, st2)" "wf_sev st1" for ok st1 st2 t
    using that assms(4) wf_sev_aggregation pending_simps(2) [of st1 q t] by auto
  have 3: "wf_sev st3" "v_pending_count st3 = v_pending_count st2"
    if "passThreshold st2 c t = (ok, st3)" "wf_sev st2" for ok st2 st3 c t
    using that wf_sev_threshold [of st2 c t] pending_simps(1) [of st2 c t] by auto
  show ?thesis
    using assms(1)
    by (cases rule: run_chain_cases)
      (use assms 1 2 3 in \<open>auto intro!: wf_mgr_put wf_mgr_qualify\<close>)
qed

lemma wf_mgr_process:
  assumes "processEvent e k m = Some m'" "wf_mgr m" "wf_event e"
  shows "wf_mgr m'"
  using assms(1)
proof (cases rule: processEvent_cases)
  case (bypass st q m1)
  have st: "wf_sev st" using bypass assms by (simp add: wf_sev_marked wf_mgr_sev)
  have m1: "wf_mgr m1" using bypass assms st by (simp add: wf_mgr_put)
  then show ?thesis using bypass assms st by (simp add: wf_mgr_qualify wf_build_qsev)
next
  case (chain st q m1)
  have st: "wf_sev st" using chain assms by (simp add: wf_sev_marked wf_mgr_sev)
  have m1: "wf_mgr m1" using chain assms st by (simp add: wf_mgr_put)
  show ?thesis
    using wf_mgr_chain [OF chain(7) m1 st] wf_build_qsev [OF m1 st assms(3)] chain by simp
qed (use assms in auto)

lemma wf_expire_calls:
  "wf_sev st \<Longrightarrow> list_all (\<lambda>(cb, q). wf_call q) (expire_calls now m st)"
  by (auto simp: expire_calls_def agg_due_def wf_sev_def wf_deliveries)

lemma wf_mgr_expire: "wf_mgr m \<Longrightarrow> wf_mgr (snd (expireWindows now m))"
  by (auto simp: wf_mgr_def expireWindows_sevs list_all_iff wf_sev_expire
      dest: wf_expire_calls [unfolded list_all_iff, rule_format])

lemma drain_pending_length [simp]: "length (drain_pending e sevs) = length sevs"
  by (simp add: drain_pending_def Let_def)

lemma drain_fold_length [simp]: "length (fold drain_pending q sevs) = length sevs"
  by (induction q arbitrary: sevs) simp_all

lemma drain_wf: "list_all wf_sev sevs \<Longrightarrow> list_all wf_sev (fold drain_pending q sevs)"
proof (induction q arbitrary: sevs)
  case (Cons e q)
  have "list_all wf_sev (drain_pending e sevs)"
    using Cons.prems
    by (auto simp: drain_pending_def Let_def intro!: list_all_update) (simp add: wf_sev_def list_all_length)
  then show ?case using Cons.IH by simp
qed simp

lemma queued_Cons: "queued (e # q) i = (if unat (s_event_id e) = i then 1 else 0) + queued q i"
  by (simp add: queued_def)

lemma drain_pending_counts:
  assumes "\<forall>i < length sevs. v_pending_count (sevs ! i) = 0 \<or>
     v_pending_count (sevs ! i) = of_nat (queued q i)"
  shows "\<forall>i < length sevs. v_pending_count (fold drain_pending q sevs ! i) = 0"
  using assms
proof (induction q arbitrary: sevs)
  case (Cons e q)
  have "\<forall>i < length sevs. v_pending_count (drain_pending e sevs ! i) = 0 \<or>
     v_pending_count (drain_pending e sevs ! i) = of_nat (queued q i)"
  proof (intro allI impI)
    fix i assume i: "i < length sevs"
    have prem: "v_pending_count (sevs ! i) = 0 \<or>
        v_pending_count (sevs ! i) = of_nat (queued (e # q) i)" using Cons.prems i by blast
    show "v_pending_count (drain_pending e sevs ! i) = 0 \<or>
        v_pending_count (drain_pending e sevs ! i) = of_nat (queued q i)"
      using prem i
      by (cases "unat (s_event_id e) = i")
        (auto simp: drain_pending_def Let_def queued_Cons word_gt_0)
  qed
  then show ?case using Cons.IH [of "drain_pending e sevs"] by simp
qed (simp add: queued_def)

lemma wf_mgr_drain:
  assumes "wf_mgr m" "drain_queue m = (batch, m')"
  shows "wf_mgr m' \<and> list_all wf_event batch \<and> m_incoming_queue m' = []"
proof -
  have "\<forall>i < length (m_sevs m). v_pending_count (fold drain_pending (m_incoming_queue m) (m_sevs m) ! i) = 0"
    using assms(1) by (intro drain_pending_counts) (simp add: wf_mgr_def)
  then show ?thesis
    using assms by (auto simp: drain_queue_def wf_mgr_def drain_wf queued_def)
qed

lemma queued_snoc: "queued (q @ [e]) i = queued q i + (if unat (s_event_id e) = i then 1 else 0)"
  by (simp add: queued_def)

lemma wf_mgr_report: "wf_mgr m \<Longrightarrow> wf_mgr (report_locked i ctx sz ver cnt ts m)"
proof (cases "length (m_sevs m) \<le> unat i")
  case False
  assume m: "wf_mgr m"
  let ?st = "(m_sevs m ! unat i)\<lparr>v_pending_count := v_pending_count (m_sevs m ! unat i) + 1\<rparr>"
  have st: "wf_sev ?st" using m False wf_mgr_sev [of m "unat i"] by (simp add: wf_sev_def)
  have sz: "min (length p) (unat sz) < 65536" for p :: bytes
    using unat_u16_bound [of sz] by linarith
  show ?thesis
    using m False st
    by (auto simp: report_locked_def Let_def wf_mgr_def list_all_update nth_list_update queued_snoc
        wf_event_def sz split: option.split)
qed (simp add: report_locked_def)

lemma wf_mgr_put_frame:
  assumes "wf_mgr m" "i < length (m_sevs m)" "\<And>st. wf_sev st \<Longrightarrow> wf_sev (f st)"
    "\<And>st. v_pending_count (f st) = v_pending_count st"
  shows "wf_mgr (put_sev i (f (m_sevs m ! i)) m)"
  using assms wf_mgr_sev by (intro wf_mgr_put) auto

lemma wf_mgr_flush: "wf_mgr m \<Longrightarrow> wf_mgr (snd (FlushEvents i now m))"
proof -
  assume m: "wf_mgr m"
  have "wf_mgr (release_agg (unat i) (m_sevs m ! unat i) q now m)"
    if "unat i < length (m_sevs m)" "v_agg_pending (m_sevs m ! unat i) = Some q" for q
  proof -
    have st: "wf_sev (m_sevs m ! unat i)" using m that wf_mgr_sev by simp
    then have q: "wf_qsev q" using that by (simp add: wf_sev_def)
    have "wf_mgr (put_sev (unat i) (snd (passThreshold (close_agg (m_sevs m ! unat i)) (o_count q) now)) m)"
      using m that st by (intro wf_mgr_put wf_sev_threshold wf_sev_close) simp_all
    then show ?thesis
      using q by (auto simp: release_agg_def close_agg_def Let_def split_def intro: wf_mgr_qualify)
  qed
  then show ?thesis using m by (auto simp: FlushEvents_def Let_def split: option.split)
qed

lemma wf_mgr_init:
  assumes "Init cfg m = Some (r, m')" "wf_mgr m"
  shows "wf_mgr m' \<and> (r = E_OK \<longrightarrow> m_thread_joinable m')"
proof (cases "r = E_OK")
  case True
  then obtain g arr where g: "cfg = Some g" "unat (g_idsm_instance_id g) \<le> 1023"
      "list_all (sev_config_valid (g_main_function_period_ms g)) (take (unat (g_sev_count g)) arr)"
      "\<not> m_thread_joinable m" "m_sevs m' = map init_sev (take (unat (g_sev_count g)) arr)"
      "m_incoming_queue m' = m_incoming_queue m" "m_idsm_instance_id m' = g_idsm_instance_id g"
      "m_calls m' = m_calls m" "m_thread_joinable m'"
    using assms(1)
    by (auto simp: Init_def Let_def INSTANCE_ID_MAX_def word_less_nat_alt not_less split: option.splits if_splits)
  have "list_all wf_sev (map init_sev (take (unat (g_sev_count g)) arr))"
    using g(3) by (auto simp: list_all_iff sev_config_valid_iff wf_sev_def wf_config_def init_sev_def)
  moreover have "v_pending_count (init_sev c) = 0" for c by (simp add: init_sev_def)
  ultimately show ?thesis
    using g assms(2) by (simp add: wf_mgr_def queued_def)
next
  case False
  then have "m' = m"
    using assms(1) by (auto simp: Init_def Let_def split: option.splits if_splits)
  then show ?thesis using assms(2) False by simp
qed

subsection \<open>The invariant of the reachable states\<close>

definition sys_inv :: "sys \<Rightarrow> bool" where
  "sys_inv s \<longleftrightarrow> wf_mgr (y_mgr s) \<and>
     (case y_pc s of Processing es \<Rightarrow> list_all wf_event es | _ \<Rightarrow> True) \<and>
     (y_pc s \<noteq> Stopped \<longrightarrow> m_thread_joinable (y_mgr s))"

lemma joinable_frames [simp]:
  "m_thread_joinable (report_locked i ctx sz ver cnt ts m) = m_thread_joinable m"
  "m_thread_joinable (snd (FlushEvents i now m)) = m_thread_joinable m"
  "m_thread_joinable (snd (SetReportingMode i mode m)) = m_thread_joinable m"
  "m_thread_joinable (snd (ResetDetectionStatus i m)) = m_thread_joinable m"
  by (simp_all add: report_locked_def FlushEvents_def SetReportingMode_def ResetDetectionStatus_def
      Let_def split: option.split)

lemma joinable_chain: "run_chain i st q k m = Some m' \<Longrightarrow> m_thread_joinable m' = m_thread_joinable m"
  by (cases rule: run_chain_cases) auto

lemma joinable_process: "processEvent e k m = Some m' \<Longrightarrow> m_thread_joinable m' = m_thread_joinable m"
  by (cases rule: processEvent_cases) (auto dest: joinable_chain)

lemma joinable_init: "Init cfg m = Some (r, m') \<Longrightarrow> r \<noteq> E_OK \<Longrightarrow> m' = m"
  by (auto simp: Init_def Let_def split: option.splits if_splits)

lemma wf_mgr_set_mode: "wf_mgr m \<Longrightarrow> wf_mgr (snd (SetReportingMode i mode m))"
proof (cases "unat i < length (m_sevs m) \<and> \<not> mode > REPORTING_DETAILED_BYPASSING_FILTERS")
  case True
  assume m: "wf_mgr m"
  have "wf_mgr (put_sev (unat i) ((m_sevs m ! unat i)\<lparr>v_reporting_mode := mode\<rparr>) m)"
    using True m by (intro wf_mgr_put_frame) (auto simp: wf_sev_def less_reporting_mode_def)
  then show ?thesis using True by (simp add: SetReportingMode_def Let_def)
qed (auto simp: SetReportingMode_def Let_def)

lemma wf_mgr_reset_status: "wf_mgr m \<Longrightarrow> wf_mgr (snd (ResetDetectionStatus i m))"
proof (cases "unat i < length (m_sevs m)")
  case True
  assume m: "wf_mgr m"
  have "wf_mgr (put_sev (unat i) ((m_sevs m ! unat i)\<lparr>v_detection_status := STATUS_OK\<rparr>) m)"
    using True m by (intro wf_mgr_put_frame) (auto simp: wf_sev_def)
  then show ?thesis using True by (simp add: ResetDetectionStatus_def Let_def)
qed (auto simp: ResetDetectionStatus_def Let_def)

lemma step_inv: "step s s' \<Longrightarrow> sys_inv s \<Longrightarrow> sys_inv s'"
proof (induction rule: step.induct)
  case (init cfg m r m' pc)
  then show ?case
    using wf_mgr_init [OF init(1)] joinable_init [OF init(1)]
    by (auto simp: sys_inv_def split: worker_pc.splits)
next
  case (w_direct m batch m')
  then show ?case
    using wf_mgr_drain [of m batch m'] by (auto simp: sys_inv_def drain_queue_def)
next
  case (w_wake m batch m')
  then show ?case
    using wf_mgr_drain [of m batch m'] by (auto simp: sys_inv_def drain_queue_def)
next
  case (w_process e k m m' es)
  then show ?case
    using wf_mgr_process [of e k m m'] joinable_process [of e k m m'] by (simp add: sys_inv_def)
next
  case (clear m)
  then show ?case by (simp add: sys_inv_def wf_mgr_def DeInit_clear_def)
qed (simp_all add: sys_inv_def wf_mgr_report wf_mgr_set_mode wf_mgr_reset_status wf_mgr_flush
    wf_mgr_expire, simp_all add: wf_mgr_def DeInit_stop_def BswM_StateChanged_def
    SetDemReportCallback_def RegisterIdsrSink_def SetNvmStoreCallback_def ResetStats_def)

lemma reachable_inv: "reachable s \<Longrightarrow> sys_inv s"
proof (induction rule: reachable.induct)
  case start
  then show ?case by (simp add: sys_inv_def sys_start_def wf_mgr_def manager_start_def)
qed (rule step_inv)

subsection \<open>Properties of the running system\<close>

text \<open>A short run: \<open>Init\<close>, a sink is registered, one event is reported and processed.\<close>

definition demo_ready :: manager where
  "demo_ready = SetDemReportCallback (Some 1) (snd (the (Init (Some sample_idsm_config) manager_start)))"

definition demo_queued :: manager where
  "demo_queued = report_locked 0 (Some [0xAB, 0xCD]) 2 1 0 None demo_ready"

definition demo_event :: owned_sev where
  "demo_event = hd (m_incoming_queue demo_queued)"

definition demo_done :: manager where
  "demo_done = the (processEvent demo_event sample_clock (snd (drain_queue demo_queued)))"

lemma demo_init: "Init (Some sample_idsm_config) manager_start =
   Some (E_OK, snd (the (Init (Some sample_idsm_config) manager_start)))"
  by (simp add: Init_def sample_idsm_config_def sample_config_def manager_start_def sev_config_valid_def
      idsm_defs less_reporting_mode_def)

lemma demo_ready_sel:
  "m_sevs demo_ready = [init_sev sample_config]" "m_incoming_queue demo_ready = []"
  "m_worker_running demo_ready" "m_dem_cb demo_ready = Some 1" "m_idsr_cb demo_ready = None"
  "m_calls demo_ready = []" "m_idsm_instance_id demo_ready = 7"
  by (simp_all add: demo_ready_def SetDemReportCallback_def Init_def sample_idsm_config_def
      sample_config_def manager_start_def sev_config_valid_def idsm_defs less_reporting_mode_def)

lemma demo_queued_sel:
  "m_sevs demo_queued = [(init_sev sample_config)\<lparr>v_pending_count := 1\<rparr>]"
  "m_incoming_queue demo_queued = [demo_event]" "s_event_id demo_event = 0"
  "m_worker_running demo_queued" "m_dem_cb demo_queued = Some 1" "m_idsr_cb demo_queued = None"
  "m_calls demo_queued = []"
  by (simp_all add: demo_event_def demo_queued_def report_locked_def demo_ready_sel Let_def)
    (simp add: init_sev_def)

lemma reachable_queued: "reachable \<lparr>y_mgr = demo_queued, y_pc = LoopTop\<rparr>"
proof -
  have "reachable \<lparr>y_mgr = snd (the (Init (Some sample_idsm_config) manager_start)), y_pc = LoopTop\<rparr>"
    using next_step [OF reachable.start [unfolded sys_start_def] step.init [OF demo_init]] by simp
  from next_step [OF this step.set_dem] have "reachable \<lparr>y_mgr = demo_ready, y_pc = LoopTop\<rparr>"
    unfolding demo_ready_def .
  from next_step [OF this step.report] show ?thesis unfolding demo_queued_def .
qed

lemma demo_process:
  "processEvent demo_event sample_clock (snd (drain_queue demo_queued)) = Some demo_done"
  "length (m_calls demo_done) = 1"
  by (simp_all add: demo_done_def processEvent_def drain_queue_def demo_queued_sel Let_def run_chain_def
      init_sev_def sample_config_def is_bypassing_def isBlockedByState_def passForwardEveryNth_def
      passAggregation_def passThreshold_def deliveries_def drain_pending_def)

lemma reachable_drained: "reachable \<lparr>y_mgr = snd (drain_queue demo_queued), y_pc = Processing [demo_event]\<rparr>"
proof -
  have "drain_queue demo_queued = ([demo_event], snd (drain_queue demo_queued))"
    by (simp add: drain_queue_def demo_queued_sel)
  from next_step [OF next_step [OF reachable_queued step.w_enter] step.w_direct [OF _ this]]
  show ?thesis by (simp add: demo_queued_sel)
qed

lemma reachable_done: "reachable \<lparr>y_mgr = demo_done, y_pc = Processing []\<rparr>"
  using next_step [OF reachable_drained step.w_process] demo_process(1) by simp

text \<open>
  C2: whatever operations run on the interface and however the worker is scheduled, every event
  that a sink ever received carries a count of at least one, an instance identifier of 10 bits, a
  sensor identifier of 6 bits, a valid external identifier and a timestamp, and a context pointer
  that is either null with size 0 or leads to exactly as many bytes as its size says.
\<close>

theorem delivered_wellformed:
  assumes "reachable s"
  shows "\<forall>(cb, q) \<in> set (m_calls (y_mgr s)). wf_call q"
  using reachable_inv [OF assms] by (auto simp: sys_inv_def wf_mgr_def list_all_iff)

lemma delivered_wellformed_witness:
  "length (m_calls demo_done) = 1 \<and> wf_call (snd (hd (m_calls demo_done)))"
  using delivered_wellformed [OF reachable_done] demo_process(2) by (cases "m_calls demo_done") auto

text \<open>The events that were reported and that the worker has not processed: those in the queue and those it has taken out.\<close>

definition unprocessed :: "sys \<Rightarrow> owned_sev list" where
  "unprocessed s = m_incoming_queue (y_mgr s) @ (case y_pc s of Processing es \<Rightarrow> es | _ \<Rightarrow> [])"

text \<open>
  C5: in every reachable state the pending count that \<open>GetPendingEventCount\<close> reports for a configured SEv is the number
  of its events that the worker has not taken out of the ingress queue (in 32 bits); it is 0 for every other SEv. The documentation promises the events that are not yet processed; the worker
  counts an event down when it takes it out of the queue, so the events of the batch that it is processing are missing,
  as \<open>pending_misses_batch\<close> shows.
\<close>

theorem pending_count_exact:
  assumes "reachable s"
  shows "GetPendingEventCount i (y_mgr s) =
      (if unat i < length (m_sevs (y_mgr s))
       then of_nat (length (filter (\<lambda>e. s_event_id e = i) (m_incoming_queue (y_mgr s)))) else 0)"
  using reachable_inv [OF assms]
  by (simp add: sys_inv_def wf_mgr_def GetPendingEventCount_def queued_def word_unat_eq_iff)

lemma pending_count_exact_witness: "GetPendingEventCount 0 demo_queued = 1"
  using pending_count_exact [OF reachable_queued, of 0] by (simp add: demo_queued_sel)

lemma pending_misses_batch:
  "\<exists>s. reachable s \<and> length (filter (\<lambda>e. s_event_id e = 0) (unprocessed s)) = 1 \<and> GetPendingEventCount 0 (y_mgr s) = 0"
proof (intro exI conjI)
  show "reachable \<lparr>y_mgr = snd (drain_queue demo_queued), y_pc = Processing [demo_event]\<rparr>" by (rule reachable_drained)
qed (simp_all add: unprocessed_def drain_queue_def demo_queued_sel GetPendingEventCount_def drain_pending_def Let_def)

text \<open>
  C8: in every reachable state each configured SEv has a valid reporting mode and a sampling
  counter of at most n, and holds a staged aggregate only when its aggregation filter is configured;
  the staged aggregate has a count of at least one.
\<close>

theorem sev_state_invariant:
  assumes "reachable s" and "st \<in> set (m_sevs (y_mgr s))"
  shows "v_reporting_mode st \<le> REPORTING_DETAILED_BYPASSING_FILTERS \<and>
     v_nth_counter st \<le> c_forward_every_nth (v_config st) \<and>
     (\<forall>q. v_agg_pending st = Some q \<longrightarrow>
        c_aggregation_interval_ms (v_config st) \<noteq> 0 \<and> o_count q \<ge> 1)"
proof -
  have st: "wf_sev st"
    using reachable_inv [OF assms(1)] assms(2) by (simp add: sys_inv_def wf_mgr_def list_all_iff)
  have "c \<noteq> 0 \<Longrightarrow> c \<ge> 1" for c :: u16
    by (simp add: word_le_nat_alt unat_gt_0 Suc_le_eq)
  then show ?thesis
    using st by (auto simp: wf_sev_def wf_qsev_def less_eq_reporting_mode_def word_le_nat_alt)
qed

lemma sev_state_invariant_witness:
  "v_nth_counter (m_sevs demo_queued ! 0) \<le> c_forward_every_nth (v_config (m_sevs demo_queued ! 0))"
  using sev_state_invariant [OF reachable_queued, of "m_sevs demo_queued ! 0"] demo_queued_sel(1) by simp

end
