(* ===== verification/Idsrm_Manager.thy ===== *)
theory Idsrm_Manager
  imports Idsm_Protocol
begin

text \<open>
  The class \<open>IdsRm_Manager\<close> of \<open>src/IdsRm_Manager.cpp\<close>: it takes qualified events from the IdsM as
  its IdsR sink, queues them, posts them as JSON over HTTP with retries, and forwards them to a
  local socket. The HTTP library is a parameter: \<open>perform\<close> says for the n-th attempt and its
  request whether the transfer succeeded and which status came back. The socket is a parameter in
  the same way. \<open>None\<close> is an access out of bounds, or \<open>std::terminate\<close>.
\<close>

subsection \<open>State\<close>

definition E_IDSRM_NOT_INIT :: u8 where [idsm_defs]: "E_IDSRM_NOT_INIT = 0x11"
definition MAX_URL_LEN :: nat where [idsm_defs]: "MAX_URL_LEN = 256"
definition MAX_TOKEN_LEN :: nat where [idsm_defs]: "MAX_TOKEN_LEN = 512"
definition MAX_RETRY_COUNT :: u8 where [idsm_defs]: "MAX_RETRY_COUNT = 10"
definition DEFAULT_QUEUE_DEPTH :: nat where [idsm_defs]: "DEFAULT_QUEUE_DEPTH = 128"

record rm_config =
  rc_soc_url :: string
  rc_auth_token :: string
  rc_timeout_ms :: u32
  rc_retry_count :: u8
  rc_enabled :: bool

record rm_stats =
  events_received :: u32
  events_dropped :: u32
  events_posted :: u32
  events_failed :: u32
  http_retries :: u32

definition rm_stats_zero :: rm_stats where
  "rm_stats_zero = \<lparr> events_received = 0, events_dropped = 0, events_posted = 0,
     events_failed = 0, http_retries = 0 \<rparr>"

text \<open>\<open>r_registered\<close> is the registration of the sink callback with the IdsM.\<close>

record idsrm =
  r_worker_running :: bool
  r_worker_joinable :: bool
  r_event_queue :: "owned_qsev list"
  r_initialized :: bool
  r_enabled :: bool
  r_registered :: bool
  r_soc_url :: string
  r_auth_token :: string
  r_timeout_ms :: u32
  r_retry_count :: u8
  r_stats :: rm_stats
  r_curl_handle :: bool
  r_sink_joinable :: bool
  r_sink_running :: bool
  r_sink_queue :: "owned_qsev list"
  r_sink_path :: string
  r_sink_connected :: bool

definition idsrm_start :: idsrm where
  "idsrm_start = \<lparr> r_worker_running = False, r_worker_joinable = False, r_event_queue = [],
     r_initialized = False, r_enabled = False, r_registered = False, r_soc_url = [],
     r_auth_token = [], r_timeout_ms = 5000, r_retry_count = 3, r_stats = rm_stats_zero,
     r_curl_handle = False, r_sink_joinable = False, r_sink_running = False, r_sink_queue = [],
     r_sink_path = [], r_sink_connected = False \<rparr>"

definition upd_rm_stats :: "(rm_stats \<Rightarrow> rm_stats) \<Rightarrow> idsrm \<Rightarrow> idsrm" where
  "upd_rm_stats f r = r\<lparr>r_stats := f (r_stats r)\<rparr>"

text \<open>\<open>std::string(p, strnlen(p, n))\<close> for a C string, given as its characters.\<close>

definition c_string :: "string \<Rightarrow> nat \<Rightarrow> string" where
  "c_string p n = takeWhile (\<lambda>c. c \<noteq> CHR 0x00) (take n p)"

subsection \<open>Lifecycle and configuration\<close>

definition rm_Init :: "rm_config \<Rightarrow> idsrm \<Rightarrow> u8 \<times> idsrm" where
  "rm_Init cfg r =
     (if r_initialized r then (E_NOT_OK, r)
      else (E_OK, r\<lparr>
        r_soc_url := c_string (rc_soc_url cfg) (MAX_URL_LEN - 1),
        r_auth_token := c_string (rc_auth_token cfg) (MAX_TOKEN_LEN - 1),
        r_timeout_ms := rc_timeout_ms cfg,
        r_retry_count := (if rc_retry_count cfg \<le> MAX_RETRY_COUNT then rc_retry_count cfg
                          else MAX_RETRY_COUNT),
        r_stats := rm_stats_zero,
        r_enabled := rc_enabled cfg,
        r_registered := True,
        r_worker_running := True,
        r_worker_joinable := True,
        r_sink_running := (if r_sink_path r \<noteq> [] then True else r_sink_running r),
        r_sink_joinable := (if r_sink_path r \<noteq> [] then True else r_sink_joinable r),
        r_initialized := True\<rparr>))"

text \<open>\<open>DeInit\<close> unregisters, stops and joins the worker, and then the sink thread.\<close>

definition rm_DeInit_stop_worker :: "idsrm \<Rightarrow> u8 \<times> idsrm" where
  "rm_DeInit_stop_worker r =
     (if \<not> r_initialized r then (E_IDSRM_NOT_INIT, r)
      else (E_OK, r\<lparr>r_registered := False, r_worker_running := False\<rparr>))"

definition rm_DeInit_stop_sink :: "idsrm \<Rightarrow> idsrm" where
  "rm_DeInit_stop_sink r = r\<lparr>r_worker_joinable := False, r_sink_running := False\<rparr>"

definition rm_DeInit_finish :: "idsrm \<Rightarrow> idsrm" where
  "rm_DeInit_finish r =
     r\<lparr>r_sink_joinable := False, r_sink_connected := False, r_initialized := False, r_enabled := False\<rparr>"

definition rm_Enable :: "idsrm \<Rightarrow> u8 \<times> idsrm" where
  "rm_Enable r = (if \<not> r_initialized r then (E_IDSRM_NOT_INIT, r) else (E_OK, r\<lparr>r_enabled := True\<rparr>))"

definition rm_Disable :: "idsrm \<Rightarrow> u8 \<times> idsrm" where
  "rm_Disable r = (if \<not> r_initialized r then (E_IDSRM_NOT_INIT, r) else (E_OK, r\<lparr>r_enabled := False\<rparr>))"

definition rm_IsEnabled :: "idsrm \<Rightarrow> bool" where
  "rm_IsEnabled r \<longleftrightarrow> r_initialized r \<and> r_enabled r"

definition rm_SetSocUrl :: "string \<Rightarrow> idsrm \<Rightarrow> u8 \<times> idsrm" where
  "rm_SetSocUrl url r = (if \<not> r_initialized r then (E_IDSRM_NOT_INIT, r)
     else (E_OK, r\<lparr>r_soc_url := c_string url (MAX_URL_LEN - 1)\<rparr>))"

definition rm_SetAuthToken :: "string \<Rightarrow> idsrm \<Rightarrow> u8 \<times> idsrm" where
  "rm_SetAuthToken token r = (if \<not> r_initialized r then (E_IDSRM_NOT_INIT, r)
     else (E_OK, r\<lparr>r_auth_token := c_string token (MAX_TOKEN_LEN - 1)\<rparr>))"

text \<open>
  A sink thread that was told to stop stays joinable until \<open>DeInit\<close>; starting another one then
  assigns over a joinable thread.
\<close>

definition rm_SetLocalSink :: "string option \<Rightarrow> idsrm \<Rightarrow> (u8 \<times> idsrm) option" where
  "rm_SetLocalSink path r0 = (let
     p = (case path of None \<Rightarrow> [] | Some s \<Rightarrow> c_string s 107);
     r = r0\<lparr>r_sink_path := p\<rparr> in
     if \<not> r_initialized r then Some (E_OK, r)
     else if p \<noteq> [] \<and> \<not> r_sink_running r
     then (if r_sink_joinable r then None
           else Some (E_OK, r\<lparr>r_sink_running := True, r_sink_joinable := True\<rparr>))
     else if p = [] \<and> r_sink_running r then Some (E_OK, r\<lparr>r_sink_running := False\<rparr>)
     else Some (E_OK, r))"

definition rm_GetStats :: "idsrm \<Rightarrow> rm_stats" where
  "rm_GetStats r = r_stats r"

definition rm_ResetStats :: "idsrm \<Rightarrow> idsrm" where
  "rm_ResetStats r = r\<lparr>r_stats := rm_stats_zero\<rparr>"

subsection \<open>Taking events from the IdsM\<close>

text \<open>The deep copy: the context bytes are read through the pointer of the C structure.\<close>

definition from_c :: "qsev_c \<Rightarrow> owned_qsev option" where
  "from_c q = do {
     ctx \<leftarrow> (case q_context_data q of
        Some p \<Rightarrow> if q_context_data_size q > 0 then view p 0 (unat (q_context_data_size q)) else Some []
      | None \<Rightarrow> Some []);
     Some \<lparr> o_idsm_instance_id = q_idsm_instance_id q,
       o_external_event_id = q_external_event_id q,
       o_sensor_instance_id = q_sensor_instance_id q,
       o_severity = q_severity q, o_count = q_count q,
       o_has_timestamp = q_has_timestamp q, o_timestamp = q_timestamp q,
       o_context_data_version = q_context_data_version q, o_context_data = ctx \<rparr> }"

definition drop_event :: "idsrm \<Rightarrow> idsrm" where
  "drop_event r = upd_rm_stats (\<lambda>s. s\<lparr>events_dropped := events_dropped s + 1\<rparr>) r"

text \<open>The tee to the local sink.\<close>

definition tee_sink :: "owned_qsev \<Rightarrow> idsrm \<Rightarrow> idsrm" where
  "tee_sink owned r =
     (if r_sink_running r
      then if length (r_sink_queue r) < 512 then r\<lparr>r_sink_queue := r_sink_queue r @ [owned]\<rparr>
           else drop_event r
      else r)"

definition on_owned :: "owned_qsev \<Rightarrow> idsrm \<Rightarrow> idsrm" where
  "on_owned owned r =
     (if length (r_event_queue r) \<ge> DEFAULT_QUEUE_DEPTH then drop_event r
      else let r = r\<lparr>r_event_queue := r_event_queue r @ [owned]\<rparr>; r = tee_sink owned r
           in upd_rm_stats (\<lambda>s. s\<lparr>events_received := events_received s + 1\<rparr>) r)"

definition OnQsev :: "qsev_c \<Rightarrow> idsrm \<Rightarrow> idsrm option" where
  "OnQsev q r =
     (if \<not> r_enabled r then Some (drop_event r)
      else do { owned \<leftarrow> from_c q; Some (on_owned owned r) })"

subsection \<open>The JSON text\<close>

fun severityToString :: "severity \<Rightarrow> string" where
  "severityToString SEVERITY_LOW = ''LOW''"
| "severityToString SEVERITY_MEDIUM = ''MEDIUM''"
| "severityToString SEVERITY_HIGH = ''HIGH''"
| "severityToString SEVERITY_CRITICAL = ''CRITICAL''"

text \<open>\<open>snprintf\<close> into a buffer of \<open>n\<close> characters keeps at most \<open>n - 1\<close> of them.\<close>

definition snprintf :: "nat \<Rightarrow> string \<Rightarrow> string" where
  "snprintf n s = take (n - 1) s"

definition json_bool :: "bool \<Rightarrow> string" where
  "json_bool b = (if b then ''true'' else ''false'')"

definition header_fields :: "owned_qsev \<Rightarrow> string" where
  "header_fields q =
     ''\",\"protocol_version\":'' @ dec (unat PROTOCOL_VERSION) @
     '',\"has_context_data\":'' @ json_bool (o_context_data q \<noteq> []) @
     '',\"has_timestamp\":'' @ json_bool (o_has_timestamp q) @
     '',\"idsm_instance_id\":'' @ dec (unat (o_idsm_instance_id q)) @
     '',\"sensor_instance_id\":'' @ dec (unat (o_sensor_instance_id q)) @
     '',\"event_id\":'' @ dec (unat (o_external_event_id q)) @
     '',\"count\":'' @ dec (unat (o_count q)) @
     '',\"severity\":\"'' @ severityToString (o_severity q) @
     ''\",\"timestamp_s\":'' @ dec (unat (ts_seconds (o_timestamp q))) @
     '',\"timestamp_ns\":'' @ dec (unat (ts_nanoseconds (o_timestamp q))) @
     '',\"context_data_version\":'' @ dec (unat (o_context_data_version q)) @
     '',\"payload\":\"''"

definition header_text :: "string \<Rightarrow> owned_qsev \<Rightarrow> string" where
  "header_text msg_hex q = ''{\"ids_message\":\"'' @ msg_hex @ header_fields q"

definition trailer_text :: "owned_qsev \<Rightarrow> string" where
  "trailer_text q = ''\",\"payload_len\":'' @ dec (length (o_context_data q)) @ ''}''"

text \<open>The message bytes: a vector of the required size, filled by the serialiser.\<close>

definition message_bytes :: "owned_qsev \<Rightarrow> bytes option" where
  "message_bytes q = (let c = to_c q; n = GetMessageSize (Some c); msg = replicate (unat n) 0 in
     if msg = [] then Some []
     else do { (len, msg) \<leftarrow> SerializeQSEv (Some c) (Some msg) n;
               Some (take (unat len) (case msg of Some m \<Rightarrow> m | None \<Rightarrow> [])) })"

definition buildJsonPayload :: "owned_qsev \<Rightarrow> string option" where
  "buildJsonPayload q = do {
     msg \<leftarrow> message_bytes q;
     Some (snprintf 512 (header_text (to_hex msg) q) @ to_hex (o_context_data q) @
           snprintf 64 (trailer_text q)) }"

subsection \<open>Posting\<close>

record http_request =
  h_url :: string
  h_headers :: "string list"
  h_body :: string
  h_timeout_ms :: u32

type_synonym http_result = "bool \<times> int"

definition request_headers :: "string \<Rightarrow> string list" where
  "request_headers token = [''Content-Type: application/json'', ''Accept: application/json''] @
     (if token \<noteq> [] then [''Authorization: Bearer '' @ token] else [])"

definition postQsev :: "(http_request \<Rightarrow> http_result) \<Rightarrow> owned_qsev \<Rightarrow> idsrm \<Rightarrow> bool option" where
  "postQsev perform q r =
     (if \<not> r_curl_handle r then Some False
      else do {
        body \<leftarrow> buildJsonPayload q;
        let (ok, http_code) = perform \<lparr> h_url = r_soc_url r, h_headers = request_headers (r_auth_token r),
                                        h_body = body, h_timeout_ms = r_timeout_ms r \<rparr>;
        Some (ok \<and> http_code \<ge> 200 \<and> http_code < 300) })"

text \<open>
  The retry loop: \<open>post n\<close> is the outcome of the n-th attempt, \<open>attempt\<close> the 8-bit loop counter,
  and \<open>sleeps\<close> collects the back-off times in milliseconds.
\<close>

partial_function (option) retry_loop ::
  "(nat \<Rightarrow> bool) \<Rightarrow> u8 \<Rightarrow> u8 \<Rightarrow> rm_stats \<Rightarrow> u32 list \<Rightarrow> (bool \<times> rm_stats \<times> u32 list) option" where
  "retry_loop post max_retries attempt s sleeps =
     (if attempt \<le> max_retries
      then if post (unat attempt)
        then Some (True, s\<lparr>events_posted := events_posted s + 1\<rparr>, sleeps)
        else retry_loop post max_retries (attempt + 1) (s\<lparr>http_retries := http_retries s + 1\<rparr>)
               (if attempt < max_retries then sleeps @ [push_bit (unat attempt) 100] else sleeps)
      else Some (False, s\<lparr>events_failed := events_failed s + 1\<rparr>, sleeps))"

definition postWithRetry :: "(nat \<Rightarrow> bool) \<Rightarrow> idsrm \<Rightarrow> (bool \<times> idsrm \<times> u32 list) option" where
  "postWithRetry post r = do {
     (ok, s, sleeps) \<leftarrow> retry_loop post (r_retry_count r) 0 (r_stats r) [];
     Some (ok, r\<lparr>r_stats := s\<rparr>, sleeps) }"

subsection \<open>The worker and the sink thread\<close>

definition rm_take_batch :: "idsrm \<Rightarrow> owned_qsev list \<times> idsrm" where
  "rm_take_batch r = (r_event_queue r, r\<lparr>r_event_queue := []\<rparr>)"

text \<open>One event of a batch; after the shutdown drain the URL is not looked at any more.\<close>

definition rm_handle :: "(nat \<Rightarrow> bool) \<Rightarrow> idsrm \<Rightarrow> idsrm option" where
  "rm_handle post r =
     (if r_soc_url r = []
      then Some (if r_sink_running r
        then upd_rm_stats (\<lambda>s. s\<lparr>events_posted := events_posted s + 1\<rparr>) r
        else upd_rm_stats (\<lambda>s. s\<lparr>events_failed := events_failed s + 1\<rparr>) r)
      else do { (ok, r, sleeps) \<leftarrow> postWithRetry post r; Some r })"

definition rm_handle_remaining :: "(nat \<Rightarrow> bool) \<Rightarrow> idsrm \<Rightarrow> idsrm option" where
  "rm_handle_remaining post r = do { (ok, r, sleeps) \<leftarrow> postWithRetry post r; Some r }"

text \<open>
  The write loop of the sink: \<open>w\<close> gives the results of the successive \<open>write\<close> calls, a positive
  number of bytes, \<open>None\<close> for EINTR, and 0 for any other failure. The result is whether the
  whole line was written; a list of results that is too short is \<open>None\<close>.
\<close>

fun write_all :: "nat \<Rightarrow> nat \<Rightarrow> nat option list \<Rightarrow> bool option" where
  "write_all off len ws =
     (if off < len
      then case ws of
             [] \<Rightarrow> None
           | None # ws \<Rightarrow> write_all off len ws
           | Some n # ws \<Rightarrow> if n > 0 then write_all (off + n) len ws else Some False
      else Some True)"

declare write_all.simps [simp del]

text \<open>One iteration of the sink thread; \<open>connect\<close> is the outcome of \<open>sink_connect\<close>.\<close>

definition sink_step :: "bool \<Rightarrow> nat option list \<Rightarrow> idsrm \<Rightarrow> idsrm option" where
  "sink_step connect ws r = (case r_sink_queue r of
     [] \<Rightarrow> Some r
   | item # rest \<Rightarrow>
       let r = r\<lparr>r_sink_queue := rest\<rparr> in
       if \<not> r_sink_connected r \<and> \<not> (connect \<and> r_sink_path r \<noteq> []) then Some (drop_event r)
       else let r = r\<lparr>r_sink_connected := True\<rparr> in
         do { line \<leftarrow> buildJsonPayload item;
              ok \<leftarrow> write_all 0 (length line + 1) ws;
              Some (if ok then r else drop_event (r\<lparr>r_sink_connected := False\<rparr>)) })"

subsection \<open>The queues\<close>

lemma upd_rm_stats_simps [simp]:
  "r_event_queue (upd_rm_stats f r) = r_event_queue r" "r_sink_queue (upd_rm_stats f r) = r_sink_queue r"
  "r_enabled (upd_rm_stats f r) = r_enabled r" "r_sink_running (upd_rm_stats f r) = r_sink_running r"
  "r_retry_count (upd_rm_stats f r) = r_retry_count r" "r_soc_url (upd_rm_stats f r) = r_soc_url r"
  "r_stats (upd_rm_stats f r) = f (r_stats r)"
  by (simp_all add: upd_rm_stats_def)

lemma drop_event_simps [simp]:
  "r_event_queue (drop_event r) = r_event_queue r" "r_sink_queue (drop_event r) = r_sink_queue r"
  "r_enabled (drop_event r) = r_enabled r" "r_sink_running (drop_event r) = r_sink_running r"
  "r_retry_count (drop_event r) = r_retry_count r"
  by (simp_all add: drop_event_def)

lemma tee_sink_simps [simp]:
  "r_event_queue (tee_sink q r) = r_event_queue r" "r_enabled (tee_sink q r) = r_enabled r"
  "r_retry_count (tee_sink q r) = r_retry_count r" "r_sink_running (tee_sink q r) = r_sink_running r"
  by (simp_all add: tee_sink_def)

interpretation evq: fifo_queue r_event_queue on_owned id "\<lambda>_. True" DEFAULT_QUEUE_DEPTH
  by unfold_locales (simp_all add: on_owned_def Let_def)

interpretation sinkq: bounded_queue r_sink_queue on_owned id
  "\<lambda>r. r_sink_running r \<and> length (r_event_queue r) < DEFAULT_QUEUE_DEPTH" 512
  by unfold_locales (simp add: on_owned_def tee_sink_def Let_def)

lemma on_owned_simps [simp]:
  "r_enabled (on_owned q r) = r_enabled r" "r_retry_count (on_owned q r) = r_retry_count r"
  by (simp_all add: on_owned_def Let_def)

lemma from_c_to_c [simp]: "length (o_context_data q) < 65536 \<Longrightarrow> from_c (to_c q) = Some q"
  by (auto simp: from_c_def to_c_def view_def unat_of_nat word_gt_0 unat_eq_0 [symmetric])

text \<open>Handing a sequence of events to the sink callback.\<close>

fun OnQsevs :: "qsev_c list \<Rightarrow> idsrm \<Rightarrow> idsrm option" where
  "OnQsevs [] r = Some r"
| "OnQsevs (q # qs) r = do { r \<leftarrow> OnQsev q r; OnQsevs qs r }"

lemma OnQsevs_enabled:
  "r_enabled r \<Longrightarrow> list_all (\<lambda>q. length (o_context_data q) < 65536) qs \<Longrightarrow>
   OnQsevs (map to_c qs) r = Some (fold on_owned qs r)"
  by (induction qs arbitrary: r) (simp_all add: OnQsev_def)

subsection \<open>The retry loop\<close>

lemma unat_inc8: "unat (x :: u8) < 255 \<Longrightarrow> unat (x + 1) = Suc (unat x)"
  by (simp add: unat_word_ariths)

text \<open>The number of attempts that fail before the first success, from attempt \<open>a\<close> to \<open>n\<close>.\<close>

definition failures :: "(nat \<Rightarrow> bool) \<Rightarrow> nat \<Rightarrow> nat \<Rightarrow> nat" where
  "failures post a n = length (takeWhile (\<lambda>i. \<not> post i) [a ..< Suc n])"

lemma failures_step:
  "a \<le> n \<Longrightarrow> failures post a n = (if post a then 0 else Suc (failures post (Suc a) n))"
  by (simp add: failures_def upt_conv_Cons del: upt_Suc)

lemma failures_end: "n < a \<Longrightarrow> failures post a n = 0"
  by (simp add: failures_def)

lemma retry_loop_result:
  assumes "unat max_retries < 255" "unat attempt \<le> Suc (unat max_retries)"
  shows "retry_loop post max_retries attempt s sleeps =
    (let n = unat max_retries; a = unat attempt; k = failures post a n;
         ok = (\<exists>i \<in> {a..n}. post i);
         s' = s\<lparr>http_retries := http_retries s + of_nat k\<rparr> in
     Some (ok, if ok then s'\<lparr>events_posted := events_posted s + 1\<rparr>
               else s'\<lparr>events_failed := events_failed s + 1\<rparr>,
           sleeps @ map (\<lambda>i. push_bit i 100) [a ..< min (a + k) n]))"
  using assms
proof (induction "Suc (unat max_retries) - unat attempt" arbitrary: attempt s sleeps)
  case 0
  then show ?case
    by (subst retry_loop.simps) (simp add: word_le_nat_alt failures_end Let_def)
next
  case (Suc d)
  let ?n = "unat max_retries" and ?a = "unat attempt"
  have le: "?a \<le> ?n" using Suc.hyps(2) by simp
  have a1: "unat (attempt + 1) = Suc ?a" using le Suc.prems by (intro unat_inc8) simp
  show ?case
  proof (cases "post ?a")
    case True
    then show ?thesis
      using le by (subst retry_loop.simps) (auto simp: word_le_nat_alt failures_step Let_def)
  next
    case False
    have ex: "(\<exists>i \<in> {?a..?n}. post i) = (\<exists>i \<in> {Suc ?a..?n}. post i)"
    proof -
      have "{?a..?n} = insert ?a {Suc ?a..?n}" using le by auto
      with False show ?thesis by (simp only: bex_simps simp_thms)
    qed
    have sl: "(if attempt < max_retries then sleeps @ [push_bit ?a 100] else sleeps) @
        map (\<lambda>i. push_bit i 100) [Suc ?a ..< min (Suc ?a + failures post (Suc ?a) ?n) ?n] =
        sleeps @ map (\<lambda>i. push_bit i (100 :: u32))
          [?a ..< min (?a + Suc (failures post (Suc ?a) ?n)) ?n]"
      using le by (auto simp: word_less_nat_alt upt_conv_Cons)
    have "retry_loop post max_retries attempt s sleeps =
        retry_loop post max_retries (attempt + 1) (s\<lparr>http_retries := http_retries s + 1\<rparr>)
          (if attempt < max_retries then sleeps @ [push_bit ?a 100] else sleeps)"
      using le False by (subst retry_loop.simps) (simp add: word_le_nat_alt)
    also have "\<dots> = (let k = failures post (Suc ?a) ?n; ok = (\<exists>i \<in> {Suc ?a..?n}. post i);
         s' = s\<lparr>http_retries := http_retries s + 1 + of_nat k\<rparr> in
       Some (ok, if ok then s'\<lparr>events_posted := events_posted s + 1\<rparr>
                 else s'\<lparr>events_failed := events_failed s + 1\<rparr>,
             (if attempt < max_retries then sleeps @ [push_bit ?a 100] else sleeps) @
             map (\<lambda>i. push_bit i 100) [Suc ?a ..< min (Suc ?a + k) ?n]))"
      using Suc.hyps(2) Suc.prems le by (subst Suc.hyps(1)) (simp_all add: a1 Let_def)
    finally show ?thesis
      unfolding Let_def sl ex [symmetric] using le False
      by (simp add: failures_step ac_simps)
  qed
qed

subsection \<open>The JSON text of an event\<close>

lemma context_readable_to_c: "length (o_context_data q) < 65536 \<Longrightarrow> context_readable (to_c q)"
  by (auto simp: context_readable_def to_c_def unat_of_nat)

lemma message_length_to_c:
  "length (o_context_data q) < 65536 \<Longrightarrow> message_length (to_c q) =
     8 + (if o_has_timestamp q then 8 else 0) +
     (if o_context_data q = [] then 0
      else 2 + (if length (o_context_data q) \<le> 127 then 1 else 4) + length (o_context_data q))"
  by (auto simp: message_length_def has_context_def to_c_def unat_of_nat word_gt_0 unat_eq_0 [symmetric])

lemma message_bytes_wire:
  assumes "length (o_context_data q) < 65536" "message_length (to_c q) < 65536"
  shows "message_bytes q = Some (wire (to_c q))"
proof -
  have sz: "unat (GetMessageSize (Some (to_c q))) = message_length (to_c q)"
    using assms(2) by (rule message_length_bound)
  have pos: "0 < message_length (to_c q)" by (simp add: message_length_def)
  show ?thesis
    using assms pos
    by (simp add: message_bytes_def Let_def sz serialize_fits context_readable_to_c wire_length)
qed

lemma severity_length: "length (severityToString s) \<le> 8"
  by (cases s) simp_all

lemma header_fields_length: "length (header_fields q) \<le> 300"
  using dec_u16 [of "o_idsm_instance_id q"] dec_u8 [of "o_sensor_instance_id q"]
    dec_u16 [of "o_external_event_id q"] dec_u16 [of "o_count q"] severity_length [of "o_severity q"]
    dec_u32 [of "ts_seconds (o_timestamp q)"] dec_u32 [of "ts_nanoseconds (o_timestamp q)"]
    dec_u16 [of "o_context_data_version q"] dec_u8 [of PROTOCOL_VERSION]
  by (simp add: header_fields_def json_bool_def)

lemma trailer_length:
  "length (o_context_data q) < 65536 \<Longrightarrow> length (trailer_text q) \<le> 63"
  using dec_length_bound [of "length (o_context_data q)" 4] by (simp add: trailer_text_def)

subsection \<open>Reachable states\<close>

text \<open>
  All operations of the module, by any thread and in any order; the results of the HTTP library and
  of the socket are arbitrary.
\<close>

inductive rm_step :: "idsrm \<Rightarrow> idsrm \<Rightarrow> bool" where
  rm_init: "rm_step r (snd (rm_Init cfg r))"
| rm_stop_worker: "rm_step r (snd (rm_DeInit_stop_worker r))"
| rm_stop_sink: "rm_step r (rm_DeInit_stop_sink r)"
| rm_finish: "rm_step r (rm_DeInit_finish r)"
| rm_enable: "rm_step r (snd (rm_Enable r))"
| rm_disable: "rm_step r (snd (rm_Disable r))"
| rm_set_url: "rm_step r (snd (rm_SetSocUrl url r))"
| rm_set_token: "rm_step r (snd (rm_SetAuthToken token r))"
| rm_set_sink: "rm_SetLocalSink path r = Some (e, r') \<Longrightarrow> rm_step r r'"
| rm_reset_stats: "rm_step r (rm_ResetStats r)"
| rm_qsev: "OnQsev q r = Some r' \<Longrightarrow> rm_step r r'"
| rm_batch: "rm_step r (snd (rm_take_batch r))"
| rm_curl: "rm_step r (r\<lparr>r_curl_handle := h\<rparr>)"
| rm_item: "rm_handle post r = Some r' \<Longrightarrow> rm_step r r'"
| rm_remaining: "rm_handle_remaining post r = Some r' \<Longrightarrow> rm_step r r'"
| rm_sink: "sink_step connect ws r = Some r' \<Longrightarrow> rm_step r r'"

inductive rm_reachable :: "idsrm \<Rightarrow> bool" where
  rm_start: "rm_reachable idsrm_start"
| rm_next: "rm_reachable r \<Longrightarrow> rm_step r r' \<Longrightarrow> rm_reachable r'"

definition rm_inv :: "idsrm \<Rightarrow> bool" where
  "rm_inv r \<longleftrightarrow> length (r_event_queue r) \<le> DEFAULT_QUEUE_DEPTH \<and> length (r_sink_queue r) \<le> 512 \<and>
     unat (r_retry_count r) \<le> 10"

lemma postWithRetry_frame:
  "postWithRetry post r = Some (ok, r', sleeps) \<Longrightarrow> \<exists>s. r' = r\<lparr>r_stats := s\<rparr>"
  by (auto simp: postWithRetry_def bind_eq_Some_conv)

lemma rm_handle_frame:
  assumes "rm_handle post r = Some r' \<or> rm_handle_remaining post r = Some r'"
  shows "\<exists>s. r' = r\<lparr>r_stats := s\<rparr>"
  using assms
  by (auto simp: rm_handle_def rm_handle_remaining_def bind_eq_Some_conv upd_rm_stats_def
      dest: postWithRetry_frame split: if_splits)

lemma sink_step_queue:
  "sink_step connect ws r = Some r' \<Longrightarrow>
   r_event_queue r' = r_event_queue r \<and> r_retry_count r' = r_retry_count r \<and>
   length (r_sink_queue r') \<le> length (r_sink_queue r)"
  by (auto simp: sink_step_def Let_def bind_eq_Some_conv split: list.splits if_splits)

lemma rm_inv_owned: "rm_inv r \<Longrightarrow> rm_inv (on_owned q r)"
  using evq.offer_bounded [of r q] sinkq.offer_bounded [of r q] by (simp add: rm_inv_def)

lemma rm_inv_OnQsev: "OnQsev q r = Some r' \<Longrightarrow> rm_inv r \<Longrightarrow> rm_inv r'"
  by (auto simp: OnQsev_def bind_eq_Some_conv rm_inv_owned split: if_splits) (simp add: rm_inv_def)

lemma retry_clamp: "unat (if rc \<le> MAX_RETRY_COUNT then rc else MAX_RETRY_COUNT) \<le> 10"
  by (simp add: MAX_RETRY_COUNT_def word_le_nat_alt)

lemma rm_step_inv: "rm_step r r' \<Longrightarrow> rm_inv r \<Longrightarrow> rm_inv r'"
proof (induction rule: rm_step.induct)
  case (rm_init r cfg)
  then show ?case
    using retry_clamp [of "rc_retry_count cfg"] by (simp add: rm_inv_def rm_Init_def)
next
  case (rm_set_sink path r e r')
  then show ?case by (auto simp: rm_inv_def rm_SetLocalSink_def Let_def split: if_splits)
next
  case (rm_qsev q r r')
  then show ?case by (rule rm_inv_OnQsev)
next
  case (rm_item post r r')
  then show ?case using rm_handle_frame [of post r r'] by (auto simp: rm_inv_def)
next
  case (rm_remaining post r r')
  then show ?case using rm_handle_frame [of post r r'] by (auto simp: rm_inv_def)
next
  case (rm_sink connect ws r r')
  then show ?case using sink_step_queue [of connect ws r r'] by (auto simp: rm_inv_def)
qed (simp_all add: rm_inv_def rm_DeInit_stop_worker_def rm_DeInit_stop_sink_def rm_DeInit_finish_def
    rm_Enable_def rm_Disable_def rm_SetSocUrl_def rm_SetAuthToken_def rm_ResetStats_def
    rm_take_batch_def)

lemma rm_reachable_inv: "rm_reachable r \<Longrightarrow> rm_inv r"
proof (induction rule: rm_reachable.induct)
  case rm_start
  then show ?case by (simp add: rm_inv_def idsrm_start_def)
qed (rule rm_step_inv)

subsection \<open>Properties\<close>

text \<open>
  C11: in every state that the operations of the module can reach, the event queue holds at most
  128 events and the queue of the local sink at most 512, and posting an event always ends: at most
  11 attempts are made, the event is counted as posted when one of them succeeds and as failed
  otherwise (never both), every failed attempt is counted, and the waits in between are 100 ms,
  200 ms, 400 ms and so on.
\<close>

theorem delivery_bounded:
  assumes "rm_reachable r"
  shows "length (r_event_queue r) \<le> 128 \<and> length (r_sink_queue r) \<le> 512 \<and>
    (\<exists>n \<le> 10. let k = length (takeWhile (\<lambda>i. \<not> post i) [0 ..< Suc n]); ok = (\<exists>i \<le> n. post i);
       s' = (r_stats r)\<lparr>http_retries := http_retries (r_stats r) + of_nat k\<rparr> in
     postWithRetry post r = Some (ok,
       r\<lparr>r_stats := if ok then s'\<lparr>events_posted := events_posted (r_stats r) + 1\<rparr>
                    else s'\<lparr>events_failed := events_failed (r_stats r) + 1\<rparr>\<rparr>,
       map (\<lambda>i. push_bit i 100) [0 ..< min k n]))"
proof -
  have inv: "rm_inv r" using assms by (rule rm_reachable_inv)
  let ?n = "unat (r_retry_count r)"
  have n: "?n \<le> 10" using inv by (simp add: rm_inv_def)
  have ok: "(\<exists>i \<in> {0..?n}. post i) = (\<exists>i \<le> ?n. post i)" by auto
  have "postWithRetry post r = (let k = failures post 0 ?n; ok = (\<exists>i \<le> ?n. post i);
       s' = (r_stats r)\<lparr>http_retries := http_retries (r_stats r) + of_nat k\<rparr> in
     Some (ok, r\<lparr>r_stats := if ok then s'\<lparr>events_posted := events_posted (r_stats r) + 1\<rparr>
                    else s'\<lparr>events_failed := events_failed (r_stats r) + 1\<rparr>\<rparr>,
       map (\<lambda>i. push_bit i 100) [0 ..< min k ?n]))"
    using n by (simp add: postWithRetry_def retry_loop_result Let_def ok)
  then have "\<exists>n \<le> 10. let k = length (takeWhile (\<lambda>i. \<not> post i) [0 ..< Suc n]); ok = (\<exists>i \<le> n. post i);
       s' = (r_stats r)\<lparr>http_retries := http_retries (r_stats r) + of_nat k\<rparr> in
     postWithRetry post r = Some (ok,
       r\<lparr>r_stats := if ok then s'\<lparr>events_posted := events_posted (r_stats r) + 1\<rparr>
                    else s'\<lparr>events_failed := events_failed (r_stats r) + 1\<rparr>\<rparr>,
       map (\<lambda>i. push_bit i 100) [0 ..< min k n])"
    using n unfolding failures_def Let_def by blast
  then show ?thesis using inv by (simp add: rm_inv_def DEFAULT_QUEUE_DEPTH_def)
qed

lemma delivery_bounded_witness:
  "\<exists>ok r' sleeps. postWithRetry (\<lambda>i. i = 2) idsrm_start = Some (ok, r', sleeps)"
  using delivery_bounded [OF rm_start, of "\<lambda>i. i = 2"] by (auto simp: Let_def)

text \<open>
  C10: while the module is enabled, a sequence of events that the IdsM hands to the sink callback is
  appended to the event queue unchanged and in order, context data included, up to the depth of
  128; what no longer fits is dropped, and the oldest events are kept.
\<close>

theorem sink_queue_fifo:
  assumes "r_enabled r" and "length (r_event_queue r) \<le> 128"
    and "list_all (\<lambda>q. length (o_context_data q) < 65536) qs"
  shows "\<exists>r'. OnQsevs (map to_c qs) r = Some r' \<and> r_event_queue r' = take 128 (r_event_queue r @ qs)"
  using assms evq.offers_items [of r qs]
  by (simp add: OnQsevs_enabled DEFAULT_QUEUE_DEPTH_def)

definition rm_sample :: "bytes \<Rightarrow> owned_qsev" where
  "rm_sample ctx = \<lparr> o_idsm_instance_id = 7, o_external_event_id = 0x8001,
     o_sensor_instance_id = 1, o_severity = SEVERITY_HIGH, o_count = 1,
     o_has_timestamp = True, o_timestamp = timestamp_zero, o_context_data_version = 1,
     o_context_data = ctx \<rparr>"

lemma sink_queue_fifo_witness:
  "\<exists>r'. OnQsevs (map to_c (replicate 130 (rm_sample [1]))) (idsrm_start\<lparr>r_enabled := True\<rparr>) = Some r' \<and>
     length (r_event_queue r') = 128"
  using sink_queue_fifo [of "idsrm_start\<lparr>r_enabled := True\<rparr>" "replicate 130 (rm_sample [1])"]
  by (auto simp: idsrm_start_def rm_sample_def list_all_length)

text \<open>
  For an event with at most 70 bytes of context data the JSON text is complete: it is the
  object with the field names and decimal values of the code, the wire message in hexadecimal in
  \<open>ids_message\<close>, from which the protocol reads back the fields of the event, and the context data
  in hexadecimal in \<open>payload\<close>.
\<close>

lemma json_payload_complete:
  assumes "length (o_context_data q) \<le> 70"
  shows "\<exists>js h. buildJsonPayload q = Some js \<and>
     js = ''{\"ids_message\":\"'' @ h @ header_fields q @ to_hex (o_context_data q) @
       ''\",\"payload_len\":'' @ dec (length (o_context_data q)) @ ''}'' \<and>
     decode_ids (of_hex h) = Some (message_of (to_c q))"
proof -
  have l: "length (o_context_data q) < 65536" using assms by simp
  have m: "message_length (to_c q) \<le> 91" using assms by (simp add: message_length_to_c)
  then have mb: "message_bytes q = Some (wire (to_c q))" using l by (simp add: message_bytes_wire)
  have "length (header_text (to_hex (wire (to_c q))) q) \<le> 511"
    using header_fields_length [of q] m l
    by (simp add: header_text_def wire_length context_readable_to_c)
  then have "buildJsonPayload q = Some (header_text (to_hex (wire (to_c q))) q @
      to_hex (o_context_data q) @ trailer_text q)"
    using trailer_length [OF l] by (simp add: buildJsonPayload_def mb snprintf_def)
  then show ?thesis
    using l by (auto simp: header_text_def trailer_text_def decode_wire context_readable_to_c)
qed

text \<open>
  The header of the JSON text is built in a buffer of 512 characters. When the wire message has
  248 bytes or more (about 226 bytes of context data with a timestamp), the header is cut inside the
  hexadecimal message: no quote closes \<open>ids_message\<close>, and every other field up to \<open>payload\<close>
  is missing from the text.
\<close>

lemma json_header_truncated:
  assumes "length (o_context_data q) < 65536"
    and "248 \<le> message_length (to_c q)" and "message_length (to_c q) < 65536"
  shows "\<exists>h. length h = 495 \<and> set h \<subseteq> set ''0123456789ABCDEF'' \<and>
     buildJsonPayload q = Some (''{\"ids_message\":\"'' @ h @ to_hex (o_context_data q) @
       ''\",\"payload_len\":'' @ dec (length (o_context_data q)) @ ''}'')"
proof -
  let ?hex = "to_hex (wire (to_c q))"
  have mb: "message_bytes q = Some (wire (to_c q))" using assms by (simp add: message_bytes_wire)
  have len: "495 \<le> length ?hex" using assms by (simp add: wire_length context_readable_to_c)
  have d: "digit n \<in> set ''0123456789ABCDEF''" if "n < 16" for n
  proof -
    have "\<forall>n \<in> {0..<16}. digit n \<in> set ''0123456789ABCDEF''" by code_simp
    with that show ?thesis by simp
  qed
  have hexset: "set (to_hex p) \<subseteq> set ''0123456789ABCDEF''" for p
    using d by (induction p) (auto simp: to_hex_def hex2_def less_mult_imp_div_less)
  have "snprintf 512 (header_text ?hex q) = ''{\"ids_message\":\"'' @ take 495 ?hex"
    using len by (simp add: snprintf_def header_text_def)
  moreover have "snprintf 64 (trailer_text q) =
      ''\",\"payload_len\":'' @ dec (length (o_context_data q)) @ ''}''"
    using trailer_length [OF assms(1)] by (simp add: snprintf_def trailer_text_def)
  ultimately have "buildJsonPayload q = Some (''{\"ids_message\":\"'' @ take 495 ?hex @
      to_hex (o_context_data q) @ ''\",\"payload_len\":'' @ dec (length (o_context_data q)) @ ''}'')"
    by (simp add: buildJsonPayload_def mb)
  moreover have "set (take 495 ?hex) \<subseteq> set ''0123456789ABCDEF''"
    using hexset [of "wire (to_c q)"] set_take_subset [of 495 ?hex] by blast
  ultimately show ?thesis using len by (intro exI [of _ "take 495 ?hex"]) simp
qed

end
