(* ===== verification/Can_Frame.thy ===== *)
theory Can_Frame
  imports Idsm_Prelude
begin

text \<open>
  \<open>apps/can_probe/frame.cpp\<close> and \<open>alert.cpp\<close>: parsing of one SocketCAN record and the alert record
  with its serialised context (\<open>serialize_context\<close> and \<open>report_alert\<close> of \<open>main.cpp\<close>). The raw
  identifier is copied in host order; the model is a little-endian host, as the comment of the code
  assumes. The outer \<open>None\<close> of the parser is an access out of bounds, the inner one the result
  \<open>false\<close>.
\<close>

definition CAN_EFF_FLAG :: u32 where [idsm_defs]: "CAN_EFF_FLAG = 0x80000000"
definition CAN_RTR_FLAG :: u32 where [idsm_defs]: "CAN_RTR_FLAG = 0x40000000"
definition CAN_ERR_FLAG :: u32 where [idsm_defs]: "CAN_ERR_FLAG = 0x20000000"
definition CAN_ID_EFF :: u32 where [idsm_defs]: "CAN_ID_EFF = 0x1FFFFFFF"
definition CAN_ID_SFF :: u32 where [idsm_defs]: "CAN_ID_SFF = 0x7FF"
definition CAN_FRAME_LEN :: nat where [idsm_defs]: "CAN_FRAME_LEN = 16"
definition CANFD_FRAME_LEN :: nat where [idsm_defs]: "CANFD_FRAME_LEN = 72"

record can_frame =
  f_can_id :: u32
  f_eff :: bool
  f_rtr :: bool
  f_err :: bool
  f_fd :: bool
  f_dlc :: u8
  f_len :: u8
  f_data :: bytes

definition empty_frame :: can_frame where
  "empty_frame = \<lparr> f_can_id = 0, f_eff = False, f_rtr = False, f_err = False, f_fd = False,
     f_dlc = 0, f_len = 0, f_data = replicate 64 0 \<rparr>"

definition rd32_le :: "bytes \<Rightarrow> nat \<Rightarrow> u32 option" where
  "rd32_le p i = do { a \<leftarrow> rd8 p i; b \<leftarrow> rd8 p (i + 1); c \<leftarrow> rd8 p (i + 2); d \<leftarrow> rd8 p (i + 3);
     Some (be32 d c b a) }"

definition parse_can_frame :: "bytes option \<Rightarrow> nat \<Rightarrow> can_frame option option" where
  "parse_can_frame data n = (case data of
     None \<Rightarrow> Some None
   | Some p \<Rightarrow>
       if n = CAN_FRAME_LEN \<or> n = CANFD_FRAME_LEN
       then do {
         raw_id \<leftarrow> rd32_le p 0;
         dlc \<leftarrow> rd8 p 4;
         let eff = raw_id AND CAN_EFF_FLAG \<noteq> 0;
         payload \<leftarrow> (if n = CAN_FRAME_LEN then view p 8 8 else view p 8 64);
         Some (Some \<lparr>
           f_can_id = raw_id AND (if eff then CAN_ID_EFF else CAN_ID_SFF),
           f_eff = eff,
           f_rtr = (raw_id AND CAN_RTR_FLAG \<noteq> 0),
           f_err = (raw_id AND CAN_ERR_FLAG \<noteq> 0),
           f_fd = (n \<noteq> CAN_FRAME_LEN),
           f_dlc = dlc,
           f_len = (if n = CAN_FRAME_LEN then (if dlc \<le> 8 then dlc else 8)
                    else (if dlc \<le> 64 then dlc else 64)),
           f_data = payload @ drop (length payload) (f_data empty_frame) \<rparr>) }
       else Some None)"

definition is_diag_request_id :: "u32 \<Rightarrow> bool" where
  "is_diag_request_id i \<longleftrightarrow> i = 0x7DF \<or> (i \<ge> 0x7E0 \<and> i \<le> 0x7E7)"

definition is_diag_response_id :: "u32 \<Rightarrow> bool" where
  "is_diag_response_id i \<longleftrightarrow> i \<ge> 0x7E8 \<and> i \<le> 0x7EF"

subsection \<open>Alerts\<close>

definition DT_UNKNOWN_ID :: u8 where [idsm_defs]: "DT_UNKNOWN_ID = 1"
definition DT_ID_FLOOD :: u8 where [idsm_defs]: "DT_ID_FLOOD = 2"
definition DT_BUS_FLOOD :: u8 where [idsm_defs]: "DT_BUS_FLOOD = 3"
definition DT_ERROR_BURST :: u8 where [idsm_defs]: "DT_ERROR_BURST = 4"
definition DT_DLC_ANOMALY :: u8 where [idsm_defs]: "DT_DLC_ANOMALY = 5"
definition DT_REMOTE_FRAME :: u8 where [idsm_defs]: "DT_REMOTE_FRAME = 6"
definition DT_UDS_SEC_ACCESS :: u8 where [idsm_defs]: "DT_UDS_SEC_ACCESS = 7"
definition DT_UDS_SVC_SCAN :: u8 where [idsm_defs]: "DT_UDS_SVC_SCAN = 8"
definition DT_DIAG_FLOOD :: u8 where [idsm_defs]: "DT_DIAG_FLOOD = 9"
definition DT_CYCLE_ANOMALY :: u8 where [idsm_defs]: "DT_CYCLE_ANOMALY = 10"

record can_alert =
  a_detector_type :: u8
  a_can_id :: u32
  a_eff :: bool
  a_rtr :: bool
  a_fd :: bool
  a_err :: bool
  a_count :: u32
  a_aux :: u32

definition make_alert :: "u8 \<Rightarrow> can_frame \<Rightarrow> u32 \<Rightarrow> can_alert" where
  "make_alert dt f aux = \<lparr> a_detector_type = dt, a_can_id = f_can_id f, a_eff = f_eff f,
     a_rtr = f_rtr f, a_fd = f_fd f, a_err = f_err f, a_count = 1, a_aux = aux \<rparr>"

definition be_bytes :: "u32 \<Rightarrow> bytes" where
  "be_bytes x = map (\<lambda>i. ucast (drop_bit (8 * i) x)) [3, 2, 1, 0]"

definition serialize_context :: "can_alert \<Rightarrow> bytes" where
  "serialize_context a =
     [a_detector_type a,
      (if a_eff a then 0x01 else 0) OR (if a_rtr a then 0x02 else 0) OR
      (if a_fd a then 0x04 else 0) OR (if a_err a then 0x08 else 0)] @
     be_bytes (a_can_id a) @ [0, 0] @ be_bytes (a_count a) @ be_bytes (a_aux a)"

definition sev_for_detector :: "u8 \<Rightarrow> u16" where
  "sev_for_detector dt = (if dt \<ge> 1 \<and> dt \<le> 10 then ucast dt - 1 else 0xFFFF)"

text \<open>
  \<open>report_alert\<close>: the arguments of the call of \<open>IdsM_ReportSecurityEvent\<close>, when it is made:
  SEv identifier, context data and count.
\<close>

definition report_alert :: "can_alert \<Rightarrow> (u16 \<times> bytes \<times> u16) option" where
  "report_alert a = (let
     ctx = serialize_context a;
     count = ucast (if a_count a > 65535 then 65535 else if a_count a = 0 then 1 else a_count a);
     sev = sev_for_detector (a_detector_type a) in
     if sev = 0xFFFF then None else Some (sev, ctx, count))"

subsection \<open>Properties\<close>

lemma be_bytes_eq [simp]: "be_bytes x = [byte3 x, byte2 x, byte1 x, byte0 x]"
  by (simp add: be_bytes_def byte3_def byte2_def byte1_def byte0_def)

text \<open>
  C24: the parser never reads outside a record of the given size; it accepts exactly the records of
  16 and 72 bytes; an accepted frame has an identifier within its 29 or 11 bits, at most 8 or 64
  payload bytes, all of them copied from the record, and a length that is the length field when that
  is in range.
\<close>

theorem parse_can_frame_safe:
  assumes "\<And>p. data = Some p \<Longrightarrow> n = length p"
  shows "\<exists>r. parse_can_frame data n = Some r \<and>
     (r \<noteq> None \<longleftrightarrow> data \<noteq> None \<and> (n = 16 \<or> n = 72)) \<and>
     (\<forall>f p. r = Some f \<and> data = Some p \<longrightarrow>
        unat (f_can_id f) \<le> (if f_eff f then 2 ^ 29 - 1 else 2 ^ 11 - 1) \<and>
        length (f_data f) = 64 \<and> (f_fd f \<longleftrightarrow> n = 72) \<and> f_dlc f = p ! 4 \<and>
        unat (f_len f) = min (unat (p ! 4)) (n - 8) \<and>
        take (n - 8) (f_data f) = drop 8 p)"
proof -
  have eff: "unat (x AND CAN_ID_EFF) \<le> 2 ^ 29 - 1" and sff: "unat (x AND CAN_ID_SFF) \<le> 2 ^ 11 - 1" for x
  proof -
    have m: "CAN_ID_EFF = mask 29" "CAN_ID_SFF = mask 11"
      by (simp_all add: CAN_ID_EFF_def CAN_ID_SFF_def mask_eq_exp_minus_1)
    have "unat (mask 29 :: u32) = 2 ^ 29 - 1" "unat (mask 11 :: u32) = 2 ^ 11 - 1"
      by (simp_all add: mask_eq_exp_minus_1)
    then show "unat (x AND CAN_ID_EFF) \<le> 2 ^ 29 - 1" "unat (x AND CAN_ID_SFF) \<le> 2 ^ 11 - 1"
      unfolding m using word_and_le1 [of x "mask 29"] word_and_le1 [of x "mask 11"]
      by (metis word_le_nat_alt)+
  qed
  show ?thesis
  proof (cases data)
    case (Some p)
    then have n: "n = length p" by (rule assms)
    show ?thesis
      using n Some eff sff
      by (cases "length p = 16"; cases "length p = 72")
        (auto simp: parse_can_frame_def rd32_le_def rd_simps idsm_defs empty_frame_def Let_def
          word_le_nat_alt min_def)
  qed (simp add: parse_can_frame_def)
qed

lemma parse_can_frame_safe_witness:
  "\<exists>f. parse_can_frame (Some ([0x23, 0x01, 0, 0, 2, 0, 0, 0] @ replicate 8 7)) 16 = Some (Some f) \<and>
     unat (f_len f) = 2"
  using parse_can_frame_safe [of "Some ([0x23, 0x01, 0, 0, 2, 0, 0, 0] @ replicate 8 7)" 16] by auto

lemma context_fields:
  "length (serialize_context a) = 16 \<and> rd8 (serialize_context a) 0 = Some (a_detector_type a) \<and>
   rd32 (serialize_context a) 2 = Some (a_can_id a) \<and>
   rd32 (serialize_context a) 8 = Some (a_count a) \<and> rd32 (serialize_context a) 12 = Some (a_aux a)"
  by (simp add: serialize_context_def rd32_def rd8_def)

text \<open>
  An alert of one of the ten detector types is reported under the SEv of its type with a context
  of 16 bytes from which identifier, count and auxiliary value read back big-endian at their
  offsets, and with a count that is the alert's count clamped into 1..65535; any other type is not
  reported.
\<close>

lemma report_alert_context:
  "(if 1 \<le> unat (a_detector_type a) \<and> unat (a_detector_type a) \<le> 10
    then \<exists>ctx count. report_alert a = Some (of_nat (unat (a_detector_type a) - 1), ctx, count) \<and>
      length ctx = 16 \<and> rd8 ctx 0 = Some (a_detector_type a) \<and>
      rd32 ctx 2 = Some (a_can_id a) \<and> rd32 ctx 8 = Some (a_count a) \<and>
      rd32 ctx 12 = Some (a_aux a) \<and> unat count = max 1 (min 65535 (unat (a_count a)))
    else report_alert a = None)"
proof (cases "1 \<le> unat (a_detector_type a) \<and> unat (a_detector_type a) \<le> 10")
  case True
  let ?dt = "a_detector_type a"
  have le: "1 \<le> ?dt \<and> ?dt \<le> 10" using True by (simp add: word_le_nat_alt)
  have u: "unat (ucast ?dt :: u16) = unat ?dt"
  proof -
    have "unat ?dt < 65536" using unat_u8_bound [of ?dt] by linarith
    then show ?thesis by (simp add: unsigned_ucast_eq take_bit_eq_mod)
  qed
  have k: "unat (of_nat k :: u16) = k" if "k < 10" for k :: nat
    using that by (simp add: unat_of_nat)
  have sev: "ucast ?dt - 1 = (of_nat (unat ?dt - 1) :: u16)"
  proof -
    have "(1 :: u16) \<le> ucast ?dt" using True by (simp add: word_le_nat_alt u)
    then have "unat (ucast ?dt - 1 :: u16) = unat ?dt - 1" by (simp add: unat_sub u)
    also have "\<dots> = unat (of_nat (unat ?dt - 1) :: u16)" using True by (intro k [symmetric]) linarith
    finally show ?thesis by (rule word_unat_eq_iff [THEN iffD2])
  qed
  have ne: "(of_nat (unat ?dt - 1) :: u16) \<noteq> 0xFFFF"
  proof
    assume eq: "(of_nat (unat ?dt - 1) :: u16) = 0xFFFF"
    have "unat (of_nat (unat ?dt - 1) :: u16) = unat ?dt - 1" using True by (intro k) linarith
    then have "unat ?dt - 1 = 65535" unfolding eq by simp
    then show False using True by linarith
  qed
  let ?c = "if a_count a > 65535 then 65535 else if a_count a = 0 then 1 else a_count a"
  have cnt: "unat (ucast ?c :: u16) = max 1 (min 65535 (unat (a_count a)))"
  proof -
    consider "a_count a > 65535" | "a_count a = 0" | "\<not> a_count a > 65535" "a_count a \<noteq> 0" by blast
    then have "unat ?c = max 1 (min 65535 (unat (a_count a)))"
    proof cases
      case 3
      then have "1 \<le> unat (a_count a)" using unat_gt_0 [of "a_count a"] by linarith
      then show ?thesis using 3 by (simp add: word_less_nat_alt)
    qed (simp_all add: word_less_nat_alt)
    moreover from this have "unat ?c < 65536" by linarith
    ultimately show ?thesis by (simp only: unat_ucast_32_16)
  qed
  have "report_alert a = Some (of_nat (unat ?dt - 1), serialize_context a, ucast ?c)"
    unfolding report_alert_def sev_for_detector_def Let_def if_P [OF le] sev if_not_P [OF ne] ..
  then show ?thesis
    unfolding if_P [OF True] using context_fields [of a] cnt by blast
next
  case False
  then have "\<not> (1 \<le> a_detector_type a \<and> a_detector_type a \<le> 10)"
    by (simp add: word_le_nat_alt)
  then show ?thesis using False by (simp add: report_alert_def sev_for_detector_def)
qed

end
