(* ===== verification/Tumbling_Window.thy ===== *)
theory Tumbling_Window
  imports Idsm_Prelude
begin

text \<open>
  The counting window that the flood detectors of the probes share: a window opens with its first
  event, restarts when an event comes at least \<open>window_ms\<close> after its start, counts the events, and
  raises one alert when the count reaches the threshold. A start of 0 means that no window is open,
  as in the code. The locale states what a detector promises that keeps one such window per key, and
  proves once that it raises exactly one alert per key and window.
\<close>

record window_state =
  w_start :: u64
  w_count :: u32
  w_alerted :: bool

definition fresh_window :: window_state where
  "fresh_window = \<lparr> w_start = 0, w_count = 0, w_alerted = False \<rparr>"

definition open_window :: "u32 \<Rightarrow> u64 \<Rightarrow> window_state \<Rightarrow> window_state" where
  "open_window window_ms now_ms st0 =
     (let st = (if w_start st0 = 0 then st0\<lparr>w_start := now_ms\<rparr> else st0) in
      if now_ms - w_start st \<ge> ucast window_ms
      then \<lparr> w_start = now_ms, w_count = 0, w_alerted = False \<rparr> else st)"

definition tumble :: "u32 \<Rightarrow> u32 \<Rightarrow> u64 \<Rightarrow> window_state \<Rightarrow> bool \<times> window_state" where
  "tumble window_ms threshold now_ms st0 =
     (let st = open_window window_ms now_ms st0;
          st = st\<lparr>w_count := w_count st + 1\<rparr> in
      if w_count st \<ge> threshold \<and> \<not> w_alerted st then (True, st\<lparr>w_alerted := True\<rparr>)
      else (False, st))"

text \<open>A time inside the window that starts at \<open>t0\<close>.\<close>

definition in_window :: "u32 \<Rightarrow> u64 \<Rightarrow> u64 \<Rightarrow> bool" where
  "in_window window_ms t0 t \<longleftrightarrow> unat t0 \<le> unat t \<and> unat t < unat t0 + unat window_ms"

text \<open>The window of a key that has counted \<open>n\<close> events since \<open>t0\<close>.\<close>

definition counted :: "u32 \<Rightarrow> u32 \<Rightarrow> u64 \<Rightarrow> nat \<Rightarrow> window_state \<Rightarrow> bool" where
  "counted window_ms threshold t0 n st \<longleftrightarrow>
     (if n = 0 then st = fresh_window
      else in_window window_ms t0 (w_start st) \<and> unat (w_count st) = n \<and>
           w_alerted st = (max 1 (unat threshold) \<le> n))"

text \<open>
  One event in the window: the alert comes exactly with the event whose number is the threshold.
\<close>

lemma tumble_counted:
  assumes "counted window_ms threshold t0 n st" "in_window window_ms t0 t" "t0 > 0"
    "n < 4294967295" "n > 0 \<Longrightarrow> unat (w_start st) \<le> unat t"
  shows "fst (tumble window_ms threshold t st) = (Suc n = max 1 (unat threshold))"
    and "counted window_ms threshold t0 (Suc n) (snd (tumble window_ms threshold t st))"
    and "unat (w_count (snd (tumble window_ms threshold t st))) = Suc n"
proof -
  have w0: "window_ms \<noteq> 0" using assms(2) by (auto simp: in_window_def)
  have t: "t \<noteq> 0" using assms(2,3) by (auto simp: in_window_def word_less_nat_alt)
  define st1 where "st1 = open_window window_ms t st"
  have st1: "in_window window_ms t0 (w_start st1) \<and> unat (w_count st1) = n \<and>
      w_alerted st1 = (n > 0 \<and> max 1 (unat threshold) \<le> n)"
  proof (cases "n = 0")
    case True
    then have "st = fresh_window" using assms(1) by (simp add: counted_def)
    then show ?thesis
      using True assms(2) w0 unat_gt_0 [of window_ms]
      by (simp add: st1_def open_window_def fresh_window_def word_le_nat_alt)
  next
    case False
    then have s: "in_window window_ms t0 (w_start st)" "unat (w_count st) = n"
        "w_alerted st = (max 1 (unat threshold) \<le> n)"
      using assms(1) by (simp_all add: counted_def)
    have "w_start st \<noteq> 0" using s(1) assms(3) by (auto simp: in_window_def word_less_nat_alt)
    moreover have "\<not> t - w_start st \<ge> ucast window_ms"
      using s(1) assms(2) assms(5) False
      by (auto simp: in_window_def word_le_nat_alt unat_diff_u64)
    ultimately have "st1 = st" by (simp add: st1_def open_window_def)
    then show ?thesis using s False by simp
  qed
  have c: "unat (w_count st1 + 1) = Suc n"
    using st1 assms(4) by (simp add: unat_inc32)
  have th: "(threshold \<le> w_count st1 + 1) = (unat threshold \<le> Suc n)"
    by (simp add: word_le_nat_alt c)
  show "fst (tumble window_ms threshold t st) = (Suc n = max 1 (unat threshold))"
    "counted window_ms threshold t0 (Suc n) (snd (tumble window_ms threshold t st))"
    "unat (w_count (snd (tumble window_ms threshold t st))) = Suc n"
    using st1 c th by (auto simp: tumble_def st1_def [symmetric] Let_def counted_def max_def)
qed

definition hits_of :: "('e \<Rightarrow> bool) \<Rightarrow> ('e \<Rightarrow> 'k) \<Rightarrow> 'k \<Rightarrow> ('e \<times> u64) list \<Rightarrow> nat" where
  "hits_of relevant key k evs = length (filter (\<lambda>(e, t). relevant e \<and> key e = k) evs)"

lemma hits_of_simps [simp]:
  "hits_of r key k [] = 0"
  "hits_of r key k (xs @ ys) = hits_of r key k xs + hits_of r key k ys"
  "hits_of r key k (x # ys) = (if r (fst x) \<and> key (fst x) = k then 1 else 0) + hits_of r key k ys"
  by (simp_all add: hits_of_def split_def)

lemma hits_of_le: "hits_of r key k evs \<le> length evs"
  by (simp add: hits_of_def)

text \<open>A sequence of timed events in order, all inside the window that starts at \<open>t0\<close>.\<close>

definition timed_within :: "u32 \<Rightarrow> u64 \<Rightarrow> ('e \<times> u64) list \<Rightarrow> bool" where
  "timed_within window_ms t0 evs \<longleftrightarrow> t0 > 0 \<and> length evs < 4294967295 \<and>
     sorted (map (unat \<circ> snd) evs) \<and> (\<forall>(e, t) \<in> set evs. in_window window_ms t0 t)"

lemma in_window_pos: "in_window window_ms t0 t \<Longrightarrow> t0 > 0 \<Longrightarrow> t > 0"
  by (auto simp: in_window_def word_less_nat_alt)

lemma timed_within_pos: "timed_within window_ms t0 evs \<Longrightarrow> \<forall>(e, t) \<in> set evs. t > 0"
  by (auto simp: timed_within_def intro: in_window_pos)

locale tumbling_window =
  fixes feed :: "'e \<Rightarrow> u64 \<Rightarrow> 's \<Rightarrow> 'a option \<times> 's"
    and slot :: "'s \<Rightarrow> 'k \<Rightarrow> window_state"
    and key :: "'e \<Rightarrow> 'k"
    and relevant :: "'e \<Rightarrow> bool"
    and reported :: "'a \<Rightarrow> u32"
    and window_ms :: u32 and threshold :: u32
    and configured :: "'s \<Rightarrow> bool"
  assumes feed_configured: "configured s \<Longrightarrow> t > 0 \<Longrightarrow> configured (snd (feed e t s))"
    and feed_irrelevant: "\<not> relevant e \<Longrightarrow> fst (feed e t s) = None"
    and feed_alert: "configured s \<Longrightarrow> t > 0 \<Longrightarrow> relevant e \<Longrightarrow>
      (fst (feed e t s) \<noteq> None) = fst (tumble window_ms threshold t (slot s (key e)))"
    and feed_slot: "configured s \<Longrightarrow> t > 0 \<Longrightarrow> slot (snd (feed e t s)) k =
      (if relevant e \<and> k = key e then snd (tumble window_ms threshold t (slot s (key e)))
       else slot s k)"
    and feed_reported: "configured s \<Longrightarrow> t > 0 \<Longrightarrow> fst (feed e t s) = Some a \<Longrightarrow>
      reported a = w_count (slot (snd (feed e t s)) (key e))"
begin

definition feeds :: "'s \<Rightarrow> ('e \<times> u64) list \<Rightarrow> 'a option list \<times> 's" where
  "feeds = run (\<lambda>s (e, t). feed e t s)"

lemma feeds_snoc:
  "fst (feeds s (evs @ [(e, t)])) = fst (feeds s evs) @ [fst (feed e t (snd (feeds s evs)))]"
  "snd (feeds s (evs @ [(e, t)])) = snd (feed e t (snd (feeds s evs)))"
  by (simp_all add: feeds_def run_append Let_def split_def)

lemma feeds_configured:
  "configured s \<Longrightarrow> (\<forall>(e, t) \<in> set evs. t > 0) \<Longrightarrow> configured (snd (feeds s evs))"
  by (induction evs rule: rev_induct) (auto simp: feeds_def run_append Let_def split_def feed_configured)

lemma feeds_slots:
  assumes "configured s" "\<And>k. slot s k = fresh_window" "timed_within window_ms t0 evs"
  shows "counted window_ms threshold t0 (hits_of relevant key k evs) (slot (snd (feeds s evs)) k) \<and>
    (hits_of relevant key k evs > 0 \<longrightarrow>
       (\<exists>(e, t) \<in> set evs. w_start (slot (snd (feeds s evs)) k) = t))"
  using assms(3)
proof (induction evs rule: rev_induct)
  case Nil
  then show ?case using assms(2) by (simp add: feeds_def counted_def)
next
  case (snoc x evs)
  obtain e t where x: "x = (e, t)" by (cases x)
  let ?s = "snd (feeds s evs)"
  have tw: "timed_within window_ms t0 evs" and it: "in_window window_ms t0 t" "t0 > 0"
      "length evs < 4294967294" "\<forall>(e', t') \<in> set evs. unat t' \<le> unat t"
    using snoc.prems by (auto simp: timed_within_def x sorted_append)
  have IH: "counted window_ms threshold t0 (hits_of relevant key k evs) (slot ?s k)"
      "hits_of relevant key k evs > 0 \<Longrightarrow> \<exists>(e, t) \<in> set evs. w_start (slot ?s k) = t"
    using snoc.IH tw by simp_all
  have conf: "configured ?s" by (rule feeds_configured [OF assms(1) timed_within_pos [OF tw]])
  have pos: "t > 0" using it(1,2) by (rule in_window_pos)
  show ?case
  proof (cases "relevant e \<and> k = key e")
    case True
    let ?n = "hits_of relevant key k evs"
    have le: "unat (w_start (slot ?s k)) \<le> unat t" if "?n > 0"
      using IH(2) [OF that] it(4) by fastforce
    have n: "?n < 4294967295" using hits_of_le [of relevant key k evs] it(3) by linarith
    note tc = tumble_counted [OF IH(1) it(1,2) n le]
    have st: "slot (snd (feeds s (evs @ [x]))) k = snd (tumble window_ms threshold t (slot ?s k))"
      using True conf pos by (simp add: x feeds_snoc feed_slot)
    note st = this [unfolded x]
    have ws: "w_start (snd (tumble window_ms threshold t st)) = t \<or>
        w_start (snd (tumble window_ms threshold t st)) = w_start st" for st
      by (simp add: tumble_def open_window_def Let_def)
    have start: "\<exists>(e, t) \<in> set (evs @ [x]). w_start (slot (snd (feeds s (evs @ [x]))) k) = t"
    proof (cases "?n > 0")
      case True
      then show ?thesis
        using IH(2) ws [of "slot ?s k"] by (auto simp: st x)
    next
      case False
      then have "slot ?s k = fresh_window" using IH(1) by (simp add: counted_def)
      then show ?thesis
        by (simp add: st x tumble_def open_window_def fresh_window_def Let_def)
    qed
    show ?thesis using tc(2) start True st by (simp add: x)
  next
    case False
    then have "slot (snd (feeds s (evs @ [x]))) k = slot ?s k"
      using conf pos by (simp add: x feeds_snoc feed_slot) blast
    then show ?thesis using IH False by (auto simp: x)
  qed
qed

text \<open>Within one window an event raises the alert exactly when it is the threshold-th of its key.\<close>

theorem alert_exactly_at_threshold:
  assumes "configured s" "\<And>k. slot s k = fresh_window" "timed_within window_ms t0 (evs @ [(e, t)])"
  shows "fst (feed e t (snd (feeds s evs))) \<noteq> None \<longleftrightarrow>
      relevant e \<and> hits_of relevant key (key e) (evs @ [(e, t)]) = max 1 (unat threshold)"
    and "fst (feed e t (snd (feeds s evs))) = Some a \<Longrightarrow>
      unat (reported a) = max 1 (unat threshold)"
proof -
  let ?s = "snd (feeds s evs)" and ?n = "hits_of relevant key (key e) evs"
  have tw: "timed_within window_ms t0 evs" and it: "in_window window_ms t0 t" "t0 > 0"
      "length evs < 4294967294" "\<forall>(e', t') \<in> set evs. unat t' \<le> unat t"
    using assms(3) by (auto simp: timed_within_def sorted_append)
  have conf: "configured ?s" by (rule feeds_configured [OF assms(1) timed_within_pos [OF tw]])
  have pos: "t > 0" using it(1,2) by (rule in_window_pos)
  note sl = feeds_slots [OF assms(1,2) tw, of "key e"]
  have le: "unat (w_start (slot ?s (key e))) \<le> unat t" if "?n > 0"
    using sl that it(4) by fastforce
  have n: "?n < 4294967295" using hits_of_le [of relevant key "key e" evs] it(3) by linarith
  note tc = tumble_counted [OF conjunct1 [OF sl] it(1,2) n le]
  show iff: "fst (feed e t ?s) \<noteq> None \<longleftrightarrow>
      relevant e \<and> hits_of relevant key (key e) (evs @ [(e, t)]) = max 1 (unat threshold)"
    using tc(1) feed_alert [OF conf pos] feed_irrelevant by (cases "relevant e") simp_all
  assume a: "fst (feed e t ?s) = Some a"
  then have r: "relevant e" using feed_irrelevant by fastforce
  have "unat (reported a) = Suc ?n"
    using feed_reported [OF conf pos a] tc(3) r by (simp add: feed_slot conf pos)
  then show "unat (reported a) = max 1 (unat threshold)"
    using iff a r by simp
qed

end

end
