(* ===== verification/Can_Detectors.thy ===== *)
theory Can_Detectors
  imports Can_Frame Tumbling_Window
begin

text \<open>
  The detectors of \<open>apps/can_probe/detectors.cpp\<close>. Each detector is a record of its configuration and
  its per-identifier state; \<open>feed\<close> gives the alert, if any, and the new state. The maps of the code
  are only looked up and updated per key, so they are partial functions. The four flood detectors
  keep the counting window of \<open>Tumbling_Window\<close> and are instances of its contract. The window of a
  rate is at least one millisecond (\<open>main.cpp\<close> never configures 0), so the division of the rate
  computation is defined.
\<close>

subsection \<open>Stateless checks\<close>

definition check_dlc_anomaly :: "can_frame \<Rightarrow> can_alert option" where
  "check_dlc_anomaly f =
     (if f_err f \<or> f_rtr f then None
      else if \<not> f_fd f \<and> f_dlc f > 8 then Some (make_alert DT_DLC_ANOMALY f 1)
      else if f_fd f \<and> f_dlc f > 64 then Some (make_alert DT_DLC_ANOMALY f 2)
      else None)"

definition check_remote_frame :: "can_frame \<Rightarrow> can_alert option" where
  "check_remote_frame f =
     (if \<not> f_rtr f \<or> f_err f then None else Some (make_alert DT_REMOTE_FRAME f 0))"

subsection \<open>Unknown identifiers and cycle times\<close>

type_synonym unknown_id = "u32 list"

text \<open>The known identifiers, a set kept as a list without duplicates.\<close>

definition add_known :: "u32 \<Rightarrow> unknown_id \<Rightarrow> unknown_id" where
  "add_known i known = List.insert i known"

definition unknown_enabled :: "unknown_id \<Rightarrow> bool" where
  "unknown_enabled known \<longleftrightarrow> known \<noteq> []"

definition UnknownId_feed :: "can_frame \<Rightarrow> unknown_id \<Rightarrow> can_alert option" where
  "UnknownId_feed f known =
     (if f_can_id f \<notin> set known then Some (make_alert DT_UNKNOWN_ID f 0) else None)"

record cycle_state =
  cy_min_ms :: u32
  cy_seen :: bool
  cy_last_ms :: u64
  cy_muted_until :: u64

definition cycle_fresh :: cycle_state where
  "cycle_fresh = \<lparr> cy_min_ms = 0, cy_seen = False, cy_last_ms = 0, cy_muted_until = 0 \<rparr>"

record cycle_det =
  cd_cooldown_ms :: u32
  cd_ids :: "u32 \<rightharpoonup> cycle_state"

definition add_min_interval :: "u32 \<Rightarrow> u32 \<Rightarrow> cycle_det \<Rightarrow> cycle_det" where
  "add_min_interval i ms d = d\<lparr>cd_ids := (cd_ids d)(i \<mapsto>
     (case cd_ids d i of Some st \<Rightarrow> st | None \<Rightarrow> cycle_fresh)\<lparr>cy_min_ms := ms\<rparr>)\<rparr>"

definition Cycle_feed :: "can_frame \<Rightarrow> u64 \<Rightarrow> cycle_det \<Rightarrow> can_alert option \<times> cycle_det" where
  "Cycle_feed f now_ms d = (case cd_ids d (f_can_id f) of
     None \<Rightarrow> (None, d)
   | Some st \<Rightarrow>
       let interval = now_ms - cy_last_ms st;
           fire = (cy_seen st \<and> now_ms \<ge> cy_last_ms st \<and>
                   interval < ucast (cy_min_ms st) \<and> now_ms \<ge> cy_muted_until st);
           alert = (if fire then Some ((make_alert DT_CYCLE_ANOMALY f (ucast interval))\<lparr>a_count := 1\<rparr>)
                    else None);
           st = (if fire then st\<lparr>cy_muted_until := now_ms + ucast (cd_cooldown_ms d)\<rparr> else st)
       in (alert, d\<lparr>cd_ids := (cd_ids d)(f_can_id f \<mapsto> st\<lparr>cy_seen := True, cy_last_ms := now_ms\<rparr>)\<rparr>))"

subsection \<open>Floods\<close>

record flood_cfg =
  fl_window_ms :: u32
  fl_threshold :: u32

text \<open>\<open>IdFloodDetector\<close> and \<open>DiagFloodDetector\<close>: one window per identifier.\<close>

record keyed_flood =
  kf_cfg :: flood_cfg
  kf_ids :: "u32 \<rightharpoonup> window_state"

text \<open>\<open>BusFloodDetector\<close> and \<open>ErrorBurstDetector\<close>: one window.\<close>

record single_flood =
  sf_cfg :: flood_cfg
  sf_state :: window_state

definition kf_slot :: "keyed_flood \<Rightarrow> u32 \<Rightarrow> window_state" where
  "kf_slot d i = (case kf_ids d i of Some st \<Rightarrow> st | None \<Rightarrow> fresh_window)"

definition fps :: "u32 \<Rightarrow> u32 \<Rightarrow> u32" where
  "fps count window_ms = count * 1000 div window_ms"

definition IdFlood_feed :: "can_frame \<Rightarrow> u64 \<Rightarrow> keyed_flood \<Rightarrow> can_alert option \<times> keyed_flood" where
  "IdFlood_feed f now_ms d =
     (if f_err f then (None, d)
      else let (hit, st) = tumble (fl_window_ms (kf_cfg d)) (fl_threshold (kf_cfg d)) now_ms
                             (kf_slot d (f_can_id f));
               d = d\<lparr>kf_ids := (kf_ids d)(f_can_id f \<mapsto> st)\<rparr>
           in (if hit then Some ((make_alert DT_ID_FLOOD f (fps (w_count st) (fl_window_ms (kf_cfg d))))
                                 \<lparr>a_count := w_count st\<rparr>)
               else None, d))"

definition DiagFlood_feed :: "can_frame \<Rightarrow> u64 \<Rightarrow> keyed_flood \<Rightarrow> can_alert option \<times> keyed_flood" where
  "DiagFlood_feed f now_ms d =
     (let (hit, st) = tumble (fl_window_ms (kf_cfg d)) (fl_threshold (kf_cfg d)) now_ms
                        (kf_slot d (f_can_id f));
          d = d\<lparr>kf_ids := (kf_ids d)(f_can_id f \<mapsto> st)\<rparr>
      in (if hit then Some ((make_alert DT_DIAG_FLOOD f (fps (w_count st) (fl_window_ms (kf_cfg d))))
                            \<lparr>a_count := w_count st\<rparr>)
          else None, d))"

definition BusFlood_feed :: "can_frame \<Rightarrow> u64 \<Rightarrow> single_flood \<Rightarrow> can_alert option \<times> single_flood" where
  "BusFlood_feed f now_ms d =
     (let (hit, st) = tumble (fl_window_ms (sf_cfg d)) (fl_threshold (sf_cfg d)) now_ms (sf_state d);
          d = d\<lparr>sf_state := st\<rparr>
      in (if hit then Some ((make_alert DT_BUS_FLOOD empty_frame
                               (fps (w_count st) (fl_window_ms (sf_cfg d))))\<lparr>a_count := w_count st\<rparr>)
          else None, d))"

definition ErrorBurst_feed :: "can_frame \<Rightarrow> u64 \<Rightarrow> single_flood \<Rightarrow> can_alert option \<times> single_flood" where
  "ErrorBurst_feed f now_ms d =
     (let (hit, st) = tumble (fl_window_ms (sf_cfg d)) (fl_threshold (sf_cfg d)) now_ms (sf_state d);
          d = d\<lparr>sf_state := st\<rparr>
      in (if hit then Some ((make_alert DT_ERROR_BURST empty_frame (w_count st))\<lparr>a_count := w_count st\<rparr>)
          else None, d))"

subsection \<open>UDS SecurityAccess and service scan\<close>

record sec_cfg =
  sc_window_ms :: u32
  sc_seed_threshold :: u32
  sc_key_threshold :: u32

record sec_state =
  ss_window_start :: u64
  ss_seeds :: u32
  ss_keys :: u32
  ss_seed_alerted :: bool
  ss_key_alerted :: bool

definition sec_fresh :: sec_state where
  "sec_fresh = \<lparr> ss_window_start = 0, ss_seeds = 0, ss_keys = 0, ss_seed_alerted = False,
     ss_key_alerted = False \<rparr>"

record sec_det =
  sd_cfg :: sec_cfg
  sd_testers :: "u32 \<rightharpoonup> sec_state"

definition sec_open :: "u32 \<Rightarrow> u64 \<Rightarrow> sec_state \<Rightarrow> sec_state" where
  "sec_open window_ms now_ms st0 =
     (let st = (if ss_window_start st0 = 0 then st0\<lparr>ss_window_start := now_ms\<rparr> else st0) in
      if now_ms - ss_window_start st \<ge> ucast window_ms
      then sec_fresh\<lparr>ss_window_start := now_ms\<rparr> else st)"

definition SecAccess_feed :: "can_frame \<Rightarrow> u64 \<Rightarrow> sec_det \<Rightarrow> can_alert option \<times> sec_det" where
  "SecAccess_feed f now_ms d =
     (if f_len f < 2 \<or> f_data f ! 0 \<noteq> 0x27 then (None, d)
      else let subfn = f_data f ! 1 AND 0x7F;
               st = sec_open (sc_window_ms (sd_cfg d)) now_ms
                      (case sd_testers d (f_can_id f) of Some st \<Rightarrow> st | None \<Rightarrow> sec_fresh);
               (alert, st) =
                 (if subfn mod 2 = 1
                  then let st = st\<lparr>ss_seeds := ss_seeds st + 1\<rparr> in
                    if ss_seeds st \<ge> sc_seed_threshold (sd_cfg d) \<and> \<not> ss_seed_alerted st
                    then (Some ((make_alert DT_UDS_SEC_ACCESS f 1)\<lparr>a_count := ss_seeds st\<rparr>),
                          st\<lparr>ss_seed_alerted := True\<rparr>)
                    else (None, st)
                  else let st = st\<lparr>ss_keys := ss_keys st + 1\<rparr> in
                    if ss_keys st \<ge> sc_key_threshold (sd_cfg d) \<and> \<not> ss_key_alerted st
                    then (Some ((make_alert DT_UDS_SEC_ACCESS f 2)\<lparr>a_count := ss_keys st\<rparr>),
                          st\<lparr>ss_key_alerted := True\<rparr>)
                    else (None, st))
           in (alert, d\<lparr>sd_testers := (sd_testers d)(f_can_id f \<mapsto> st)\<rparr>))"

record scan_state =
  sn_window_start :: u64
  sn_sids :: "u8 list"
  sn_alerted :: bool

definition scan_fresh :: scan_state where
  "scan_fresh = \<lparr> sn_window_start = 0, sn_sids = [], sn_alerted = False \<rparr>"

record scan_det =
  nd_cfg :: flood_cfg
  nd_testers :: "u32 \<rightharpoonup> scan_state"

definition scan_open :: "u32 \<Rightarrow> u64 \<Rightarrow> scan_state \<Rightarrow> scan_state" where
  "scan_open window_ms now_ms st0 =
     (let st = (if sn_window_start st0 = 0 then st0\<lparr>sn_window_start := now_ms\<rparr> else st0) in
      if now_ms - sn_window_start st \<ge> ucast window_ms
      then \<lparr> sn_window_start = now_ms, sn_sids = [], sn_alerted = False \<rparr> else st)"

text \<open>The set of service identifiers is a list without duplicates, so its size is the length.\<close>

definition SvcScan_feed :: "can_frame \<Rightarrow> u64 \<Rightarrow> scan_det \<Rightarrow> can_alert option \<times> scan_det" where
  "SvcScan_feed f now_ms d =
     (if f_len f < 1 then (None, d)
      else let st = scan_open (fl_window_ms (nd_cfg d)) now_ms
                      (case nd_testers d (f_can_id f) of Some st \<Rightarrow> st | None \<Rightarrow> scan_fresh);
               st = st\<lparr>sn_sids := List.insert (f_data f ! 0) (sn_sids st)\<rparr>;
               n = (of_nat (length (sn_sids st)) :: u32);
               (alert, st) =
                 (if length (sn_sids st) \<ge> unat (fl_threshold (nd_cfg d)) \<and> \<not> sn_alerted st
                  then (Some ((make_alert DT_UDS_SVC_SCAN f n)\<lparr>a_count := n\<rparr>), st\<lparr>sn_alerted := True\<rparr>)
                  else (None, st))
           in (alert, d\<lparr>nd_testers := (nd_testers d)(f_can_id f \<mapsto> st)\<rparr>))"

subsection \<open>The flood detectors are counting windows\<close>

interpretation id_flood: tumbling_window IdFlood_feed kf_slot f_can_id "\<lambda>f. \<not> f_err f" a_count
  "fl_window_ms cfg" "fl_threshold cfg" "\<lambda>d. kf_cfg d = cfg" for cfg
  by unfold_locales
    (auto simp: IdFlood_feed_def kf_slot_def Let_def split_def split: option.splits if_splits)

interpretation diag_flood: tumbling_window DiagFlood_feed kf_slot f_can_id "\<lambda>_. True" a_count
  "fl_window_ms cfg" "fl_threshold cfg" "\<lambda>d. kf_cfg d = cfg" for cfg
  by unfold_locales
    (auto simp: DiagFlood_feed_def kf_slot_def Let_def split_def split: option.splits if_splits)

interpretation bus_flood: tumbling_window BusFlood_feed "\<lambda>d _. sf_state d" "\<lambda>_. ()" "\<lambda>_. True"
  a_count "fl_window_ms cfg" "fl_threshold cfg" "\<lambda>d. sf_cfg d = cfg" for cfg
  by unfold_locales
    (auto simp: BusFlood_feed_def Let_def split_def split: if_splits)

interpretation err_burst: tumbling_window ErrorBurst_feed "\<lambda>d _. sf_state d" "\<lambda>_. ()" "\<lambda>_. True"
  a_count "fl_window_ms cfg" "fl_threshold cfg" "\<lambda>d. sf_cfg d = cfg" for cfg
  by unfold_locales
    (auto simp: ErrorBurst_feed_def Let_def split_def split: if_splits)

definition id_flood_start :: "flood_cfg \<Rightarrow> keyed_flood" where
  "id_flood_start cfg = \<lparr> kf_cfg = cfg, kf_ids = (\<lambda>_. None) \<rparr>"

definition bus_flood_start :: "flood_cfg \<Rightarrow> single_flood" where
  "bus_flood_start cfg = \<lparr> sf_cfg = cfg, sf_state = fresh_window \<rparr>"

definition set_flood_config :: "flood_cfg \<Rightarrow> keyed_flood \<Rightarrow> keyed_flood" where
  "set_flood_config cfg d = d\<lparr>kf_cfg := cfg\<rparr>"

subsection \<open>Properties\<close>

text \<open>
  C22: the per-identifier flood detector. Starting without state, in any sequence of frames in time
  order inside one window, a frame raises an alert exactly when it is no error frame and it is the
  n-th frame of its identifier, where n is the threshold (or 1 for the threshold 0); so there is at
  most one alert per identifier and window, whatever frames of other identifiers come in between,
  and it carries the count n.
\<close>

theorem id_flood_alerts_once:
  assumes "timed_within (fl_window_ms cfg) t0 (frames @ [(f, t)])"
    and "d = snd (run (\<lambda>d (f, t). IdFlood_feed f t d) (id_flood_start cfg) frames)"
    and "n = length (filter (\<lambda>(g, t). \<not> f_err g \<and> f_can_id g = f_can_id f) (frames @ [(f, t)]))"
  shows "(fst (IdFlood_feed f t d) \<noteq> None \<longleftrightarrow> \<not> f_err f \<and> n = max 1 (unat (fl_threshold cfg))) \<and>
     (\<forall>a. fst (IdFlood_feed f t d) = Some a \<longrightarrow> unat (a_count a) = n \<and> a_can_id a = f_can_id f)"
proof -
  have start: "kf_cfg (id_flood_start cfg) = cfg" "kf_slot (id_flood_start cfg) k = fresh_window" for k
    by (simp_all add: id_flood_start_def kf_slot_def)
  note al = id_flood.alert_exactly_at_threshold [OF start assms(1)]
  have d: "d = snd (id_flood.feeds (id_flood_start cfg) frames)"
    using assms(2) by (simp add: id_flood.feeds_def)
  have iff: "fst (IdFlood_feed f t d) \<noteq> None \<longleftrightarrow> \<not> f_err f \<and> n = max 1 (unat (fl_threshold cfg))"
    using al(1) unfolding d hits_of_def assms(3) .
  have "a_can_id a = f_can_id f" if "fst (IdFlood_feed f t d) = Some a" for a
    using that by (auto simp: IdFlood_feed_def make_alert_def Let_def split_def split: if_splits)
  moreover have "unat (a_count a) = n" if "fst (IdFlood_feed f t d) = Some a" for a
    using al(2) [of a] that iff by (simp add: d)
  ultimately show ?thesis using iff by blast
qed

lemma id_flood_alerts_once_witness:
  "fst (IdFlood_feed empty_frame 12
     (snd (run (\<lambda>d (f, t). IdFlood_feed f t d)
        (id_flood_start \<lparr> fl_window_ms = 10, fl_threshold = 3 \<rparr>)
        [(empty_frame, 5), (empty_frame\<lparr>f_can_id := 9\<rparr>, 6), (empty_frame, 7)]))) \<noteq> None"
  using id_flood_alerts_once [of "\<lparr> fl_window_ms = 10, fl_threshold = 3 \<rparr>" 5
      "[(empty_frame, 5), (empty_frame\<lparr>f_can_id := 9\<rparr>, 6), (empty_frame, 7)]" empty_frame 12, OF _ refl refl]
  by (simp add: timed_within_def in_window_def empty_frame_def)

end
