(* ===== verification/Can_Pipeline.thy ===== *)
theory Can_Pipeline
  imports Can_Detectors
begin

text \<open>
  \<open>apps/can_probe/pipeline.cpp\<close> and the pcap reader of \<open>capture.cpp\<close>: the order of the detectors, the
  whitelist file, and the offline source of frames. A frame gives the list of alerts in the order in
  which the callback gets them. A file is its list of lines or its bytes; the little-endian host of
  \<open>Can_Frame\<close> applies to the reader as well.
\<close>

subsection \<open>The pipeline\<close>

record can_pipeline =
  p_unknown :: unknown_id
  p_cycle :: cycle_det
  p_id_flood :: keyed_flood
  p_bus_flood :: single_flood
  p_err_burst :: single_flood
  p_diag_flood :: keyed_flood
  p_sec_access :: sec_det
  p_svc_scan :: scan_det

definition can_start :: can_pipeline where
  "can_start = \<lparr>
     p_unknown = [],
     p_cycle = \<lparr> cd_cooldown_ms = 60000, cd_ids = (\<lambda>_. None) \<rparr>,
     p_id_flood = \<lparr> kf_cfg = \<lparr> fl_window_ms = 1000, fl_threshold = 100 \<rparr>, kf_ids = (\<lambda>_. None) \<rparr>,
     p_bus_flood = \<lparr> sf_cfg = \<lparr> fl_window_ms = 1000, fl_threshold = 1000 \<rparr>, sf_state = fresh_window \<rparr>,
     p_err_burst = \<lparr> sf_cfg = \<lparr> fl_window_ms = 1000, fl_threshold = 20 \<rparr>, sf_state = fresh_window \<rparr>,
     p_diag_flood = \<lparr> kf_cfg = \<lparr> fl_window_ms = 1000, fl_threshold = 50 \<rparr>, kf_ids = (\<lambda>_. None) \<rparr>,
     p_sec_access = \<lparr> sd_cfg = \<lparr> sc_window_ms = 60000, sc_seed_threshold = 5, sc_key_threshold = 5 \<rparr>,
                      sd_testers = (\<lambda>_. None) \<rparr>,
     p_svc_scan = \<lparr> nd_cfg = \<lparr> fl_window_ms = 10000, fl_threshold = 8 \<rparr>, nd_testers = (\<lambda>_. None) \<rparr> \<rparr>"

definition emit_alert :: "can_alert option \<Rightarrow> can_alert list" where
  "emit_alert a = (case a of Some x \<Rightarrow> [x] | None \<Rightarrow> [])"

lemma emit_alert_simps [simp]:
  "emit_alert None = []" "emit_alert (Some a) = [a]" "a \<in> set (emit_alert r) \<longleftrightarrow> r = Some a"
  by (auto simp: emit_alert_def split: option.split)

text \<open>The diagnostics path, for a diagnostic request.\<close>

definition feed_diag :: "can_frame \<Rightarrow> u64 \<Rightarrow> can_pipeline \<Rightarrow> can_alert list \<times> can_pipeline" where
  "feed_diag f now_ms p = (let
     (a1, df) = DiagFlood_feed f now_ms (p_diag_flood p);
     (a2, sa) = SecAccess_feed f now_ms (p_sec_access p);
     (a3, sn) = SvcScan_feed f now_ms (p_svc_scan p)
     in (emit_alert a1 @ emit_alert a2 @ emit_alert a3,
         p\<lparr>p_diag_flood := df, p_sec_access := sa, p_svc_scan := sn\<rparr>))"

definition feed_data :: "can_frame \<Rightarrow> u64 \<Rightarrow> can_pipeline \<Rightarrow> can_alert list \<times> can_pipeline" where
  "feed_data f now_ms p = (let
     a0 = (if unknown_enabled (p_unknown p) \<and> \<not> is_diag_request_id (f_can_id f) \<and>
              \<not> is_diag_response_id (f_can_id f)
           then UnknownId_feed f (p_unknown p) else None);
     (a1, cy) = Cycle_feed f now_ms (p_cycle p);
     (a2, idf) = IdFlood_feed f now_ms (p_id_flood p);
     (a3, bf) = BusFlood_feed f now_ms (p_bus_flood p);
     p = p\<lparr>p_cycle := cy, p_id_flood := idf, p_bus_flood := bf\<rparr>;
     (as, p) = (if is_diag_request_id (f_can_id f) then feed_diag f now_ms p else ([], p))
     in (emit_alert a0 @ emit_alert a1 @ emit_alert a2 @ emit_alert a3 @ as, p))"

definition feed_frame :: "can_frame \<Rightarrow> u64 \<Rightarrow> can_pipeline \<Rightarrow> can_alert list \<times> can_pipeline" where
  "feed_frame f now_ms p =
     (if f_err f
      then let (a, eb) = ErrorBurst_feed f now_ms (p_err_burst p) in
        (emit_alert a, p\<lparr>p_err_burst := eb\<rparr>)
      else let dlc = emit_alert (check_dlc_anomaly f) in
        if f_rtr f then (dlc @ emit_alert (check_remote_frame f), p)
        else let (as, p) = feed_data f now_ms p in (dlc @ as, p))"

definition feed_raw ::
  "bytes option \<Rightarrow> nat \<Rightarrow> u64 \<Rightarrow> can_pipeline \<Rightarrow> (can_alert list \<times> can_pipeline) option" where
  "feed_raw data len now_ms p = do {
     r \<leftarrow> parse_can_frame data len;
     Some (case r of None \<Rightarrow> ([], p) | Some f \<Rightarrow> feed_frame f now_ms p) }"

subsection \<open>The whitelist file\<close>

text \<open>One line: the number of skipped entries it adds, and the pipeline after it.\<close>

definition load_line :: "string \<Rightarrow> can_pipeline \<Rightarrow> nat \<times> can_pipeline" where
  "load_line line p = (case tokens (takeWhile (\<lambda>c. c \<noteq> CHR ''#'') line) of
     [] \<Rightarrow> (0, p)
   | id_tok # rest \<Rightarrow>
       let (i, left) = strtoul 16 id_tok in
       if left \<noteq> [] \<or> i > 0x1FFFFFFF then (1, p)
       else let p = p\<lparr>p_unknown := add_known (of_nat i) (p_unknown p)\<rparr> in
         case rest of
           [] \<Rightarrow> (0, p)
         | min_tok # _ \<Rightarrow>
             let (ms, left) = strtoul 10 min_tok in
             if left \<noteq> [] \<or> ms = 0 then (1, p)
             else (0, p\<lparr>p_cycle := add_min_interval (of_nat i) (of_nat ms) (p_cycle p)\<rparr>))"

fun load_lines :: "string list \<Rightarrow> nat \<times> can_pipeline \<Rightarrow> nat \<times> can_pipeline" where
  "load_lines [] acc = acc"
| "load_lines (l # ls) acc =
     (let (k, p) = load_line l (snd acc) in load_lines ls (fst acc + k, p))"

text \<open>\<open>file\<close> is \<open>None\<close> when the file cannot be opened; the result is the skipped count.\<close>

definition load_ids :: "string list option \<Rightarrow> can_pipeline \<Rightarrow> nat option \<times> can_pipeline" where
  "load_ids file p = (case file of None \<Rightarrow> (None, p)
     | Some ls \<Rightarrow> let (k, p) = load_lines ls (0, p) in (Some k, p))"

subsection \<open>The pcap reader\<close>

definition bswap32 :: "u32 \<Rightarrow> u32" where
  "bswap32 x = be32 (byte0 x) (byte1 x) (byte2 x) (byte3 x)"

definition pcap_rd32 :: "bool \<Rightarrow> bytes \<Rightarrow> nat \<Rightarrow> u32" where
  "pcap_rd32 swap p i = (let v = be32 (p ! (i + 3)) (p ! (i + 2)) (p ! (i + 1)) (p ! i) in
     if swap then bswap32 v else v)"

definition record_ts_ms :: "bool \<Rightarrow> u32 \<Rightarrow> u32 \<Rightarrow> u64" where
  "record_ts_ms nano ts_sec ts_frac =
     ucast ts_sec * 1000 + ucast (ts_frac div (if nano then 1000000 else 1000))"

text \<open>
  The record loop: the remaining file, the first time stamp so far, and whether the file ended
  normally together with the frames that were delivered, each with its relative time.
\<close>

function replay_records :: "bool \<Rightarrow> bool \<Rightarrow> bytes \<Rightarrow> u64 \<Rightarrow> bool \<times> (bytes \<times> u64) list" where
  "replay_records swap nano file first_ts_ms =
     (if length file < 16 then (True, [])
      else let ts_sec = pcap_rd32 swap file 0; ts_frac = pcap_rd32 swap file 4;
               incl = pcap_rd32 swap file 8; rest = drop 16 file in
        if incl > 16 * 1024 * 1024 then (False, [])
        else if length rest < unat incl then (True, [])
        else let ts_ms = record_ts_ms nano ts_sec ts_frac;
                 first = (if first_ts_ms = 0 then ts_ms else first_ts_ms);
                 (ok, fs) = replay_records swap nano (drop (unat incl) rest) first
             in (ok, (take (unat incl) rest, ts_ms - first) # fs))"
  by pat_completeness auto
termination
  by (relation "measure (\<lambda>(swap, nano, file, first). length file)") auto

declare replay_records.simps [simp del]

definition replay_pcap :: "bytes option \<Rightarrow> bool \<times> (bytes \<times> u64) list" where
  "replay_pcap file = (case file of
     None \<Rightarrow> (False, [])
   | Some bs \<Rightarrow>
       if length bs < 24 then (False, [])
       else let magic = pcap_rd32 False bs 0; swap = (magic = 0xD4C3B2A1 \<or> magic = 0x4D3CB2A1) in
         if \<not> swap \<and> magic \<noteq> 0xA1B2C3D4 \<and> magic \<noteq> 0xA1B23C4D then (False, [])
         else if pcap_rd32 swap bs 20 \<noteq> 227 then (False, [])
         else replay_records swap (magic = 0xA1B23C4D \<or> magic = 0x4D3CB2A1) (drop 24 bs) 0)"

subsection \<open>Routing\<close>

lemma make_alert_type [simp]: "a_detector_type (make_alert dt f aux) = dt"
  by (simp add: make_alert_def)

lemma feed_types:
  "fst (IdFlood_feed f t d1) = Some a \<Longrightarrow> a_detector_type a = DT_ID_FLOOD"
  "fst (DiagFlood_feed f t d1) = Some a \<Longrightarrow> a_detector_type a = DT_DIAG_FLOOD"
  "fst (BusFlood_feed f t d2) = Some a \<Longrightarrow> a_detector_type a = DT_BUS_FLOOD"
  "fst (ErrorBurst_feed f t d2) = Some a \<Longrightarrow> a_detector_type a = DT_ERROR_BURST"
  "fst (Cycle_feed f t d3) = Some a \<Longrightarrow> a_detector_type a = DT_CYCLE_ANOMALY"
  "fst (SecAccess_feed f t d4) = Some a \<Longrightarrow> a_detector_type a = DT_UDS_SEC_ACCESS"
  "fst (SvcScan_feed f t d5) = Some a \<Longrightarrow> a_detector_type a = DT_UDS_SVC_SCAN"
  by (auto simp: IdFlood_feed_def DiagFlood_feed_def BusFlood_feed_def ErrorBurst_feed_def
      Cycle_feed_def SecAccess_feed_def SvcScan_feed_def Let_def split_def
      split: if_splits option.splits)

lemma no_unknown_alerts:
  "DT_UNKNOWN_ID \<notin> a_detector_type ` set (emit_alert (fst (IdFlood_feed f t d1)))"
  "DT_UNKNOWN_ID \<notin> a_detector_type ` set (emit_alert (fst (DiagFlood_feed f t d1)))"
  "DT_UNKNOWN_ID \<notin> a_detector_type ` set (emit_alert (fst (BusFlood_feed f t d2)))"
  "DT_UNKNOWN_ID \<notin> a_detector_type ` set (emit_alert (fst (Cycle_feed f t d3)))"
  "DT_UNKNOWN_ID \<notin> a_detector_type ` set (emit_alert (fst (SecAccess_feed f t d4)))"
  "DT_UNKNOWN_ID \<notin> a_detector_type ` set (emit_alert (fst (SvcScan_feed f t d5)))"
  by (auto simp: idsm_defs dest!: feed_types)

lemma feed_data_unknown:
  "DT_UNKNOWN_ID \<in> a_detector_type ` set (fst (feed_data f t p)) \<longleftrightarrow>
     unknown_enabled (p_unknown p) \<and> \<not> is_diag_request_id (f_can_id f) \<and>
     \<not> is_diag_response_id (f_can_id f) \<and> f_can_id f \<notin> set (p_unknown p)"
  by (simp add: feed_data_def feed_diag_def Let_def split_def image_Un no_unknown_alerts)
    (simp add: UnknownId_feed_def)

lemma feed_data_frame:
  "p_unknown (snd (feed_data f t p)) = p_unknown p"
  "p_err_burst (snd (feed_data f t p)) = p_err_burst p"
  "\<not> is_diag_request_id (f_can_id f) \<Longrightarrow>
     p_diag_flood (snd (feed_data f t p)) = p_diag_flood p \<and>
     p_sec_access (snd (feed_data f t p)) = p_sec_access p \<and>
     p_svc_scan (snd (feed_data f t p)) = p_svc_scan p"
  by (simp_all add: feed_data_def feed_diag_def Let_def split_def)

text \<open>
  C23: the routing of a frame. An error frame reaches only the error-burst detector. A remote frame
  gives exactly one alert, the remote-frame alert, and changes no detector. Any other frame leaves
  the error-burst detector alone, reaches the diagnostics detectors only when its identifier is a
  diagnostic request, and gives an unknown-identifier alert exactly when a whitelist is loaded, the
  identifier is not listed, and it is in neither of the two diagnostics ranges.
\<close>

theorem pipeline_routing:
  assumes "feed_frame f t p = (as, p')"
  shows "(f_err f \<longrightarrow> (\<forall>a \<in> set as. a_detector_type a = DT_ERROR_BURST) \<and>
       p' = p\<lparr>p_err_burst := p_err_burst p'\<rparr>) \<and>
     (\<not> f_err f \<and> f_rtr f \<longrightarrow> as = [make_alert DT_REMOTE_FRAME f 0] \<and> p' = p) \<and>
     (\<not> f_err f \<and> \<not> f_rtr f \<longrightarrow>
        p_err_burst p' = p_err_burst p \<and>
        (\<not> is_diag_request_id (f_can_id f) \<longrightarrow> p_diag_flood p' = p_diag_flood p \<and>
           p_sec_access p' = p_sec_access p \<and> p_svc_scan p' = p_svc_scan p) \<and>
        (DT_UNKNOWN_ID \<in> a_detector_type ` set as \<longleftrightarrow>
           p_unknown p \<noteq> [] \<and> f_can_id f \<notin> set (p_unknown p) \<and>
           \<not> is_diag_request_id (f_can_id f) \<and> \<not> is_diag_response_id (f_can_id f)))"
proof -
  consider "f_err f" | "\<not> f_err f" "f_rtr f" | "\<not> f_err f" "\<not> f_rtr f" by blast
  then show ?thesis
  proof cases
    case 1
    then show ?thesis
      using assms feed_types(4) [of f t "p_err_burst p"]
      by (auto simp: feed_frame_def Let_def split_def)
  next
    case 2
    then show ?thesis
      using assms by (simp add: feed_frame_def check_dlc_anomaly_def check_remote_frame_def)
  next
    case 3
    have dlc: "DT_UNKNOWN_ID \<notin> a_detector_type ` set (emit_alert (check_dlc_anomaly f))"
      by (auto simp: check_dlc_anomaly_def idsm_defs split: if_splits)
    have as: "as = emit_alert (check_dlc_anomaly f) @ fst (feed_data f t p)"
        "p' = snd (feed_data f t p)"
      using assms 3 by (auto simp: feed_frame_def Let_def split_def)
    have "DT_UNKNOWN_ID \<in> a_detector_type ` set as \<longleftrightarrow>
        DT_UNKNOWN_ID \<in> a_detector_type ` set (fst (feed_data f t p))"
      using dlc by (auto simp: as(1))
    then show ?thesis
      using 3 feed_data_frame [of f t p] feed_data_unknown [of f t p]
      by (auto simp: as(2) unknown_enabled_def)
  qed
qed

lemma pipeline_routing_witness:
  "fst (feed_frame (empty_frame\<lparr>f_rtr := True\<rparr>) 5 can_start) =
     [make_alert DT_REMOTE_FRAME (empty_frame\<lparr>f_rtr := True\<rparr>) 0]"
  using pipeline_routing [of "empty_frame\<lparr>f_rtr := True\<rparr>" 5 can_start
      "fst (feed_frame (empty_frame\<lparr>f_rtr := True\<rparr>) 5 can_start)"
      "snd (feed_frame (empty_frame\<lparr>f_rtr := True\<rparr>) 5 can_start)"]
  by (simp add: empty_frame_def)

subsection \<open>The cycle-time detector\<close>

definition cycle_run :: "cycle_det \<Rightarrow> (can_frame \<times> u64) list \<Rightarrow> can_alert option list \<times> cycle_det" where
  "cycle_run = run (\<lambda>d (f, t). Cycle_feed f t d)"

lemma cycle_feed_other:
  "f_can_id f \<noteq> i \<Longrightarrow> cd_ids (snd (Cycle_feed f t d)) i = cd_ids d i"
  "cd_cooldown_ms (snd (Cycle_feed f t d)) = cd_cooldown_ms d"
  by (auto simp: Cycle_feed_def Let_def split: option.split)

lemma cycle_muted_run:
  assumes "cd_ids d i = Some st" "\<forall>(f, t) \<in> set evs. t < cy_muted_until st"
  shows "\<forall>(r, (f, t)) \<in> set (zip (fst (cycle_run d evs)) evs). f_can_id f = i \<longrightarrow> r = None"
  using assms
proof (induction evs arbitrary: d st)
  case (Cons e evs)
  obtain f t where e: "e = (f, t)" by (cases e)
  have t: "t < cy_muted_until st" using Cons.prems by (auto simp: e)
  have none: "f_can_id f = i \<Longrightarrow> fst (Cycle_feed f t d) = None"
    using Cons.prems(1) t by (simp add: Cycle_feed_def Let_def not_le)
  obtain st' where st': "cd_ids (snd (Cycle_feed f t d)) i = Some st'"
      "cy_muted_until st' = cy_muted_until st"
  proof (cases "f_can_id f = i")
    case True
    then show ?thesis
      using that Cons.prems(1) t [folded not_le] by (auto simp: Cycle_feed_def Let_def)
  next
    case False
    then show ?thesis using that Cons.prems(1) by (simp add: cycle_feed_other)
  qed
  have "\<forall>(r, (f, t)) \<in> set (zip (fst (cycle_run (snd (Cycle_feed f t d)) evs)) evs).
      f_can_id f = i \<longrightarrow> r = None"
    using Cons.prems(2) st' by (intro Cons.IH [OF st'(1)]) auto
  then show ?case
    using none by (auto simp: cycle_run_def e Let_def split_def)
qed (simp add: cycle_run_def)

text \<open>
  After a cycle-time alert for an identifier, no frame of that identifier raises another one
  before the cooldown has passed, whatever frames arrive and in whatever order, as long as the 64-bit
  clock does not wrap in the meantime.
\<close>

lemma cycle_alert_muted:
  assumes "fst (Cycle_feed f t d) \<noteq> None"
    and "unat t + unat (cd_cooldown_ms d) < 2 ^ 64"
    and "\<forall>(g, u) \<in> set evs. unat u < unat t + unat (cd_cooldown_ms d)"
  shows "\<forall>(r, (g, u)) \<in> set (zip (fst (cycle_run (snd (Cycle_feed f t d)) evs)) evs).
     f_can_id g = f_can_id f \<longrightarrow> r = None"
proof -
  have sum: "unat (t + ucast (cd_cooldown_ms d)) = unat t + unat (cd_cooldown_ms d)"
    using assms(2) by (simp add: unat_word_ariths)
  obtain st where "cd_ids (snd (Cycle_feed f t d)) (f_can_id f) = Some st"
      "cy_muted_until st = t + ucast (cd_cooldown_ms d)"
    using assms(1) by (auto simp: Cycle_feed_def Let_def split: option.splits if_splits)
  then show ?thesis
    using assms(3) by (intro cycle_muted_run) (auto simp: word_less_nat_alt sum)
qed

definition cycle_sample :: cycle_det where
  "cycle_sample = \<lparr> cd_cooldown_ms = 100, cd_ids = (\<lambda>_. None)(0 \<mapsto>
     \<lparr> cy_min_ms = 10, cy_seen = True, cy_last_ms = 50, cy_muted_until = 0 \<rparr>) \<rparr>"

subsection \<open>The first frame of a replay\<close>

text \<open>
  A start of 0 means that no window is open, but the reader of pcap files gives the first frame
  the time 0. The window of that first frame therefore never expires: with a threshold of 2, the
  next frame of the identifier raises the alert however much later it comes, even many windows
  later.
\<close>

theorem first_frame_window_never_expires:
  assumes "fl_threshold cfg = 2" and "0 < fl_window_ms cfg" and "\<not> f_err f" and "0 < t"
  shows "fst (IdFlood_feed f t (snd (IdFlood_feed f 0 (id_flood_start cfg)))) \<noteq> None"
proof -
  have w: "\<not> ucast (fl_window_ms cfg) \<le> (0 :: u64)"
    using assms(2) by (simp add: word_le_nat_alt unat_gt_0 [symmetric] word_less_nat_alt)
  have two: "\<not> (2 :: u32) \<le> 1" by (simp add: word_le_nat_alt)
  have "snd (IdFlood_feed f 0 (id_flood_start cfg)) =
      id_flood_start cfg\<lparr>kf_ids := (\<lambda>_. None)(f_can_id f \<mapsto>
        \<lparr> w_start = 0, w_count = 1, w_alerted = False \<rparr>)\<rparr>"
    using assms w two
    by (simp add: IdFlood_feed_def id_flood_start_def tumble_def open_window_def kf_slot_def
        fresh_window_def Let_def)
  then show ?thesis
    using assms w
    by (simp add: IdFlood_feed_def id_flood_start_def tumble_def open_window_def kf_slot_def Let_def)
qed

lemma first_frame_window_never_expires_witness:
  "fst (IdFlood_feed empty_frame 3600000
     (snd (IdFlood_feed empty_frame 0 (id_flood_start \<lparr> fl_window_ms = 1000, fl_threshold = 2 \<rparr>)))) \<noteq> None"
  by (rule first_frame_window_never_expires) (simp_all add: empty_frame_def)

subsection \<open>The pcap reader\<close>

text \<open>A little-endian capture file with microsecond stamps, as its writer lays it out.\<close>

definition le32 :: "u32 \<Rightarrow> bytes" where
  "le32 x = [byte0 x, byte1 x, byte2 x, byte3 x]"

record pcap_record =
  pr_sec :: u32
  pr_usec :: u32
  pr_orig :: u32
  pr_data :: bytes

definition pcap_record_bytes :: "pcap_record \<Rightarrow> bytes" where
  "pcap_record_bytes r = le32 (pr_sec r) @ le32 (pr_usec r) @ le32 (of_nat (length (pr_data r))) @
     le32 (pr_orig r) @ pr_data r"

definition pcap_file :: "bytes \<Rightarrow> pcap_record list \<Rightarrow> bytes" where
  "pcap_file version rs = le32 0xA1B2C3D4 @ version @ le32 227 @ concat (map pcap_record_bytes rs)"

lemma pcap_rd32_le32:
  "pcap_rd32 False (le32 x @ r) 0 = x" "length (le32 x) = 4"
  by (simp_all add: pcap_rd32_def le32_def)

lemma pcap_rd32_skip:
  "length a = k \<Longrightarrow> pcap_rd32 sw (a @ b) (k + i) = pcap_rd32 sw b i"
  by (simp add: pcap_rd32_def nth_append)

lemma pcap_header_fields:
  "pcap_rd32 False (le32 a @ le32 b @ le32 c @ le32 d @ r) 0 = a"
  "pcap_rd32 False (le32 a @ le32 b @ le32 c @ le32 d @ r) 4 = b"
  "pcap_rd32 False (le32 a @ le32 b @ le32 c @ le32 d @ r) 8 = c"
  by (simp_all add: pcap_rd32_def le32_def)

definition record_time :: "pcap_record \<Rightarrow> u64" where
  "record_time r = record_ts_ms False (pr_sec r) (pr_usec r)"

lemma replay_records_append:
  assumes "\<forall>r \<in> set rs. length (pr_data r) \<le> 16 * 1024 * 1024" "first \<noteq> 0"
  shows "replay_records False False (concat (map pcap_record_bytes rs)) first =
     (True, map (\<lambda>r. (pr_data r, record_time r - first)) rs)"
  using assms
proof (induction rs)
  case Nil
  then show ?case by (simp add: replay_records.simps)
next
  case (Cons r rs)
  let ?rest = "concat (map pcap_record_bytes rs)"
  let ?n = "of_nat (length (pr_data r)) :: u32"
  have len: "length (pr_data r) \<le> 16777216" using Cons.prems by simp
  then have n: "unat ?n = length (pr_data r)" by (simp add: unat_of_nat)
  have hdr: "concat (map pcap_record_bytes (r # rs)) =
      le32 (pr_sec r) @ le32 (pr_usec r) @ le32 ?n @ le32 (pr_orig r) @ (pr_data r @ ?rest)"
    by (simp add: pcap_record_bytes_def)
  have d16: "drop 16 (le32 (pr_sec r) @ le32 (pr_usec r) @ le32 ?n @ le32 (pr_orig r) @ (pr_data r @ ?rest))
      = pr_data r @ ?rest"
    by (simp add: le32_def)
  have big: "\<not> ?n > 16777216"
  proof -
    have "unat (16777216 :: u32) = 16777216" by simp
    then show ?thesis using len by (simp only: word_less_nat_alt n not_less)
  qed
  have IH: "replay_records False False ?rest first = (True, map (\<lambda>r. (pr_data r, record_time r - first)) rs)"
    using Cons by simp
  show ?case
    unfolding hdr
    by (subst replay_records.simps)
      (simp add: pcap_header_fields d16 big n IH Cons.prems(2) record_time_def Let_def
        pcap_rd32_le32 del: of_nat_le_iff)
qed

text \<open>
  The reader gives back a capture file exactly: for every file of records of at most 16 MB
  whose first time stamp is not 0, all records are delivered, in order and with their bytes
  unchanged, each at its time relative to the first record.
\<close>

lemma replay_delivers_file:
  assumes "length version = 16" and "\<forall>r \<in> set rs. length (pr_data r) \<le> 16 * 1024 * 1024"
    and "rs \<noteq> [] \<Longrightarrow> record_time (hd rs) \<noteq> 0"
  shows "replay_pcap (Some (pcap_file version rs)) =
     (True, map (\<lambda>r. (pr_data r, record_time r - record_time (hd rs))) rs)"
proof -
  let ?f = "pcap_file version rs" and ?rest = "concat (map pcap_record_bytes rs)"
  have magic: "pcap_rd32 False ?f 0 = 0xA1B2C3D4"
    by (simp add: pcap_file_def pcap_rd32_le32)
  have link: "pcap_rd32 False ?f 20 = 227"
    using pcap_rd32_skip [of "le32 0xA1B2C3D4 @ version" 20 False "le32 227 @ ?rest" 0] assms(1)
    by (simp add: pcap_file_def pcap_rd32_le32)
  have drop: "drop 24 ?f = ?rest" using assms(1) by (simp add: pcap_file_def le32_def)
  have len: "\<not> length ?f < 24" using assms(1) by (simp add: pcap_file_def le32_def)
  have "replay_records False False ?rest 0 =
      (True, map (\<lambda>r. (pr_data r, record_time r - record_time (hd rs))) rs)"
  proof (cases rs)
    case Nil
    then show ?thesis by (simp add: replay_records.simps)
  next
    case (Cons r rs')
    have nz: "record_time r \<noteq> 0" using assms(3) Cons by simp
    have "replay_records False False ?rest 0 = replay_records False False ?rest (record_time r)"
    proof -
      have "pcap_rd32 False ?rest 0 = pr_sec r" "pcap_rd32 False ?rest 4 = pr_usec r"
        by (simp_all add: Cons pcap_record_bytes_def pcap_header_fields)
      then show ?thesis
        using nz
        by (subst (1 2) replay_records.simps) (simp add: record_time_def Let_def)
    qed
    also have "\<dots> = (True, map (\<lambda>r'. (pr_data r', record_time r' - record_time r)) rs)"
      using assms(2) nz by (rule replay_records_append)
    finally show ?thesis by (simp add: Cons)
  qed
  then show ?thesis
    using len by (simp add: replay_pcap_def magic link drop Let_def)
qed

end
