(* ===== verification/Eth_Packet.thy ===== *)
theory Eth_Packet
  imports Idsm_Prelude
begin

text \<open>
  \<open>apps/eth_probe/packet.h\<close> and \<open>packet.cpp\<close>: the parser of one Ethernet frame down to the L4
  payload. A pointer into the caller's buffer is an offset into the byte list (\<open>None\<close> for null), so
  a parsing function takes the buffer, the offset of its part and the length of that part. The outer
  \<open>None\<close> of a function is an access outside the buffer or a \<open>size_t\<close> subtraction that would wrap;
  sizes are natural numbers, since they count bytes of a buffer in memory.
\<close>

definition IP_PROTO_ICMP :: u8 where [idsm_defs]: "IP_PROTO_ICMP = 1"
definition IP_PROTO_TCP :: u8 where [idsm_defs]: "IP_PROTO_TCP = 6"
definition IP_PROTO_UDP :: u8 where [idsm_defs]: "IP_PROTO_UDP = 17"
definition IP_PROTO_ICMPV6 :: u8 where [idsm_defs]: "IP_PROTO_ICMPV6 = 58"

definition TCP_FIN :: u8 where [idsm_defs]: "TCP_FIN = 0x01"
definition TCP_SYN :: u8 where [idsm_defs]: "TCP_SYN = 0x02"
definition TCP_RST :: u8 where [idsm_defs]: "TCP_RST = 0x04"
definition TCP_PSH :: u8 where [idsm_defs]: "TCP_PSH = 0x08"
definition TCP_ACK :: u8 where [idsm_defs]: "TCP_ACK = 0x10"
definition TCP_URG :: u8 where [idsm_defs]: "TCP_URG = 0x20"

definition ETH_P_IPV4 :: u16 where [idsm_defs]: "ETH_P_IPV4 = 0x0800"
definition ETH_P_ARP :: u16 where [idsm_defs]: "ETH_P_ARP = 0x0806"
definition ETH_P_VLAN :: u16 where [idsm_defs]: "ETH_P_VLAN = 0x8100"
definition ETH_P_QINQ :: u16 where [idsm_defs]: "ETH_P_QINQ = 0x88A8"
definition ETH_P_IPV6 :: u16 where [idsm_defs]: "ETH_P_IPV6 = 0x86DD"

definition IP6_HBH :: u8 where [idsm_defs]: "IP6_HBH = 0"
definition IP6_RT :: u8 where [idsm_defs]: "IP6_RT = 43"
definition IP6_FRAG :: u8 where [idsm_defs]: "IP6_FRAG = 44"
definition IP6_AH :: u8 where [idsm_defs]: "IP6_AH = 51"
definition IP6_DST :: u8 where [idsm_defs]: "IP6_DST = 60"

record packet =
  src_mac :: bytes
  dst_mac :: bytes
  ethertype :: u16
  vlan_tags :: nat
  is_arp :: bool
  arp_opcode :: u16
  is_ipv4 :: bool
  is_ipv6 :: bool
  src_ip :: bytes
  dst_ip :: bytes
  l4_proto :: u8
  is_fragment :: bool
  first_fragment :: bool
  frag_id :: u32
  frag_offset :: u32
  frag_more :: bool
  src_port :: u16
  dst_port :: u16
  is_tcp :: bool
  tcp_seq :: u32
  tcp_ack :: u32
  tcp_flags :: u8
  is_udp :: bool
  payload :: "nat option"
  payload_len :: nat
  l4_data :: "nat option"
  l4_len :: nat
  truncated :: bool

definition no_packet :: packet where
  "no_packet = \<lparr> src_mac = replicate 6 0, dst_mac = replicate 6 0, ethertype = 0, vlan_tags = 0,
     is_arp = False, arp_opcode = 0, is_ipv4 = False, is_ipv6 = False,
     src_ip = replicate 16 0, dst_ip = replicate 16 0, l4_proto = 0,
     is_fragment = False, first_fragment = False, frag_id = 0, frag_offset = 0, frag_more = False,
     src_port = 0, dst_port = 0, is_tcp = False, tcp_seq = 0, tcp_ack = 0, tcp_flags = 0,
     is_udp = False, payload = None, payload_len = 0, l4_data = None, l4_len = 0,
     truncated = False \<rparr>"

text \<open>\<open>memcpy\<close> of the bytes to the start of a field.\<close>

definition overlay :: "bytes \<Rightarrow> bytes \<Rightarrow> bytes" where
  "overlay dst src = src @ drop (length src) dst"

definition trunc :: "packet \<Rightarrow> packet option" where
  "trunc out = Some (out\<lparr>truncated := True\<rparr>)"

subsection \<open>ARP and L4\<close>

definition parse_arp :: "bytes \<Rightarrow> nat \<Rightarrow> nat \<Rightarrow> packet \<Rightarrow> packet option" where
  "parse_arp buf p len out =
     (if len < 8 then trunc out
      else do {
        htype \<leftarrow> rd16 buf p;
        ptype \<leftarrow> rd16 buf (p + 2);
        hlen \<leftarrow> rd8 buf (p + 4);
        plen \<leftarrow> rd8 buf (p + 5);
        opcode \<leftarrow> rd16 buf (p + 6);
        let out = out\<lparr>arp_opcode := opcode\<rparr>;
        if htype \<noteq> 1 \<or> ptype \<noteq> ETH_P_IPV4 \<or> hlen \<noteq> 6 \<or> plen \<noteq> 4 then trunc out
        else if len < 8 + 2 * (6 + 4) then trunc out
        else do {
          sha \<leftarrow> view buf (p + 8) 6;
          spa \<leftarrow> view buf (p + 14) 4;
          tha \<leftarrow> view buf (p + 18) 6;
          tpa \<leftarrow> view buf (p + 24) 4;
          Some (out\<lparr>src_mac := sha, src_ip := overlay (src_ip out) spa,
                    dst_mac := tha, dst_ip := overlay (dst_ip out) tpa\<rparr>) } })"

definition parse_tcp :: "bytes \<Rightarrow> nat \<Rightarrow> nat \<Rightarrow> packet \<Rightarrow> packet option" where
  "parse_tcp buf p len out =
     (if len < 20 then trunc out
      else do {
        sp \<leftarrow> rd16 buf p;
        dp \<leftarrow> rd16 buf (p + 2);
        sq \<leftarrow> rd32 buf (p + 4);
        ak \<leftarrow> rd32 buf (p + 8);
        b12 \<leftarrow> rd8 buf (p + 12);
        b13 \<leftarrow> rd8 buf (p + 13);
        let hdr_len = unat (drop_bit 4 b12 AND 0xF) * 4;
        let out = out\<lparr>is_tcp := True, src_port := sp, dst_port := dp, tcp_seq := sq,
                      tcp_ack := ak, tcp_flags := b13 AND 0x3F\<rparr>;
        if hdr_len < 20 \<or> hdr_len > len then trunc out
        else do {
          n \<leftarrow> size_sub len hdr_len;
          Some (out\<lparr>payload := Some (p + hdr_len), payload_len := n\<rparr>) } })"

definition parse_udp :: "bytes \<Rightarrow> nat \<Rightarrow> nat \<Rightarrow> packet \<Rightarrow> packet option" where
  "parse_udp buf p len out =
     (if len < 8 then trunc out
      else do {
        sp \<leftarrow> rd16 buf p;
        dp \<leftarrow> rd16 buf (p + 2);
        ul \<leftarrow> rd16 buf (p + 4);
        let udp_len = unat ul;
        n \<leftarrow> (if udp_len \<ge> 8 \<and> udp_len \<le> len then size_sub udp_len 8 else size_sub len 8);
        Some (out\<lparr>is_udp := True, src_port := sp, dst_port := dp,
                  payload := Some (p + 8), payload_len := n\<rparr>) })"

definition parse_icmp :: "bytes \<Rightarrow> nat \<Rightarrow> nat \<Rightarrow> packet \<Rightarrow> packet option" where
  "parse_icmp buf p len out =
     (if len < 4 then trunc out
      else do {
        ty \<leftarrow> rd8 buf p;
        code \<leftarrow> rd8 buf (p + 1);
        n \<leftarrow> size_sub len 4;
        Some (out\<lparr>src_port := ucast ty, dst_port := ucast code,
                  payload := Some (p + 4), payload_len := n\<rparr>) })"

definition parse_l4 :: "bytes \<Rightarrow> nat \<Rightarrow> nat \<Rightarrow> u8 \<Rightarrow> packet \<Rightarrow> packet option" where
  "parse_l4 buf p len proto out =
     (if proto = IP_PROTO_TCP then parse_tcp buf p len out
      else if proto = IP_PROTO_UDP then parse_udp buf p len out
      else if proto = IP_PROTO_ICMP \<or> proto = IP_PROTO_ICMPV6 then parse_icmp buf p len out
      else Some (out\<lparr>payload := Some p, payload_len := len\<rparr>))"

definition parse_l4_only :: "u8 \<Rightarrow> bytes \<Rightarrow> nat \<Rightarrow> packet \<Rightarrow> packet option" where
  "parse_l4_only proto buf len out = parse_l4 buf 0 len proto out"

subsection \<open>IPv4 and IPv6\<close>

definition parse_ipv4 :: "bytes \<Rightarrow> nat \<Rightarrow> nat \<Rightarrow> packet \<Rightarrow> packet option" where
  "parse_ipv4 buf p len out =
     (if len < 20 then trunc out
      else do {
        ver_ihl \<leftarrow> rd8 buf p;
        if drop_bit 4 ver_ihl \<noteq> 4 then trunc out
        else do {
          let ihl = unat (ver_ihl AND 0xF) * 4;
          if ihl < 20 \<or> ihl > len then trunc out
          else do {
            tl \<leftarrow> rd16 buf (p + 2);
            let total_len = unat tl;
            if total_len < ihl then trunc out
            else do {
              let ip_len = (if total_len \<le> len then total_len else len);
              fid \<leftarrow> rd16 buf (p + 4);
              flags_off \<leftarrow> rd16 buf (p + 6);
              let more = flags_off AND 0x2000 \<noteq> 0;
              let off = ucast (flags_off AND 0x1FFF) * 8;
              proto \<leftarrow> rd8 buf (p + 9);
              src \<leftarrow> view buf (p + 12) 4;
              dst \<leftarrow> view buf (p + 16) 4;
              n \<leftarrow> size_sub ip_len ihl;
              let out = out\<lparr>is_ipv4 := True, frag_id := ucast fid, frag_more := more,
                frag_offset := off, is_fragment := (more \<or> off > 0), first_fragment := (off = 0),
                l4_proto := proto, src_ip := overlay (src_ip out) src,
                dst_ip := overlay (dst_ip out) dst, l4_data := Some (p + ihl), l4_len := n\<rparr>;
              if is_fragment out \<and> \<not> first_fragment out then Some out
              else parse_l4 buf (p + ihl) n proto out } } } })"

text \<open>
  The walk over the extension headers, at most eight: the result is the packet with the next header
  and its offset, or no such pair when a header is cut and the parser has returned.
\<close>

definition skip_ext :: "bytes \<Rightarrow> nat \<Rightarrow> nat \<Rightarrow> nat \<Rightarrow> nat \<Rightarrow> nat \<Rightarrow> (u8 \<times> nat) option option" where
  "skip_ext buf p len off extra unit =
     (if len < off + 2 then Some None
      else do {
        following \<leftarrow> rd8 buf (p + off);
        n \<leftarrow> rd8 buf (p + off + 1);
        let ext_len = (unat n + extra) * unit;
        if len < off + ext_len then Some None else Some (Some (following, off + ext_len)) })"

fun walk_ext :: "nat \<Rightarrow> bytes \<Rightarrow> nat \<Rightarrow> nat \<Rightarrow> u8 \<Rightarrow> nat \<Rightarrow> packet \<Rightarrow> (packet \<times> (u8 \<times> nat) option) option" where
  "walk_ext 0 buf p len nxt off out = Some (out, Some (nxt, off))"
| "walk_ext (Suc hops) buf p len nxt off out =
     (if nxt = IP6_HBH \<or> nxt = IP6_RT \<or> nxt = IP6_DST \<or> nxt = IP6_AH
      then do {
        r \<leftarrow> (if nxt = IP6_AH then skip_ext buf p len off 2 4 else skip_ext buf p len off 1 8);
        case r of None \<Rightarrow> Some (out\<lparr>truncated := True\<rparr>, None)
        | Some (following, off2) \<Rightarrow> walk_ext hops buf p len following off2 out }
      else if nxt = IP6_FRAG
      then (if len < off + 8 then Some (out\<lparr>truncated := True\<rparr>, None)
        else do {
          following \<leftarrow> rd8 buf (p + off);
          off_m \<leftarrow> rd16 buf (p + off + 2);
          fid \<leftarrow> rd32 buf (p + off + 4);
          let fo = ucast (drop_bit 3 off_m) * 8;
          Some (out\<lparr>frag_offset := fo, frag_more := (off_m AND 1 \<noteq> 0), frag_id := fid,
                    is_fragment := True, first_fragment := (fo = 0)\<rparr>, Some (following, off + 8)) })
      else Some (out, Some (nxt, off)))"

definition parse_ipv6 :: "bytes \<Rightarrow> nat \<Rightarrow> nat \<Rightarrow> packet \<Rightarrow> packet option" where
  "parse_ipv6 buf p len out =
     (if len < 40 then trunc out
      else do {
        b0 \<leftarrow> rd8 buf p;
        if drop_bit 4 b0 \<noteq> 6 then trunc out
        else do {
          nxt \<leftarrow> rd8 buf (p + 6);
          src \<leftarrow> view buf (p + 8) 16;
          dst \<leftarrow> view buf (p + 24) 16;
          (out, w) \<leftarrow> walk_ext 8 buf p len nxt 40
             (out\<lparr>is_ipv6 := True, src_ip := overlay (src_ip out) src, dst_ip := overlay (dst_ip out) dst\<rparr>);
          case w of None \<Rightarrow> Some out
          | Some (proto, off) \<Rightarrow> do {
              let out = out\<lparr>l4_proto := proto,
                l4_data := (if off \<le> len then Some (p + off) else None),
                l4_len := (if off \<le> len then len - off else 0)\<rparr>;
              if is_fragment out \<and> \<not> first_fragment out then Some out
              else do { n \<leftarrow> size_sub len off; parse_l4 buf (p + off) n proto out } } } })"

subsection \<open>The frame\<close>

text \<open>The loop over the VLAN tags, at most two: no result when a tag is cut.\<close>

fun skip_vlan :: "nat \<Rightarrow> bytes \<Rightarrow> nat \<Rightarrow> u16 \<Rightarrow> nat \<Rightarrow> nat \<Rightarrow> (nat \<times> (u16 \<times> nat) option) option" where
  "skip_vlan 0 buf len et off tags = Some (tags, Some (et, off))"
| "skip_vlan (Suc k) buf len et off tags =
     (if et = ETH_P_VLAN \<or> et = ETH_P_QINQ
      then if len < off + 4 then Some (tags, None)
           else do { et2 \<leftarrow> rd16 buf (off + 2); skip_vlan k buf len et2 (off + 4) (tags + 1) }
      else Some (tags, Some (et, off)))"

definition parse_packet :: "bytes option \<Rightarrow> nat \<Rightarrow> (bool \<times> packet) option" where
  "parse_packet data len = (case data of
     None \<Rightarrow> Some (False, no_packet)
   | Some buf \<Rightarrow>
       if len < 14 then Some (False, no_packet)
       else do {
         dst \<leftarrow> view buf 0 6;
         src \<leftarrow> view buf 6 6;
         et0 \<leftarrow> rd16 buf 12;
         (tags, r) \<leftarrow> skip_vlan 2 buf len et0 14 0;
         let out = no_packet\<lparr>dst_mac := dst, src_mac := src, vlan_tags := tags\<rparr>;
         case r of None \<Rightarrow> Some (False, out\<lparr>truncated := True\<rparr>)
         | Some (et, off) \<Rightarrow> do {
             let out = out\<lparr>ethertype := et\<rparr>;
             n \<leftarrow> size_sub len off;
             if et = ETH_P_IPV4 then do { q \<leftarrow> parse_ipv4 buf off n out; Some (True, q) }
             else if et = ETH_P_IPV6 then do { q \<leftarrow> parse_ipv6 buf off n out; Some (True, q) }
             else if et = ETH_P_ARP
               then do { q \<leftarrow> parse_arp buf off n (out\<lparr>is_arp := True\<rparr>); Some (True, q) }
             else Some (False, out) } })"

definition ip_is_v4_mapped :: "bytes \<Rightarrow> bool" where
  "ip_is_v4_mapped ip \<longleftrightarrow> take 12 (drop 4 ip) = replicate 12 0"

definition ip_equals :: "bytes \<Rightarrow> bytes \<Rightarrow> bool" where
  "ip_equals a b \<longleftrightarrow> take 16 a = take 16 b"

subsection \<open>Bounds\<close>

text \<open>The payload lies inside the part \<open>[p, p + len)\<close> of the buffer.\<close>

definition payload_in :: "nat \<Rightarrow> nat \<Rightarrow> packet \<Rightarrow> bool" where
  "payload_in p len q \<longleftrightarrow> (case payload q of None \<Rightarrow> payload_len q = 0
     | Some i \<Rightarrow> p \<le> i \<and> i + payload_len q \<le> p + len)"

definition l3_of :: "packet \<Rightarrow> nat \<times> bytes \<times> bytes \<times> bytes \<times> bytes \<times> nat option \<times> nat" where
  "l3_of q = (vlan_tags q, src_mac q, dst_mac q, src_ip q, dst_ip q, l4_data q, l4_len q)"

text \<open>The fields of a packet in a buffer of \<open>n\<close> bytes.\<close>

definition packet_ok :: "nat \<Rightarrow> packet \<Rightarrow> bool" where
  "packet_ok n q \<longleftrightarrow> vlan_tags q \<le> 2 \<and> length (src_mac q) = 6 \<and> length (dst_mac q) = 6 \<and>
     length (src_ip q) = 16 \<and> length (dst_ip q) = 16 \<and>
     (case l4_data q of None \<Rightarrow> l4_len q = 0 \<and> payload q = None \<and> payload_len q = 0
      | Some d \<Rightarrow> d + l4_len q \<le> n \<and> payload_in d (l4_len q) q)"

lemma overlay_length [simp]: "length src \<le> length dst \<Longrightarrow> length (overlay dst src) = length dst"
  by (simp add: overlay_def)

lemma packet_ok_trunc [simp]: "packet_ok n (q\<lparr>truncated := b\<rparr>) = packet_ok n q"
  by (simp add: packet_ok_def payload_in_def split: option.splits)

lemma parse_l4_safe:
  assumes "p + len \<le> length buf" "payload out = None" "payload_len out = 0"
  shows "safely (parse_l4 buf p len proto out) (\<lambda>q. payload_in p len q \<and> l3_of q = l3_of out)"
  using assms
  by (auto simp: parse_l4_def parse_tcp_def parse_udp_def parse_icmp_def trunc_def safe_simps Let_def
      payload_in_def l3_of_def)

lemma parse_l4_ok:
  assumes "p + len \<le> length buf" "payload out = None" "payload_len out = 0"
    "packet_ok (length buf) out" "l4_data out = Some p" "l4_len out = len"
  shows "safely (parse_l4 buf p len proto out) (packet_ok (length buf))"
  using parse_l4_safe [OF assms(1-3), of proto] assms(4-6)
  by (auto elim!: safely_mono simp: packet_ok_def l3_of_def)

lemma parse_arp_safe:
  assumes "p + len \<le> length buf" "packet_ok (length buf) out"
  shows "safely (parse_arp buf p len out) (packet_ok (length buf))"
  using assms
  by (auto simp: parse_arp_def trunc_def safe_simps Let_def packet_ok_def payload_in_def
      split: option.splits)

lemma parse_ipv4_safe:
  assumes "p + len \<le> length buf" "packet_ok (length buf) out" "payload out = None" "payload_len out = 0"
  shows "safely (parse_ipv4 buf p len out) (packet_ok (length buf))"
proof -
  have ok: "packet_ok (length buf) (out\<lparr>is_ipv4 := True, frag_id := a, frag_more := b, frag_offset := c,
      is_fragment := d, first_fragment := e, l4_proto := f, src_ip := overlay (src_ip out) s,
      dst_ip := overlay (dst_ip out) t, l4_data := Some k, l4_len := n\<rparr>)"
    if "length s = 4" "length t = 4" "k + n \<le> length buf" for a b c d e f s t k n
    using assms that by (simp add: packet_ok_def payload_in_def)
  show ?thesis
    unfolding parse_ipv4_def Let_def
    using assms by (auto simp: safe_simps trunc_def intro!: ok parse_l4_ok)
qed

lemma safely_skip_ext:
  assumes "p + len \<le> length buf"
  shows "safely (skip_ext buf p len off e u)
     (\<lambda>r. case r of None \<Rightarrow> True | Some (f, off2) \<Rightarrow> off \<le> off2 \<and> off2 \<le> len)"
  using assms by (auto simp: skip_ext_def safe_simps Let_def)

lemma walk_ext_safe:
  assumes "p + len \<le> length buf" "off \<le> len" "payload out = None" "payload_len out = 0"
  shows "safely (walk_ext hops buf p len nxt off out) (\<lambda>(q, w).
     l3_of q = l3_of out \<and> payload q = None \<and> payload_len q = 0 \<and>
     (case w of None \<Rightarrow> truncated q | Some (proto, off2) \<Rightarrow> off \<le> off2 \<and> off2 \<le> len))"
  using assms(2-4)
proof (induction hops arbitrary: nxt off out)
  case (Suc hops)
  have ext: "safely (Option.bind (skip_ext buf p len off e u) (\<lambda>r. case r of
        None \<Rightarrow> Some (out\<lparr>truncated := True\<rparr>, None)
      | Some (following, off2) \<Rightarrow> walk_ext hops buf p len following off2 out)) (\<lambda>(q, w).
     l3_of q = l3_of out \<and> payload q = None \<and> payload_len q = 0 \<and>
     (case w of None \<Rightarrow> truncated q | Some (proto, off2) \<Rightarrow> off \<le> off2 \<and> off2 \<le> len))" for e u
    unfolding safely_bind
  proof (rule safely_mono [OF safely_skip_ext [OF assms(1), of off e u]])
    fix r :: "(u8 \<times> nat) option"
    assume r: "case r of None \<Rightarrow> True | Some (f, off2) \<Rightarrow> off \<le> off2 \<and> off2 \<le> len"
    show "safely (case r of None \<Rightarrow> Some (out\<lparr>truncated := True\<rparr>, None)
        | Some (following, off2) \<Rightarrow> walk_ext hops buf p len following off2 out) (\<lambda>(q, w).
     l3_of q = l3_of out \<and> payload q = None \<and> payload_len q = 0 \<and>
     (case w of None \<Rightarrow> truncated q | Some (proto, off2) \<Rightarrow> off \<le> off2 \<and> off2 \<le> len))"
    proof (cases r)
      case None
      then show ?thesis using Suc.prems by (simp add: safe_simps l3_of_def)
    next
      case (Some x)
      obtain f off2 where x: "x = (f, off2)" by (cases x)
      then have b: "off \<le> off2" "off2 \<le> len" using r Some by simp_all
      show ?thesis
        unfolding Some x option.case prod.case
        by (rule safely_mono [OF Suc.IH [OF b(2) Suc.prems(2,3)]])
          (use b(1) in \<open>auto split: option.splits\<close>)
    qed
  qed
  show ?case
    unfolding walk_ext.simps(2) safely_if
    using ext [of 2 4] ext [of 1 8] assms(1) Suc.prems
    by (auto simp: safe_simps l3_of_def Let_def)
qed (simp add: safe_simps)

lemma parse_ipv6_safe:
  assumes "p + len \<le> length buf" "packet_ok (length buf) out" "payload out = None" "payload_len out = 0"
  shows "safely (parse_ipv6 buf p len out) (packet_ok (length buf))"
proof (cases "len < 40 \<or> drop_bit 4 (buf ! p) \<noteq> 6")
  case True
  then show ?thesis
    using assms by (auto simp: parse_ipv6_def trunc_def safe_simps)
next
  case False
  let ?src = "take 16 (drop (p + 8) buf)" and ?dst = "take 16 (drop (p + 24) buf)"
  let ?out = "out\<lparr>is_ipv6 := True, src_ip := overlay (src_ip out) ?src, dst_ip := overlay (dst_ip out) ?dst\<rparr>"
  have l: "length ?src = 16" "length ?dst = 16" using False assms(1) by auto
  have ok: "packet_ok (length buf) ?out"
    using assms l by (simp add: packet_ok_def payload_in_def split: option.splits)
  have w: "safely (walk_ext 8 buf p len (buf ! (p + 6)) 40 ?out) (\<lambda>(q, w).
     l3_of q = l3_of ?out \<and> payload q = None \<and> payload_len q = 0 \<and>
     (case w of None \<Rightarrow> truncated q | Some (proto, off2) \<Rightarrow> 40 \<le> off2 \<and> off2 \<le> len))"
    by (rule walk_ext_safe [OF assms(1)]) (use False assms in simp_all)
  let ?rest = "\<lambda>(out, w). case w of None \<Rightarrow> Some out
          | Some (proto, off) \<Rightarrow> do {
              let out = out\<lparr>l4_proto := proto,
                l4_data := (if off \<le> len then Some (p + off) else None),
                l4_len := (if off \<le> len then len - off else 0)\<rparr>;
              if is_fragment out \<and> \<not> first_fragment out then Some out
              else do { n \<leftarrow> size_sub len off; parse_l4 buf (p + off) n proto out } }"
  have rest: "safely (?rest r) (packet_ok (length buf))"
    if r: "case r of (q, w) \<Rightarrow> l3_of q = l3_of ?out \<and> payload q = None \<and> payload_len q = 0 \<and>
     (case w of None \<Rightarrow> truncated q | Some (proto, off2) \<Rightarrow> 40 \<le> off2 \<and> off2 \<le> len)" for r
  proof (cases r)
    case (Pair q w)
    then have q: "l3_of q = l3_of ?out" "payload q = None" "payload_len q = 0" using r by simp_all
    then have qok: "packet_ok (length buf) q" 
      using ok by (auto simp: packet_ok_def l3_of_def payload_in_def split: option.splits)
    show ?thesis
    proof (cases w)
      case None
      then show ?thesis using qok by (simp add: Pair safe_simps)
    next
      case (Some x)
      obtain proto off where x: "x = (proto, off)" by (cases x)
      then have off: "off \<le> len" using r Pair Some by simp
      let ?q = "q\<lparr>l4_proto := proto, l4_data := Some (p + off), l4_len := len - off\<rparr>"
      have "packet_ok (length buf) ?q"
        using qok q(2,3) off assms(1) by (simp add: packet_ok_def payload_in_def)
      moreover from this have "safely (parse_l4 buf (p + off) (len - off) proto ?q) (packet_ok (length buf))"
        using off assms(1) q(2,3) by (intro parse_l4_ok) simp_all
      ultimately show ?thesis
        using off by (simp add: Pair Some x safe_simps Let_def)
    qed
  qed
  have "parse_ipv6 buf p len out = Option.bind (walk_ext 8 buf p len (buf ! (p + 6)) 40 ?out) ?rest"
    unfolding parse_ipv6_def using False assms(1)
    by (simp add: rd_simps Let_def case_prod_unfold)
  then show ?thesis
    using safely_mono [OF w rest] by (simp only: safely_bind)
qed

lemma skip_vlan_safe:
  assumes "len = length buf" "off \<le> len"
  shows "safely (skip_vlan k buf len et off tags) (\<lambda>(t, r). tags \<le> t \<and> t \<le> tags + k \<and>
     (case r of None \<Rightarrow> True | Some (_, off2) \<Rightarrow> off2 \<le> len))"
  using assms(2)
proof (induction k arbitrary: et off tags)
  case (Suc k)
  have "safely (skip_vlan k buf len et2 (off + 4) (tags + 1)) (\<lambda>(t, r). tags \<le> t \<and> t \<le> tags + Suc k \<and>
     (case r of None \<Rightarrow> True | Some (_, off2) \<Rightarrow> off2 \<le> len))" if "off + 4 \<le> len" for et2
    by (rule safely_mono [OF Suc.IH [OF that]]) auto
  then show ?case
    using assms(1) Suc.prems by (simp add: safe_simps)
qed (simp add: safe_simps)

lemma parse_packet_ok:
  assumes "\<And>buf. data = Some buf \<Longrightarrow> len = length buf"
  shows "\<exists>r. parse_packet data len = Some r \<and> packet_ok len (snd r) \<and> (fst r \<longrightarrow> data \<noteq> None \<and> 14 \<le> len)"
proof (cases "data = None \<or> len < 14")
  case True
  have "packet_ok len no_packet" by (simp add: packet_ok_def no_packet_def)
  then show ?thesis using True by (auto simp: parse_packet_def split: option.split)
next
  case False
  then obtain buf where data: "data = Some buf" by auto
  then have len: "len = length buf" "14 \<le> length buf" using assms False by auto
  let ?dst = "take 6 buf" and ?src = "take 6 (drop 6 buf)"
  let ?et0 = "be16 (buf ! 12) (buf ! 13)"
  obtain tags r where sv: "skip_vlan 2 buf len ?et0 14 0 = Some (tags, r)" and tags: "tags \<le> 2"
    and off: "case r of None \<Rightarrow> True | Some (_, off2) \<Rightarrow> off2 \<le> len"
    using skip_vlan_safe [OF len(1), of 14 2 ?et0 0] len by (auto simp: safely_iff)
  let ?out = "no_packet\<lparr>dst_mac := ?dst, src_mac := ?src, vlan_tags := tags\<rparr>"
  have ok: "packet_ok len (?out\<lparr>ethertype := et, is_arp := b\<rparr>)" "packet_ok len (?out\<lparr>truncated := b\<rparr>)" for et b
    using len tags by (simp_all add: packet_ok_def no_packet_def)
  show ?thesis
  proof (cases r)
    case None
    then show ?thesis
      using len sv ok(2) [where b = True] by (simp add: data parse_packet_def rd_simps no_packet_def)
  next
    case (Some x)
    then obtain et off where r: "r = Some (et, off)" by (cases x) simp
    with off have off: "off \<le> length buf" using len by simp
    have b: "off + (length buf - off) \<le> length buf" using off by simp
    let ?o = "?out\<lparr>ethertype := et\<rparr>"
    have p: "payload ?o = None" "payload_len ?o = 0" by (simp_all add: no_packet_def)
    have o: "packet_ok (length buf) ?o" "packet_ok (length buf) (?o\<lparr>is_arp := True\<rparr>)"
      using ok(1) [where et = et and b = False] ok(1) [where et = et and b = True] len by (simp_all add: no_packet_def)
    show ?thesis
      using len sv r off o parse_ipv4_safe [OF b o(1) p] parse_ipv6_safe [OF b o(1) p]
        parse_arp_safe [OF b o(2)]
      by (auto simp: data parse_packet_def rd_simps size_sub_def safely_iff Let_def)
  qed
qed

text \<open>
  C28: for every frame the parser stays inside the buffer, none of its size subtractions wraps, and
  the packet it gives has its L4 datagram inside the frame and its payload inside the datagram,
  addresses of full length, and at most two VLAN tags. It fails on every frame shorter than an
  Ethernet header.
\<close>

theorem parse_packet_safe:
  assumes "\<And>buf. data = Some buf \<Longrightarrow> len = length buf"
  shows "\<exists>r. parse_packet data len = Some r \<and> packet_ok len (snd r) \<and> (fst r \<longrightarrow> data \<noteq> None \<and> 14 \<le> len)"
  using parse_packet_ok [of data len] assms by blast

lemma parse_packet_safe_witness:
  "\<exists>r. parse_packet (Some (replicate 60 0)) 60 = Some r \<and> packet_ok 60 (snd r)"
  using parse_packet_safe [of "Some (replicate 60 0)" 60] by auto

subsection \<open>Well-formed frames\<close>

text \<open>
  What a sender writes: an Ethernet frame with VLAN tags, an IPv4 header without options, and a UDP
  datagram or a TCP segment with options, followed by the padding of a short frame.
\<close>

definition eth_header :: "bytes \<Rightarrow> bytes \<Rightarrow> (bool \<times> u16) list \<Rightarrow> bytes" where
  "eth_header dm sm tags = (dm @ sm) @
     concat (map (\<lambda>(qinq, tci). (if qinq then [0x88, 0xA8] else [0x81, 0x00]) @ [hi8 tci, lo8 tci]) tags) @
     [0x08, 0x00]"

definition ipv4_header :: "u8 \<Rightarrow> bytes \<Rightarrow> bytes \<Rightarrow> nat \<Rightarrow> bytes" where
  "ipv4_header proto s d n = (let total = of_nat (20 + n) in
      [0x45, 0, hi8 total, lo8 total, 0, 0, 0x40, 0, 64, proto, 0, 0] @ s @ d)"

definition udp_datagram :: "u16 \<Rightarrow> u16 \<Rightarrow> bytes \<Rightarrow> bytes" where
  "udp_datagram sp dp body = (let n = of_nat (8 + length body) in
     [hi8 sp, lo8 sp, hi8 dp, lo8 dp, hi8 n, lo8 n, 0, 0] @ body)"

definition tcp_segment :: "u16 \<Rightarrow> u16 \<Rightarrow> u32 \<Rightarrow> u32 \<Rightarrow> u8 \<Rightarrow> bytes \<Rightarrow> bytes \<Rightarrow> bytes" where
  "tcp_segment sp dp sq ak flags opts body =
     [hi8 sp, lo8 sp, hi8 dp, lo8 dp, byte3 sq, byte2 sq, byte1 sq, byte0 sq,
      byte3 ak, byte2 ak, byte1 ak, byte0 ak,
      push_bit 4 (of_nat (5 + length opts div 4)), flags, 0xFF, 0xFF, 0, 0, 0, 0] @ opts @ body"

lemma rd_append [simp]:
  "rd8 (xs @ ys) (length xs + i) = rd8 ys i"
  "rd16 (xs @ ys) (length xs + i) = rd16 ys i"
  "rd32 (xs @ ys) (length xs + i) = rd32 ys i"
  "view (xs @ ys) (length xs + i) n = view ys i n"
  by (simp_all add: rd8_def rd16_def rd32_def view_def nth_append add.assoc)


lemma rd_append_0 [simp]:
  "rd8 (xs @ ys) (length xs) = rd8 ys 0"
  "rd16 (xs @ ys) (length xs) = rd16 ys 0"
  using rd_append(1,2) [of xs ys 0] by simp_all

lemma list4: "length xs = 4 \<Longrightarrow> \<exists>a b c d. xs = [a, b, c, d]"
  by (auto simp: numeral_eq_Suc length_Suc_conv)

lemma eth_header_parsed:
  assumes "length dm = 6" "length sm = 6" "length tags \<le> 2"
  defines "h \<equiv> eth_header dm sm tags"
  shows "length h = 14 + 4 * length tags" "view (h @ rest) 0 6 = Some dm" "view (h @ rest) 6 6 = Some sm"
    "\<exists>et0. rd16 (h @ rest) 12 = Some et0 \<and>
       skip_vlan 2 (h @ rest) (length h + m) et0 14 0 = Some (length tags, Some (ETH_P_IPV4, length h))"
proof -
  have et: "be16 0x88 0xA8 = ETH_P_QINQ" "be16 0x81 0 = ETH_P_VLAN" "be16 8 0 = ETH_P_IPV4"
    "ETH_P_IPV4 \<noteq> ETH_P_VLAN" "ETH_P_IPV4 \<noteq> ETH_P_QINQ"
    by (simp_all add: be16_def idsm_defs)
  have r16: "rd16 ((dm @ sm) @ ys) (12 + i) = rd16 ys i" for ys i
    using rd_append(2) [of "dm @ sm" ys i] assms(1,2) by simp
  have r16': "rd16 (dm @ sm @ ys) 12 = rd16 ys 0" "rd16 (dm @ sm @ ys) 16 = rd16 ys 4"
    "rd16 (dm @ sm @ ys) 20 = rd16 ys 8" for ys
    using r16 [of ys 0] r16 [of ys 4] r16 [of ys 8] by simp_all
  show "length h = 14 + 4 * length tags"
  proof -
    have "length (concat (map (\<lambda>(qinq, tci). (if qinq then [0x88, 0xA8] else [0x81, 0x00 :: u8]) @
        [hi8 tci, lo8 tci]) tags)) = 4 * length tags"
      by (induction tags) auto
    then show ?thesis using assms(1,2) by (simp add: h_def eth_header_def)
  qed
  show "view (h @ rest) 0 6 = Some dm" "view (h @ rest) 6 6 = Some sm"
    using assms(1,2) by (simp_all add: h_def eth_header_def view_def)
  consider "tags = []" | t where "tags = [t]" | t u where "tags = [t, u]"
    using assms(3) by (cases tags; cases "tl tags") auto
  then show "\<exists>et0. rd16 (h @ rest) 12 = Some et0 \<and>
       skip_vlan 2 (h @ rest) (length h + m) et0 14 0 = Some (length tags, Some (ETH_P_IPV4, length h))"
    using assms(1,2)
    by cases (auto simp: h_def eth_header_def r16' rd16_Some et numeral_2_eq_2 split: prod.splits if_splits)
qed

lemma parse_ipv4_header:
  assumes "length s = 4" "length d = 4" "20 + n < 65536" "n \<le> length rest"
  shows "parse_ipv4 (h @ ipv4_header proto s d n @ rest) (length h) (20 + length rest) out =
    parse_l4 (h @ ipv4_header proto s d n @ rest) (length h + 20) n proto
      (out\<lparr>is_ipv4 := True, frag_id := 0, frag_more := False, frag_offset := 0, is_fragment := False,
           first_fragment := True, l4_proto := proto, src_ip := overlay (src_ip out) s,
           dst_ip := overlay (dst_ip out) d, l4_data := Some (length h + 20), l4_len := n\<rparr>)"
proof -
  have tl: "unat (of_nat (20 + n) :: u16) = 20 + n" using assms(3) by (simp add: unat_of_nat del: of_nat_add of_nat_numeral)
  obtain s1 s2 s3 s4 where s: "s = [s1, s2, s3, s4]" using list4 [OF assms(1)] by blast
  obtain d1 d2 d3 d4 where d: "d = [d1, d2, d3, d4]" using list4 [OF assms(2)] by blast
  have v: "view (h @ ys) (length h + i) k = view ys i k" for ys i k by simp
  have c: "drop_bit 4 (0x45 :: u8) = 4" "unat (0x45 AND 0xF :: u8) = 5"
    "be16 0x40 0 AND 0x2000 = 0" "be16 0x40 0 AND 0x1FFF = 0" "be16 0 0 = 0"
    by (simp_all add: be16_def)
  show ?thesis
    unfolding parse_ipv4_def Let_def ipv4_header_def s d append.simps append_assoc
    by (simp add: rd_simps rd8_def rd16_def view_def size_sub_def c tl assms(4) nth_append
        del: of_nat_add)
qed

lemma parse_udp_datagram:
  assumes "8 + length body < 65536"
  shows "parse_udp (h @ udp_datagram sp dp body @ pad) (length h) (8 + length body) out =
    Some (out\<lparr>is_udp := True, src_port := sp, dst_port := dp,
              payload := Some (length h + 8), payload_len := length body\<rparr>)"
proof -
  have ul: "unat (of_nat (8 + length body) :: u16) = 8 + length body"
    using assms by (simp add: unat_of_nat del: of_nat_add of_nat_numeral)
  show ?thesis
    unfolding parse_udp_def Let_def udp_datagram_def append.simps append_assoc rd_append rd_append_0
    by (simp add: rd_simps rd8_def rd16_def size_sub_def ul del: of_nat_add)
qed

lemma parse_tcp_segment:
  assumes "length opts = 4 * k" "k \<le> 10"
  shows "parse_tcp (h @ tcp_segment sp dp sq ak flags opts body @ pad) (length h)
      (20 + length opts + length body) out =
    Some (out\<lparr>is_tcp := True, src_port := sp, dst_port := dp, tcp_seq := sq, tcp_ack := ak,
              tcp_flags := flags AND 0x3F,
              payload := Some (length h + 20 + length opts), payload_len := length body\<rparr>)"
proof -
  have hl: "unat (drop_bit 4 (push_bit 4 (of_nat (5 + k)) :: u8) AND 0xF) = 5 + k"
  proof -
    have "k = 0 \<or> k = 1 \<or> k = 2 \<or> k = 3 \<or> k = 4 \<or> k = 5 \<or> k = 6 \<or> k = 7 \<or> k = 8 \<or> k = 9 \<or> k = 10"
      using assms(2) by presburger
    then show ?thesis by (elim disjE) simp_all
  qed
  show ?thesis
    unfolding parse_tcp_def Let_def tcp_segment_def append.simps append_assoc rd_append rd_append_0
    by (simp add: rd_simps rd8_def rd16_def rd32_def size_sub_def hl assms(1) del: of_nat_add)
qed

lemma view_mid:
  "length h = i \<Longrightarrow> length body = n \<Longrightarrow> view (h @ body @ pad) i n = Some body"
  by (simp add: view_def)

lemma bind_Some_map: "Option.bind m (\<lambda>q. Some (f q)) = map_option f m"
  by (cases m) simp_all

lemma parse_packet_ipv4:
  assumes "view buf 0 6 = Some dm" "view buf 6 6 = Some sm" "rd16 buf 12 = Some et0"
    "skip_vlan 2 buf n et0 14 0 = Some (t, Some (ETH_P_IPV4, off))" "14 \<le> n" "off \<le> n"
  shows "parse_packet (Some buf) n = map_option (Pair True) (parse_ipv4 buf off (n - off)
     (no_packet\<lparr>dst_mac := dm, src_mac := sm, vlan_tags := t, ethertype := ETH_P_IPV4\<rparr>))"
  using assms by (simp add: parse_packet_def size_sub_def Let_def bind_Some_map)

text \<open>A well-formed IPv4 frame reaches the L4 parser with the fields of its headers.\<close>

lemma parse_ipv4_frame:
  fixes dgram pad :: bytes and proto :: u8
  assumes "length dm = 6" "length sm = 6" "length tags \<le> 2" "length s = 4" "length d = 4"
    "20 + length dgram < 65536"
  defines "pre \<equiv> eth_header dm sm tags @ ipv4_header proto s d (length dgram)"
  shows "\<exists>out. parse_packet (Some (pre @ dgram @ pad)) (length (pre @ dgram @ pad)) =
      map_option (Pair True) (parse_l4 (pre @ dgram @ pad) (length pre) (length dgram) proto out) \<and>
    src_mac out = sm \<and> dst_mac out = dm \<and> take 4 (src_ip out) = s \<and> take 4 (dst_ip out) = d \<and>
    l4_proto out = proto \<and> is_ipv4 out \<and> \<not> is_fragment out \<and> \<not> truncated out \<and>
    vlan_tags out = length tags"
proof -
  let ?h = "eth_header dm sm tags"
  let ?ip = "ipv4_header proto s d (length dgram)"
  let ?rest = "?ip @ dgram @ pad"
  have il: "length ?ip = 20" using assms(4,5) by (simp add: ipv4_header_def Let_def)
  note eh = eth_header_parsed [OF assms(1-3)]
  obtain et0 where et0: "rd16 (?h @ ?rest) 12 = Some et0"
    "skip_vlan 2 (?h @ ?rest) (length ?h + length ?rest) et0 14 0 =
       Some (length tags, Some (ETH_P_IPV4, length ?h))"
    using eh(4) [of ?rest "length ?rest"] by blast
  have n: "length ?rest = 20 + length (dgram @ pad)" using il by simp
  have p4: "parse_ipv4 (?h @ ?rest) (length ?h) (20 + length (dgram @ pad)) out =
      parse_l4 (?h @ ?rest) (length ?h + 20) (length dgram) proto
      (out\<lparr>is_ipv4 := True, frag_id := 0, frag_more := False, frag_offset := 0, is_fragment := False,
           first_fragment := True, l4_proto := proto, src_ip := overlay (src_ip out) s,
           dst_ip := overlay (dst_ip out) d, l4_data := Some (length ?h + 20), l4_len := length dgram\<rparr>)" for out
    by (rule parse_ipv4_header [OF assms(4,5,6)]) simp
  let ?out = "no_packet\<lparr>dst_mac := dm, src_mac := sm, vlan_tags := length tags, ethertype := ETH_P_IPV4\<rparr>"
  have "parse_packet (Some (?h @ ?rest)) (length (?h @ ?rest)) =
      map_option (Pair True) (parse_ipv4 (?h @ ?rest) (length ?h) (length ?rest) ?out)"
    using parse_packet_ipv4 [OF eh(2) [of ?rest] eh(3) [of ?rest] et0(1), of "length (?h @ ?rest)"
        "length tags" "length ?h"] et0(2) eh(1) by simp
  then have "parse_packet (Some (?h @ ?rest)) (length (?h @ ?rest)) = map_option (Pair True)
      (parse_l4 (?h @ ?rest) (length ?h + 20) (length dgram) proto
      (?out\<lparr>is_ipv4 := True, frag_id := 0, frag_more := False, frag_offset := 0, is_fragment := False,
           first_fragment := True, l4_proto := proto, src_ip := overlay (src_ip ?out) s,
           dst_ip := overlay (dst_ip ?out) d, l4_data := Some (length ?h + 20), l4_len := length dgram\<rparr>))"
    (is "_ = map_option _ (parse_l4 _ _ _ _ ?out2)")
    by (simp only: n p4)
  then show ?thesis
    unfolding pre_def using il assms(4,5)
    by (intro exI [of _ ?out2]) (simp add: overlay_def no_packet_def)
qed

text \<open>
  C29: for every IPv4 frame that carries a UDP datagram or a TCP segment, with up to two VLAN tags, any
  TCP options and any padding after the datagram, the parser recovers addresses, ports, sequence
  numbers and flags, and a payload view that holds exactly the bytes the sender wrote.
\<close>

theorem parse_packet_recovers:
  fixes pad :: bytes and proto :: u8
  assumes "length dm = 6" "length sm = 6" "length tags \<le> 2" "length s = 4" "length d = 4"
    "length opts mod 4 = 0" "length opts \<le> 40" "40 + length opts + length body < 65536"
  shows "(\<exists>q. let f = eth_header dm sm tags @ ipv4_header IP_PROTO_UDP s d (8 + length body) @
        udp_datagram sp dp body @ pad in
      parse_packet (Some f) (length f) = Some (True, q) \<and> is_udp q \<and> \<not> truncated q \<and>
      src_mac q = sm \<and> dst_mac q = dm \<and> take 4 (src_ip q) = s \<and> take 4 (dst_ip q) = d \<and>
      src_port q = sp \<and> dst_port q = dp \<and>
      Option.bind (payload q) (\<lambda>o'. view f o' (payload_len q)) = Some body) \<and>
    (\<exists>q. let f = eth_header dm sm tags @ ipv4_header IP_PROTO_TCP s d (20 + length opts + length body) @
        tcp_segment sp dp sq ak flags opts body @ pad in
      parse_packet (Some f) (length f) = Some (True, q) \<and> is_tcp q \<and> \<not> truncated q \<and>
      src_mac q = sm \<and> dst_mac q = dm \<and> take 4 (src_ip q) = s \<and> take 4 (dst_ip q) = d \<and>
      src_port q = sp \<and> dst_port q = dp \<and> tcp_seq q = sq \<and> tcp_ack q = ak \<and> tcp_flags q = flags AND 0x3F \<and>
      Option.bind (payload q) (\<lambda>o'. view f o' (payload_len q)) = Some body)"
    (is "(\<exists>q. ?udp q) \<and> (\<exists>q. ?tcp q)")
proof
  let ?d = "udp_datagram sp dp body" and ?h = "eth_header dm sm tags"
  let ?ip = "ipv4_header IP_PROTO_UDP s d (8 + length body)"
  have dl: "length ?d = 8 + length body" by (simp add: udp_datagram_def Let_def)
  have "20 + length ?d < 65536" using assms(8) dl by simp
  from parse_ipv4_frame [OF assms(1-5) this, where proto = IP_PROTO_UDP and pad = pad] obtain out where
    out: "parse_packet (Some ((?h @ ?ip) @ ?d @ pad)) (length ((?h @ ?ip) @ ?d @ pad)) =
      map_option (Pair True) (parse_l4 ((?h @ ?ip) @ ?d @ pad) (length (?h @ ?ip)) (8 + length body) IP_PROTO_UDP out)"
      "src_mac out = sm \<and> dst_mac out = dm \<and> take 4 (src_ip out) = s \<and> take 4 (dst_ip out) = d \<and>
       l4_proto out = IP_PROTO_UDP \<and> is_ipv4 out \<and> \<not> is_fragment out \<and> \<not> truncated out \<and>
       vlan_tags out = length tags"
    unfolding dl by blast
  have b: "8 + length body < 65536" using assms(8) by simp
  have v: "view ((?h @ ?ip) @ ?d @ pad) (length (?h @ ?ip) + 8) (length body) = Some body"
    unfolding rd_append by (simp add: udp_datagram_def Let_def view_def)
  show "\<exists>q. ?udp q"
    using out parse_udp_datagram [OF b, of "?h @ ?ip" sp dp pad out] v
    by (intro exI [of _ "out\<lparr>is_udp := True, src_port := sp, dst_port := dp,
          payload := Some (length (?h @ ?ip) + 8), payload_len := length body\<rparr>"])
      (simp add: parse_l4_def IP_PROTO_UDP_def IP_PROTO_TCP_def Let_def)
next
  let ?d = "tcp_segment sp dp sq ak flags opts body" and ?h = "eth_header dm sm tags"
  let ?ip = "ipv4_header IP_PROTO_TCP s d (20 + length opts + length body)"
  have dl: "length ?d = 20 + length opts + length body" by (simp add: tcp_segment_def)
  have "20 + length ?d < 65536" using assms(8) dl by simp
  from parse_ipv4_frame [OF assms(1-5) this, where proto = IP_PROTO_TCP and pad = pad] obtain out where
    out: "parse_packet (Some ((?h @ ?ip) @ ?d @ pad)) (length ((?h @ ?ip) @ ?d @ pad)) =
      map_option (Pair True) (parse_l4 ((?h @ ?ip) @ ?d @ pad) (length (?h @ ?ip)) (20 + length opts + length body) IP_PROTO_TCP out)"
      "src_mac out = sm \<and> dst_mac out = dm \<and> take 4 (src_ip out) = s \<and> take 4 (dst_ip out) = d \<and>
       l4_proto out = IP_PROTO_TCP \<and> is_ipv4 out \<and> \<not> is_fragment out \<and> \<not> truncated out \<and>
       vlan_tags out = length tags"
    unfolding dl by blast
  have k: "length opts = 4 * (length opts div 4)" "length opts div 4 \<le> 10" using assms(6,7) by auto
  have v: "view ((?h @ ?ip) @ ?d @ pad) (length (?h @ ?ip) + (20 + length opts)) (length body) = Some body"
  proof -
    obtain hd where "?d = hd @ opts @ body" "length hd = 20"
      unfolding tcp_segment_def by (auto intro!: that simp del: append.simps)
    then show ?thesis
      unfolding rd_append by (simp add: view_mid [of "hd @ opts", simplified])
  qed
  show "\<exists>q. ?tcp q"
    using out parse_tcp_segment [OF k, of "?h @ ?ip" sp dp sq ak flags body pad out] v
    by (intro exI [of _ "out\<lparr>is_tcp := True, src_port := sp, dst_port := dp, tcp_seq := sq, tcp_ack := ak,
          tcp_flags := flags AND 0x3F,
          payload := Some (length (?h @ ?ip) + 20 + length opts), payload_len := length body\<rparr>"])
      (simp add: parse_l4_def Let_def add.assoc)
qed

lemma parse_packet_recovers_witness:
  "\<exists>q. let f = eth_header (replicate 6 1) (replicate 6 2) [(False, 5)] @
        ipv4_header IP_PROTO_UDP [10, 0, 0, 1] [10, 0, 0, 2] (8 + length [0xAA, 0xBB :: u8]) @
        udp_datagram 53 4000 [0xAA, 0xBB] @ [0, 0, 0] in
      parse_packet (Some f) (length f) = Some (True, q) \<and> src_port q = 53 \<and>
      Option.bind (payload q) (\<lambda>o'. view f o' (payload_len q)) = Some [0xAA, 0xBB]"
  using parse_packet_recovers [of "replicate 6 1" "replicate 6 2" "[(False, 5)]" "[10, 0, 0, 1]"
      "[10, 0, 0, 2]" "[]" "[0xAA, 0xBB]" 53 4000 "[0, 0, 0]"]
  unfolding Let_def by fastforce

end
