(* ===== verification/Eth_Protocols.thy ===== *)
theory Eth_Protocols
  imports Eth_Packet
begin

text \<open>
  \<open>apps/eth_probe/proto_doip\<close>, \<open>proto_someip\<close> and \<open>proto_dns\<close>: the application protocols that the probe
  inspects. A parser gets the bytes at its pointer (\<open>None\<close> for null) and their number; its outer
  \<open>None\<close> is a read outside them. Payload pointers are offsets from the parser's own pointer.
\<close>

subsection \<open>DoIP\<close>

definition DOIP_PORT :: u16 where "DOIP_PORT = 13400"
definition DOIP_PT_VEHICLE_IDENT :: u16 where [idsm_defs]: "DOIP_PT_VEHICLE_IDENT = 0x0001"
definition DOIP_PT_ROUTING_ACTIVATION :: u16 where [idsm_defs]: "DOIP_PT_ROUTING_ACTIVATION = 0x0005"
definition DOIP_PT_ALIVE_CHECK :: u16 where [idsm_defs]: "DOIP_PT_ALIVE_CHECK = 0x0007"
definition DOIP_PT_DIAG_MESSAGE :: u16 where [idsm_defs]: "DOIP_PT_DIAG_MESSAGE = 0x8001"
definition DOIP_PT_DIAG_MESSAGE_ACK :: u16 where [idsm_defs]: "DOIP_PT_DIAG_MESSAGE_ACK = 0x8002"
definition DOIP_PT_DIAG_MESSAGE_NACK :: u16 where [idsm_defs]: "DOIP_PT_DIAG_MESSAGE_NACK = 0x8003"

datatype doip_error = DOIP_OK | DOIP_ERR_TRUNCATED | DOIP_ERR_VERSION_INVERSE
  | DOIP_ERR_UNKNOWN_VERSION | DOIP_ERR_LENGTH | DOIP_ERR_UNKNOWN_TYPE

fun doip_error_val :: "doip_error \<Rightarrow> u32" where
  "doip_error_val DOIP_OK = 0"
| "doip_error_val DOIP_ERR_TRUNCATED = 1"
| "doip_error_val DOIP_ERR_VERSION_INVERSE = 2"
| "doip_error_val DOIP_ERR_UNKNOWN_VERSION = 3"
| "doip_error_val DOIP_ERR_LENGTH = 4"
| "doip_error_val DOIP_ERR_UNKNOWN_TYPE = 5"

record doip_info =
  do_valid :: bool
  do_version :: u8
  do_payload_type :: u16
  do_payload_len :: u32
  do_payload :: "nat option"
  do_avail :: nat
  do_error :: doip_error

definition no_doip :: doip_info where
  "no_doip = \<lparr> do_valid = False, do_version = 0, do_payload_type = 0, do_payload_len = 0,
     do_payload = None, do_avail = 0, do_error = DOIP_OK \<rparr>"

definition known_payload_type :: "u16 \<Rightarrow> bool" where
  "known_payload_type t \<longleftrightarrow> t = 0x0000 \<or> t = DOIP_PT_VEHICLE_IDENT \<or> t = 0x0002 \<or> t = 0x0003 \<or>
     t = 0x0004 \<or> t = DOIP_PT_ROUTING_ACTIVATION \<or> t = 0x0006 \<or> t = DOIP_PT_ALIVE_CHECK \<or>
     t = 0x0008 \<or> t = 0x4001 \<or> t = 0x4002 \<or> t = 0x4003 \<or> t = 0x4004 \<or>
     t = DOIP_PT_DIAG_MESSAGE \<or> t = DOIP_PT_DIAG_MESSAGE_ACK \<or> t = DOIP_PT_DIAG_MESSAGE_NACK"

definition parse_doip :: "bytes option \<Rightarrow> nat \<Rightarrow> doip_info option" where
  "parse_doip data len = (case data of
     None \<Rightarrow> Some (no_doip\<lparr>do_error := DOIP_ERR_TRUNCATED\<rparr>)
   | Some p \<Rightarrow>
       if len < 8 then Some (no_doip\<lparr>do_error := DOIP_ERR_TRUNCATED\<rparr>)
       else do {
         ver \<leftarrow> rd8 p 0;
         inv \<leftarrow> rd8 p 1;
         pt \<leftarrow> rd16 p 2;
         pl \<leftarrow> rd32 p 4;
         avail \<leftarrow> size_sub len 8;
         let i = no_doip\<lparr>do_version := ver, do_payload_type := pt, do_payload_len := pl,
                         do_payload := Some 8, do_avail := avail\<rparr>;
         Some (if ver \<noteq> NOT inv then i\<lparr>do_error := DOIP_ERR_VERSION_INVERSE\<rparr>
           else if ver \<noteq> 0x02 \<and> ver \<noteq> 0x03 then i\<lparr>do_error := DOIP_ERR_UNKNOWN_VERSION\<rparr>
           else if unat pl > avail then i\<lparr>do_error := DOIP_ERR_LENGTH\<rparr>
           else if \<not> known_payload_type pt then i\<lparr>do_error := DOIP_ERR_UNKNOWN_TYPE\<rparr>
           else i\<lparr>do_valid := True\<rparr>) })"

text \<open>The verdict: \<open>Some aux\<close> for an alert.\<close>

definition inspect_doip :: "doip_info \<Rightarrow> u32 option" where
  "inspect_doip i =
     (if \<not> do_valid i
      then if do_error i \<noteq> DOIP_ERR_TRUNCATED then Some (doip_error_val (do_error i)) else None
      else if do_payload_type i = DOIP_PT_ROUTING_ACTIVATION
      then Some (ucast DOIP_PT_ROUTING_ACTIVATION) else None)"

subsection \<open>SOME/IP\<close>

definition SOMEIP_SD_SERVICE :: u16 where [idsm_defs]: "SOMEIP_SD_SERVICE = 0xFFFF"
definition SOMEIP_SD_ENTRY_OFFER :: u8 where [idsm_defs]: "SOMEIP_SD_ENTRY_OFFER = 0x01"

datatype someip_error = SOMEIP_OK | SOMEIP_ERR_TRUNCATED | SOMEIP_ERR_LENGTH | SOMEIP_ERR_PROTO_VER
  | SOMEIP_ERR_MSG_TYPE

record someip_info =
  so_valid :: bool
  so_service_id :: u16
  so_method_id :: u16
  so_client_id :: u16
  so_session_id :: u16
  so_iface_ver :: u8
  so_msg_type :: u8
  so_return_code :: u8
  so_payload :: "nat option"
  so_avail :: nat
  so_error :: someip_error

definition no_someip :: someip_info where
  "no_someip = \<lparr> so_valid = False, so_service_id = 0, so_method_id = 0, so_client_id = 0,
     so_session_id = 0, so_iface_ver = 0, so_msg_type = 0, so_return_code = 0,
     so_payload = None, so_avail = 0, so_error = SOMEIP_OK \<rparr>"

definition is_sd :: "someip_info \<Rightarrow> bool" where
  "is_sd i \<longleftrightarrow> so_service_id i = SOMEIP_SD_SERVICE"

definition known_msg_type :: "u8 \<Rightarrow> bool" where
  "known_msg_type t \<longleftrightarrow> t = 0x00 \<or> t = 0x01 \<or> t = 0x02 \<or> t = 0x80 \<or> t = 0x81"

definition parse_someip :: "bytes option \<Rightarrow> nat \<Rightarrow> someip_info option" where
  "parse_someip data len = (case data of
     None \<Rightarrow> Some (no_someip\<lparr>so_error := SOMEIP_ERR_TRUNCATED\<rparr>)
   | Some p \<Rightarrow>
       if len < 16 then Some (no_someip\<lparr>so_error := SOMEIP_ERR_TRUNCATED\<rparr>)
       else do {
         sid \<leftarrow> rd16 p 0;
         mid \<leftarrow> rd16 p 2;
         length32 \<leftarrow> rd32 p 4;
         cid \<leftarrow> rd16 p 8;
         ses \<leftarrow> rd16 p 10;
         proto_ver \<leftarrow> rd8 p 12;
         iface \<leftarrow> rd8 p 13;
         mt \<leftarrow> rd8 p 14;
         rc \<leftarrow> rd8 p 15;
         avail \<leftarrow> size_sub len 16;
         let i = no_someip\<lparr>so_service_id := sid, so_method_id := mid, so_client_id := cid,
           so_session_id := ses, so_iface_ver := iface, so_msg_type := mt, so_return_code := rc,
           so_payload := Some 16, so_avail := avail\<rparr>;
         Some (if unat length32 < 8 \<or> unat length32 - 8 > avail then i\<lparr>so_error := SOMEIP_ERR_LENGTH\<rparr>
           else if proto_ver \<noteq> 0x01 then i\<lparr>so_error := SOMEIP_ERR_PROTO_VER\<rparr>
           else if \<not> known_msg_type mt then i\<lparr>so_error := SOMEIP_ERR_MSG_TYPE\<rparr>
           else i\<lparr>so_valid := True\<rparr>) })"

record sd_entry =
  se_type :: u8
  se_service_id :: u16
  se_instance_id :: u16
  se_ttl :: u32

text \<open>
  The loop over the entries; \<open>e\<close> is the offset of the first one. The length is a multiple of 16
  below 2^32, so the 32-bit counter of the code does not wrap.
\<close>

function sd_loop :: "bytes \<Rightarrow> nat \<Rightarrow> nat \<Rightarrow> nat \<Rightarrow> sd_entry list option" where
  "sd_loop buf e off entries_len =
     (if off < entries_len
      then do {
        ty \<leftarrow> rd8 buf (e + off);
        sid \<leftarrow> rd16 buf (e + off + 4);
        iid \<leftarrow> rd16 buf (e + off + 6);
        t2 \<leftarrow> rd8 buf (e + off + 9);
        t1 \<leftarrow> rd8 buf (e + off + 10);
        t0 \<leftarrow> rd8 buf (e + off + 11);
        rest \<leftarrow> sd_loop buf e (off + 16) entries_len;
        Some (\<lparr> se_type = ty, se_service_id = sid, se_instance_id = iid,
                se_ttl = push_bit 16 (ucast t2) OR push_bit 8 (ucast t1) OR ucast t0 \<rparr> # rest) }
      else Some [])"
  by pat_completeness auto
termination
  by (relation "measure (\<lambda>(_, _, off, n). n - off)") auto

declare sd_loop.simps [simp del]

text \<open>The inner \<open>None\<close> is the result \<open>false\<close>; the buffer is read from offset \<open>p\<close> on.\<close>

definition parse_someip_sd_entries :: "bytes \<Rightarrow> nat option \<Rightarrow> nat \<Rightarrow> sd_entry list option option" where
  "parse_someip_sd_entries buf p len = (case p of
     None \<Rightarrow> Some None
   | Some b \<Rightarrow>
       if len < 8 then Some None
       else do {
         n32 \<leftarrow> rd32 buf (b + 4);
         room \<leftarrow> size_sub len 8;
         let entries_len = unat n32;
         if entries_len > room \<or> entries_len mod 16 \<noteq> 0 then Some None
         else do { es \<leftarrow> sd_loop buf (b + 8) 0 entries_len; Some (Some es) } })"

record sd_tracker =
  service_whitelist :: "u16 list"
  last_session :: "bytes \<Rightarrow> u16 option"

definition sd_tracker_new :: "u16 list \<Rightarrow> sd_tracker" where
  "sd_tracker_new wl = \<lparr> service_whitelist = wl, last_session = (\<lambda>_. None) \<rparr>"

definition sd_set_config :: "u16 list \<Rightarrow> sd_tracker \<Rightarrow> sd_tracker" where
  "sd_set_config wl t = t\<lparr>service_whitelist := wl\<rparr>"

definition session_alerts :: "u16 option \<Rightarrow> u16 \<Rightarrow> u32 list" where
  "session_alerts prev ses = (case prev of None \<Rightarrow> []
     | Some pv \<Rightarrow> if ses < pv \<and> \<not> (pv > 0xFF00 \<and> ses < 0x0100) then [0x2000] else [])"

definition offer_forbidden :: "u16 list \<Rightarrow> sd_entry \<Rightarrow> bool" where
  "offer_forbidden wl e \<longleftrightarrow> se_type e = SOMEIP_SD_ENTRY_OFFER \<and> se_ttl e > 0 \<and> wl \<noteq> [] \<and>
     se_service_id e \<notin> set wl"

definition sd_inspect :: "bytes \<Rightarrow> someip_info \<Rightarrow> bytes \<Rightarrow> sd_tracker \<Rightarrow> (u32 list \<times> sd_tracker) option" where
  "sd_inspect buf i src t =
     (if \<not> so_valid i \<or> \<not> is_sd i then Some ([], t)
      else do {
        let key = take 16 src;
        let a1 = session_alerts (last_session t key) (so_session_id i);
        let t = t\<lparr>last_session := (last_session t)(key \<mapsto> so_session_id i)\<rparr>;
        r \<leftarrow> parse_someip_sd_entries buf (so_payload i) (so_avail i);
        Some (a1 @ (case r of None \<Rightarrow> []
          | Some es \<Rightarrow> map (\<lambda>e. 0x1000 + ucast (se_service_id e))
                          (filter (offer_forbidden (service_whitelist t)) es)), t) })"

subsection \<open>DNS\<close>

datatype dns_error = DNS_OK | DNS_ERR_TRUNCATED | DNS_ERR_MALFORMED | DNS_ERR_QNAME

record dns_info =
  dn_valid :: bool
  dn_txid :: u16
  dn_is_response :: bool
  dn_rcode :: u8
  dn_qdcount :: u16
  dn_ancount :: u16
  dn_qname :: bytes
  dn_qtype :: u16
  dn_qclass :: u16
  dn_error :: dns_error

definition no_dns :: dns_info where
  "no_dns = \<lparr> dn_valid = False, dn_txid = 0, dn_is_response = False, dn_rcode = 0, dn_qdcount = 0,
     dn_ancount = 0, dn_qname = [], dn_qtype = 0, dn_qclass = 0, dn_error = DNS_OK \<rparr>"

definition label_char_ok :: "u8 \<Rightarrow> bool" where
  "label_char_ok c \<longleftrightarrow> (c \<ge> 0x61 \<and> c \<le> 0x7A) \<or> (c \<ge> 0x41 \<and> c \<le> 0x5A) \<or> (c \<ge> 0x30 \<and> c \<le> 0x39) \<or>
     c = 0x2D \<or> c = 0x5F"

text \<open>
  The walk over the name: \<open>hops\<close> is what is left of the bound of 32, \<open>qend\<close> is 0 until it is known. The
  result is an error or the name (with the dot after each label) and \<open>qend\<close>.
\<close>

fun dns_name :: "nat \<Rightarrow> bytes \<Rightarrow> nat \<Rightarrow> nat \<Rightarrow> nat \<Rightarrow> nat \<Rightarrow> bytes \<Rightarrow> (dns_error + bytes \<times> nat) option" where
  "dns_name 0 p len off total_len qend name = Some (Inl DNS_ERR_MALFORMED)"
| "dns_name (Suc hops) p len off total_len qend name =
     (if off \<ge> len then Some (Inl DNS_ERR_MALFORMED)
      else do {
        l \<leftarrow> rd8 p off;
        if l AND 0xC0 = 0xC0
        then (if off + 1 \<ge> len then Some (Inl DNS_ERR_MALFORMED)
              else do {
                b \<leftarrow> rd8 p (off + 1);
                let ptr = unat (l AND 0x3F) * 256 + unat b;
                if ptr \<ge> len then Some (Inl DNS_ERR_MALFORMED)
                else dns_name hops p len ptr total_len (if qend = 0 then off + 2 else qend) name })
        else if l = 0 then Some (Inr (name, if qend = 0 then off + 1 else qend))
        else if l > 63 \<or> off + 1 + unat l > len then Some (Inl DNS_ERR_MALFORMED)
        else if total_len + (unat l + 1) > 255 then Some (Inl DNS_ERR_QNAME)
        else do {
          lbl \<leftarrow> view p (off + 1) (unat l);
          if \<not> list_all label_char_ok lbl then Some (Inl DNS_ERR_QNAME)
          else dns_name hops p len (off + (1 + unat l)) (total_len + (unat l + 1)) qend (name @ lbl @ [0x2E]) } })"

definition parse_dns :: "bytes option \<Rightarrow> nat \<Rightarrow> dns_info option" where
  "parse_dns data len = (case data of
     None \<Rightarrow> Some (no_dns\<lparr>dn_error := DNS_ERR_TRUNCATED\<rparr>)
   | Some p \<Rightarrow>
       if len < 12 then Some (no_dns\<lparr>dn_error := DNS_ERR_TRUNCATED\<rparr>)
       else do {
         txid \<leftarrow> rd16 p 0;
         flags \<leftarrow> rd16 p 2;
         qd \<leftarrow> rd16 p 4;
         an \<leftarrow> rd16 p 6;
         let i = no_dns\<lparr>dn_txid := txid, dn_is_response := (flags AND 0x8000 \<noteq> 0),
           dn_rcode := ucast (flags AND 0xF), dn_qdcount := qd, dn_ancount := an\<rparr>;
         if qd = 0 then Some (i\<lparr>dn_valid := True\<rparr>)
         else do {
           r \<leftarrow> dns_name 32 p len 12 0 0 [];
           case r of Inl e \<Rightarrow> Some (i\<lparr>dn_error := e\<rparr>)
           | Inr (name, qend) \<Rightarrow> do {
               let i = i\<lparr>dn_qname := (if name \<noteq> [] \<and> last name = 0x2E then butlast name else name)\<rparr>;
               if qend + 4 > len then Some (i\<lparr>dn_error := DNS_ERR_TRUNCATED\<rparr>)
               else do {
                 qt \<leftarrow> rd16 p qend;
                 qc \<leftarrow> rd16 p (qend + 2);
                 Some (i\<lparr>dn_qtype := qt, dn_qclass := qc, dn_valid := True\<rparr>) } } } })"

definition dns_qtype_suspicious :: "u16 \<Rightarrow> bool" where
  "dns_qtype_suspicious t \<longleftrightarrow> t = 10 \<or> t = 251 \<or> t = 252 \<or> t = 255"

subsection \<open>Properties\<close>

lemma rd_valid:
  "i < length p \<Longrightarrow> rd8 p i = Some (p ! i)"
  "i + 1 < length p \<Longrightarrow> rd16 p i = Some (be16 (p ! i) (p ! (i + 1)))"
  by (simp_all add: rd_simps)

text \<open>
  The DoIP parser stays inside the message and accepts exactly the messages with the inverted
  version byte, a known version, a payload that is completely there and a known payload type; of the
  messages long enough for a header, the inspection raises an alert for exactly the rejected ones and
  the routing activations.
\<close>

lemma doip_inspection:
  assumes "data = Some p" "len = length p" "8 \<le> len"
  shows "\<exists>i. parse_doip data len = Some i \<and>
     (do_valid i \<longleftrightarrow> p ! 0 = NOT (p ! 1) \<and> (p ! 0 = 2 \<or> p ! 0 = 3) \<and>
        unat (be32 (p ! 4) (p ! 5) (p ! 6) (p ! 7)) \<le> len - 8 \<and> known_payload_type (be16 (p ! 2) (p ! 3))) \<and>
     (inspect_doip i \<noteq> None \<longleftrightarrow> \<not> do_valid i \<or> do_payload_type i = DOIP_PT_ROUTING_ACTIVATION) \<and>
     (do_valid i \<longrightarrow> do_payload i = Some 8 \<and> 8 + unat (do_payload_len i) \<le> len)"
proof -
  have "p \<noteq> []" using assms by auto
  with assms show ?thesis
    by (auto simp: parse_doip_def rd_simps size_sub_def Let_def inspect_doip_def no_doip_def)
qed

lemma parse_someip_safe:
  "safely (parse_someip (Some p) (length p)) (\<lambda>i. so_valid i \<longrightarrow> so_payload i = Some 16 \<and> 16 + so_avail i = length p)"
  by (auto simp: parse_someip_def safe_simps Let_def no_someip_def)

text \<open>What a sender of service discovery entries writes.\<close>

definition sd_encode :: "sd_entry \<Rightarrow> bytes" where
  "sd_encode e = [se_type e, 0, 0, 0, hi8 (se_service_id e), lo8 (se_service_id e),
     hi8 (se_instance_id e), lo8 (se_instance_id e), 1, byte2 (se_ttl e), byte1 (se_ttl e),
     byte0 (se_ttl e), 0, 0, 0, 0]"

lemma be32_ttl: "byte3 x = 0 \<Longrightarrow> push_bit 16 (ucast (byte2 x)) OR push_bit 8 (ucast (byte1 x)) OR ucast (byte0 x) = (x :: u32)"
  using be32_bytes [of x] unfolding be32_def by simp

lemma sd_loop_encoded:
  assumes "list_all (\<lambda>e. byte3 (se_ttl e) = 0) es"
  shows "sd_loop ((h @ pre) @ concat (map sd_encode es) @ post) (length h) (length pre)
      (length pre + 16 * length es) = Some es"
  using assms
proof (induction es arbitrary: pre)
  case Nil
  then show ?case by (simp add: sd_loop.simps)
next
  case (Cons e es)
  let ?b = "(h @ pre) @ sd_encode e @ concat (map sd_encode es) @ post"
  have rd: "rd8 ?b (length h + length pre + k) = rd8 (sd_encode e @ concat (map sd_encode es) @ post) k"
    "rd16 ?b (length h + length pre + k) = rd16 (sd_encode e @ concat (map sd_encode es) @ post) k" for k
    using rd_append(1,2) [of "h @ pre" "sd_encode e @ concat (map sd_encode es) @ post" k] by simp_all
  have l: "length (pre @ sd_encode e) = length pre + 16" by (simp add: sd_encode_def)
  have "sd_loop ((h @ pre @ sd_encode e) @ concat (map sd_encode es) @ post) (length h)
      (length (pre @ sd_encode e)) (length (pre @ sd_encode e) + 16 * length es) = Some es"
    using Cons.IH [of "pre @ sd_encode e"] Cons.prems by simp
  then have IH: "sd_loop ?b (length h) (length pre + 16) (length pre + (16 + 16 * length es)) = Some es"
    unfolding l by (simp add: add.assoc)
  have ttl: "push_bit 16 (ucast (byte2 (se_ttl e))) OR push_bit 8 (ucast (byte1 (se_ttl e))) OR
      ucast (byte0 (se_ttl e)) = se_ttl e"
    using Cons.prems by (intro be32_ttl) simp
  note rd0 = rd [of 0, unfolded add_0_right]
  have "sd_loop ?b (length h) (length pre) (length pre + (16 + 16 * length es)) = Some (e # es)"
    unfolding sd_loop.simps [of ?b "length h" "length pre"] IH rd rd0
    by (simp add: sd_encode_def rd8_def rd16_def ttl)
  then show ?case by simp
qed

lemma parse_sd_encoded:
  fixes h post :: bytes
  assumes "list_all (\<lambda>e. byte3 (se_ttl e) = 0) es" "16 * length es < 4294967296"
  defines "n \<equiv> of_nat (16 * length es) :: u32"
  defines "msg \<equiv> h @ [0x80, 0, 0, 0, byte3 n, byte2 n, byte1 n, byte0 n] @ concat (map sd_encode es) @ post"
  shows "parse_someip_sd_entries msg (Some (length h)) (length msg - length h) = Some (Some es)"
proof -
  let ?h8 = "h @ [0x80, 0, 0, 0, byte3 n, byte2 n, byte1 n, byte0 n]"
  have n: "unat n = 16 * length es"
    using assms(2) by (simp add: n_def unat_of_nat del: of_nat_mult of_nat_numeral)
  have c: "length (concat (map sd_encode es)) = 16 * length es"
    by (induction es) (simp_all add: sd_encode_def)
  have r: "rd32 msg (length h + 4) = Some n"
    unfolding msg_def rd_append by (simp add: rd32_def rd8_def)
  have "sd_loop msg (length h + 8) 0 (16 * length es) = Some es"
  proof -
    have "length ?h8 = length h + 8" by simp
    from sd_loop_encoded [OF assms(1), of ?h8 "[]" post, unfolded this] show ?thesis
      by (simp add: msg_def)
  qed
  moreover have "length msg - length h = 8 + 16 * length es + length post"
    by (simp add: msg_def c)
  ultimately show ?thesis
    by (simp add: parse_someip_sd_entries_def r n size_sub_def)
qed

text \<open>
  For a valid service discovery message with the given entries the tracker raises, in this order,
  the session alert exactly when the node's session counter went down outside its wrap, and one alert
  for each offer, with a time to live, of a service outside a non-empty whitelist; and it remembers the
  session of that node only.
\<close>

lemma sd_alerts_exact:
  fixes h post :: bytes
  assumes "list_all (\<lambda>e. byte3 (se_ttl e) = 0) es" "16 * length es < 4294967296"
    "so_valid i" "so_service_id i = 0xFFFF" "so_payload i = Some (length h)"
    "n = of_nat (16 * length es)"
    "msg = h @ [0x80, 0, 0, 0, byte3 n, byte2 n, byte1 n, byte0 n] @ concat (map sd_encode es) @ post"
    "so_avail i = length msg - length h" "length src = 16"
  shows "sd_inspect msg i src t = Some
     ((case last_session t src of
         None \<Rightarrow> []
       | Some pv \<Rightarrow> if so_session_id i < pv \<and> (pv \<le> 0xFF00 \<or> 0x0100 \<le> so_session_id i) then [0x2000] else []) @
      map (\<lambda>e. 0x1000 + ucast (se_service_id e))
        (filter (\<lambda>e. se_type e = 1 \<and> se_ttl e \<noteq> 0 \<and> service_whitelist t \<noteq> [] \<and>
                     se_service_id e \<notin> set (service_whitelist t)) es),
      t\<lparr>last_session := (last_session t)(src \<mapsto> so_session_id i)\<rparr>)"
proof -
  have p: "parse_someip_sd_entries msg (Some (length h)) (length msg - length h) = Some (Some es)"
    using parse_sd_encoded [OF assms(1,2), of h post] assms(6,7) by simp
  have f: "offer_forbidden (service_whitelist t) = (\<lambda>e. se_type e = 1 \<and> se_ttl e \<noteq> 0 \<and> service_whitelist t \<noteq> [] \<and>
                     se_service_id e \<notin> set (service_whitelist t))"
    by (auto simp: offer_forbidden_def idsm_defs word_gt_0 fun_eq_iff)
  show ?thesis
    using assms(3-5,8,9) p
    by (auto simp: sd_inspect_def is_sd_def idsm_defs session_alerts_def f Let_def not_less not_le
        split: option.splits)
qed

definition name_ok :: "bytes \<Rightarrow> bool" where
  "name_ok nm \<longleftrightarrow> length nm \<le> 255 \<and> (nm \<noteq> [] \<longrightarrow> last nm = 0x2E) \<and>
     list_all (\<lambda>c. label_char_ok c \<or> c = 0x2E) nm"

definition dns_post :: "nat \<Rightarrow> dns_error + bytes \<times> nat \<Rightarrow> bool" where
  "dns_post len r \<longleftrightarrow> (case r of Inl e \<Rightarrow> e = DNS_ERR_MALFORMED \<or> e = DNS_ERR_QNAME | Inr (nm, q) \<Rightarrow> q \<le> len \<and> name_ok nm)"

lemma name_ok_label:
  "name_ok nm \<Longrightarrow> list_all label_char_ok l \<Longrightarrow> length nm + (length l + 1) \<le> 255 \<Longrightarrow> name_ok (nm @ l @ [0x2E])"
  by (auto simp: name_ok_def list_all_iff)

lemma dns_post_simps [simp]:
  "dns_post len (Inl e) \<longleftrightarrow> e = DNS_ERR_MALFORMED \<or> e = DNS_ERR_QNAME" "dns_post len (Inr (nm, q)) \<longleftrightarrow> q \<le> len \<and> name_ok nm"
  by (simp_all add: dns_post_def)

lemma dns_name_safe:
  assumes "len = length p" "length name = tot" "qend \<le> len" "name_ok name"
  shows "safely (dns_name hops p len off tot qend name) (dns_post len)"
  using assms(2-4)
proof (induction hops arbitrary: off tot qend name)
  case (Suc hops)
  have ptr: "safely (dns_name hops p len ptr tot (if qend = 0 then off + 2 else qend) name) (dns_post len)"
    if "off + 1 < len" for ptr
    using Suc.prems that by (intro Suc.IH) simp_all
  have lab: "safely (dns_name hops p len (off + (1 + n)) (tot + (n + 1)) qend (name @ l @ [0x2E])) (dns_post len)"
    if "list_all label_char_ok l" "length l = n" "tot + (n + 1) \<le> 255" for l n
    using Suc.prems that by (intro Suc.IH) (simp_all add: name_ok_label)
  consider "len \<le> off" | "off < len" "p ! off AND 0xC0 = 0xC0" | "off < len" "p ! off AND 0xC0 \<noteq> 0xC0" "p ! off = 0"
    | "off < len" "p ! off AND 0xC0 \<noteq> 0xC0" "p ! off \<noteq> 0"
    by linarith
  then show ?case
  proof cases
    case 2
    then show ?thesis using ptr assms(1) by (cases "qend = 0") (simp_all add: safe_simps Let_def)
  next
    case 3
    then show ?thesis using Suc.prems assms(1) by (simp add: safe_simps)
  next
    case 4
    then show ?thesis
      using assms(1) lab [of "take (unat (p ! off)) (drop (off + 1) p)" "unat (p ! off)"]
      by (auto simp: safe_simps)
  qed (simp add: safe_simps)
qed (simp add: safe_simps)

lemma parse_dns_ok:
  assumes "\<And>p. data = Some p \<Longrightarrow> len = length p"
  shows "\<exists>i. parse_dns data len = Some i \<and> (dn_valid i \<longleftrightarrow> dn_error i = DNS_OK) \<and>
     length (dn_qname i) \<le> 254 \<and> list_all (\<lambda>c. label_char_ok c \<or> c = 0x2E) (dn_qname i)"
proof (cases "data = None \<or> len < 12")
  case True
  then show ?thesis by (auto simp: parse_dns_def no_dns_def split: option.split)
next
  case False
  then obtain p where data: "data = Some p" by auto
  then have len: "len = length p" "12 \<le> length p" using assms False by auto
  have "safely (dns_name 32 p len 12 0 0 []) (dns_post len)"
    by (rule dns_name_safe) (use len in \<open>simp_all add: name_ok_def\<close>)
  then obtain r where r: "dns_name 32 p len 12 0 0 [] = Some r" and rr: "dns_post len r"
    unfolding safely_iff by blast
  have ne: "p \<noteq> []" using len by auto
  have bl: "list_all P (butlast xs)" if "list_all P xs" for P :: "u8 \<Rightarrow> bool" and xs
    using that by (induction xs) auto
  show ?thesis
  proof (cases r)
    case (Inl e)
    then show ?thesis
      using len ne rr by (auto simp: dns_post_def data parse_dns_def rd_simps r [unfolded len(1)] no_dns_def Let_def)
  next
    case (Inr nq)
    obtain nm q where nq: "nq = (nm, q)" by (cases nq)
    have b: "q \<le> length p" "length nm \<le> 255" "nm \<noteq> [] \<longrightarrow> last nm = 0x2E"
      "list_all (\<lambda>c. label_char_ok c \<or> c = 0x2E) nm"
      using rr Inr nq len by (simp_all add: dns_post_def name_ok_def)
    then have nm: "length (if nm \<noteq> [] \<and> last nm = 0x2E then butlast nm else nm) \<le> 254"
      "list_all (\<lambda>c. label_char_ok c \<or> c = 0x2E) (if nm \<noteq> [] \<and> last nm = 0x2E then butlast nm else nm)"
      by (auto intro!: bl)
    show ?thesis
      using len ne b(1) nm r
      by (cases "length p < q + 4")
        (simp_all add: data parse_dns_def rd_simps Inr nq no_dns_def Let_def del: if_split)
  qed
qed

text \<open>
  A well-formed name without any bound on its length in hops: \<open>dns_walk p off tot n\<close> says that from \<open>off\<close>, after labels of
  \<open>tot\<close> bytes, \<open>n\<close> labels and pointers lead to the byte that ends the name, all inside the message, with labels of at
  most 63 legal characters and at most 255 bytes in all.
\<close>

inductive dns_walk :: "bytes \<Rightarrow> nat \<Rightarrow> nat \<Rightarrow> nat \<Rightarrow> bool" for p :: bytes where
  walk_end: "off < length p \<Longrightarrow> p ! off = 0 \<Longrightarrow> dns_walk p off tot 0"
| walk_pointer: "off + 1 < length p \<Longrightarrow> p ! off AND 0xC0 = 0xC0 \<Longrightarrow>
    unat (p ! off AND 0x3F) * 256 + unat (p ! (off + 1)) < length p \<Longrightarrow>
    dns_walk p (unat (p ! off AND 0x3F) * 256 + unat (p ! (off + 1))) tot n \<Longrightarrow> dns_walk p off tot (Suc n)"
| walk_label: "off + 1 + unat (p ! off) \<le> length p \<Longrightarrow> p ! off \<noteq> 0 \<Longrightarrow> p ! off \<le> 63 \<Longrightarrow>
    tot + (unat (p ! off) + 1) \<le> 255 \<Longrightarrow> list_all label_char_ok (take (unat (p ! off)) (drop (off + 1) p)) \<Longrightarrow>
    dns_walk p (off + (1 + unat (p ! off))) (tot + (unat (p ! off) + 1)) n \<Longrightarrow> dns_walk p off tot (Suc n)"

inductive_simps dns_walk_0: "dns_walk p off tot 0"
inductive_simps dns_walk_Suc: "dns_walk p off tot (Suc n)"

lemma label_no_pointer: "(x :: u8) \<le> 63 \<Longrightarrow> x AND 0xC0 \<noteq> 0xC0"
proof
  assume "x \<le> 63" "x AND 0xC0 = 0xC0"
  then have "0xC0 \<le> x" using word_and_le2 [of x "0xC0"] by simp
  with \<open>x \<le> 63\<close> show False by (simp add: word_le_nat_alt)
qed

lemma ex_less_Suc_0: "(\<exists>n < Suc h. P n) \<longleftrightarrow> P 0 \<or> (\<exists>n < h. P (Suc n))"
  by (auto simp: less_Suc_eq_0_disj)

lemma dns_name_walk:
  "(\<exists>nm q. dns_name h p (length p) off tot qend name = Some (Inr (nm, q))) \<longleftrightarrow> (\<exists>n < h. dns_walk p off tot n)"
proof (induction h arbitrary: off tot qend name)
  case (Suc h)
  consider (out) "length p \<le> off" | (pointer) "off < length p" "p ! off AND 0xC0 = 0xC0"
    | (stop) "off < length p" "p ! off AND 0xC0 \<noteq> 0xC0" "p ! off = 0"
    | (label) "off < length p" "p ! off AND 0xC0 \<noteq> 0xC0" "p ! off \<noteq> 0"
    by linarith
  then show ?case
  proof cases
    case out
    then show ?thesis by (simp add: ex_less_Suc_0 dns_walk_0 dns_walk_Suc)
  next
    case pointer
    then have "p ! off \<noteq> 0" "\<not> p ! off \<le> 63" using label_no_pointer by auto
    then show ?thesis using pointer by (auto simp: ex_less_Suc_0 dns_walk_0 dns_walk_Suc rd8_def Suc.IH Let_def)
  next
    case stop
    then show ?thesis by (simp add: ex_less_Suc_0 dns_walk_0 rd8_def)
  next
    case label
    then show ?thesis by (auto simp: ex_less_Suc_0 dns_walk_0 dns_walk_Suc rd8_def view_def Suc.IH not_less)
  qed
qed simp

lemma parse_dns_hops:
  assumes "data = Some p" "len = length p" "12 \<le> len" "parse_dns data len = Some i" "dn_qdcount i \<noteq> 0"
  shows "dn_error i \<in> {DNS_OK, DNS_ERR_TRUNCATED} \<longleftrightarrow> (\<exists>n < 32. dns_walk p 12 0 n)"
proof -
  have ne: "p \<noteq> []" using assms by auto
  have "safely (dns_name 32 p len 12 0 0 []) (dns_post len)"
    by (rule dns_name_safe) (use assms in \<open>simp_all add: name_ok_def\<close>)
  then obtain r where r: "dns_name 32 p len 12 0 0 [] = Some r" and rr: "dns_post len r"
    unfolding safely_iff by blast
  have w: "(\<exists>n < 32. dns_walk p 12 0 n) \<longleftrightarrow> (\<exists>nm q. r = Inr (nm, q))"
    using dns_name_walk [of 32 p 12 0 0 "[]"] r assms(2) by simp
  show ?thesis
  proof (cases r)
    case (Inl e)
    then have "dn_error i = e"
      using assms ne by (auto simp: parse_dns_def rd_simps r [unfolded assms(2)] no_dns_def Let_def split: if_split_asm)
    then show ?thesis using rr w Inl by auto
  next
    case (Inr nq)
    obtain nm q where nq: "nq = (nm, q)" by (cases nq)
    have "q \<le> length p" using rr Inr nq assms(2) by simp
    then have "dn_error i \<in> {DNS_OK, DNS_ERR_TRUNCATED}"
      using assms ne r by (cases "length p < q + 4")
        (auto simp: parse_dns_def rd_simps Inr nq no_dns_def Let_def split: if_split_asm)
    then show ?thesis using w Inr nq by simp
  qed
qed

text \<open>
  C30: for every message the DNS parser ends without reading outside the message; the message is valid exactly when no error
  is reported, and the name it gives has at most 254 characters, all of them legal characters of a label or dots. Of a message
  with a header and a question the name is accepted exactly when it is well formed and ends after fewer than 32
  labels and pointers; so a loop of pointers, or a longer name, is rejected.
\<close>

theorem parse_dns_safe:
  assumes "\<And>p. data = Some p \<Longrightarrow> len = length p"
  shows "\<exists>i. parse_dns data len = Some i \<and> (dn_valid i \<longleftrightarrow> dn_error i = DNS_OK) \<and>
     length (dn_qname i) \<le> 254 \<and> list_all (\<lambda>c. label_char_ok c \<or> c = 0x2E) (dn_qname i) \<and>
     (\<forall>p. data = Some p \<and> 12 \<le> len \<and> dn_qdcount i \<noteq> 0 \<longrightarrow>
        (dn_error i \<in> {DNS_OK, DNS_ERR_TRUNCATED} \<longleftrightarrow> (\<exists>n < 32. dns_walk p 12 0 n)))"
proof -
  obtain i where i: "parse_dns data len = Some i" "dn_valid i \<longleftrightarrow> dn_error i = DNS_OK" "length (dn_qname i) \<le> 254"
    "list_all (\<lambda>c. label_char_ok c \<or> c = 0x2E) (dn_qname i)"
    using parse_dns_ok [of data len] assms by blast
  have "dn_error i \<in> {DNS_OK, DNS_ERR_TRUNCATED} \<longleftrightarrow> (\<exists>n < 32. dns_walk p 12 0 n)"
    if "data = Some p \<and> 12 \<le> len \<and> dn_qdcount i \<noteq> 0" for p
    using that parse_dns_hops [of data p len i] assms i(1) by simp
  with i show ?thesis by blast
qed

text \<open>A pointer to itself leads nowhere.\<close>

definition looping_message :: bytes where
  "looping_message = [0, 1, 0, 0, 0, 1, 0, 0, 0, 0, 0, 0, 0xC0, 12, 0, 1, 0, 1]"

lemma looping_walk: "\<not> dns_walk looping_message 12 tot n"
  by (induction n) (simp_all add: dns_walk_0 dns_walk_Suc looping_message_def)

lemma parse_dns_safe_witness:
  "\<exists>i. parse_dns (Some looping_message) 18 = Some i \<and> \<not> dn_valid i"
proof -
  obtain i where i: "parse_dns (Some looping_message) 18 = Some i" "dn_valid i \<longleftrightarrow> dn_error i = DNS_OK"
    "dn_qdcount i \<noteq> 0 \<longrightarrow> dn_error i \<notin> {DNS_OK, DNS_ERR_TRUNCATED}"
    using parse_dns_safe [of "Some looping_message" 18] looping_walk by (auto simp: looping_message_def)
  moreover have "map_option dn_qdcount (parse_dns (Some looping_message) 18) = Some 1" by code_simp
  ultimately show ?thesis by auto
qed

text \<open>A query as a resolver writes it.\<close>

definition dns_labels :: "bytes list \<Rightarrow> bytes" where
  "dns_labels ls = concat (map (\<lambda>l. of_nat (length l) # l) ls)"

definition dns_query :: "u16 \<Rightarrow> bytes list \<Rightarrow> u16 \<Rightarrow> u16 \<Rightarrow> bytes" where
  "dns_query txid ls qt qc = [hi8 txid, lo8 txid, 1, 0, 0, 1, 0, 0, 0, 0, 0, 0] @ dns_labels ls @
     [0, hi8 qt, lo8 qt, hi8 qc, lo8 qc]"

definition dotted :: "bytes list \<Rightarrow> bytes" where
  "dotted ls = concat (map (\<lambda>l. l @ [0x2E]) ls)"

definition label_ok :: "bytes \<Rightarrow> bool" where
  "label_ok l \<longleftrightarrow> l \<noteq> [] \<and> length l \<le> 63 \<and> list_all label_char_ok l"

lemma dns_labels_length: "length (dns_labels ls) = sum_list (map (\<lambda>l. length l + 1) ls)"
  by (induction ls) (simp_all add: dns_labels_def)

lemma label_len_word:
  assumes "n \<le> 63" "0 < n"
  shows "unat (of_nat n :: u8) = n" "(of_nat n :: u8) AND 0xC0 \<noteq> 0xC0" "(of_nat n :: u8) \<noteq> 0"
    "\<not> (of_nat n :: u8) > 63"
proof -
  show u: "unat (of_nat n :: u8) = n" using assms by (simp add: unat_of_nat)
  have "(of_nat n :: u8) AND 0xC0 \<le> of_nat n" by (rule word_and_le2)
  then have "unat ((of_nat n :: u8) AND 0xC0) \<le> 63" using u assms(1) by (simp add: word_le_nat_alt)
  then show "(of_nat n :: u8) AND 0xC0 \<noteq> 0xC0" by (auto simp: word_unat_eq_iff)
  show "(of_nat n :: u8) \<noteq> 0" "\<not> (of_nat n :: u8) > 63"
    using u assms by (auto simp: word_unat_eq_iff word_less_nat_alt)
qed

lemma dns_name_labels:
  assumes "list_all label_ok ls" "length ls < hops"
    "tot + length (dns_labels ls) \<le> 255"
  shows "dns_name hops (pre @ dns_labels ls @ 0 # post) (length (pre @ dns_labels ls @ 0 # post))
      (length pre) tot 0 name =
    Some (Inr (name @ dotted ls, length pre + length (dns_labels ls) + 1))"
  using assms
proof (induction ls arbitrary: hops pre tot name)
  case Nil
  then obtain k where "hops = Suc k" by (cases hops) auto
  then show ?case by (simp add: dns_labels_def dotted_def rd8_def)
next
  case (Cons l ls)
  then obtain k where k: "hops = Suc k" "length ls < k" by (cases hops) auto
  have l: "length l \<le> 63" "0 < length l" "list_all label_char_ok l" using Cons.prems by (auto simp: label_ok_def)
  note w = label_len_word [OF l(1,2)]
  let ?p = "pre @ of_nat (length l) # l @ dns_labels ls @ 0 # post"
  have p: "pre @ dns_labels (l # ls) @ 0 # post = ?p" by (simp add: dns_labels_def)
  have b0: "rd8 ?p (length pre) = Some (of_nat (length l))" by (simp add: rd8_def)
  have v: "view ?p (length pre + 1) (length l) = Some l"
    unfolding rd_append by (simp add: view_def)
  have t: "tot + (length l + 1) + length (dns_labels ls) \<le> 255"
    using Cons.prems(3) by (simp add: dns_labels_def)
  have IH: "dns_name k ?p (length ?p) (length pre + (1 + length l)) (tot + (length l + 1)) 0
      (name @ l @ [0x2E]) =
    Some (Inr ((name @ l @ [0x2E]) @ dotted ls, length pre + (1 + length l) + length (dns_labels ls) + 1))"
    using Cons.IH [of k "tot + (length l + 1)" "pre @ of_nat (length l) # l" "name @ l @ [0x2E]"]
      Cons.prems(1) k(2) t by (simp add: add.assoc)
  have "dns_name hops ?p (length ?p) (length pre) tot 0 name =
     dns_name k ?p (length ?p) (length pre + (1 + length l)) (tot + (length l + 1)) 0 (name @ l @ [0x2E])"
    unfolding k(1) dns_name.simps(2) b0 using w t l(3) v by (simp del: append_assoc)
  then show ?case unfolding p IH by (simp add: dns_labels_def dotted_def)
qed

text \<open>
  A query for a name of at most 31 legal labels, at most 255 bytes long on the wire, parses as
  valid, with the transaction, the type and the class the resolver wrote and the labels joined by
  dots, whatever follows the question.
\<close>

lemma dns_query_parsed:
  assumes "list_all label_ok ls" "length ls \<le> 31" "length (dns_labels ls) \<le> 255"
    "q = dns_query txid ls qt qc @ rest"
  shows "\<exists>i. parse_dns (Some q) (length q) = Some i \<and> dn_valid i \<and> dn_txid i = txid \<and>
     \<not> dn_is_response i \<and> dn_qtype i = qt \<and> dn_qclass i = qc \<and> dn_qname i = butlast (dotted ls)"
proof -
  define h where "h = [hi8 txid, lo8 txid, 1, 0, 0, 1, 0, 0, 0, 0, 0, 0 :: u8]"
  have lh: "length h = 12" by (simp add: h_def)
  let ?post = "[hi8 qt, lo8 qt, hi8 qc, lo8 qc] @ rest"
  have q: "q = h @ dns_labels ls @ 0 # ?post" using assms(4) by (simp add: dns_query_def h_def)
  have nm: "dns_name 32 q (length q) 12 0 0 [] =
      Some (Inr (dotted ls, 12 + length (dns_labels ls) + 1))"
    using dns_name_labels [OF assms(1), of 32 0 h ?post "[]", folded q, unfolded lh] assms(2,3) by simp
  have d: "dotted ls = [] \<or> last (dotted ls) = 0x2E"
    by (cases ls rule: rev_cases) (simp_all add: dotted_def)
  have q2: "q = (h @ dns_labels ls @ [0]) @ ?post" using q by simp
  have e: "length (h @ dns_labels ls @ [0]) = 12 + length (dns_labels ls) + 1" by (simp add: lh)
  have rd: "rd16 q (12 + length (dns_labels ls) + 1) = Some qt"
    "rd16 q (12 + length (dns_labels ls) + 1 + 2) = Some qc"
    unfolding q2 e [symmetric] rd_append rd_append_0 by (simp_all add: rd16_def rd8_def)
  have hd: "rd16 q 0 = Some txid" "rd16 q 2 = Some (be16 1 0)" "rd16 q 4 = Some (be16 0 1)"
    "rd16 q 6 = Some (be16 0 0)"
    by (simp_all add: q h_def rd16_def rd8_def)
  have f: "be16 0 1 \<noteq> 0" "be16 1 0 AND 0x8000 = 0" by (simp_all add: be16_def)
  have l: "\<not> length q < 12" "\<not> length q < 12 + length (dns_labels ls) + 1 + 4" by (simp_all add: q lh)
  show ?thesis
    unfolding parse_dns_def option.case if_not_P [OF l(1)] hd
    using rd f l(2) nm d by (auto simp: Let_def no_dns_def)
qed

end
