(* ===== verification/Eth_Detectors.thy ===== *)
theory Eth_Detectors
  imports Eth_Packet Tumbling_Window "HOL-Library.AList"
begin

text \<open>
  \<open>apps/eth_probe/alert\<close> and \<open>detectors\<close>: TCP flag anomalies, port scans in a sliding window, packet rates
  and ARP spoofing. A map that the code only looks up and updates per key is a partial function; the
  port counts, whose size decides, are an association list. The rate window is an instance of the
  contract of \<open>Tumbling_Window\<close>.
\<close>

subsection \<open>Alerts\<close>

datatype detector_type = DT_PORT_SCAN | DT_RATE_FLOOD | DT_FLAG_ANOMALY | DT_RULE_HIT | DT_DOIP
  | DT_SOMEIP | DT_REASSEMBLY | DT_CROSS_BORDER | DT_TLS | DT_HTTP | DT_DNS | DT_ARP | DT_SURICATA

fun detector_val :: "detector_type \<Rightarrow> u8" where
  "detector_val DT_PORT_SCAN = 1"
| "detector_val DT_RATE_FLOOD = 2"
| "detector_val DT_FLAG_ANOMALY = 3"
| "detector_val DT_RULE_HIT = 4"
| "detector_val DT_DOIP = 5"
| "detector_val DT_SOMEIP = 6"
| "detector_val DT_REASSEMBLY = 7"
| "detector_val DT_CROSS_BORDER = 8"
| "detector_val DT_TLS = 9"
| "detector_val DT_HTTP = 10"
| "detector_val DT_DNS = 11"
| "detector_val DT_ARP = 12"
| "detector_val DT_SURICATA = 100"

record probe_alert =
  pa_detector_type :: detector_type
  pa_proto :: u8
  pa_src_port :: u16
  pa_dst_port :: u16
  pa_src_ip :: bytes
  pa_dst_ip :: bytes
  pa_count :: u32
  pa_aux :: u32

definition make_probe_alert :: "detector_type \<Rightarrow> packet \<Rightarrow> u32 \<Rightarrow> probe_alert" where
  "make_probe_alert dt pp aux = \<lparr> pa_detector_type = dt, pa_proto = l4_proto pp,
     pa_src_port = src_port pp, pa_dst_port = dst_port pp,
     pa_src_ip = take 16 (src_ip pp), pa_dst_ip = take 16 (dst_ip pp), pa_count = 1, pa_aux = aux \<rparr>"

definition key16 :: "bytes \<Rightarrow> bytes" where
  "key16 ip = take 16 ip"

subsection \<open>TCP flags\<close>

definition FLAG_ANOMALY_NULL :: u32 where [idsm_defs]: "FLAG_ANOMALY_NULL = 1"
definition FLAG_ANOMALY_XMAS :: u32 where [idsm_defs]: "FLAG_ANOMALY_XMAS = 2"
definition FLAG_ANOMALY_SYN_FIN :: u32 where [idsm_defs]: "FLAG_ANOMALY_SYN_FIN = 3"

definition check_flag_anomaly :: "packet \<Rightarrow> probe_alert option" where
  "check_flag_anomaly pp =
     (if \<not> is_tcp pp then None
      else let f = tcp_flags pp in
        if f = 0 then Some (make_probe_alert DT_FLAG_ANOMALY pp FLAG_ANOMALY_NULL)
        else if f AND (TCP_FIN OR TCP_PSH OR TCP_URG) = TCP_FIN OR TCP_PSH OR TCP_URG
        then Some (make_probe_alert DT_FLAG_ANOMALY pp FLAG_ANOMALY_XMAS)
        else if f AND TCP_SYN \<noteq> 0 \<and> f AND TCP_FIN \<noteq> 0
        then Some (make_probe_alert DT_FLAG_ANOMALY pp FLAG_ANOMALY_SYN_FIN)
        else None)"

subsection \<open>Port scans\<close>

record scan_cfg =
  ps_window_ms :: u32
  ps_unique_threshold :: nat

record scan_src =
  ps_events :: "(u64 \<times> u16) list"
  ps_port_counts :: "(u16 \<times> u32) list"
  ps_alerted :: bool

definition scan_src_new :: scan_src where
  "scan_src_new = \<lparr> ps_events = [], ps_port_counts = [], ps_alerted = False \<rparr>"

record port_scan =
  ps_cfg :: scan_cfg
  ps_sources :: "bytes \<Rightarrow> scan_src option"

definition drop_port :: "u16 \<Rightarrow> (u16 \<times> u32) list \<Rightarrow> (u16 \<times> u32) list" where
  "drop_port port counts = (case map_of counts port of
     None \<Rightarrow> counts
   | Some n \<Rightarrow> if n - 1 = 0 then AList.delete port counts else AList.update port (n - 1) counts)"

fun expire_events :: "u32 \<Rightarrow> u64 \<Rightarrow> (u64 \<times> u16) list \<Rightarrow> (u16 \<times> u32) list \<Rightarrow>
    (u64 \<times> u16) list \<times> (u16 \<times> u32) list" where
  "expire_events window_ms now_ms [] counts = ([], counts)"
| "expire_events window_ms now_ms ((ts, port) # evs) counts =
     (if now_ms - ts \<ge> ucast window_ms then expire_events window_ms now_ms evs (drop_port port counts)
      else ((ts, port) # evs, counts))"

definition count_port :: "u16 \<Rightarrow> (u16 \<times> u32) list \<Rightarrow> (u16 \<times> u32) list" where
  "count_port port counts =
     AList.update port ((case map_of counts port of None \<Rightarrow> 0 | Some n \<Rightarrow> n) + 1) counts"

definition scan_src_feed :: "scan_cfg \<Rightarrow> u16 \<Rightarrow> u64 \<Rightarrow> scan_src \<Rightarrow> nat option \<times> scan_src" where
  "scan_src_feed cfg port now_ms st = (let
     (evs, counts) = expire_events (ps_window_ms cfg) now_ms (ps_events st) (ps_port_counts st);
     alerted = (if length counts < ps_unique_threshold cfg then False else ps_alerted st);
     evs = evs @ [(now_ms, port)];
     counts = count_port port counts
     in if length counts \<ge> ps_unique_threshold cfg \<and> \<not> alerted
        then (Some (length counts), \<lparr> ps_events = evs, ps_port_counts = counts, ps_alerted = True \<rparr>)
        else (None, \<lparr> ps_events = evs, ps_port_counts = counts, ps_alerted = alerted \<rparr>))"

definition PortScan_feed :: "packet \<Rightarrow> u64 \<Rightarrow> port_scan \<Rightarrow> probe_alert option \<times> port_scan" where
  "PortScan_feed pp now_ms d =
     (if \<not> is_tcp pp then (None, d)
      else let k = key16 (src_ip pp);
               st = (case ps_sources d k of None \<Rightarrow> scan_src_new | Some st \<Rightarrow> st);
               (a, st) = scan_src_feed (ps_cfg d) (dst_port pp) now_ms st
           in (map_option (\<lambda>n. make_probe_alert DT_PORT_SCAN pp (of_nat n)) a,
               d\<lparr>ps_sources := (ps_sources d)(k \<mapsto> st)\<rparr>))"

subsection \<open>Rates\<close>

record flood_state =
  fs_active :: bool
  fs_window_start :: u64
  fs_count :: u32
  fs_alerted :: bool

definition flood_new :: flood_state where
  "flood_new = \<lparr> fs_active = False, fs_window_start = 0, fs_count = 0, fs_alerted = False \<rparr>"

text \<open>The window that the rate detector and the gratuitous-ARP check share.\<close>

definition flood_step :: "u32 \<Rightarrow> u32 \<Rightarrow> u64 \<Rightarrow> flood_state \<Rightarrow> bool \<times> flood_state" where
  "flood_step window_ms threshold now_ms st = (let
     st = (if \<not> fs_active st \<or> now_ms - fs_window_start st \<ge> ucast window_ms
           then \<lparr> fs_active = True, fs_window_start = now_ms, fs_count = 0, fs_alerted = False \<rparr>
           else st);
     st = st\<lparr>fs_count := fs_count st + 1\<rparr>
     in if fs_count st \<ge> threshold \<and> \<not> fs_alerted st then (True, st\<lparr>fs_alerted := True\<rparr>)
        else (False, st))"

record rate_flood =
  rf_window_ms :: u32
  rf_pps_threshold :: u32
  rf_sources :: "bytes \<Rightarrow> flood_state option"

definition rf_state :: "rate_flood \<Rightarrow> bytes \<Rightarrow> flood_state" where
  "rf_state d k = (case rf_sources d k of None \<Rightarrow> flood_new | Some st \<Rightarrow> st)"

definition RateFlood_feed :: "packet \<Rightarrow> u64 \<Rightarrow> rate_flood \<Rightarrow> probe_alert option \<times> rate_flood" where
  "RateFlood_feed pp now_ms d = (let
     k = key16 (src_ip pp);
     (hit, st) = flood_step (rf_window_ms d) (rf_pps_threshold d) now_ms (rf_state d k);
     d = d\<lparr>rf_sources := (rf_sources d)(k \<mapsto> st)\<rparr>
     in (if hit then Some ((make_probe_alert DT_RATE_FLOOD pp (fs_count st))\<lparr>pa_count := fs_count st\<rparr>)
         else None, d))"

subsection \<open>ARP\<close>

definition ARP_ALERT_BINDING_CHANGE :: u32 where [idsm_defs]: "ARP_ALERT_BINDING_CHANGE = 1"
definition ARP_ALERT_GRATUITOUS_STORM :: u32 where [idsm_defs]: "ARP_ALERT_GRATUITOUS_STORM = 2"

record arp_spoof =
  as_window_ms :: u32
  as_gratuitous_threshold :: u32
  as_bindings :: "bytes \<Rightarrow> bytes option"
  as_gratuitous :: "bytes \<Rightarrow> flood_state option"

definition arp_considered :: "packet \<Rightarrow> bool" where
  "arp_considered pp \<longleftrightarrow> is_arp pp \<and> (arp_opcode pp = 1 \<or> arp_opcode pp = 2) \<and>
     take 4 (src_ip pp) \<noteq> [0, 0, 0, 0]"

definition arp_gratuitous :: "packet \<Rightarrow> bool" where
  "arp_gratuitous pp \<longleftrightarrow> (arp_opcode pp = 2 \<and> dst_mac pp = replicate 6 0) \<or>
     (arp_opcode pp = 1 \<and> take 4 (src_ip pp) = take 4 (dst_ip pp))"

definition ArpSpoof_feed :: "packet \<Rightarrow> u64 \<Rightarrow> arp_spoof \<Rightarrow> probe_alert option \<times> arp_spoof" where
  "ArpSpoof_feed pp now_ms d =
     (if \<not> arp_considered pp then (None, d)
      else let spa = take 4 (src_ip pp); old = as_bindings d spa;
               d = d\<lparr>as_bindings := (as_bindings d)(spa \<mapsto> src_mac pp)\<rparr> in
        if old \<noteq> None \<and> old \<noteq> Some (src_mac pp)
        then (Some (make_probe_alert DT_ARP pp ARP_ALERT_BINDING_CHANGE), d)
        else if arp_gratuitous pp
        then let k = take 6 (src_mac pp);
                 st = (case as_gratuitous d k of None \<Rightarrow> flood_new | Some st \<Rightarrow> st);
                 (hit, st) = flood_step (as_window_ms d) (as_gratuitous_threshold d) now_ms st;
                 d = d\<lparr>as_gratuitous := (as_gratuitous d)(k \<mapsto> st)\<rparr>
             in (if hit then Some (make_probe_alert DT_ARP pp ARP_ALERT_GRATUITOUS_STORM) else None, d)
        else (None, d))"

subsection \<open>The rate window is a counting window\<close>

definition flood_abs :: "flood_state \<Rightarrow> window_state" where
  "flood_abs st = (if fs_active st
     then \<lparr> w_start = fs_window_start st, w_count = fs_count st, w_alerted = fs_alerted st \<rparr>
     else fresh_window)"

definition flood_started :: "flood_state \<Rightarrow> bool" where
  "flood_started st \<longleftrightarrow> (fs_active st \<longrightarrow> fs_window_start st > 0)"

lemma flood_new_simps [simp]: "flood_abs flood_new = fresh_window" "flood_started flood_new"
  by (simp_all add: flood_abs_def flood_new_def flood_started_def)

text \<open>
  The window with an explicit flag refines the window whose start 0 means closed, at every time
  after 0.
\<close>

lemma flood_step_refines:
  assumes "flood_started st" "now_ms > 0"
  shows "fst (flood_step w thr now_ms st) = fst (tumble w thr now_ms (flood_abs st))"
    "flood_abs (snd (flood_step w thr now_ms st)) = snd (tumble w thr now_ms (flood_abs st))"
    "flood_started (snd (flood_step w thr now_ms st))"
    "fs_active (snd (flood_step w thr now_ms st))"
  using assms
  by (auto simp: flood_step_def tumble_def open_window_def flood_abs_def flood_started_def
      fresh_window_def Let_def)

interpretation rate_window: tumbling_window RateFlood_feed "\<lambda>d k. flood_abs (rf_state d k)"
  "\<lambda>pp. key16 (src_ip pp)" "\<lambda>_. True" pa_count w thr
  "\<lambda>d. rf_window_ms d = w \<and> rf_pps_threshold d = thr \<and> (\<forall>k. flood_started (rf_state d k))" for w thr
proof unfold_locales
  fix s and e :: packet and t :: u64
  assume c: "rf_window_ms s = w \<and> rf_pps_threshold s = thr \<and> (\<forall>k. flood_started (rf_state s k))" and t: "0 < t"
  let ?k = "key16 (src_ip e)"
  let ?r = "flood_step w thr t (rf_state s ?k)"
  have fr: "flood_started (rf_state s ?k)" using c by simp
  note r = flood_step_refines [OF fr t, of w thr]
  have st: "rf_state (snd (RateFlood_feed e t s)) k = (if k = ?k then snd ?r else rf_state s k)" for k
    using c by (simp add: RateFlood_feed_def rf_state_def Let_def split_def)
  show "rf_window_ms (snd (RateFlood_feed e t s)) = w \<and> rf_pps_threshold (snd (RateFlood_feed e t s)) = thr \<and>
      (\<forall>k. flood_started (rf_state (snd (RateFlood_feed e t s)) k))"
    using c r(3) by (simp add: st) (simp add: RateFlood_feed_def Let_def split_def)
  show "(fst (RateFlood_feed e t s) \<noteq> None) = fst (tumble w thr t (flood_abs (rf_state s ?k)))"
    using c r(1) by (simp add: RateFlood_feed_def Let_def split_def)
  show "flood_abs (rf_state (snd (RateFlood_feed e t s)) k) =
      (if True \<and> k = ?k then snd (tumble w thr t (flood_abs (rf_state s ?k))) else flood_abs (rf_state s k))" for k
    using r(2) by (simp add: st)
  show "pa_count a = w_count (flood_abs (rf_state (snd (RateFlood_feed e t s)) ?k))"
    if "fst (RateFlood_feed e t s) = Some a" for a
    using that c r(4)
    by (auto simp: st flood_abs_def) (auto simp: RateFlood_feed_def Let_def split_def split: if_splits)
qed simp_all

subsection \<open>Port scans against a reference\<close>

text \<open>
  The reference keeps the events of the window only and counts the distinct ports anew for every
  packet.
\<close>

definition distinct_ports :: "(u64 \<times> u16) list \<Rightarrow> nat" where
  "distinct_ports evs = length (remdups (map snd evs))"

definition scan_ref :: "scan_cfg \<Rightarrow> u16 \<Rightarrow> u64 \<Rightarrow> (u64 \<times> u16) list \<times> bool \<Rightarrow>
    nat option \<times> ((u64 \<times> u16) list \<times> bool)" where
  "scan_ref cfg port now_ms s = (let
     evs = dropWhile (\<lambda>(ts, _). now_ms - ts \<ge> ucast (ps_window_ms cfg)) (fst s);
     alerted = (snd s \<and> distinct_ports evs \<ge> ps_unique_threshold cfg);
     evs = evs @ [(now_ms, port)];
     alert = (distinct_ports evs \<ge> ps_unique_threshold cfg \<and> \<not> alerted)
     in (if alert then Some (distinct_ports evs) else None, (evs, alerted \<or> alert)))"

text \<open>The counts are those of the events, for fewer than 2^32 of them.\<close>

definition counts_ok :: "(u64 \<times> u16) list \<Rightarrow> (u16 \<times> u32) list \<Rightarrow> bool" where
  "counts_ok evs counts \<longleftrightarrow> distinct (map fst counts) \<and>
     (\<forall>p. (case map_of counts p of None \<Rightarrow> 0 | Some n \<Rightarrow> unat n) = count_list (map snd evs) p) \<and>
     (\<forall>p. map_of counts p \<noteq> Some 0)"

lemma counts_ok_size:
  assumes "counts_ok evs counts"
  shows "length counts = distinct_ports evs"
proof -
  have "p \<in> set (map fst counts) \<longleftrightarrow> p \<in> set (map snd evs)" for p
  proof -
    have c: "(case map_of counts p of None \<Rightarrow> 0 | Some n \<Rightarrow> unat n) = count_list (map snd evs) p"
      "map_of counts p \<noteq> Some 0"
      using assms by (simp_all add: counts_ok_def)
    have "p \<in> set (map fst counts) \<longleftrightarrow> map_of counts p \<noteq> None"
      by (simp add: map_of_eq_None_iff)
    also have "\<dots> \<longleftrightarrow> count_list (map snd evs) p \<noteq> 0"
      using c by (cases "map_of counts p") (auto simp flip: unat_eq_0)
    also have "\<dots> \<longleftrightarrow> p \<in> set (map snd evs)"
      by (simp only: count_list_0_iff) simp
    finally show ?thesis .
  qed
  then have "set (map fst counts) = set (map snd evs)" by blast
  then have "card (set (map fst counts)) = card (set (map snd evs))" by simp
  moreover have "card (set (map fst counts)) = length counts"
    using assms distinct_card [of "map fst counts"] by (simp add: counts_ok_def)
  ultimately show ?thesis by (simp add: distinct_ports_def length_remdups_card_conv)
qed

lemma counts_ok_drop:
  assumes "counts_ok ((ts, p) # evs) counts"
  shows "counts_ok evs (drop_port p counts)"
proof -
  have c: "(case map_of counts q of None \<Rightarrow> 0 | Some n \<Rightarrow> unat n) = (if q = p then 1 else 0) + count_list (map snd evs) q"
    "map_of counts q \<noteq> Some 0" "distinct (map fst counts)" for q
    using assms by (auto simp: counts_ok_def)
  from c(1) [of p] obtain n where n: "map_of counts p = Some n" "unat n = Suc (count_list (map snd evs) p)"
    by (auto split: option.splits)
  then have "n \<noteq> 0" by auto
  then have m: "unat (n - 1) = count_list (map snd evs) p"
    using n(2) by (simp add: unat_minus_one)
  show ?thesis
  proof (cases "n - 1 = 0")
    case True
    then show ?thesis
      using n m c by (auto simp: drop_port_def counts_ok_def delete_conv' distinct_delete)
  next
    case False
    then show ?thesis
      using n m c by (auto simp: drop_port_def counts_ok_def update_conv' distinct_update)
  qed
qed

lemma counts_ok_count:
  assumes "counts_ok evs counts" "length evs < 4294967295"
  shows "counts_ok (evs @ [(ts, p)]) (count_port p counts)"
proof -
  let ?n = "case map_of counts p of None \<Rightarrow> 0 | Some n \<Rightarrow> n"
  have n: "unat ?n = count_list (map snd evs) p"
  proof -
    have "(case map_of counts p of None \<Rightarrow> 0 | Some n \<Rightarrow> unat n) = count_list (map snd evs) p"
      using assms(1) by (simp add: counts_ok_def)
    then show ?thesis by (cases "map_of counts p") simp_all
  qed
  have "count_list (map snd evs) p \<le> length evs"
    using count_le_length [of "map snd evs" p] by simp
  then have "unat (?n + 1) = Suc (count_list (map snd evs) p)"
    using n assms(2) by (simp add: unat_inc32)
  moreover from this have "?n + 1 \<noteq> 0" by auto
  ultimately show ?thesis
    using assms(1) by (auto simp: count_port_def counts_ok_def update_conv' distinct_update)
qed

lemma expire_events_ok:
  assumes "counts_ok evs counts" "expire_events w now_ms evs counts = (evs', counts')"
  shows "evs' = dropWhile (\<lambda>(ts, _). now_ms - ts \<ge> ucast w) evs \<and> counts_ok evs' counts'"
  using assms
  by (induction w now_ms evs counts rule: expire_events.induct) (auto simp: counts_ok_drop split: if_splits)

text \<open>One source: the detector does what the reference does.\<close>

definition scan_rel :: "nat \<Rightarrow> scan_src \<Rightarrow> (u64 \<times> u16) list \<times> bool \<Rightarrow> bool" where
  "scan_rel n st s \<longleftrightarrow> ps_events st = fst s \<and> ps_alerted st = snd s \<and>
     counts_ok (ps_events st) (ps_port_counts st) \<and> length (ps_events st) \<le> n"

lemma scan_src_feed_refines:
  assumes "scan_rel n st s" "n < 4294967295"
  shows "fst (scan_src_feed cfg port now_ms st) = fst (scan_ref cfg port now_ms s) \<and>
    scan_rel (Suc n) (snd (scan_src_feed cfg port now_ms st)) (snd (scan_ref cfg port now_ms s))"
proof -
  obtain evs counts where e: "expire_events (ps_window_ms cfg) now_ms (ps_events st) (ps_port_counts st) = (evs, counts)"
    by (cases "expire_events (ps_window_ms cfg) now_ms (ps_events st) (ps_port_counts st)")
  have ok: "evs = dropWhile (\<lambda>(ts, _). now_ms - ts \<ge> ucast (ps_window_ms cfg)) (fst s)" "counts_ok evs counts"
  proof -
    have "counts_ok (ps_events st) (ps_port_counts st)" "ps_events st = fst s"
      using assms(1) by (auto simp: scan_rel_def)
    then show "evs = dropWhile (\<lambda>(ts, _). now_ms - ts \<ge> ucast (ps_window_ms cfg)) (fst s)" "counts_ok evs counts"
      using expire_events_ok [OF _ e] by auto
  qed
  have l: "length evs \<le> n"
    using assms(1) unfolding ok(1) scan_rel_def by (metis (no_types, lifting) length_dropWhile_le order_trans)
  have c: "counts_ok (evs @ [(now_ms, port)]) (count_port port counts)"
    using ok(2) l assms(2) by (intro counts_ok_count) simp_all
  have d: "scan_ref cfg port now_ms s = (let
     alerted = (snd s \<and> distinct_ports evs \<ge> ps_unique_threshold cfg);
     evs2 = evs @ [(now_ms, port)];
     alert = (distinct_ports evs2 \<ge> ps_unique_threshold cfg \<and> \<not> alerted)
     in (if alert then Some (distinct_ports evs2) else None, (evs2, alerted \<or> alert)))"
    unfolding scan_ref_def ok(1) by (simp add: Let_def)
  have f: "scan_src_feed cfg port now_ms st = (let
     alerted = (if distinct_ports evs < ps_unique_threshold cfg then False else snd s);
     evs2 = evs @ [(now_ms, port)];
     counts = count_port port counts
     in if distinct_ports evs2 \<ge> ps_unique_threshold cfg \<and> \<not> alerted
        then (Some (distinct_ports evs2), \<lparr> ps_events = evs2, ps_port_counts = counts, ps_alerted = True \<rparr>)
        else (None, \<lparr> ps_events = evs2, ps_port_counts = counts, ps_alerted = alerted \<rparr>))"
  proof -
    have "ps_alerted st = snd s" using assms(1) by (simp add: scan_rel_def)
    then show ?thesis
      unfolding scan_src_feed_def e using counts_ok_size [OF ok(2)] counts_ok_size [OF c] by (simp add: Let_def)
  qed
  show ?thesis
    unfolding d f Let_def using c l by (auto simp: scan_rel_def)
qed

text \<open>The whole detector with the reference in place of the counts.\<close>

type_synonym scan_ref_state = "bytes \<Rightarrow> ((u64 \<times> u16) list \<times> bool) option"

definition PortScan_ref :: "scan_cfg \<Rightarrow> packet \<Rightarrow> u64 \<Rightarrow> scan_ref_state \<Rightarrow> probe_alert option \<times> scan_ref_state" where
  "PortScan_ref cfg pp now_ms r =
     (if \<not> is_tcp pp then (None, r)
      else let k = key16 (src_ip pp);
               (a, s) = scan_ref cfg (dst_port pp) now_ms (case r k of None \<Rightarrow> ([], False) | Some s \<Rightarrow> s)
           in (map_option (\<lambda>n. make_probe_alert DT_PORT_SCAN pp (of_nat n)) a, r(k \<mapsto> s)))"

definition sources_rel :: "nat \<Rightarrow> port_scan \<Rightarrow> scan_ref_state \<Rightarrow> bool" where
  "sources_rel n d r \<longleftrightarrow> (\<forall>k. rel_option (scan_rel n) (ps_sources d k) (r k))"

lemma scan_rel_mono: "scan_rel n st s \<Longrightarrow> n \<le> m \<Longrightarrow> scan_rel m st s"
  by (auto simp: scan_rel_def)

lemma PortScan_feed_refines:
  assumes "sources_rel n d r" "n < 4294967295"
  shows "fst (PortScan_feed pp t d) = fst (PortScan_ref (ps_cfg d) pp t r) \<and>
    sources_rel (Suc n) (snd (PortScan_feed pp t d)) (snd (PortScan_ref (ps_cfg d) pp t r)) \<and>
    ps_cfg (snd (PortScan_feed pp t d)) = ps_cfg d"
proof -
  let ?k = "key16 (src_ip pp)"
  let ?st = "case ps_sources d ?k of None \<Rightarrow> scan_src_new | Some st \<Rightarrow> st"
  let ?s = "case r ?k of None \<Rightarrow> ([], False) | Some s \<Rightarrow> s"
  have "rel_option (scan_rel n) (ps_sources d ?k) (r ?k)" using assms(1) by (simp add: sources_rel_def)
  then have "scan_rel n ?st ?s"
    by cases (auto simp: scan_rel_def scan_src_new_def counts_ok_def)
  note ref = scan_src_feed_refines [OF this assms(2), of "ps_cfg d" "dst_port pp" t]
  have mono: "rel_option (scan_rel (Suc n)) (ps_sources d k) (r k)" for k
  proof -
    have "rel_option (scan_rel n) (ps_sources d k) (r k)" using assms(1) by (simp add: sources_rel_def)
    then show ?thesis by (rule option.rel_mono_strong) (erule scan_rel_mono, simp)
  qed
  show ?thesis
    using ref mono by (auto simp: PortScan_feed_def PortScan_ref_def sources_rel_def Let_def split_def)
qed

text \<open>
  C34: for every sequence of fewer than 2^32 packets the port scan detector, which maintains a count
  per port incrementally, raises exactly the alerts of the reference, which recounts the distinct
  destination ports of the source inside the sliding window for every packet.
\<close>

theorem port_scan_equals_reference:
  assumes "length pkts < 4294967295"
  shows "fst (run (\<lambda>d (pp, t). PortScan_feed pp t d) \<lparr> ps_cfg = cfg, ps_sources = (\<lambda>_. None) \<rparr> pkts) =
    fst (run (\<lambda>r (pp, t). PortScan_ref cfg pp t r) (\<lambda>_. None) pkts)"
proof -
  have "fst (run (\<lambda>d (pp, t). PortScan_feed pp t d) d pkts) =
      fst (run (\<lambda>r (pp, t). PortScan_ref cfg pp t r) r pkts)"
    if "sources_rel n d r" "n + length pkts < 4294967295" "ps_cfg d = cfg" for n d r
    using that
  proof (induction pkts arbitrary: n d r)
    case (Cons x pkts)
    obtain pp t where x: "x = (pp, t)" by (cases x)
    have n: "n < 4294967295" using Cons.prems(2) by simp
    note f = PortScan_feed_refines [OF Cons.prems(1) n, of pp t, unfolded Cons.prems(3)]
    show ?case
      using f Cons.IH [of "Suc n" "snd (PortScan_feed pp t d)" "snd (PortScan_ref cfg pp t r)"]
        Cons.prems(2)
      by (simp add: x Let_def split_def)
  qed simp
  from this [of 0] assms show ?thesis by (simp add: sources_rel_def)
qed

lemma port_scan_equals_reference_witness:
  "fst (run (\<lambda>d (pp, t). PortScan_feed pp t d)
      \<lparr> ps_cfg = \<lparr> ps_window_ms = 10, ps_unique_threshold = 2 \<rparr>, ps_sources = (\<lambda>_. None) \<rparr>
      [(no_packet\<lparr>is_tcp := True, dst_port := 1\<rparr>, 5), (no_packet\<lparr>is_tcp := True, dst_port := 2\<rparr>, 6)]) =
   [None, Some (make_probe_alert DT_PORT_SCAN (no_packet\<lparr>is_tcp := True, dst_port := 2\<rparr>) 2)]"
  using port_scan_equals_reference [of "[(no_packet\<lparr>is_tcp := True, dst_port := 1\<rparr>, 5),
      (no_packet\<lparr>is_tcp := True, dst_port := 2\<rparr>, 6)]" "\<lparr> ps_window_ms = 10, ps_unique_threshold = 2 \<rparr>"]
  by (simp add: PortScan_ref_def scan_ref_def distinct_ports_def no_packet_def word_le_nat_alt)

subsection \<open>Rates and ARP\<close>

definition rate_flood_new :: "u32 \<Rightarrow> u32 \<Rightarrow> rate_flood" where
  "rate_flood_new w thr = \<lparr> rf_window_ms = w, rf_pps_threshold = thr, rf_sources = (\<lambda>_. None) \<rparr>"

text \<open>
  In any sequence of packets in time order inside one rate window, a packet raises the rate alert
  exactly when it is the n-th packet of its source, where n is the threshold (1 for the threshold
  0), and the alert carries the count n.
\<close>

lemma rate_flood_alerts_once:
  assumes "timed_within w t0 (pkts @ [(pp, t)])"
    and "d = snd (run (\<lambda>d (pp, t). RateFlood_feed pp t d) (rate_flood_new w thr) pkts)"
    and "n = length (filter (\<lambda>(q, t). take 16 (src_ip q) = take 16 (src_ip pp)) (pkts @ [(pp, t)]))"
  shows "(fst (RateFlood_feed pp t d) \<noteq> None \<longleftrightarrow> n = max 1 (unat thr)) \<and>
     (\<forall>a. fst (RateFlood_feed pp t d) = Some a \<longrightarrow> unat (pa_count a) = n)"
proof -
  have start: "rf_window_ms (rate_flood_new w thr) = w \<and> rf_pps_threshold (rate_flood_new w thr) = thr \<and>
      (\<forall>k. flood_started (rf_state (rate_flood_new w thr) k))"
    "flood_abs (rf_state (rate_flood_new w thr) k) = fresh_window" for k
    by (simp_all add: rate_flood_new_def rf_state_def)
  note al = rate_window.alert_exactly_at_threshold [OF start assms(1)]
  have d: "d = snd (rate_window.feeds (rate_flood_new w thr) pkts)"
    using assms(2) by (simp add: rate_window.feeds_def)
  have iff: "fst (RateFlood_feed pp t d) \<noteq> None \<longleftrightarrow> n = max 1 (unat thr)"
    using al(1) unfolding d hits_of_def assms(3) key16_def by simp
  then show ?thesis using al(2) d by fastforce
qed

definition arp_history :: "bytes \<Rightarrow> (packet \<times> u64) list \<Rightarrow> bytes list" where
  "arp_history spa pkts = map (\<lambda>(q, t). src_mac q)
     (filter (\<lambda>(q, t). arp_considered q \<and> take 4 (src_ip q) = spa) pkts)"

lemma arp_bindings_last:
  assumes "as_bindings d = (\<lambda>_. None)"
  shows "as_bindings (snd (run (\<lambda>d (pp, t). ArpSpoof_feed pp t d) d pkts)) spa =
    (if arp_history spa pkts = [] then None else Some (last (arp_history spa pkts)))"
proof (induction pkts rule: rev_induct)
  case Nil
  then show ?case using assms by (simp add: arp_history_def)
next
  case (snoc x pkts)
  obtain pp t where x: "x = (pp, t)" by (cases x)
  have b: "as_bindings (snd (ArpSpoof_feed pp t d)) spa =
      (if arp_considered pp \<and> take 4 (src_ip pp) = spa then Some (src_mac pp) else as_bindings d spa)" for d
    by (auto simp: ArpSpoof_feed_def Let_def split_def)
  show ?case
    using snoc.IH by (simp add: x run_append Let_def split_def b) (auto simp: arp_history_def)
qed

text \<open>
  After any sequence of packets, an ARP packet raises the binding alert exactly when an earlier
  considered ARP packet announced its sender address and the last one that did so had another MAC.
\<close>

lemma arp_binding_change:
  assumes "as_bindings d0 = (\<lambda>_. None)"
    and "d = snd (run (\<lambda>d (pp, t). ArpSpoof_feed pp t d) d0 pkts)"
    and "h = arp_history (take 4 (src_ip pp)) pkts"
  shows "(\<exists>a. fst (ArpSpoof_feed pp t d) = Some a \<and> pa_aux a = ARP_ALERT_BINDING_CHANGE) \<longleftrightarrow>
    arp_considered pp \<and> h \<noteq> [] \<and> last h \<noteq> src_mac pp"
  using arp_bindings_last [OF assms(1), of pkts "take 4 (src_ip pp)"] assms(2,3)
  by (auto simp: ArpSpoof_feed_def make_probe_alert_def idsm_defs Let_def split_def split: if_splits)

end
