(* ===== verification/Lru_Table.thy ===== *)
theory Lru_Table
  imports Idsm_Prelude "HOL-Library.AList"
begin

text \<open>
  Tables of the reassembly code: an association list of entries, the list of its keys in
  least-recently-used order, and a memory pool that is charged with the buffered bytes of every entry.
  \<open>pool_ok\<close> is the invariant the three keep together; the lemmas say that the ways the code changes
  a table keep it.
\<close>

definition weight_in :: "('v \<Rightarrow> nat) \<Rightarrow> ('k \<times> 'v) list \<Rightarrow> nat" where
  "weight_in w t = sum_list (map (\<lambda>e. w (snd e)) t)"

definition weight_at :: "('v \<Rightarrow> nat) \<Rightarrow> 'v option \<Rightarrow> nat" where
  "weight_at w v = (case v of None \<Rightarrow> 0 | Some v \<Rightarrow> w v)"

definition pool_ok :: "('v \<Rightarrow> nat) \<Rightarrow> ('v \<Rightarrow> bool) \<Rightarrow> ('k \<times> 'v) list \<Rightarrow> 'k list \<Rightarrow> nat \<Rightarrow> bool" where
  "pool_ok w ok t lru mem \<longleftrightarrow> distinct (map fst t) \<and> distinct lru \<and> set lru = set (map fst t) \<and>
     mem = weight_in w t \<and> (\<forall>e \<in> set t. ok (snd e))"

lemma weight_at_simps [simp]: "weight_at w None = 0" "weight_at w (Some v) = w v"
  by (simp_all add: weight_at_def)

lemma weight_in_update: "weight_in w (AList.update k v t) + weight_at w (map_of t k) = weight_in w t + w v"
  by (induction t) (auto simp: weight_in_def)

lemma weight_in_delete:
  "distinct (map fst t) \<Longrightarrow> weight_in w (AList.delete k t) + weight_at w (map_of t k) = weight_in w t"
proof (induction t)
  case (Cons p t)
  then show ?case
    by (cases "fst p = k") (auto simp: weight_in_def AList.delete_eq split_def filter_id_conv image_iff)
qed (simp add: weight_in_def)

lemma update_entries: "(\<forall>e \<in> set t. P (snd e)) \<Longrightarrow> P v \<Longrightarrow> (\<forall>e \<in> set (AList.update k v t). P (snd e))"
  by (induction t) auto

lemma length_update_at: "map_of t k \<noteq> None \<Longrightarrow> length (AList.update k d t) = length t"
  using arg_cong [OF update_keys [of k d t], of length] by (auto simp: map_of_eq_None_iff)

lemma length_update_le: "length (AList.update k d t) \<le> Suc (length t)"
  using arg_cong [OF update_keys [of k d t], of length] by (simp split: if_splits)

lemma length_delete_le: "length (AList.delete k t) \<le> length t"
  by (simp add: AList.delete_eq)

lemma length_delete_at: "map_of t k \<noteq> None \<Longrightarrow> length (AList.delete k t) < length t"
proof -
  assume "map_of t k \<noteq> None"
  then obtain v where "(k, v) \<in> set t" by (auto dest: map_of_SomeD)
  then show ?thesis unfolding AList.delete_eq by (intro length_filter_less [where x = "(k, v)"]) auto
qed

lemma pool_ok_empty: "pool_ok w ok [] [] 0"
  by (simp add: pool_ok_def weight_in_def)

lemma pool_ok_entry: "pool_ok w ok t lru mem \<Longrightarrow> map_of t k = Some v \<Longrightarrow> ok v"
  by (auto simp: pool_ok_def dest: map_of_SomeD)

lemma pool_ok_key: "pool_ok w ok t lru mem \<Longrightarrow> map_of t k \<noteq> None \<longleftrightarrow> k \<in> set lru"
  by (simp add: pool_ok_def map_of_eq_None_iff)

lemma pool_ok_delete:
  assumes "pool_ok w ok t lru mem"
  shows "pool_ok w ok (AList.delete k t) (remove1 k lru) (mem - weight_at w (map_of t k))"
    "weight_at w (map_of t k) \<le> mem"
proof -
  note ok = assms [unfolded pool_ok_def]
  have w: "weight_in w (AList.delete k t) + weight_at w (map_of t k) = mem"
    using weight_in_delete [of t w k] ok by simp
  then show "weight_at w (map_of t k) \<le> mem" by simp
  have "distinct (map fst (AList.delete k t))" using ok by (simp add: distinct_delete)
  moreover have "set (remove1 k lru) = set (map fst (AList.delete k t))"
    using ok by (auto simp: AList.delete_eq)
  moreover have "\<forall>e \<in> set (AList.delete k t). ok (snd e)" using ok by (simp add: AList.delete_eq)
  ultimately show "pool_ok w ok (AList.delete k t) (remove1 k lru) (mem - weight_at w (map_of t k))"
    using ok w by (simp add: pool_ok_def)
qed

lemma pool_ok_replace:
  assumes "pool_ok w ok t lru mem" "ok v" "map_of t k \<noteq> None" "mem' + weight_at w (map_of t k) = mem + w v"
  shows "pool_ok w ok (AList.update k v t) lru mem'"
proof -
  have "k \<in> set (map fst t)" using assms(3) by (simp add: map_of_eq_None_iff)
  moreover have "weight_in w (AList.update k v t) = mem'"
    using weight_in_update [of w k v t] assms(1,4) by (simp add: pool_ok_def)
  ultimately show ?thesis
    using assms(1) update_entries [of t ok v k] assms(2) by (auto simp: pool_ok_def distinct_update update_keys)
qed

lemma pool_ok_enter:
  assumes "pool_ok w ok t lru mem" "ok v" "w v = weight_at w (map_of t k)"
  shows "pool_ok w ok (AList.update k v t) (remove1 k lru @ [k]) mem"
proof -
  have "weight_in w (AList.update k v t) = mem"
    using weight_in_update [of w k v t] assms(1,3) by (simp add: pool_ok_def)
  moreover have "set (map fst (AList.update k v t)) = insert k (set (map fst t))"
    by (auto simp: update_keys)
  ultimately show ?thesis
    using assms(1) update_entries [of t ok v k] assms(2) by (auto simp: pool_ok_def distinct_update)
qed

end
