(* ===== verification/Eth_Defrag.thy ===== *)
theory Eth_Defrag
  imports Eth_Packet Lru_Table
begin

text \<open>
  \<open>apps/eth_probe/ip_defrag\<close>: reassembly of IP fragments. The table is an association list; the set of
  covered ranges is its sorted list. The list of keys in least-recently-used order stands for the code's list
  together with \<open>lru_pos\<close>, the index into it. Offsets and lengths are natural numbers with the 32-bit
  sum of the code written out; the sizes of the memory pool are \<open>size_t\<close> values, and the invariant of
  the theory shows that no subtraction from them is cut.
\<close>

definition MAX_DATAGRAM_LEN :: nat where "MAX_DATAGRAM_LEN = 65535"

record frag_key =
  fk_src :: bytes
  fk_dst :: bytes
  fk_id :: u32
  fk_proto :: u8
  fk_is_v6 :: bool

record datagram =
  dg_buf :: bytes
  dg_covered :: "(nat \<times> nat) list"
  dg_total_len :: nat
  dg_have_last :: bool
  dg_last_seen_ms :: u64
  dg_accounted :: nat

definition datagram_new :: datagram where
  "datagram_new = \<lparr> dg_buf = [], dg_covered = [], dg_total_len = 0, dg_have_last = False,
     dg_last_seen_ms = 0, dg_accounted = 0 \<rparr>"

record defrag_cfg =
  df_max_datagrams :: nat
  df_max_mem_bytes :: nat
  df_timeout_ms :: u32

record defrag =
  df_cfg :: defrag_cfg
  df_table :: "(frag_key \<times> datagram) list"
  df_lru :: "frag_key list"
  df_mem_used :: nat

definition defrag_new :: "defrag_cfg \<Rightarrow> defrag" where
  "defrag_new cfg = \<lparr> df_cfg = cfg, df_table = [], df_lru = [], df_mem_used = 0 \<rparr>"

subsection \<open>The table\<close>

definition df_touch :: "frag_key \<Rightarrow> defrag \<Rightarrow> defrag" where
  "df_touch k s = s\<lparr>df_lru := remove1 k (df_lru s) @ [k]\<rparr>"

definition accounted_at :: "frag_key \<Rightarrow> defrag \<Rightarrow> nat" where
  "accounted_at k s = (case map_of (df_table s) k of None \<Rightarrow> 0 | Some dg \<Rightarrow> dg_accounted dg)"

text \<open>Removing an entry with its place in the order, and what it is charged for.\<close>

definition df_remove :: "frag_key \<Rightarrow> defrag \<Rightarrow> defrag" where
  "df_remove k s = s\<lparr>df_mem_used := df_mem_used s - accounted_at k s,
     df_table := AList.delete k (df_table s), df_lru := remove1 k (df_lru s)\<rparr>"

definition evict_one :: "defrag \<Rightarrow> bool \<times> defrag" where
  "evict_one s = (case df_lru s of [] \<Rightarrow> (False, s) | victim # _ \<Rightarrow> (True, df_remove victim s))"

text \<open>The two loops that evict while a condition holds; the flag tells whether an entry went.\<close>

function evict_while :: "(defrag \<Rightarrow> bool) \<Rightarrow> defrag \<Rightarrow> bool \<times> defrag" where
  "evict_while P s =
     (if P s \<and> df_lru s \<noteq> [] then (True, snd (evict_while P (snd (evict_one s)))) else (False, s))"
  by pat_completeness auto
termination
  by (relation "measure (\<lambda>(_, s). length (df_lru s))")
    (auto simp: evict_one_def df_remove_def neq_Nil_conv)

declare evict_while.simps [simp del]

subsection \<open>The covered ranges\<close>

text \<open>\<open>lower_bound\<close> splits the ranges into those that start before \<open>begin\<close> and the others.\<close>

definition before :: "nat \<Rightarrow> (nat \<times> nat) list \<Rightarrow> (nat \<times> nat) list" where
  "before b cov = takeWhile (\<lambda>r. fst r < b) cov"

definition from_bound :: "nat \<Rightarrow> (nat \<times> nat) list \<Rightarrow> (nat \<times> nat) list" where
  "from_bound b cov = dropWhile (\<lambda>r. fst r < b) cov"

definition prev_touches :: "nat \<Rightarrow> (nat \<times> nat) list \<Rightarrow> bool" where
  "prev_touches b cov \<longleftrightarrow> before b cov \<noteq> [] \<and> snd (last (before b cov)) \<ge> b"

text \<open>\<open>memcpy\<close> from the fragment to the buffer, at the cursor of the datagram.\<close>

definition copy_range :: "bytes \<Rightarrow> bytes \<Rightarrow> nat \<Rightarrow> nat \<Rightarrow> nat \<Rightarrow> bytes option" where
  "copy_range buf pl off cursor n =
     (if off \<le> cursor \<and> cursor + n \<le> length buf \<and> cursor - off + n \<le> length pl
      then Some (take cursor buf @ take n (drop (cursor - off) pl) @ drop (cursor + n) buf) else None)"

fun copy_gaps :: "bytes \<Rightarrow> nat \<Rightarrow> nat \<Rightarrow> (nat \<times> nat) list \<Rightarrow> nat \<Rightarrow> bytes \<Rightarrow> bytes option" where
  "copy_gaps pl off e [] cursor buf =
     (if cursor < e then copy_range buf pl off cursor (e - cursor) else Some buf)"
| "copy_gaps pl off e ((b, c) # its) cursor buf =
     (if b < e
      then do {
        buf2 \<leftarrow> (if cursor < b then copy_range buf pl off cursor (b - cursor) else Some buf);
        copy_gaps pl off e its (max cursor c) buf2 }
      else copy_gaps pl off e [] cursor buf)"

fun absorb :: "nat \<Rightarrow> (nat \<times> nat) list \<Rightarrow> nat \<times> (nat \<times> nat) list" where
  "absorb me [] = (me, [])"
| "absorb me ((b, c) # its) = (if b \<le> me then absorb (max me c) its else (me, (b, c) # its))"

definition merge_range :: "nat \<Rightarrow> nat \<Rightarrow> (nat \<times> nat) list \<Rightarrow> (nat \<times> nat) list" where
  "merge_range b e cov = (let
     bef = before b cov;
     (mb, me, bef) = (if prev_touches b cov
       then (min b (fst (last bef)), max e (snd (last bef)), butlast bef) else (b, e, bef));
     (me, aft) = absorb me (from_bound b cov)
     in bef @ (mb, me) # aft)"

text \<open>Copying a fragment into the grown buffer and merging its range.\<close>

definition store_fragment :: "bytes \<Rightarrow> nat \<Rightarrow> nat \<Rightarrow> bool \<Rightarrow> datagram \<Rightarrow> datagram option" where
  "store_fragment pl off e mf dg = do {
     let its = (if prev_touches off (dg_covered dg) then [last (before off (dg_covered dg))] else []) @
               from_bound off (dg_covered dg);
     buf \<leftarrow> copy_gaps pl off e its off (dg_buf dg);
     let dg = dg\<lparr>dg_buf := buf, dg_covered := merge_range off e (dg_covered dg)\<rparr>;
     Some (if mf then dg else dg\<lparr>dg_have_last := True, dg_total_len := e\<rparr>) }"

definition dg_complete :: "datagram \<Rightarrow> bool" where
  "dg_complete dg \<longleftrightarrow> dg_have_last dg \<and>
     (case dg_covered dg of [(b, e)] \<Rightarrow> b = 0 \<and> e \<ge> dg_total_len dg | _ \<Rightarrow> False)"

subsection \<open>The operations\<close>

record frag_result =
  fr_complete :: bool
  fr_evicted :: bool
  fr_datagram :: bytes

definition frag_nothing :: frag_result where
  "frag_nothing = \<lparr> fr_complete = False, fr_evicted = False, fr_datagram = [] \<rparr>"

definition frag_key_of :: "packet \<Rightarrow> frag_key" where
  "frag_key_of pp = \<lparr> fk_src = take 16 (src_ip pp), fk_dst = take 16 (dst_ip pp), fk_id = frag_id pp,
     fk_proto = l4_proto pp, fk_is_v6 = is_ipv6 pp \<rparr>"

definition frag_len32 :: "nat \<Rightarrow> nat \<Rightarrow> nat" where
  "frag_len32 off frag_len = (let flen = frag_len mod 2 ^ 32 in
     if (off + flen) mod 2 ^ 32 > MAX_DATAGRAM_LEN then MAX_DATAGRAM_LEN - off else flen)"

text \<open>Growing the buffer: no result when the pool cannot take it.\<close>

definition grow_buffer :: "frag_key \<Rightarrow> nat \<Rightarrow> datagram \<Rightarrow> defrag \<Rightarrow> bool \<times> datagram option \<times> defrag" where
  "grow_buffer k need dg s =
     (if length (dg_buf dg) < need
      then let grow = need - length (dg_buf dg);
               full = (\<lambda>s. df_mem_used s + grow > df_max_mem_bytes (df_cfg s));
               (ev, s) = evict_while (\<lambda>s. full s \<and> hd (df_lru s) \<noteq> k) s in
        if full s then (ev, None, if dg_accounted dg = 0 then df_remove k s else s)
        else let dg = dg\<lparr>dg_buf := dg_buf dg @ replicate grow 0, dg_accounted := dg_accounted dg + grow\<rparr>
             in (ev, Some dg, s\<lparr>df_mem_used := df_mem_used s + grow, df_table := AList.update k dg (df_table s)\<rparr>)
      else (False, Some dg, s))"

text \<open>The state after the key has been entered, and the entry that the fragment goes into.\<close>

definition df_enter :: "packet \<Rightarrow> u64 \<Rightarrow> defrag \<Rightarrow> bool \<times> datagram \<times> defrag" where
  "df_enter pp now_ms s = (let k = frag_key_of pp;
     (ev1, s) = (if map_of (df_table s) k = None
       then evict_while (\<lambda>s. length (df_table s) \<ge> df_max_datagrams (df_cfg s)) s else (False, s));
     dg = (case map_of (df_table s) k of None \<Rightarrow> datagram_new | Some dg \<Rightarrow> dg)
                     \<lparr>dg_last_seen_ms := now_ms\<rparr>
     in (ev1, dg, df_touch k (s\<lparr>df_table := AList.update k dg (df_table s)\<rparr>)))"

definition add_fragment :: "packet \<Rightarrow> bytes option \<Rightarrow> nat \<Rightarrow> u64 \<Rightarrow> defrag \<Rightarrow> (frag_result \<times> defrag) option" where
  "add_fragment pp frag_payload frag_len now_ms s = (case frag_payload of
     None \<Rightarrow> Some (frag_nothing, s)
   | Some pl \<Rightarrow>
     if frag_len = 0 \<or> unat (frag_offset pp) \<ge> MAX_DATAGRAM_LEN then Some (frag_nothing, s)
     else case df_enter pp now_ms s of (ev1, dg, s) \<Rightarrow>
       let off = unat (frag_offset pp);
           e = (off + frag_len32 off frag_len) mod 2 ^ 32;
           k = frag_key_of pp in
       case grow_buffer k e dg s of (ev2, grown, s) \<Rightarrow> (case grown of
         None \<Rightarrow> Some (frag_nothing\<lparr>fr_evicted := ev1 \<or> ev2\<rparr>, s)
       | Some dg \<Rightarrow> do {
           dg \<leftarrow> store_fragment pl off e (frag_more pp) dg;
           let s = s\<lparr>df_table := AList.update k dg (df_table s)\<rparr>;
           if dg_complete dg
           then do {
             data \<leftarrow> view (dg_buf dg) 0 (dg_total_len dg);
             Some (\<lparr> fr_complete = True, fr_evicted = ev1 \<or> ev2, fr_datagram = data \<rparr>, df_remove k s) }
           else Some (frag_nothing\<lparr>fr_evicted := ev1 \<or> ev2\<rparr>, s) }))"

definition frag_expired :: "u64 \<Rightarrow> defrag_cfg \<Rightarrow> datagram \<Rightarrow> bool" where
  "frag_expired now_ms cfg dg \<longleftrightarrow> now_ms - dg_last_seen_ms dg \<ge> ucast (df_timeout_ms cfg)"

definition df_expire :: "u64 \<Rightarrow> defrag \<Rightarrow> nat \<times> defrag" where
  "df_expire now_ms s = (let
     victims = map fst (filter (\<lambda>(k, dg). frag_expired now_ms (df_cfg s) dg) (df_table s))
     in (length victims, fold df_remove victims s))"

definition active_datagrams :: "defrag \<Rightarrow> nat" where
  "active_datagrams s = length (df_table s)"

definition buffered_bytes :: "defrag \<Rightarrow> nat" where
  "buffered_bytes s = df_mem_used s"

subsection \<open>Ranges as a set\<close>

definition cov_set :: "(nat \<times> nat) list \<Rightarrow> nat set" where
  "cov_set cov = (\<Union>(b, c) \<in> set cov. {b..<c})"

text \<open>The ranges are not empty, in order, and do not touch.\<close>

definition cov_ok :: "(nat \<times> nat) list \<Rightarrow> bool" where
  "cov_ok cov \<longleftrightarrow> sorted_wrt (\<lambda>r q. snd r < fst q) cov \<and> (\<forall>r \<in> set cov. fst r < snd r)"

lemma cov_set_simps [simp]:
  "cov_set [] = {}" "cov_set (r # cov) = {fst r..<snd r} \<union> cov_set cov"
  "cov_set (xs @ ys) = cov_set xs \<union> cov_set ys"
  by (auto simp: cov_set_def split_def)

lemma cov_ok_simps [simp]:
  "cov_ok []"
  "cov_ok (r # cov) \<longleftrightarrow> fst r < snd r \<and> (\<forall>q \<in> set cov. snd r < fst q) \<and> cov_ok cov"
  by (auto simp: cov_ok_def)

lemma cov_ok_append:
  "cov_ok (xs @ ys) \<longleftrightarrow> cov_ok xs \<and> cov_ok ys \<and> (\<forall>r \<in> set xs. \<forall>q \<in> set ys. snd r < fst q)"
  by (auto simp: cov_ok_def sorted_wrt_append)

lemma cov_set_ge: "(\<forall>r \<in> set cov. x \<le> fst r) \<Longrightarrow> i \<in> cov_set cov \<Longrightarrow> x \<le> i"
  by (fastforce simp: cov_set_def)

lemma cov_set_less: "(\<forall>r \<in> set cov. snd r \<le> x) \<Longrightarrow> i \<in> cov_set cov \<Longrightarrow> i < x"
  by (fastforce simp: cov_set_def)

lemma before_from [simp]: "before b cov @ from_bound b cov = cov"
  by (simp add: before_def from_bound_def)

lemma before_less: "r \<in> set (before b cov) \<Longrightarrow> fst r < b"
  unfolding before_def by (auto dest: set_takeWhileD)

lemma from_bound_ge: "cov_ok cov \<Longrightarrow> r \<in> set (from_bound b cov) \<Longrightarrow> b \<le> fst r"
proof (induction cov)
  case (Cons q cov)
  then show ?case
    by (cases "fst q < b") (fastforce simp: from_bound_def)+
qed (simp add: from_bound_def)

lemma cov_split:
  assumes "cov_ok cov"
  shows "cov_ok (before b cov)" "cov_ok (from_bound b cov)"
    "r \<in> set (before b cov) \<Longrightarrow> q \<in> set (from_bound b cov) \<Longrightarrow> snd r < fst q"
    "cov_set cov = cov_set (before b cov) \<union> cov_set (from_bound b cov)"
  using assms cov_ok_append [of "before b cov" "from_bound b cov"]
    cov_set_simps(3) [of "before b cov" "from_bound b cov"] by simp_all

lemma absorb_props:
  assumes "cov_ok its" "absorb me its = (me', rest)"
  shows "me \<le> me' \<and> cov_ok rest \<and> set rest \<subseteq> set its \<and> (\<forall>q \<in> set rest. me' < fst q) \<and>
    (\<forall>x. x \<le> me \<longrightarrow> (\<forall>q \<in> set its. x \<le> fst q) \<longrightarrow> {x..<me'} \<union> cov_set rest = {x..<me} \<union> cov_set its)"
  using assms
proof (induction me its rule: absorb.induct)
  case (2 me b c its)
  show ?case
  proof (cases "b \<le> me")
    case True
    then have IH: "max me c \<le> me' \<and> cov_ok rest \<and> set rest \<subseteq> set its \<and> (\<forall>q \<in> set rest. me' < fst q) \<and>
      (\<forall>x. x \<le> max me c \<longrightarrow> (\<forall>q \<in> set its. x \<le> fst q) \<longrightarrow>
        {x..<me'} \<union> cov_set rest = {x..<max me c} \<union> cov_set its)"
      using 2 by simp
    have "{x..<me'} \<union> cov_set rest = {x..<me} \<union> cov_set ((b, c) # its)"
      if "x \<le> me" "\<forall>q \<in> set ((b, c) # its). x \<le> fst q" for x
    proof -
      have "{x..<me'} \<union> cov_set rest = {x..<max me c} \<union> cov_set its" using IH that by simp
      also have "{x..<max me c} = {x..<me} \<union> {b..<c}" using True that 2(2) by auto
      finally show ?thesis by auto
    qed
    then show ?thesis using IH by auto
  next
    case False
    then show ?thesis using 2 by fastforce
  qed
qed simp

lemma absorb_join:
  assumes "cov_ok xs" "cov_ok aft" "lo < hi" "absorb hi aft = (me, rest)"
    "\<And>r. r \<in> set xs \<Longrightarrow> snd r < lo" "\<And>q. q \<in> set aft \<Longrightarrow> lo \<le> fst q"
  shows "cov_ok (xs @ (lo, me) # rest)"
    "cov_set (xs @ (lo, me) # rest) = cov_set xs \<union> {lo..<hi} \<union> cov_set aft"
proof -
  note a = absorb_props [OF assms(2,4)]
  then have me: "hi \<le> me" and r: "cov_ok rest" "set rest \<subseteq> set aft" "\<forall>q \<in> set rest. me < fst q"
    by simp_all
  have u: "{lo..<me} \<union> cov_set rest = {lo..<hi} \<union> cov_set aft"
    using a assms(3,6) by simp
  have "snd r < fst q" if "r \<in> set xs" "q \<in> set ((lo, me) # rest)" for r q
  proof -
    have "lo \<le> fst q" using that(2) assms(6) [of q] r(2) by (cases "q = (lo, me)") auto
    with assms(5) [OF that(1)] show ?thesis by simp
  qed
  then show "cov_ok (xs @ (lo, me) # rest)"
    using me r assms(1,3) by (simp add: cov_ok_append)
  show "cov_set (xs @ (lo, me) # rest) = cov_set xs \<union> {lo..<hi} \<union> cov_set aft"
    using u by auto
qed

lemma cov_ok_last:
  "cov_ok xs \<Longrightarrow> xs \<noteq> [] \<Longrightarrow> snd (last xs) < b \<Longrightarrow> r \<in> set xs \<Longrightarrow> snd r < b"
  by (cases xs rule: rev_cases) (fastforce simp: cov_ok_append)+

lemma merge_range_props:
  assumes "cov_ok cov" "b < e"
  shows "cov_ok (merge_range b e cov) \<and> cov_set (merge_range b e cov) = {b..<e} \<union> cov_set cov"
proof -
  define bef where "bef = before b cov"
  define aft where "aft = from_bound b cov"
  have ok: "cov_ok bef" "cov_ok aft" and sep: "\<And>r q. r \<in> set bef \<Longrightarrow> q \<in> set aft \<Longrightarrow> snd r < fst q"
    and cs: "cov_set cov = cov_set bef \<union> cov_set aft"
    using cov_split [OF assms(1), where b = b] by (auto simp: bef_def aft_def)
  have lt: "fst r < b" if "r \<in> set bef" for r using that before_less by (simp add: bef_def)
  have ge: "b \<le> fst r" if "r \<in> set aft" for r using that from_bound_ge [OF assms(1)] by (simp add: aft_def)
  show ?thesis
  proof (cases "bef = [] \<or> snd (last bef) < b")
    case True
    obtain me rest where ab: "absorb e aft = (me, rest)" by fastforce
    have m: "merge_range b e cov = bef @ (b, me) # rest"
      using True ab by (auto simp: merge_range_def prev_touches_def bef_def [symmetric] aft_def [symmetric] Let_def)
    have "snd r < b" if "r \<in> set bef" for r
      using True that cov_ok_last [OF ok(1), of b r] by (cases "bef = []") auto
    then have j: "cov_ok (bef @ (b, me) # rest)"
      "cov_set (bef @ (b, me) # rest) = cov_set bef \<union> {b..<e} \<union> cov_set aft"
      using absorb_join [OF ok assms(2) ab] ge by blast+
    show ?thesis unfolding m cs j(2) using j(1) by (simp add: Un_ac)
  next
    case False
    then have ne: "bef \<noteq> []" "b \<le> snd (last bef)" by auto
    define l where "l = last bef"
    define xs where "xs = butlast bef"
    have bx: "bef = xs @ [l]" using ne(1) by (simp add: l_def xs_def)
    have l: "fst l < b" "b \<le> snd l" using lt [of l] ne(1,2) unfolding l_def by simp_all
    obtain me rest where ab: "absorb (max e (snd l)) aft = (me, rest)" by fastforce
    have m: "merge_range b e cov = xs @ (fst l, me) # rest"
      using ne l ab by (auto simp: merge_range_def prev_touches_def bef_def [symmetric] aft_def [symmetric]
          l_def [symmetric] xs_def [symmetric] Let_def)
    have x: "cov_ok xs" "\<And>r. r \<in> set xs \<Longrightarrow> snd r < fst l" using ok(1) by (auto simp: bx cov_ok_append)
    have "fst l \<le> fst q" if "q \<in> set aft" for q using ge [OF that] l by simp
    moreover have "fst l < max e (snd l)" using l by simp
    ultimately have j: "cov_ok (xs @ (fst l, me) # rest)"
      "cov_set (xs @ (fst l, me) # rest) = cov_set xs \<union> {fst l..<max e (snd l)} \<union> cov_set aft"
      using absorb_join [OF x(1) ok(2) _ ab x(2)] by blast+
    have "{fst l..<max e (snd l)} = {b..<e} \<union> {fst l..<snd l}" using l assms(2) by auto
    then show ?thesis unfolding m cs bx j(2) using j(1) by (simp add: Un_ac)
  qed
qed

subsection \<open>First seen wins\<close>

lemma copy_range_props:
  assumes "off \<le> cursor" "cursor + n \<le> length buf" "cursor - off + n \<le> length pl"
  shows "\<exists>buf'. copy_range buf pl off cursor n = Some buf' \<and> length buf' = length buf \<and>
    (\<forall>i < length buf. buf' ! i = (if cursor \<le> i \<and> i < cursor + n then pl ! (i - off) else buf ! i))"
proof -
  have l: "length (take cursor buf) = cursor" "length (take n (drop (cursor - off) pl)) = n"
    using assms by simp_all
  have "(take cursor buf @ take n (drop (cursor - off) pl) @ drop (cursor + n) buf) ! i =
      (if cursor \<le> i \<and> i < cursor + n then pl ! (i - off) else buf ! i)" if "i < length buf" for i
    using assms that unfolding nth_append l by auto
  then show ?thesis using assms by (simp add: copy_range_def)
qed

lemma copy_gaps_props:
  assumes "cov_ok its" "off \<le> cursor" "e \<le> length buf" "e - off \<le> length pl"
  shows "\<exists>buf'. copy_gaps pl off e its cursor buf = Some buf' \<and> length buf' = length buf \<and>
    (\<forall>i < length buf. buf' ! i = (if cursor \<le> i \<and> i < e \<and> i \<notin> cov_set its then pl ! (i - off) else buf ! i))"
  using assms
proof (induction pl off e its cursor buf rule: copy_gaps.induct)
  case (1 pl off e cursor buf)
  then show ?case
    using copy_range_props [of off cursor "e - cursor" buf pl] by (cases "cursor < e") auto
next
  case (2 pl off e b c its cursor buf)
  show ?case
  proof (cases "b < e")
    case False
    have "i \<notin> cov_set ((b, c) # its)" if "i < e" for i
      using that False 2(3) cov_set_ge [of "(b, c) # its" b i] by fastforce
    then show ?thesis using 2(2) [OF False] 2(4-6) False by auto
  next
    case True
    have ex: "\<exists>buf2. (if cursor < b then copy_range buf pl off cursor (b - cursor) else Some buf) = Some buf2 \<and>
      length buf2 = length buf \<and>
      (\<forall>i < length buf. buf2 ! i = (if cursor \<le> i \<and> i < b then pl ! (i - off) else buf ! i))"
      using copy_range_props [of off cursor "b - cursor" buf pl] True 2(4-6) by (cases "cursor < b") auto
    then obtain buf2 where b2: "(if cursor < b then copy_range buf pl off cursor (b - cursor) else Some buf) = Some buf2"
      "length buf2 = length buf"
      "\<forall>i < length buf. buf2 ! i = (if cursor \<le> i \<and> i < b then pl ! (i - off) else buf ! i)" by blast
    have ok: "cov_ok its" "b < c" "\<And>q. q \<in> set its \<Longrightarrow> c < fst q" using 2(3) by auto
    have "\<exists>buf'. copy_gaps pl off e its (max cursor c) buf2 = Some buf' \<and> length buf' = length buf2 \<and>
      (\<forall>i < length buf2. buf' ! i = (if max cursor c \<le> i \<and> i < e \<and> i \<notin> cov_set its then pl ! (i - off) else buf2 ! i))"
      using 2(1) [OF True, of buf2] ok(1) 2(4-6) b2(1,2) by simp
    then obtain buf' where b': "copy_gaps pl off e its (max cursor c) buf2 = Some buf'" "length buf' = length buf"
      "\<forall>i < length buf. buf' ! i = (if max cursor c \<le> i \<and> i < e \<and> i \<notin> cov_set its then pl ! (i - off) else buf2 ! i)"
      using b2(2) by auto
    have cs: "i \<notin> cov_set its" if "i < c" for i
      using that ok(3) cov_set_ge [of its c i] by fastforce
    have "buf' ! i = (if cursor \<le> i \<and> i < e \<and> i \<notin> cov_set ((b, c) # its) then pl ! (i - off) else buf ! i)"
      if "i < length buf" for i
      using b'(3) b2(3) that cs [of i] True ok(2) by (cases "i < b"; cases "i < c") auto
    then show ?thesis using True b2(1) b' by auto
  qed
qed

text \<open>The bytes a datagram holds so far, as a partial map from positions.\<close>

definition dg_abs :: "datagram \<Rightarrow> nat \<Rightarrow> u8 option" where
  "dg_abs dg i = (if i \<in> cov_set (dg_covered dg) then Some (dg_buf dg ! i) else None)"

definition frag_map :: "bytes \<Rightarrow> nat \<Rightarrow> nat \<Rightarrow> nat \<Rightarrow> u8 option" where
  "frag_map pl off e i = (if off \<le> i \<and> i < e then Some (pl ! (i - off)) else None)"

definition dg_ok :: "datagram \<Rightarrow> bool" where
  "dg_ok dg \<longleftrightarrow> cov_ok (dg_covered dg) \<and> (\<forall>r \<in> set (dg_covered dg). snd r \<le> length (dg_buf dg)) \<and>
     (dg_have_last dg \<longrightarrow> dg_total_len dg \<le> length (dg_buf dg))"

lemma cov_set_bound:
  "(\<forall>r \<in> set cov. snd r \<le> n) \<Longrightarrow> cov_set cov \<subseteq> {..<n}"
  by (fastforce simp: cov_set_def)

lemma cov_bound_set:
  assumes "cov_ok cov" "cov_set cov \<subseteq> {..<n}" "r \<in> set cov"
  shows "snd r \<le> n"
proof -
  have "fst r < snd r" using assms(1,3) by (simp add: cov_ok_def)
  then have "snd r - 1 \<in> cov_set cov" using assms(3) unfolding cov_set_def by (intro UN_I [of r]) (auto simp: split_def)
  then have "snd r - 1 < n" using assms(2) by auto
  then show ?thesis by simp
qed

lemma store_its:
  fixes cov :: "(nat \<times> nat) list" and off :: nat
  assumes "cov_ok cov"
  defines "its \<equiv> (if prev_touches off cov then [last (before off cov)] else []) @ from_bound off cov"
  shows "cov_ok its" "off \<le> i \<Longrightarrow> i \<in> cov_set its \<longleftrightarrow> i \<in> cov_set cov"
proof -
  define bef where "bef = before off cov"
  define aft where "aft = from_bound off cov"
  have ok: "cov_ok bef" "cov_ok aft" and sep: "\<And>r q. r \<in> set bef \<Longrightarrow> q \<in> set aft \<Longrightarrow> snd r < fst q"
    and cs: "cov_set cov = cov_set bef \<union> cov_set aft"
    using cov_split [OF assms(1), where b = off] by (auto simp: bef_def aft_def)
  have its: "its = (if prev_touches off cov then [last bef] else []) @ aft"
    by (simp add: its_def bef_def aft_def)
  have lm: "last bef \<in> set bef" if "prev_touches off cov" using that by (simp add: prev_touches_def bef_def)
  then have "cov_ok [last bef]" if "prev_touches off cov" using that ok(1) by (simp add: cov_ok_def)
  then show "cov_ok its" unfolding its using ok(2) lm sep by (auto simp: cov_ok_append)
  assume i: "off \<le> i"
  show "i \<in> cov_set its \<longleftrightarrow> i \<in> cov_set cov"
  proof (cases bef rule: rev_cases)
    case Nil
    then show ?thesis unfolding its cs by (simp add: prev_touches_def bef_def)
  next
    case (snoc xs l)
    have "fst l < off" using snoc before_less [of l off cov] by (simp add: bef_def [symmetric])
    moreover have "\<forall>r \<in> set xs. snd r \<le> fst l" using ok(1) snoc by (auto simp: cov_ok_append less_imp_le)
    ultimately have "i \<notin> cov_set xs" using i cov_set_less [of xs "fst l" i] by auto
    moreover have "prev_touches off cov \<longleftrightarrow> off \<le> snd l" using snoc by (simp add: prev_touches_def bef_def)
    ultimately show ?thesis unfolding its cs snoc using i by auto
  qed
qed

text \<open>Storing a fragment adds its bytes where none were seen before.\<close>

lemma store_fragment_refines:
  assumes "dg_ok dg" "off < e" "e \<le> length (dg_buf dg)" "e - off \<le> length pl"
  shows "\<exists>dg'. store_fragment pl off e mf dg = Some dg' \<and> dg_ok dg' \<and>
    dg_abs dg' = frag_map pl off e ++ dg_abs dg \<and> length (dg_buf dg') = length (dg_buf dg) \<and>
    dg_accounted dg' = dg_accounted dg \<and> dg_have_last dg' = (dg_have_last dg \<or> \<not> mf) \<and>
    dg_total_len dg' = (if mf then dg_total_len dg else e)"
proof -
  let ?its = "(if prev_touches off (dg_covered dg) then [last (before off (dg_covered dg))] else []) @
               from_bound off (dg_covered dg)"
  have cok: "cov_ok (dg_covered dg)" and cb: "\<forall>r \<in> set (dg_covered dg). snd r \<le> length (dg_buf dg)"
    using assms(1) by (simp_all add: dg_ok_def)
  note its = store_its [OF cok, where off = off]
  obtain buf where buf: "copy_gaps pl off e ?its off (dg_buf dg) = Some buf" "length buf = length (dg_buf dg)"
    and nth: "\<forall>i < length (dg_buf dg). buf ! i =
      (if off \<le> i \<and> i < e \<and> i \<notin> cov_set ?its then pl ! (i - off) else dg_buf dg ! i)"
    using copy_gaps_props [OF its(1) order_refl assms(3,4)] by blast
  have nth2: "buf ! i = (if off \<le> i \<and> i < e \<and> i \<notin> cov_set (dg_covered dg) then pl ! (i - off) else dg_buf dg ! i)"
    if "i < length (dg_buf dg)" for i
    using nth that its(2) [of i] by auto
  note m = merge_range_props [OF cok assms(2)]
  let ?dg = "dg\<lparr>dg_buf := buf, dg_covered := merge_range off e (dg_covered dg)\<rparr>"
  let ?dg' = "if mf then ?dg else ?dg\<lparr>dg_have_last := True, dg_total_len := e\<rparr>"
  have st: "store_fragment pl off e mf dg = Some ?dg'"
    unfolding store_fragment_def Let_def buf by simp
  have sub: "cov_set (dg_covered dg) \<subseteq> {..<length (dg_buf dg)}" using cb by (rule cov_set_bound)
  then have "cov_set (merge_range off e (dg_covered dg)) \<subseteq> {..<length buf}"
    using m assms(3) buf(2) by auto
  then have "\<forall>r \<in> set (merge_range off e (dg_covered dg)). snd r \<le> length buf"
    using cov_bound_set m by blast
  then have ok: "dg_ok ?dg'" using assms(1,3) m buf(2) by (simp add: dg_ok_def)
  have "dg_abs ?dg i = (frag_map pl off e ++ dg_abs dg) i" for i
    using m sub nth2 [of i] assms(3) by (auto simp: dg_abs_def frag_map_def map_add_def)
  then have "dg_abs ?dg = frag_map pl off e ++ dg_abs dg" ..
  moreover have "dg_abs ?dg' = dg_abs ?dg" by (simp add: dg_abs_def fun_eq_iff)
  ultimately have "dg_abs ?dg' = frag_map pl off e ++ dg_abs dg" by simp
  then show ?thesis using st ok buf(2) by simp
qed

lemma cov_interval:
  assumes "cov_ok cov" "cov_set cov = {0..<n}" "0 < n"
  shows "cov = [(0, n)]"
proof (cases cov)
  case (Cons r rest)
  have r: "fst r < snd r" "\<forall>q \<in> set rest. snd r < fst q" "cov_ok rest" using assms(1) Cons by auto
  have "rest = []"
  proof (rule ccontr)
    assume "rest \<noteq> []"
    then obtain q where q: "q \<in> set rest" by (cases rest) auto
    then have "fst q < snd q" using r(3) by (simp add: cov_ok_def)
    then have "fst q \<in> cov_set rest" using q by (force simp: cov_set_def)
    then have "fst q < n" using assms(2) Cons by auto
    then have "snd r \<in> cov_set cov" using assms(2) r(2) q by auto
    then have "snd r \<in> cov_set rest" using Cons by simp
    then have "Suc (snd r) \<le> snd r" using cov_set_ge [of rest "Suc (snd r)" "snd r"] r(2) by (simp add: Suc_leI)
    then show False by simp
  qed
  then have e: "{fst r..<snd r} = {0..<n}" using assms(2) Cons by simp
  then have "fst r = 0 \<and> snd r = n" using r(1) assms(3) by (simp add: atLeastLessThan_eq_iff)
  then show ?thesis using Cons \<open>rest = []\<close> by (simp add: prod_eq_iff)
qed (use assms in simp)

lemma dg_complete_covered:
  "dg_complete dg \<longleftrightarrow> dg_have_last dg \<and> (\<exists>e \<ge> dg_total_len dg. dg_covered dg = [(0, e)])"
  by (cases "dg_covered dg"; cases "tl (dg_covered dg)") (auto simp: dg_complete_def)

lemma dg_complete_data:
  assumes "dg_ok dg" "dg_complete dg"
  shows "view (dg_buf dg) 0 (dg_total_len dg) = Some (take (dg_total_len dg) (dg_buf dg))"
    "length (take (dg_total_len dg) (dg_buf dg)) = dg_total_len dg"
    "i < dg_total_len dg \<Longrightarrow> dg_abs dg i = Some (take (dg_total_len dg) (dg_buf dg) ! i)"
  using assms
  by (auto simp: dg_complete_covered dg_ok_def dg_abs_def view_def)

lemma dg_complete_iff:
  assumes "dg_ok dg" "dg_have_last dg \<Longrightarrow> cov_set (dg_covered dg) \<subseteq> {0..<dg_total_len dg}"
    "dg_have_last dg \<Longrightarrow> 0 < dg_total_len dg"
  shows "dg_complete dg \<longleftrightarrow> dg_have_last dg \<and> {0..<dg_total_len dg} \<subseteq> cov_set (dg_covered dg)"
proof
  assume "dg_have_last dg \<and> {0..<dg_total_len dg} \<subseteq> cov_set (dg_covered dg)"
  then have "dg_covered dg = [(0, dg_total_len dg)]"
    using assms cov_interval [of "dg_covered dg" "dg_total_len dg"] by (auto simp: dg_ok_def)
  then show "dg_complete dg" using \<open>dg_have_last dg \<and> _\<close> by (simp add: dg_complete_covered)
next
  assume "dg_complete dg"
  then show "dg_have_last dg \<and> {0..<dg_total_len dg} \<subseteq> cov_set (dg_covered dg)"
    by (auto simp: dg_complete_covered)
qed

subsection \<open>The table and the memory pool\<close>

definition entry_ok :: "datagram \<Rightarrow> bool" where
  "entry_ok dg \<longleftrightarrow> dg_ok dg \<and> dg_accounted dg = length (dg_buf dg) \<and> length (dg_buf dg) \<le> MAX_DATAGRAM_LEN"

definition df_ok :: "defrag \<Rightarrow> bool" where
  "df_ok s \<longleftrightarrow> pool_ok dg_accounted entry_ok (df_table s) (df_lru s) (df_mem_used s) \<and>
     df_mem_used s \<le> df_max_mem_bytes (df_cfg s)"

lemma accounted_at_weight: "accounted_at k s = weight_at dg_accounted (map_of (df_table s) k)"
  by (simp add: accounted_at_def weight_at_def)

lemma df_ok_remove: "df_ok s \<Longrightarrow> df_ok (df_remove k s)"
  using pool_ok_delete [of dg_accounted entry_ok "df_table s" "df_lru s" "df_mem_used s" k]
  by (auto simp: df_ok_def df_remove_def accounted_at_weight)

lemma evict_one_ok: "df_ok s \<Longrightarrow> df_ok (snd (evict_one s))"
  by (auto simp: evict_one_def df_ok_remove split: list.split)

lemma evict_while_ok: "df_ok s \<Longrightarrow> df_ok (snd (evict_while P s))"
proof (induction P s rule: evict_while.induct)
  case (1 P s)
  then show ?case by (subst evict_while.simps) (auto simp: evict_one_ok)
qed

lemma evict_while_stops: "P (snd (evict_while P s)) \<Longrightarrow> df_lru (snd (evict_while P s)) = []"
proof (induction P s rule: evict_while.induct)
  case (1 P s)
  show ?case
  proof (cases "P s \<and> df_lru s \<noteq> []")
    case True
    then show ?thesis using 1 by (simp add: evict_while.simps [of P s])
  next
    case False
    then show ?thesis using 1 by (auto simp: evict_while.simps [of P s])
  qed
qed

lemma evict_one_cfg [simp]: "df_cfg (snd (evict_one s)) = df_cfg s"
  by (simp add: evict_one_def df_remove_def split: list.split)

lemma evict_while_cfg [simp]: "df_cfg (snd (evict_while P s)) = df_cfg s"
proof (induction P s rule: evict_while.induct)
  case (1 P s)
  then show ?case by (subst evict_while.simps) simp
qed

lemma evict_one_length: "df_lru s \<noteq> [] \<Longrightarrow> length (df_table (snd (evict_one s))) \<le> length (df_table s)"
  by (auto simp: evict_one_def df_remove_def AList.delete_eq split: list.split)

text \<open>An eviction loop that spares \<open>k\<close> leaves its entry alone.\<close>

lemma evict_while_spares:
  assumes "\<And>s. P s \<Longrightarrow> hd (df_lru s) \<noteq> k"
  shows "map_of (df_table (snd (evict_while P s))) k = map_of (df_table s) k"
  using assms
proof (induction P s rule: evict_while.induct)
  case (1 P s)
  show ?case
  proof (cases "P s \<and> df_lru s \<noteq> []")
    case True
    then have "map_of (df_table (snd (evict_one s))) k = map_of (df_table s) k"
      using 1(2) [of s] by (auto simp: evict_one_def df_remove_def delete_conv' split: list.split)
    then show ?thesis using True 1 by (simp add: evict_while.simps [of P s])
  next
    case False
    then show ?thesis by (auto simp: evict_while.simps [of P s])
  qed
qed

lemma df_ok_entry: "df_ok s \<Longrightarrow> map_of (df_table s) k = Some dg \<Longrightarrow> entry_ok dg"
  unfolding df_ok_def by (blast dest: pool_ok_entry)

text \<open>Entering or refreshing a key, and replacing its datagram.\<close>

lemma df_ok_put:
  assumes "df_ok s" "entry_ok dg" "map_of (df_table s) k \<noteq> None"
    "mem + accounted_at k s = df_mem_used s + dg_accounted dg"
    "mem \<le> df_max_mem_bytes (df_cfg s)"
  shows "df_ok (s\<lparr>df_mem_used := mem, df_table := AList.update k dg (df_table s)\<rparr>)"
  using assms pool_ok_replace [of dg_accounted entry_ok "df_table s" "df_lru s" "df_mem_used s" dg k mem]
  by (simp add: df_ok_def accounted_at_weight)

lemma df_ok_enter:
  assumes "df_ok s" "entry_ok dg" "dg_accounted dg = accounted_at k s"
  shows "df_ok (df_touch k (s\<lparr>df_table := AList.update k dg (df_table s)\<rparr>))"
  using assms pool_ok_enter [of dg_accounted entry_ok "df_table s" "df_lru s" "df_mem_used s" dg k]
  by (simp add: df_ok_def df_touch_def accounted_at_weight)

lemma df_ok_lru_key: "df_ok s \<Longrightarrow> map_of (df_table s) k \<noteq> None \<longleftrightarrow> k \<in> set (df_lru s)"
  unfolding df_ok_def by (blast dest: pool_ok_key)

lemma df_ok_replace:
  assumes "df_ok s" "entry_ok dg" "map_of (df_table s) k = Some dg0" "dg_accounted dg = dg_accounted dg0"
  shows "df_ok (s\<lparr>df_table := AList.update k dg (df_table s)\<rparr>)"
  using df_ok_put [OF assms(1,2), of k "df_mem_used s"] assms
  by (simp add: accounted_at_weight df_ok_def)

lemma df_remove_length: "length (df_table (df_remove k s)) \<le> length (df_table s)"
  by (simp add: df_remove_def AList.delete_eq)

lemma evict_while_length: "length (df_table (snd (evict_while P s))) \<le> length (df_table s)"
proof (induction P s rule: evict_while.induct)
  case (1 P s)
  show ?case
  proof (cases "P s \<and> df_lru s \<noteq> []")
    case True
    then show ?thesis
      using 1 evict_one_length [of s] by (auto simp: evict_while.simps [of P s] intro: order_trans)
  next
    case False
    then show ?thesis by (auto simp: evict_while.simps [of P s])
  qed
qed

lemma grow_buffer_ok:
  assumes "df_ok s" "map_of (df_table s) k = Some dg" "need \<le> MAX_DATAGRAM_LEN"
  shows "case grow_buffer k need dg s of (ev, r, s') \<Rightarrow> df_ok s' \<and> df_cfg s' = df_cfg s \<and>
    length (df_table s') \<le> length (df_table s) \<and> (\<forall>dg'. r = Some dg' \<longrightarrow> map_of (df_table s') k = Some dg' \<and> entry_ok dg' \<and> need \<le> length (dg_buf dg') \<and>
       dg_abs dg' = dg_abs dg \<and> dg_have_last dg' = dg_have_last dg \<and> dg_total_len dg' = dg_total_len dg \<and>
       dg_covered dg' = dg_covered dg)"
proof (cases "length (dg_buf dg) < need")
  case False
  then show ?thesis using assms df_ok_entry [OF assms(1,2)] by (simp add: grow_buffer_def)
next
  case True
  let ?grow = "need - length (dg_buf dg)"
  let ?full = "\<lambda>s. df_mem_used s + ?grow > df_max_mem_bytes (df_cfg s)"
  obtain ev s1 where es: "evict_while (\<lambda>s. ?full s \<and> hd (df_lru s) \<noteq> k) s = (ev, s1)" by fastforce
  then have s1: "s1 = snd (evict_while (\<lambda>s. ?full s \<and> hd (df_lru s) \<noteq> k) s)" by simp
  have ok: "df_ok s1" "df_cfg s1 = df_cfg s" using assms(1) unfolding s1 by (simp_all add: evict_while_ok)
  have e: "map_of (df_table s1) k = Some dg"
    using assms(2) evict_while_spares [of "\<lambda>s. ?full s \<and> hd (df_lru s) \<noteq> k" k s] unfolding s1 by simp
  have en: "entry_ok dg" using df_ok_entry [OF assms(1,2)] .
  have len: "length (df_table s1) \<le> length (df_table s)" unfolding s1 by (rule evict_while_length)
  let ?dg = "dg\<lparr>dg_buf := dg_buf dg @ replicate ?grow 0, dg_accounted := dg_accounted dg + ?grow\<rparr>"
  let ?s = "s1\<lparr>df_mem_used := df_mem_used s1 + ?grow, df_table := AList.update k ?dg (df_table s1)\<rparr>"
  have gb: "grow_buffer k need dg s = (if ?full s1
     then (ev, None, if dg_accounted dg = 0 then df_remove k s1 else s1) else (ev, Some ?dg, ?s))"
    unfolding grow_buffer_def Let_def if_P [OF True] es prod.case ..
  show ?thesis
  proof (cases "?full s1")
    case full: True
    show ?thesis
      unfolding gb if_P [OF full]
      using ok len order_trans [OF df_remove_length [of k s1] len]
      by (simp add: df_ok_remove) (simp add: df_remove_def)
  next
    case fits: False
    have "entry_ok ?dg" using en True assms(3) by (auto simp: entry_ok_def dg_ok_def)
    moreover have "map_of (df_table s1) k \<noteq> None" using e by simp
    ultimately have "df_ok ?s"
      using fits e by (intro df_ok_put [OF ok(1)]) (auto simp: accounted_at_def)
    moreover have "dg_abs ?dg = dg_abs dg"
      using en cov_set_bound [of "dg_covered dg" "length (dg_buf dg)"]
      by (auto simp: dg_abs_def fun_eq_iff entry_ok_def dg_ok_def nth_append)
    ultimately show ?thesis
      unfolding gb if_not_P [OF fits] using \<open>entry_ok ?dg\<close> True ok(2) len e
      by (simp add: update_conv' length_update_at)
  qed
qed

lemma frag_len32_bounds:
  assumes "off < MAX_DATAGRAM_LEN" "0 < n" "n < 2 ^ 31"
  shows "0 < frag_len32 off n" "frag_len32 off n \<le> n" "off + frag_len32 off n \<le> MAX_DATAGRAM_LEN"
    "(off + frag_len32 off n) mod 2 ^ 32 = off + frag_len32 off n"
    "off + n \<le> MAX_DATAGRAM_LEN \<Longrightarrow> frag_len32 off n = n"
  using assms by (auto simp: frag_len32_def Let_def MAX_DATAGRAM_LEN_def)

lemma df_ok_expire: "df_ok s \<Longrightarrow> df_ok (snd (df_expire now_ms s))"
proof -
  have "df_ok s \<Longrightarrow> df_ok (fold df_remove ks s)" for ks s
    by (induction ks arbitrary: s) (simp_all add: df_ok_remove)
  then show "df_ok s \<Longrightarrow> df_ok (snd (df_expire now_ms s))" by (simp add: df_expire_def Let_def)
qed

lemma df_enter_ok:
  assumes "df_ok s" "df_enter pp now_ms s = (ev, dg, s')"
  shows "df_ok s' \<and> df_cfg s' = df_cfg s \<and> map_of (df_table s') (frag_key_of pp) = Some dg \<and>
    (length (df_table s) \<le> df_max_datagrams (df_cfg s) \<longrightarrow> 0 < df_max_datagrams (df_cfg s) \<longrightarrow>
       length (df_table s') \<le> df_max_datagrams (df_cfg s))"
proof -
  let ?k = "frag_key_of pp"
  let ?P = "\<lambda>s. length (df_table s) \<ge> df_max_datagrams (df_cfg s)"
  obtain ev' s1 where r: "(if map_of (df_table s) ?k = None then evict_while ?P s else (False, s)) = (ev', s1)"
    by fastforce
  have dg: "dg = (case map_of (df_table s1) ?k of None \<Rightarrow> datagram_new | Some dg \<Rightarrow> dg)\<lparr>dg_last_seen_ms := now_ms\<rparr>"
    and s': "s' = df_touch ?k (s1\<lparr>df_table := AList.update ?k dg (df_table s1)\<rparr>)"
    using assms(2) unfolding df_enter_def Let_def r prod.case by blast+
  have s1: "s1 = snd (evict_while ?P s) \<or> (s1 = s \<and> map_of (df_table s) ?k \<noteq> None)"
    using r by (metis prod.sel(2))
  then have ok: "df_ok s1" "df_cfg s1 = df_cfg s" using assms(1) by (auto simp: evict_while_ok)
  have en: "entry_ok dg \<and> dg_accounted dg = accounted_at ?k s1"
    using df_ok_entry [OF ok(1), of ?k] unfolding dg
    by (cases "map_of (df_table s1) ?k") (auto simp: datagram_new_def entry_ok_def dg_ok_def accounted_at_def)
  have len: "length (df_table s') \<le> df_max_datagrams (df_cfg s)"
    if "length (df_table s) \<le> df_max_datagrams (df_cfg s)" "0 < df_max_datagrams (df_cfg s)"
    using s1
  proof
    assume e: "s1 = snd (evict_while ?P s)"
    have "length (df_table s1) < df_max_datagrams (df_cfg s)"
    proof (cases "?P s1")
      case True
      then have "df_lru s1 = []" using evict_while_stops [of ?P s] e by simp
      then have "df_table s1 = []" using ok(1) by (simp add: df_ok_def pool_ok_def)
      then show ?thesis using that by simp
    next
      case False
      then show ?thesis using ok(2) by simp
    qed
    then show ?thesis
      using length_update_le [of ?k dg "df_table s1"] by (simp add: s' df_touch_def)
  next
    assume "s1 = s \<and> map_of (df_table s) ?k \<noteq> None"
    then show ?thesis using that by (simp add: s' df_touch_def length_update_at)
  qed
  show ?thesis
    using df_ok_enter [OF ok(1), of dg ?k] en ok(2) len by (simp add: s' df_touch_def update_conv')
qed

text \<open>The limits of the tables are settings that no step changes.\<close>

lemma add_fragment_cfg:
  assumes "add_fragment pp pl n now_ms s = Some (r, s')"
  shows "df_cfg s' = df_cfg s"
proof -
  have enter: "df_cfg (snd (snd (df_enter pp now_ms s))) = df_cfg s"
    by (simp add: df_enter_def Let_def df_touch_def split_def)
  have grow: "df_cfg (snd (snd (grow_buffer k need dg t))) = df_cfg t" for k need dg t
    by (simp add: grow_buffer_def Let_def df_remove_def split_def)
  have remove: "df_cfg (df_remove k t) = df_cfg t" for k t by (simp add: df_remove_def)
  show ?thesis
  proof (cases "pl = None \<or> n = 0 \<or> unat (frag_offset pp) \<ge> MAX_DATAGRAM_LEN")
    case True
    then show ?thesis using assms by (auto simp: add_fragment_def split: option.splits)
  next
    case False
    obtain ev1 dg s1 where e: "df_enter pp now_ms s = (ev1, dg, s1)" by (cases "df_enter pp now_ms s") auto
    let ?off = "unat (frag_offset pp)"
    obtain ev2 g s2 where g: "grow_buffer (frag_key_of pp) ((?off + frag_len32 ?off n) mod 2 ^ 32) dg s1 = (ev2, g, s2)"
      by (cases "grow_buffer (frag_key_of pp) ((?off + frag_len32 ?off n) mod 2 ^ 32) dg s1") auto
    have "df_cfg s2 = df_cfg s" using enter grow [of _ _ dg s1] e g by (metis snd_conv)
    then show ?thesis
      using assms False e g by (auto simp: add_fragment_def Let_def remove bind_eq_Some_conv split: option.splits if_splits)
  qed
qed

lemma add_fragment_ok:
  assumes "df_ok s" "frag_len = length pl" "frag_len < 2 ^ 31"
  shows "\<exists>r s'. add_fragment pp (Some pl) frag_len now_ms s = Some (r, s') \<and> df_ok s' \<and>
      (length (df_table s) \<le> df_max_datagrams (df_cfg s) \<and> 0 < df_max_datagrams (df_cfg s) \<longrightarrow>
       length (df_table s') \<le> df_max_datagrams (df_cfg s')) \<and>
      df_ok (snd (df_expire now_ms s'))"
proof (cases "frag_len = 0 \<or> unat (frag_offset pp) \<ge> MAX_DATAGRAM_LEN")
  case True
  then show ?thesis using assms(1) by (auto simp: add_fragment_def df_ok_expire)
next
  case False
  let ?k = "frag_key_of pp" and ?off = "unat (frag_offset pp)"
  let ?n = "frag_len32 ?off frag_len"
  obtain ev1 dg s1 where en: "df_enter pp now_ms s = (ev1, dg, s1)" by (metis prod_cases3)
  note eo = df_enter_ok [OF assms(1) en]
  have fb: "0 < ?n" "?n \<le> frag_len" "?off + ?n \<le> MAX_DATAGRAM_LEN" "(?off + ?n) mod 2 ^ 32 = ?off + ?n"
    using frag_len32_bounds [of ?off frag_len] False assms(3) by auto
  obtain ev2 grown s2 where gr: "grow_buffer ?k (?off + ?n) dg s1 = (ev2, grown, s2)" by (metis prod_cases3)
  have go: "df_ok s2" "df_cfg s2 = df_cfg s" "length (df_table s2) \<le> length (df_table s1)"
    "\<And>dg'. grown = Some dg' \<Longrightarrow> map_of (df_table s2) ?k = Some dg' \<and> entry_ok dg' \<and> ?off + ?n \<le> length (dg_buf dg')"
    using grow_buffer_ok [of s1 ?k dg "?off + ?n"] eo fb(3) gr by auto
  note af = add_fragment_def [of pp "Some pl" frag_len now_ms s, unfolded option.case if_not_P [OF False] en prod.case Let_def fb(4) gr]
  show ?thesis
  proof (cases grown)
    case None
    then show ?thesis
      using go eo by (auto simp: af df_ok_expire)
  next
    case (Some dg1)
    have g: "map_of (df_table s2) ?k = Some dg1" "entry_ok dg1" "?off + ?n \<le> length (dg_buf dg1)" using go(4) Some by auto
    have pre: "dg_ok dg1" "?off < ?off + ?n" "?off + ?n \<le> length (dg_buf dg1)" "?off + ?n - ?off \<le> length pl"
      using g fb assms(2) by (auto simp: entry_ok_def)
    obtain dg2 where st: "store_fragment pl ?off (?off + ?n) (frag_more pp) dg1 = Some dg2"
      and ok2: "dg_ok dg2" "length (dg_buf dg2) = length (dg_buf dg1)" "dg_accounted dg2 = dg_accounted dg1"
      using store_fragment_refines [OF pre, of "frag_more pp"] by blast
    have "entry_ok dg2" using ok2 g(2) by (simp add: entry_ok_def)
    then have ok3: "df_ok (s2\<lparr>df_table := AList.update ?k dg2 (df_table s2)\<rparr>)"
      using df_ok_replace [OF go(1) _ g(1)] ok2(3) by simp
    have len: "length (AList.update ?k dg2 (df_table s2)) = length (df_table s2)"
      using g(1) by (simp add: length_update_at)
    show ?thesis
    proof (cases "dg_complete dg2")
      case True
      let ?s = "df_remove ?k (s2\<lparr>df_table := AList.update ?k dg2 (df_table s2)\<rparr>)"
      have "length (df_table ?s) \<le> length (df_table s2)"
        using df_remove_length [of ?k "s2\<lparr>df_table := AList.update ?k dg2 (df_table s2)\<rparr>"] len by simp
      moreover have "df_ok ?s" "df_cfg ?s = df_cfg s" using ok3 go(2) by (simp_all add: df_ok_remove) (simp add: df_remove_def)
      ultimately show ?thesis
        using True dg_complete_data(1) [OF ok2(1) True] go(3) eo by (auto simp: af Some st df_ok_expire)
    next
      case f: False
      then show ?thesis using ok3 go(2,3) eo len by (auto simp: af Some st df_ok_expire)
    qed
  qed
qed

text \<open>
  In every state the reassembly keeps its books, and it stays within its caps: the pool never holds
  more than its limit, it is exactly the sum of the buffers, the order lists exactly the entries, no
  copy leaves its buffer, and no subtraction from the pool is cut.
\<close>

lemma defrag_invariant:
  assumes "df_ok s" "frag_len = length pl" "frag_len < 2 ^ 31"
  shows "\<exists>r s'. add_fragment pp (Some pl) frag_len now_ms s = Some (r, s') \<and> df_ok s' \<and>
      (length (df_table s) \<le> df_max_datagrams (df_cfg s) \<and> 0 < df_max_datagrams (df_cfg s) \<longrightarrow>
       length (df_table s') \<le> df_max_datagrams (df_cfg s')) \<and>
      df_ok (snd (df_expire now_ms s'))"
  using add_fragment_ok [OF assms] .

subsection \<open>Reassembling a datagram\<close>

text \<open>A fragment with its slice and its time; a piece of the datagram \<open>M\<close>.\<close>

type_synonym frag_in = "packet \<times> bytes \<times> u64"

definition piece_at :: "frag_in \<Rightarrow> nat \<Rightarrow> bool" where
  "piece_at f i \<longleftrightarrow> unat (frag_offset (fst f)) \<le> i \<and> i < unat (frag_offset (fst f)) + length (fst (snd f))"

definition is_piece :: "bytes \<Rightarrow> frag_key \<Rightarrow> frag_in \<Rightarrow> bool" where
  "is_piece M k f \<longleftrightarrow> (case f of (pp, pl, t) \<Rightarrow> frag_key_of pp = k \<and> pl \<noteq> [] \<and>
     unat (frag_offset pp) + length pl \<le> length M \<and>
     pl = take (length pl) (drop (unat (frag_offset pp)) M) \<and>
     frag_more pp = (unat (frag_offset pp) + length pl < length M))"

definition seen_by :: "frag_in list \<Rightarrow> nat \<Rightarrow> bool" where
  "seen_by fs i \<longleftrightarrow> list_ex (\<lambda>f. piece_at f i) fs"

definition covers :: "bytes \<Rightarrow> frag_in list \<Rightarrow> bool" where
  "covers M fs \<longleftrightarrow> list_all (seen_by fs) [0..<length M]"

fun add_all :: "frag_in list \<Rightarrow> defrag \<Rightarrow> defrag option" where
  "add_all [] s = Some s"
| "add_all ((pp, pl, t) # fs) s = do { (r, s) \<leftarrow> add_fragment pp (Some pl) (length pl) t s; add_all fs s }"

definition assembling :: "bytes \<Rightarrow> frag_key \<Rightarrow> frag_in list \<Rightarrow> datagram \<Rightarrow> bool" where
  "assembling M k fs dg \<longleftrightarrow> length (dg_buf dg) \<le> length M \<and>
     dg_abs dg = (\<lambda>i. if seen_by fs i then Some (M ! i) else None) \<and>
     dg_have_last dg = list_ex (\<lambda>f. \<not> frag_more (fst f)) fs \<and>
     (dg_have_last dg \<longrightarrow> dg_total_len dg = length M)"

definition assembling_in :: "bytes \<Rightarrow> frag_key \<Rightarrow> frag_in list \<Rightarrow> defrag \<Rightarrow> bool" where
  "assembling_in M k fs s \<longleftrightarrow> df_ok s \<and> length M \<le> df_max_mem_bytes (df_cfg s) \<and> 0 < df_max_datagrams (df_cfg s) \<and>
     (if fs = [] then df_table s = [] else \<exists>dg. df_table s = [(k, dg)] \<and> assembling M k fs dg)"

lemma df_ok_single_lru: "df_ok s \<Longrightarrow> df_table s = [(k, dg)] \<Longrightarrow> df_lru s = [k]"
proof -
  assume a: "df_ok s" "df_table s = [(k, dg)]"
  then have "set (df_lru s) = {k}" "distinct (df_lru s)" by (simp_all add: df_ok_def pool_ok_def)
  then show "df_lru s = [k]"
    by (cases "df_lru s"; cases "tl (df_lru s)") auto
qed

lemma dg_abs_time [simp]: "dg_abs (dg\<lparr>dg_last_seen_ms := t\<rparr>) = dg_abs dg"
  by (simp add: dg_abs_def fun_eq_iff)

lemma enter_single:
  assumes "assembling_in M k fs s" "frag_key_of pp = k"
  shows "\<exists>dg s1. df_enter pp t s = (False, dg, s1) \<and> df_ok s1 \<and> df_cfg s1 = df_cfg s \<and>
    df_table s1 = [(k, dg)] \<and> df_lru s1 = [k] \<and> assembling M k fs dg"
proof -
  obtain ev dg s1 where en: "df_enter pp t s = (ev, dg, s1)" by (metis prod_cases3)
  have ok: "df_ok s" using assms(1) by (simp add: assembling_in_def)
  note eo = df_enter_ok [OF ok en]
  have "\<not> ev \<and> df_table s1 = [(k, dg)] \<and> assembling M k fs dg"
  proof (cases "fs = []")
    case True
    then have t: "df_table s = []" "0 < df_max_datagrams (df_cfg s)" using assms(1) by (simp_all add: assembling_in_def)
    then have "evict_while (\<lambda>s. length (df_table s) \<ge> df_max_datagrams (df_cfg s)) s = (False, s)"
      by (simp add: evict_while.simps)
    then show ?thesis
      using en t True assms(2)
      by (auto simp: df_enter_def Let_def df_touch_def assembling_def datagram_new_def dg_abs_def seen_by_def)
  next
    case False
    then obtain dg0 where "df_table s = [(k, dg0)]" "assembling M k fs dg0"
      using assms(1) by (auto simp: assembling_in_def)
    then show ?thesis
      using en assms(2) by (auto simp: df_enter_def Let_def df_touch_def assembling_def)
  qed
  then show ?thesis using en eo df_ok_single_lru [of s1 k dg] by auto
qed

lemma grow_single:
  assumes "df_ok s" "df_table s = [(k, dg)]" "df_lru s = [k]" "length (dg_buf dg) \<le> n" "need \<le> n"
    "n \<le> df_max_mem_bytes (df_cfg s)" "need \<le> MAX_DATAGRAM_LEN"
  shows "\<exists>dg' s'. grow_buffer k need dg s = (False, Some dg', s') \<and> df_table s' = [(k, dg')] \<and>
    length (dg_buf dg') \<le> n"
proof -
  have m: "df_mem_used s = length (dg_buf dg)" using assms(1,2) by (simp add: df_ok_def pool_ok_def weight_in_def entry_ok_def)
  have ev: "evict_while (\<lambda>s. P s \<and> hd (df_lru s) \<noteq> k) s = (False, s)" for P
    using assms(3) by (simp add: evict_while.simps)
  show ?thesis
    using assms m by (auto simp: grow_buffer_def ev Let_def)
qed

lemma piece_byte:
  assumes "is_piece M k (pp, pl, t)" "piece_at (pp, pl, t) i"
  shows "pl ! (i - unat (frag_offset pp)) = M ! i"
proof -
  let ?off = "unat (frag_offset pp)"
  obtain n where n: "n = length pl" "pl = take n (drop ?off M)" "?off + n \<le> length M"
    using assms(1) by (auto simp: is_piece_def)
  have i: "?off \<le> i" "i - ?off < n" using assms(2) n(1) by (auto simp: piece_at_def)
  have "take n (drop ?off M) ! (i - ?off) = M ! i" using i n(3) by simp
  then show ?thesis unfolding n(2) [symmetric] .
qed

lemma add_piece:
  assumes "assembling_in M k fs s" "list_all (is_piece M k) fs" "is_piece M k (pp, pl, t)"
    "length M \<le> MAX_DATAGRAM_LEN"
  defines "fs' \<equiv> fs @ [(pp, pl, t)]"
  shows "\<exists>r s'. add_fragment pp (Some pl) (length pl) t s = Some (r, s') \<and> fr_complete r = covers M fs' \<and>
    (fr_complete r \<longrightarrow> fr_datagram r = M) \<and> (\<not> fr_complete r \<longrightarrow> assembling_in M k fs' s')"
proof -
  let ?off = "unat (frag_offset pp)"
  have p: "frag_key_of pp = k" "pl \<noteq> []" "?off + length pl \<le> length M" "frag_more pp = (?off + length pl < length M)"
    using assms(3) by (simp_all add: is_piece_def)
  have cond: "\<not> (length pl = 0 \<or> ?off \<ge> MAX_DATAGRAM_LEN)" using p(2,3) assms(4) by (auto simp: neq_Nil_conv)
  have n31: "length pl < 2 ^ 31" using p(3) assms(4) by (simp add: MAX_DATAGRAM_LEN_def)
  have fl: "frag_len32 ?off (length pl) = length pl" "(?off + length pl) mod 2 ^ 32 = ?off + length pl"
    using frag_len32_bounds [of ?off "length pl"] cond n31 p(2,3) assms(4) by auto
  have ok: "df_ok s" "length M \<le> df_max_mem_bytes (df_cfg s)" "0 < df_max_datagrams (df_cfg s)"
    using assms(1) by (simp_all add: assembling_in_def)
  obtain dg s1 where en: "df_enter pp t s = (False, dg, s1)" and s1: "df_ok s1" "df_cfg s1 = df_cfg s"
    "df_table s1 = [(k, dg)]" "df_lru s1 = [k]" and dg: "assembling M k fs dg"
    using enter_single [OF assms(1) p(1), of t] by blast
  obtain dg1 s2 where gr: "grow_buffer k (?off + length pl) dg s1 = (False, Some dg1, s2)"
    and s2: "df_table s2 = [(k, dg1)]" "length (dg_buf dg1) \<le> length M"
    using grow_single [OF s1(1,3,4) _ p(3), of] dg ok(2) s1(2) p(3) assms(4) by (auto simp: assembling_def)
  have g: "df_ok s2" "df_cfg s2 = df_cfg s" "entry_ok dg1" "?off + length pl \<le> length (dg_buf dg1)"
    "dg_abs dg1 = dg_abs dg" "dg_have_last dg1 = dg_have_last dg" "dg_total_len dg1 = dg_total_len dg"
    using grow_buffer_ok [OF s1(1), of k dg "?off + length pl"] s1(2,3) gr p(3) assms(4) by auto
  have pre: "dg_ok dg1" "?off < ?off + length pl" "?off + length pl \<le> length (dg_buf dg1)" "?off + length pl - ?off \<le> length pl"
    using g p(2) by (auto simp: entry_ok_def)
  obtain dg2 where st: "store_fragment pl ?off (?off + length pl) (frag_more pp) dg1 = Some dg2" and
    d2: "dg_ok dg2" "dg_abs dg2 = frag_map pl ?off (?off + length pl) ++ dg_abs dg1"
    "length (dg_buf dg2) = length (dg_buf dg1)" "dg_accounted dg2 = dg_accounted dg1"
    "dg_have_last dg2 = (dg_have_last dg1 \<or> \<not> frag_more pp)"
    "dg_total_len dg2 = (if frag_more pp then dg_total_len dg1 else ?off + length pl)"
    using store_fragment_refines [OF pre, of "frag_more pp"] by blast
  have sb: "seen_by fs' i \<longleftrightarrow> seen_by fs i \<or> piece_at (pp, pl, t) i" for i by (simp add: seen_by_def fs'_def)
  have abs: "dg_abs dg2 i = (if seen_by fs' i then Some (M ! i) else None)" for i
    unfolding d2(2) g(5) sb
    using dg piece_byte [OF assms(3), of i] by (auto simp: assembling_def frag_map_def map_add_def piece_at_def)
  have last: "dg_have_last dg2 = list_ex (\<lambda>f. \<not> frag_more (fst f)) fs'" "dg_have_last dg2 \<longrightarrow> dg_total_len dg2 = length M"
    using dg d2(5,6) g(6,7) p(3,4) by (auto simp: assembling_def fs'_def)
  have as: "assembling M k fs' dg2"
    using abs last s2(2) d2(3) by (auto simp: assembling_def)
  have cs: "i \<in> cov_set (dg_covered dg2) \<longleftrightarrow> seen_by fs' i" for i
    using abs [of i] by (auto simp: dg_abs_def split: if_splits)
  have pieces: "list_all (is_piece M k) fs'" using assms(2,3) by (simp add: fs'_def)
  have inM: "i < length M" if "seen_by fs' i" for i
    using that pieces by (fastforce simp: seen_by_def list_ex_iff list_all_iff piece_at_def is_piece_def)
  have Mpos: "0 < length M" using p(2,3) by (cases pl) auto
  have lastcov: "dg_have_last dg2" if sl: "seen_by fs' (length M - 1)"
  proof -
    obtain f where f: "f \<in> set fs'" "piece_at f (length M - 1)" using sl unfolding seen_by_def list_ex_iff by blast
    then have "is_piece M k f" using pieces by (simp add: list_all_iff)
    then have "\<not> frag_more (fst f)" using f(2) Mpos by (cases f) (auto simp: is_piece_def piece_at_def)
    then show ?thesis using last(1) f(1) by (auto simp: list_ex_iff)
  qed
  have comp: "dg_complete dg2 = covers M fs'"
  proof -
    have "cov_set (dg_covered dg2) \<subseteq> {0..<dg_total_len dg2}" if "dg_have_last dg2"
      using that last(2) cs inM by auto
    then have "dg_complete dg2 \<longleftrightarrow> dg_have_last dg2 \<and> {0..<dg_total_len dg2} \<subseteq> cov_set (dg_covered dg2)"
      using d2(1) last(2) Mpos by (intro dg_complete_iff) auto
    also have "\<dots> \<longleftrightarrow> covers M fs'"
      using last(2) cs lastcov Mpos by (auto simp: covers_def list_all_iff subset_iff)
    finally show ?thesis .
  qed
  have up: "AList.update k dg2 (df_table s2) = [(k, dg2)]" using s2(1) by simp
  have ok2: "df_ok (s2\<lparr>df_table := [(k, dg2)]\<rparr>)"
    using df_ok_replace [OF g(1), of dg2 k dg1] d2(1,3,4) g(3) s2(1) by (simp add: entry_ok_def)
  note af = add_fragment_def [of pp "Some pl" "length pl" t s, unfolded option.case if_not_P [OF cond] en prod.case
      Let_def fl p(1) gr st bind.bind_lunit up]
  show ?thesis
  proof (cases "covers M fs'")
    case True
    have "take (dg_total_len dg2) (dg_buf dg2) = M"
    proof (rule nth_equalityI)
      have t: "dg_total_len dg2 = length M" using comp True last(2) by (auto simp: dg_complete_covered)
      show l: "length (take (dg_total_len dg2) (dg_buf dg2)) = length M"
        using dg_complete_data(2) [OF d2(1)] comp True t by simp
      fix i assume "i < length (take (dg_total_len dg2) (dg_buf dg2))"
      then have i: "i < length M" unfolding l .
      then have "seen_by fs' i" using True by (simp add: covers_def list_all_iff)
      then show "take (dg_total_len dg2) (dg_buf dg2) ! i = M ! i"
        using dg_complete_data(3) [OF d2(1), of i] comp True t i abs [of i] by simp
    qed
    then show ?thesis
      using af True comp dg_complete_data(1) [OF d2(1)] by simp
  next
    case False
    then show ?thesis
      using af comp ok2 as g(2) ok(2,3) by (simp add: frag_nothing_def assembling_in_def fs'_def)
  qed
qed

lemma add_pieces:
  assumes "list_all (is_piece M k) (fs0 @ fs)" "assembling_in M k fs0 s" "length M \<le> MAX_DATAGRAM_LEN"
    "\<not> covers M (fs0 @ fs)"
  shows "\<exists>s'. add_all fs s = Some s' \<and> assembling_in M k (fs0 @ fs) s'"
  using assms
proof (induction fs arbitrary: fs0 s)
  case (Cons f fs)
  obtain pp pl t where f: "f = (pp, pl, t)" by (cases f)
  have nc: "\<not> covers M (fs0 @ [f])"
    using Cons.prems(4) by (auto simp: covers_def seen_by_def list_all_iff)
  obtain r s' where r: "add_fragment pp (Some pl) (length pl) t s = Some (r, s')" "assembling_in M k (fs0 @ [f]) s'"
    using add_piece [OF Cons.prems(2), of pp pl t] Cons.prems(1,3) nc by (auto simp: f)
  then show ?case using Cons.IH [of "fs0 @ [f]" s'] Cons.prems by (simp add: f)
qed simp

text \<open>
  C31: whatever way a datagram is cut, in whatever order its pieces come, repeated and overlapping as
  they may be: the reassembly reports completion with the first piece after which every byte has been
  seen, not earlier, and the datagram it hands out is the one that was cut.
\<close>

theorem defrag_reassembles:
  assumes "list_all (is_piece M k) (fs @ [(pp, pl, t)])" "length M \<le> 65535" "\<not> covers M fs"
    "length M \<le> df_max_mem_bytes cfg" "0 < df_max_datagrams cfg"
  shows "\<exists>s r s'. add_all fs (defrag_new cfg) = Some s \<and>
     add_fragment pp (Some pl) (length pl) t s = Some (r, s') \<and>
     fr_complete r = covers M (fs @ [(pp, pl, t)]) \<and> (fr_complete r \<longrightarrow> fr_datagram r = M)"
proof -
  have "assembling_in M k [] (defrag_new cfg)"
    using assms(4,5) by (simp add: assembling_in_def defrag_new_def df_ok_def pool_ok_empty)
  moreover have M: "length M \<le> MAX_DATAGRAM_LEN" using assms(2) by (simp add: MAX_DATAGRAM_LEN_def)
  ultimately obtain s where s: "add_all fs (defrag_new cfg) = Some s" "assembling_in M k fs s"
    using add_pieces [of M k "[]" fs "defrag_new cfg"] assms(1,3) by auto
  then show ?thesis using add_piece [OF s(2), of pp pl t] assms(1) M by auto
qed

definition demo_frag :: "nat \<Rightarrow> bool \<Rightarrow> packet" where
  "demo_frag off mf = no_packet\<lparr>is_ipv4 := True, is_fragment := True, frag_offset := of_nat off, frag_more := mf\<rparr>"

lemma defrag_reassembles_witness:
  "\<exists>s r s'. add_all [(demo_frag 2 False, [3, 4], 1)]
      (defrag_new \<lparr> df_max_datagrams = 2, df_max_mem_bytes = 100, df_timeout_ms = 1000 \<rparr>) = Some s \<and>
     add_fragment (demo_frag 0 True) (Some [1, 2, 3]) 3 2 s = Some (r, s') \<and> fr_complete r \<and> fr_datagram r = [1, 2, 3, 4]"
proof -
  have "list_all (is_piece [1, 2, 3, 4] (frag_key_of (demo_frag 0 True)))
      ([(demo_frag 2 False, [3, 4], 1)] @ [(demo_frag 0 True, [1, 2, 3], 2)])"
    by (simp add: is_piece_def demo_frag_def frag_key_of_def)
  moreover have "\<not> covers [1, 2, 3, 4 :: u8] [(demo_frag 2 False, [3, 4], 1)]"
    "covers [1, 2, 3, 4 :: u8] ([(demo_frag 2 False, [3, 4], 1)] @ [(demo_frag 0 True, [1, 2, 3], 2)])"
    by (simp_all add: covers_def seen_by_def piece_at_def demo_frag_def)
  ultimately show ?thesis
    using defrag_reassembles [of "[1, 2, 3, 4]" "frag_key_of (demo_frag 0 True)" "[(demo_frag 2 False, [3, 4], 1)]"
        "demo_frag 0 True" "[1, 2, 3]" 2 "\<lparr> df_max_datagrams = 2, df_max_mem_bytes = 100, df_timeout_ms = 1000 \<rparr>"]
    by (auto simp: numeral_3_eq_3)
qed

end
