(* ===== verification/Eth_Stream.thy ===== *)
theory Eth_Stream
  imports Eth_Packet "HOL-Library.AList"
begin

text \<open>
  \<open>apps/eth_probe/stream_tcp\<close>: reassembly of TCP streams per flow and direction. The map of the segments
  that came out of order is its list in the order of the map, which is the numeric order of the
  sequence numbers. The flow table is an association list, and the list of keys in
  least-recently-used order stands for the code's list with its index \<open>lru_pos\<close>. The outer \<open>None\<close> is an
  access outside a segment.
\<close>

subsection \<open>Sequence numbers\<close>

definition seq_leq :: "u32 \<Rightarrow> u32 \<Rightarrow> bool" where
  "seq_leq a b \<longleftrightarrow> sint (a - b) \<le> 0"

definition seq_lt :: "u32 \<Rightarrow> u32 \<Rightarrow> bool" where
  "seq_lt a b \<longleftrightarrow> sint (a - b) < 0"

subsection \<open>State\<close>

record direction =
  di_initialized :: bool
  di_next_seq :: u32
  di_ooo :: "(u32 \<times> bytes) list"
  di_ooo_bytes :: nat
  di_gap_pending :: bool
  di_gap_since_ms :: u64
  di_fin_seen :: bool

definition direction_new :: direction where
  "direction_new = \<lparr> di_initialized = False, di_next_seq = 0, di_ooo = [], di_ooo_bytes = 0,
     di_gap_pending = False, di_gap_since_ms = 0, di_fin_seen = False \<rparr>"

record flow =
  fl_dir0 :: direction
  fl_dir1 :: direction
  fl_last_seen_ms :: u64
  fl_rst_seen :: bool

definition flow_new :: flow where
  "flow_new = \<lparr> fl_dir0 = direction_new, fl_dir1 = direction_new, fl_last_seen_ms = 0, fl_rst_seen = False \<rparr>"

record flow_key =
  ky_a_ip :: bytes
  ky_b_ip :: bytes
  ky_a_port :: u16
  ky_b_port :: u16

record tcp_cfg =
  tc_max_flows :: nat
  tc_max_stream_bytes :: nat
  tc_max_mem_bytes :: nat
  tc_gap_timeout_ms :: u32
  tc_idle_timeout_ms :: u32

record tcp_reassembly =
  tr_cfg :: tcp_cfg
  tr_flows :: "(flow_key \<times> flow) list"
  tr_lru :: "flow_key list"
  tr_mem_used :: nat

definition tcp_new :: "tcp_cfg \<Rightarrow> tcp_reassembly" where
  "tcp_new cfg = \<lparr> tr_cfg = cfg, tr_flows = [], tr_lru = [], tr_mem_used = 0 \<rparr>"

record deliver_result =
  de_has_data :: bool
  de_data :: bytes
  de_dir :: nat
  de_flow :: flow_key
  de_closed :: bool
  de_evicted :: bool

subsection \<open>The flow table\<close>

definition tr_touch :: "flow_key \<Rightarrow> tcp_reassembly \<Rightarrow> tcp_reassembly" where
  "tr_touch k s = s\<lparr>tr_lru := remove1 k (tr_lru s) @ [k]\<rparr>"

definition erase_flow :: "flow_key \<Rightarrow> tcp_reassembly \<Rightarrow> tcp_reassembly" where
  "erase_flow k s = (case map_of (tr_flows s) k of
       None \<Rightarrow> s
     | Some fl \<Rightarrow> s\<lparr>tr_mem_used := tr_mem_used s - (di_ooo_bytes (fl_dir0 fl) + di_ooo_bytes (fl_dir1 fl)),
                     tr_flows := AList.delete k (tr_flows s)\<rparr>)
     \<lparr>tr_lru := remove1 k (tr_lru s)\<rparr>"

function evict_flows :: "flow_key \<Rightarrow> tcp_reassembly \<Rightarrow> bool \<times> tcp_reassembly" where
  "evict_flows k s =
     (if length (tr_flows s) \<ge> tc_max_flows (tr_cfg s) \<and> tr_lru s \<noteq> [] \<and> hd (tr_lru s) \<noteq> k
      then (True, snd (evict_flows k (erase_flow (hd (tr_lru s)) s))) else (False, s))"
  by pat_completeness auto
termination
  by (relation "measure (\<lambda>(_, s). length (tr_lru s))")
    (auto simp: erase_flow_def neq_Nil_conv split: option.splits)

declare evict_flows.simps [simp del]

fun bytes_less :: "bytes \<Rightarrow> bytes \<Rightarrow> bool" where
  "bytes_less _ [] = False"
| "bytes_less [] (_ # _) = True"
| "bytes_less (a # as) (b # bs) = (a < b \<or> (a = b \<and> bytes_less as bs))"

definition is_forward :: "packet \<Rightarrow> bool" where
  "is_forward pp \<longleftrightarrow> bytes_less (take 16 (src_ip pp)) (take 16 (dst_ip pp)) \<or>
     (take 16 (src_ip pp) = take 16 (dst_ip pp) \<and> src_port pp \<le> dst_port pp)"

definition flow_key_of :: "packet \<Rightarrow> flow_key" where
  "flow_key_of pp = (if is_forward pp
     then \<lparr> ky_a_ip = take 16 (src_ip pp), ky_b_ip = take 16 (dst_ip pp),
            ky_a_port = src_port pp, ky_b_port = dst_port pp \<rparr>
     else \<lparr> ky_a_ip = take 16 (dst_ip pp), ky_b_ip = take 16 (src_ip pp),
            ky_a_port = dst_port pp, ky_b_port = src_port pp \<rparr>)"

subsection \<open>One segment\<close>

definition seg_end :: "u32 \<times> bytes \<Rightarrow> u32" where
  "seg_end e = fst e + of_nat (length (snd e))"

definition bytes_of :: "(u32 \<times> bytes) list \<Rightarrow> nat" where
  "bytes_of segs = sum_list (map (\<lambda>e. length (snd e)) segs)"

text \<open>Keeping a segment that came too early; the pool is the second component.\<close>

definition buffer_segment :: "u32 \<Rightarrow> bytes \<Rightarrow> u64 \<Rightarrow> nat \<Rightarrow> direction \<Rightarrow> nat \<times> direction" where
  "buffer_segment sb data now_ms mem d = (let
     send = seg_end (sb, data);
     bef = takeWhile (\<lambda>e. fst e < sb) (di_ooo d);
     aft = dropWhile (\<lambda>e. fst e < sb) (di_ooo d);
     dominated = ((aft \<noteq> [] \<and> fst (hd aft) = sb \<and> seq_leq send (seg_end (hd aft))) \<or>
                  (bef \<noteq> [] \<and> seq_leq send (seg_end (last bef))))
     in if dominated then (mem, d)
     else let covered = takeWhile (\<lambda>e. seq_leq (seg_end e) send) aft;
              rest = dropWhile (\<lambda>e. seq_leq (seg_end e) send) aft;
              ooo = (if rest \<noteq> [] \<and> fst (hd rest) = sb then bef @ rest else bef @ (sb, data) # rest);
              d = d\<lparr>di_ooo := ooo, di_ooo_bytes := di_ooo_bytes d - bytes_of covered + length data\<rparr>
          in (mem - bytes_of covered + length data,
              if di_gap_pending d then d else d\<lparr>di_gap_pending := True, di_gap_since_ms := now_ms\<rparr>))"

text \<open>
  Delivering, trimming or keeping the data of a segment: the delivered bytes (none, if nothing is
  delivered), whether a cap dropped it, the pool and the direction.
\<close>

definition take_segment :: "tcp_cfg \<Rightarrow> u32 \<Rightarrow> bytes \<Rightarrow> u64 \<Rightarrow> nat \<Rightarrow> direction \<Rightarrow>
    (bytes option \<times> bool \<times> nat \<times> direction) option" where
  "take_segment cfg seq data now_ms mem d =
     (if seq_leq (seg_end (seq, data)) (di_next_seq d) then Some (None, False, mem, d)
      else if seq_lt seq (di_next_seq d)
      then do {
        let trim = unat (di_next_seq d - seq);
        n \<leftarrow> size_sub (length data) trim;
        out \<leftarrow> view data trim n;
        Some (Some out, False, mem, d\<lparr>di_next_seq := di_next_seq d + of_nat n\<rparr>) }
      else if seq = di_next_seq d
      then Some (Some data, False, mem, d\<lparr>di_next_seq := di_next_seq d + of_nat (length data)\<rparr>)
      else if di_ooo_bytes d + length data \<le> tc_max_stream_bytes cfg \<and>
              mem + length data \<le> tc_max_mem_bytes cfg
      then (case buffer_segment seq data now_ms mem d of (mem, d) \<Rightarrow> Some (None, False, mem, d))
      else Some (None, True, mem, d))"

text \<open>The loop that hands out the kept segments the stream has reached.\<close>

fun drain_ooo :: "u32 \<Rightarrow> (u32 \<times> bytes) list \<Rightarrow> (bytes list \<times> nat \<times> u32 \<times> (u32 \<times> bytes) list) option" where
  "drain_ooo nxt [] = Some ([], 0, nxt, [])"
| "drain_ooo nxt ((s, seg) # rest) =
     (if seq_leq s nxt
      then do {
        (out, nxt2) \<leftarrow> (if seq_lt nxt (seg_end (s, seg))
          then do {
            n \<leftarrow> size_sub (length seg) (unat (nxt - s));
            v \<leftarrow> view seg (unat (nxt - s)) n;
            Some ([v], seg_end (s, seg)) }
          else Some ([], nxt));
        (outs, freed, nxt3, rest2) \<leftarrow> drain_ooo nxt2 rest;
        Some (out @ outs, length seg + freed, nxt3, rest2) }
      else Some ([], 0, nxt, (s, seg) # rest))"

definition skip_gap :: "tcp_cfg \<Rightarrow> u64 \<Rightarrow> direction \<Rightarrow> direction" where
  "skip_gap cfg now_ms d =
     (if di_gap_pending d \<and> now_ms - di_gap_since_ms d \<ge> ucast (tc_gap_timeout_ms cfg) \<and>
         seq_lt (di_next_seq d) (fst (hd (di_ooo d)))
      then d\<lparr>di_next_seq := fst (hd (di_ooo d)), di_gap_pending := False\<rparr> else d)"

definition accept_data :: "tcp_cfg \<Rightarrow> u32 \<Rightarrow> bytes \<Rightarrow> u64 \<Rightarrow> nat \<Rightarrow> direction \<Rightarrow>
    (bytes list \<times> bool \<times> nat \<times> direction) option" where
  "accept_data cfg seq data now_ms mem d =
     (if data = [] then Some ([], False, mem, d)
      else do {
        (out, ev, mem, d) \<leftarrow> take_segment cfg seq data now_ms mem d;
        let out = (case out of None \<Rightarrow> [] | Some v \<Rightarrow> [v]);
        if di_ooo d = [] then Some (out, ev, mem, d)
        else do {
          let d = skip_gap cfg now_ms d;
          (outs, freed, nxt, rest) \<leftarrow> drain_ooo (di_next_seq d) (di_ooo d);
          let d = d\<lparr>di_next_seq := nxt, di_ooo := rest, di_ooo_bytes := di_ooo_bytes d - freed\<rparr>;
          Some (out @ outs, ev, mem - freed, if rest = [] then d\<lparr>di_gap_pending := False\<rparr> else d) } })"

definition init_direction :: "u32 \<Rightarrow> bool \<Rightarrow> direction \<Rightarrow> direction" where
  "init_direction seq syn d = (if di_initialized d then d
     else d\<lparr>di_initialized := True, di_next_seq := seq + (if syn then 1 else 0)\<rparr>)"

definition see_fin :: "bool \<Rightarrow> direction \<Rightarrow> direction" where
  "see_fin fin d = (if fin \<and> \<not> di_fin_seen d
     then d\<lparr>di_fin_seen := True, di_next_seq := di_next_seq d + 1\<rparr> else d)"

subsection \<open>The operations\<close>

definition get_dir :: "nat \<Rightarrow> flow \<Rightarrow> direction" where
  "get_dir i fl = (if i = 0 then fl_dir0 fl else fl_dir1 fl)"

definition set_dir :: "nat \<Rightarrow> direction \<Rightarrow> flow \<Rightarrow> flow" where
  "set_dir i d fl = (if i = 0 then fl\<lparr>fl_dir0 := d\<rparr> else fl\<lparr>fl_dir1 := d\<rparr>)"

definition deliver_nothing :: deliver_result where
  "deliver_nothing = \<lparr> de_has_data = False, de_data = [], de_dir = 0,
     de_flow = \<lparr> ky_a_ip = replicate 16 0, ky_b_ip = replicate 16 0, ky_a_port = 0, ky_b_port = 0 \<rparr>,
     de_closed = False, de_evicted = False \<rparr>"

text \<open>The segment with its payload, the bytes of the view of the packet.\<close>

definition add_segment :: "packet \<Rightarrow> bytes \<Rightarrow> u64 \<Rightarrow> tcp_reassembly \<Rightarrow> (deliver_result \<times> tcp_reassembly) option" where
  "add_segment pp data now_ms s =
     (if \<not> is_tcp pp then Some (deliver_nothing, s)
      else let k = flow_key_of pp;
               r = deliver_nothing\<lparr>de_flow := k, de_dir := (if is_forward pp then 0 else 1)\<rparr>;
               (ev1, s) = (if map_of (tr_flows s) k = None then evict_flows k s else (False, s));
               fl = (case map_of (tr_flows s) k of None \<Rightarrow> flow_new | Some fl \<Rightarrow> fl)
                      \<lparr>fl_last_seen_ms := now_ms\<rparr>;
               s = tr_touch k (s\<lparr>tr_flows := AList.update k fl (tr_flows s)\<rparr>) in
      if tcp_flags pp AND TCP_RST \<noteq> 0
      then Some (r\<lparr>de_closed := True, de_evicted := ev1\<rparr>, erase_flow k s)
      else do {
        let d = init_direction (tcp_seq pp) (tcp_flags pp AND TCP_SYN \<noteq> 0) (get_dir (de_dir r) fl);
        (outs, ev2, mem, d) \<leftarrow> accept_data (tr_cfg s) (tcp_seq pp) data now_ms (tr_mem_used s) d;
        let d = see_fin (tcp_flags pp AND TCP_FIN \<noteq> 0) d;
        let fl = set_dir (de_dir r) d fl;
        let s = s\<lparr>tr_mem_used := mem, tr_flows := AList.update k fl (tr_flows s)\<rparr>;
        let closed = (di_fin_seen (fl_dir0 fl) \<and> di_fin_seen (fl_dir1 fl));
        Some (r\<lparr>de_has_data := (outs \<noteq> []), de_data := concat outs, de_evicted := (ev1 \<or> ev2),
                de_closed := closed\<rparr>,
              if closed then erase_flow k s else s) })"

definition flow_expired :: "u64 \<Rightarrow> tcp_cfg \<Rightarrow> flow \<Rightarrow> bool" where
  "flow_expired now_ms cfg fl \<longleftrightarrow> now_ms - fl_last_seen_ms fl \<ge> ucast (tc_idle_timeout_ms cfg)"

definition tcp_expire :: "u64 \<Rightarrow> tcp_reassembly \<Rightarrow> nat \<times> tcp_reassembly" where
  "tcp_expire now_ms s = (let
     victims = map fst (filter (\<lambda>(k, fl). flow_expired now_ms (tr_cfg s) fl) (tr_flows s))
     in (length victims, fold erase_flow victims s))"

subsection \<open>A direction of a stream\<close>

lemma sint_diff:
  assumes "a < 2 ^ 31" "b < 2 ^ 31"
  shows "sint (isn + of_nat a - (isn + of_nat b) :: u32) = int a - int b"
proof -
  have "isn + of_nat a - (isn + of_nat b) = (of_int (int a - int b) :: u32)" by simp
  moreover have "sint (of_int (int a - int b) :: u32) = int a - int b"
    using assms by (simp only: signed_of_int) (simp add: signed_take_bit_int_eq_self)
  ultimately show ?thesis by simp
qed

lemma seq_cmp:
  assumes "a < 2 ^ 31" "b < 2 ^ 31"
  shows "seq_leq (isn + of_nat a) (isn + of_nat b) \<longleftrightarrow> a \<le> b"
    "seq_lt (isn + of_nat a) (isn + of_nat b) \<longleftrightarrow> a < b"
  using sint_diff [OF assms, of isn] by (auto simp: seq_leq_def seq_lt_def)

lemma seq_lt_irrefl [simp]: "seq_lt a a = False"
  by (simp add: seq_lt_def)

lemma seq_sub:
  assumes "b \<le> a" "a < 2 ^ 31"
  shows "unat (isn + of_nat a - (isn + of_nat b) :: u32) = a - b"
proof -
  have "isn + of_nat a - (isn + of_nat b) = (of_nat (a - b) :: u32)" using assms(1) by (simp add: of_nat_diff)
  moreover have "unat (of_nat (a - b) :: u32) = a - b" by (subst unat_of_nat) (use assms in simp)
  ultimately show ?thesis by simp
qed

text \<open>A segment at sequence number \<open>s\<close> that carries bytes of the stream \<open>S\<close>, at offset \<open>off\<close>.\<close>

definition piece_off :: "bytes \<Rightarrow> u32 \<Rightarrow> u32 \<times> bytes \<Rightarrow> nat \<Rightarrow> bool" where
  "piece_off S isn e off \<longleftrightarrow> fst e = isn + of_nat off \<and> snd e \<noteq> [] \<and>
     off + length (snd e) \<le> length S \<and> snd e = take (length (snd e)) (drop off S)"

definition piece_of :: "bytes \<Rightarrow> u32 \<Rightarrow> u32 \<times> bytes \<Rightarrow> bool" where
  "piece_of S isn e \<longleftrightarrow> (\<exists>off. piece_off S isn e off)"

lemma piece_end: "piece_off S isn e off \<Longrightarrow> seg_end e = isn + of_nat (off + length (snd e))"
  by (simp add: piece_off_def seg_end_def)

lemma take_drop_join:
  "a \<le> b \<Longrightarrow> b \<le> c \<Longrightarrow> take (b - a) (drop a S) @ take (c - b) (drop b S) = take (c - a) (drop a S)"
proof -
  assume "a \<le> b" "b \<le> c"
  then have "take (c - a) (drop a S) = take ((b - a) + (c - b)) (drop a S)" by simp
  also have "\<dots> = take (b - a) (drop a S) @ take (c - b) (drop (b - a) (drop a S))" by (rule take_add)
  finally show ?thesis using \<open>a \<le> b\<close> by simp
qed

text \<open>The part of a piece from position \<open>k\<close> on.\<close>

lemma piece_tail:
  assumes "piece_off S isn e off" "off \<le> k" "k \<le> off + length (snd e)"
  shows "view (snd e) (k - off) (length (snd e) - (k - off)) = Some (take (off + length (snd e) - k) (drop k S))"
proof -
  define n where n: "n = length (snd e)"
  have e: "snd e = take n (drop off S)" using assms(1) unfolding piece_off_def n by blast
  have "drop (k - off) (take n (drop off S)) = take (off + n - k) (drop k S)"
    using assms(2,3) n by (simp add: drop_take add.commute)
  then have "drop (k - off) (snd e) = take (off + n - k) (drop k S)" unfolding e [symmetric] .
  then show ?thesis using assms n by (simp add: view_def add.commute)
qed

lemma drain_ooo_props:
  assumes "\<forall>e \<in> set segs. piece_of S isn e" "length S < 2 ^ 31" "k \<le> length S"
  shows "\<exists>outs k' n. drain_ooo (isn + of_nat k) segs =
      Some (outs, bytes_of (take n segs), isn + of_nat k', drop n segs) \<and>
    k \<le> k' \<and> k' \<le> length S \<and> concat outs = take (k' - k) (drop k S) \<and>
    (drop n segs \<noteq> [] \<longrightarrow> \<not> seq_leq (fst (hd (drop n segs))) (isn + of_nat k')) \<and>
    (\<forall>e \<in> set (take n segs). seq_leq (seg_end e) (isn + of_nat k'))"
  using assms(1,3)
proof (induction segs arbitrary: k)
  case Nil
  then show ?case by (auto simp: bytes_of_def)
next
  case (Cons e segs)
  obtain s seg where e: "e = (s, seg)" by (cases e)
  obtain off where off: "piece_off S isn e off" using Cons.prems(1) by (auto simp: piece_of_def)
  have o: "s = isn + of_nat off" "off + length seg \<le> length S" using off by (simp_all add: piece_off_def e)
  have ends: "seg_end (s, seg) = isn + of_nat (off + length seg)" using piece_end [OF off] by (simp add: e)
  show ?case
  proof (cases "off \<le> k")
    case False
    then have "\<not> seq_leq s (isn + of_nat k)"
      using seq_cmp(1) [of off k isn] o Cons.prems(2) assms(2) by simp
    then show ?thesis using Cons.prems(2) by (intro exI [of _ "[]"] exI [of _ k] exI [of _ 0]) (simp add: e bytes_of_def)
  next
    case True
    then have le: "seq_leq s (isn + of_nat k)" using seq_cmp(1) [of off k isn] o Cons.prems(2) assms(2) by simp
    define k2 where "k2 = max k (off + length seg)"
    have k2: "k \<le> k2" "k2 \<le> length S" using o(2) Cons.prems(2) by (auto simp: k2_def)
    have first: "\<exists>out. (if seq_lt (isn + of_nat k) (seg_end (s, seg))
          then do {
            n \<leftarrow> size_sub (length seg) (unat (isn + of_nat k - s));
            v \<leftarrow> view seg (unat (isn + of_nat k - s)) n;
            Some ([v], seg_end (s, seg)) }
          else Some ([], isn + of_nat k)) = Some (out, isn + of_nat k2) \<and> concat out = take (k2 - k) (drop k S)"
    proof (cases "k < off + length seg")
      case lt: True
      then have "seq_lt (isn + of_nat k) (seg_end (s, seg))"
        unfolding ends using seq_cmp(2) [of k "off + length seg" isn] o(2) assms(2) Cons.prems(2) by simp
      moreover have "unat (isn + of_nat k - s) = k - off"
        using seq_sub [OF True, of isn] Cons.prems(2) assms(2) o(1) by simp
      ultimately show ?thesis
        using piece_tail [OF off True] lt True ends by (simp add: e size_sub_def k2_def max_def)
    next
      case ge: False
      then have "\<not> seq_lt (isn + of_nat k) (seg_end (s, seg))"
        unfolding ends using seq_cmp(2) [of k "off + length seg" isn] o(2) assms(2) Cons.prems(2) by simp
      then show ?thesis using ge by (simp add: k2_def max_def)
    qed
    obtain out where out: "(if seq_lt (isn + of_nat k) (seg_end (s, seg))
          then do {
            n \<leftarrow> size_sub (length seg) (unat (isn + of_nat k - s));
            v \<leftarrow> view seg (unat (isn + of_nat k - s)) n;
            Some ([v], seg_end (s, seg)) }
          else Some ([], isn + of_nat k)) = Some (out, isn + of_nat k2)" "concat out = take (k2 - k) (drop k S)"
      using first by blast
    obtain outs k' n where IH: "drain_ooo (isn + of_nat k2) segs =
        Some (outs, bytes_of (take n segs), isn + of_nat k', drop n segs)" "k2 \<le> k'" "k' \<le> length S"
      "concat outs = take (k' - k2) (drop k2 S)"
      "drop n segs \<noteq> [] \<longrightarrow> \<not> seq_leq (fst (hd (drop n segs))) (isn + of_nat k')"
      "\<forall>e \<in> set (take n segs). seq_leq (seg_end e) (isn + of_nat k')"
      using Cons.IH [of k2] Cons.prems(1) k2(2) by auto
    have d: "drain_ooo (isn + of_nat k) (e # segs) =
        Some (out @ outs, bytes_of (take (Suc n) (e # segs)), isn + of_nat k', drop (Suc n) (e # segs))"
      unfolding e drain_ooo.simps(2) if_P [OF le] out(1) by (simp add: IH(1) bytes_of_def)
    have "concat (out @ outs) = take (k' - k) (drop k S)"
      using take_drop_join [OF k2(1) IH(2)] out(2) IH(4) by simp
    moreover have "seq_leq (seg_end e) (isn + of_nat k')"
      using seq_cmp(1) [of "off + length seg" k' isn] ends e o(2) IH(2,3) assms(2) by (simp add: k2_def)
    ultimately show ?thesis
      using d IH k2(1) by (intro exI [of _ "out @ outs"] exI [of _ k'] exI [of _ "Suc n"]) auto
  qed
qed

text \<open>The stream has been handed out up to position \<open>k\<close>, and what is kept are pieces of it.\<close>

definition stream_at :: "bytes \<Rightarrow> u32 \<Rightarrow> nat \<Rightarrow> direction \<Rightarrow> bool" where
  "stream_at S isn k d \<longleftrightarrow> k \<le> length S \<and> di_next_seq d = isn + of_nat k \<and>
     (\<forall>e \<in> set (di_ooo d). piece_of S isn e)"

lemma buffer_segment_set:
  "set (di_ooo (snd (buffer_segment sb data t mem d))) \<subseteq> insert (sb, data) (set (di_ooo d))"
  "di_next_seq (snd (buffer_segment sb data t mem d)) = di_next_seq d"
  by (auto simp: buffer_segment_def Let_def dest: set_takeWhileD set_dropWhileD)

lemma take_segment_props:
  assumes "stream_at S isn k d" "piece_off S isn (seq, data) off" "length S < 2 ^ 31"
  shows "\<exists>out ev mem' d' k'. take_segment cfg seq data t mem d = Some (out, ev, mem', d') \<and> k \<le> k' \<and>
    stream_at S isn k' d' \<and> (case out of None \<Rightarrow> [] | Some v \<Rightarrow> v) = take (k' - k) (drop k S) \<and>
    (k' = k \<and> out = None \<and> (ev \<and> d' = d \<or> \<not> ev \<and> seq_leq (seg_end (seq, data)) (di_next_seq d) \<and> d' = d \<or>
       \<not> ev \<and> k < off \<and> d' = snd (buffer_segment seq data t mem d)) \<or>
     \<not> ev \<and> k' = off + length data \<and> off \<le> k \<and> di_ooo d' = di_ooo d)"
proof -
  have o: "seq = isn + of_nat off" "off + length data \<le> length S" "data = take (length data) (drop off S)" "data \<noteq> []"
    using assms(2) by (simp_all add: piece_off_def)
  have k: "k \<le> length S" "di_next_seq d = isn + of_nat k" using assms(1) by (simp_all add: stream_at_def)
  have ends: "seg_end (seq, data) = isn + of_nat (off + length data)" using piece_end [OF assms(2)] by simp
  have le: "seq_leq (seg_end (seq, data)) (di_next_seq d) \<longleftrightarrow> off + length data \<le> k"
    "seq_lt seq (di_next_seq d) \<longleftrightarrow> off < k"
    unfolding ends k(2) unfolding o(1)
    using seq_cmp(1) [of "off + length data" k isn] seq_cmp(2) [of off k isn] o(2) k(1) assms(3) by simp_all
  have eq: "seq = di_next_seq d \<longleftrightarrow> off = k"
  proof
    have b: "off < 2 ^ 31" "k < 2 ^ 31" using o(2) k(1) assms(3) by simp_all
    have c: "seq_lt (di_next_seq d) seq \<longleftrightarrow> k < off" unfolding o(1) k(2) by (rule seq_cmp(2) [OF b(2,1)])
    assume "seq = di_next_seq d"
    then have "seq_lt seq (di_next_seq d) = False" "seq_lt (di_next_seq d) seq = False" by (simp_all only: seq_lt_irrefl)
    then show "off = k" using le(2) c by simp
  qed (simp add: o(1) k(2))
  consider "off + length data \<le> k" | "off < k" "k < off + length data" | "off = k" "k < off + length data" | "k < off" "k < off + length data"
    by linarith
  then show ?thesis
  proof cases
    case 1
    then show ?thesis using assms(1) le by (intro exI [of _ None] exI [of _ False] exI [of _ mem] exI [of _ d] exI [of _ k])
      (simp add: take_segment_def)
  next
    case 2
    have trim: "unat (di_next_seq d - seq) = k - off"
      using seq_sub [of off k isn] 2(1) k assms(3) o(1) by simp
    have v: "view data (k - off) (length data - (k - off)) = Some (take (off + length data - k) (drop k S))"
      using piece_tail [OF assms(2)] 2 by simp
    have "k - off \<le> length data" using 2 by simp
    then have ts: "take_segment cfg seq data t mem d = Some (Some (take (off + length data - k) (drop k S)), False, mem,
        d\<lparr>di_next_seq := di_next_seq d + of_nat (length data - (k - off))\<rparr>)"
      unfolding take_segment_def using le eq 2 trim v by (simp add: size_sub_def)
    have "isn + of_nat k + of_nat (length data - (k - off)) = (isn + of_nat (off + length data) :: u32)"
    proof -
      have "k + (length data - (k - off)) = off + length data" using 2 by simp
      then have "of_nat k + of_nat (length data - (k - off)) = (of_nat (off + length data) :: u32)"
        by (metis of_nat_add)
      then show ?thesis by (simp add: add.assoc)
    qed
    then have "stream_at S isn (off + length data) (d\<lparr>di_next_seq := di_next_seq d + of_nat (length data - (k - off))\<rparr>)"
      using assms(1) o(2) k(2) by (simp add: stream_at_def)
    then show ?thesis using ts 2 by (intro exI [of _ "Some (take (off + length data - k) (drop k S))"]
        exI [of _ False] exI [of _ mem] exI [of _ "off + length data"]
        exI [of _ "d\<lparr>di_next_seq := di_next_seq d + of_nat (length data - (k - off))\<rparr>"]) simp
  next
    case 3
    have ts: "take_segment cfg seq data t mem d = Some (Some data, False, mem,
        d\<lparr>di_next_seq := di_next_seq d + of_nat (length data)\<rparr>)"
      unfolding take_segment_def using le eq 3 by simp
    have "stream_at S isn (off + length data) (d\<lparr>di_next_seq := di_next_seq d + of_nat (length data)\<rparr>)"
      using assms(1) o(2) k(2) 3 by (simp add: stream_at_def)
    then show ?thesis using ts 3 o(3) by (intro exI [of _ "Some data"] exI [of _ False] exI [of _ mem]
        exI [of _ "d\<lparr>di_next_seq := di_next_seq d + of_nat (length data)\<rparr>"] exI [of _ "off + length data"]) simp
  next
    case 4
    let ?b = "buffer_segment seq data t mem d"
    have "piece_of S isn (seq, data)" using assms(2) by (auto simp: piece_of_def)
    then have "stream_at S isn k (snd ?b)"
      using assms(1) buffer_segment_set [of seq data t mem d] by (auto simp: stream_at_def)
    moreover have "take_segment cfg seq data t mem d =
       (if di_ooo_bytes d + length data \<le> tc_max_stream_bytes cfg \<and> mem + length data \<le> tc_max_mem_bytes cfg
        then Some (None, False, fst ?b, snd ?b) else Some (None, True, mem, d))"
      unfolding take_segment_def using le eq 4 by (simp add: split_def)
    moreover have "k < off" using 4(1) .
    ultimately show ?thesis
      using assms(1)
      by (cases "di_ooo_bytes d + length data \<le> tc_max_stream_bytes cfg \<and> mem + length data \<le> tc_max_mem_bytes cfg")
        (rule exI [of _ None], rule exI [of _ False], rule exI [of _ "fst ?b"], rule exI [of _ "snd ?b"], rule exI [of _ k], simp,
         rule exI [of _ None], rule exI [of _ True], rule exI [of _ mem], rule exI [of _ d], rule exI [of _ k], simp)
  qed
qed

subsection \<open>What is kept, when the numbers do not wrap\<close>

definition kept :: "bytes \<Rightarrow> u32 \<Rightarrow> (u32 \<times> bytes) list \<Rightarrow> nat \<Rightarrow> bool" where
  "kept S isn segs i \<longleftrightarrow> (\<exists>e \<in> set segs. \<exists>off. piece_off S isn e off \<and> off \<le> i \<and> i < off + length (snd e))"

definition ordered :: "(u32 \<times> bytes) list \<Rightarrow> bool" where
  "ordered segs \<longleftrightarrow> sorted_wrt (\<lambda>e f. fst e < fst f) segs"

lemma seq_nat:
  assumes "unat isn + length S < 2 ^ 32" "piece_off S isn e off" "piece_off S isn f off2"
  shows "fst e < fst f \<longleftrightarrow> off < off2" "fst e = fst f \<longleftrightarrow> off = off2"
proof -
  have u: "unat (isn + of_nat m) = unat isn + m" if "m \<le> length S" for m
  proof -
    have "unat (of_nat m :: u32) = m" by (subst unat_of_nat) (use that assms(1) in simp)
    then show ?thesis using that assms(1) by (subst unat_plus_u32) simp_all
  qed
  have "off \<le> length S" "off2 \<le> length S" using assms(2,3) by (simp_all add: piece_off_def)
  then have v: "unat (fst e) = unat isn + off" "unat (fst f) = unat isn + off2"
    using assms(2,3) u by (simp_all add: piece_off_def)
  show "fst e < fst f \<longleftrightarrow> off < off2"
    by (simp only: word_less_nat_alt v nat_add_left_cancel_less)
  show "fst e = fst f \<longleftrightarrow> off = off2"
    by (simp only: word_unat_eq_iff v add_left_cancel)
qed

lemma piece_ends:
  assumes "length S < 2 ^ 31" "piece_off S isn e off" "piece_off S isn f off2"
  shows "seq_leq (seg_end e) (seg_end f) \<longleftrightarrow> off + length (snd e) \<le> off2 + length (snd f)"
  unfolding piece_end [OF assms(2)] piece_end [OF assms(3)]
  using assms by (intro seq_cmp(1)) (auto simp: piece_off_def)

lemma ordered_split:
  assumes "ordered segs"
  shows "e \<in> set (takeWhile (\<lambda>e. fst e < sb) segs) \<Longrightarrow> fst e < sb"
    "e \<in> set (dropWhile (\<lambda>e. fst e < sb) segs) \<Longrightarrow> sb \<le> fst e"
    "ordered (takeWhile (\<lambda>e. fst e < sb) segs)" "ordered (dropWhile (\<lambda>e. fst e < sb) segs)"
proof -
  show "e \<in> set (takeWhile (\<lambda>e. fst e < sb) segs) \<Longrightarrow> fst e < sb" by (auto dest: set_takeWhileD)
  show "e \<in> set (dropWhile (\<lambda>e. fst e < sb) segs) \<Longrightarrow> sb \<le> fst e"
    using assms
  proof (induction segs)
    case (Cons x segs)
    then show ?case by (cases "fst x < sb") (auto simp: ordered_def not_less dest: less_imp_le order_trans)
  qed simp
  show "ordered (takeWhile (\<lambda>e. fst e < sb) segs)" "ordered (dropWhile (\<lambda>e. fst e < sb) segs)"
    using assms sorted_wrt_append [of "\<lambda>e f. fst e < fst f" "takeWhile (\<lambda>e. fst e < sb) segs" "dropWhile (\<lambda>e. fst e < sb) segs"]
    by (simp_all add: ordered_def)
qed

lemma ordered_dropWhile: "ordered segs \<Longrightarrow> ordered (dropWhile P segs)"
  by (simp add: dropWhile_eq_drop ordered_def sorted_wrt_drop)

lemma ordered_hd: "ordered segs \<Longrightarrow> e \<in> set segs \<Longrightarrow> e = hd segs \<or> fst (hd segs) < fst e"
  by (cases segs) (auto simp: ordered_def)

lemma buffer_segment_keeps:
  assumes "ordered (di_ooo d)" "\<forall>e \<in> set (di_ooo d). piece_of S isn e" "piece_off S isn (sb, data) off"
    "length S < 2 ^ 31" "unat isn + length S < 2 ^ 32"
    and d'_def: "d' = snd (buffer_segment sb data t mem d)"
  shows "ordered (di_ooo d') \<and>
    (\<forall>i. kept S isn (di_ooo d) i \<or> (off \<le> i \<and> i < off + length data) \<longrightarrow> kept S isn (di_ooo d') i)"
proof -
  define bef where "bef = takeWhile (\<lambda>e. fst e < sb) (di_ooo d)"
  define aft where "aft = dropWhile (\<lambda>e. fst e < sb) (di_ooo d)"
  define covered where "covered = takeWhile (\<lambda>e. seq_leq (seg_end e) (seg_end (sb, data))) aft"
  define rest where "rest = dropWhile (\<lambda>e. seq_leq (seg_end e) (seg_end (sb, data))) aft"
  note os = ordered_split [OF assms(1), where sb = sb, folded bef_def aft_def]
  have ba: "di_ooo d = bef @ aft" "aft = covered @ rest" by (simp_all add: bef_def aft_def covered_def rest_def)
  have pc: "\<exists>o2. piece_off S isn e o2" if "e \<in> set (bef @ aft)" for e
    using assms(2) that unfolding ba(1) by (auto simp: piece_of_def)
  note le = piece_ends [OF assms(4)] and nt = seq_nat [OF assms(5)]
  have inside: "kept S isn segs i"
    if "e \<in> set segs" "piece_off S isn e o2" "o2 \<le> off" "off + length data \<le> o2 + length (snd e)" "off \<le> i" "i < off + length data"
    for segs e o2 i
    using that unfolding kept_def by (intro bexI [of _ e] exI [of _ o2]) simp_all
  consider (dom1) "aft \<noteq> []" "fst (hd aft) = sb" "seq_leq (seg_end (sb, data)) (seg_end (hd aft))"
    | (dom2) "bef \<noteq> []" "seq_leq (seg_end (sb, data)) (seg_end (last bef))"
    | (new) "\<not> ((aft \<noteq> [] \<and> fst (hd aft) = sb \<and> seq_leq (seg_end (sb, data)) (seg_end (hd aft))) \<or>
                  (bef \<noteq> [] \<and> seq_leq (seg_end (sb, data)) (seg_end (last bef))))" by blast
  then show ?thesis
  proof cases
    case dom1
    have d': "d' = d" using dom1 by (simp add: d'_def buffer_segment_def Let_def bef_def aft_def)
    obtain o2 where o2: "piece_off S isn (hd aft) o2" using pc [of "hd aft"] dom1(1) by auto
    have "o2 = off" using nt(2) [OF o2 assms(3)] dom1(2) by simp
    moreover have "off + length data \<le> o2 + length (snd (hd aft))" using le [OF assms(3) o2] dom1(3) by simp
    moreover have "hd aft \<in> set (di_ooo d)" using dom1(1) ba(1) by simp
    ultimately show ?thesis using inside [of "hd aft" "di_ooo d" o2] o2 assms(1) d' by auto
  next
    case dom2
    have d': "d' = d" using dom2 by (simp add: d'_def buffer_segment_def Let_def bef_def)
    have m: "last bef \<in> set bef" using dom2(1) by simp
    obtain o2 where o2: "piece_off S isn (last bef) o2" using pc [of "last bef"] m by auto
    have "o2 < off" using nt(1) [OF o2 assms(3)] os(1) [OF m] by simp
    moreover have "off + length data \<le> o2 + length (snd (last bef))" using le [OF assms(3) o2] dom2(2) by simp
    moreover have "last bef \<in> set (di_ooo d)" using m ba(1) by simp
    ultimately show ?thesis using inside [of "last bef" "di_ooo d" o2] o2 assms(1) d' by auto
  next
    case new
    have ord: "ordered rest" using os(4) by (simp add: rest_def ordered_dropWhile)
    have "fst (hd rest) \<noteq> sb" if "rest \<noteq> []"
    proof
      assume sb: "fst (hd rest) = sb"
      have m: "hd rest \<in> set aft" using that ba(2) by simp
      then have h: "hd rest = hd aft" using ordered_hd [OF os(4) m] os(2) [of "hd aft"] sb by (cases aft) auto
      obtain o2 where o2: "piece_off S isn (hd aft) o2" using pc [of "hd rest"] m h by auto
      have "\<not> seq_leq (seg_end (hd rest)) (seg_end (sb, data))"
        using that unfolding rest_def by (rule hd_dropWhile)
      then have "\<not> o2 + length (snd (hd aft)) \<le> off + length data" using le [OF o2 assms(3)] h by simp
      then have "seq_leq (seg_end (sb, data)) (seg_end (hd aft))" using le [OF assms(3) o2] by simp
      moreover have "aft \<noteq> []" using m by auto
      ultimately show False using new h sb by auto
    qed
    then have ooo: "di_ooo d' = bef @ (sb, data) # rest"
      using new by (simp add: d'_def buffer_segment_def Let_def bef_def [symmetric] aft_def [symmetric]
          rest_def [symmetric] covered_def [symmetric]) blast
    have gt: "sb < fst e" if "e \<in> set rest" for e
    proof -
      have "rest \<noteq> []" using that by auto
      then have "sb < fst (hd rest)"
        using os(2) [of "hd rest"] ba(2) \<open>rest \<noteq> [] \<Longrightarrow> fst (hd rest) \<noteq> sb\<close> by (simp add: order.not_eq_order_implies_strict)
      then show ?thesis using ordered_hd [OF ord that] by (auto dest: less_trans)
    qed
    have "fst e < fst f" if "e \<in> set bef" "f \<in> set rest" for e f
      using os(1) [OF that(1)] gt [OF that(2)] by (rule less_trans)
    then have "ordered (bef @ (sb, data) # rest)"
      using os(1,3) gt ord by (simp add: ordered_def sorted_wrt_append)
    moreover have "kept S isn (bef @ (sb, data) # rest) i" if i: "off \<le> i" "i < off + length data" for i
      using inside [of "(sb, data)" "bef @ (sb, data) # rest" off i] assms(3) i by simp
    moreover have "kept S isn (bef @ (sb, data) # rest) i" if "kept S isn (di_ooo d) i" for i
    proof -
      obtain e o2 where e: "e \<in> set (bef @ covered @ rest)" "piece_off S isn e o2" "o2 \<le> i" "i < o2 + length (snd e)"
        using \<open>kept S isn (di_ooo d) i\<close> ba unfolding kept_def by auto
      show ?thesis
      proof (cases "e \<in> set covered")
        case True
        then have "seq_leq (seg_end e) (seg_end (sb, data))" unfolding covered_def by (rule set_takeWhileD [THEN conjunct2])
        then have "o2 + length (snd e) \<le> off + length data" using le [OF e(2) assms(3)] by simp
        moreover have "off \<le> o2" using nt(1) [OF e(2) assms(3)] os(2) [of e] True ba(2) by (simp add: not_less [symmetric])
        ultimately show ?thesis
          using inside [of "(sb, data)" "bef @ (sb, data) # rest" off i] assms(3) e(3,4) by simp
      next
        case False
        then show ?thesis using e unfolding kept_def by auto
      qed
    qed
    ultimately show ?thesis using ooo by auto
  qed
qed

subsection \<open>Accepting a segment\<close>

text \<open>A pending gap was noticed between \<open>t0\<close> and \<open>t\<close>.\<close>

definition gap_ok :: "u64 \<Rightarrow> u64 \<Rightarrow> direction \<Rightarrow> bool" where
  "gap_ok t0 t d \<longleftrightarrow> (di_gap_pending d \<longrightarrow> unat t0 \<le> unat (di_gap_since_ms d) \<and> unat (di_gap_since_ms d) \<le> unat t)"

lemma take_segment_gap:
  assumes "take_segment cfg seq data t mem d = Some (out, ev, mem', d')" "gap_ok t0 t d" "unat t0 \<le> unat t"
  shows "gap_ok t0 t d'"
  using assms
  by (auto simp: take_segment_def buffer_segment_def gap_ok_def Let_def size_sub_def view_def split_def
      split: if_splits)

lemma skip_gap_early:
  assumes "gap_ok t0 t d" "unat t < unat t0 + unat (tc_gap_timeout_ms cfg)"
  shows "skip_gap cfg t d = d"
proof (cases "di_gap_pending d")
  case True
  then have "unat (t - di_gap_since_ms d) < unat (tc_gap_timeout_ms cfg)"
    using assms unfolding gap_ok_def by (simp add: unat_diff_u64 less_diff_conv2)
  then have "\<not> t - di_gap_since_ms d \<ge> ucast (tc_gap_timeout_ms cfg)" by (simp add: word_le_nat_alt)
  then show ?thesis by (simp add: skip_gap_def)
qed (simp add: skip_gap_def)

text \<open>Everything received is handed out or kept, and what is kept lies beyond what is handed out.\<close>

definition nothing_lost :: "bytes \<Rightarrow> u32 \<Rightarrow> (nat \<Rightarrow> bool) \<Rightarrow> nat \<Rightarrow> direction \<Rightarrow> bool" where
  "nothing_lost S isn got k d \<longleftrightarrow> ordered (di_ooo d) \<and> (\<forall>i. got i \<longrightarrow> i < k \<or> kept S isn (di_ooo d) i)"

definition beyond :: "direction \<Rightarrow> bool" where
  "beyond d \<longleftrightarrow> (\<forall>e \<in> set (di_ooo d). \<not> seq_leq (fst e) (di_next_seq d))"

lemma take_segment_keeps:
  assumes "stream_at S isn k d" "piece_off S isn (seq, data) off" "length S < 2 ^ 31"
    "unat isn + length S < 2 ^ 32" "nothing_lost S isn got k d"
    "take_segment cfg seq data t mem d = Some (out, False, mem', d')" "stream_at S isn k' d'"
    "k' = k \<and> (seq_leq (seg_end (seq, data)) (di_next_seq d) \<and> d' = d \<or>
       k < off \<and> d' = snd (buffer_segment seq data t mem d)) \<or>
     k' = off + length data \<and> off \<le> k \<and> di_ooo d' = di_ooo d" "k \<le> k'"
  shows "nothing_lost S isn (\<lambda>i. got i \<or> (off \<le> i \<and> i < off + length data)) k' d'"
proof -
  consider (old) "k' = k" "seq_leq (seg_end (seq, data)) (di_next_seq d)" "d' = d"
    | (keep) "k' = k" "d' = snd (buffer_segment seq data t mem d)"
    | (out) "k' = off + length data" "di_ooo d' = di_ooo d" using assms(8) by blast
  then show ?thesis
  proof cases
    case old
    have "off + length data \<le> k"
    proof -
      have "seg_end (seq, data) = isn + of_nat (off + length data)" using piece_end [OF assms(2)] by simp
      moreover have "off + length data < 2 ^ 31" "k < 2 ^ 31"
        using assms(1-3) by (auto simp: piece_off_def stream_at_def)
      moreover have "di_next_seq d = isn + of_nat k" using assms(1) by (simp add: stream_at_def)
      ultimately show ?thesis using old(2) seq_cmp(1) [of "off + length data" k isn] by (simp only: )
    qed
    then show ?thesis using old assms(5) by (auto simp: nothing_lost_def)
  next
    case keep
    have "\<forall>e \<in> set (di_ooo d). piece_of S isn e" using assms(1) by (simp add: stream_at_def)
    from buffer_segment_keeps [OF _ this assms(2,3,4) keep(2)] show ?thesis
      using assms(5) keep(1) by (auto simp: nothing_lost_def)
  next
    case out
    then show ?thesis using assms(5,9) by (auto simp: nothing_lost_def)
  qed
qed

lemma drained_keeps:
  assumes "nothing_lost S isn got k d" "\<forall>e \<in> set (di_ooo d). piece_of S isn e" "length S < 2 ^ 31"
    "unat isn + length S < 2 ^ 32" "k \<le> k'" "k' \<le> length S"
    "\<forall>e \<in> set (take n (di_ooo d)). seq_leq (seg_end e) (isn + of_nat k')"
    "drop n (di_ooo d) \<noteq> [] \<longrightarrow> \<not> seq_leq (fst (hd (drop n (di_ooo d)))) (isn + of_nat k')"
    "di_ooo d' = drop n (di_ooo d)" "di_next_seq d' = isn + of_nat k'"
  shows "nothing_lost S isn got k' d' \<and> beyond d'"
proof
  let ?rest = "drop n (di_ooo d)"
  have ord: "ordered ?rest"
    using assms(1) sorted_wrt_drop by (auto simp: nothing_lost_def ordered_def)
  have k31: "k' < 2 ^ 31" using assms(3,6) by simp
  have gone: "i < k'" if "e \<in> set (take n (di_ooo d))" "piece_off S isn e off" "i < off + length (snd e)" for e off i
  proof -
    have "off + length (snd e) < 2 ^ 31" using that(2) assms(3) by (simp add: piece_off_def)
    then have "off + length (snd e) \<le> k'"
      using assms(7) that(1) piece_end [OF that(2)] seq_cmp(1) [OF _ k31, of _ isn] by metis
    then show ?thesis using that(3) by simp
  qed
  have "i < k' \<or> kept S isn ?rest i" if "kept S isn (di_ooo d) i" for i
  proof -
    have "set (di_ooo d) = set (take n (di_ooo d)) \<union> set ?rest"
      by (metis append_take_drop_id set_append)
    then show ?thesis using that gone unfolding kept_def by blast
  qed
  then show "nothing_lost S isn got k' d'"
    using assms(1,5,9) ord by (auto simp: nothing_lost_def dest: less_le_trans)
  show "beyond d'"
    unfolding beyond_def assms(9,10)
  proof
    fix e assume e: "e \<in> set ?rest"
    then have ne: "?rest \<noteq> []" by auto
    have in_d: "e \<in> set (di_ooo d)" "hd ?rest \<in> set (di_ooo d)"
      using e hd_in_set [OF ne] by (blast dest: in_set_dropD)+
    obtain o1 o2 where o: "piece_off S isn e o1" "piece_off S isn (hd ?rest) o2"
      using bspec [OF assms(2) in_d(1)] bspec [OF assms(2) in_d(2)] unfolding piece_of_def by blast
    have b: "o1 < 2 ^ 31" "o2 < 2 ^ 31" using o assms(3) by (auto simp: piece_off_def)
    have "o2 \<le> o1" using ordered_hd [OF ord e] seq_nat(1) [OF assms(4) o(2,1)] seq_nat(2) [OF assms(4) o(2,1)] by auto
    moreover have "\<not> o2 \<le> k'"
      using assms(8) ne o(2) seq_cmp(1) [OF b(2) k31, of isn] by (simp add: piece_off_def)
    ultimately show "\<not> seq_leq (fst e) (isn + of_nat k')"
      using o(1) seq_cmp(1) [OF b(1) k31, of isn] by (simp add: piece_off_def)
  qed
qed

lemma accept_data_props:
  assumes "stream_at S isn k d" "piece_off S isn (seq, data) off" "length S < 2 ^ 31"
    "gap_ok t0 t d" "unat t0 \<le> unat t" "unat t < unat t0 + unat (tc_gap_timeout_ms cfg)"
  shows "\<exists>outs ev mem' d' k'. accept_data cfg seq data t mem d = Some (outs, ev, mem', d') \<and> k \<le> k' \<and>
    stream_at S isn k' d' \<and> concat outs = take (k' - k) (drop k S) \<and> gap_ok t0 t d' \<and>
    (unat isn + length S < 2 ^ 32 \<and> \<not> ev \<and> nothing_lost S isn got k d \<longrightarrow>
       nothing_lost S isn (\<lambda>i. got i \<or> (off \<le> i \<and> i < off + length data)) k' d' \<and> beyond d')"
proof -
  let ?got = "\<lambda>i. got i \<or> (off \<le> i \<and> i < off + length data)"
  have ne: "data \<noteq> []" using assms(2) by (simp add: piece_off_def)
  obtain out ev mem1 d1 k1 where ts: "take_segment cfg seq data t mem d = Some (out, ev, mem1, d1)" "k \<le> k1"
    "stream_at S isn k1 d1" "(case out of None \<Rightarrow> [] | Some v \<Rightarrow> v) = take (k1 - k) (drop k S)" and
    cases: "(k1 = k \<and> out = None \<and> (ev \<and> d1 = d \<or> \<not> ev \<and> seq_leq (seg_end (seq, data)) (di_next_seq d) \<and> d1 = d \<or>
       \<not> ev \<and> k < off \<and> d1 = snd (buffer_segment seq data t mem d)) \<or>
     \<not> ev \<and> k1 = off + length data \<and> off \<le> k \<and> di_ooo d1 = di_ooo d)"
    using take_segment_props [OF assms(1-3), of cfg t mem] by blast
  have gap1: "gap_ok t0 t d1" using take_segment_gap [OF ts(1) assms(4,5)] .
  have lost1: "nothing_lost S isn ?got k1 d1"
    if "unat isn + length S < 2 ^ 32" "\<not> ev" "nothing_lost S isn got k d"
    using take_segment_keeps [OF assms(1-3) that(1,3), of cfg t mem out mem1 d1 k1] ts that(2) cases by auto
  let ?out = "case out of None \<Rightarrow> [] | Some v \<Rightarrow> [v]"
  have co: "concat ?out = take (k1 - k) (drop k S)" using ts(4) by (cases out) simp_all
  show ?thesis
  proof (cases "di_ooo d1 = []")
    case True
    then have "accept_data cfg seq data t mem d = Some (?out, ev, mem1, d1)"
      using ne ts(1) by (simp add: accept_data_def)
    moreover have "beyond d1" using True by (simp add: beyond_def)
    ultimately show ?thesis using ts(2,3) co gap1 lost1 by blast
  next
    case False
    have pieces: "\<forall>e \<in> set (di_ooo d1). piece_of S isn e" and k1: "k1 \<le> length S" "di_next_seq d1 = isn + of_nat k1"
      using ts(3) by (simp_all add: stream_at_def)
    obtain outs k2 n where dr: "drain_ooo (isn + of_nat k1) (di_ooo d1) =
      Some (outs, bytes_of (take n (di_ooo d1)), isn + of_nat k2, drop n (di_ooo d1))"
      "k1 \<le> k2" "k2 \<le> length S" "concat outs = take (k2 - k1) (drop k1 S)"
      "drop n (di_ooo d1) \<noteq> [] \<longrightarrow> \<not> seq_leq (fst (hd (drop n (di_ooo d1)))) (isn + of_nat k2)"
      "\<forall>e \<in> set (take n (di_ooo d1)). seq_leq (seg_end e) (isn + of_nat k2)"
      using drain_ooo_props [OF pieces assms(3) k1(1)] by blast
    let ?freed = "bytes_of (take n (di_ooo d1))"
    define d2 where "d2 = d1\<lparr>di_next_seq := isn + of_nat k2, di_ooo := drop n (di_ooo d1), di_ooo_bytes := di_ooo_bytes d1 - ?freed\<rparr>"
    define d3 where "d3 = (if drop n (di_ooo d1) = [] then d2\<lparr>di_gap_pending := False\<rparr> else d2)"
    have ac: "accept_data cfg seq data t mem d = Some (?out @ outs, ev, mem1 - ?freed, d3)"
      unfolding accept_data_def if_not_P [OF ne] ts(1) bind.bind_lunit prod.case Let_def if_not_P [OF False]
        skip_gap_early [OF gap1 assms(6)] k1(2) dr(1)
      by (simp add: d2_def d3_def)
    have d3: "di_ooo d3 = drop n (di_ooo d1)" "di_next_seq d3 = isn + of_nat k2" by (simp_all add: d3_def d2_def)
    have "stream_at S isn k2 d3"
      using pieces dr(3) d3 by (auto simp: stream_at_def dest: in_set_dropD)
    moreover have "gap_ok t0 t d3" using gap1 by (simp add: gap_ok_def d3_def d2_def)
    moreover have "concat (?out @ outs) = take (k2 - k) (drop k S)"
      using take_drop_join [OF ts(2) dr(2)] co dr(4) by simp
    moreover have "nothing_lost S isn ?got k2 d3 \<and> beyond d3"
      if "unat isn + length S < 2 ^ 32 \<and> \<not> ev \<and> nothing_lost S isn got k d"
      using drained_keeps [OF lost1 pieces assms(3) _ dr(2,3,6,5) d3] that by blast
    ultimately show ?thesis using ac ts(2) dr(2) le_trans [OF ts(2) dr(2)] by blast
  qed
qed

subsection \<open>A whole stream\<close>

text \<open>The segments of one direction: sequence number, data and time.\<close>

type_synonym seg_in = "u32 \<times> bytes \<times> u64"

fun accept_all :: "tcp_cfg \<Rightarrow> seg_in list \<Rightarrow> nat \<Rightarrow> direction \<Rightarrow> (bytes \<times> bool \<times> nat \<times> direction) option" where
  "accept_all cfg [] mem d = Some ([], False, mem, d)"
| "accept_all cfg ((seq, data, t) # segs) mem d = do {
     (outs, ev, mem, d) \<leftarrow> accept_data cfg seq data t mem d;
     (out2, ev2, mem, d) \<leftarrow> accept_all cfg segs mem d;
     Some (concat outs @ out2, ev \<or> ev2, mem, d) }"

text \<open>A segment that carries the bytes of the stream from an offset on.\<close>

definition carries :: "bytes \<Rightarrow> u32 \<Rightarrow> seg_in \<Rightarrow> nat \<Rightarrow> bool" where
  "carries S isn x i \<longleftrightarrow> (case x of (seq, data, t) \<Rightarrow>
     list_ex (\<lambda>off. seq = isn + of_nat off \<and> off \<le> i \<and> i < off + length data) [0..<length S])"

definition stream_seg :: "bytes \<Rightarrow> u32 \<Rightarrow> seg_in \<Rightarrow> bool" where
  "stream_seg S isn x \<longleftrightarrow> (case x of (seq, data, t) \<Rightarrow> data \<noteq> [] \<and>
     list_ex (\<lambda>off. seq = isn + of_nat off \<and> off + length data \<le> length S \<and>
                    data = take (length data) (drop off S)) [0..<length S])"

lemma stream_seg_piece:
  assumes "stream_seg S isn (seq, data, t)" "length S < 2 ^ 31"
  obtains off where "piece_off S isn (seq, data) off"
    "\<And>i. carries S isn (seq, data, t) i \<longleftrightarrow> off \<le> i \<and> i < off + length data"
proof -
  obtain off where off: "off < length S" "seq = isn + of_nat off" "off + length data \<le> length S"
    "data = take (length data) (drop off S)" "data \<noteq> []"
    using assms(1) by (auto simp: stream_seg_def list_ex_iff)
  have "carries S isn (seq, data, t) i \<longleftrightarrow> off \<le> i \<and> i < off + length data" for i
  proof
    assume "carries S isn (seq, data, t) i"
    then obtain o2 where o2: "o2 < length S" "seq = isn + of_nat o2" "o2 \<le> i" "i < o2 + length data"
      by (auto simp: carries_def list_ex_iff)
    have "\<not> o2 < off \<and> \<not> off < o2"
      using seq_cmp(2) [of o2 off isn] seq_cmp(2) [of off o2 isn] off(1,2) o2(1,2) assms(2) seq_lt_irrefl
      by (metis less_trans)
    then show "off \<le> i \<and> i < off + length data" using o2 by simp
  next
    assume "off \<le> i \<and> i < off + length data"
    then show "carries S isn (seq, data, t) i" using off by (auto simp: carries_def list_ex_iff)
  qed
  then show thesis using off by (intro that [of off]) (simp_all add: piece_off_def)
qed

lemma accept_all_props:
  assumes "list_all (stream_seg S isn) segs" "length S < 2 ^ 31" "stream_at S isn k d" "gap_ok t0 t1 d"
    "sorted (unat t1 # map (\<lambda>x. unat (snd (snd x))) segs)" "unat t0 \<le> unat t1"
    "list_all (\<lambda>x. unat (snd (snd x)) < unat t0 + unat (tc_gap_timeout_ms cfg)) segs"
  shows "\<exists>out ev mem' d' k'. accept_all cfg segs mem d = Some (out, ev, mem', d') \<and> k \<le> k' \<and>
    stream_at S isn k' d' \<and> out = take (k' - k) (drop k S) \<and>
    (unat isn + length S < 2 ^ 32 \<and> \<not> ev \<and> nothing_lost S isn got k d \<and> beyond d \<longrightarrow>
       nothing_lost S isn (\<lambda>i. got i \<or> list_ex (\<lambda>x. carries S isn x i) segs) k' d' \<and> beyond d')"
  using assms(1,3-)
proof (induction segs arbitrary: k d t1 mem got)
  case Nil
  then show ?case by auto
next
  case (Cons x segs)
  obtain seq data t where x: "x = (seq, data, t)" by (cases x)
  obtain off where off: "piece_off S isn (seq, data) off"
    and car: "\<And>i. carries S isn (seq, data, t) i \<longleftrightarrow> off \<le> i \<and> i < off + length data"
    using stream_seg_piece [of S isn seq data t] Cons.prems(1) assms(2) by (auto simp: x)
  have t: "unat t1 \<le> unat t" "unat t0 \<le> unat t" "unat t < unat t0 + unat (tc_gap_timeout_ms cfg)"
    using Cons.prems(4-6) by (simp_all add: x)
  have gap: "gap_ok t0 t d" using Cons.prems(3) t(1) by (auto simp: gap_ok_def)
  obtain outs ev mem1 d1 k1 where a: "accept_data cfg seq data t mem d = Some (outs, ev, mem1, d1)" "k \<le> k1"
    "stream_at S isn k1 d1" "concat outs = take (k1 - k) (drop k S)" "gap_ok t0 t d1"
    "unat isn + length S < 2 ^ 32 \<and> \<not> ev \<and> nothing_lost S isn got k d \<longrightarrow>
       nothing_lost S isn (\<lambda>i. got i \<or> (off \<le> i \<and> i < off + length data)) k1 d1 \<and> beyond d1"
    using accept_data_props [OF Cons.prems(2) off assms(2) gap t(2,3), of mem got] by blast
  let ?got = "\<lambda>i. got i \<or> (off \<le> i \<and> i < off + length data)"
  have rest: "list_all (stream_seg S isn) segs"
    "sorted (unat t # map (\<lambda>x. unat (snd (snd x))) segs)"
    "list_all (\<lambda>x. unat (snd (snd x)) < unat t0 + unat (tc_gap_timeout_ms cfg)) segs"
    using Cons.prems(1,4,6) by (simp_all add: x)
  obtain out2 ev2 mem2 d2 k2 where b: "accept_all cfg segs mem1 d1 = Some (out2, ev2, mem2, d2)" "k1 \<le> k2"
    "stream_at S isn k2 d2" "out2 = take (k2 - k1) (drop k1 S)"
    "unat isn + length S < 2 ^ 32 \<and> \<not> ev2 \<and> nothing_lost S isn ?got k1 d1 \<and> beyond d1 \<longrightarrow>
       nothing_lost S isn (\<lambda>i. ?got i \<or> list_ex (\<lambda>x. carries S isn x i) segs) k2 d2 \<and> beyond d2"
    using Cons.IH [OF rest(1) a(3,5) rest(2) t(2) rest(3), of mem1 ?got] by blast
  have "accept_all cfg (x # segs) mem d = Some (concat outs @ out2, ev \<or> ev2, mem2, d2)"
    using a(1) b(1) by (simp add: x)
  moreover have "concat outs @ out2 = take (k2 - k) (drop k S)"
    using take_drop_join [OF a(2) b(2)] a(4) b(4) by simp
  moreover have "(\<lambda>i. got i \<or> list_ex (\<lambda>x. carries S isn x i) (x # segs)) =
      (\<lambda>i. ?got i \<or> list_ex (\<lambda>x. carries S isn x i) segs)"
    using car by (auto simp: x)
  moreover have "unat isn + length S < 2 ^ 32 \<and> \<not> (ev \<or> ev2) \<and> nothing_lost S isn got k d \<and> beyond d \<longrightarrow>
      nothing_lost S isn (\<lambda>i. ?got i \<or> list_ex (\<lambda>x. carries S isn x i) segs) k2 d2 \<and> beyond d2"
    using a(6) b(5) by blast
  ultimately show ?case
    using b(3) le_trans [OF a(2) b(2)]
    by (intro exI [of _ "concat outs @ out2"] exI [of _ "ev \<or> ev2"] exI [of _ mem2] exI [of _ d2] exI [of _ k2]) simp
qed

definition started :: "u32 \<Rightarrow> direction" where
  "started isn = init_direction (isn - 1) True direction_new"

text \<open>
  C32: one direction of a connection, after its SYN. From any segments of a stream of less than 2^31
  bytes, in any order, repeated and overlapping, within the gap timeout, what is handed out is a prefix
  of the stream; and when the sequence numbers do not pass 2^32 and no cap is hit, it is the whole
  stream as soon as every byte has come.
\<close>

theorem stream_reassembled:
  fixes t0 :: u64
  assumes "list_all (stream_seg S isn) segs" "length S < 2 ^ 31"
    "sorted (map (\<lambda>x. unat (snd (snd x))) segs)"
    "list_all (\<lambda>x. unat t0 \<le> unat (snd (snd x)) \<and> unat (snd (snd x)) < unat t0 + unat (tc_gap_timeout_ms cfg)) segs"
  shows "\<exists>out ev mem' d'. accept_all cfg segs mem (started isn) = Some (out, ev, mem', d') \<and>
    out = take (length out) S \<and> di_next_seq d' = isn + of_nat (length out) \<and>
    (unat isn + length S < 2 ^ 32 \<and> \<not> ev \<and>
     list_all (\<lambda>i. list_ex (\<lambda>x. carries S isn x i) segs) [0..<length S] \<longrightarrow> out = S)"
proof -
  have start: "stream_at S isn 0 (started isn)" "gap_ok t0 t0 (started isn)" "beyond (started isn)"
    "nothing_lost S isn (\<lambda>_. False) 0 (started isn)"
    by (simp_all add: started_def init_direction_def direction_new_def stream_at_def gap_ok_def beyond_def
        nothing_lost_def ordered_def)
  have ts: "sorted (unat t0 # map (\<lambda>x. unat (snd (snd x))) segs)"
    using assms(3,4) by (auto simp: list_all_iff)
  have tw: "list_all (\<lambda>x. unat (snd (snd x)) < unat t0 + unat (tc_gap_timeout_ms cfg)) segs"
    using assms(4) by (auto simp: list_all_iff)
  let ?got = "\<lambda>i. False \<or> list_ex (\<lambda>x. carries S isn x i) segs"
  obtain out ev mem' d' k where r: "accept_all cfg segs mem (started isn) = Some (out, ev, mem', d')"
    "stream_at S isn k d'" "out = take (k - 0) (drop 0 S)"
    "unat isn + length S < 2 ^ 32 \<and> \<not> ev \<and> nothing_lost S isn (\<lambda>_. False) 0 (started isn) \<and> beyond (started isn) \<longrightarrow>
       nothing_lost S isn ?got k d' \<and> beyond d'"
    using accept_all_props [OF assms(1,2) start(1,2) ts order_refl tw, of mem "\<lambda>_. False"] by blast
  have k: "k \<le> length S" "di_next_seq d' = isn + of_nat k" using r(2) by (simp_all add: stream_at_def)
  have out: "length out = k" "out = take k S" using r(3) k(1) by simp_all
  have "out = S" if all: "unat isn + length S < 2 ^ 32 \<and> \<not> ev \<and>
     list_all (\<lambda>i. list_ex (\<lambda>x. carries S isn x i) segs) [0..<length S]"
  proof (cases "k = length S")
    case False
    then have "k < length S" using k(1) by simp
    then have "?got k" using all by (simp add: list_all_iff)
    then obtain e off where e: "e \<in> set (di_ooo d')" "piece_off S isn e off" "off \<le> k"
      using r(4) all start(3,4) by (auto simp: nothing_lost_def kept_def)
    then have "seq_leq (fst e) (di_next_seq d')"
      using seq_cmp(1) [of off k isn] k assms(2) by (auto simp: piece_off_def)
    then show ?thesis using r(4) all start(3,4) e(1) by (auto simp: beyond_def)
  qed (simp add: out)
  then show ?thesis using r(1) out k(2) by auto
qed

definition demo_tcp :: tcp_cfg where
  "demo_tcp = \<lparr> tc_max_flows = 4, tc_max_stream_bytes = 65536, tc_max_mem_bytes = 4194304,
     tc_gap_timeout_ms = 5000, tc_idle_timeout_ms = 120000 \<rparr>"

lemma stream_reassembled_witness:
  "\<exists>out ev mem' d'. accept_all demo_tcp [(12, [3, 4], 7), (10, [1, 2, 3], 8)] 0 (started 10) = Some (out, ev, mem', d') \<and>
     out = take (length out) [1, 2, 3, 4]"
proof -
  let ?segs = "[(12, [3, 4], 7), (10, [1, 2, 3], 8)] :: seg_in list"
  have upt: "[0..<length ([1, 2, 3, 4] :: bytes)] = [0, 1, 2, 3]" by (simp add: upt_rec)
  have a: "list_all (stream_seg [1, 2, 3, 4] 10) ?segs"
    unfolding stream_seg_def upt by simp
  have b: "length ([1, 2, 3, 4] :: bytes) < 2 ^ 31" by simp
  have c: "sorted (map (\<lambda>x. unat (snd (snd x))) ?segs)" by simp
  have d: "list_all (\<lambda>x. unat (5 :: u64) \<le> unat (snd (snd x)) \<and>
      unat (snd (snd x)) < unat (5 :: u64) + unat (tc_gap_timeout_ms demo_tcp)) ?segs"
    by (simp add: demo_tcp_def)
  show ?thesis using stream_reassembled [OF a b c d, of 0] by blast
qed

text \<open>
  Near 2^32 the numeric order of the map is not the order of the stream: a segment of the next round
  comes before the buffered one, which then counts as covered by it and is dropped. Every byte of the
  stream 1, 2, 3, 4, 5 comes, and only 1, 2 are handed out.
\<close>

lemma stream_loses_at_wrap:
  "\<exists>mem d. accept_all demo_tcp [(0xFFFFFFFE, [3, 4], 1), (0, [5], 2), (0xFFFFFFFC, [1, 2], 3)] 0 (started 0xFFFFFFFC) =
     Some ([1, 2], False, mem, d) \<and> di_next_seq d = 0xFFFFFFFE \<and> di_ooo d = [(0, [5])]"
  by (simp add: demo_tcp_def started_def init_direction_def direction_new_def accept_data_def take_segment_def
      buffer_segment_def seg_end_def seq_leq_def seq_lt_def skip_gap_def bytes_of_def Let_def word_less_nat_alt
      word_le_nat_alt)

text \<open>
  A FIN that overtakes data moves the expected number on at once, so the first byte of the data that
  comes later is taken for a repetition and lost.
\<close>

lemma fin_out_of_order_loses_byte:
  "map_option fst (accept_all demo_tcp [(10, [1, 2, 3], 1)] 0 (see_fin True (started 10))) = Some [2, 3]"
  by (simp add: demo_tcp_def started_def init_direction_def direction_new_def accept_data_def take_segment_def
      see_fin_def seg_end_def seq_leq_def seq_lt_def size_sub_def view_def Let_def)

end
