(* ===== verification/Eth_Stream_Table.thy ===== *)
theory Eth_Stream_Table
  imports Eth_Stream Lru_Table
begin

text \<open>
  The flow table of \<open>apps/eth_probe/stream_tcp\<close>: what every operation keeps of it, whatever the
  segments are. The kept segments are ordered and accounted for in their direction, the pool is the sum
  over all directions, and no trimming leaves the data of a segment.
\<close>

subsection \<open>Trimming\<close>

lemma of_nat_u32_eq: "(of_nat m :: u32) = of_nat n \<longleftrightarrow> m mod 2 ^ 32 = n mod 2 ^ 32"
  by (simp add: word_of_nat_eq_iff take_bit_eq_mod)

lemma sint_range_u32: "- (2 ^ 31) \<le> sint (x :: u32)" "sint (x :: u32) < 2 ^ 31"
  using sint_greater_eq [of x] sint_less [of x] by simp_all

lemma sint_distance:
  fixes x :: u32
  shows "sint x \<le> 0 \<Longrightarrow> \<exists>m. m \<le> 2 ^ 31 \<and> x = - of_nat m"
    "0 \<le> sint x \<Longrightarrow> \<exists>m. m < 2 ^ 31 \<and> x = of_nat m"
proof -
  have x: "x = of_int (sint x)" by simp
  show "\<exists>m. m \<le> 2 ^ 31 \<and> x = - of_nat m" if "sint x \<le> 0"
  proof (intro exI conjI)
    show "nat (- sint x) \<le> 2 ^ 31" using sint_range_u32(1) [of x] by simp
    have "- of_nat (nat (- sint x)) = (- of_int (int (nat (- sint x))) :: u32)" by (simp only: of_int_of_nat_eq)
    also have "\<dots> = of_int (sint x)" using that by (simp only: nat_0_le of_int_minus minus_minus neg_0_le_iff_le)
    finally show "x = - of_nat (nat (- sint x))" using x by (simp only:)
  qed
  show "\<exists>m. m < 2 ^ 31 \<and> x = of_nat m" if "0 \<le> sint x"
  proof (intro exI conjI)
    show "nat (sint x) < 2 ^ 31" using sint_range_u32(2) [of x] by simp
    have "of_nat (nat (sint x)) = (of_int (int (nat (sint x))) :: u32)" by (simp only: of_int_of_nat_eq)
    also have "\<dots> = of_int (sint x)" using that by (simp only: nat_0_le)
    finally show "x = of_nat (nat (sint x))" using x by (simp only:)
  qed
qed

text \<open>A point from the start of a segment on and before its end lies inside it.\<close>

lemma trim_inside:
  assumes "0 < len" "seq_leq s n" "seq_lt n (s + of_nat len) \<or> \<not> seq_leq (s + of_nat len) n"
  shows "unat (n - s) \<le> len"
proof (cases "len < 2 ^ 32")
  case True
  obtain t where t: "t \<le> 2 ^ 31" "s - n = - of_nat t"
    using sint_distance(1) [of "s - n"] assms(2) by (auto simp: seq_leq_def)
  have "\<exists>m. m \<le> 2 ^ 31 \<and> s + of_nat len - n = of_nat m"
    using assms(3)
  proof
    assume "seq_lt n (s + of_nat len)"
    then obtain m where "m \<le> 2 ^ 31" "n - (s + of_nat len) = - of_nat m"
      using sint_distance(1) [of "n - (s + of_nat len)"] by (auto simp: seq_lt_def less_imp_le)
    then show ?thesis by (intro exI [of _ m]) (simp add: algebra_simps)
  next
    assume "\<not> seq_leq (s + of_nat len) n"
    then obtain m where "m < 2 ^ 31" "s + of_nat len - n = of_nat m"
      using sint_distance(2) [of "s + of_nat len - n"] by (auto simp: seq_leq_def)
    then show ?thesis by (intro exI [of _ m]) simp
  qed
  then obtain m where m: "m \<le> 2 ^ 31" "s + of_nat len - n = of_nat m" by blast
  have n: "n = s + of_nat t" using t(2) by (simp add: algebra_simps)
  then have "(of_nat len :: u32) = of_nat (m + t)" using m(2) by (simp add: algebra_simps)
  then have "len = (m + t) mod 2 ^ 32"
    using True by (simp only: of_nat_u32_eq) simp
  moreover have "m + t \<noteq> 2 ^ 32" using calculation assms(1) by auto
  ultimately have "t \<le> len" using m(1) t(1) by simp
  moreover have "unat (n - s) = t" using t(1) by (simp add: n unat_of_nat take_bit_eq_mod)
  ultimately show ?thesis by simp
next
  case False
  then have "4294967296 \<le> len" by simp
  then show ?thesis using unat_u32_bound [of "n - s"] by linarith
qed

subsection \<open>One direction\<close>

definition dir_ok :: "tcp_cfg \<Rightarrow> direction \<Rightarrow> bool" where
  "dir_ok cfg d \<longleftrightarrow> ordered (di_ooo d) \<and> (\<forall>e \<in> set (di_ooo d). snd e \<noteq> []) \<and>
     di_ooo_bytes d = bytes_of (di_ooo d) \<and> di_ooo_bytes d \<le> tc_max_stream_bytes cfg"

lemma bytes_of_append [simp]: "bytes_of (xs @ ys) = bytes_of xs + bytes_of ys"
  by (simp add: bytes_of_def)

lemma bytes_of_Cons [simp]: "bytes_of (e # es) = length (snd e) + bytes_of es"
  by (simp add: bytes_of_def)

lemma bytes_of_Nil [simp]: "bytes_of [] = 0"
  by (simp add: bytes_of_def)

lemma seq_leq_total: "seq_leq a b \<or> seq_leq b a"
proof (rule ccontr)
  assume "\<not> (seq_leq a b \<or> seq_leq b a)"
  then have "0 < sint (a - b)" "0 < sint (b - a)" by (simp_all add: seq_leq_def)
  then obtain m n where "m < 2 ^ 31" "a - b = of_nat m" "n < 2 ^ 31" "b - a = of_nat n"
    using sint_distance(2) [of "a - b"] sint_distance(2) [of "b - a"] by fastforce
  then have mn: "m < 2 ^ 31" "a - b = of_nat m" "n < 2 ^ 31" "b - a = of_nat n" by simp_all
  have "of_nat (m + n) = (a - b) + (b - a)" by (simp only: mn of_nat_add)
  then have "of_nat (m + n) = (of_nat 0 :: u32)" by simp
  then have "(m + n) mod 2 ^ 32 = 0" by (simp only: of_nat_u32_eq) simp
  then have "m + n = 0" using mn(1,3) by simp
  then show False using \<open>0 < sint (a - b)\<close> mn(2) by simp
qed

lemma buffer_segment_ok:
  assumes "dir_ok cfg d" "data \<noteq> []" "di_ooo_bytes d + length data \<le> tc_max_stream_bytes cfg" "di_ooo_bytes d \<le> mem"
    "buffer_segment sb data t mem d = (mem', d')"
  shows "dir_ok cfg d' \<and> mem' + di_ooo_bytes d = mem + di_ooo_bytes d' \<and> mem' \<le> mem + length data"
proof -
  define bef where "bef = takeWhile (\<lambda>e. fst e < sb) (di_ooo d)"
  define aft where "aft = dropWhile (\<lambda>e. fst e < sb) (di_ooo d)"
  define covered where "covered = takeWhile (\<lambda>e. seq_leq (seg_end e) (seg_end (sb, data))) aft"
  define rest where "rest = dropWhile (\<lambda>e. seq_leq (seg_end e) (seg_end (sb, data))) aft"
  have ord: "ordered (di_ooo d)" and acc: "di_ooo_bytes d = bytes_of (di_ooo d)" using assms(1) by (simp_all add: dir_ok_def)
  note os = ordered_split [OF ord, where sb = sb, folded bef_def aft_def]
  have ba: "di_ooo d = bef @ covered @ rest" by (simp add: bef_def aft_def covered_def rest_def)
  show ?thesis
  proof (cases "(aft \<noteq> [] \<and> fst (hd aft) = sb \<and> seq_leq (seg_end (sb, data)) (seg_end (hd aft))) \<or>
      (bef \<noteq> [] \<and> seq_leq (seg_end (sb, data)) (seg_end (last bef)))")
    case True
    then have "mem' = mem" "d' = d"
      using assms(5) by (auto simp: buffer_segment_def Let_def bef_def [symmetric] aft_def [symmetric])
    then show ?thesis using assms(1) by simp
  next
    case False
    have "ordered rest" using os(4) by (simp add: rest_def ordered_dropWhile)
    have ge: "sb \<le> fst e" if "e \<in> set rest" for e
      using os(2) [of e] that by (auto simp: rest_def dest: set_dropWhileD)
    have hd_rest: "fst (hd rest) \<noteq> sb" if "rest \<noteq> []"
    proof
      assume sb: "fst (hd rest) = sb"
      have m: "hd rest \<in> set aft" using hd_in_set [OF that] unfolding rest_def by (rule set_dropWhileD)
      then have "hd rest = hd aft" using ordered_hd [OF os(4) m] os(2) [of "hd aft"] sb by (cases aft) auto
      moreover have "\<not> seq_leq (seg_end (hd rest)) (seg_end (sb, data))"
        using that unfolding rest_def by (rule hd_dropWhile)
      moreover have "aft \<noteq> []" using m by auto
      ultimately show False using False sb seq_leq_total by metis
    qed
    have ds: "di_ooo d' = bef @ (sb, data) # rest" "di_ooo_bytes d' = di_ooo_bytes d - bytes_of covered + length data"
      "mem' = mem - bytes_of covered + length data"
      using False hd_rest assms(5)
      by (auto simp: buffer_segment_def Let_def bef_def [symmetric] aft_def [symmetric]
          covered_def [symmetric] rest_def [symmetric] split: if_splits)
    have gt: "sb < fst e" if "e \<in> set rest" for e
      using ordered_hd [OF \<open>ordered rest\<close> that] ge [of "hd rest"] hd_rest that
      by (cases rest) (auto simp: order.strict_iff_order dest: less_trans)
    have "ordered (bef @ (sb, data) # rest)"
      using os(1,3) gt \<open>ordered rest\<close> less_trans [of _ sb] by (auto simp: ordered_def sorted_wrt_append)
    moreover have "bytes_of (bef @ (sb, data) # rest) = di_ooo_bytes d'" using acc ba ds(2) by simp
    moreover have "\<forall>e \<in> set (bef @ (sb, data) # rest). snd e \<noteq> []"
      using assms(1,2) by (auto simp: dir_ok_def ba)
    moreover have "bytes_of covered \<le> di_ooo_bytes d" using acc ba by simp
    ultimately show ?thesis using ds assms(3,4) by (auto simp: dir_ok_def)
  qed
qed

text \<open>Whatever is kept and wherever the direction stands, draining it never leaves a segment.\<close>

lemma drain_ooo_ok:
  assumes "\<forall>e \<in> set segs. snd e \<noteq> []"
  shows "\<exists>outs nxt' n. drain_ooo nxt segs = Some (outs, bytes_of (take n segs), nxt', drop n segs)"
  using assms
proof (induction segs arbitrary: nxt)
  case Nil
  then show ?case by simp
next
  case (Cons e segs)
  obtain s seg where e: "e = (s, seg)" by (cases e)
  show ?case
  proof (cases "seq_leq s nxt")
    case False
    then show ?thesis by (intro exI [of _ "[]"] exI [of _ nxt] exI [of _ 0]) (simp add: e)
  next
    case True
    have in_seg: "unat (nxt - s) \<le> length seg" if "seq_lt nxt (seg_end (s, seg))"
      using trim_inside [of "length seg" s nxt] that True Cons.prems by (simp add: e seg_end_def)
    define nxt2 where "nxt2 = (if seq_lt nxt (seg_end (s, seg)) then seg_end (s, seg) else nxt)"
    obtain outs nxt' n where ih: "drain_ooo nxt2 segs = Some (outs, bytes_of (take n segs), nxt', drop n segs)"
      using Cons.IH [of nxt2] Cons.prems by auto
    then show ?thesis
      using True in_seg
      by (intro exI [of _ "(if seq_lt nxt (seg_end (s, seg)) then [drop (unat (nxt - s)) seg] else []) @ outs"]
          exI [of _ nxt'] exI [of _ "Suc n"]) (auto simp: e nxt2_def size_sub_def view_def)
  qed
qed

lemma accept_data_ok:
  assumes "dir_ok cfg d" "di_ooo_bytes d \<le> mem" "mem \<le> tc_max_mem_bytes cfg"
  shows "\<exists>outs ev mem' d'. accept_data cfg seq data t mem d = Some (outs, ev, mem', d') \<and> dir_ok cfg d' \<and>
    mem' + di_ooo_bytes d = mem + di_ooo_bytes d' \<and> mem' \<le> tc_max_mem_bytes cfg"
proof (cases "data = []")
  case True
  then show ?thesis
    using assms by (intro exI [of _ "[]"] exI [of _ False] exI [of _ mem] exI [of _ d]) (simp add: accept_data_def)
next
  case False
  have "\<exists>out ev mem1 d1. take_segment cfg seq data t mem d = Some (out, ev, mem1, d1) \<and> dir_ok cfg d1 \<and>
    mem1 + di_ooo_bytes d = mem + di_ooo_bytes d1 \<and> mem1 \<le> tc_max_mem_bytes cfg"
  proof -
    consider (old) "seq_leq (seg_end (seq, data)) (di_next_seq d)"
      | (trim) "\<not> seq_leq (seg_end (seq, data)) (di_next_seq d)" "seq_lt seq (di_next_seq d)"
      | (inorder) "\<not> seq_leq (seg_end (seq, data)) (di_next_seq d)" "\<not> seq_lt seq (di_next_seq d)" "seq = di_next_seq d"
      | (cap) "\<not> seq_leq (seg_end (seq, data)) (di_next_seq d)" "\<not> seq_lt seq (di_next_seq d)" "seq \<noteq> di_next_seq d"
          "\<not> (di_ooo_bytes d + length data \<le> tc_max_stream_bytes cfg \<and> mem + length data \<le> tc_max_mem_bytes cfg)"
      | (keep) "\<not> seq_leq (seg_end (seq, data)) (di_next_seq d)" "\<not> seq_lt seq (di_next_seq d)" "seq \<noteq> di_next_seq d"
          "di_ooo_bytes d + length data \<le> tc_max_stream_bytes cfg \<and> mem + length data \<le> tc_max_mem_bytes cfg"
      by blast
    then show ?thesis
    proof cases
      case trim
      have "unat (di_next_seq d - seq) \<le> length data"
        using trim_inside [of "length data" seq "di_next_seq d"] trim False
        by (auto simp: seg_end_def seq_leq_def seq_lt_def)
      then show ?thesis using trim assms
        by (intro exI [of _ "Some (drop (unat (di_next_seq d - seq)) data)"] exI [of _ False] exI [of _ mem]
            exI [of _ "d\<lparr>di_next_seq := di_next_seq d + of_nat (length data - unat (di_next_seq d - seq))\<rparr>"])
          (simp add: take_segment_def size_sub_def view_def dir_ok_def)
    next
      case keep
      obtain mem1 d1 where b: "buffer_segment seq data t mem d = (mem1, d1)" by fastforce
      then show ?thesis
        using keep buffer_segment_ok [OF assms(1) False _ assms(2) b]
        by (intro exI [of _ None] exI [of _ False] exI [of _ mem1] exI [of _ d1]) (simp add: take_segment_def)
    qed (use assms in \<open>auto simp: take_segment_def dir_ok_def\<close>)
  qed
  then obtain out ev mem1 d1 where ts: "take_segment cfg seq data t mem d = Some (out, ev, mem1, d1)"
    and d1: "dir_ok cfg d1" "mem1 + di_ooo_bytes d = mem + di_ooo_bytes d1" "mem1 \<le> tc_max_mem_bytes cfg" by blast
  show ?thesis
  proof (cases "di_ooo d1 = []")
    case True
    then show ?thesis using ts d1 False by (simp add: accept_data_def)
  next
    case ne: False
    let ?d = "skip_gap cfg t d1"
    have g: "di_ooo ?d = di_ooo d1" "di_ooo_bytes ?d = di_ooo_bytes d1" by (simp_all add: skip_gap_def)
    obtain outs nxt n where dr: "drain_ooo (di_next_seq ?d) (di_ooo d1) =
        Some (outs, bytes_of (take n (di_ooo d1)), nxt, drop n (di_ooo d1))"
      using drain_ooo_ok [of "di_ooo d1" "di_next_seq ?d"] d1(1) by (auto simp: dir_ok_def)
    have sum: "bytes_of (take n (di_ooo d1)) + bytes_of (drop n (di_ooo d1)) = di_ooo_bytes d1"
      using bytes_of_append [of "take n (di_ooo d1)" "drop n (di_ooo d1)"] d1(1) by (simp add: dir_ok_def del: bytes_of_append)
    have "ordered (drop n (di_ooo d1))" using d1(1) by (simp add: dir_ok_def ordered_def sorted_wrt_drop)
    then show ?thesis
      using ts d1 False ne dr sum assms(2)
      by (auto simp: accept_data_def g dir_ok_def Let_def dest: in_set_dropD)
  qed
qed

subsection \<open>The table\<close>

definition flow_weight :: "flow \<Rightarrow> nat" where
  "flow_weight fl = di_ooo_bytes (fl_dir0 fl) + di_ooo_bytes (fl_dir1 fl)"

definition flow_ok :: "tcp_cfg \<Rightarrow> flow \<Rightarrow> bool" where
  "flow_ok cfg fl \<longleftrightarrow> dir_ok cfg (fl_dir0 fl) \<and> dir_ok cfg (fl_dir1 fl)"

definition tcp_ok :: "tcp_reassembly \<Rightarrow> bool" where
  "tcp_ok s \<longleftrightarrow> pool_ok flow_weight (flow_ok (tr_cfg s)) (tr_flows s) (tr_lru s) (tr_mem_used s) \<and>
     tr_mem_used s \<le> tc_max_mem_bytes (tr_cfg s)"

lemma tcp_ok_new: "tcp_ok (tcp_new cfg)"
  by (simp add: tcp_ok_def tcp_new_def pool_ok_empty)

lemma erase_flow_fields:
  "tr_flows (erase_flow k s) = AList.delete k (tr_flows s)" "tr_lru (erase_flow k s) = remove1 k (tr_lru s)"
  "tr_mem_used (erase_flow k s) = tr_mem_used s - weight_at flow_weight (map_of (tr_flows s) k)"
  "tr_cfg (erase_flow k s) = tr_cfg s"
proof -
  have "AList.delete k (tr_flows s) = tr_flows s" if "map_of (tr_flows s) k = None"
    unfolding AList.delete_eq by (rule filter_True) (use that in \<open>force simp: map_of_eq_None_iff\<close>)
  then show "tr_flows (erase_flow k s) = AList.delete k (tr_flows s)"
    by (auto simp: erase_flow_def split: option.split)
qed (auto simp: erase_flow_def flow_weight_def weight_at_def split: option.split)

lemma tcp_ok_erase: "tcp_ok s \<Longrightarrow> tcp_ok (erase_flow k s)"
  using pool_ok_delete [of flow_weight "flow_ok (tr_cfg s)" "tr_flows s" "tr_lru s" "tr_mem_used s" k]
  by (auto simp: tcp_ok_def erase_flow_fields)

lemma evict_flows_ok:
  assumes "tcp_ok s" "map_of (tr_flows s) k = None"
  shows "tcp_ok (snd (evict_flows k s)) \<and> tr_cfg (snd (evict_flows k s)) = tr_cfg s \<and>
    map_of (tr_flows (snd (evict_flows k s))) k = None \<and>
    (length (tr_flows (snd (evict_flows k s))) < tc_max_flows (tr_cfg s) \<or> tr_flows (snd (evict_flows k s)) = [])"
  using assms
proof (induction k s rule: evict_flows.induct)
  case (1 k s)
  show ?case
  proof (cases "length (tr_flows s) \<ge> tc_max_flows (tr_cfg s) \<and> tr_lru s \<noteq> [] \<and> hd (tr_lru s) \<noteq> k")
    case True
    let ?s = "erase_flow (hd (tr_lru s)) s"
    have "tcp_ok ?s" "map_of (tr_flows ?s) k = None" "tr_cfg ?s = tr_cfg s"
      using 1(2,3) tcp_ok_erase by (simp_all add: erase_flow_fields delete_conv')
    then show ?thesis using 1(1) [OF True] True by (simp add: evict_flows.simps [of k s])
  next
    case False
    have "set (tr_lru s) = set (map fst (tr_flows s))" using 1(2) by (simp add: tcp_ok_def pool_ok_def)
    moreover have "k \<notin> set (tr_lru s)" using 1(2,3) pool_ok_key unfolding tcp_ok_def by metis
    ultimately have "length (tr_flows s) < tc_max_flows (tr_cfg s) \<or> tr_flows s = []"
      using False by (cases "tr_lru s") auto
    moreover have "evict_flows k s = (False, s)" using False by (simp only: evict_flows.simps [of k s] if_False)
    ultimately show ?thesis using 1(2,3) by simp
  qed
qed

lemma tcp_ok_enter:
  assumes "tcp_ok s" "flow_ok (tr_cfg s) fl" "flow_weight fl = weight_at flow_weight (map_of (tr_flows s) k)"
  shows "tcp_ok (tr_touch k (s\<lparr>tr_flows := AList.update k fl (tr_flows s)\<rparr>))"
  using assms pool_ok_enter [of flow_weight "flow_ok (tr_cfg s)" "tr_flows s" "tr_lru s" "tr_mem_used s" fl k]
  by (simp add: tcp_ok_def tr_touch_def)

lemma tcp_ok_replace:
  assumes "tcp_ok s" "flow_ok (tr_cfg s) fl" "map_of (tr_flows s) k = Some fl0"
    "mem + flow_weight fl0 = tr_mem_used s + flow_weight fl" "mem \<le> tc_max_mem_bytes (tr_cfg s)"
  shows "tcp_ok (s\<lparr>tr_mem_used := mem, tr_flows := AList.update k fl (tr_flows s)\<rparr>)"
  using assms pool_ok_replace [of flow_weight "flow_ok (tr_cfg s)" "tr_flows s" "tr_lru s" "tr_mem_used s" fl k mem]
  by (simp add: tcp_ok_def)

lemma tcp_ok_expire: "tcp_ok s \<Longrightarrow> tcp_ok (snd (tcp_expire now_ms s))"
proof -
  have "tcp_ok s \<Longrightarrow> tcp_ok (fold erase_flow ks s)" for ks
    by (induction ks arbitrary: s) (simp_all add: tcp_ok_erase)
  then show "tcp_ok s \<Longrightarrow> ?thesis" by (simp add: tcp_expire_def Let_def)
qed

lemma flow_ok_new: "flow_ok cfg flow_new" "flow_weight flow_new = 0"
  by (simp_all add: flow_ok_def flow_weight_def flow_new_def direction_new_def dir_ok_def ordered_def)

lemma dir_ok_init [simp]:
  "dir_ok cfg (init_direction seq syn d) = dir_ok cfg d" "di_ooo_bytes (init_direction seq syn d) = di_ooo_bytes d"
  by (simp_all add: init_direction_def dir_ok_def)

lemma dir_ok_fin [simp]: "dir_ok cfg (see_fin fin d) = dir_ok cfg d" "di_ooo_bytes (see_fin fin d) = di_ooo_bytes d"
  by (simp_all add: see_fin_def dir_ok_def)

lemma add_segment_ok:
  assumes "tcp_ok s" "length (tr_flows s) \<le> max 1 (tc_max_flows (tr_cfg s))"
  shows "\<exists>r s'. add_segment pp data now_ms s = Some (r, s') \<and> tcp_ok s' \<and> tr_cfg s' = tr_cfg s \<and>
    length (tr_flows s') \<le> max 1 (tc_max_flows (tr_cfg s)) \<and> tcp_ok (snd (tcp_expire now_ms s'))"
proof (cases "is_tcp pp")
  case False
  then show ?thesis using assms by (simp add: add_segment_def tcp_ok_expire)
next
  case True
  let ?k = "flow_key_of pp" and ?dir = "if is_forward pp then 0 else (1 :: nat)"
  obtain ev1 s1 where e: "(if map_of (tr_flows s) ?k = None then evict_flows ?k s else (False, s)) = (ev1, s1)"
    by fastforce
  define fl where "fl = (case map_of (tr_flows s1) ?k of None \<Rightarrow> flow_new | Some fl \<Rightarrow> fl)\<lparr>fl_last_seen_ms := now_ms\<rparr>"
  define s2 where "s2 = tr_touch ?k (s1\<lparr>tr_flows := AList.update ?k fl (tr_flows s1)\<rparr>)"
  have s1: "tcp_ok s1" "tr_cfg s1 = tr_cfg s" "map_of (tr_flows s1) ?k = None \<longrightarrow>
      length (tr_flows s1) < max 1 (tc_max_flows (tr_cfg s))" "length (tr_flows s1) \<le> max 1 (tc_max_flows (tr_cfg s))"
    using e evict_flows_ok [OF assms(1), of ?k] assms by (auto split: if_splits)
  have ok: "flow_ok (tr_cfg s1) fl" "flow_weight fl = weight_at flow_weight (map_of (tr_flows s1) ?k)"
    using pool_ok_entry [of flow_weight "flow_ok (tr_cfg s1)" "tr_flows s1" "tr_lru s1" "tr_mem_used s1" ?k] s1(1)
      flow_ok_new
    by (auto simp: fl_def tcp_ok_def flow_ok_def flow_weight_def split: option.splits)
  have s2: "tcp_ok s2" "tr_cfg s2 = tr_cfg s" "map_of (tr_flows s2) ?k = Some fl"
    unfolding s2_def using tcp_ok_enter [OF s1(1) ok] s1(2) by (simp_all add: tr_touch_def update_conv')
  have len: "length (tr_flows s2) \<le> max 1 (tc_max_flows (tr_cfg s))"
    using s1(3,4) length_update_le [of ?k fl "tr_flows s1"] length_update_at [of "tr_flows s1" ?k fl]
    by (cases "map_of (tr_flows s1) ?k") (auto simp: s2_def tr_touch_def)
  have erased: "tcp_ok (erase_flow ?k s)" "length (tr_flows (erase_flow ?k s)) \<le> length (tr_flows s)"
    "tr_cfg (erase_flow ?k s) = tr_cfg s" if "tcp_ok s" for s
    using tcp_ok_erase [OF that] length_delete_le by (simp_all add: erase_flow_fields)
  note add = add_segment_def [of pp data now_ms s, unfolded Let_def e prod.case, folded fl_def, folded s2_def]
  show ?thesis
  proof (cases "tcp_flags pp AND TCP_RST \<noteq> 0")
    case rst: True
    show ?thesis
      unfolding add using True rst erased [OF s2(1)] s2(2) len by (auto simp: tcp_ok_expire)
  next
    case rst: False
    define d where "d = init_direction (tcp_seq pp) (tcp_flags pp AND TCP_SYN \<noteq> 0) (get_dir ?dir fl)"
    have d: "dir_ok (tr_cfg s2) d" "di_ooo_bytes d \<le> tr_mem_used s2" "tr_mem_used s2 \<le> tc_max_mem_bytes (tr_cfg s2)"
      using ok(1) s1(2) s2 pool_ok_delete(2) [of flow_weight "flow_ok (tr_cfg s2)" "tr_flows s2" "tr_lru s2" "tr_mem_used s2" ?k]
      by (auto simp: d_def get_dir_def flow_ok_def flow_weight_def tcp_ok_def)
    obtain outs ev2 mem d' where ac: "accept_data (tr_cfg s2) (tcp_seq pp) data now_ms (tr_mem_used s2) d = Some (outs, ev2, mem, d')"
      "dir_ok (tr_cfg s2) d'" "mem + di_ooo_bytes d = tr_mem_used s2 + di_ooo_bytes d'" "mem \<le> tc_max_mem_bytes (tr_cfg s2)"
      using accept_data_ok [OF d, of "tcp_seq pp" data now_ms] by blast
    define fl' where "fl' = set_dir ?dir (see_fin (tcp_flags pp AND TCP_FIN \<noteq> 0) d') fl"
    define s3 where "s3 = s2\<lparr>tr_mem_used := mem, tr_flows := AList.update ?k fl' (tr_flows s2)\<rparr>"
    have "flow_ok (tr_cfg s2) fl'" "mem + flow_weight fl = tr_mem_used s2 + flow_weight fl'"
      using ok(1) ac(2,3) s1(2) s2(2) by (auto simp: fl'_def set_dir_def flow_ok_def flow_weight_def d_def get_dir_def)
    then have s3: "tcp_ok s3" "tr_cfg s3 = tr_cfg s" "length (tr_flows s3) = length (tr_flows s2)"
      using tcp_ok_replace [OF s2(1) _ s2(3) _ ac(4)] s2(2,3) by (simp_all add: s3_def length_update_at)
    show ?thesis
      using True rst ac(1) erased [OF s3(1)] s3 len
      by (auto simp: add d_def [symmetric] fl'_def [symmetric] s3_def [symmetric] tcp_ok_expire intro: order_trans)
  qed
qed

text \<open>
  Whatever a segment holds, adding it to the reassembly does not fail: no trimming leaves the data. The
  table keeps its books: the pool is exactly the sum of the kept bytes and within its limit, every
  direction is ordered and within its limit, the order lists exactly the flows, and there are never more
  flows than the limit. Expiry keeps all of it.
\<close>

lemma stream_invariant:
  assumes "tcp_ok s" "length (tr_flows s) \<le> max 1 (tc_max_flows (tr_cfg s))"
  shows "\<exists>r s'. add_segment pp data now_ms s = Some (r, s') \<and> tcp_ok s' \<and> tr_cfg s' = tr_cfg s \<and>
    length (tr_flows s') \<le> max 1 (tc_max_flows (tr_cfg s)) \<and> tcp_ok (snd (tcp_expire now_ms s'))"
  using add_segment_ok [OF assms] .

end
