(* ===== verification/C_Text.thy ===== *)
theory C_Text
  imports Idsm_Prelude "HOL-Library.Sublist"
begin

text \<open>
  The text handling that the probes take from the C and C++ standard libraries: C strings, \<open>strtoul\<close>,
  \<open>strtol\<close> and the \<open>%u\<close> conversion, splitting, trimming and searching, with the round trips of printed
  numbers. A parsing function of the code that returns \<open>bool\<close> and an output parameter is an option here.
\<close>

subsection \<open>Strings\<close>

text \<open>What \<open>c_str()\<close> shows to the C functions: everything up to the first NUL.\<close>

definition c_str :: "string \<Rightarrow> string" where
  "c_str s = takeWhile (\<lambda>c. c \<noteq> CHR 0x00) s"

fun split_on :: "char \<Rightarrow> string \<Rightarrow> string list" where
  "split_on c [] = [[]]"
| "split_on c (x # s) = (if x = c then [] # split_on c s
     else (case split_on c s of [] \<Rightarrow> [[x]] | t # ts \<Rightarrow> (x # t) # ts))"

text \<open>
  The pieces of a string between separators, where a separator at the very end opens no new piece; this
  is how \<open>std::getline\<close> cuts a stream.
\<close>

definition getlines :: "char \<Rightarrow> string \<Rightarrow> string list" where
  "getlines c s = (let ps = split_on c s in if last ps = [] then butlast ps else ps)"

text \<open>The parts before and after the first occurrence of a character.\<close>

definition cut_at :: "char \<Rightarrow> string \<Rightarrow> (string \<times> string) option" where
  "cut_at c s = (if c \<in> set s then Some (takeWhile (\<lambda>x. x \<noteq> c) s, tl (dropWhile (\<lambda>x. x \<noteq> c) s)) else None)"

text \<open>The same for a substring.\<close>

fun cut_at_sub :: "string \<Rightarrow> string \<Rightarrow> (string \<times> string) option" where
  "cut_at_sub p s = (if take (length p) s = p then Some ([], drop (length p) s)
     else (case s of [] \<Rightarrow> None
           | c # r \<Rightarrow> map_option (\<lambda>(a, b). (c # a, b)) (cut_at_sub p r)))"

declare cut_at_sub.simps [simp del]

text \<open>Pieces with a separator between them.\<close>

fun join :: "char \<Rightarrow> string list \<Rightarrow> string" where
  "join c [] = []"
| "join c [p] = p"
| "join c (p # q # ps) = p @ c # join c (q # ps)"

definition trim_of :: "(char \<Rightarrow> bool) \<Rightarrow> string \<Rightarrow> string" where
  "trim_of P s = rev (dropWhile P (rev (dropWhile P s)))"

subsection \<open>Errors as sums\<close>

named_theorems error_simps "when a chain of steps that may fail gives a result"

lemma bind_sum_Inr [error_simps]:
  "(m \<bind> (\<lambda>x. case x of Inl e \<Rightarrow> Some (Inl (f e)) | Inr y \<Rightarrow> g y)) = Some (Inr r) \<longleftrightarrow>
     (\<exists>y. m = Some (Inr y) \<and> g y = Some (Inr r))"
  by (cases m) (auto split: sum.split)

lemma bind_Some_sum_Inr [error_simps]:
  "(m \<bind> (\<lambda>x. Some (case x of Inl e \<Rightarrow> Inl (f e) | Inr y \<Rightarrow> h y))) = Some (Inr r) \<longleftrightarrow>
     (\<exists>y. m = Some (Inr y) \<and> h y = Inr r)"
  by (cases m) (auto split: sum.split)

lemma case_sum_Inr [error_simps]:
  "(case x of Inl e \<Rightarrow> Inl (f e) | Inr y \<Rightarrow> h y) = Inr r \<longleftrightarrow> (\<exists>y. x = Inr y \<and> h y = Inr r)"
  by (cases x) simp_all

lemma case_option_Inr [error_simps]:
  "(case x of None \<Rightarrow> Inl e | Some y \<Rightarrow> h y) = Inr r \<longleftrightarrow> (\<exists>y. x = Some y \<and> h y = Inr r)"
  by (cases x) simp_all

lemma case_option_Some_Inr [error_simps]:
  "(case x of None \<Rightarrow> Some (Inl e) | Some y \<Rightarrow> g y) = Some (Inr r) \<longleftrightarrow> (\<exists>y. x = Some y \<and> g y = Some (Inr r))"
  by (cases x) simp_all

lemma if_Inl_Inr [error_simps]:
  "(if b then Inl e else y) = Inr r \<longleftrightarrow> \<not> b \<and> y = Inr r"
  "(if b then Some (Inl e) else z) = Some (Inr r) \<longleftrightarrow> \<not> b \<and> z = Some (Inr r)"
  by simp_all

subsection \<open>Numbers\<close>

definition c_digits :: "nat \<Rightarrow> string \<Rightarrow> string" where
  "c_digits base s = digits_of base (strip_0x base (snd (strip_sign (dropWhile is_space s))))"

text \<open>
  \<open>strtoul (s, &end, base)\<close>: the value and what \<open>end\<close> points to; \<open>None\<close> when there is no number, where
  \<open>end\<close> is the start of the string.
\<close>

definition c_strtoul :: "nat \<Rightarrow> string \<Rightarrow> (u64 \<times> string) option" where
  "c_strtoul base s = (if c_digits base (c_str s) = [] then None
     else (case strtoul base (dropWhile is_space (c_str s)) of (n, r) \<Rightarrow> Some (of_nat n, r)))"

text \<open>\<open>strtol\<close>, with its clamping.\<close>

definition c_strtol :: "nat \<Rightarrow> string \<Rightarrow> (int \<times> string) option" where
  "c_strtol base s = (let t = dropWhile is_space (c_str s); (neg, r) = strip_sign t;
       ds = c_digits base (c_str s); n = int (number_of base ds) in
     if ds = [] then None
     else Some (if neg then max (- (2 ^ 63)) (- n) else min (2 ^ 63 - 1) n, drop (length ds) (strip_0x base r)))"

text \<open>
  The \<open>%u\<close> conversion of \<open>sscanf\<close> reads like \<open>strtoul\<close> and keeps the low 32 bits. (The standard leaves a
  value that does not fit open; this is what the C library of the target does.)
\<close>

definition scan_u :: "string \<Rightarrow> (u32 \<times> string) option" where
  "scan_u s = map_option (\<lambda>(n, r). (ucast n, r)) (c_strtoul 10 s)"

definition scan_char :: "char \<Rightarrow> string \<Rightarrow> string option" where
  "scan_char c s = (case s of x # r \<Rightarrow> if x = c then Some r else None | [] \<Rightarrow> None)"

text \<open>\<open>sscanf (s, "%u.%u.%u.%u%c", ...) = 4\<close>: four numbers and nothing behind them.\<close>

definition scan_quad :: "string \<Rightarrow> (u32 \<times> u32 \<times> u32 \<times> u32) option" where
  "scan_quad s = do {
     (a, s) \<leftarrow> scan_u s; s \<leftarrow> scan_char CHR ''.'' s;
     (b, s) \<leftarrow> scan_u s; s \<leftarrow> scan_char CHR ''.'' s;
     (c, s) \<leftarrow> scan_u s; s \<leftarrow> scan_char CHR ''.'' s;
     (d, s) \<leftarrow> scan_u s;
     if s = [] then Some (a, b, c, d) else None }"

subsection \<open>Printed numbers read back\<close>

lemma digit_val_digit: "n < 16 \<Longrightarrow> digit_val (digit n) = n"
  by (auto simp: digit_val_def digit_def Let_def)

lemma digit_char:
  assumes "m < 10"
  shows "digit_val (digit m) < 10" "digit m \<noteq> CHR 0x00" "\<not> is_space (digit m)"
proof -
  have of: "of_char (digit m) = (48 + m :: nat)" using assms by (simp add: digit_def)
  have ne: "digit m \<noteq> c" if "of_char c < (48 :: nat)" for c using of that by auto
  show "digit_val (digit m) < 10" using assms by (simp add: digit_val_digit)
  show "digit m \<noteq> CHR 0x00" "\<not> is_space (digit m)" by (simp_all add: ne is_space_def)
qed

lemma dec_digits: "c \<in> set (dec n) \<Longrightarrow> digit_val c < 10 \<and> c \<noteq> CHR 0x00 \<and> \<not> is_space c"
proof (induction n rule: dec.induct)
  case (1 n)
  show ?case
  proof (cases "n < 10")
    case True
    then show ?thesis using 1(2) digit_char [OF True] by (simp add: dec.simps [of n])
  next
    case False
    then have "c \<in> set (dec (n div 10)) \<or> c = digit (n mod 10)" using 1(2) by (auto simp: dec.simps [of n])
    then show ?thesis using 1(1) [OF False] digit_char [of "n mod 10"] by auto
  qed
qed

lemma dec_not_Nil [simp]: "dec n \<noteq> []"
  by (subst dec.simps) simp

lemma number_of_append: "number_of b (xs @ ys) = fold (\<lambda>c n. n * b + digit_val c) ys (number_of b xs)"
  by (simp add: number_of_def)

lemma number_of_dec [simp]: "number_of 10 (dec n) = n"
proof (induction n rule: dec.induct)
  case (1 n)
  show ?case
  proof (cases "n < 10")
    case True
    then show ?thesis by (simp add: dec.simps [of n] number_of_def digit_val_digit)
  next
    case False
    then show ?thesis
      using 1 by (simp add: dec.simps [of n] number_of_append digit_val_digit)
  qed
qed

lemma digits_of_append:
  assumes "\<forall>c \<in> set ds. digit_val c < base" "r = [] \<or> \<not> digit_val (hd r) < base"
  shows "digits_of base (ds @ r) = ds"
  using assms by (cases r) (auto simp: digits_of_def takeWhile_append)

lemma c_str_append: "CHR 0x00 \<notin> set s \<Longrightarrow> c_str (s @ r) = s @ c_str r"
  unfolding c_str_def by (rule takeWhile_append2) auto

lemma c_str_id: "CHR 0x00 \<notin> set s \<Longrightarrow> c_str s = s"
  using c_str_append [of s "[]"] by (simp add: c_str_def)

lemma digit_not_sign: "digit_val c < 16 \<Longrightarrow> c \<noteq> CHR ''-'' \<and> c \<noteq> CHR ''+''"
  by (auto simp: digit_val_def)

lemma digit_not_space: "digit_val c < 16 \<Longrightarrow> \<not> is_space c"
  by (auto simp: digit_val_def is_space_def)

lemma strip_sign_digit: "s \<noteq> [] \<Longrightarrow> digit_val (hd s) < 16 \<Longrightarrow> strip_sign s = (False, s)"
  by (cases s) (auto simp: strip_sign_def dest: digit_not_sign)

lemma strip_0x_10 [simp]: "strip_0x 10 s = s"
  by (auto simp: strip_0x_def split: list.split)

lemma scan_digits:
  assumes "ds \<noteq> []" "\<forall>c \<in> set ds. digit_val c < base \<and> c \<noteq> CHR 0x00" "base \<le> 16"
    "r = [] \<or> \<not> digit_val (hd r) < base" "CHR 0x00 \<notin> set r"
    "strip_0x base (ds @ r) = ds @ r"
  shows "c_str (ds @ r) = ds @ r" "dropWhile is_space (ds @ r) = ds @ r" "strip_sign (ds @ r) = (False, ds @ r)"
    "c_digits base (ds @ r) = ds"
proof -
  have hd: "digit_val (hd ds) < 16" using bspec [OF assms(2) hd_in_set [OF assms(1)]] assms(3) by simp
  show "c_str (ds @ r) = ds @ r" using assms(2,5) by (intro c_str_id) auto
  show d: "dropWhile is_space (ds @ r) = ds @ r"
    using assms(1) hd digit_not_space by (cases ds) auto
  show s: "strip_sign (ds @ r) = (False, ds @ r)"
    using assms(1) hd by (intro strip_sign_digit) simp_all
  show "c_digits base (ds @ r) = ds"
    unfolding c_digits_def d s snd_conv assms(6) using assms(2,4) by (intro digits_of_append) auto
qed

lemma strtoul_dec:
  assumes "n < 2 ^ 64" "r = [] \<or> \<not> digit_val (hd r) < 10" "CHR 0x00 \<notin> set r"
  shows "c_strtoul 10 (dec n @ r) = Some (of_nat n, r)"
proof -
  have ds: "\<forall>c \<in> set (dec n). digit_val c < 10 \<and> c \<noteq> CHR 0x00" using dec_digits by blast
  note sd = scan_digits [OF dec_not_Nil ds _ assms(2,3), simplified]
  have "digits_of 10 (dec n @ r) = dec n" using ds assms(2) by (intro digits_of_append) auto
  then show ?thesis
    using assms(1) by (simp add: c_strtoul_def sd strtoul_def Let_def)
qed

lemma scan_quad_dec:
  assumes "a < 2 ^ 32" "b < 2 ^ 32" "c < 2 ^ 32" "d < 2 ^ 32"
  shows "scan_quad (dec a @ ''.'' @ dec b @ ''.'' @ dec c @ ''.'' @ dec d) =
    Some (of_nat a, of_nat b, of_nat c, of_nat d)"
proof -
  have dot: "\<not> digit_val CHR ''.'' < 10" by (simp add: digit_val_def)
  have nul: "CHR 0x00 \<notin> set (dec n)" for n using dec_digits by blast
  have u: "scan_u (dec n @ r) = Some (of_nat n, r)"
    if "n < 2 ^ 32" "r = [] \<or> \<not> digit_val (hd r) < 10" "CHR 0x00 \<notin> set r" for n r
  proof -
    have "n < 2 ^ 64" using that(1) by simp
    then show ?thesis using that by (simp add: scan_u_def strtoul_dec unsigned_of_nat take_bit_nat_eq_self)
  qed
  have u1: "scan_u (dec n @ ''.'' @ r) = Some (of_nat n, ''.'' @ r)" if "n < 2 ^ 32" "CHR 0x00 \<notin> set r" for n r
    using that by (intro u) (auto simp: dot)
  have sc: "scan_char CHR ''.'' (''.'' @ r) = Some r" for r by (simp add: scan_char_def)
  have u2: "scan_u (dec d) = Some (of_nat d, [])" using u [of d "[]"] assms(4) by simp
  have n2: "CHR 0x00 \<notin> set (dec b @ ''.'' @ dec c @ ''.'' @ dec d)" "CHR 0x00 \<notin> set (dec c @ ''.'' @ dec d)"
    "CHR 0x00 \<notin> set (dec d)" by (simp_all add: nul)
  show ?thesis
    unfolding scan_quad_def u1 [OF assms(1) n2(1)] u1 [OF assms(2) n2(2)] u1 [OF assms(3) n2(3)] u2 sc
      bind.bind_lunit prod.case by simp
qed

end
