(* ===== verification/Eth_Geoip.thy ===== *)
theory Eth_Geoip
  imports C_Text
begin

text \<open>
  \<open>apps/eth_probe/geoip\<close>: reading CIDR prefixes, the prefix tries, and the classification of addresses
  as vehicle-internal, domestic or foreign. A node of a trie with its two child pointers is a datatype; a
  null pointer is \<open>None\<close>. The text of a list is the contents of its file.
\<close>

subsection \<open>Prefix tries\<close>

datatype trie = TrieNode "trie option" "trie option" bool

definition new_node :: trie where
  "new_node = TrieNode None None False"

definition node_or_new :: "trie option \<Rightarrow> trie" where
  "node_or_new n = (case n of None \<Rightarrow> new_node | Some n \<Rightarrow> n)"

text \<open>Bit \<open>i\<close> of an address, from the first bit of its first byte.\<close>

definition addr_bit :: "bytes \<Rightarrow> nat \<Rightarrow> bool" where
  "addr_bit addr i = bit (addr ! (i div 8)) (7 - i mod 8)"

definition addr_bits :: "nat \<Rightarrow> bytes \<Rightarrow> bool list" where
  "addr_bits n addr = map (addr_bit addr) [0..<n]"

fun insert_bits :: "bool list \<Rightarrow> trie \<Rightarrow> trie" where
  "insert_bits [] (TrieNode c0 c1 t) = TrieNode c0 c1 True"
| "insert_bits (b # bs) (TrieNode c0 c1 t) =
     (if b then TrieNode c0 (Some (insert_bits bs (node_or_new c1))) t
      else TrieNode (Some (insert_bits bs (node_or_new c0))) c1 t)"

fun find_bits :: "bool list \<Rightarrow> trie \<Rightarrow> bool" where
  "find_bits [] (TrieNode c0 c1 t) = t"
| "find_bits (b # bs) (TrieNode c0 c1 t) =
     (if t then True
      else (case (if b then c1 else c0) of None \<Rightarrow> False | Some n \<Rightarrow> find_bits bs n))"

record trie_set =
  ts_root :: trie
  ts_inserted :: nat

definition trie_empty :: trie_set where
  "trie_empty = \<lparr> ts_root = new_node, ts_inserted = 0 \<rparr>"

definition trie_insert :: "bytes \<Rightarrow> u8 \<Rightarrow> nat \<Rightarrow> trie_set \<Rightarrow> trie_set" where
  "trie_insert addr plen max_bits t =
     \<lparr> ts_root = insert_bits (addr_bits (min (unat plen) max_bits) addr) (ts_root t),
       ts_inserted = ts_inserted t + 1 \<rparr>"

definition trie_contains :: "bytes \<Rightarrow> nat \<Rightarrow> trie_set \<Rightarrow> bool" where
  "trie_contains addr max_bits t = find_bits (addr_bits max_bits addr) (ts_root t)"

subsection \<open>Reading a prefix\<close>

record cidr_net =
  cn_addr :: bytes
  cn_prefix :: u8
  cn_v6 :: bool

text \<open>
  One group of an IPv6 address; \<open>strtol\<close> leaves \<open>end\<close> at the start when there is no digit, which only
  an embedded NUL lets pass.
\<close>

definition v6_group :: "string \<Rightarrow> u16 option" where
  "v6_group tok = (if tok = [] \<or> length tok > 4 then None
     else (case c_strtol 16 tok of
         None \<Rightarrow> if c_str tok = [] then Some 0 else None
       | Some (v, e) \<Rightarrow> if e \<noteq> [] \<or> v > 0xFFFF then None else Some (of_int v)))"

definition parse_part :: "string \<Rightarrow> u16 list option" where
  "parse_part s = (if s = [] then Some [] else those (map v6_group (split_on CHR '':'' s)))"

text \<open>Writing the groups from an index on; a write outside the sixteen bytes is \<open>None\<close>.\<close>

fun put_groups :: "bytes \<Rightarrow> nat \<Rightarrow> u16 list \<Rightarrow> bytes option" where
  "put_groups addr idx [] = Some addr"
| "put_groups addr idx (g # gs) = do {
     addr \<leftarrow> wr8 addr idx (hi8 g);
     addr \<leftarrow> wr8 addr (idx + 1) (lo8 g);
     put_groups addr (idx + 2) gs }"

text \<open>
  The outer option is \<open>None\<close> when the code writes outside its array; the inner one is the result of the
  function.
\<close>

definition parse_addr_cidr :: "string \<Rightarrow> cidr_net option option" where
  "parse_addr_cidr line = (let
     (a, given) = (case cut_at CHR ''/'' line of None \<Rightarrow> (line, Some None) | Some (a, p) \<Rightarrow>
        (a, case c_strtoul 10 p of None \<Rightarrow> None
            | Some (v, e) \<Rightarrow> if e \<noteq> [] then None else Some (Some (ucast v :: u32)))) in
     case given of None \<Rightarrow> Some None
     | Some p \<Rightarrow> (let plen = (case p of None \<Rightarrow> 0xFFFFFFFF | Some v \<Rightarrow> v) in
         if CHR '':'' \<in> set a
         then (case (case cut_at_sub ''::'' a of
               Some (h, t) \<Rightarrow> (case parse_part h of None \<Rightarrow> None | Some head \<Rightarrow>
                  (case parse_part t of None \<Rightarrow> None | Some tail \<Rightarrow> Some (head, tail)))
             | None \<Rightarrow> (case parse_part a of None \<Rightarrow> None
                  | Some head \<Rightarrow> if length head \<noteq> 8 then None else Some (head, []))) of
             None \<Rightarrow> Some None
           | Some (head, tail) \<Rightarrow> do {
               addr \<leftarrow> put_groups (replicate 16 0) 0 head;
               idx \<leftarrow> size_sub 16 (2 * length tail);
               addr \<leftarrow> put_groups addr idx tail;
               let plen = (if plen = 0xFFFFFFFF then 128 else plen);
               Some (if plen > 128 then None
                     else Some \<lparr> cn_addr = addr, cn_prefix = ucast plen, cn_v6 = True \<rparr>) })
         else (case scan_quad a of None \<Rightarrow> Some None
           | Some (b0, b1, b2, b3) \<Rightarrow>
               if b0 > 255 \<or> b1 > 255 \<or> b2 > 255 \<or> b3 > 255 then Some None
               else (let plen = (if plen = 0xFFFFFFFF then 32 else plen) in
                 Some (if plen > 32 then None
                   else Some \<lparr> cn_addr = [ucast b0, ucast b1, ucast b2, ucast b3],
                                cn_prefix = ucast plen, cn_v6 = False \<rparr>)))))"

subsection \<open>The classifier\<close>

datatype verdict = UNKNOWN | HOME | DOMESTIC | FOREIGN

record geoip =
  gi_domestic_v4 :: trie_set
  gi_domestic_v6 :: trie_set
  gi_home_v4 :: trie_set
  gi_home_v6 :: trie_set
  gi_domestic_loaded :: bool

definition family_bits :: "bool \<Rightarrow> nat" where
  "family_bits v6 = (if v6 then 128 else 32)"

text \<open>Adding a prefix to the trie of its family.\<close>

definition add_net :: "cidr_net \<Rightarrow> trie_set \<times> trie_set \<Rightarrow> trie_set \<times> trie_set" where
  "add_net n t = (case t of (v4, v6) \<Rightarrow>
     if cn_v6 n then (v4, trie_insert (cn_addr n) (cn_prefix n) (family_bits True) v6)
     else (trie_insert (cn_addr n) (cn_prefix n) (family_bits False) v4, v6))"

definition net_contains :: "bytes \<Rightarrow> bool \<Rightarrow> trie_set \<times> trie_set \<Rightarrow> bool" where
  "net_contains ip is_v6 t = (if is_v6 then trie_contains ip (family_bits True) (snd t)
     else trie_contains ip (family_bits False) (fst t))"

definition default_home :: "string list" where
  "default_home = [''10.0.0.0/8'', ''172.16.0.0/12'', ''192.168.0.0/16'', ''127.0.0.0/8'',
     ''169.254.0.0/16'', ''fe80::/10'', ''::1/128'']"

text \<open>A line that cannot be read is left out.\<close>

fun add_readable :: "string list \<Rightarrow> trie_set \<times> trie_set \<Rightarrow> (nat \<times> trie_set \<times> trie_set) option" where
  "add_readable [] t = Some (0, t)"
| "add_readable (c # cs) t = do {
     n \<leftarrow> parse_addr_cidr c;
     (case n of
        None \<Rightarrow> do { (bad, t) \<leftarrow> add_readable cs t; Some (bad + 1, t) }
      | Some n \<Rightarrow> add_readable cs (add_net n t)) }"

definition geoip_new :: "geoip option" where
  "geoip_new = do {
     (_, v4, v6) \<leftarrow> add_readable default_home (trie_empty, trie_empty);
     Some \<lparr> gi_domestic_v4 = trie_empty, gi_domestic_v6 = trie_empty, gi_home_v4 = v4, gi_home_v6 = v6,
            gi_domestic_loaded = False \<rparr> }"

definition blank :: "char \<Rightarrow> bool" where
  "blank c \<longleftrightarrow> c = CHR '' '' \<or> c = CHR 0x09 \<or> c = CHR 0x0D \<or> c = CHR 0x0A"

definition cidr_lines :: "string \<Rightarrow> string list" where
  "cidr_lines file = filter (\<lambda>l. l \<noteq> [] \<and> hd l \<noteq> CHR ''#'') (map (trim_of blank) (getlines CHR 0x0A file))"

text \<open>Loading the domestic list; the file is \<open>None\<close> when it cannot be opened. The result has the bad lines.\<close>

definition load_cidrs :: "string option \<Rightarrow> geoip \<Rightarrow> (nat option \<times> geoip) option" where
  "load_cidrs file g = (case file of
     None \<Rightarrow> Some (None, g)
   | Some text \<Rightarrow> do {
       (bad, v4, v6) \<leftarrow> add_readable (cidr_lines text) (gi_domestic_v4 g, gi_domestic_v6 g);
       Some (Some bad, g\<lparr>gi_domestic_v4 := v4, gi_domestic_v6 := v6, gi_domestic_loaded := True\<rparr>) })"

fun add_all_nets :: "string list \<Rightarrow> trie_set \<times> trie_set \<Rightarrow> (trie_set \<times> trie_set) option option" where
  "add_all_nets [] t = Some (Some t)"
| "add_all_nets (c # cs) t = do {
     n \<leftarrow> parse_addr_cidr c;
     (case n of None \<Rightarrow> Some None | Some n \<Rightarrow> add_all_nets cs (add_net n t)) }"

definition set_home_nets :: "string list \<Rightarrow> geoip \<Rightarrow> (bool \<times> geoip) option" where
  "set_home_nets cidrs g = do {
     t \<leftarrow> add_all_nets cidrs (trie_empty, trie_empty);
     Some (case t of None \<Rightarrow> (False, g)
           | Some (v4, v6) \<Rightarrow> (True, g\<lparr>gi_home_v4 := v4, gi_home_v6 := v6\<rparr>)) }"

definition classify :: "bytes \<Rightarrow> bool \<Rightarrow> geoip \<Rightarrow> verdict" where
  "classify ip is_v6 g =
     (if net_contains ip is_v6 (gi_home_v4 g, gi_home_v6 g) then HOME
      else if \<not> gi_domestic_loaded g then UNKNOWN
      else if net_contains ip is_v6 (gi_domestic_v4 g, gi_domestic_v6 g) then DOMESTIC else FOREIGN)"

definition cidr_count :: "geoip \<Rightarrow> nat" where
  "cidr_count g = ts_inserted (gi_domestic_v4 g) + ts_inserted (gi_domestic_v6 g)"

subsection \<open>The plain set\<close>

record cidr_set =
  cs_tries :: "trie_set \<times> trie_set"
  cs_n :: nat

definition cidr_set_new :: cidr_set where
  "cidr_set_new = \<lparr> cs_tries = (trie_empty, trie_empty), cs_n = 0 \<rparr>"

definition cidr_add :: "string \<Rightarrow> cidr_set \<Rightarrow> (bool \<times> cidr_set) option" where
  "cidr_add cidr s = do {
     n \<leftarrow> parse_addr_cidr cidr;
     Some (case n of None \<Rightarrow> (False, s)
           | Some n \<Rightarrow> (True, \<lparr> cs_tries = add_net n (cs_tries s), cs_n = cs_n s + 1 \<rparr>)) }"

definition pad :: "char \<Rightarrow> bool" where
  "pad c \<longleftrightarrow> c = CHR '' '' \<or> c = CHR 0x09"

fun cidr_add_items :: "string list \<Rightarrow> cidr_set \<Rightarrow> (bool \<times> cidr_set) option" where
  "cidr_add_items [] s = Some (True, s)"
| "cidr_add_items (tok # ts) s =
     (if trim_of pad tok = [] then cidr_add_items ts s
      else do { (ok, s) \<leftarrow> cidr_add (trim_of pad tok) s;
                if ok then cidr_add_items ts s else Some (False, s) })"

definition cidr_add_list :: "string \<Rightarrow> cidr_set \<Rightarrow> (bool \<times> cidr_set) option" where
  "cidr_add_list csv s = cidr_add_items (split_on CHR '','' csv) s"

definition cidr_contains :: "bytes \<Rightarrow> bool \<Rightarrow> cidr_set \<Rightarrow> bool" where
  "cidr_contains ip is_v6 s = net_contains ip is_v6 (cs_tries s)"

definition cidr_empty :: "cidr_set \<Rightarrow> bool" where
  "cidr_empty s = (cs_n s = 0)"

subsection \<open>Printed prefixes read back\<close>

lemma split_on_piece: "c \<notin> set p \<Longrightarrow> split_on c p = [p]"
  by (induction p) auto

lemma split_on_append: "c \<notin> set p \<Longrightarrow> split_on c (p @ c # s) = p # split_on c s"
  by (induction p) auto

lemma split_on_join: "ps \<noteq> [] \<Longrightarrow> \<forall>p \<in> set ps. c \<notin> set p \<Longrightarrow> split_on c (join c ps) = ps"
  by (induction c ps rule: join.induct) (auto simp: split_on_piece split_on_append)

lemma cut_at_append: "c \<notin> set a \<Longrightarrow> cut_at c (a @ c # r) = Some (a, r)"
  by (induction a) (auto simp: cut_at_def split: if_splits)

lemma cut_colons_skip:
  "x \<noteq> CHR '':'' \<Longrightarrow> cut_at_sub ''::'' (x # s) = map_option (\<lambda>(a, b). (x # a, b)) (cut_at_sub ''::'' s)"
  by (subst cut_at_sub.simps) simp

lemma cut_colons_append: "CHR '':'' \<notin> set p \<Longrightarrow> cut_at_sub ''::'' s = None \<Longrightarrow> cut_at_sub ''::'' (p @ s) = None"
  by (induction p) (auto simp: cut_colons_skip)

lemma cut_colons_Nil [simp]: "cut_at_sub ''::'' [] = None"
  by (subst cut_at_sub.simps) simp

lemma cut_colons_join:
  "\<forall>p \<in> set ps. CHR '':'' \<notin> set p \<and> p \<noteq> [] \<Longrightarrow> cut_at_sub ''::'' (join CHR '':'' ps) = None"
proof (induction "CHR '':''" ps rule: join.induct)
  case (2 p)
  then show ?case using cut_colons_append [of p "[]"] by simp
next
  case (3 p q ps)
  have "\<exists>x s. join CHR '':'' (q # ps) = x # s \<and> x \<noteq> CHR '':''"
    using 3(2) by (cases ps; cases q) auto
  then obtain x s where x: "join CHR '':'' (q # ps) = x # s" "x \<noteq> CHR '':''" by blast
  have "cut_at_sub ''::'' (CHR '':'' # join CHR '':'' (q # ps)) = None"
    using 3 x by (subst cut_at_sub.simps) simp
  then show ?case using 3(2) cut_colons_append [of p] by simp
qed simp

text \<open>Four hexadecimal digits, and the text of a prefix.\<close>

definition hex4 :: "u16 \<Rightarrow> string" where
  "hex4 g = [digit (unat g div 4096), digit (unat g div 256 mod 16), digit (unat g div 16 mod 16), digit (unat g mod 16)]"

fun groups_of :: "bytes \<Rightarrow> u16 list" where
  "groups_of (a # b # r) = be16 a b # groups_of r"
| "groups_of _ = []"

definition quad_text :: "nat \<Rightarrow> nat \<Rightarrow> nat \<Rightarrow> nat \<Rightarrow> string" where
  "quad_text a b c d = dec a @ ''.'' @ dec b @ ''.'' @ dec c @ ''.'' @ dec d"

definition net_text :: "cidr_net \<Rightarrow> string" where
  "net_text n = (if cn_v6 n then join CHR '':'' (map hex4 (groups_of (cn_addr n)))
     else quad_text (unat (cn_addr n ! 0)) (unat (cn_addr n ! 1)) (unat (cn_addr n ! 2)) (unat (cn_addr n ! 3)))
     @ ''/'' @ dec (unat (cn_prefix n))"

definition net_ok :: "cidr_net \<Rightarrow> bool" where
  "net_ok n \<longleftrightarrow> length (cn_addr n) = (if cn_v6 n then 16 else 4) \<and> cn_prefix n \<le> (if cn_v6 n then 128 else 32)"

lemma unat_ucast_8_32: "unat (ucast (x :: u8) :: u32) = unat x"
  using unat_u8_bound [of x] by (simp add: unsigned_ucast_eq take_bit_nat_eq_self del: unat_u8_bound)

lemma ucast_8_32_8: "ucast (ucast (x :: u8) :: u32) = x"
  by (rule bit_word_eqI) (auto simp: bit_simps)

lemma dec_not_in: "\<not> digit_val c < 10 \<Longrightarrow> c \<notin> set (dec n)"
  using dec_digits by blast

lemma quad_text_chars: "CHR ''/'' \<notin> set (quad_text a b c d)" "CHR '':'' \<notin> set (quad_text a b c d)"
  by (simp_all add: quad_text_def dec_not_in digit_val_def)

lemma strtoul_plain: "n < 2 ^ 64 \<Longrightarrow> c_strtoul 10 (dec n) = Some (of_nat n, [])"
  using strtoul_dec [of n "[]"] by simp

lemma parse_v4_text:
  assumes "a < 256" "b < 256" "c < 256" "d < 256" "p < 2 ^ 64"
  shows "parse_addr_cidr (quad_text a b c d @ ''/'' @ dec p) =
    (let q = (if (of_nat p :: u32) = 0xFFFFFFFF then 32 else of_nat p :: u32) in
     Some (if q > 32 then None else
       Some \<lparr> cn_addr = [of_nat a, of_nat b, of_nat c, of_nat d], cn_prefix = ucast q, cn_v6 = False \<rparr>))"
proof -
  have cut: "cut_at CHR ''/'' (quad_text a b c d @ ''/'' @ dec p) = Some (quad_text a b c d, dec p)"
    using cut_at_append [OF quad_text_chars(1)] by simp
  have q: "scan_quad (quad_text a b c d) = Some (of_nat a, of_nat b, of_nat c, of_nat d)"
    unfolding quad_text_def by (rule scan_quad_dec) (use assms in simp_all)
  have small: "\<not> (of_nat n :: u32) > 255" "(ucast (of_nat n :: u32) :: u8) = of_nat n" if "n < 256" for n
    using that by (simp_all add: word_less_nat_alt unat_of_nat take_bit_nat_eq_self unsigned_of_nat)
  have u: "(ucast (of_nat p :: u64) :: u32) = of_nat p"
    using assms(5) by (simp add: unsigned_of_nat take_bit_nat_eq_self)
  show ?thesis
    unfolding parse_addr_cidr_def cut option.case prod.case Let_def strtoul_plain [OF assms(5)]
    using quad_text_chars(2) [of a b c d] by (simp add: q small assms u)
qed

lemma hex_digit_char:
  assumes "m < 16"
  shows "digit_val (digit m) < 16 \<and> digit m \<noteq> CHR 0x00" "digit m \<noteq> CHR ''x''" "digit m \<noteq> CHR ''X''"
    "digit m \<noteq> CHR '':''" "digit m \<noteq> CHR ''/''"
proof -
  have v: "digit_val (digit m) = m" using assms by (rule digit_val_digit)
  have z: "digit_val c \<ge> 16 \<Longrightarrow> digit m \<noteq> c" for c using v assms by auto
  show "digit_val (digit m) < 16 \<and> digit m \<noteq> CHR 0x00" using v assms z [of "CHR 0x00"] by (simp add: digit_val_def)
  show "digit m \<noteq> CHR ''x''" "digit m \<noteq> CHR ''X''" "digit m \<noteq> CHR '':''" "digit m \<noteq> CHR ''/''"
    by (rule z, simp add: digit_val_def)+
qed

lemma nibbles: "unat (g :: u16) div 4096 < 16" "unat g div 256 mod 16 < 16" "unat g div 16 mod 16 < 16" "unat g mod 16 < 16"
  using unat_u16_bound [of g] by (simp_all add: less_mult_imp_div_less del: unat_u16_bound)

lemma hex4_chars: "CHR '':'' \<notin> set (hex4 g)" "CHR ''/'' \<notin> set (hex4 g)" "hex4 g \<noteq> []"
proof -
  show "CHR '':'' \<notin> set (hex4 g)" "CHR ''/'' \<notin> set (hex4 g)" "hex4 g \<noteq> []"
    using nibbles [of g, THEN hex_digit_char(4)] nibbles [of g, THEN hex_digit_char(5)]
    unfolding hex4_def by (metis empty_iff insert_iff list.set(1,2) list.distinct(1))+
qed

lemma v6_group_hex4: "v6_group (hex4 g) = Some g"
proof -
  have ds: "\<forall>c \<in> set (hex4 g). digit_val c < 16 \<and> c \<noteq> CHR 0x00"
    using nibbles [of g, THEN hex_digit_char(1)] unfolding hex4_def by simp
  have "strip_0x 16 (hex4 g @ []) = hex4 g @ []"
    using nibbles [of g, THEN hex_digit_char(2)] nibbles [of g, THEN hex_digit_char(3)]
    unfolding strip_0x_def hex4_def by simp
  note sd = scan_digits [OF hex4_chars(3) ds order_refl _ _ this, simplified]
  have horner: "number_of 16 [a, b, c, d] =
      ((digit_val a * 16 + digit_val b) * 16 + digit_val c) * 16 + digit_val d" for a b c d
    by (simp add: number_of_def)
  have sum: "((m div 4096 * 16 + m div 256 mod 16) * 16 + m div 16 mod 16) * 16 + m mod 16 = m" for m :: nat
  proof -
    have "m div 256 div 16 = m div 4096" "m div 16 div 16 = m div 256" by (simp_all only: div_mult2_eq [symmetric]) simp_all
    then have "m div 4096 * 16 + m div 256 mod 16 = m div 256" "m div 256 * 16 + m div 16 mod 16 = m div 16"
      using div_mult_mod_eq [of "m div 256" 16] div_mult_mod_eq [of "m div 16" 16] by simp_all
    then show ?thesis using div_mult_mod_eq [of m 16] by simp
  qed
  have n: "number_of 16 (hex4 g) = unat g"
    unfolding hex4_def horner nibbles [of g, THEN digit_val_digit] by (rule sum)
  have "length (hex4 g) = 4" by (simp add: hex4_def)
  moreover have "int (unat g) \<le> 65535" using unat_u16_bound [of g] by linarith
  ultimately show ?thesis
    using hex4_chars(3) [of g] \<open>strip_0x 16 (hex4 g @ []) = _\<close>
    by (simp add: v6_group_def c_strtol_def sd Let_def n)
qed

lemma groups_of_length [simp]: "length (groups_of a) = length a div 2"
  by (induction a rule: groups_of.induct) auto

lemma put_groups_groups_of:
  "even (length a) \<Longrightarrow> idx + length a \<le> length p \<Longrightarrow>
     put_groups p idx (groups_of a) = Some (take idx p @ a @ drop (idx + length a) p)"
proof (induction a arbitrary: p idx rule: groups_of.induct)
  case (1 a b r)
  have "take (idx + 2) (p[idx := a, Suc idx := b]) = take idx p @ [a, b]"
    using 1(3) by (intro nth_equalityI) (auto simp: nth_append nth_list_update less_Suc_eq)
  then show ?case using 1 by (simp add: wr8_def)
qed auto

text \<open>A printed prefix is read back as it was.\<close>

lemma net_text_read:
  assumes "net_ok n"
  shows "parse_addr_cidr (net_text n) = Some (Some n)"
proof (cases "cn_v6 n")
  case False
  obtain a b c d where addr: "cn_addr n = [a, b, c, d]"
    using assms False by (auto simp: net_ok_def length_Suc_conv eval_nat_numeral)
  have p: "unat (cn_prefix n) \<le> 32" using assms False by (simp add: net_ok_def word_le_nat_alt)
  have q: "(of_nat (unat (cn_prefix n)) :: u32) \<noteq> 0xFFFFFFFF" "\<not> (of_nat (unat (cn_prefix n)) :: u32) > 32"
    using p by (auto simp: word_less_nat_alt word_unat_eq_iff unat_ucast_8_32)
  show ?thesis
    using False p q parse_v4_text [of "unat a" "unat b" "unat c" "unat d" "unat (cn_prefix n)"]
    by (cases n) (use addr in \<open>simp add: net_text_def addr Let_def ucast_8_32_8\<close>)
next
  case True
  let ?gs = "map hex4 (groups_of (cn_addr n))"
  have len: "length (cn_addr n) = 16" and p: "unat (cn_prefix n) \<le> 128"
    using assms True by (simp_all add: net_ok_def word_le_nat_alt)
  have ne: "?gs \<noteq> []" using len by (cases "cn_addr n" rule: groups_of.cases) auto
  have pieces: "\<forall>t \<in> set ?gs. CHR '':'' \<notin> set t \<and> t \<noteq> []" using hex4_chars by auto
  have noslash: "CHR ''/'' \<notin> set (join CHR '':'' gs)" if "\<forall>t \<in> set gs. CHR ''/'' \<notin> set t" for gs
    using that by (induction "CHR '':''" gs rule: join.induct) auto
  have cut: "cut_at CHR ''/'' (net_text n) = Some (join CHR '':'' ?gs, dec (unat (cn_prefix n)))"
    using True cut_at_append [OF noslash [of ?gs]] hex4_chars by (simp add: net_text_def)
  have colon: "CHR '':'' \<in> set (join CHR '':'' ?gs)"
    using len by (cases "groups_of (cn_addr n)"; cases "tl (groups_of (cn_addr n))")
      (auto dest: arg_cong [where f = length])
  have "those (map v6_group (map hex4 gs)) = Some gs" for gs
    by (induction gs) (simp_all add: v6_group_hex4)
  then have part: "parse_part (join CHR '':'' ?gs) = Some (groups_of (cn_addr n))"
    using split_on_join [OF ne, of "CHR '':''"] pieces colon by (auto simp: parse_part_def)
  have put: "put_groups (replicate 16 0) 0 (groups_of (cn_addr n)) = Some (cn_addr n)"
    using put_groups_groups_of [of "cn_addr n" 0 "replicate 16 0"] len by simp
  have q: "(of_nat (unat (cn_prefix n)) :: u32) \<noteq> 0xFFFFFFFF" "\<not> (of_nat (unat (cn_prefix n)) :: u32) > 128"
    using p by (auto simp: word_less_nat_alt word_unat_eq_iff unat_ucast_8_32)
  have u: "(ucast (ucast x :: u64) :: u32) = ucast x" for x :: u8
    by (rule bit_word_eqI) (auto simp: bit_simps)
  have n: "\<lparr>cn_addr = cn_addr n, cn_prefix = cn_prefix n, cn_v6 = True\<rparr> = n" using True by (cases n) simp
  show ?thesis
    unfolding parse_addr_cidr_def cut option.case prod.case Let_def
    using True q len cut_colons_join [OF pieces] colon
    by (simp add: strtoul_plain unat_u8_bound [THEN order_less_trans] part put size_sub_def ucast_8_32_8 u n)
qed

subsection \<open>The tries answer as the list of prefixes does\<close>

lemma find_new [simp]: "\<not> find_bits q new_node"
  by (cases q) (simp_all add: new_node_def)

lemma find_insert: "find_bits q (insert_bits p t) \<longleftrightarrow> find_bits q t \<or> prefix p q"
proof (induction p t arbitrary: q rule: insert_bits.induct)
  case (1 c0 c1 t)
  then show ?case by (cases q) auto
next
  case (2 b bs c0 c1 t)
  show ?case
  proof (cases q)
    case (Cons a q')
    then show ?thesis
      using 2 by (auto simp: node_or_new_def split: option.splits)
  qed simp
qed

lemma prefix_addr_bits:
  "m \<le> n \<Longrightarrow> prefix (addr_bits m a) (addr_bits n b) \<longleftrightarrow> list_all (\<lambda>i. addr_bit a i = addr_bit b i) [0..<m]"
proof -
  assume "m \<le> n"
  then have "prefix (addr_bits m a) (addr_bits n b) \<longleftrightarrow> addr_bits m a = take m (addr_bits n b)"
    by (metis append_eq_conv_conj append_take_drop_id length_map length_upt minus_nat.diff_0 addr_bits_def prefix_def)
  also have "take m (addr_bits n b) = addr_bits m b" using \<open>m \<le> n\<close> by (simp add: addr_bits_def take_map)
  finally show ?thesis by (simp add: addr_bits_def list_all_iff)
qed

text \<open>An address has the family of a prefix and starts with its bits.\<close>

definition net_matches :: "bytes \<Rightarrow> bool \<Rightarrow> cidr_net \<Rightarrow> bool" where
  "net_matches ip is_v6 n \<longleftrightarrow> cn_v6 n = is_v6 \<and>
     list_all (\<lambda>i. addr_bit (cn_addr n) i = addr_bit ip i) [0..<min (unat (cn_prefix n)) (family_bits is_v6)]"

lemma net_contains_add:
  "net_contains ip is_v6 (add_net n t) \<longleftrightarrow> net_contains ip is_v6 t \<or> net_matches ip is_v6 n"
  by (cases t; cases "cn_v6 n"; cases is_v6)
    (simp_all add: add_net_def net_contains_def net_matches_def trie_contains_def trie_insert_def find_insert
      prefix_addr_bits)

lemma net_contains_empty [simp]: "\<not> net_contains ip is_v6 (trie_empty, trie_empty)"
  by (simp add: net_contains_def trie_contains_def trie_empty_def)

text \<open>The prefixes that a list of texts denotes.\<close>

definition read_net :: "string \<Rightarrow> cidr_net option" where
  "read_net c = (case parse_addr_cidr c of Some (Some n) \<Rightarrow> Some n | _ \<Rightarrow> None)"

definition nets_of :: "string list \<Rightarrow> cidr_net list" where
  "nets_of cs = List.map_filter read_net cs"

lemma nets_of_simps [simp]:
  "nets_of [] = []" "nets_of (c # cs) = (case read_net c of None \<Rightarrow> nets_of cs | Some n \<Rightarrow> n # nets_of cs)"
  by (simp_all add: nets_of_def map_filter_simps split: option.split)

lemma add_readable_nets:
  "add_readable cs t = Some (bad, t') \<Longrightarrow>
     bad = length (filter (\<lambda>c. read_net c = None) cs) \<and>
     (net_contains ip v6 t' \<longleftrightarrow> net_contains ip v6 t \<or> list_ex (net_matches ip v6) (nets_of cs))"
proof (induction cs arbitrary: t bad)
  case (Cons c cs)
  then obtain r where r: "parse_addr_cidr c = Some r" by (auto simp: bind_eq_Some_conv)
  show ?case
  proof (cases r)
    case None
    then obtain bad' where "add_readable cs t = Some (bad', t')" "bad = bad' + 1"
      using Cons.prems r by (auto simp: bind_eq_Some_conv)
    then show ?thesis using Cons.IH [of t bad'] None r by (simp add: read_net_def)
  next
    case (Some n)
    then have "add_readable cs (add_net n t) = Some (bad, t')" using Cons.prems r by simp
    then show ?thesis using Cons.IH [of "add_net n t" bad] Some r by (auto simp: read_net_def net_contains_add)
  qed
qed simp

lemma add_all_nets_nets:
  "add_all_nets cs t = Some (Some t') \<Longrightarrow>
     net_contains ip v6 t' \<longleftrightarrow> net_contains ip v6 t \<or> list_ex (net_matches ip v6) (nets_of cs)"
proof (induction cs arbitrary: t)
  case (Cons c cs)
  then obtain n where n: "parse_addr_cidr c = Some (Some n)" "add_all_nets cs (add_net n t) = Some (Some t')"
    by (auto simp: bind_eq_Some_conv split: option.splits)
  then show ?case using Cons.IH [of "add_net n t"] by (auto simp: read_net_def net_contains_add)
qed simp

text \<open>
  C35: after the home networks have been set and the domestic list has been loaded, an address is HOME
  exactly when it starts with the bits of one of the home prefixes, otherwise DOMESTIC exactly when it
  starts with the bits of a readable prefix of the file, and otherwise FOREIGN; without the list nothing
  is called foreign. The lines that cannot be read are counted, and do not change the rest.
\<close>

theorem geo_classify_exact:
  assumes "set_home_nets hs g0 = Some (True, g1)" "load_cidrs (Some file) g1 = Some (Some bad, g2)"
    "gi_domestic_v4 g0 = trie_empty" "gi_domestic_v6 g0 = trie_empty" "\<not> gi_domestic_loaded g0"
  shows "classify ip is_v6 g2 =
      (if list_ex (net_matches ip is_v6) (nets_of hs) then HOME
       else if list_ex (net_matches ip is_v6) (nets_of (cidr_lines file)) then DOMESTIC else FOREIGN) \<and>
    classify ip is_v6 g1 = (if list_ex (net_matches ip is_v6) (nets_of hs) then HOME else UNKNOWN) \<and>
    bad = length (filter (\<lambda>c. read_net c = None) (cidr_lines file))"
proof -
  obtain v4 v6 where home: "add_all_nets hs (trie_empty, trie_empty) = Some (Some (v4, v6))"
    and g1: "g1 = g0\<lparr>gi_home_v4 := v4, gi_home_v6 := v6\<rparr>"
    using assms(1) by (auto simp: set_home_nets_def bind_eq_Some_conv split: option.splits)
  obtain d4 d6 where dom: "add_readable (cidr_lines file) (trie_empty, trie_empty) = Some (bad, d4, d6)"
    and g2: "g2 = g1\<lparr>gi_domestic_v4 := d4, gi_domestic_v6 := d6, gi_domestic_loaded := True\<rparr>"
    using assms(2,3,4) by (auto simp: load_cidrs_def bind_eq_Some_conv g1)
  show ?thesis
    using add_all_nets_nets [OF home, of ip is_v6] add_readable_nets [OF dom, of ip is_v6] assms(5)
    by (simp add: classify_def g1 g2)
qed

definition demo_geoip :: geoip where
  "demo_geoip = \<lparr> gi_domestic_v4 = trie_empty, gi_domestic_v6 = trie_empty, gi_home_v4 = trie_empty,
     gi_home_v6 = trie_empty, gi_domestic_loaded = False \<rparr>"

lemma geo_classify_exact_witness:
  "\<exists>g2. classify [36, 9, 9, 9] False g2 = DOMESTIC"
proof -
  let ?h = "\<lparr> cn_addr = [10, 0, 0, 0], cn_prefix = 8, cn_v6 = False \<rparr>"
  let ?d = "\<lparr> cn_addr = [36, 0, 0, 0], cn_prefix = 8, cn_v6 = False \<rparr>"
  have h: "parse_addr_cidr (net_text ?h) = Some (Some ?h)" and d: "parse_addr_cidr (net_text ?d) = Some (Some ?d)"
    by (rule net_text_read, simp add: net_ok_def word_le_nat_alt)+
  obtain a4 a6 where a: "add_net ?h (trie_empty, trie_empty) = (a4, a6)" by fastforce
  obtain b4 b6 where b: "add_net ?d (trie_empty, trie_empty) = (b4, b6)" by fastforce
  define g1 where "g1 = demo_geoip\<lparr>gi_home_v4 := a4, gi_home_v6 := a6\<rparr>"
  have g1: "set_home_nets [net_text ?h] demo_geoip = Some (True, g1)"
    by (simp add: set_home_nets_def h a g1_def)
  have l: "cidr_lines (net_text ?d) = [net_text ?d]" by code_simp
  obtain g2 where g2: "load_cidrs (Some (net_text ?d)) g1 = Some (Some 0, g2)"
    using b by (simp add: load_cidrs_def l d g1_def demo_geoip_def)
  have "addr_bit [36, 9, 9, 9] i = addr_bit [36, 0, 0, 0] i" if "i < 8" for i
    using that by (simp add: addr_bit_def)
  then have m: "net_matches [36, 9, 9, 9] False ?d" by (simp add: net_matches_def family_bits_def list_all_iff)
  have "addr_bit [36, 9, 9, 9] 2 \<noteq> addr_bit [10, 0, 0, 0] 2" by (simp add: addr_bit_def)
  then have n: "\<not> net_matches [36, 9, 9, 9] False ?h"
    by (auto simp: net_matches_def family_bits_def list_all_iff)
  have "classify [36, 9, 9, 9] False g2 = DOMESTIC"
    using geo_classify_exact [OF g1 g2, of "[36, 9, 9, 9]" False] m n
    by (simp add: demo_geoip_def l read_net_def h d)
  then show ?thesis ..
qed

text \<open>
  The reader has no limit on the number of groups on either side of \<open>::\<close>, so that a text with more than
  eight of them writes behind the sixteen bytes.
\<close>

lemma cidr_text_overflow: "parse_addr_cidr ''1:2:3:4:5:6:7:8:9::'' = None"
  by code_simp

lemma cidr_length_truncated:
  "parse_addr_cidr (quad_text 10 0 0 0 @ ''/'' @ dec 4294967304) =
     Some (Some \<lparr> cn_addr = [10, 0, 0, 0], cn_prefix = 8, cn_v6 = False \<rparr>)"
proof -
  have "(of_nat 4294967304 :: u32) = 8" by simp
  then show ?thesis by (subst parse_v4_text) (simp_all add: word_less_nat_alt)
qed

end
