(* ===== verification/Eth_Rules.thy ===== *)
theory Eth_Rules
  imports Eth_Packet Eth_Geoip
begin

text \<open>
  \<open>apps/eth_probe/rules\<close>: the rule language, its loader, and the matching engine. A parsing function that
  fails with a message is a sum, \<open>Inl\<close> the message. The result of a function that writes or reads buffers
  is an option on top, \<open>None\<close> when it leaves them. The PCRE2 library is a parameter: \<open>None\<close> for a build
  without it, otherwise the function that compiles a pattern to a matcher of byte strings.
\<close>

subsection \<open>Rules\<close>

datatype rule_proto = PROTO_ANY | PROTO_TCP | PROTO_UDP | PROTO_ICMP

record ip_cidr =
  ic_addr :: bytes
  ic_prefix :: u8
  ic_v6 :: bool

record ip_matcher =
  im_cidrs :: "ip_cidr list"
  im_any :: bool
  im_negated :: bool

record port_matcher =
  pm_ranges :: "(u16 \<times> u16) list"
  pm_any :: bool
  pm_negated :: bool

datatype match_buffer = RAW | HTTP_METHOD | HTTP_URI | HTTP_HEADER | DNS_QUERY

text \<open>A \<open>has_x\<close> flag and its value are one option.\<close>

record content_match =
  cm_pattern :: bytes
  cm_buffer :: match_buffer
  cm_nocase :: bool
  cm_offset :: "u32 option"
  cm_depth :: "u32 option"
  cm_distance :: "u32 option"
  cm_within :: "u32 option"

record rule =
  ru_sid :: u32
  ru_rev :: u32
  ru_msg :: string
  ru_proto :: rule_proto
  ru_src_ip :: ip_matcher
  ru_dst_ip :: ip_matcher
  ru_src_port :: port_matcher
  ru_dst_port :: port_matcher
  ru_contents :: "content_match list"
  ru_pcre_patterns :: "string list"

definition ip_matcher_new :: ip_matcher where
  "ip_matcher_new = \<lparr> im_cidrs = [], im_any = False, im_negated = False \<rparr>"

definition port_matcher_new :: port_matcher where
  "port_matcher_new = \<lparr> pm_ranges = [], pm_any = False, pm_negated = False \<rparr>"

definition rule_new :: rule where
  "rule_new = \<lparr> ru_sid = 0, ru_rev = 0, ru_msg = [], ru_proto = PROTO_ANY, ru_src_ip = ip_matcher_new,
     ru_dst_ip = ip_matcher_new, ru_src_port = port_matcher_new, ru_dst_port = port_matcher_new,
     ru_contents = [], ru_pcre_patterns = [] \<rparr>"

text \<open>The application buffers; a null pointer is \<open>None\<close>.\<close>

record match_buffers =
  mb_raw :: "bytes option"
  mb_http_method :: "bytes option"
  mb_http_uri :: "bytes option"
  mb_http_header :: "bytes option"
  mb_dns_query :: "bytes option"

definition match_buffers_new :: match_buffers where
  "match_buffers_new = \<lparr> mb_raw = None, mb_http_method = None, mb_http_uri = None, mb_http_header = None,
     mb_dns_query = None \<rparr>"

subsection \<open>Searching bytes\<close>

definition tolower8 :: "u8 \<Rightarrow> u8" where
  "tolower8 b = (if 65 \<le> b \<and> b \<le> 90 then b + 32 else b)"

definition byte_eq :: "bool \<Rightarrow> u8 \<Rightarrow> u8 \<Rightarrow> bool" where
  "byte_eq nocase a b = (if nocase then tolower8 a = tolower8 b else a = b)"

fun needle_at :: "bytes \<Rightarrow> nat \<Rightarrow> bytes \<Rightarrow> bool \<Rightarrow> bool option" where
  "needle_at buf k [] nocase = Some True"
| "needle_at buf k (b # bs) nocase = do {
     a \<leftarrow> rd8 buf k;
     if \<not> byte_eq nocase a b then Some False else needle_at buf (k + 1) bs nocase }"

text \<open>The loop of \<open>memfind\<close> from index \<open>i\<close> on, in the \<open>hay_len\<close> bytes at \<open>buf + start\<close>.\<close>

function memfind_loop :: "bytes \<Rightarrow> nat \<Rightarrow> nat \<Rightarrow> bytes \<Rightarrow> bool \<Rightarrow> nat \<Rightarrow> nat option option" where
  "memfind_loop buf start hay_len needle nocase i =
     (if i + length needle \<le> hay_len
      then do {
        m \<leftarrow> needle_at buf (start + i) needle nocase;
        if m then Some (Some (start + i)) else memfind_loop buf start hay_len needle nocase (i + 1) }
      else Some None)"
  by pat_completeness auto
termination
  by (relation "measure (\<lambda>(_, _, hay_len, _, _, i). hay_len + 1 - i)") auto

declare memfind_loop.simps [simp del]

definition memfind :: "bytes \<Rightarrow> nat \<Rightarrow> nat \<Rightarrow> bytes \<Rightarrow> bool \<Rightarrow> nat option option" where
  "memfind buf start hay_len needle nocase =
     (if needle = [] \<or> hay_len < length needle then Some None
      else memfind_loop buf start hay_len needle nocase 0)"

subsection \<open>Reading numbers and addresses\<close>

definition trim :: "string \<Rightarrow> string" where
  "trim s = trim_of is_space s"

definition parse_ulong :: "string \<Rightarrow> u64 option" where
  "parse_ulong s = (if s = [] then None
     else (case c_strtoul 10 s of None \<Rightarrow> None | Some (v, e) \<Rightarrow> if e \<noteq> [] then None else Some v))"

definition parse_u16 :: "string \<Rightarrow> u16 option" where
  "parse_u16 s = (case parse_ulong s of None \<Rightarrow> None | Some v \<Rightarrow> if v > 65535 then None else Some (ucast v))"

definition parse_u32 :: "string \<Rightarrow> u32 option" where
  "parse_u32 s = map_option ucast (parse_ulong s)"

definition rule_ipv4 :: "string \<Rightarrow> bytes option" where
  "rule_ipv4 s = (case scan_quad s of None \<Rightarrow> None
     | Some (a, b, c, d) \<Rightarrow> if a > 255 \<or> b > 255 \<or> c > 255 \<or> d > 255 then None
         else Some [ucast a, ucast b, ucast c, ucast d])"

definition rule_group :: "string \<Rightarrow> u16 option" where
  "rule_group g = (if g = [] \<or> length g > 4 then None
     else (case c_strtol 16 g of None \<Rightarrow> None
       | Some (v, e) \<Rightarrow> if e \<noteq> [] \<or> v < 0 \<or> v > 0xFFFF then None else Some (of_int v)))"

definition rule_groups :: "string \<Rightarrow> u16 list option" where
  "rule_groups part = those (map rule_group (getlines CHR '':'' part))"

definition rule_ipv6 :: "string \<Rightarrow> bytes option option" where
  "rule_ipv6 s = (if CHR '':'' \<notin> set s then Some None
     else (case (case cut_at_sub ''::'' s of
           Some (h, t) \<Rightarrow> if cut_at_sub ''::'' t \<noteq> None then None
             else (case rule_groups h of None \<Rightarrow> None | Some head \<Rightarrow>
               (case rule_groups t of None \<Rightarrow> None | Some tail \<Rightarrow>
                 if length head + length tail > 14 then None else Some (head, tail)))
         | None \<Rightarrow> (case rule_groups s of None \<Rightarrow> None
             | Some head \<Rightarrow> if length head \<noteq> 8 then None else Some (head, []))) of
         None \<Rightarrow> Some None
       | Some (head, tail) \<Rightarrow> do {
           addr \<leftarrow> put_groups (replicate 16 0) 0 head;
           idx \<leftarrow> size_sub 16 (2 * length tail);
           addr \<leftarrow> put_groups addr idx tail;
           Some (Some addr) }))"

definition parse_cidr :: "string \<Rightarrow> ip_cidr option option" where
  "parse_cidr tok = (let
     (addr, given) = (case cut_at CHR ''/'' tok of None \<Rightarrow> (tok, Some None)
        | Some (a, p) \<Rightarrow> (a, map_option Some (parse_u32 p))) in
     case given of None \<Rightarrow> Some None
     | Some p \<Rightarrow> (let plen = (case p of None \<Rightarrow> 0xFFFFFFFF | Some v \<Rightarrow> v) in
         if CHR '':'' \<in> set addr
         then do {
           r \<leftarrow> rule_ipv6 addr;
           let plen = (if plen = 0xFFFFFFFF then 128 else plen);
           Some (case r of None \<Rightarrow> None | Some a \<Rightarrow> if plen > 128 then None
             else Some \<lparr> ic_addr = a, ic_prefix = ucast plen, ic_v6 = True \<rparr>) }
         else (let plen = (if plen = 0xFFFFFFFF then 32 else plen) in
           Some (case rule_ipv4 addr of None \<Rightarrow> None | Some a \<Rightarrow> if plen > 32 then None
             else Some \<lparr> ic_addr = a @ replicate 12 0, ic_prefix = ucast plen, ic_v6 = False \<rparr>))))"

type_synonym var_map = "(string \<times> string) list"

text \<open>The items of a bracketed list.\<close>

fun cidr_items :: "string list \<Rightarrow> ip_cidr list \<Rightarrow> (string + ip_cidr list) option" where
  "cidr_items [] acc = Some (Inr acc)"
| "cidr_items (item # items) acc = do {
     c \<leftarrow> parse_cidr (trim item);
     (case c of None \<Rightarrow> Some (Inl (''bad CIDR in list: '' @ item))
      | Some c \<Rightarrow> cidr_items items (acc @ [c])) }"

definition bracketed :: "string \<Rightarrow> bool" where
  "bracketed tok \<longleftrightarrow> tok \<noteq> [] \<and> hd tok = CHR ''['' \<and> last tok = CHR '']''"

definition parse_ip_matcher :: "string \<Rightarrow> var_map \<Rightarrow> (string + ip_matcher) option" where
  "parse_ip_matcher tok vars =
     (if tok = ''any'' then Some (Inr (ip_matcher_new\<lparr>im_any := True\<rparr>))
      else let neg = (tok \<noteq> [] \<and> hd tok = CHR ''!'');
               tok = (if neg then tl tok else tok);
               out = ip_matcher_new\<lparr>im_negated := neg\<rparr> in
      case (if tok \<noteq> [] \<and> hd tok = CHR ''$''
            then (case map_of vars (tl tok) of None \<Rightarrow> Inl (''undefined variable '' @ tok) | Some v \<Rightarrow> Inr v)
            else Inr tok) of
        Inl e \<Rightarrow> Some (Inl e)
      | Inr tok \<Rightarrow>
          if bracketed tok
          then do {
            r \<leftarrow> cidr_items (getlines CHR '','' (butlast (tl tok))) [];
            Some (case r of Inl e \<Rightarrow> Inl e
                  | Inr [] \<Rightarrow> Inl [] | Inr cs \<Rightarrow> Inr (out\<lparr>im_cidrs := cs\<rparr>)) }
          else do {
            c \<leftarrow> parse_cidr tok;
            Some (case c of None \<Rightarrow> Inl (''bad address: '' @ tok)
                  | Some c \<Rightarrow> Inr (out\<lparr>im_cidrs := [c]\<rparr>)) })"

definition parse_port_matcher :: "string \<Rightarrow> string + port_matcher" where
  "parse_port_matcher tok =
     (if tok = ''any'' then Inr (port_matcher_new\<lparr>pm_any := True\<rparr>)
      else let neg = (tok \<noteq> [] \<and> hd tok = CHR ''!'');
               tok = (if neg then tl tok else tok);
               out = port_matcher_new\<lparr>pm_negated := neg\<rparr> in
      case cut_at CHR '':'' tok of
        Some (lo, hi) \<Rightarrow>
          (case (if lo = [] then Some 0 else parse_u16 lo) of
             None \<Rightarrow> Inl (''bad port range: '' @ tok)
           | Some l \<Rightarrow> (case (if hi = [] then Some 65535 else parse_u16 hi) of
                None \<Rightarrow> Inl (''bad port range: '' @ tok)
              | Some h \<Rightarrow> if l > h then Inl (''inverted port range: '' @ tok)
                          else Inr (out\<lparr>pm_ranges := [(l, h)]\<rparr>)))
      | None \<Rightarrow> (case parse_u16 tok of None \<Rightarrow> Inl (''bad port: '' @ tok)
           | Some p \<Rightarrow> Inr (out\<lparr>pm_ranges := [(p, p)]\<rparr>)))"

subsection \<open>Options\<close>

text \<open>The option string is cut at semicolons outside quotes; \<open>cur\<close> is the option under construction.\<close>

fun split_options :: "string \<Rightarrow> string \<Rightarrow> bool \<Rightarrow> string list" where
  "split_options [] cur in_quotes = (if trim cur = [] then [] else [trim cur])"
| "split_options (c # s) cur in_quotes =
     (let q = (if c = CHR 0x22 then \<not> in_quotes else in_quotes) in
      if c = CHR '';'' \<and> \<not> q then trim cur # split_options s [] q
      else split_options s (cur @ [c]) q)"

text \<open>
  The value of a content option: escapes, and hexadecimal blocks between bars; \<open>hi\<close> is a pending
  nibble.
\<close>

fun content_loop :: "string \<Rightarrow> bool \<Rightarrow> nat option \<Rightarrow> bytes \<Rightarrow> string + bytes" where
  "content_loop [] hex hi out =
     (if hex \<or> hi \<noteq> None then Inl ''unterminated hex block in content''
      else if out = [] then Inl ''empty content'' else Inr out)"
| "content_loop (c # s) hex hi out =
     (if c = CHR 0x5C \<and> \<not> hex \<and> s \<noteq> []
      then (case s of [] \<Rightarrow> Inr out | d # r \<Rightarrow> content_loop r hex hi (out @ [of_char d]))
      else if c = CHR ''|'' then content_loop s (\<not> hex) None out
      else if hex
      then (if is_space c then content_loop s hex hi out
            else if \<not> digit_val c < 16 then Inl ''bad hex in content''
            else (case hi of None \<Rightarrow> content_loop s hex (Some (digit_val c)) out
                  | Some h \<Rightarrow> content_loop s hex None (out @ [of_nat (16 * h + digit_val c)])))
      else content_loop s hex hi (out @ [of_char c]))"

definition quoted :: "string \<Rightarrow> bool" where
  "quoted raw \<longleftrightarrow> length raw \<ge> 2 \<and> hd raw = CHR 0x22 \<and> last raw = CHR 0x22"

definition parse_content_value :: "string \<Rightarrow> string + bytes" where
  "parse_content_value raw = (if \<not> quoted raw then Inl ''content value must be quoted''
     else content_loop (butlast (tl raw)) False None [])"

definition unquote :: "string \<Rightarrow> string" where
  "unquote raw = (if quoted raw then butlast (tl raw) else raw)"

definition content_of :: "match_buffer \<Rightarrow> bytes \<Rightarrow> content_match" where
  "content_of b p = \<lparr> cm_pattern = p, cm_buffer = b, cm_nocase = False, cm_offset = None, cm_depth = None,
     cm_distance = None, cm_within = None \<rparr>"

definition ignored_options :: "string list" where
  "ignored_options = [''classtype'', ''metadata'', ''reference'', ''gid'', ''priority'', ''flow'']"

definition set_position :: "string \<Rightarrow> u32 \<Rightarrow> content_match \<Rightarrow> content_match" where
  "set_position key v c =
     (if key = ''offset'' then c\<lparr>cm_offset := Some v\<rparr>
      else if key = ''depth'' then c\<lparr>cm_depth := Some v\<rparr>
      else if key = ''distance'' then c\<lparr>cm_distance := Some v\<rparr>
      else c\<lparr>cm_within := Some v\<rparr>)"

definition modify_last :: "(content_match \<Rightarrow> content_match) \<Rightarrow> rule \<Rightarrow> rule" where
  "modify_last g r = r\<lparr>ru_contents := butlast (ru_contents r) @ [g (last (ru_contents r))]\<rparr>"

text \<open>One option: the buffer the next contents bind to and the rule, or the message with its warnings.\<close>

definition apply_option :: "string \<Rightarrow> match_buffer \<times> rule \<Rightarrow> (string \<times> string list) + (match_buffer \<times> rule)" where
  "apply_option opt st = (case st of (cur, r) \<Rightarrow> let
     (key, val) = (case cut_at CHR '':'' opt of None \<Rightarrow> (trim opt, []) | Some (k, v) \<Rightarrow> (trim k, trim v)) in
     if key = ''msg'' then Inr (cur, r\<lparr>ru_msg := unquote val\<rparr>)
     else if key = ''sid'' then (case parse_u32 val of None \<Rightarrow> Inl (''bad sid'', []) | Some v \<Rightarrow> Inr (cur, r\<lparr>ru_sid := v\<rparr>))
     else if key = ''rev'' then (case parse_u32 val of None \<Rightarrow> Inl (''bad rev'', []) | Some v \<Rightarrow> Inr (cur, r\<lparr>ru_rev := v\<rparr>))
     else if key = ''content''
     then (case parse_content_value val of Inl e \<Rightarrow> Inl (e, [])
           | Inr p \<Rightarrow> Inr (cur, r\<lparr>ru_contents := ru_contents r @ [content_of cur p]\<rparr>))
     else if key = ''nocase''
     then (if ru_contents r = [] then Inl (''nocase without content'', [])
           else Inr (cur, modify_last (\<lambda>c. c\<lparr>cm_nocase := True\<rparr>) r))
     else if key = ''offset'' \<or> key = ''depth'' \<or> key = ''distance'' \<or> key = ''within''
     then (if ru_contents r = [] then Inl (key @ '' without content'', [])
           else (case parse_u32 val of None \<Rightarrow> Inl (''bad '' @ key, [])
                 | Some v \<Rightarrow> Inr (cur, modify_last (set_position key v) r)))
     else if key = ''http_method'' then Inr (HTTP_METHOD, r)
     else if key = ''http_uri'' then Inr (HTTP_URI, r)
     else if key = ''http_header'' then Inr (HTTP_HEADER, r)
     else if key = ''dns_query'' then Inr (DNS_QUERY, r)
     else if key = ''pcre'' then Inr (cur, r\<lparr>ru_pcre_patterns := ru_pcre_patterns r @ [unquote val]\<rparr>)
     else if List.member ignored_options key then Inr (cur, r)
     else Inl (''unknown option: '' @ key,
        [''unknown option '' @ [CHR 0x27] @ key @ [CHR 0x27, CHR '' '', CHR 0xE2, CHR 0x80, CHR 0x94] @ '' rule skipped'']))"

fun apply_options :: "string list \<Rightarrow> match_buffer \<times> rule \<Rightarrow> (string \<times> string list) + (match_buffer \<times> rule)" where
  "apply_options [] st = Inr st"
| "apply_options (opt # opts) st =
     (if opt = [] then apply_options opts st
      else (case apply_option opt st of Inl e \<Rightarrow> Inl e | Inr st \<Rightarrow> apply_options opts st))"

subsection \<open>Rules and files\<close>

definition parse_proto :: "string \<Rightarrow> rule_proto option" where
  "parse_proto p = (if p = ''tcp'' then Some PROTO_TCP else if p = ''udp'' then Some PROTO_UDP
     else if p = ''icmp'' then Some PROTO_ICMP else if p = ''ip'' then Some PROTO_ANY else None)"

text \<open>The text before the first parenthesis and the options up to the last one.\<close>

definition cut_rule :: "string \<Rightarrow> (string \<times> string) option" where
  "cut_rule line = (case cut_at CHR ''('' line of None \<Rightarrow> None
     | Some (header, r) \<Rightarrow> (case cut_at CHR '')'' (rev r) of None \<Rightarrow> None
         | Some (_, b) \<Rightarrow> Some (header, rev b)))"

text \<open>The header of a rule.\<close>

definition rule_header :: "string \<Rightarrow> var_map \<Rightarrow> (string + rule) option" where
  "rule_header header vars = (case tokens header of
     action # proto # sip # sport # dir # dip # dport # _ \<Rightarrow>
       if action \<noteq> ''alert'' then Some (Inl (''unsupported action: '' @ action))
       else if dir \<noteq> ''->'' then Some (Inl (''unsupported direction: '' @ dir))
       else (case parse_proto proto of
           None \<Rightarrow> Some (Inl (''unsupported protocol: '' @ proto))
         | Some p \<Rightarrow> do {
             src \<leftarrow> parse_ip_matcher sip vars;
             (case src of Inl e \<Rightarrow> Some (Inl e) | Inr src \<Rightarrow> do {
               dst \<leftarrow> parse_ip_matcher dip vars;
               (case dst of Inl e \<Rightarrow> Some (Inl e) | Inr dst \<Rightarrow>
                 Some (case parse_port_matcher sport of Inl e \<Rightarrow> Inl e | Inr sp \<Rightarrow>
                   (case parse_port_matcher dport of Inl e \<Rightarrow> Inl e | Inr dp \<Rightarrow>
                     Inr (rule_new\<lparr>ru_proto := p, ru_src_ip := src, ru_dst_ip := dst,
                                   ru_src_port := sp, ru_dst_port := dp\<rparr>)))) }) })
   | _ \<Rightarrow> Some (Inl ''malformed rule header''))"

definition rule_body :: "string \<Rightarrow> rule \<Rightarrow> (string \<times> string list) + rule" where
  "rule_body body r = (case apply_options (split_options body [] False) (RAW, r) of
     Inl e \<Rightarrow> Inl e
   | Inr (_, r) \<Rightarrow> if ru_sid r = 0 then Inl (''missing sid'', []) else Inr r)"

definition parse_rule :: "string \<Rightarrow> var_map \<Rightarrow> ((string \<times> string list) + rule) option" where
  "parse_rule line_in vars = (case cut_rule (trim line_in) of
     None \<Rightarrow> Some (Inl (''missing option parens'', []))
   | Some (header, body) \<Rightarrow> do {
       h \<leftarrow> rule_header header vars;
       Some (case h of Inl e \<Rightarrow> Inl (e, []) | Inr r \<Rightarrow> rule_body body r) })"

fun strip_comment :: "string \<Rightarrow> bool \<Rightarrow> string" where
  "strip_comment [] in_q = []"
| "strip_comment (c # s) in_q = (let q = (if c = CHR 0x22 then \<not> in_q else in_q) in
     if c = CHR ''#'' \<and> \<not> q then [] else c # strip_comment s q)"

text \<open>A compiled rule: the rule with the matchers of its patterns.\<close>

type_synonym pcre_code = "bytes \<Rightarrow> bool"

record compiled_rule =
  cr_rule :: rule
  cr_codes :: "pcre_code list"

record rule_engine =
  re_rules :: "compiled_rule list"
  re_skipped :: nat

definition rule_engine_new :: rule_engine where
  "rule_engine_new = \<lparr> re_rules = [], re_skipped = 0 \<rparr>"

text \<open>The pattern between its slashes.\<close>

definition pcre_body :: "string \<Rightarrow> string" where
  "pcre_body pat = (if length pat \<ge> 2 \<and> hd pat = CHR ''/'' \<and> CHR ''/'' \<in> set (tl pat)
     then rev (tl (dropWhile (\<lambda>c. c \<noteq> CHR ''/'') (rev (tl pat)))) else pat)"

definition compile_rule :: "(string \<Rightarrow> pcre_code option) option \<Rightarrow> rule \<Rightarrow> string + compiled_rule" where
  "compile_rule pcre r = (case pcre of
     Some compile \<Rightarrow> (case those (map (\<lambda>p. compile (pcre_body p)) (ru_pcre_patterns r)) of
        None \<Rightarrow> Inl (''pcre compile failed '' @ [CHR 0xE2, CHR 0x80, CHR 0x94] @ '' rule skipped'')
      | Some codes \<Rightarrow> Inr \<lparr> cr_rule = r, cr_codes = codes \<rparr>)
   | None \<Rightarrow> if ru_pcre_patterns r \<noteq> []
       then Inl (''pcre not supported in this build '' @ [CHR 0xE2, CHR 0x80, CHR 0x94] @ '' rule skipped'')
       else Inr \<lparr> cr_rule = r, cr_codes = [] \<rparr>)"

text \<open>One line of a file, with its number: the warnings and the engine.\<close>

definition load_rule_line :: "(string \<Rightarrow> pcre_code option) option \<Rightarrow> string \<Rightarrow> var_map \<Rightarrow> nat \<Rightarrow> string \<Rightarrow> rule_engine \<Rightarrow>
    (string list \<times> rule_engine) option" where
  "load_rule_line pcre path vars lineno line e = (let
     stripped = trim (strip_comment line False);
     place = path @ '':'' @ dec lineno @ '': '';
     skipped = e\<lparr>re_skipped := re_skipped e + 1\<rparr> in
     if stripped = [] then Some ([], e)
     else do {
       r \<leftarrow> parse_rule stripped vars;
       Some (case r of Inl (err, ws) \<Rightarrow> (ws @ [place @ err], skipped)
         | Inr r \<Rightarrow> (case compile_rule pcre r of Inl w \<Rightarrow> ([place @ w], skipped)
             | Inr c \<Rightarrow> ([], e\<lparr>re_rules := re_rules e @ [c]\<rparr>))) })"

fun load_rule_lines :: "(string \<Rightarrow> pcre_code option) option \<Rightarrow> string \<Rightarrow> var_map \<Rightarrow> nat \<Rightarrow> string list \<Rightarrow> rule_engine \<Rightarrow>
    (string list \<times> rule_engine) option" where
  "load_rule_lines pcre path vars lineno [] e = Some ([], e)"
| "load_rule_lines pcre path vars lineno (line # lines) e = do {
     (ws1, e) \<leftarrow> load_rule_line pcre path vars (lineno + 1) line e;
     (ws2, e) \<leftarrow> load_rule_lines pcre path vars (lineno + 1) lines e;
     Some (ws1 @ ws2, e) }"

definition load_file :: "(string \<Rightarrow> pcre_code option) option \<Rightarrow> string \<Rightarrow> string option \<Rightarrow> var_map \<Rightarrow> rule_engine \<Rightarrow>
    (nat \<times> string list \<times> rule_engine) option" where
  "load_file pcre path file vars e = (case file of
     None \<Rightarrow> Some (0, [''cannot open rules file: '' @ path], e)
   | Some text \<Rightarrow> do {
       (ws, e2) \<leftarrow> load_rule_lines pcre path vars 0 (getlines CHR 0x0A text) e;
       Some (length (re_rules e2) - length (re_rules e), ws, e2) })"

definition rule_count :: "rule_engine \<Rightarrow> nat" where
  "rule_count e = length (re_rules e)"

definition max_pattern_len :: "rule_engine \<Rightarrow> nat" where
  "max_pattern_len e = fold (\<lambda>cr n. fold (\<lambda>c n. max n (length (cm_pattern c))) (ru_contents (cr_rule cr)) n) (re_rules e) 0"

subsection \<open>Matching\<close>

definition cidr_hits :: "ip_cidr \<Rightarrow> bytes \<Rightarrow> bool" where
  "cidr_hits c ip = (let full = unat (ic_prefix c) div 8; rem = unat (ic_prefix c) mod 8;
       mask = push_bit (8 - rem) 0xFF :: u8 in
     take full (ic_addr c) = take full ip \<and>
     (rem \<noteq> 0 \<longrightarrow> (ic_addr c ! full) AND mask = (ip ! full) AND mask))"

definition ip_matches :: "ip_matcher \<Rightarrow> bytes \<Rightarrow> bool \<Rightarrow> bool" where
  "ip_matches m ip ip_is_v6 =
     (if im_any m then True
      else if list_ex (\<lambda>c. ic_v6 c = ip_is_v6 \<and> cidr_hits c ip) (im_cidrs m) then \<not> im_negated m
      else im_negated m)"

definition port_matches :: "port_matcher \<Rightarrow> u16 \<Rightarrow> bool" where
  "port_matches m port =
     (if pm_any m then True
      else if list_ex (\<lambda>(lo, hi). port \<ge> lo \<and> port \<le> hi) (pm_ranges m) then \<not> pm_negated m
      else pm_negated m)"

definition select_buffer :: "match_buffers \<Rightarrow> match_buffer \<Rightarrow> bytes option" where
  "select_buffer b which = (case which of HTTP_METHOD \<Rightarrow> mb_http_method b | HTTP_URI \<Rightarrow> mb_http_uri b
     | HTTP_HEADER \<Rightarrow> mb_http_header b | DNS_QUERY \<Rightarrow> mb_dns_query b | RAW \<Rightarrow> mb_raw b)"

text \<open>A subtraction of \<open>size_t\<close> values.\<close>

definition size_diff :: "nat \<Rightarrow> nat \<Rightarrow> nat" where
  "size_diff a b = (if b \<le> a then a - b else 2 ^ 64 + a - b)"

definition match_start :: "content_match \<Rightarrow> nat \<Rightarrow> nat" where
  "match_start c prev_end = (case cm_distance c of Some d \<Rightarrow> prev_end + unat d
     | None \<Rightarrow> (case cm_offset c of Some off \<Rightarrow> unat off | None \<Rightarrow> prev_end))"

definition match_limit :: "content_match \<Rightarrow> nat \<Rightarrow> nat \<Rightarrow> nat" where
  "match_limit c prev_end len = (let
     l1 = (case cm_within c of None \<Rightarrow> len | Some w \<Rightarrow> min len (prev_end + unat w)) in
     case cm_depth c of None \<Rightarrow> l1
     | Some d \<Rightarrow> min l1 ((case cm_offset c of None \<Rightarrow> 0 | Some off \<Rightarrow> unat off) + unat d))"

text \<open>The end of the match; \<open>Some None\<close> is no match.\<close>

definition content_matches :: "bytes \<Rightarrow> content_match \<Rightarrow> nat \<Rightarrow> nat option option" where
  "content_matches buf c prev_end = (let
     n = length (cm_pattern c);
     start = match_start c prev_end;
     limit = match_limit c prev_end (length buf) in
     if start > length buf \<or> n > limit \<or> size_diff limit start < n then Some None
     else do {
       found \<leftarrow> memfind buf start (size_diff limit start) (cm_pattern c) (cm_nocase c);
       Some (map_option (\<lambda>i. i + n) found) })"

text \<open>The contents of a rule in order, with the end of the last match per buffer.\<close>

fun contents_match :: "match_buffers \<Rightarrow> (match_buffer \<Rightarrow> nat) \<Rightarrow> content_match list \<Rightarrow> bool option" where
  "contents_match bufs prev_end [] = Some True"
| "contents_match bufs prev_end (c # cs) = (case select_buffer bufs (cm_buffer c) of
     None \<Rightarrow> Some False
   | Some buf \<Rightarrow> do {
       r \<leftarrow> content_matches buf c (prev_end (cm_buffer c));
       (case r of None \<Rightarrow> Some False
        | Some e \<Rightarrow> contents_match bufs (prev_end(cm_buffer c := e)) cs) })"

definition proto_ok :: "rule_proto \<Rightarrow> packet \<Rightarrow> bool" where
  "proto_ok p pp = (case p of PROTO_TCP \<Rightarrow> is_tcp pp | PROTO_UDP \<Rightarrow> is_udp pp
     | PROTO_ICMP \<Rightarrow> l4_proto pp = IP_PROTO_ICMP \<or> l4_proto pp = IP_PROTO_ICMPV6 | PROTO_ANY \<Rightarrow> True)"

definition header_ok :: "rule \<Rightarrow> packet \<Rightarrow> bool" where
  "header_ok r pp \<longleftrightarrow> proto_ok (ru_proto r) pp \<and>
     ip_matches (ru_src_ip r) (src_ip pp) (is_ipv6 pp) \<and> ip_matches (ru_dst_ip r) (dst_ip pp) (is_ipv6 pp) \<and>
     port_matches (ru_src_port r) (src_port pp) \<and> port_matches (ru_dst_port r) (dst_port pp)"

definition rule_hits :: "packet \<Rightarrow> match_buffers \<Rightarrow> compiled_rule \<Rightarrow> bool option" where
  "rule_hits pp bufs cr =
     (if \<not> header_ok (cr_rule cr) pp then Some False
      else do {
        all \<leftarrow> contents_match bufs (\<lambda>_. 0) (ru_contents (cr_rule cr));
        Some (all \<and> list_all (\<lambda>code. code (case mb_raw bufs of None \<Rightarrow> [] | Some b \<Rightarrow> b)) (cr_codes cr)) })"

fun match_rules :: "packet \<Rightarrow> match_buffers \<Rightarrow> compiled_rule list \<Rightarrow> rule list option" where
  "match_rules pp bufs [] = Some []"
| "match_rules pp bufs (cr # crs) = do {
     h \<leftarrow> rule_hits pp bufs cr;
     hits \<leftarrow> match_rules pp bufs crs;
     Some (if h then cr_rule cr # hits else hits) }"

definition engine_match :: "packet \<Rightarrow> match_buffers \<Rightarrow> rule_engine \<Rightarrow> rule list option" where
  "engine_match pp bufs e = match_rules pp bufs (re_rules e)"

end
