(* ===== verification/Eth_Rules_Match.thy ===== *)
theory Eth_Rules_Match
  imports Eth_Rules
begin

text \<open>
  What the rule engine promises: the search finds the first occurrence in its window, the greedy match of
  the contents finds a placement whenever there is one, the address test compares leading bits, and every
  line of a rules file is either loaded or counted as skipped.
\<close>

subsection \<open>Searching\<close>

definition occurs :: "bytes \<Rightarrow> bytes \<Rightarrow> bool \<Rightarrow> nat \<Rightarrow> bool" where
  "occurs buf pat nocase i \<longleftrightarrow> i + length pat \<le> length buf \<and>
     list_all (\<lambda>j. byte_eq nocase (buf ! (i + j)) (pat ! j)) [0..<length pat]"

lemma needle_at_iff:
  "k + length pat \<le> length buf \<Longrightarrow>
     needle_at buf k pat nocase = Some (list_all (\<lambda>j. byte_eq nocase (buf ! (k + j)) (pat ! j)) [0..<length pat])"
proof (induction pat arbitrary: k)
  case (Cons b pat)
  have "list_all (\<lambda>j. byte_eq nocase (buf ! (k + j)) ((b # pat) ! j)) [0..<length (b # pat)] \<longleftrightarrow>
      byte_eq nocase (buf ! k) b \<and> list_all (\<lambda>j. byte_eq nocase (buf ! (k + 1 + j)) (pat ! j)) [0..<length pat]"
    by (simp add: upt_conv_Cons map_Suc_upt [symmetric] list.pred_map comp_def del: upt_Suc)
  then show ?case using Cons by (simp add: rd8_def)
qed simp

lemma memfind_loop_first:
  assumes "start + hay_len \<le> length buf"
  shows "\<exists>r. memfind_loop buf start hay_len pat nocase i = Some r \<and>
    (case r of None \<Rightarrow> \<forall>k. i \<le> k \<and> k + length pat \<le> hay_len \<longrightarrow> \<not> occurs buf pat nocase (start + k)
     | Some p \<Rightarrow> start + i \<le> p \<and> p + length pat \<le> start + hay_len \<and> occurs buf pat nocase p \<and>
         (\<forall>k. i \<le> k \<and> start + k < p \<longrightarrow> \<not> occurs buf pat nocase (start + k)))"
  using assms
proof (induction buf start hay_len pat nocase i rule: memfind_loop.induct)
  case (1 buf start hay_len pat nocase i)
  show ?case
  proof (cases "i + length pat \<le> hay_len")
    case False
    then show ?thesis by (auto simp: memfind_loop.simps [of buf start hay_len pat nocase i])
  next
    case fits: True
    have n: "needle_at buf (start + i) pat nocase = Some (occurs buf pat nocase (start + i))"
      using needle_at_iff [of "start + i" pat buf nocase] fits 1(2) by (simp add: occurs_def)
    show ?thesis
    proof (cases "occurs buf pat nocase (start + i)")
      case True
      then show ?thesis using fits n by (auto simp: memfind_loop.simps [of buf start hay_len pat nocase i])
    next
      case False
      obtain r where r: "memfind_loop buf start hay_len pat nocase (i + 1) = Some r"
        "case r of None \<Rightarrow> \<forall>k. i + 1 \<le> k \<and> k + length pat \<le> hay_len \<longrightarrow> \<not> occurs buf pat nocase (start + k)
         | Some p \<Rightarrow> start + (i + 1) \<le> p \<and> p + length pat \<le> start + hay_len \<and> occurs buf pat nocase p \<and>
             (\<forall>k. i + 1 \<le> k \<and> start + k < p \<longrightarrow> \<not> occurs buf pat nocase (start + k))"
        using 1(1) [OF fits n] False 1(2) by auto
      have "memfind_loop buf start hay_len pat nocase i = Some r"
        using fits n False r(1) by (simp add: memfind_loop.simps [of buf start hay_len pat nocase i])
      moreover have "i \<le> k \<longleftrightarrow> k = i \<or> i + 1 \<le> k" for k by auto
      ultimately show ?thesis using r(2) False by (cases r) auto
    qed
  qed
qed

text \<open>The window of a content does not end before it starts.\<close>

definition window_ok :: "bytes \<Rightarrow> content_match \<Rightarrow> nat \<Rightarrow> bool" where
  "window_ok buf c prev_end \<longleftrightarrow> match_start c prev_end \<le> match_limit c prev_end (length buf) \<or>
     match_start c prev_end > length buf \<or> length (cm_pattern c) > match_limit c prev_end (length buf)"

definition in_window :: "bytes \<Rightarrow> content_match \<Rightarrow> nat \<Rightarrow> nat \<Rightarrow> bool" where
  "in_window buf c prev_end i \<longleftrightarrow> match_start c prev_end \<le> i \<and>
     i + length (cm_pattern c) \<le> match_limit c prev_end (length buf) \<and> occurs buf (cm_pattern c) (cm_nocase c) i"

lemma match_limit_le: "match_limit c prev_end len \<le> len"
  by (auto simp: match_limit_def Let_def min_le_iff_disj split: option.split)

lemma content_matches_first:
  assumes "cm_pattern c \<noteq> []" "window_ok buf c prev_end"
  shows "(content_matches buf c prev_end = Some None \<and> (\<forall>i. \<not> in_window buf c prev_end i)) \<or>
    (\<exists>i. content_matches buf c prev_end = Some (Some (i + length (cm_pattern c))) \<and> in_window buf c prev_end i \<and>
       (\<forall>j<i. \<not> in_window buf c prev_end j))"
proof (cases "match_start c prev_end > length buf \<or> length (cm_pattern c) > match_limit c prev_end (length buf) \<or>
    match_limit c prev_end (length buf) < match_start c prev_end + length (cm_pattern c)")
  case True
  have "match_limit c prev_end (length buf) \<le> length buf" by (rule match_limit_le)
  then have "content_matches buf c prev_end = Some None" "\<And>i. \<not> in_window buf c prev_end i"
    using True assms(2) by (auto simp: content_matches_def window_ok_def Let_def size_diff_def in_window_def)
  then show ?thesis by blast
next
  case False
  let ?s = "match_start c prev_end" and ?l = "match_limit c prev_end (length buf)" and ?p = "cm_pattern c"
  have sl: "?s + length ?p \<le> ?l" "size_diff ?l ?s = ?l - ?s" "?s + (?l - ?s) \<le> length buf"
    using False match_limit_le [of c prev_end "length buf"] by (auto simp: size_diff_def)
  obtain r where r: "memfind_loop buf ?s (?l - ?s) ?p (cm_nocase c) 0 = Some r"
    "case r of None \<Rightarrow> \<forall>k. 0 \<le> k \<and> k + length ?p \<le> ?l - ?s \<longrightarrow> \<not> occurs buf ?p (cm_nocase c) (?s + k)
     | Some p \<Rightarrow> ?s + 0 \<le> p \<and> p + length ?p \<le> ?s + (?l - ?s) \<and> occurs buf ?p (cm_nocase c) p \<and>
         (\<forall>k. 0 \<le> k \<and> ?s + k < p \<longrightarrow> \<not> occurs buf ?p (cm_nocase c) (?s + k))"
    using memfind_loop_first [OF sl(3), of ?p "cm_nocase c" 0] by blast
  have cm: "content_matches buf c prev_end = Some (map_option (\<lambda>i. i + length ?p) r)"
    using False sl r(1) assms(1) le_diff_conv2 [of ?s ?l "length ?p"]
    by (simp add: content_matches_def Let_def memfind_def not_less)
  have off: "\<exists>k. i = ?s + k" if "?s \<le> i" for i using that by (intro exI [of _ "i - ?s"]) simp
  show ?thesis
  proof (cases r)
    case None
    have "\<not> in_window buf c prev_end i" for i
    proof
      assume i: "in_window buf c prev_end i"
      then obtain k where "i = ?s + k" using off by (auto simp: in_window_def)
      then show False using i r(2) None sl(1) by (auto simp: in_window_def)
    qed
    then show ?thesis using cm None by simp
  next
    case (Some p)
    have "in_window buf c prev_end p" using r(2) Some sl(1) by (simp add: in_window_def)
    moreover have "\<not> in_window buf c prev_end j" if "j < p" for j
    proof
      assume j: "in_window buf c prev_end j"
      then obtain k where "j = ?s + k" using off by (auto simp: in_window_def)
      then show False using j r(2) Some that by (auto simp: in_window_def)
    qed
    ultimately show ?thesis using cm Some by auto
  qed
qed

subsection \<open>Rules that stay inside their buffers\<close>

text \<open>
  The condition on the position options under which the length of a search cannot wrap: \<open>seen\<close> says whether a
  content before this one was in the same buffer.
\<close>

definition content_safe :: "bool \<Rightarrow> content_match \<Rightarrow> bool" where
  "content_safe seen c \<longleftrightarrow> cm_pattern c \<noteq> [] \<and>
     (case cm_within c of None \<Rightarrow> True
      | Some w \<Rightarrow> (case cm_distance c of Some d \<Rightarrow> d \<le> w | None \<Rightarrow> cm_offset c = None)) \<and>
     (cm_depth c \<noteq> None \<longrightarrow> cm_distance c = None \<and> (cm_offset c \<noteq> None \<or> \<not> seen))"

fun contents_safe :: "(match_buffer \<Rightarrow> bool) \<Rightarrow> content_match list \<Rightarrow> bool" where
  "contents_safe seen [] = True"
| "contents_safe seen (c # cs) \<longleftrightarrow> content_safe (seen (cm_buffer c)) c \<and> contents_safe (seen(cm_buffer c := True)) cs"

definition engine_safe :: "rule_engine \<Rightarrow> bool" where
  "engine_safe e = list_all (\<lambda>cr. contents_safe (\<lambda>_. False) (ru_contents (cr_rule cr))) (re_rules e)"

lemma content_safe_window: "content_safe seen c \<Longrightarrow> \<not> seen \<longrightarrow> prev_end = 0 \<Longrightarrow> window_ok buf c prev_end"
  by (auto simp: content_safe_def window_ok_def match_start_def match_limit_def Let_def word_le_nat_alt min_def
      split: option.splits if_splits)

lemma contents_match_total:
  "contents_safe seen cs \<Longrightarrow> (\<forall>b. \<not> seen b \<longrightarrow> prev_end b = 0) \<Longrightarrow> \<exists>r. contents_match bufs prev_end cs = Some r"
proof (induction cs arbitrary: seen prev_end)
  case (Cons c cs)
  show ?case
  proof (cases "select_buffer bufs (cm_buffer c)")
    case (Some buf)
    have w: "window_ok buf c (prev_end (cm_buffer c))"
      by (rule content_safe_window [of "seen (cm_buffer c)"]) (use Cons.prems in auto)
    moreover have "cm_pattern c \<noteq> []" using Cons.prems(1) by (auto simp: content_safe_def)
    ultimately obtain r where r: "content_matches buf c (prev_end (cm_buffer c)) = Some r"
      using content_matches_first [of c buf "prev_end (cm_buffer c)"] by blast
    show ?thesis
    proof (cases r)
      case None
      then show ?thesis using Some r by (intro exI [of _ False]) simp
    next
      case e: (Some e)
      have "\<exists>x. contents_match bufs (prev_end(cm_buffer c := e)) cs = Some x"
      proof (rule Cons.IH)
        show "contents_safe (seen(cm_buffer c := True)) cs" using Cons.prems(1) by (simp del: fun_upd_apply)
      qed (use Cons.prems(2) in simp)
      then show ?thesis using Some r e by simp
    qed
  qed (auto intro: exI [of _ False])
qed auto

lemma engine_match_total: "engine_safe e \<Longrightarrow> \<exists>hits. engine_match pp bufs e = Some hits"
proof -
  have "\<exists>hits. match_rules pp bufs crs = Some hits"
    if "list_all (\<lambda>cr. contents_safe (\<lambda>_. False) (ru_contents (cr_rule cr))) crs" for crs
    using that
  proof (induction crs)
    case (Cons cr crs)
    obtain r where "contents_match bufs (\<lambda>_. 0) (ru_contents (cr_rule cr)) = Some r"
      using contents_match_total [of "\<lambda>_. False" "ru_contents (cr_rule cr)" "\<lambda>_. 0" bufs] Cons.prems by auto
    then show ?case using Cons by (auto simp: rule_hits_def)
  qed simp
  then show "engine_safe e \<Longrightarrow> ?thesis" by (simp add: engine_safe_def engine_match_def)
qed

subsection \<open>The contents of a rule\<close>

text \<open>A placement of the patterns in order, without overlap, each in its buffer.\<close>

fun placed :: "match_buffers \<Rightarrow> (match_buffer \<Rightarrow> nat) \<Rightarrow> content_match list \<Rightarrow> bool" where
  "placed bufs lo [] = True"
| "placed bufs lo (c # cs) = (\<exists>buf i. select_buffer bufs (cm_buffer c) = Some buf \<and> lo (cm_buffer c) \<le> i \<and>
     occurs buf (cm_pattern c) (cm_nocase c) i \<and>
     placed bufs (lo(cm_buffer c := i + length (cm_pattern c))) cs)"

definition plain_content :: "content_match \<Rightarrow> bool" where
  "plain_content c \<longleftrightarrow> cm_pattern c \<noteq> [] \<and> cm_offset c = None \<and> cm_depth c = None \<and> cm_distance c = None \<and>
     cm_within c = None"

lemma placed_mono:
  "placed bufs hi cs \<Longrightarrow> (\<And>b. lo b \<le> hi b) \<Longrightarrow> placed bufs lo cs"
proof (induction cs arbitrary: lo hi)
  case (Cons c cs)
  obtain buf i where i: "select_buffer bufs (cm_buffer c) = Some buf" "hi (cm_buffer c) \<le> i"
    "occurs buf (cm_pattern c) (cm_nocase c) i" "placed bufs (hi(cm_buffer c := i + length (cm_pattern c))) cs"
    using Cons.prems(1) by auto
  have "placed bufs (lo(cm_buffer c := i + length (cm_pattern c))) cs"
    by (rule Cons.IH [OF i(4)]) (use Cons.prems(2) in auto)
  then show ?case using i(1-3) Cons.prems(2) [of "cm_buffer c"] by (auto intro: order_trans)
qed simp

lemma greedy_complete:
  "list_all plain_content cs \<Longrightarrow> contents_match bufs lo cs = Some (placed bufs lo cs)"
proof (induction cs arbitrary: lo)
  case (Cons c cs)
  let ?b = "cm_buffer c" and ?n = "length (cm_pattern c)"
  have c: "plain_content c" and cs: "list_all plain_content cs" using Cons.prems by simp_all
  show ?case
  proof (cases "select_buffer bufs ?b")
    case (Some buf)
    have sl: "match_start c (lo ?b) = lo ?b" "match_limit c (lo ?b) (length buf) = length buf"
      using c by (simp_all add: plain_content_def match_start_def match_limit_def)
    have iw: "in_window buf c (lo ?b) i \<longleftrightarrow> lo ?b \<le> i \<and> occurs buf (cm_pattern c) (cm_nocase c) i" for i
      unfolding in_window_def sl by (auto simp: occurs_def)
    have "window_ok buf c (lo ?b)" unfolding window_ok_def sl by linarith
    from content_matches_first [OF _ this] c consider
        (none) "content_matches buf c (lo ?b) = Some None" "\<And>i. \<not> in_window buf c (lo ?b) i"
      | (first) i where "content_matches buf c (lo ?b) = Some (Some (i + ?n))" "in_window buf c (lo ?b) i"
          "\<And>j. j < i \<Longrightarrow> \<not> in_window buf c (lo ?b) j"
      by (auto simp: plain_content_def)
    then show ?thesis
    proof cases
      case none
      then have "\<not> placed bufs lo (c # cs)" using Some by (auto simp: iw)
      then show ?thesis using none(1) Some by simp
    next
      case first
      have "placed bufs lo (c # cs) \<longleftrightarrow> placed bufs (lo(?b := i + ?n)) cs"
      proof
        assume "placed bufs lo (c # cs)"
        then obtain k where k: "lo ?b \<le> k" "occurs buf (cm_pattern c) (cm_nocase c) k"
          "placed bufs (lo(?b := k + ?n)) cs" using Some by auto
        have "i \<le> k" using first(3) [of k] k(1,2) by (simp add: iw not_less [symmetric]) blast
        then show "placed bufs (lo(?b := i + ?n)) cs" by (intro placed_mono [OF k(3)]) simp
      next
        assume "placed bufs (lo(?b := i + ?n)) cs"
        then show "placed bufs lo (c # cs)" using first(2) Some by (auto simp: iw)
      qed
      then show ?thesis by (simp add: first(1) Some Cons.IH [OF cs] fun_upd_def del: placed.simps)
    qed
  qed simp
qed simp

lemma engine_match_plain:
  assumes "list_all (\<lambda>cr. list_all plain_content (ru_contents (cr_rule cr))) (re_rules e)"
  shows "engine_match pp bufs e = Some (map cr_rule (filter (\<lambda>cr. header_ok (cr_rule cr) pp \<and>
      placed bufs (\<lambda>_. 0) (ru_contents (cr_rule cr)) \<and>
      list_all (\<lambda>code. code (case mb_raw bufs of None \<Rightarrow> [] | Some b \<Rightarrow> b)) (cr_codes cr)) (re_rules e)))"
proof -
  have "match_rules pp bufs crs = Some (map cr_rule (filter (\<lambda>cr. header_ok (cr_rule cr) pp \<and>
      placed bufs (\<lambda>_. 0) (ru_contents (cr_rule cr)) \<and>
      list_all (\<lambda>code. code (case mb_raw bufs of None \<Rightarrow> [] | Some b \<Rightarrow> b)) (cr_codes cr)) crs))"
    if "list_all (\<lambda>cr. list_all plain_content (ru_contents (cr_rule cr))) crs" for crs
    using that
  proof (induction crs)
    case (Cons cr crs)
    then have "rule_hits pp bufs cr = Some (header_ok (cr_rule cr) pp \<and>
      placed bufs (\<lambda>_. 0) (ru_contents (cr_rule cr)) \<and>
      list_all (\<lambda>code. code (case mb_raw bufs of None \<Rightarrow> [] | Some b \<Rightarrow> b)) (cr_codes cr))"
      using greedy_complete [of "ru_contents (cr_rule cr)" bufs "\<lambda>_. 0"] by (simp add: rule_hits_def)
    then show ?case using Cons by simp
  qed simp
  then show ?thesis using assms by (simp add: engine_match_def)
qed

text \<open>
  C33: a rule whose contents have no position options matches exactly when its header fits and its
  patterns can be placed in order and without overlap in their buffers, and its regular expressions
  match: taking the first occurrence of each never misses a placement. The engine reports exactly these
  rules, in their order, and stays inside the buffers.
\<close>

theorem rule_match_exact:
  assumes "list_all (\<lambda>cr. list_all plain_content (ru_contents (cr_rule cr))) (re_rules e)"
  shows "engine_match pp bufs e = Some (map cr_rule (filter (\<lambda>cr. header_ok (cr_rule cr) pp \<and>
      placed bufs (\<lambda>_. 0) (ru_contents (cr_rule cr)) \<and>
      list_all (\<lambda>code. code (case mb_raw bufs of None \<Rightarrow> [] | Some b \<Rightarrow> b)) (cr_codes cr)) (re_rules e)))"
  using engine_match_plain [OF assms] .

definition any_ip :: ip_matcher where
  "any_ip = ip_matcher_new\<lparr>im_any := True\<rparr>"

definition any_port :: port_matcher where
  "any_port = port_matcher_new\<lparr>pm_any := True\<rparr>"

definition demo_rule :: rule where
  "demo_rule = rule_new\<lparr>ru_sid := 7, ru_src_ip := any_ip, ru_dst_ip := any_ip, ru_src_port := any_port,
     ru_dst_port := any_port, ru_contents := [content_of RAW [1, 2], content_of RAW [2, 3]]\<rparr>"

lemma rule_match_exact_witness:
  "engine_match no_packet (match_buffers_new\<lparr>mb_raw := Some [1, 2, 2, 3]\<rparr>)
     \<lparr> re_rules = [\<lparr> cr_rule = demo_rule, cr_codes = [] \<rparr>], re_skipped = 0 \<rparr> = Some [demo_rule]"
proof -
  let ?e = "\<lparr> re_rules = [\<lparr> cr_rule = demo_rule, cr_codes = [] \<rparr>], re_skipped = 0 \<rparr>"
  let ?b = "match_buffers_new\<lparr>mb_raw := Some [1, 2, 2, 3]\<rparr>"
  have plain: "list_all (\<lambda>cr. list_all plain_content (ru_contents (cr_rule cr))) (re_rules ?e)"
    by (simp add: demo_rule_def plain_content_def content_of_def)
  have "occurs [1, 2, 2, 3] [1, 2] False 0" "occurs [1, 2, 2, 3] [2, 3] False 2"
    by (simp_all add: occurs_def byte_eq_def upt_rec)
  then have "placed ?b (\<lambda>_. 0) (ru_contents demo_rule)"
    unfolding demo_rule_def content_of_def by (simp add: select_buffer_def) (intro exI [of _ 0] conjI exI [of _ 2]; simp)
  moreover have "header_ok demo_rule no_packet"
    by (simp add: header_ok_def demo_rule_def rule_new_def proto_ok_def any_ip_def any_port_def ip_matches_def port_matches_def)
  ultimately show ?thesis
    using rule_match_exact [OF plain, of no_packet ?b] by simp
qed

subsection \<open>Addresses\<close>

lemma byte_eq_bits: "(a :: u8) = b \<longleftrightarrow> (\<forall>k<8. bit a (7 - k) = bit b (7 - k))"
proof
  assume e: "\<forall>k<8. bit a (7 - k) = bit b (7 - k)"
  show "a = b"
  proof (rule bit_word_eqI)
    fix n assume "n < LENGTH(8)"
    then have "7 - (7 - n) = n" "7 - n < 8" by simp_all
    then show "bit a n = bit b n" using e by metis
  qed
qed simp

lemma mask_eq_bits:
  assumes "0 < r" "r < 8"
  shows "(a :: u8) AND push_bit (8 - r) 0xFF = b AND push_bit (8 - r) 0xFF \<longleftrightarrow> (\<forall>k<r. bit a (7 - k) = bit b (7 - k))"
proof -
  have ff: "bit (0xFF :: u8) n \<longleftrightarrow> n < 8" for n
    using bit_mask_iff [of 8 n, where 'a = "8 word"] by (simp add: mask_eq_exp_minus_1)
  have m: "bit (push_bit (8 - r) 0xFF :: u8) n \<longleftrightarrow> 8 - r \<le> n \<and> n < 8" for n
    unfolding bit_push_bit_iff ff using assms by auto
  show ?thesis
  proof
    assume e: "a AND push_bit (8 - r) 0xFF = b AND push_bit (8 - r) 0xFF"
    show "\<forall>k<r. bit a (7 - k) = bit b (7 - k)"
    proof (intro allI impI)
      fix k assume "k < r"
      then show "bit a (7 - k) = bit b (7 - k)"
        using arg_cong [OF e, of "\<lambda>x. bit x (7 - k)"] assms by (auto simp: bit_and_iff m)
    qed
  next
    assume e: "\<forall>k<r. bit a (7 - k) = bit b (7 - k)"
    show "a AND push_bit (8 - r) 0xFF = b AND push_bit (8 - r) 0xFF"
    proof (rule bit_word_eqI)
      fix n assume n: "n < LENGTH(8)"
      have "bit a n = bit b n" if "8 - r \<le> n"
      proof -
        have "7 - n < r" "7 - (7 - n) = n" using that n assms by auto
        then show ?thesis using e by metis
      qed
      then show "bit (a AND push_bit (8 - r) 0xFF) n = bit (b AND push_bit (8 - r) 0xFF) n"
        by (auto simp: bit_and_iff m)
    qed
  qed
qed

lemma take_eq_bits:
  assumes "n \<le> length a" "n \<le> length b"
  shows "take n a = take n b \<longleftrightarrow> (\<forall>i<8 * n. addr_bit a i = addr_bit b i)"
proof -
  have "take n a = take n b \<longleftrightarrow> (\<forall>j<n. a ! j = b ! j)"
    using assms by (auto simp: list_eq_iff_nth_eq)
  also have "\<dots> \<longleftrightarrow> (\<forall>j<n. \<forall>k<8. bit (a ! j) (7 - k) = bit (b ! j) (7 - k))"
    using byte_eq_bits by blast
  also have "\<dots> \<longleftrightarrow> (\<forall>i<8 * n. addr_bit a i = addr_bit b i)"
  proof
    assume l: "\<forall>j<n. \<forall>k<8. bit (a ! j) (7 - k) = bit (b ! j) (7 - k)"
    show "\<forall>i<8 * n. addr_bit a i = addr_bit b i"
      unfolding addr_bit_def using l by (simp add: less_mult_imp_div_less mult.commute)
  next
    assume l: "\<forall>i<8 * n. addr_bit a i = addr_bit b i"
    show "\<forall>j<n. \<forall>k<8. bit (a ! j) (7 - k) = bit (b ! j) (7 - k)"
    proof (intro allI impI)
      fix j k :: nat assume "j < n" "k < 8"
      then have "8 * j + k < 8 * n" "(8 * j + k) div 8 = j" "(8 * j + k) mod 8 = k" by auto
      then show "bit (a ! j) (7 - k) = bit (b ! j) (7 - k)" using l unfolding addr_bit_def by metis
    qed
  qed
  finally show ?thesis .
qed

lemma all_less_add: "(\<forall>i<a + r. P i) \<longleftrightarrow> (\<forall>i<a. P i) \<and> (\<forall>k<r. P (a + k))" for a r :: nat
proof (intro iffI allI impI conjI)
  fix i assume P: "(\<forall>i<a. P i) \<and> (\<forall>k<r. P (a + k))" and i: "i < a + r"
  show "P i"
  proof (cases "i < a")
    case False
    then have "i - a < r" using i by linarith
    then have "P (a + (i - a))" using P by blast
    then show ?thesis using False by simp
  qed (use P in blast)
qed auto

text \<open>The byte and mask comparison of the code compares the leading bits.\<close>

lemma cidr_hits_bits:
  assumes "length (ic_addr c) = 16" "length ip = 16" "ic_prefix c \<le> 128"
  shows "cidr_hits c ip \<longleftrightarrow> (\<forall>i<unat (ic_prefix c). addr_bit (ic_addr c) i = addr_bit ip i)"
proof -
  let ?f = "unat (ic_prefix c) div 8" and ?r = "unat (ic_prefix c) mod 8"
  have p: "unat (ic_prefix c) = 8 * ?f + ?r" "unat (ic_prefix c) \<le> 128" using assms(3) by (simp_all add: word_le_nat_alt)
  then have f: "?f \<le> 16" by simp
  have t: "take ?f (ic_addr c) = take ?f ip \<longleftrightarrow> (\<forall>i<8 * ?f. addr_bit (ic_addr c) i = addr_bit ip i)"
    using assms f by (intro take_eq_bits) simp_all
  have m: "(?r \<noteq> 0 \<longrightarrow> (ic_addr c ! ?f) AND push_bit (8 - ?r) 0xFF = (ip ! ?f) AND push_bit (8 - ?r) 0xFF) \<longleftrightarrow>
      (\<forall>k<?r. addr_bit (ic_addr c) (8 * ?f + k) = addr_bit ip (8 * ?f + k))"
  proof (cases "?r = 0")
    case False
    have "addr_bit a (8 * ?f + k) = bit (a ! ?f) (7 - k)" if "k < ?r" for a k
    proof -
      have "k < 8" using that by (rule less_trans) simp
      then have "(8 * ?f + k) div 8 = ?f" "(8 * ?f + k) mod 8 = k" by auto
      then show ?thesis by (simp only: addr_bit_def)
    qed
    then show ?thesis using mask_eq_bits [of ?r] False by simp
  qed simp
  show ?thesis
    unfolding cidr_hits_def Let_def t m by (rule all_less_add [of "8 * ?f" ?r, folded p(1), symmetric])
qed

text \<open>
  The address test of the code, written as a comparison of leading bits: a matcher accepts an address
  when it is \<open>any\<close>, or when some prefix of the family has its leading bits, the other way round when it
  is negated.
\<close>

definition matcher_ok :: "ip_matcher \<Rightarrow> bool" where
  "matcher_ok m \<longleftrightarrow> list_all (\<lambda>c. length (ic_addr c) = 16 \<and> ic_prefix c \<le> 128) (im_cidrs m)"

lemma ip_matches_bits:
  assumes "matcher_ok m" "length ip = 16"
  shows "ip_matches m ip is_v6 \<longleftrightarrow> im_any m \<or>
    im_negated m \<noteq> (\<exists>c \<in> set (im_cidrs m). ic_v6 c = is_v6 \<and>
      (\<forall>i<unat (ic_prefix c). addr_bit (ic_addr c) i = addr_bit ip i))"
proof -
  have "list_ex (\<lambda>c. ic_v6 c = is_v6 \<and> cidr_hits c ip) (im_cidrs m) \<longleftrightarrow>
      (\<exists>c \<in> set (im_cidrs m). ic_v6 c = is_v6 \<and> (\<forall>i<unat (ic_prefix c). addr_bit (ic_addr c) i = addr_bit ip i))"
    using assms cidr_hits_bits by (auto simp: list_ex_iff matcher_ok_def list_all_iff)
  then show ?thesis by (auto simp: ip_matches_def)
qed

subsection \<open>Contents\<close>

definition hex_content :: "bytes \<Rightarrow> string" where
  "hex_content p = [CHR 0x22, CHR ''|''] @ concat (map (\<lambda>b. hex2 b @ '' '') p) @ [CHR ''|'', CHR 0x22]"

lemma content_loop_hex:
  "content_loop (concat (map (\<lambda>b. hex2 b @ '' '') p) @ s) True None out = content_loop s True None (out @ p)"
proof (induction p arbitrary: out)
  case (Cons b p)
  have n: "unat b div 16 < 16" "unat b mod 16 < 16" using unat_u8_bound [of b] by (simp_all add: less_mult_imp_div_less del: unat_u8_bound)
  have plain: "digit m \<noteq> CHR ''|''" "\<not> is_space (digit m)" "digit m \<noteq> CHR 0x5C" if "m < 16" for m
  proof -
    have v: "digit_val c \<ge> 16 \<Longrightarrow> digit m \<noteq> c" for c using digit_val_digit [OF that] that by auto
    show "digit m \<noteq> CHR ''|''" "\<not> is_space (digit m)" "digit m \<noteq> CHR 0x5C"
      using v by (simp_all add: digit_val_def is_space_def)
  qed
  have b: "(of_nat (16 * (unat b div 16) + unat b mod 16) :: u8) = b" by simp
  have sp: "is_space CHR '' ''" by (simp add: is_space_def)
  have "content_loop (hex2 b @ '' '' @ r) True None out = content_loop r True None (out @ [b])" for r
    unfolding hex2_def using n plain [OF n(1)] plain [OF n(2)] b sp by (simp add: digit_val_digit)
  then show ?case using Cons [of "out @ [b]"] by simp
qed simp

lemma content_value_hex: "p \<noteq> [] \<Longrightarrow> parse_content_value (hex_content p) = Inr p"
proof -
  assume "p \<noteq> []"
  have "butlast (tl (hex_content p)) = CHR ''|'' # concat (map (\<lambda>b. hex2 b @ '' '') p) @ [CHR ''|'']"
    unfolding hex_content_def by (simp add: butlast_append)
  moreover have "quoted (hex_content p)" by (simp add: quoted_def hex_content_def)
  ultimately show ?thesis using \<open>p \<noteq> []\<close> by (simp add: parse_content_value_def content_loop_hex)
qed

lemma content_loop_nonempty: "content_loop s hex hi out = Inr p \<Longrightarrow> p \<noteq> []"
proof (induction s hex hi out rule: content_loop.induct)
  case (1 hex hi out)
  then show ?case by (simp split: if_splits)
next
  case (2 c s hex hi out)
  show ?case
  proof (cases "c = CHR 0x5C \<and> \<not> hex \<and> s \<noteq> []")
    case True
    then obtain d r where "s = d # r" by (cases s) auto
    then show ?thesis using 2(1) [OF True, of d r] 2(7) True by simp
  next
    case False
    note step = 2(7) [unfolded content_loop.simps if_not_P [OF False]]
    show ?thesis
      using step 2(2) [OF False] 2(3-6) [OF False] by (simp split: if_splits option.splits)
  qed
qed

subsection \<open>Loading\<close>

definition rule_loaded :: "rule \<Rightarrow> bool" where
  "rule_loaded r \<longleftrightarrow> ru_sid r \<noteq> 0 \<and> list_all (\<lambda>c. cm_pattern c \<noteq> []) (ru_contents r)"

definition contents_ok :: "rule \<Rightarrow> bool" where
  "contents_ok r \<longleftrightarrow> list_all (\<lambda>c. cm_pattern c \<noteq> []) (ru_contents r)"

lemma contents_ok_modify:
  assumes "contents_ok r" "ru_contents r \<noteq> []" "\<And>c. cm_pattern (g c) = cm_pattern c"
  shows "contents_ok (modify_last g r)"
proof -
  have "list_all (\<lambda>c. cm_pattern c \<noteq> []) (butlast (ru_contents r) @ [last (ru_contents r)])"
    using assms(1,2) by (simp add: contents_ok_def)
  then show ?thesis using assms(3) by (simp add: contents_ok_def modify_last_def)
qed

lemma set_position_pattern [simp]: "cm_pattern (set_position key v c) = cm_pattern c"
  by (simp add: set_position_def)

lemma if_Inr: "(if b then x else y) = Inr z \<longleftrightarrow> b \<and> x = Inr z \<or> \<not> b \<and> y = Inr z"
  by simp

lemma apply_option_ok:
  "apply_option opt (cur, r) = Inr (cur', r') \<Longrightarrow> contents_ok r \<Longrightarrow> contents_ok r'"
proof -
  assume a: "apply_option opt (cur, r) = Inr (cur', r')" and ok: "contents_ok r"
  obtain key val where kv: "(case cut_at CHR '':'' opt of None \<Rightarrow> (trim opt, []) | Some (k, v) \<Rightarrow> (trim k, trim v)) = (key, val)"
    by fastforce
  have pat: "parse_content_value val = Inr p \<Longrightarrow> p \<noteq> []" for p
    by (auto simp: parse_content_value_def split: if_splits dest: content_loop_nonempty)
  have fields: "contents_ok (r\<lparr>ru_msg := m\<rparr>)" "contents_ok (r\<lparr>ru_sid := n\<rparr>)" "contents_ok (r\<lparr>ru_rev := n\<rparr>)"
    "contents_ok (r\<lparr>ru_pcre_patterns := ps\<rparr>)" for m n ps
    using ok by (simp_all add: contents_ok_def)
  have add: "parse_content_value val = Inr p \<Longrightarrow> contents_ok (r\<lparr>ru_contents := ru_contents r @ [content_of b p]\<rparr>)" for b p
    using ok pat by (simp add: contents_ok_def content_of_def)
  note a = a [unfolded apply_option_def prod.case kv Let_def if_Inr]
  from a show "contents_ok r'"
    by (elim disjE conjE) (use ok in \<open>auto simp: error_simps fields add intro!: contents_ok_modify [OF ok]\<close>)
qed

lemma apply_options_ok: "apply_options opts st = Inr st' \<Longrightarrow> contents_ok (snd st) \<Longrightarrow> contents_ok (snd st')"
proof (induction opts arbitrary: st)
  case (Cons opt opts)
  then show ?case
    by (cases st; cases st') (auto split: if_splits sum.splits dest: apply_option_ok)
qed simp

lemma rule_header_contents: "rule_header h vars = Some (Inr r) \<Longrightarrow> ru_contents r = []"
  by (auto simp: rule_header_def error_simps rule_new_def split: list.splits)

lemma parse_rule_loaded: "parse_rule line vars = Some (Inr r) \<Longrightarrow> rule_loaded r"
proof -
  assume "parse_rule line vars = Some (Inr r)"
  then obtain h b r0 where r0: "rule_header h vars = Some (Inr r0)" "rule_body b r0 = Inr r"
    by (auto simp: parse_rule_def error_simps)
  then obtain cur where o: "apply_options (split_options b [] False) (RAW, r0) = Inr (cur, r)" "ru_sid r \<noteq> 0"
    by (auto simp: rule_body_def error_simps)
  have "contents_ok r0" using rule_header_contents [OF r0(1)] by (simp add: contents_ok_def)
  then show "rule_loaded r" using apply_options_ok [OF o(1)] o(2) by (simp add: rule_loaded_def contents_ok_def)
qed

text \<open>The lines that hold a rule or a mistake, and not only blanks and a comment.\<close>

definition rule_lines :: "string \<Rightarrow> string list" where
  "rule_lines text = filter (\<lambda>l. trim (strip_comment l False) \<noteq> []) (getlines CHR 0x0A text)"

lemma load_rule_line_cases:
  assumes "load_rule_line pcre path vars n line e = Some (ws, e')"
  shows "(trim (strip_comment line False) = [] \<and> ws = [] \<and> e' = e) \<or>
    (trim (strip_comment line False) \<noteq> [] \<and>
      ((ws \<noteq> [] \<and> e' = e\<lparr>re_skipped := re_skipped e + 1\<rparr>) \<or>
       (\<exists>cr. ws = [] \<and> e' = e\<lparr>re_rules := re_rules e @ [cr]\<rparr> \<and> rule_loaded (cr_rule cr) \<and>
          parse_rule (trim (strip_comment line False)) vars = Some (Inr (cr_rule cr)))))"
proof (cases "trim (strip_comment line False) = []")
  case True
  then show ?thesis using assms by (simp add: load_rule_line_def)
next
  case False
  obtain r where r: "parse_rule (trim (strip_comment line False)) vars = Some r"
    using assms False by (cases "parse_rule (trim (strip_comment line False)) vars") (auto simp: load_rule_line_def)
  have comp: "cr_rule cr = r'" if "compile_rule pcre r' = Inr cr" for r' cr
    using that by (auto simp: compile_rule_def split: option.splits if_splits)
  show ?thesis
  proof (cases r)
    case (Inl err)
    then show ?thesis using assms False r by (cases err) (auto simp: load_rule_line_def)
  next
    case (Inr r')
    then have "rule_loaded r'" using r parse_rule_loaded by blast
    then show ?thesis
      using assms False r Inr comp by (cases "compile_rule pcre r'") (auto simp: load_rule_line_def)
  qed
qed

lemma load_rule_lines_account:
  "load_rule_lines pcre path vars n lines e = Some (ws, e') \<Longrightarrow>
    (\<exists>new. re_rules e' = re_rules e @ new \<and> list_all (\<lambda>cr. rule_loaded (cr_rule cr)) new) \<and>
    length (re_rules e') + re_skipped e' =
      length (re_rules e) + re_skipped e + length (filter (\<lambda>l. trim (strip_comment l False) \<noteq> []) lines) \<and>
    re_skipped e \<le> re_skipped e' \<and> (ws = [] \<longleftrightarrow> re_skipped e' = re_skipped e)"
proof (induction lines arbitrary: n e ws)
  case (Cons line lines)
  obtain ws1 e1 ws2 where l: "load_rule_line pcre path vars (n + 1) line e = Some (ws1, e1)"
    "load_rule_lines pcre path vars (n + 1) lines e1 = Some (ws2, e')" "ws = ws1 @ ws2"
    using Cons.prems by (auto simp: bind_eq_Some_conv)
  note ih = Cons.IH [OF l(2)]
  from load_rule_line_cases [OF l(1)] ih show ?case by (elim disjE conjE exE) (auto simp: l(3))
qed simp

text \<open>
  C36: every line of a rules file that holds more than blanks and a comment is accounted for: it is either
  loaded as one rule or skipped with a warning, the rules loaded before stay, and every rule that enters
  the engine has an identifier and no empty pattern. A file that cannot be opened loads nothing and warns.
\<close>

theorem load_file_accounts:
  assumes "load_file pcre path content vars e = Some (n, ws, e')"
  shows "case content of
      None \<Rightarrow> n = 0 \<and> ws \<noteq> [] \<and> e' = e
    | Some text \<Rightarrow> rule_count e' = rule_count e + n \<and>
        n + re_skipped e' = length (rule_lines text) + re_skipped e \<and>
        (ws = [] \<longleftrightarrow> n = length (rule_lines text)) \<and>
        (\<exists>new. re_rules e' = re_rules e @ new \<and> list_all (\<lambda>cr. rule_loaded (cr_rule cr)) new)"
proof (cases content)
  case None
  then show ?thesis using assms by (auto simp: load_file_def)
next
  case (Some body)
  obtain e2 where l: "load_rule_lines pcre path vars 0 (getlines CHR 0x0A body) e = Some (ws, e2)"
    "n = length (re_rules e2) - length (re_rules e)" "e' = e2"
    using assms Some by (auto simp: load_file_def bind_eq_Some_conv)
  from load_rule_lines_account [OF l(1)] show ?thesis
    using l(2,3) by (auto simp: Some rule_lines_def rule_count_def)
qed

lemma load_file_accounts_witness:
  "\<exists>ws e'. load_file None ''r'' (Some ''# nothing'') [] rule_engine_new = Some (0, ws, e') \<and> rule_count e' = 0"
proof -
  have r: "load_file None ''r'' (Some ''# nothing'') [] rule_engine_new = Some (0, [], rule_engine_new)"
    by (simp add: load_file_def getlines_def load_rule_line_def trim_def trim_of_def)
  from load_file_accounts [OF r] show ?thesis using r by (simp add: rule_count_def rule_engine_new_def)
qed

text \<open>
  A depth that ends before the previous match makes the length of the search wrap, and the search runs
  past the end of the payload: here for \<open>content:"a"; content:"b"; depth:1;\<close> on the payload \<open>xxa\<close>.
\<close>

lemma depth_before_match_overreads:
  "contents_match (match_buffers_new\<lparr>mb_raw := Some [0x78, 0x78, 0x61]\<rparr>) (\<lambda>_. 0)
     [content_of RAW [0x61], (content_of RAW [0x62])\<lparr>cm_depth := Some 1\<rparr>] = None"
  by (simp add: content_of_def content_matches_def match_start_def match_limit_def size_diff_def memfind_def
      memfind_loop.simps rd8_def byte_eq_def select_buffer_def Let_def)

text \<open>An odd digit in a hexadecimal block is dropped without an error.\<close>

lemma odd_nibble_dropped: "parse_content_value [CHR 0x22, CHR ''|'', CHR ''4'', CHR ''|'', CHR ''x'', CHR 0x22] = Inr [0x78]"
  by (simp add: parse_content_value_def quoted_def digit_val_def is_space_def)

text \<open>The bound on the groups of an IPv6 address is one for bytes: nine groups are let through.\<close>

lemma rule_ipv6_overflow: "rule_ipv6 ''1:2:3:4:5:6:7:8:9::'' = None"
  by code_simp

end
