(* ===== verification/Eth_Http.thy ===== *)
theory Eth_Http
  imports C_Text
begin

text \<open>
  \<open>apps/eth_probe/proto_http\<close>: the start line and header block of HTTP messages. Strings of the message
  are lists of its bytes; the header block is an offset and a length in the data.
\<close>

datatype http_error = HTTP_OK | HTTP_NOT_HTTP | HTTP_INCOMPLETE | HTTP_ERR_MALFORMED | HTTP_ERR_URI_TOO_LONG

definition HTTP_MAX_URI :: nat where "HTTP_MAX_URI = 2048"
definition HTTP_MAX_HEADER :: nat where "HTTP_MAX_HEADER = 8192"

record http_message =
  hm_is_request :: bool
  hm_is_response :: bool
  hm_method :: bytes
  hm_uri :: bytes
  hm_status :: u16
  hm_version :: bytes
  hm_header_block :: "(nat \<times> nat) option"
  hm_consumed :: nat
  hm_error :: http_error

definition no_http :: http_message where
  "no_http = \<lparr> hm_is_request = False, hm_is_response = False, hm_method = [], hm_uri = [], hm_status = 0,
     hm_version = [], hm_header_block = None, hm_consumed = 0, hm_error = HTTP_OK \<rparr>"

definition ascii :: "string \<Rightarrow> bytes" where
  "ascii s = map of_char s"

definition chars :: "bytes \<Rightarrow> string" where
  "chars p = map (\<lambda>b. char_of (unat b)) p"

definition http_methods :: "bytes list" where
  "http_methods = map ascii [''GET'', ''POST'', ''PUT'', ''DELETE'', ''HEAD'', ''OPTIONS'', ''PATCH'', ''CONNECT'', ''TRACE'']"

definition starts_with :: "bytes \<Rightarrow> nat \<Rightarrow> bytes \<Rightarrow> bool option" where
  "starts_with d len pre = (if len \<ge> length pre then do { v \<leftarrow> view d 0 (length pre); Some (v = pre) } else Some False)"

function find_header_end :: "bytes \<Rightarrow> nat \<Rightarrow> nat \<Rightarrow> nat option option" where
  "find_header_end d len i =
     (if i + 3 < len
      then do {
        v \<leftarrow> view d i 4;
        if v = [0x0D, 0x0A, 0x0D, 0x0A] then Some (Some i) else find_header_end d len (i + 1) }
      else Some None)"
  by pat_completeness auto
termination
  by (relation "measure (\<lambda>(d, len, i). len - i)") auto

declare find_header_end.simps [simp del]

fun method_at :: "bytes \<Rightarrow> nat \<Rightarrow> bytes list \<Rightarrow> bool option" where
  "method_at d len [] = starts_with d len (ascii ''HTTP/'')"
| "method_at d len (m # ms) =
     (if len > length m
      then do {
        v \<leftarrow> view d 0 (length m);
        if v = m then do { c \<leftarrow> rd8 d (length m); if c = 0x20 then Some True else method_at d len ms }
        else method_at d len ms }
      else method_at d len ms)"

definition looks_like_http :: "bytes option \<Rightarrow> nat \<Rightarrow> bool option" where
  "looks_like_http data len = (case data of None \<Rightarrow> Some False
     | Some d \<Rightarrow> if len < 4 then Some False else method_at d len http_methods)"

text \<open>Positions of a character in a string: the first and the last one.\<close>

definition find_byte :: "u8 \<Rightarrow> bytes \<Rightarrow> nat option" where
  "find_byte c s = (if c \<in> set s then Some (length (takeWhile (\<lambda>x. x \<noteq> c) s)) else None)"

definition rfind_byte :: "u8 \<Rightarrow> bytes \<Rightarrow> nat option" where
  "rfind_byte c s = map_option (\<lambda>i. length s - 1 - i) (find_byte c (rev s))"

text \<open>The start line of a response and of a request.\<close>

definition parse_status_line :: "bytes \<Rightarrow> http_message \<Rightarrow> http_message option" where
  "parse_status_line sl m = (let m = m\<lparr>hm_is_response := True\<rparr> in
     case find_byte 0x20 sl of None \<Rightarrow> Some (m\<lparr>hm_error := HTTP_ERR_MALFORMED\<rparr>)
     | Some sp1 \<Rightarrow>
         if sp1 + 4 > length sl then Some (m\<lparr>hm_error := HTTP_ERR_MALFORMED\<rparr>)
         else do {
           n \<leftarrow> size_sub sp1 5;
           v \<leftarrow> view sl 5 n;
           let status = (case c_strtoul 10 (chars (drop (sp1 + 1) sl)) of None \<Rightarrow> 0 | Some (x, _) \<Rightarrow> ucast x);
           Some (m\<lparr>hm_version := v, hm_status := status\<rparr>) })"

definition parse_request_line :: "bytes \<Rightarrow> http_message \<Rightarrow> http_message option" where
  "parse_request_line sl m = (let m = m\<lparr>hm_is_request := True\<rparr> in
     case (find_byte 0x20 sl, rfind_byte 0x20 sl) of
       (Some sp1, Some sp2) \<Rightarrow>
         if sp2 = sp1 then Some (m\<lparr>hm_error := HTTP_ERR_MALFORMED\<rparr>)
         else do {
           n \<leftarrow> size_sub sp2 (sp1 + 1);
           uri \<leftarrow> view sl (sp1 + 1) n;
           let m = m\<lparr>hm_method := take sp1 sl, hm_uri := uri, hm_version := drop (sp2 + 1) sl\<rparr>;
           if take 5 (hm_version m) \<noteq> ascii ''HTTP/'' then Some (m\<lparr>hm_error := HTTP_ERR_MALFORMED\<rparr>)
           else if length uri > HTTP_MAX_URI then Some (m\<lparr>hm_error := HTTP_ERR_URI_TOO_LONG\<rparr>)
           else Some m }
     | _ \<Rightarrow> Some (m\<lparr>hm_error := HTTP_ERR_MALFORMED\<rparr>))"

definition parse_http :: "bytes option \<Rightarrow> nat \<Rightarrow> http_message option" where
  "parse_http data len = do {
     http \<leftarrow> looks_like_http data len;
     (case data of None \<Rightarrow> Some (no_http\<lparr>hm_error := HTTP_NOT_HTTP\<rparr>) | Some d \<Rightarrow>
       if \<not> http then Some (no_http\<lparr>hm_error := HTTP_NOT_HTTP\<rparr>)
       else do {
         let len = (if len > HTTP_MAX_HEADER then HTTP_MAX_HEADER else len);
         e \<leftarrow> find_header_end d len 0;
         (case e of None \<Rightarrow> Some (no_http\<lparr>hm_error := HTTP_INCOMPLETE\<rparr>)
          | Some hdr_end \<Rightarrow> do {
              hd \<leftarrow> view d 0 hdr_end;
              let line_len = length (takeWhile (\<lambda>c. c \<noteq> 0x0D) hd);
              sl \<leftarrow> view d 0 line_len;
              resp \<leftarrow> starts_with d line_len (ascii ''HTTP/'');
              m \<leftarrow> (if resp then parse_status_line else parse_request_line) sl (no_http\<lparr>hm_consumed := hdr_end + 4\<rparr>);
              let block_off = line_len + 2;
              Some (if hm_error m = HTTP_OK \<and> block_off \<le> hdr_end
                    then m\<lparr>hm_header_block := Some (block_off, hdr_end - block_off)\<rparr> else m) }) }) }"

definition HTTP_ALERT_MALFORMED :: u32 where "HTTP_ALERT_MALFORMED = 0xA001"
definition HTTP_ALERT_URI_TOO_LONG :: u32 where "HTTP_ALERT_URI_TOO_LONG = 0xA002"

subsection \<open>The parser stays inside its data\<close>

lemma find_byte_Some: "find_byte c s = Some i \<Longrightarrow> i < length s \<and> s ! i = c"
proof -
  assume f: "find_byte c s = Some i"
  then have "i = length (takeWhile (\<lambda>x. x \<noteq> c) s)" "c \<in> set s" by (auto simp: find_byte_def split: if_splits)
  moreover from this have "length (takeWhile (\<lambda>x. x \<noteq> c) s) < length s"
    by (metis (mono_tags, lifting) length_takeWhile_le nat_less_le takeWhile_eq_all_conv takeWhile_eq_take take_all_iff le_refl)
  ultimately show ?thesis using nth_length_takeWhile [of "\<lambda>x. x \<noteq> c" s] by simp
qed

lemma find_byte_first: "find_byte c s = Some i \<Longrightarrow> j < i \<Longrightarrow> s ! j \<noteq> c"
  using nth_mem [of j "takeWhile (\<lambda>x. x \<noteq> c) s"] takeWhile_nth [of j "\<lambda>x. x \<noteq> c" s]
  by (auto simp: find_byte_def split: if_splits dest: set_takeWhileD)

lemma rfind_byte_Some: "rfind_byte c s = Some i \<Longrightarrow> i < length s \<and> s ! i = c"
  using find_byte_Some [of c "rev s"] by (auto simp: rfind_byte_def rev_nth)

lemma find_rfind: "find_byte c s = Some i \<Longrightarrow> rfind_byte c s = Some j \<Longrightarrow> i \<le> j"
  using find_byte_first [of c s i j] rfind_byte_Some [of c s j] by (auto simp: not_less [symmetric])

lemma starts_with_safe: "len \<le> length d \<Longrightarrow> starts_with d len p = Some (len \<ge> length p \<and> take (length p) d = p)"
  by (auto simp: starts_with_def view_def)

lemma length_http: "length (ascii ''HTTP/'') = 5"
  by (simp add: ascii_def)

lemma method_at_safe:
  "len \<le> length d \<Longrightarrow> method_at d len ms = Some (list_ex (\<lambda>m. len > length m \<and> take (length m) d = m \<and> d ! length m = 0x20) ms \<or>
     (len \<ge> 5 \<and> take 5 d = ascii ''HTTP/''))"
proof (induction ms)
  case Nil
  then show ?case by (simp add: starts_with_safe length_http)
next
  case (Cons m ms)
  then show ?case by (auto simp: view_def rd8_def)
qed

lemma find_header_end_safe:
  "len \<le> length d \<Longrightarrow> \<exists>r. find_header_end d len i = Some r \<and>
     (case r of None \<Rightarrow> True | Some e \<Rightarrow> i \<le> e \<and> e + 4 \<le> len)"
proof (induction d len i rule: find_header_end.induct)
  case (1 d len i)
  show ?case
  proof (cases "i + 3 < len")
    case True
    then have v: "view d i 4 = Some (take 4 (drop i d))" using 1(2) by (simp add: view_def)
    show ?thesis
    proof (cases "take 4 (drop i d) = [0x0D, 0x0A, 0x0D, 0x0A]")
      case hit: True
      then show ?thesis using True v by (simp add: find_header_end.simps [of d len i])
    next
      case miss: False
      then obtain r where "find_header_end d len (i + 1) = Some r"
        "case r of None \<Rightarrow> True | Some e \<Rightarrow> i + 1 \<le> e \<and> e + 4 \<le> len"
        using 1(1) [OF True v miss 1(2)] by blast
      then show ?thesis
        using True v miss by (auto simp: find_header_end.simps [of d len i] split: option.splits)
    qed
  qed (simp add: find_header_end.simps [of d len i])
qed

lemma status_line_safe:
  assumes "take 5 sl = ascii ''HTTP/''"
  shows "\<exists>m'. parse_status_line sl m = Some m' \<and> hm_consumed m' = hm_consumed m \<and>
    hm_header_block m' = hm_header_block m \<and> length (hm_version m') \<le> max (length (hm_version m)) (length sl) \<and>
    hm_uri m' = hm_uri m"
proof -
  have "5 \<le> sp1 \<and> sp1 < length sl" if "find_byte 0x20 sl = Some sp1" for sp1
  proof (rule ccontr)
    assume n: "\<not> (5 \<le> sp1 \<and> sp1 < length sl)"
    have "sp1 < length sl" "sl ! sp1 = 0x20" using find_byte_Some [OF that] by simp_all
    then have "ascii ''HTTP/'' ! sp1 = 0x20" "sp1 < 5" using n assms nth_take [of sp1 5 sl] by auto
    moreover have "sp1 \<in> {0, 1, 2, 3, 4}" using \<open>sp1 < 5\<close> by auto
    ultimately show False by (auto simp: ascii_def)
  qed
  then show ?thesis
    by (auto simp: parse_status_line_def Let_def size_sub_def view_def split: option.splits)
qed

lemma request_line_safe:
  "\<exists>m'. parse_request_line sl m = Some m' \<and> hm_consumed m' = hm_consumed m \<and>
    hm_header_block m' = hm_header_block m \<and> (hm_error m' = HTTP_OK \<longrightarrow> length (hm_uri m') \<le> HTTP_MAX_URI)"
  if "hm_error m = HTTP_OK" "hm_uri m = []"
proof (cases "find_byte 0x20 sl")
  case (Some sp1)
  show ?thesis
  proof (cases "rfind_byte 0x20 sl")
    case sp2: (Some sp2)
    have b: "sp1 \<le> sp2" "sp2 < length sl" using find_rfind [OF Some sp2] rfind_byte_Some [OF sp2] by simp_all
    show ?thesis
    proof (cases "sp2 = sp1")
      case True
      then show ?thesis using Some sp2 by (simp add: parse_request_line_def Let_def)
    next
      case False
      then have "size_sub sp2 (sp1 + 1) = Some (sp2 - (sp1 + 1))"
        "view sl (sp1 + 1) (sp2 - (sp1 + 1)) = Some (take (sp2 - (sp1 + 1)) (drop (sp1 + 1) sl))"
        using b by (simp_all add: size_sub_def view_def)
      then show ?thesis using Some sp2 False that by (auto simp: parse_request_line_def Let_def)
    qed
  qed (simp add: Some parse_request_line_def Let_def)
qed (simp add: parse_request_line_def Let_def)

lemma parse_http_safe:
  assumes "len \<le> length d"
  shows "\<exists>m. parse_http (Some d) len = Some m \<and> hm_consumed m \<le> len \<and>
    (case hm_header_block m of None \<Rightarrow> True | Some (off, n) \<Rightarrow> off + n + 4 = hm_consumed m) \<and>
    (hm_error m = HTTP_OK \<longrightarrow> 4 \<le> hm_consumed m \<and> length (hm_uri m) \<le> HTTP_MAX_URI)"
proof -
  obtain http where h: "looks_like_http (Some d) len = Some http"
    using method_at_safe [OF assms, of http_methods] by (cases "len < 4") (auto simp: looks_like_http_def)
  show ?thesis
  proof (cases http)
    case False
    then show ?thesis using h by (simp add: parse_http_def no_http_def)
  next
    case http: True
    define n where "n = (if len > HTTP_MAX_HEADER then HTTP_MAX_HEADER else len)"
    have n: "n \<le> len" "n \<le> length d" using assms by (auto simp: n_def)
    obtain r where r: "find_header_end d n 0 = Some r" "case r of None \<Rightarrow> True | Some e \<Rightarrow> 0 \<le> e \<and> e + 4 \<le> n"
      using find_header_end_safe [OF n(2), of 0] by blast
    show ?thesis
    proof (cases r)
      case None
      then show ?thesis using h http r by (simp add: parse_http_def n_def [symmetric] no_http_def)
    next
      case (Some e)
      have e: "e + 4 \<le> n" using r(2) Some by simp
      define k where "k = length (takeWhile (\<lambda>c. c \<noteq> 0x0D) (take e d))"
      have k: "k \<le> e" using length_takeWhile_le [of "\<lambda>c. c \<noteq> 0x0D" "take e d"] by (simp add: k_def)
      have v: "view d 0 e = Some (take e d)" "view d 0 k = Some (take k d)" using e n(2) k by (simp_all add: view_def)
      let ?m0 = "no_http\<lparr>hm_consumed := e + 4\<rparr>"
      define resp where "resp \<longleftrightarrow> k \<ge> 5 \<and> take 5 d = ascii ''HTTP/''"
      have sw: "starts_with d k (ascii ''HTTP/'') = Some resp"
        using starts_with_safe [of k d "ascii ''HTTP/''"] k e n(2) by (simp add: resp_def length_http)
      have "\<exists>m. (if resp then parse_status_line else parse_request_line) (take k d) ?m0 = Some m \<and>
          hm_consumed m = e + 4 \<and> hm_header_block m = None \<and> (hm_error m = HTTP_OK \<longrightarrow> length (hm_uri m) \<le> HTTP_MAX_URI)"
      proof (cases resp)
        case True
        then have "take 5 (take k d) = ascii ''HTTP/''" by (simp add: resp_def min_def)
        from status_line_safe [OF this, of ?m0] show ?thesis using True by (auto simp: no_http_def)
      next
        case False
        then show ?thesis using request_line_safe [of ?m0 "take k d"] by (auto simp: no_http_def)
      qed
      then obtain m where m: "(if resp then parse_status_line else parse_request_line) (take k d) ?m0 = Some m"
        "hm_consumed m = e + 4" "hm_header_block m = None" "hm_error m = HTTP_OK \<longrightarrow> length (hm_uri m) \<le> HTTP_MAX_URI"
        by blast
      have "parse_http (Some d) len = Some (if hm_error m = HTTP_OK \<and> k + 2 \<le> e
          then m\<lparr>hm_header_block := Some (k + 2, e - (k + 2))\<rparr> else m)"
        using h http r(1) Some v sw m(1)
        by (simp add: parse_http_def n_def [symmetric] Let_def k_def [symmetric])
      then show ?thesis using m(2-4) e n(1) by auto
    qed
  qed
qed

subsection \<open>Requests and responses are recovered\<close>

lemma header_end_skip:
  assumes "drop i d = h @ 0x0D # 0x0A # c # r" "0x0D \<notin> set h" "c \<noteq> 0x0D" "i + length h + 5 < len" "len \<le> length d"
  shows "find_header_end d len i = find_header_end d len (i + length h + 2)"
  using assms
proof (induction h arbitrary: i)
  case Nil
  have d1: "drop (i + 1) d = 0x0A # c # r" using arg_cong [OF Nil.prems(1), of tl] by (simp add: drop_Suc drop_tl [symmetric])
  have "find_header_end d len i = find_header_end d len (i + 1)"
    using Nil.prems by (subst find_header_end.simps) (simp add: view_def)
  also have "\<dots> = find_header_end d len (i + 2)"
    using Nil.prems d1 by (subst find_header_end.simps) (simp add: view_def)
  finally show ?case by simp
next
  case (Cons x h)
  have d1: "drop (i + 1) d = h @ 0x0D # 0x0A # c # r"
    using arg_cong [OF Cons.prems(1), of tl] by (simp add: drop_Suc drop_tl [symmetric])
  have x: "x \<noteq> 0x0D" "0x0D \<notin> set h" using Cons.prems(2) by auto
  have "find_header_end d len i = find_header_end d len (i + 1)"
    using Cons.prems(1,4,5) x(1) by (subst find_header_end.simps) (simp add: view_def)
  also have "\<dots> = find_header_end d len (i + 1 + length h + 2)"
    using Cons.IH [OF d1 x(2) Cons.prems(3)] Cons.prems(4,5) by simp
  finally show ?case by simp
qed

lemma header_end_here:
  assumes "drop i d = h @ 0x0D # 0x0A # 0x0D # 0x0A # r" "0x0D \<notin> set h" "i + length h + 3 < len" "len \<le> length d"
  shows "find_header_end d len i = Some (Some (i + length h))"
  using assms
proof (induction h arbitrary: i)
  case Nil
  then show ?case by (subst find_header_end.simps) (simp add: view_def)
next
  case (Cons x h)
  have d1: "drop (i + 1) d = h @ 0x0D # 0x0A # 0x0D # 0x0A # r"
    using arg_cong [OF Cons.prems(1), of tl] by (simp add: drop_Suc drop_tl [symmetric])
  have x: "x \<noteq> 0x0D" "0x0D \<notin> set h" using Cons.prems(2) by auto
  have "find_header_end d len i = find_header_end d len (i + 1)"
    using Cons.prems(1,3,4) x(1) by (subst find_header_end.simps) (simp add: view_def)
  then show ?case using Cons.IH [OF d1 x(2)] Cons.prems(3,4) by simp
qed

text \<open>The start line and the header lines of a message, each with its line break, and the blank line.\<close>

definition crlf :: bytes where "crlf = [0x0D, 0x0A]"

definition http_lines :: "bytes list \<Rightarrow> bytes" where
  "http_lines ls = concat (map (\<lambda>l. l @ crlf) ls)"

definition line_ok :: "bytes \<Rightarrow> bool" where
  "line_ok l \<longleftrightarrow> l \<noteq> [] \<and> 0x0D \<notin> set l"

lemma header_end_lines:
  "ls \<noteq> [] \<Longrightarrow> list_all line_ok ls \<Longrightarrow> drop i d = http_lines ls @ crlf @ r \<Longrightarrow>
     i + length (http_lines ls) + 2 \<le> len \<Longrightarrow> len \<le> length d \<Longrightarrow>
     find_header_end d len i = Some (Some (i + length (http_lines ls) - 2))"
proof (induction ls arbitrary: i)
  case (Cons l ls)
  have l: "0x0D \<notin> set l" using Cons.prems(2) by (simp add: line_ok_def)
  show ?case
  proof (cases ls)
    case Nil
    have "drop i d = l @ 0x0D # 0x0A # 0x0D # 0x0A # r" using Cons.prems(3) Nil by (simp add: http_lines_def crlf_def)
    from header_end_here [OF this l] show ?thesis
      using Cons.prems(4,5) Nil by (simp add: http_lines_def crlf_def)
  next
    case (Cons m ms)
    then obtain c m' where m: "m = c # m'" "c \<noteq> 0x0D" using Cons.prems(2) by (cases m) (auto simp: line_ok_def)
    have dr: "drop i d = l @ 0x0D # 0x0A # c # m' @ crlf @ http_lines ms @ crlf @ r"
      using Cons.prems(3) Cons m by (simp add: http_lines_def crlf_def)
    have next_d: "drop (i + length l + 2) d = http_lines ls @ crlf @ r"
      using arg_cong [OF Cons.prems(3), of "drop (length l + 2)"] by (simp add: http_lines_def crlf_def add.commute)
    have "find_header_end d len i = find_header_end d len (i + length l + 2)"
      using header_end_skip [OF dr l m(2)] Cons.prems(4,5) Cons m by (simp add: http_lines_def crlf_def)
    also have "\<dots> = Some (Some (i + length l + 2 + length (http_lines ls) - 2))"
      by (rule Cons.IH [OF _ _ next_d]) (use Cons.prems Cons in \<open>auto simp: http_lines_def crlf_def\<close>)
    finally show ?thesis by (simp add: http_lines_def crlf_def add.commute add.left_commute)
  qed
qed simp

lemma find_byte_append: "c \<notin> set a \<Longrightarrow> find_byte c (a @ c # b) = Some (length a)"
  by (auto simp: find_byte_def takeWhile_append)

lemma rfind_byte_append: "c \<notin> set b \<Longrightarrow> rfind_byte c (a @ c # b) = Some (length a)"
  using find_byte_append [of c "rev b" "rev a"] by (simp add: rfind_byte_def)

definition request_line :: "bytes \<Rightarrow> bytes \<Rightarrow> bytes \<Rightarrow> bytes" where
  "request_line method uri version = method @ 0x20 # uri @ 0x20 # version"

lemma http_methods_plain: "m \<in> set http_methods \<Longrightarrow> 0x20 \<notin> set m \<and> 3 \<le> length m \<and> take 5 (m @ 0x20 # r) \<noteq> ascii ''HTTP/''"
  by (auto simp: http_methods_def ascii_def)

lemma request_recognised:
  assumes "method \<in> set http_methods"
  shows "looks_like_http (Some (request_line method uri version @ r)) (length (request_line method uri version @ r)) = Some True"
proof -
  let ?d = "request_line method uri version @ r"
  note me = http_methods_plain [OF assms]
  have "length method < length ?d" "take (length method) ?d = method" "?d ! length method = 0x20"
    by (simp_all add: request_line_def nth_append)
  then have "list_ex (\<lambda>m. length ?d > length m \<and> take (length m) ?d = m \<and> ?d ! length m = 0x20) http_methods"
    unfolding list_ex_iff using assms by (intro bexI [where x = "method"]) auto
  then show ?thesis
    using method_at_safe [of "length ?d" ?d http_methods] conjunct1 [OF conjunct2 [OF me]]
    by (simp add: looks_like_http_def request_line_def)
qed

lemma request_line_read:
  assumes "method \<in> set http_methods" "length uri \<le> HTTP_MAX_URI" "0x20 \<notin> set version" "take 5 version = ascii ''HTTP/''"
  shows "parse_request_line (request_line method uri version) m =
    Some (m\<lparr>hm_is_request := True, hm_method := method, hm_uri := uri, hm_version := version\<rparr>)"
proof -
  let ?l = "request_line method uri version"
  have f: "find_byte 0x20 ?l = Some (length method)"
    using http_methods_plain [OF assms(1)] by (simp add: request_line_def find_byte_append)
  have rf: "rfind_byte 0x20 ?l = Some (length method + 1 + length uri)"
    using rfind_byte_append [where c = "0x20" and b = version and a = "method @ 0x20 # uri"] assms(3) by (simp add: request_line_def)
  show ?thesis
    unfolding parse_request_line_def Let_def f rf option.case prod.case
    using assms(2,4) by (simp add: size_sub_def view_def request_line_def)
qed

lemma start_line_cut:
  assumes "line_ok l" "length l \<le> e"
  shows "takeWhile (\<lambda>c. c \<noteq> 0x0D) (take e (l @ 0x0D # r)) = l"
proof (cases "e = length l")
  case True
  then show ?thesis using assms(1) by (auto simp: line_ok_def takeWhile_eq_all_conv)
next
  case False
  then have "take e (l @ 0x0D # r) = l @ 0x0D # take (e - length l - 1) r" using assms(2) by (simp add: take_Cons')
  then show ?thesis using assms(1) by (auto simp: line_ok_def takeWhile_append)
qed

text \<open>
  The parser never reads outside its data, whatever they are, and consumes at most them. From a
  request with one of the known methods, whatever comes after it, it recovers method, URI (blanks
  included), version and the exact place of the header lines, and consumes the message up to the end of
  its header.
\<close>

lemma http_request_parsed:
  assumes "method \<in> set http_methods" "0x0D \<notin> set uri" "length uri \<le> HTTP_MAX_URI"
    "list_all line_ok headers" "0x20 \<notin> set version" "0x0D \<notin> set version" "take 5 version = ascii ''HTTP/''"
    and m: "msg = http_lines (request_line method uri version # headers) @ crlf"
    and len: "length msg \<le> HTTP_MAX_HEADER"
  shows "parse_http (Some (msg @ rest)) (length (msg @ rest)) = Some (no_http\<lparr>hm_is_request := True,
      hm_method := method, hm_uri := uri, hm_version := version, hm_consumed := length msg, hm_header_block := (if headers = [] then None
        else Some (length (request_line method uri version) + 2, length (http_lines headers) - 2))\<rparr>) \<and>
    (\<forall>d n. n \<le> length d \<longrightarrow> (\<exists>m. parse_http (Some d) n = Some m \<and> hm_consumed m \<le> n))"
proof
  show "\<forall>d n. n \<le> length d \<longrightarrow> (\<exists>m. parse_http (Some d) n = Some m \<and> hm_consumed m \<le> n)"
    using parse_http_safe by blast
  let ?l = "request_line method uri version" and ?d = "msg @ rest"
  note me = http_methods_plain [OF assms(1)]
  have meth: "0x0D \<notin> set method" using assms(1) by (auto simp: http_methods_def ascii_def)
  have l: "line_ok ?l"
    using meth assms(2,6) by (auto simp: line_ok_def request_line_def)
  have msg: "msg = ?l @ 0x0D # 0x0A # http_lines headers @ crlf" by (simp add: m http_lines_def crlf_def)
  have d: "?d = ?l @ 0x0D # 0x0A # http_lines headers @ crlf @ rest" by (simp add: msg)
  have len_l: "length ?l + 4 \<le> length msg" by (simp add: msg crlf_def)
  have http: "looks_like_http (Some ?d) (length ?d) = Some True"
    unfolding d by (rule request_recognised [OF assms(1)])
  define n where "n = (if length ?d > HTTP_MAX_HEADER then HTTP_MAX_HEADER else length ?d)"
  have n: "length msg \<le> n" "n \<le> length ?d" using len by (auto simp: n_def)
  define e where "e = length msg - 4"
  have e: "find_header_end ?d n 0 = Some (Some e)"
    using header_end_lines [of "?l # headers" 0 ?d rest n] l assms(4) n
    by (simp add: m e_def crlf_def)
  have ge: "length ?l \<le> e" using len_l by (simp add: e_def)
  have tw: "takeWhile (\<lambda>c. c \<noteq> 0x0D) (take e ?d) = ?l"
    unfolding d by (rule start_line_cut [OF l ge])
  have el: "e + 4 \<le> length ?d" using len_l by (simp add: e_def)
  have v: "view ?d 0 e = Some (take e ?d)" "view ?d 0 (length ?l) = Some ?l"
  proof -
    have "take (length ?l) ?d = ?l" unfolding d by simp
    then show "view ?d 0 e = Some (take e ?d)" "view ?d 0 (length ?l) = Some ?l" using el ge by (simp_all add: view_def)
  qed
  have "take 5 ?d \<noteq> ascii ''HTTP/''" using me by (simp add: d request_line_def)
  then have sw: "starts_with ?d (length ?l) (ascii ''HTTP/'') = Some False"
    using starts_with_safe [of "length ?l" ?d "ascii ''HTTP/''"] len_l by (simp add: length_http)
  note line = request_line_read [OF assms(1,3,5,7)]
  have cons: "e + 4 = length msg" using len_l by (simp add: e_def)
  have blk: "length ?l + 2 \<le> e \<longleftrightarrow> headers \<noteq> []"
  proof (cases headers)
    case (Cons h hs)
    then show ?thesis using assms(4) by (cases h) (auto simp: e_def msg crlf_def http_lines_def line_ok_def)
  qed (simp add: e_def msg crlf_def http_lines_def)
  have blk_len: "headers \<noteq> [] \<Longrightarrow> e - (length ?l + 2) = length (http_lines headers) - 2"
    by (simp add: e_def msg crlf_def)
  show "parse_http (Some ?d) (length ?d) = Some (no_http\<lparr>hm_is_request := True,
      hm_method := method, hm_uri := uri, hm_version := version, hm_consumed := length msg, hm_header_block := (if headers = [] then None
        else Some (length ?l + 2, length (http_lines headers) - 2))\<rparr>)"
    unfolding parse_http_def http bind.bind_lunit option.case Let_def n_def [symmetric] e v(1) tw v(2) sw if_False line not_True_eq_False
    using blk blk_len cons by (auto simp: no_http_def)
qed

end
