(* ===== verification/Block_Hash.thy ===== *)
theory Block_Hash
  imports Idsm_Prelude
begin

text \<open>
  What the two incremental hashes of the program, \<open>apps/eth_probe/md5\<close> and \<open>apps/host_probe/sha256\<close>, share: the
  loop that fills a buffer of 64 bytes and compresses it, the padding loop, and the contract from which the
  digest of a message follows whatever pieces it comes in.
\<close>

text \<open>
  The loop of an update over the chaining value and the filled part of the buffer. The code keeps fewer than 64
  bytes in it; a state with more is \<open>None\<close>.
\<close>

function block_feed :: "('st \<Rightarrow> bytes \<Rightarrow> 'st) \<Rightarrow> bytes \<Rightarrow> 'st \<times> bytes \<Rightarrow> ('st \<times> bytes) option" where
  "block_feed compress data (st, buf) =
     (if data = [] then Some (st, buf)
      else if length buf \<ge> 64 then None
      else let n = min (64 - length buf) (length data); buf = buf @ take n data in
        block_feed compress (drop n data) (if length buf = 64 then (compress st buf, []) else (st, buf)))"
  by pat_completeness auto
termination
  by (relation "measure (\<lambda>(_, data, _). length data)") auto

declare block_feed.simps [simp del]

text \<open>The padding loop: zeros until the buffer has 56 bytes, at most 64 of them.\<close>

fun pad_zeros :: "(bytes \<Rightarrow> 'c \<Rightarrow> 'c option) \<Rightarrow> ('c \<Rightarrow> bytes) \<Rightarrow> nat \<Rightarrow> 'c \<Rightarrow> 'c option" where
  "pad_zeros update buf 0 c = None"
| "pad_zeros update buf (Suc fuel) c =
     (if length (buf c) = 56 then Some c else do { c \<leftarrow> update [0] c; pad_zeros update buf fuel c })"

fun update_all :: "(bytes \<Rightarrow> 'c \<Rightarrow> 'c option) \<Rightarrow> bytes list \<Rightarrow> 'c \<Rightarrow> 'c option" where
  "update_all update [] c = Some c"
| "update_all update (p # ps) c = do { c \<leftarrow> update p c; update_all update ps c }"

text \<open>Folding the compression over the blocks of a message; the rest is what is left over.\<close>

function hash_blocks :: "('st \<Rightarrow> bytes \<Rightarrow> 'st) \<Rightarrow> 'st \<Rightarrow> bytes \<Rightarrow> 'st \<times> bytes" where
  "hash_blocks compress st p =
     (if length p < 64 then (st, p) else hash_blocks compress (compress st (take 64 p)) (drop 64 p))"
  by pat_completeness auto
termination
  by (relation "measure (\<lambda>(_, _, p). length p)") auto

declare hash_blocks.simps [simp del]

lemma hash_blocks_short: "length p < 64 \<Longrightarrow> hash_blocks compress st p = (st, p)"
  by (simp add: hash_blocks.simps)

lemma hash_blocks_one: "length p = 64 \<Longrightarrow> hash_blocks compress st p = (compress st p, [])"
  by (subst hash_blocks.simps) (simp add: hash_blocks_short)

lemma hash_blocks_rest: "length (snd (hash_blocks compress st p)) = length p mod 64"
proof (induction compress st p rule: hash_blocks.induct)
  case (1 compress st p)
  then show ?case by (subst hash_blocks.simps) (simp add: le_mod_geq)
qed

lemma hash_blocks_append:
  "hash_blocks compress st (p @ q) = (case hash_blocks compress st p of (st, r) \<Rightarrow> hash_blocks compress st (r @ q))"
proof (induction compress st p rule: hash_blocks.induct)
  case (1 compress st p)
  show ?case
  proof (cases "length p < 64")
    case True
    then show ?thesis by (simp add: hash_blocks_short)
  next
    case False
    then have "hash_blocks compress st (p @ q) = hash_blocks compress (compress st (take 64 p)) (drop 64 p @ q)"
      by (subst hash_blocks.simps) simp
    then show ?thesis using 1 False by (simp add: hash_blocks.simps [of compress st p])
  qed
qed

lemma hash_blocks_then: "hash_blocks compress st p = (st', r) \<Longrightarrow> hash_blocks compress st (p @ q) = hash_blocks compress st' (r @ q)"
  by (subst hash_blocks_append) simp

lemma block_feed_blocks: "length buf < 64 \<Longrightarrow> block_feed compress data (st, buf) = Some (hash_blocks compress st (buf @ data))"
proof (induction "length data" arbitrary: data st buf rule: less_induct)
  case less
  show ?case
  proof (cases "data = []")
    case True
    then show ?thesis using less.prems by (simp add: block_feed.simps hash_blocks_short)
  next
    case False
    define n where "n = min (64 - length buf) (length data)"
    define b where "b = buf @ take n data"
    have b: "length b \<le> 64" "buf @ data = b @ drop n data" "length (drop n data) < length data"
      using less.prems False by (auto simp: b_def n_def)
    have step: "block_feed compress data (st, buf) =
        block_feed compress (drop n data) (if length b = 64 then (compress st b, []) else (st, b))"
      using False less.prems by (subst block_feed.simps) (simp add: n_def b_def Let_def)
    show ?thesis
    proof (cases "length b = 64")
      case True
      then have "hash_blocks compress st (b @ drop n data) = hash_blocks compress (compress st b) ([] @ drop n data)"
        by (intro hash_blocks_then) (rule hash_blocks_one)
      then show ?thesis using True step less.hyps [OF b(3), of "[]" "compress st b"] by (simp add: b(2))
    next
      case False
      then show ?thesis using step less.hyps [OF b(3), of b st] b by simp
    qed
  qed
qed

text \<open>
  The contract of an incremental hash: a state gives its chaining value and its buffer, and an update leads to the
  chaining value and the rest of the bytes so far.
\<close>

locale block_hash =
  fixes compress :: "'st \<Rightarrow> bytes \<Rightarrow> 'st" and update :: "bytes \<Rightarrow> 'c \<Rightarrow> 'c option" and chain :: "'c \<Rightarrow> 'st" and buf :: "'c \<Rightarrow> bytes"
  assumes updated: "length (buf c) < 64 \<Longrightarrow> \<exists>c'. update data c = Some c' \<and>
    (chain c', buf c') = hash_blocks compress (chain c) (buf c @ data)"
begin

lemma buf_length: "(chain c', buf c') = hash_blocks compress st p \<Longrightarrow> length (buf c') = length p mod 64"
  using hash_blocks_rest [of compress st p] by (metis snd_conv)

lemma all_updated:
  "length (buf c) < 64 \<Longrightarrow> \<exists>c'. update_all update ps c = Some c' \<and>
    (chain c', buf c') = hash_blocks compress (chain c) (buf c @ concat ps)"
proof (induction ps arbitrary: c)
  case Nil
  then show ?case by (simp add: hash_blocks_short)
next
  case (Cons p ps)
  obtain c1 where c1: "update p c = Some c1" "(chain c1, buf c1) = hash_blocks compress (chain c) (buf c @ p)"
    using updated [OF Cons.prems, of p] by blast
  have "length (buf c1) < 64" using buf_length [OF c1(2)] by simp
  then obtain c' where "update_all update ps c1 = Some c'" "(chain c', buf c') = hash_blocks compress (chain c1) (buf c1 @ concat ps)"
    using Cons.IH by blast
  moreover have "hash_blocks compress (chain c) ((buf c @ p) @ concat ps) = hash_blocks compress (chain c1) (buf c1 @ concat ps)"
    using c1(2) by (intro hash_blocks_then) simp
  ultimately show ?case using c1(1) by simp
qed

lemma zeros_filled:
  "length (buf c) < 64 \<Longrightarrow> (length (buf c) + k) mod 64 = 56 \<Longrightarrow> k < fuel \<Longrightarrow> k < 64 \<Longrightarrow>
     \<exists>c'. pad_zeros update buf fuel c = Some c' \<and> (chain c', buf c') = hash_blocks compress (chain c) (buf c @ replicate k 0)"
proof (induction k arbitrary: fuel c)
  case 0
  then obtain f where "fuel = Suc f" by (cases fuel) auto
  then show ?case using 0 by (simp add: hash_blocks_short)
next
  case (Suc k)
  then obtain f where f: "fuel = Suc f" by (cases fuel) auto
  have ne: "length (buf c) \<noteq> 56" using Suc.prems(2,4) by (auto simp: mod_if split: if_splits)
  obtain c1 where c1: "update [0] c = Some c1" "(chain c1, buf c1) = hash_blocks compress (chain c) (buf c @ [0])"
    using updated [OF Suc.prems(1), of "[0]"] by blast
  have r: "length (buf c1) = (length (buf c) + 1) mod 64" using buf_length [OF c1(2)] by simp
  have "(length (buf c1) + k) mod 64 = 56" using Suc.prems(2) unfolding r by (simp add: mod_simps)
  then obtain c' where "pad_zeros update buf f c1 = Some c'"
    "(chain c', buf c') = hash_blocks compress (chain c1) (buf c1 @ replicate k 0)"
    using Suc.IH [of c1 f] Suc.prems(3,4) r f by auto
  moreover have "hash_blocks compress (chain c) ((buf c @ [0]) @ replicate k 0) = hash_blocks compress (chain c1) (buf c1 @ replicate k 0)"
    using c1(2) by (intro hash_blocks_then) simp
  ultimately show ?case using ne c1(1) f by auto
qed

text \<open>The padding of a message of \<open>n\<close> bytes up to its length field.\<close>

lemma padded:
  assumes "buf c = []" "(chain c1, buf c1) = hash_blocks compress (chain c) msg"
  shows "\<exists>c2 c3. update [0x80] c1 = Some c2 \<and> pad_zeros update buf 64 c2 = Some c3 \<and> length (buf c3) = 56 \<and>
    (chain c3, buf c3) = hash_blocks compress (chain c) (msg @ [0x80] @ replicate ((119 - length msg mod 64) mod 64) 0)"
proof -
  let ?k = "(119 - length msg mod 64) mod 64"
  have l1: "length (buf c1) = length msg mod 64" by (rule buf_length [OF assms(2)])
  then have "length (buf c1) < 64" by simp
  then obtain c2 where c2: "update [0x80] c1 = Some c2" "(chain c2, buf c2) = hash_blocks compress (chain c1) (buf c1 @ [0x80])"
    using updated by blast
  have l2: "length (buf c2) = (length msg mod 64 + 1) mod 64" using buf_length [OF c2(2)] l1 by simp
  have round: "m < 64 \<Longrightarrow> ((m + 1) mod 64 + (119 - m) mod 64) mod 64 = 56" for m :: nat
    by (simp add: mod_add_eq)
  have k: "(length (buf c2) + ?k) mod 64 = 56" unfolding l2 by (rule round) simp
  have "length (buf c2) < 64" using l2 by simp
  then obtain c3 where c3: "pad_zeros update buf 64 c2 = Some c3"
    "(chain c3, buf c3) = hash_blocks compress (chain c2) (buf c2 @ replicate ?k 0)"
    using zeros_filled [of c2 ?k 64] k by auto
  have "length (buf c3) = 56" using buf_length [OF c3(2)] k by simp
  moreover have "hash_blocks compress (chain c) (msg @ [0x80] @ replicate ?k 0) = hash_blocks compress (chain c2) (buf c2 @ replicate ?k 0)"
    using hash_blocks_then [OF assms(2) [symmetric], of "[0x80] @ replicate ?k 0"]
      hash_blocks_then [OF c2(2) [symmetric], of "replicate ?k 0"] by simp
  ultimately show ?thesis using c2(1) c3 by auto
qed

end

end
