(* ===== verification/Eth_Md5.thy ===== *)
theory Eth_Md5
  imports Block_Hash
begin

text \<open>
  \<open>apps/eth_probe/md5\<close>: the incremental MD5 of the TLS fingerprint. The buffer is the list of its
  \<open>buf_len_\<close> bytes. The loops are those of \<open>Block_Hash\<close>, whose contract the hash is an interpretation of.
\<close>

definition rotl :: "u32 \<Rightarrow> nat \<Rightarrow> u32" where
  "rotl x n = push_bit n x OR drop_bit (32 - n) x"

definition md5_S :: "nat list" where
  "md5_S = concat (replicate 4 [7, 12, 17, 22]) @ concat (replicate 4 [5, 9, 14, 20]) @
     concat (replicate 4 [4, 11, 16, 23]) @ concat (replicate 4 [6, 10, 15, 21])"

definition md5_K :: "u32 list" where
  "md5_K = [
    0xd76aa478, 0xe8c7b756, 0x242070db, 0xc1bdceee, 0xf57c0faf, 0x4787c62a, 0xa8304613, 0xfd469501,
    0x698098d8, 0x8b44f7af, 0xffff5bb1, 0x895cd7be, 0x6b901122, 0xfd987193, 0xa679438e, 0x49b40821,
    0xf61e2562, 0xc040b340, 0x265e5a51, 0xe9b6c7aa, 0xd62f105d, 0x02441453, 0xd8a1e681, 0xe7d3fbc8,
    0x21e1cde6, 0xc33707d6, 0xf4d50d87, 0x455a14ed, 0xa9e3e905, 0xfcefa3f8, 0x676f02d9, 0x8d2a4c8a,
    0xfffa3942, 0x8771f681, 0x6d9d6122, 0xfde5380c, 0xa4beea44, 0x4bdecfa9, 0xf6bb4b60, 0xbebfbc70,
    0x289b7ec6, 0xeaa127fa, 0xd4ef3085, 0x04881d05, 0xd9d4d039, 0xe6db99e5, 0x1fa27cf8, 0xc4ac5665,
    0xf4292244, 0x432aff97, 0xab9423a7, 0xfc93a039, 0x655b59c3, 0x8f0ccc92, 0xffeff47d, 0x85845dd1,
    0x6fa87e4f, 0xfe2ce6e0, 0xa3014314, 0x4e0811a1, 0xf7537e82, 0xbd3af235, 0x2ad7d2bb, 0xeb86d391]"

type_synonym md5_state = "u32 \<times> u32 \<times> u32 \<times> u32"

definition le32 :: "bytes \<Rightarrow> nat \<Rightarrow> u32" where
  "le32 block i = ucast (block ! (i * 4)) OR push_bit 8 (ucast (block ! (i * 4 + 1))) OR
     push_bit 16 (ucast (block ! (i * 4 + 2))) OR push_bit 24 (ucast (block ! (i * 4 + 3)))"

definition md5_round :: "u32 list \<Rightarrow> nat \<Rightarrow> md5_state \<Rightarrow> md5_state" where
  "md5_round m i st = (case st of (a, b, c, d) \<Rightarrow> let
     (f, g) = (if i < 16 then ((b AND c) OR (NOT b AND d), i)
               else if i < 32 then ((d AND b) OR (NOT d AND c), (5 * i + 1) mod 16)
               else if i < 48 then (b XOR c XOR d, (3 * i + 5) mod 16)
               else (c XOR (b OR NOT d), (7 * i) mod 16))
     in (d, b + rotl (a + f + md5_K ! i + m ! g) (md5_S ! i), b, c))"

definition md5_transform :: "md5_state \<Rightarrow> bytes \<Rightarrow> md5_state" where
  "md5_transform st block = (let m = map (le32 block) [0..<16] in
     case (st, fold (md5_round m) [0..<64] st) of
       ((a0, b0, c0, d0), (a, b, c, d)) \<Rightarrow> (a0 + a, b0 + b, c0 + c, d0 + d))"

record md5 =
  m5_state :: md5_state
  m5_bits :: u64
  m5_buf :: bytes

definition md5_new :: md5 where
  "md5_new = \<lparr> m5_state = (0x67452301, 0xefcdab89, 0x98badcfe, 0x10325476), m5_bits = 0, m5_buf = [] \<rparr>"

text \<open>The loop of \<open>update\<close>.\<close>

definition md5_feed :: "bytes \<Rightarrow> md5 \<Rightarrow> md5 option" where
  "md5_feed data s = map_option (\<lambda>(st, buf). s\<lparr>m5_state := st, m5_buf := buf\<rparr>)
     (block_feed md5_transform data (m5_state s, m5_buf s))"

definition md5_update :: "bytes \<Rightarrow> md5 \<Rightarrow> md5 option" where
  "md5_update data s = md5_feed data (s\<lparr>m5_bits := m5_bits s + of_nat (length data) * 8\<rparr>)"

definition le_bytes64 :: "u64 \<Rightarrow> bytes" where
  "le_bytes64 n = map (\<lambda>i. ucast (drop_bit (8 * i) n)) [0..<8]"

definition le_bytes32 :: "u32 \<Rightarrow> bytes" where
  "le_bytes32 n = map (\<lambda>i. ucast (drop_bit (8 * i) n)) [0..<4]"

definition md5_final :: "md5 \<Rightarrow> (bytes \<times> md5) option" where
  "md5_final s = (let total_bits = m5_bits s in do {
     s \<leftarrow> md5_update [0x80] s;
     s \<leftarrow> pad_zeros md5_update m5_buf 64 s;
     let st = md5_transform (m5_state s) (m5_buf s @ le_bytes64 total_bits);
     let out = (case st of (a, b, c, d) \<Rightarrow> le_bytes32 a @ le_bytes32 b @ le_bytes32 c @ le_bytes32 d);
     Some (out, s\<lparr>m5_state := st, m5_buf := []\<rparr>) })"

definition hex_lower :: "nat \<Rightarrow> char" where
  "hex_lower n = ''0123456789abcdef'' ! n"

definition md5_final_hex :: "md5 \<Rightarrow> string option" where
  "md5_final_hex s = do {
     (out, _) \<leftarrow> md5_final s;
     Some (concat (map (\<lambda>b. [hex_lower (unat b div 16), hex_lower (unat b mod 16)]) out)) }"

subsection \<open>The incremental hash is the hash of the whole message\<close>

interpretation md5_hash: block_hash md5_transform md5_update m5_state m5_buf
proof
  fix c :: md5 and data
  assume "length (m5_buf c) < 64"
  then show "\<exists>c'. md5_update data c = Some c' \<and> (m5_state c', m5_buf c') = hash_blocks md5_transform (m5_state c) (m5_buf c @ data)"
    by (cases "hash_blocks md5_transform (m5_state c) (m5_buf c @ data)")
      (simp add: md5_update_def md5_feed_def block_feed_blocks)
qed

text \<open>The number of bits, modulo \<open>2 ^ 64\<close>.\<close>

lemma md5_update_bits: "md5_update p s = Some s' \<Longrightarrow> m5_bits s' = m5_bits s + of_nat (length p) * 8"
  by (auto simp: md5_update_def md5_feed_def)

lemma md5_all_bits: "update_all md5_update ps s = Some s' \<Longrightarrow> m5_bits s' = m5_bits s + of_nat (length (concat ps)) * 8"
proof (induction ps arbitrary: s)
  case (Cons p ps)
  then show ?case by (auto simp: bind_eq_Some_conv dest!: md5_update_bits)
qed simp

text \<open>The message with its padding and its length in bits.\<close>

definition md5_padded :: "bytes \<Rightarrow> bytes" where
  "md5_padded msg = msg @ [0x80] @ replicate ((119 - length msg mod 64) mod 64) 0 @ le_bytes64 (of_nat (length msg) * 8)"

definition md5_digest :: "bytes \<Rightarrow> bytes" where
  "md5_digest msg = (case fst (hash_blocks md5_transform (m5_state md5_new) (md5_padded msg)) of
     (a, b, c, d) \<Rightarrow> le_bytes32 a @ le_bytes32 b @ le_bytes32 c @ le_bytes32 d)"

lemma md5_pieces:
  "\<exists>s s'. update_all md5_update ps md5_new = Some s \<and> md5_final s = Some (md5_digest (concat ps), s')"
proof -
  let ?msg = "concat ps" and ?len = "le_bytes64 (of_nat (length (concat ps)) * 8)"
  have new: "m5_buf md5_new = []" "m5_bits md5_new = 0" by (simp_all add: md5_new_def)
  obtain s where s: "update_all md5_update ps md5_new = Some s"
    "(m5_state s, m5_buf s) = hash_blocks md5_transform (m5_state md5_new) ?msg"
    using md5_hash.all_updated [of md5_new ps] by (auto simp: new)
  have bits: "m5_bits s = of_nat (length ?msg) * 8" using md5_all_bits [OF s(1)] by (simp add: new)
  obtain s2 s3 where p: "md5_update [0x80] s = Some s2" "pad_zeros md5_update m5_buf 64 s2 = Some s3" "length (m5_buf s3) = 56"
    "(m5_state s3, m5_buf s3) = hash_blocks md5_transform (m5_state md5_new)
      (?msg @ [0x80] @ replicate ((119 - length ?msg mod 64) mod 64) 0)"
    using md5_hash.padded [OF new(1) s(2)] by blast
  have l: "length (m5_buf s3 @ ?len) = 64" using p(3) by (simp add: le_bytes64_def)
  have "hash_blocks md5_transform (m5_state md5_new) (md5_padded ?msg) = hash_blocks md5_transform (m5_state s3) (m5_buf s3 @ ?len)"
    using hash_blocks_then [OF p(4) [symmetric], of ?len] by (simp add: md5_padded_def)
  then have whole: "fst (hash_blocks md5_transform (m5_state md5_new) (md5_padded ?msg)) = md5_transform (m5_state s3) (m5_buf s3 @ ?len)"
    by (simp add: hash_blocks_one [OF l])
  have "\<exists>s'. md5_final s = Some (md5_digest ?msg, s')"
    using p(1,2) by (simp add: md5_final_def Let_def bits md5_digest_def whole)
  then show ?thesis using s(1) by blast
qed

lemma md5_one_shot: "\<exists>s s'. md5_update p md5_new = Some s \<and> md5_final s = Some (md5_digest p, s')"
  using md5_pieces [of "[p]"] by (auto simp: bind_eq_Some_conv)

text \<open>
  C37: however a message is cut into pieces, hashing them one after the other ends and gives the MD5 digest
  of the whole message: the compression function over the blocks of the message with its padding.
\<close>

theorem md5_incremental:
  "\<exists>s s'. update_all md5_update ps md5_new = Some s \<and> md5_final s = Some (md5_digest (concat ps), s')"
  by (rule md5_pieces)

text \<open>The first test vectors of RFC 1321, for the empty message and for \<open>a\<close>.\<close>

lemma md5_rfc_vectors:
  "md5_digest [] = [0xd4, 0x1d, 0x8c, 0xd9, 0x8f, 0x00, 0xb2, 0x04, 0xe9, 0x80, 0x09, 0x98, 0xec, 0xf8, 0x42, 0x7e]"
  "md5_digest [0x61] = [0x0c, 0xc1, 0x75, 0xb9, 0xc0, 0xf1, 0xb6, 0xa8, 0x31, 0xc3, 0x99, 0xe2, 0x69, 0x77, 0x26, 0x61]"
  by code_simp+

end
