(* ===== verification/Eth_Tls.thy ===== *)
theory Eth_Tls
  imports C_Text Eth_Md5
begin

text \<open>
  \<open>apps/eth_probe/proto_tls\<close>: the metadata of a TLS ClientHello and its JA3 fingerprint. The reading
  position is an offset into the data with the bytes that remain; every read is checked.
\<close>

datatype tls_error = TLS_OK | TLS_NOT_TLS | TLS_ERR_TRUNCATED | TLS_ERR_NOT_CLIENTHELLO | TLS_ERR_MALFORMED

record client_hello =
  ch_valid :: bool
  ch_record_version :: u16
  ch_client_version :: u16
  ch_sni :: bytes
  ch_ja3 :: string
  ch_ja3_hash :: string
  ch_consumed :: nat
  ch_error :: tls_error

definition no_hello :: client_hello where
  "no_hello = \<lparr> ch_valid = False, ch_record_version = 0, ch_client_version = 0, ch_sni = [], ch_ja3 = [],
     ch_ja3_hash = [], ch_consumed = 0, ch_error = TLS_OK \<rparr>"

definition is_grease :: "u16 \<Rightarrow> bool" where
  "is_grease v \<longleftrightarrow> v AND 0x0F0F = 0x0A0A \<and> drop_bit 8 v = v AND 0x00FF"

text \<open>The numbers that \<open>append_u16\<close> writes, with dashes between them.\<close>

definition u16_list :: "u16 list \<Rightarrow> string" where
  "u16_list vs = join CHR ''-'' (map (\<lambda>v. dec (unat v)) vs)"

definition looks_like_tls :: "bytes option \<Rightarrow> nat \<Rightarrow> bool option" where
  "looks_like_tls data len = (case data of None \<Rightarrow> Some False
     | Some d \<Rightarrow> if len < 3 then Some False
         else do {
           t \<leftarrow> rd8 d 0;
           if t < 20 \<or> t > 23 then Some False
           else do { v1 \<leftarrow> rd8 d 1; v2 \<leftarrow> rd8 d 2; Some (v1 = 0x03 \<and> v2 \<le> 0x04) } })"

text \<open>The 16-bit numbers at \<open>off + i\<close>, \<open>off + i + 2\<close>, ... that end before \<open>n\<close>, without the GREASE ones.\<close>

function read_u16s :: "bytes \<Rightarrow> nat \<Rightarrow> nat \<Rightarrow> nat \<Rightarrow> u16 list option" where
  "read_u16s d off n i =
     (if i + 1 < n
      then do { v \<leftarrow> rd16 d (off + i); vs \<leftarrow> read_u16s d off n (i + 2);
                Some (if is_grease v then vs else v # vs) }
      else Some [])"
  by pat_completeness auto
termination
  by (relation "measure (\<lambda>(d, off, n, i). n - i)") auto

declare read_u16s.simps [simp del]

text \<open>What the extensions contribute: their types, groups and formats in order, and the server name.\<close>

record ext_info =
  ei_types :: "u16 list"
  ei_groups :: "u16 list"
  ei_formats :: "u16 list"
  ei_sni :: bytes

definition ext_info_new :: ext_info where
  "ext_info_new = \<lparr> ei_types = [], ei_groups = [], ei_formats = [], ei_sni = [] \<rparr>"

text \<open>One extension with its data at \<open>ed\<close>.\<close>

definition read_ext :: "bytes \<Rightarrow> u16 \<Rightarrow> nat \<Rightarrow> nat \<Rightarrow> ext_info \<Rightarrow> ext_info option" where
  "read_ext d etype ed elen x = (let x = (if is_grease etype then x else x\<lparr>ei_types := ei_types x @ [etype]\<rparr>) in
     if etype = 0x0000 \<and> elen \<ge> 5
     then do {
       list_len \<leftarrow> rd16 d ed;
       if unat list_len + 2 \<le> elen
       then do {
         t \<leftarrow> rd8 d (ed + 2);
         if t = 0
         then do {
           name_len \<leftarrow> rd16 d (ed + 3);
           if 5 + unat name_len \<le> elen
           then do { name \<leftarrow> view d (ed + 5) (unat name_len); Some (x\<lparr>ei_sni := name\<rparr>) }
           else Some x }
         else Some x }
       else Some x }
     else if etype = 0x000A \<and> elen \<ge> 2
     then do {
       glen \<leftarrow> rd16 d ed;
       gs \<leftarrow> read_u16s d (ed + 2) (min (unat glen) (elen - 2)) 0;
       Some (x\<lparr>ei_groups := ei_groups x @ gs\<rparr>) }
     else if etype = 0x000B \<and> elen \<ge> 1
     then do {
       flen \<leftarrow> rd8 d ed;
       fs \<leftarrow> view d (ed + 1) (min (unat flen) (elen - 1));
       Some (x\<lparr>ei_formats := ei_formats x @ map ucast fs\<rparr>) }
     else Some x)"

text \<open>The loop over the extensions; the flag says whether they were well formed.\<close>

function read_exts :: "bytes \<Rightarrow> nat \<Rightarrow> nat \<Rightarrow> nat \<Rightarrow> ext_info \<Rightarrow> (bool \<times> ext_info) option" where
  "read_exts d off ext_total eoff x =
     (if eoff + 4 \<le> ext_total
      then do {
        etype \<leftarrow> rd16 d (off + eoff);
        elen \<leftarrow> rd16 d (off + eoff + 2);
        if eoff + 4 + unat elen > ext_total then Some (False, x)
        else do {
          x \<leftarrow> read_ext d etype (off + eoff + 4) (unat elen) x;
          read_exts d off ext_total (eoff + 4 + unat elen) x } }
      else Some (True, x))"
  by pat_completeness auto
termination
  by (relation "measure (\<lambda>(d, off, ext_total, eoff, x). ext_total - eoff)") auto

declare read_exts.simps [simp del]

text \<open>A length-prefixed field: skipped, or \<open>None\<close> inside when it does not fit.\<close>

definition skip_u8 :: "bytes \<Rightarrow> nat \<times> nat \<Rightarrow> (nat \<times> nat) option option" where
  "skip_u8 d pos = (case pos of (p, rem) \<Rightarrow>
     if rem < 1 then Some None
     else do { n \<leftarrow> rd8 d p;
       if rem - 1 < unat n then Some None else Some (Some (p + 1 + unat n, rem - 1 - unat n)) })"

text \<open>The body of the handshake message at \<open>p\<close>, \<open>rem\<close> bytes long.\<close>

definition hello_body :: "bytes \<Rightarrow> nat \<times> nat \<Rightarrow> client_hello \<Rightarrow> client_hello option" where
  "hello_body d pos h = (let bad = h\<lparr>ch_error := TLS_ERR_MALFORMED\<rparr> in
     case pos of (p, rem) \<Rightarrow>
     if rem < 34 then Some bad
     else do {
       ver \<leftarrow> rd16 d p;
       let h = h\<lparr>ch_client_version := ver\<rparr>;
       let bad = h\<lparr>ch_error := TLS_ERR_MALFORMED\<rparr>;
       sid \<leftarrow> skip_u8 d (p + 34, rem - 34);
       (case sid of None \<Rightarrow> Some bad | Some (p, rem) \<Rightarrow>
         if rem < 2 then Some bad
         else do {
           cs_len \<leftarrow> rd16 d p;
           if rem - 2 < unat cs_len \<or> unat cs_len mod 2 \<noteq> 0 then Some bad
           else do {
             ciphers \<leftarrow> read_u16s d (p + 2) (unat cs_len) 0;
             comp \<leftarrow> skip_u8 d (p + 2 + unat cs_len, rem - 2 - unat cs_len);
             (case comp of None \<Rightarrow> Some bad | Some (p, rem) \<Rightarrow> do {
                exts \<leftarrow> (if rem \<ge> 2
                  then do {
                    ext_total \<leftarrow> rd16 d p;
                    if rem - 2 < unat ext_total then Some (False, ext_info_new)
                    else read_exts d (p + 2) (unat ext_total) 0 ext_info_new }
                  else Some (True, ext_info_new));
                (case exts of (ok, x) \<Rightarrow>
                  let h = h\<lparr>ch_sni := ei_sni x\<rparr> in
                  if \<not> ok then Some (h\<lparr>ch_error := TLS_ERR_MALFORMED\<rparr>)
                  else do {
                    let ja3 = dec (unat ver) @ '','' @ u16_list ciphers @ '','' @ u16_list (ei_types x) @ '','' @
                      u16_list (ei_groups x) @ '','' @ u16_list (ei_formats x);
                    md \<leftarrow> md5_update (map of_char ja3) md5_new;
                    hash \<leftarrow> md5_final_hex md;
                    Some (h\<lparr>ch_ja3 := ja3, ch_ja3_hash := hash, ch_valid := True\<rparr>) }) }) } }) })"

definition parse_tls_client_hello :: "bytes option \<Rightarrow> nat \<Rightarrow> client_hello option" where
  "parse_tls_client_hello data len = do {
     tls \<leftarrow> looks_like_tls data len;
     (case data of None \<Rightarrow> Some (no_hello\<lparr>ch_error := TLS_NOT_TLS\<rparr>) | Some d \<Rightarrow>
       if \<not> tls then Some (no_hello\<lparr>ch_error := TLS_NOT_TLS\<rparr>)
       else if len < 5 then Some (no_hello\<lparr>ch_error := TLS_ERR_TRUNCATED\<rparr>)
       else do {
         rectype \<leftarrow> rd8 d 0;
         ver \<leftarrow> rd16 d 1;
         reclen \<leftarrow> rd16 d 3;
         let h = no_hello\<lparr>ch_record_version := ver\<rparr>;
         if rectype \<noteq> 22 then Some (h\<lparr>ch_error := TLS_ERR_NOT_CLIENTHELLO\<rparr>)
         else if len < 5 + unat reclen then Some (h\<lparr>ch_error := TLS_ERR_TRUNCATED\<rparr>)
         else if unat reclen < 4 then Some (h\<lparr>ch_error := TLS_ERR_NOT_CLIENTHELLO\<rparr>)
         else do {
           t \<leftarrow> rd8 d 5;
           if t \<noteq> 1 then Some (h\<lparr>ch_error := TLS_ERR_NOT_CLIENTHELLO\<rparr>)
           else hello_body d (9, unat reclen - 4) (h\<lparr>ch_consumed := 5 + unat reclen\<rparr>) } }) }"

definition TLS_ALERT_SEEN_ON_VEHICLE_NET :: u32 where "TLS_ALERT_SEEN_ON_VEHICLE_NET = 0x9001"
definition TLS_ALERT_VERSION_LT_1_2 :: u32 where "TLS_ALERT_VERSION_LT_1_2 = 0x9002"
definition TLS_ALERT_MALFORMED :: u32 where "TLS_ALERT_MALFORMED = 0x9003"

subsection \<open>The parser stays inside its data\<close>

lemma read_u16s_safe: "off + n \<le> length d \<Longrightarrow> \<exists>vs. read_u16s d off n i = Some vs"
proof (induction d off n i rule: read_u16s.induct)
  case (1 d off n i)
  show ?case
  proof (cases "i + 1 < n")
    case True
    then have v: "rd16 d (off + i) = Some (be16 (d ! (off + i)) (d ! (off + i + 1)))" using 1(2) by (simp add: rd16_Some)
    obtain vs where "read_u16s d off n (i + 2) = Some vs" using 1(1) [OF True v 1(2)] by blast
    then show ?thesis using True v by (simp add: read_u16s.simps [of d off n i])
  qed (simp add: read_u16s.simps [of d off n i])
qed

lemma u16_le: "unat (v :: u16) \<le> 65535"
  using unat_u16_bound [of v] by linarith

lemma read_ext_safe:
  assumes d: "ed + elen \<le> length d" and x: "length (ei_sni x) \<le> 65535"
  shows "safely (read_ext d etype ed elen x) (\<lambda>x. length (ei_sni x) \<le> 65535)"
proof (cases "etype = 0x000A \<and> elen \<ge> 2")
  case True
  define g where "g = be16 (d ! ed) (d ! (ed + 1))"
  have g: "rd16 d ed = Some g" using d True by (simp add: rd16_Some g_def)
  obtain gs where "read_u16s d (ed + 2) (min (unat g) (elen - 2)) 0 = Some gs"
  proof -
    have "min (unat g) (elen - 2) \<le> elen - 2" by simp
    then have "ed + 2 + min (unat g) (elen - 2) \<le> length d" using d True by linarith
    from read_u16s_safe [OF this, of 0] show thesis using that by blast
  qed
  then show ?thesis using g True x by (simp add: read_ext_def Let_def safely_Some)
next
  case False
  then show ?thesis
    unfolding read_ext_def Let_def if_not_P [OF False] using d x u16_le
    by (auto simp: safe_simps min_le_iff_disj)
qed

lemma read_exts_safe:
  "off + ext_total \<le> length d \<Longrightarrow> length (ei_sni x) \<le> 65535 \<Longrightarrow>
     safely (read_exts d off ext_total eoff x) (\<lambda>(ok, x). length (ei_sni x) \<le> 65535)"
proof (induction d off ext_total eoff x rule: read_exts.induct)
  case (1 d off ext_total eoff x)
  show ?case
  proof (cases "eoff + 4 \<le> ext_total")
    case True
    have r: "rd16 d (off + eoff) = Some t" "rd16 d (off + eoff + 2) = Some n"
      if "t = be16 (d ! (off + eoff)) (d ! (off + eoff + 1))" "n = be16 (d ! (off + eoff + 2)) (d ! (off + eoff + 3))" for t n
      using that True 1(2) by (simp_all add: rd16_Some numeral_3_eq_3)
    define t n where "t = be16 (d ! (off + eoff)) (d ! (off + eoff + 1))" "n = be16 (d ! (off + eoff + 2)) (d ! (off + eoff + 3))"
    note r = r [OF this]
    show ?thesis
    proof (cases "eoff + 4 + unat n > ext_total")
      case False
      then have "safely (read_ext d t (off + eoff + 4) (unat n) x) (\<lambda>x. length (ei_sni x) \<le> 65535)"
        using 1(2,3) by (intro read_ext_safe) simp_all
      then obtain y where y: "read_ext d t (off + eoff + 4) (unat n) x = Some y" "length (ei_sni y) \<le> 65535"
        by (auto simp: safely_iff)
      show ?thesis
        using 1(1) [OF True r False y(1) 1(2) y(2)] True False r y(1) by (simp add: read_exts.simps [of d off ext_total eoff x])
    qed (use True r 1(3) in \<open>simp add: read_exts.simps [of d off ext_total eoff x] safely_Some\<close>)
  qed (use 1(3) in \<open>simp add: read_exts.simps [of d off ext_total eoff x] safely_Some\<close>)
qed

lemma skip_u8_safe:
  "p + rem \<le> length d \<Longrightarrow> \<exists>r. skip_u8 d (p, rem) = Some r \<and>
     (case r of None \<Rightarrow> True | Some (p', rem') \<Rightarrow> p' + rem' = p + rem)"
  by (cases "rem < 1") (auto simp: skip_u8_def rd8_def)

lemma md5_total: "\<exists>md hash. md5_update p md5_new = Some md \<and> md5_final_hex md = Some hash"
  using md5_one_shot [of p] by (auto simp: md5_final_hex_def)

lemma hello_body_safe:
  assumes "p + rem \<le> length d"
  shows "\<exists>h'. hello_body d (p, rem) h = Some h' \<and> ch_consumed h' = ch_consumed h \<and>
    length (ch_sni h') \<le> max (length (ch_sni h)) 65535"
proof (cases "rem < 34")
  case True
  then show ?thesis by (simp add: hello_body_def Let_def)
next
  case False
  define ver where "ver = be16 (d ! p) (d ! (p + 1))"
  have ver: "rd16 d p = Some ver" using False assms by (simp add: rd16_Some ver_def)
  obtain sid where sid: "skip_u8 d (p + 34, rem - 34) = Some sid"
    "case sid of None \<Rightarrow> True | Some (p', rem') \<Rightarrow> p' + rem' = p + rem"
  proof -
    have e: "p + 34 + (rem - 34) = p + rem" using False by simp
    show thesis using skip_u8_safe [of "p + 34" "rem - 34" d, unfolded e, OF assms] that by blast
  qed
  note body = hello_body_def [of d "(p, rem)" h, unfolded Let_def prod.case if_not_P [OF False] ver bind.bind_lunit sid(1)]
  show ?thesis
  proof (cases sid)
    case None
    then show ?thesis by (simp add: body)
  next
    case (Some pr)
    obtain p1 r1 where pr: "pr = (p1, r1)" by fastforce
    have e1: "p1 + r1 = p + rem" using sid(2) Some pr by simp
    show ?thesis
    proof (cases "r1 < 2")
      case True
      then show ?thesis by (simp add: body Some pr)
    next
      case r1: False
      define cs where "cs = be16 (d ! p1) (d ! (p1 + 1))"
      have cs: "rd16 d p1 = Some cs" using r1 e1 assms by (simp add: rd16_Some cs_def)
      show ?thesis
      proof (cases "r1 - 2 < unat cs \<or> unat cs mod 2 \<noteq> 0")
        case True
        then show ?thesis using r1 cs by (auto simp: body Some pr)
      next
        case fit: False
        obtain ciphers where ci: "read_u16s d (p1 + 2) (unat cs) 0 = Some ciphers"
        proof -
          have "p1 + 2 + unat cs \<le> length d" using fit r1 e1 assms by linarith
          from read_u16s_safe [OF this, of 0] show thesis using that by blast
        qed
        obtain comp where comp: "skip_u8 d (p1 + 2 + unat cs, r1 - 2 - unat cs) = Some comp"
          "case comp of None \<Rightarrow> True | Some (p', rem') \<Rightarrow> p' + rem' = p + rem"
        proof -
          have e: "p1 + 2 + unat cs + (r1 - 2 - unat cs) = p + rem" using fit r1 e1 by linarith
          show thesis using skip_u8_safe [of "p1 + 2 + unat cs" "r1 - 2 - unat cs" d, unfolded e, OF assms] that by blast
        qed
        note body2 = body [unfolded Some pr option.case prod.case if_not_P [OF r1] cs bind.bind_lunit if_not_P [OF fit] ci comp(1)]
        show ?thesis
        proof (cases comp)
          case None
          then show ?thesis by (simp add: body2)
        next
          case (Some pc)
          obtain p2 r2 where pc: "pc = (p2, r2)" by fastforce
          have e2: "p2 + r2 = p + rem" using comp(2) Some pc by simp
          define m where "m = (if r2 \<ge> 2 then do {
              ext_total \<leftarrow> rd16 d p2;
              if r2 - 2 < unat ext_total then Some (False, ext_info_new)
              else read_exts d (p2 + 2) (unat ext_total) 0 ext_info_new } else Some (True, ext_info_new))"
          have new: "length (ei_sni ext_info_new) \<le> 65535" by (simp add: ext_info_new_def)
          have "\<exists>ok x. m = Some (ok, x) \<and> length (ei_sni x) \<le> 65535"
          proof (cases "r2 \<ge> 2")
            case True
            define t where "t = be16 (d ! p2) (d ! (p2 + 1))"
            have t: "rd16 d p2 = Some t" using True e2 assms by (simp add: rd16_Some t_def)
            show ?thesis
            proof (cases "r2 - 2 < unat t")
              case False
              then have "safely (read_exts d (p2 + 2) (unat t) 0 ext_info_new) (\<lambda>(ok, x). length (ei_sni x) \<le> 65535)"
                using True e2 assms new by (intro read_exts_safe) auto
              then show ?thesis using True t False by (auto simp: m_def safely_iff)
            next
              case bad: True
              then show ?thesis
                using True t new by (intro exI [of _ False] exI [of _ ext_info_new]) (simp add: m_def)
            qed
          next
            case none: False
            then show ?thesis using new by (intro exI [of _ True] exI [of _ ext_info_new]) (simp add: m_def)
          qed
          then obtain ok x where ok: "m = Some (ok, x)" "length (ei_sni x) \<le> 65535" by blast
          show ?thesis
          proof (cases ok)
            case False
            then show ?thesis using ok(2)
              by (simp add: body2 Some pc m_def [symmetric] ok(1) le_max_iff_disj)
          next
            case True
            define ja3 where "ja3 = dec (unat ver) @ '','' @ u16_list ciphers @ '','' @ u16_list (ei_types x) @ '','' @
                u16_list (ei_groups x) @ '','' @ u16_list (ei_formats x)"
            obtain md hash where md: "md5_update (map of_char ja3) md5_new = Some md" "md5_final_hex md = Some hash"
              using md5_total by blast
            show ?thesis using ok(2) True
              by (simp add: body2 Some pc m_def [symmetric] ok(1) md [unfolded ja3_def, simplified] le_max_iff_disj)
          qed
        qed
      qed
    qed
  qed
qed

lemma parse_tls_ok:
  assumes "case data of None \<Rightarrow> True | Some d \<Rightarrow> n \<le> length d"
  shows "\<exists>h. parse_tls_client_hello data n = Some h \<and> ch_consumed h \<le> n \<and> length (ch_sni h) \<le> 65535"
proof (cases data)
  case None
  then show ?thesis by (simp add: parse_tls_client_hello_def looks_like_tls_def no_hello_def)
next
  case (Some d)
  with assms have n: "n \<le> length d" by simp
  show ?thesis
  proof (cases "n < 5")
    case True
    have "\<exists>t. looks_like_tls data n = Some t" using Some n by (auto simp: looks_like_tls_def rd8_def)
    then show ?thesis using Some True by (auto simp: parse_tls_client_hello_def no_hello_def)
  next
    case False
    then have r: "rd8 d 0 = Some (d ! 0)" "rd8 d 1 = Some (d ! 1)" "rd8 d 2 = Some (d ! 2)" "rd16 d 1 = Some (be16 (d ! 1) (d ! 2))"
        "rd16 d 3 = Some (be16 (d ! 3) (d ! 4))"
      using n by (simp_all add: rd8_def rd16_Some eval_nat_numeral flip: length_greater_0_conv)
    have l: "\<exists>t. looks_like_tls data n = Some t" using Some r False by (auto simp: looks_like_tls_def)
    define h where "h = no_hello\<lparr>ch_record_version := be16 (d ! 1) (d ! 2), ch_consumed := 5 + unat (be16 (d ! 3) (d ! 4))\<rparr>"
    have "\<exists>h'. hello_body d (9, unat (be16 (d ! 3) (d ! 4)) - 4) h = Some h' \<and> ch_consumed h' = ch_consumed h \<and>
        length (ch_sni h') \<le> max (length (ch_sni h)) 65535" if "5 + unat (be16 (d ! 3) (d ! 4)) \<le> n" "4 \<le> unat (be16 (d ! 3) (d ! 4))"
      using that n by (intro hello_body_safe) simp
    moreover have "rd8 d 5 = Some (d ! 5)" if "5 + unat (be16 (d ! 3) (d ! 4)) \<le> n" "4 \<le> unat (be16 (d ! 3) (d ! 4))"
      using that n by (simp add: rd8_def)
    ultimately show ?thesis using l Some False
      by (auto simp: parse_tls_client_hello_def Let_def r [simplified] h_def no_hello_def)
  qed
qed

text \<open>
  The ClientHello parser gives a result for all data and never reads outside them, whatever lengths the
  record, the extensions and the names in it claim; it consumes no more than it was given, and the
  fingerprint is computed without a failure.
\<close>

lemma parse_tls_safe:
  assumes "case data of None \<Rightarrow> True | Some d \<Rightarrow> n \<le> length d"
  shows "\<exists>h. parse_tls_client_hello data n = Some h \<and> ch_consumed h \<le> n \<and> length (ch_sni h) \<le> 65535"
  using parse_tls_ok [OF assms] .

end
