(* ===== verification/Eth_Pipeline.thy ===== *)
theory Eth_Pipeline
  imports Eth_Protocols Eth_Detectors Eth_Defrag Eth_Stream_Table Eth_Geoip Eth_Rules_Match Eth_Http Eth_Tls
begin

text \<open>
  \<open>apps/eth_probe/pipeline\<close>: the composition of the probe. A frame goes through the parser, the packet
  detectors, the reassembly of fragments and streams, the application parsers and the rule engine. A step
  gives the alerts that the callback gets, in their order, and the new state; its outer \<open>None\<close> is an access
  outside a buffer. The bytes that a packet points into go with it as their own argument.
\<close>

subsection \<open>State\<close>

definition SOMEIP_DEFAULT_PORT :: u16 where "SOMEIP_DEFAULT_PORT = 30490"
definition DNS_PORT :: u16 where "DNS_PORT = 53"
definition DNS_ALERT_QNAME_ILLEGAL :: u32 where "DNS_ALERT_QNAME_ILLEGAL = 0xB001"
definition DNS_ALERT_SUSPICIOUS_QTYPE :: u32 where "DNS_ALERT_SUSPICIOUS_QTYPE = 0xB002"
definition REASS_ALERT_DEFRAG_EVICT :: u32 where "REASS_ALERT_DEFRAG_EVICT = 1"
definition REASS_ALERT_STREAM_EVICT :: u32 where "REASS_ALERT_STREAM_EVICT = 2"

record probe_cfg =
  pc_someip_port :: u16
  pc_cross_border_enabled :: bool
  pc_cross_border_cooldown_ms :: u32
  pc_http_port :: u16
  pc_http_alt_port :: u16
  pc_tls_port :: u16
  pc_stream_acc_cap :: nat
  pc_trusted_sources :: cidr_set

definition probe_cfg_new :: probe_cfg where
  "probe_cfg_new = \<lparr> pc_someip_port = SOMEIP_DEFAULT_PORT, pc_cross_border_enabled = True,
     pc_cross_border_cooldown_ms = 60000, pc_http_port = 80, pc_http_alt_port = 8080, pc_tls_port = 443,
     pc_stream_acc_cap = 64 * 1024, pc_trusted_sources = cidr_set_new \<rparr>"

text \<open>The application state of one direction of a flow.\<close>

record dir_state =
  ds_rule_tail :: bytes
  ds_acc :: bytes
  ds_http_checked :: bool
  ds_http_bad :: bool
  ds_tls_done :: bool

definition dir_state_new :: dir_state where
  "dir_state_new = \<lparr> ds_rule_tail = [], ds_acc = [], ds_http_checked = False, ds_http_bad = False,
     ds_tls_done = False \<rparr>"

type_synonym flow_state = "dir_state \<times> dir_state"

record probe =
  pr_cfg :: probe_cfg
  pr_rules :: rule_engine
  pr_geoip :: geoip
  pr_sd :: sd_tracker
  pr_port_scan :: port_scan
  pr_rate_flood :: rate_flood
  pr_arp :: arp_spoof
  pr_defrag :: defrag
  pr_tcp :: tcp_reassembly
  pr_flows :: "flow_key \<Rightarrow> flow_state option"
  pr_xborder_last :: "bytes \<Rightarrow> u64 option"

type_synonym probe_step = "probe \<Rightarrow> (probe_alert list \<times> probe) option"

text \<open>Two steps one after the other.\<close>

definition then_step :: "probe_step \<Rightarrow> probe_step \<Rightarrow> probe_step" where
  "then_step f g s = do { (as, s) \<leftarrow> f s; (bs, s) \<leftarrow> g s; Some (as @ bs, s) }"

definition emit_one :: "probe_alert option \<Rightarrow> probe_alert list" where
  "emit_one a = (case a of None \<Rightarrow> [] | Some a \<Rightarrow> [a])"

definition rule_alerts :: "packet \<Rightarrow> rule list \<Rightarrow> probe_alert list" where
  "rule_alerts pp hits = map (\<lambda>r. make_probe_alert DT_RULE_HIT pp (ru_sid r)) hits"

text \<open>The bytes of the payload of a packet, and of its L4 datagram.\<close>

definition bytes_at :: "bytes \<Rightarrow> nat option \<Rightarrow> nat \<Rightarrow> bytes option option" where
  "bytes_at buf p n = (case p of None \<Rightarrow> Some None | Some i \<Rightarrow> do { v \<leftarrow> view buf i n; Some (Some v) })"

definition reassembled_packet :: "packet \<Rightarrow> bytes \<Rightarrow> packet option" where
  "reassembled_packet frag datagram = parse_l4_only (l4_proto frag) datagram (length datagram)
     (no_packet\<lparr>src_mac := src_mac frag, dst_mac := dst_mac frag, is_ipv4 := is_ipv4 frag,
        is_ipv6 := is_ipv6 frag, src_ip := src_ip frag, dst_ip := dst_ip frag, l4_proto := l4_proto frag,
        l4_data := Some 0, l4_len := length datagram\<rparr>)"

subsection \<open>Rules on packets\<close>

definition match_rules_packet :: "bytes \<Rightarrow> packet \<Rightarrow> bool \<Rightarrow> probe_step" where
  "match_rules_packet buf pp header_only s =
     (if rule_count (pr_rules s) = 0 then Some ([], s)
      else do {
        raw \<leftarrow> bytes_at buf (payload pp) (payload_len pp);
        hits \<leftarrow> engine_match pp (match_buffers_new\<lparr>mb_raw := raw\<rparr>) (pr_rules s);
        Some (rule_alerts pp (filter (\<lambda>r. \<not> (header_only \<and> (ru_contents r \<noteq> [] \<or> ru_pcre_patterns r \<noteq> []))) hits), s) })"

subsection \<open>Cross-border traffic\<close>

definition local_destination :: "packet \<Rightarrow> bool" where
  "local_destination pp = (let d = dst_ip pp in
     if \<not> is_ipv6 pp
     then (d ! 0) AND 0xF0 = 0xE0 \<or> d ! 0 = 169 \<and> d ! 1 = 254 \<or> d ! 0 = 255
     else d ! 0 = 0xFF \<or> d ! 0 = 0xFE \<and> (d ! 1) AND 0xC0 = 0x80)"

definition check_cross_border :: "packet \<Rightarrow> u64 \<Rightarrow> probe_step" where
  "check_cross_border pp now_ms s = Some (
     if \<not> pc_cross_border_enabled (pr_cfg s) \<or> \<not> gi_domestic_loaded (pr_geoip s) then ([], s)
     else if local_destination pp then ([], s)
     else if classify (src_ip pp) (is_ipv6 pp) (pr_geoip s) \<noteq> HOME then ([], s)
     else if classify (dst_ip pp) (is_ipv6 pp) (pr_geoip s) \<noteq> FOREIGN then ([], s)
     else let key = take 16 (src_ip pp) @ take 16 (dst_ip pp) in
       if (case pr_xborder_last s key of None \<Rightarrow> False
           | Some t \<Rightarrow> now_ms - t < ucast (pc_cross_border_cooldown_ms (pr_cfg s))) then ([], s)
       else ([make_probe_alert DT_CROSS_BORDER pp 0],
             s\<lparr>pr_xborder_last := (pr_xborder_last s)(key \<mapsto> now_ms)\<rparr>))"

subsection \<open>Streams\<close>

definition inspect_doip_message :: "packet \<Rightarrow> bytes option \<Rightarrow> nat \<Rightarrow> probe_alert list option" where
  "inspect_doip_message pp data len = do {
     info \<leftarrow> parse_doip data len;
     Some (case inspect_doip info of None \<Rightarrow> [] | Some aux \<Rightarrow> [make_probe_alert DT_DOIP pp aux]) }"

definition DOIP_MAX_PAYLOAD :: nat where "DOIP_MAX_PAYLOAD = 16 * 1024 * 1024"

text \<open>The loop over the DoIP messages at \<open>off\<close>, and the offset it stops at.\<close>

function doip_frames :: "packet \<Rightarrow> bytes \<Rightarrow> nat \<Rightarrow> (probe_alert list \<times> nat) option" where
  "doip_frames pp acc off =
     (case size_sub (length acc) off of None \<Rightarrow> None
      | Some rem \<Rightarrow>
        if rem \<ge> 8
        then do {
          n \<leftarrow> rd32 acc (off + 4);
          if unat n > DOIP_MAX_PAYLOAD
          then Some ([make_probe_alert DT_DOIP pp (doip_error_val DOIP_ERR_LENGTH)], length acc)
          else if rem < 8 + unat n then Some ([], off)
          else do {
            m \<leftarrow> view acc off (8 + unat n);
            as \<leftarrow> inspect_doip_message pp (Some m) (8 + unat n);
            (bs, e) \<leftarrow> doip_frames pp acc (off + (8 + unat n));
            Some (as @ bs, e) } }
        else Some ([], off))"
  by pat_completeness auto
termination
  by (relation "measure (\<lambda>(_, acc, off). length acc - off)") (auto simp: size_sub_def split: if_splits)

declare doip_frames.simps [simp del]

definition feed_doip_stream :: "packet \<Rightarrow> bytes \<Rightarrow> dir_state \<Rightarrow> (probe_alert list \<times> dir_state) option" where
  "feed_doip_stream pp data ds = do {
     let acc = ds_acc ds @ data;
     (as, off) \<leftarrow> doip_frames pp acc 0;
     Some (as, ds\<lparr>ds_acc := drop off acc\<rparr>) }"

definition feed_tls_stream :: "geoip \<Rightarrow> packet \<Rightarrow> bytes \<Rightarrow> dir_state \<Rightarrow> (probe_alert list \<times> dir_state) option" where
  "feed_tls_stream geo pp data ds =
     (if ds_tls_done ds then Some ([], ds)
      else do {
        let acc = ds_acc ds @ data;
        let ds = ds\<lparr>ds_acc := acc\<rparr>;
        tls \<leftarrow> looks_like_tls (Some acc) (length acc);
        if \<not> tls then Some ([], ds\<lparr>ds_tls_done := True\<rparr>)
        else do {
          ch \<leftarrow> parse_tls_client_hello (Some acc) (length acc);
          if ch_error ch = TLS_ERR_TRUNCATED then Some ([], ds)
          else do {
            let ds = ds\<lparr>ds_tls_done := True\<rparr>;
            if \<not> ch_valid ch then Some ([make_probe_alert DT_TLS pp TLS_ALERT_MALFORMED], ds)
            else do {
              let internal = (classify (src_ip pp) (is_ipv6 pp) geo = HOME \<and> classify (dst_ip pp) (is_ipv6 pp) geo = HOME);
              Some ((if internal then [make_probe_alert DT_TLS pp TLS_ALERT_SEEN_ON_VEHICLE_NET] else []) @
                    (if ch_client_version ch < 0x0303 then [make_probe_alert DT_TLS pp TLS_ALERT_VERSION_LT_1_2] else []),
                    ds) } } } })"

text \<open>The buffers of a parsed message that starts the data \<open>m\<close>.\<close>

definition http_buffers :: "bytes \<Rightarrow> http_message \<Rightarrow> match_buffers option" where
  "http_buffers m msg = do {
     hdr \<leftarrow> (case hm_header_block msg of None \<Rightarrow> Some None
       | Some (off, n) \<Rightarrow> do { v \<leftarrow> view m off n; Some (Some v) });
     let bufs = match_buffers_new\<lparr>mb_http_header := hdr\<rparr>;
     Some (if hm_is_request msg
       then bufs\<lparr>mb_http_method := Some (hm_method msg), mb_http_uri := Some (hm_uri msg)\<rparr> else bufs) }"

text \<open>A message that parses has a header of at least four bytes, so the loop over the messages ends.\<close>

lemma parse_http_progress: "parse_http (Some m) (length m) = Some msg \<Longrightarrow> hm_error msg = HTTP_OK \<Longrightarrow> 4 \<le> hm_consumed msg"
  using parse_http_safe [of "length m" m] by auto

function http_messages :: "rule_engine \<Rightarrow> packet \<Rightarrow> bytes \<Rightarrow> nat \<Rightarrow> (probe_alert list \<times> nat) option" where
  "http_messages e pp acc off =
     (if off < length acc
      then let m = drop off acc in
        if length m > HTTP_MAX_HEADER
        then Some ([make_probe_alert DT_HTTP pp HTTP_ALERT_MALFORMED], length acc)
        else (case parse_http (Some m) (length m) of None \<Rightarrow> None
          | Some msg \<Rightarrow>
            if hm_error msg = HTTP_INCOMPLETE then Some ([], off)
            else if hm_error msg \<noteq> HTTP_OK
            then Some ([make_probe_alert DT_HTTP pp (if hm_error msg = HTTP_ERR_URI_TOO_LONG
                          then HTTP_ALERT_URI_TOO_LONG else HTTP_ALERT_MALFORMED)], length acc)
            else do {
              bufs \<leftarrow> http_buffers m msg;
              hits \<leftarrow> engine_match pp bufs e;
              (as, off) \<leftarrow> http_messages e pp acc (off + hm_consumed msg);
              Some (rule_alerts pp hits @ as, off) })
      else Some ([], off))"
  by pat_completeness auto
termination
proof (relation "measure (\<lambda>(_, _, acc, off). length acc - off)", goal_cases)
  case (2 e pp acc off m msg bufs hits)
  then have "4 \<le> hm_consumed msg" by (intro parse_http_progress [of m]) simp_all
  then show ?case using 2 by simp
qed simp

declare http_messages.simps [simp del]

definition feed_http_stream :: "rule_engine \<Rightarrow> packet \<Rightarrow> bytes \<Rightarrow> dir_state \<Rightarrow> (probe_alert list \<times> dir_state) option" where
  "feed_http_stream e pp data ds =
     (if ds_http_bad ds then Some ([], ds)
      else do {
        let acc = ds_acc ds @ data;
        let ds1 = ds\<lparr>ds_acc := acc, ds_http_checked := True\<rparr>;
        ok \<leftarrow> (if ds_http_checked ds then Some True else looks_like_http (Some acc) (length acc));
        if \<not> ok then Some ([make_probe_alert DT_HTTP pp HTTP_ALERT_MALFORMED], ds1\<lparr>ds_http_bad := True\<rparr>)
        else do {
          (as, off) \<leftarrow> http_messages e pp acc 0;
          Some (as, ds1\<lparr>ds_acc := drop off acc\<rparr>) } })"

text \<open>The handler of a direction by the port of the server, and the cap on what it keeps.\<close>

definition app_handler :: "probe \<Rightarrow> u16 \<Rightarrow> packet \<Rightarrow> bytes \<Rightarrow> dir_state \<Rightarrow> (probe_alert list \<times> dir_state) option" where
  "app_handler s port pp data ds =
     (if port = DOIP_PORT then feed_doip_stream pp data ds
      else if port = pc_tls_port (pr_cfg s) then feed_tls_stream (pr_geoip s) pp data ds
      else if port = pc_http_port (pr_cfg s) \<or> port = pc_http_alt_port (pr_cfg s) then feed_http_stream (pr_rules s) pp data ds
      else Some ([], ds))"

definition trim_acc :: "nat \<Rightarrow> dir_state \<Rightarrow> dir_state" where
  "trim_acc cap ds = (if length (ds_acc ds) > cap
     then ds\<lparr>ds_acc := drop (length (ds_acc ds) - cap) (ds_acc ds)\<rparr> else ds)"

definition keep_tail :: "nat \<Rightarrow> bytes \<Rightarrow> bytes" where
  "keep_tail keep window = (if length window > keep then drop (length window - keep) window else window)"

definition tail_len :: "rule_engine \<Rightarrow> nat" where
  "tail_len e = (if max_pattern_len e > 0 then max_pattern_len e - 1 else 0)"

definition flow_state_at :: "probe \<Rightarrow> flow_key \<Rightarrow> flow_state" where
  "flow_state_at s k = (case pr_flows s k of None \<Rightarrow> (dir_state_new, dir_state_new) | Some fs \<Rightarrow> fs)"

definition dir_at :: "nat \<Rightarrow> flow_state \<Rightarrow> dir_state" where
  "dir_at i fs = (if i = 0 then fst fs else snd fs)"

definition put_dir :: "nat \<Rightarrow> dir_state \<Rightarrow> flow_state \<Rightarrow> flow_state" where
  "put_dir i ds fs = (if i = 0 then (ds, snd fs) else (fst fs, ds))"

definition handle_stream_data :: "packet \<Rightarrow> deliver_result \<Rightarrow> probe_step" where
  "handle_stream_data pp res s = do {
     let fs = flow_state_at s (de_flow res);
     let ds = dir_at (de_dir res) fs;
     let window = ds_rule_tail ds @ de_data res;
     hits \<leftarrow> engine_match pp (match_buffers_new\<lparr>mb_raw := Some window\<rparr>) (pr_rules s);
     let ds = ds\<lparr>ds_rule_tail := keep_tail (tail_len (pr_rules s)) window\<rparr>;
     let port = (if de_dir res = 0 then ky_b_port (de_flow res) else ky_a_port (de_flow res));
     (as, ds) \<leftarrow> app_handler s port pp (de_data res) ds;
     let ds = trim_acc (pc_stream_acc_cap (pr_cfg s)) ds;
     Some (rule_alerts pp hits @ as,
           s\<lparr>pr_flows := (pr_flows s)(de_flow res \<mapsto> put_dir (de_dir res) ds fs)\<rparr>) }"

subsection \<open>TCP\<close>

definition port_scan_step :: "packet \<Rightarrow> u64 \<Rightarrow> probe_step" where
  "port_scan_step pp now_ms s =
     (if tcp_flags pp AND TCP_SYN \<noteq> 0 \<and> tcp_flags pp AND TCP_RST = 0
      then (case PortScan_feed pp now_ms (pr_port_scan s) of (a, d) \<Rightarrow> Some (emit_one a, s\<lparr>pr_port_scan := d\<rparr>))
      else Some ([], s))"

text \<open>The stream part: the segment, what it delivers, and the end of the flow.\<close>

definition stream_step :: "bytes \<Rightarrow> packet \<Rightarrow> u64 \<Rightarrow> probe_step" where
  "stream_step buf pp now_ms s = do {
     data \<leftarrow> bytes_at buf (payload pp) (payload_len pp);
     (res, tcp) \<leftarrow> Eth_Stream.add_segment pp (case data of None \<Rightarrow> [] | Some v \<Rightarrow> v) now_ms (pr_tcp s);
     let s = s\<lparr>pr_tcp := tcp\<rparr>;
     (as, s) \<leftarrow> (if de_has_data res \<and> de_data res \<noteq> [] then handle_stream_data pp res s else Some ([], s));
     Some ((if de_evicted res then [make_probe_alert DT_REASSEMBLY pp REASS_ALERT_STREAM_EVICT] else []) @ as,
           if de_closed res then s\<lparr>pr_flows := (pr_flows s)(de_flow res := None)\<rparr> else s) }"

definition handle_tcp :: "bytes \<Rightarrow> packet \<Rightarrow> u64 \<Rightarrow> probe_step" where
  "handle_tcp buf pp now_ms =
     then_step (\<lambda>s. Some (emit_one (check_flag_anomaly pp), s))
       (then_step (port_scan_step pp now_ms)
         (then_step (match_rules_packet buf pp True) (stream_step buf pp now_ms)))"

subsection \<open>UDP\<close>

fun someip_error_val :: "someip_error \<Rightarrow> u32" where
  "someip_error_val SOMEIP_OK = 0"
| "someip_error_val SOMEIP_ERR_TRUNCATED = 1"
| "someip_error_val SOMEIP_ERR_LENGTH = 2"
| "someip_error_val SOMEIP_ERR_PROTO_VER = 3"
| "someip_error_val SOMEIP_ERR_MSG_TYPE = 4"

fun dns_error_val :: "dns_error \<Rightarrow> u32" where
  "dns_error_val DNS_OK = 0"
| "dns_error_val DNS_ERR_TRUNCATED = 1"
| "dns_error_val DNS_ERR_MALFORMED = 2"
| "dns_error_val DNS_ERR_QNAME = 3"

definition handle_someip :: "packet \<Rightarrow> bytes option \<Rightarrow> u64 \<Rightarrow> probe_step" where
  "handle_someip pp data now_ms s = do {
     info \<leftarrow> parse_someip data (payload_len pp);
     if \<not> so_valid info then Some ([make_probe_alert DT_SOMEIP pp (someip_error_val (so_error info))], s)
     else if is_sd info
     then do {
       (auxs, sd) \<leftarrow> sd_inspect (case data of None \<Rightarrow> [] | Some p \<Rightarrow> p) info (src_ip pp) (pr_sd s);
       Some (map (make_probe_alert DT_SOMEIP pp) auxs, s\<lparr>pr_sd := sd\<rparr>) }
     else Some ([], s) }"

definition handle_dns :: "packet \<Rightarrow> bytes option \<Rightarrow> probe_step" where
  "handle_dns pp data s = do {
     info \<leftarrow> parse_dns data (payload_len pp);
     hits \<leftarrow> (if dn_valid info \<and> dn_qname info \<noteq> []
       then engine_match pp (match_buffers_new\<lparr>mb_raw := data, mb_dns_query := Some (dn_qname info)\<rparr>) (pr_rules s)
       else Some []);
     Some ((if dn_error info = DNS_ERR_QNAME then [make_probe_alert DT_DNS pp DNS_ALERT_QNAME_ILLEGAL]
            else if dn_error info \<noteq> DNS_OK \<and> dn_error info \<noteq> DNS_ERR_TRUNCATED
            then [make_probe_alert DT_DNS pp (dns_error_val (dn_error info))] else []) @
           (if dn_valid info \<and> dns_qtype_suspicious (dn_qtype info)
            then [make_probe_alert DT_DNS pp (DNS_ALERT_SUSPICIOUS_QTYPE OR ucast (dn_qtype info))] else []) @
           rule_alerts pp hits, s) }"

definition at_port :: "u16 \<Rightarrow> packet \<Rightarrow> bool" where
  "at_port p pp \<longleftrightarrow> src_port pp = p \<or> dst_port pp = p"

definition handle_udp :: "bytes \<Rightarrow> packet \<Rightarrow> u64 \<Rightarrow> probe_step" where
  "handle_udp buf pp now_ms s =
     (if payload pp = None then Some ([], s)
      else do {
        data \<leftarrow> bytes_at buf (payload pp) (payload_len pp);
        then_step (\<lambda>s. if at_port DOIP_PORT pp
            then do { as \<leftarrow> inspect_doip_message pp data (payload_len pp); Some (as, s) } else Some ([], s))
          (then_step (\<lambda>s. if at_port (pc_someip_port (pr_cfg s)) pp then handle_someip pp data now_ms s else Some ([], s))
            (if at_port DNS_PORT pp then handle_dns pp data else match_rules_packet buf pp False)) s })"

subsection \<open>The frame\<close>

definition handle_l4 :: "bytes \<Rightarrow> packet \<Rightarrow> u64 \<Rightarrow> probe_step" where
  "handle_l4 buf pp now_ms =
     (if is_tcp pp then handle_tcp buf pp now_ms
      else if is_udp pp then handle_udp buf pp now_ms
      else if l4_proto pp = IP_PROTO_ICMP \<or> l4_proto pp = IP_PROTO_ICMPV6 then match_rules_packet buf pp False
      else (\<lambda>s. Some ([], s)))"

definition handle_fragment :: "bytes \<Rightarrow> packet \<Rightarrow> u64 \<Rightarrow> probe_step" where
  "handle_fragment buf pp now_ms s =
     (if l4_data pp = None \<or> l4_len pp = 0 then Some ([], s)
      else do {
        data \<leftarrow> bytes_at buf (l4_data pp) (l4_len pp);
        (res, df) \<leftarrow> add_fragment pp data (l4_len pp) now_ms (pr_defrag s);
        let s = s\<lparr>pr_defrag := df\<rparr>;
        let ev = (if fr_evicted res then [make_probe_alert DT_REASSEMBLY pp REASS_ALERT_DEFRAG_EVICT] else []);
        if \<not> fr_complete res then Some (ev, s)
        else do {
          rp \<leftarrow> reassembled_packet pp (fr_datagram res);
          (as, s) \<leftarrow> handle_l4 (fr_datagram res) rp now_ms s;
          Some (ev @ as, s) } })"

definition trusted_source :: "probe_cfg \<Rightarrow> packet \<Rightarrow> bool" where
  "trusted_source cfg pp \<longleftrightarrow> \<not> cidr_empty (pc_trusted_sources cfg) \<and> (is_ipv4 pp \<or> is_ipv6 pp) \<and>
     cidr_contains (src_ip pp) (is_ipv6 pp) (pc_trusted_sources cfg)"

definition rate_step :: "packet \<Rightarrow> u64 \<Rightarrow> probe_step" where
  "rate_step pp now_ms s = (case RateFlood_feed pp now_ms (pr_rate_flood s) of
     (a, d) \<Rightarrow> Some (emit_one a, s\<lparr>pr_rate_flood := d\<rparr>))"

definition feed_packet :: "bytes \<Rightarrow> packet \<Rightarrow> u64 \<Rightarrow> probe_step" where
  "feed_packet buf pp now_ms s =
     (if trusted_source (pr_cfg s) pp then Some ([], s)
      else if is_arp pp
      then (case ArpSpoof_feed pp now_ms (pr_arp s) of (a, d) \<Rightarrow> Some (emit_one a, s\<lparr>pr_arp := d\<rparr>))
      else if \<not> is_ipv4 pp \<and> \<not> is_ipv6 pp then Some ([], s)
      else then_step (rate_step pp now_ms)
        (then_step (check_cross_border pp now_ms)
          (if is_fragment pp then handle_fragment buf pp now_ms else handle_l4 buf pp now_ms)) s)"

definition feed_frame :: "bytes option \<Rightarrow> nat \<Rightarrow> u64 \<Rightarrow> probe_step" where
  "feed_frame data len now_ms s = do {
     (ok, pp) \<leftarrow> parse_packet data len;
     if \<not> ok then Some ([], s)
     else feed_packet (case data of None \<Rightarrow> [] | Some buf \<Rightarrow> buf) pp now_ms s }"

definition pipeline_tick :: "u64 \<Rightarrow> probe_step" where
  "pipeline_tick now_ms s = Some ([], s\<lparr>pr_defrag := snd (df_expire now_ms (pr_defrag s)),
     pr_tcp := snd (tcp_expire now_ms (pr_tcp s))\<rparr>)"

definition pipeline_new :: "probe_cfg \<Rightarrow> geoip \<Rightarrow> u16 list \<Rightarrow> scan_cfg \<Rightarrow> rate_flood \<Rightarrow> arp_spoof \<Rightarrow> defrag_cfg \<Rightarrow> tcp_cfg \<Rightarrow> probe" where
  "pipeline_new cfg geo wl scan flood arp df tcp = \<lparr> pr_cfg = cfg, pr_rules = rule_engine_new, pr_geoip = geo,
     pr_sd = sd_tracker_new wl, pr_port_scan = \<lparr> ps_cfg = scan, ps_sources = (\<lambda>_. None) \<rparr>,
     pr_rate_flood = flood, pr_arp = arp, pr_defrag = defrag_new df, pr_tcp = tcp_new tcp,
     pr_flows = (\<lambda>_. None), pr_xborder_last = (\<lambda>_. None) \<rparr>"

end
