(* ===== verification/Eth_Pipeline_Safety.thy ===== *)
theory Eth_Pipeline_Safety
  imports Eth_Pipeline
begin

text \<open>
  The composition of \<open>apps/eth_probe\<close> as a whole: whatever frames arrive, no part reads outside its buffer,
  every part keeps its invariant, and what the probe keeps of a stream is bounded.
\<close>

subsection \<open>The parsers\<close>

lemma bytes_at_safe:
  "case p of None \<Rightarrow> True | Some i \<Rightarrow> i + n \<le> length buf \<Longrightarrow>
     \<exists>v. bytes_at buf p n = Some v \<and> (v = None \<longleftrightarrow> p = None) \<and> (case v of None \<Rightarrow> True | Some d \<Rightarrow> length d = n)"
  by (auto simp: bytes_at_def view_def split: option.splits)

lemma parse_doip_total:
  "(case data of None \<Rightarrow> True | Some d \<Rightarrow> length d = len) \<Longrightarrow> \<exists>i. parse_doip data len = Some i"
  using rd32_Some [of 4]
  by (auto simp: parse_doip_def rd8_def rd16_Some rd32_Some size_sub_def Let_def split: option.splits)

lemma inspect_doip_total:
  "(case data of None \<Rightarrow> True | Some d \<Rightarrow> length d = len) \<Longrightarrow> \<exists>as. inspect_doip_message pp data len = Some as"
  using parse_doip_total [where data = data and len = len] by (auto simp: inspect_doip_message_def)

lemma sd_loop_total: "e + entries_len \<le> length buf \<Longrightarrow> off mod 16 = 0 \<Longrightarrow> entries_len mod 16 = 0 \<Longrightarrow>
    \<exists>es. sd_loop buf e off entries_len = Some es"
proof (induction buf e off entries_len rule: sd_loop.induct)
  case (1 buf e off entries_len)
  show ?case
  proof (cases "off < entries_len")
    case True
    then have fits: "off + 16 \<le> entries_len" using 1(3,4) by presburger
    have "\<exists>es. sd_loop buf e (off + 16) entries_len = Some es"
      by (rule 1(1) [OF True]) (use 1 fits in \<open>auto simp: rd8_def rd16_Some\<close>)
    then show ?thesis using True fits 1(2) by (auto simp: sd_loop.simps [of buf e off] rd8_def rd16_Some)
  qed (simp add: sd_loop.simps [of buf e off])
qed

lemma sd_entries_total:
  "p + len \<le> length buf \<Longrightarrow> \<exists>r. parse_someip_sd_entries buf (Some p) len = Some r"
proof (cases "len < 8")
  case False
  assume "p + len \<le> length buf"
  then obtain n where "rd32 buf (p + 4) = Some n" using False by (fastforce simp: rd32_Some)
  moreover have "\<exists>es. sd_loop buf (p + 8) 0 (unat n) = Some es" if "unat n \<le> len - 8" "unat n mod 16 = 0"
    using that False \<open>p + len \<le> length buf\<close> by (intro sd_loop_total) simp_all
  ultimately show ?thesis using False by (auto simp: parse_someip_sd_entries_def size_sub_def Let_def)
qed (simp add: parse_someip_sd_entries_def)

lemma sd_inspect_total:
  "so_valid i \<longrightarrow> so_payload i = Some 16 \<and> 16 + so_avail i = length buf \<Longrightarrow> \<exists>as t'. sd_inspect buf i src t = Some (as, t')"
  using sd_entries_total [of 16 "so_avail i" buf] by (auto simp: sd_inspect_def Let_def)

lemma looks_like_tls_total: "\<exists>b. looks_like_tls (Some d) (length d) = Some b"
  by (auto simp: looks_like_tls_def rd8_def)

lemma looks_like_http_total: "\<exists>b. looks_like_http (Some d) (length d) = Some b"
  using method_at_safe [of "length d" d http_methods] by (auto simp: looks_like_http_def)

lemma http_buffers_total:
  assumes "parse_http (Some m) (length m) = Some msg"
  shows "\<exists>bufs. http_buffers m msg = Some bufs"
  using parse_http_safe [of "length m" m] assms
  by (auto simp: http_buffers_def view_def Let_def split: option.splits)

subsection \<open>The handlers of streams\<close>

text \<open>
  What the pipeline relies on of the handler of an application protocol: it always gives a result, leaves the
  bytes kept for the rules alone, and keeps no more than it had and got.
\<close>

locale app_stream =
  fixes guard :: bool and feed :: "packet \<Rightarrow> bytes \<Rightarrow> dir_state \<Rightarrow> (probe_alert list \<times> dir_state) option"
  assumes fed: "guard \<Longrightarrow> \<exists>as ds'. feed pp data ds = Some (as, ds') \<and> ds_rule_tail ds' = ds_rule_tail ds \<and>
    length (ds_acc ds') \<le> length (ds_acc ds) + length data"
begin

lemma trimmed:
  assumes "guard"
  shows "\<exists>as ds'. feed pp data ds = Some (as, ds') \<and> ds_rule_tail (trim_acc cap ds') = ds_rule_tail ds \<and>
    length (ds_acc (trim_acc cap ds')) \<le> cap"
  using fed [OF assms, of pp data ds] by (auto simp: trim_acc_def)

end

lemma doip_frames_total:
  "off \<le> length acc \<Longrightarrow> \<exists>as e. doip_frames pp acc off = Some (as, e) \<and> off \<le> e \<and> e \<le> length acc"
proof (induction pp acc off rule: doip_frames.induct)
  case (1 pp acc off)
  have sub: "size_sub (length acc) off = Some (length acc - off)" using 1(2) by (simp add: size_sub_def)
  note step = doip_frames.simps [of pp acc off, unfolded sub option.case]
  show ?case
  proof (cases "8 \<le> length acc - off")
    case True
    then obtain n where n: "rd32 acc (off + 4) = Some n" by (fastforce simp: rd32_Some)
    show ?thesis
    proof (cases "unat n > DOIP_MAX_PAYLOAD \<or> length acc - off < 8 + unat n")
      case False
      then have fits: "off + (8 + unat n) \<le> length acc" using 1(2) True by linarith
      then have v: "view acc off (8 + unat n) = Some (take (8 + unat n) (drop off acc))" by (simp add: view_def)
      have "length (take (8 + unat n) (drop off acc)) = 8 + unat n" using fits by simp
      then obtain as where as: "inspect_doip_message pp (Some (take (8 + unat n) (drop off acc))) (8 + unat n) = Some as"
        using inspect_doip_total [where data = "Some (take (8 + unat n) (drop off acc))" and len = "8 + unat n" and pp = pp] by auto
      have "\<exists>bs e. doip_frames pp acc (off + (8 + unat n)) = Some (bs, e) \<and> off + (8 + unat n) \<le> e \<and> e \<le> length acc"
        using 1(1) [OF sub True n _ _ v as fits] False by blast
      then show ?thesis using True n False v as by (auto simp: step)
    qed (use True n 1(2) in \<open>auto simp: step\<close>)
  qed (use 1(2) in \<open>simp add: step\<close>)
qed

interpretation doip_app: app_stream True feed_doip_stream
proof
  fix pp data and ds :: dir_state
  obtain as e where "doip_frames pp (ds_acc ds @ data) 0 = Some (as, e)"
    using doip_frames_total [of 0 "ds_acc ds @ data" pp] by auto
  then show "\<exists>as ds'. feed_doip_stream pp data ds = Some (as, ds') \<and> ds_rule_tail ds' = ds_rule_tail ds \<and>
      length (ds_acc ds') \<le> length (ds_acc ds) + length data"
    by (simp add: feed_doip_stream_def)
qed

interpretation tls_app: app_stream True "feed_tls_stream geo" for geo
proof
  fix pp data and ds :: dir_state
  let ?acc = "ds_acc ds @ data"
  obtain tls where t: "looks_like_tls (Some ?acc) (length ?acc) = Some tls" using looks_like_tls_total [of ?acc] by blast
  obtain ch where c: "parse_tls_client_hello (Some ?acc) (length ?acc) = Some ch"
    using parse_tls_ok [where data = "Some ?acc" and n = "length ?acc"] by auto
  show "\<exists>as ds'. feed_tls_stream geo pp data ds = Some (as, ds') \<and> ds_rule_tail ds' = ds_rule_tail ds \<and>
      length (ds_acc ds') \<le> length (ds_acc ds) + length data"
    using t c by (auto simp: feed_tls_stream_def Let_def)
qed

lemma http_messages_total:
  "engine_safe e \<Longrightarrow> off \<le> length acc \<Longrightarrow> \<exists>as k. http_messages e pp acc off = Some (as, k) \<and> k \<le> length acc"
proof (induction e pp acc off rule: http_messages.induct)
  case (1 e pp acc off)
  let ?m = "drop off acc"
  obtain msg where msg: "parse_http (Some ?m) (length ?m) = Some msg" "hm_consumed msg \<le> length ?m"
    using parse_http_safe [of "length ?m" ?m] by auto
  obtain bufs where bufs: "http_buffers ?m msg = Some bufs" using http_buffers_total [OF msg(1)] by blast
  obtain hits where hits: "engine_match pp bufs e = Some hits" using engine_match_total [OF 1(2)] by blast
  show ?case
  proof (cases "off < length acc \<and> length ?m \<le> HTTP_MAX_HEADER \<and> hm_error msg = HTTP_OK")
    case True
    have "\<exists>as k. http_messages e pp acc (off + hm_consumed msg) = Some (as, k) \<and> k \<le> length acc"
      using 1(1) [of ?m msg bufs hits] True msg bufs hits 1(2,3) by auto
    then show ?thesis using True msg(1) bufs hits by (auto simp: http_messages.simps [of e pp acc off] Let_def)
  next
    case False
    then show ?thesis using msg(1) 1(3) by (auto simp: http_messages.simps [of e pp acc off] Let_def)
  qed
qed

interpretation http_app: app_stream "engine_safe e" "feed_http_stream e" for e
proof
  fix pp data and ds :: dir_state
  let ?acc = "ds_acc ds @ data"
  assume e: "engine_safe e"
  obtain b where b: "looks_like_http (Some ?acc) (length ?acc) = Some b" using looks_like_http_total [of ?acc] by blast
  obtain as k where "http_messages e pp ?acc 0 = Some (as, k)" using http_messages_total [OF e, of 0 ?acc pp] by auto
  then show "\<exists>as ds'. feed_http_stream e pp data ds = Some (as, ds') \<and> ds_rule_tail ds' = ds_rule_tail ds \<and>
      length (ds_acc ds') \<le> length (ds_acc ds) + length data"
    using b by (auto simp: feed_http_stream_def Let_def)
qed

subsection \<open>The state of the probe\<close>

definition dir_bounded :: "probe \<Rightarrow> dir_state \<Rightarrow> bool" where
  "dir_bounded s ds \<longleftrightarrow> length (ds_acc ds) \<le> pc_stream_acc_cap (pr_cfg s) \<and> length (ds_rule_tail ds) \<le> tail_len (pr_rules s)"

definition probe_ok :: "probe \<Rightarrow> bool" where
  "probe_ok s \<longleftrightarrow> df_ok (pr_defrag s) \<and> tcp_ok (pr_tcp s) \<and>
     length (tr_flows (pr_tcp s)) \<le> max 1 (tc_max_flows (tr_cfg (pr_tcp s))) \<and> engine_safe (pr_rules s) \<and>
     (\<forall>k fs. pr_flows s k = Some fs \<longrightarrow> dir_bounded s (fst fs) \<and> dir_bounded s (snd fs))"

text \<open>What no frame changes: the settings, the rules and the limits of the two tables.\<close>

definition settings :: "probe \<Rightarrow> probe_cfg \<times> rule_engine \<times> defrag_cfg \<times> tcp_cfg" where
  [simp]: "settings s = (pr_cfg s, pr_rules s, df_cfg (pr_defrag s), tr_cfg (pr_tcp s))"

text \<open>A step that never fails from a good state, leads to a good state, and keeps the settings.\<close>

definition keeps :: "probe_step \<Rightarrow> bool" where
  "keeps f \<longleftrightarrow> (\<forall>s. probe_ok s \<longrightarrow> (\<exists>as s'. f s = Some (as, s') \<and> probe_ok s' \<and> settings s' = settings s))"

lemma keepsI: "(\<And>s. probe_ok s \<Longrightarrow> \<exists>as s'. f s = Some (as, s') \<and> probe_ok s' \<and> settings s' = settings s) \<Longrightarrow> keeps f"
  by (simp add: keeps_def)

lemma keepsD: "keeps f \<Longrightarrow> probe_ok s \<Longrightarrow> \<exists>as s'. f s = Some (as, s') \<and> probe_ok s' \<and> settings s' = settings s"
  by (simp add: keeps_def)

lemma keeps_emit [intro!]: "keeps (\<lambda>s. Some (as, s))"
  by (simp add: keeps_def)

lemma keeps_then [intro!]: "keeps f \<Longrightarrow> keeps g \<Longrightarrow> keeps (then_step f g)"
  unfolding keeps_def then_step_def by fastforce

lemma keeps_if [intro!]: "(b \<Longrightarrow> keeps f) \<Longrightarrow> (\<not> b \<Longrightarrow> keeps g) \<Longrightarrow> keeps (if b then f else g)"
  by simp

lemma keeps_cond [intro!]: "keeps f \<Longrightarrow> keeps g \<Longrightarrow> keeps (\<lambda>s. if b s then f s else g s)"
  by (simp add: keeps_def)

text \<open>A part of the state that the invariant does not speak of.\<close>

lemma probe_ok_parts [simp]:
  "probe_ok (s\<lparr>pr_port_scan := a\<rparr>) = probe_ok s" "probe_ok (s\<lparr>pr_rate_flood := b\<rparr>) = probe_ok s"
  "probe_ok (s\<lparr>pr_arp := c\<rparr>) = probe_ok s" "probe_ok (s\<lparr>pr_sd := d\<rparr>) = probe_ok s"
  "probe_ok (s\<lparr>pr_xborder_last := e\<rparr>) = probe_ok s"
  by (simp_all add: probe_ok_def dir_bounded_def)

lemma payload_bytes:
  assumes "packet_ok (length buf) pp"
  shows "\<exists>v. bytes_at buf (payload pp) (payload_len pp) = Some v \<and> (v = None \<longleftrightarrow> payload pp = None) \<and>
    (case v of None \<Rightarrow> True | Some d \<Rightarrow> length d = payload_len pp)"
  by (rule bytes_at_safe) (use assms in \<open>auto simp: packet_ok_def payload_in_def split: option.splits\<close>)

lemma keeps_rules: "packet_ok (length buf) pp \<Longrightarrow> keeps (match_rules_packet buf pp header_only)"
proof (rule keepsI)
  fix s assume pp: "packet_ok (length buf) pp" and s: "probe_ok s"
  obtain v where v: "bytes_at buf (payload pp) (payload_len pp) = Some v" using payload_bytes [OF pp] by blast
  obtain hits where "engine_match pp (match_buffers_new\<lparr>mb_raw := v\<rparr>) (pr_rules s) = Some hits"
    using engine_match_total [of "pr_rules s" pp "match_buffers_new\<lparr>mb_raw := v\<rparr>"] s by (auto simp: probe_ok_def)
  then show "\<exists>as s'. match_rules_packet buf pp header_only s = Some (as, s') \<and> probe_ok s' \<and> settings s' = settings s"
    using v s by (simp add: match_rules_packet_def)
qed

lemma keeps_cross_border: "keeps (check_cross_border pp now_ms)"
  by (rule keepsI) (simp add: check_cross_border_def Let_def)

lemma keep_tail_length [simp]: "length (keep_tail k w) = min k (length w)"
  by (simp add: keep_tail_def min_def)

lemma trim_acc_simps [simp]:
  "ds_rule_tail (trim_acc cap ds) = ds_rule_tail ds" "length (ds_acc (trim_acc cap ds)) = min cap (length (ds_acc ds))"
  by (simp_all add: trim_acc_def min_def)

lemma app_handler_safe:
  assumes "engine_safe (pr_rules s)"
  shows "\<exists>as ds'. app_handler s port pp data ds = Some (as, ds') \<and>
    (length (ds_rule_tail ds) \<le> tail_len (pr_rules s) \<longrightarrow> dir_bounded s (trim_acc (pc_stream_acc_cap (pr_cfg s)) ds'))"
  using doip_app.trimmed [of pp data ds "pc_stream_acc_cap (pr_cfg s)"]
    tls_app.trimmed [of "pr_geoip s" pp data ds "pc_stream_acc_cap (pr_cfg s)"]
    http_app.trimmed [OF assms, of pp data ds "pc_stream_acc_cap (pr_cfg s)"]
  by (auto simp: app_handler_def dir_bounded_def)

lemma keeps_stream_data: "keeps (handle_stream_data pp res)"
proof (rule keepsI)
  fix s assume s: "probe_ok s"
  let ?fs = "flow_state_at s (de_flow res)"
  let ?w = "ds_rule_tail (dir_at (de_dir res) ?fs) @ de_data res"
  let ?ds = "(dir_at (de_dir res) ?fs)\<lparr>ds_rule_tail := keep_tail (tail_len (pr_rules s)) ?w\<rparr>"
  let ?port = "if de_dir res = 0 then ky_b_port (de_flow res) else ky_a_port (de_flow res)"
  have e: "engine_safe (pr_rules s)" using s by (simp add: probe_ok_def)
  obtain hits where hits: "engine_match pp (match_buffers_new\<lparr>mb_raw := Some ?w\<rparr>) (pr_rules s) = Some hits"
    using engine_match_total [OF e] by blast
  obtain as ds' where app: "app_handler s ?port pp (de_data res) ?ds = Some (as, ds')"
    "dir_bounded s (trim_acc (pc_stream_acc_cap (pr_cfg s)) ds')"
    using app_handler_safe [OF e, of ?port pp "de_data res" ?ds] by auto
  have fs: "dir_bounded s (fst ?fs)" "dir_bounded s (snd ?fs)"
    using s by (auto simp: flow_state_at_def probe_ok_def dir_bounded_def dir_state_new_def split: option.splits)
  show "\<exists>as s'. handle_stream_data pp res s = Some (as, s') \<and> probe_ok s' \<and> settings s' = settings s"
    using hits app fs s by (auto simp: handle_stream_data_def Let_def probe_ok_def put_dir_def dir_bounded_def split: if_splits)
qed

lemma keeps_stream:
  assumes "packet_ok (length buf) pp"
  shows "keeps (stream_step buf pp now_ms)"
proof (rule keepsI)
  fix s assume s: "probe_ok s"
  obtain v where v: "bytes_at buf (payload pp) (payload_len pp) = Some v" using payload_bytes [OF assms] by blast
  obtain res tcp where t: "add_segment pp (case v of None \<Rightarrow> [] | Some d \<Rightarrow> d) now_ms (pr_tcp s) = Some (res, tcp)"
    "tcp_ok tcp" "tr_cfg tcp = tr_cfg (pr_tcp s)" "length (tr_flows tcp) \<le> max 1 (tc_max_flows (tr_cfg (pr_tcp s)))"
    using add_segment_ok [of "pr_tcp s" pp "case v of None \<Rightarrow> [] | Some d \<Rightarrow> d" now_ms] s by (auto simp: probe_ok_def)
  have s1: "probe_ok (s\<lparr>pr_tcp := tcp\<rparr>)" using s t(2-) by (simp add: probe_ok_def dir_bounded_def)
  have dropped: "probe_ok (s\<lparr>pr_tcp := tcp, pr_flows := (pr_flows s)(k := None)\<rparr>)" for k
    using s1 by (auto simp: probe_ok_def dir_bounded_def)
  have drop: "probe_ok (s'\<lparr>pr_flows := (pr_flows s')(k := None)\<rparr>)" if "probe_ok s'" for s' k
    using that by (auto simp: probe_ok_def dir_bounded_def)
  show "\<exists>as s'. stream_step buf pp now_ms s = Some (as, s') \<and> probe_ok s' \<and> settings s' = settings s"
    using v t(1,3) s1 drop dropped keepsD [OF keeps_stream_data s1, of pp res] by (auto simp: stream_step_def Let_def)
qed

lemma keeps_tcp: "packet_ok (length buf) pp \<Longrightarrow> keeps (handle_tcp buf pp now_ms)"
  unfolding handle_tcp_def
  by (intro keeps_then keeps_emit keeps_rules keeps_stream keepsI) (auto simp: port_scan_step_def split: prod.split)

lemma keeps_someip:
  assumes "case data of None \<Rightarrow> True | Some d \<Rightarrow> length d = payload_len pp"
  shows "keeps (handle_someip pp data now_ms)"
proof (rule keepsI)
  fix s assume s: "probe_ok s"
  obtain i where i: "parse_someip data (payload_len pp) = Some i"
    "so_valid i \<longrightarrow> data \<noteq> None \<and> so_payload i = Some 16 \<and> 16 + so_avail i = payload_len pp"
  proof (cases data)
    case None
    then show thesis using that by (simp add: parse_someip_def no_someip_def)
  next
    case (Some d)
    then show thesis using that parse_someip_safe [of d] assms by (auto simp: safely_iff)
  qed
  obtain as t where "sd_inspect (case data of None \<Rightarrow> [] | Some p \<Rightarrow> p) i (src_ip pp) (pr_sd s) = Some (as, t)"
    using sd_inspect_total [of i "case data of None \<Rightarrow> [] | Some p \<Rightarrow> p" "src_ip pp" "pr_sd s"] i(2) assms
    by (cases data) auto
  then show "\<exists>as s'. handle_someip pp data now_ms s = Some (as, s') \<and> probe_ok s' \<and> settings s' = settings s"
    using i(1) s by (simp add: handle_someip_def)
qed

lemma keeps_dns:
  assumes "case data of None \<Rightarrow> True | Some d \<Rightarrow> length d = payload_len pp"
  shows "keeps (handle_dns pp data)"
proof (rule keepsI)
  fix s assume s: "probe_ok s"
  obtain i where i: "parse_dns data (payload_len pp) = Some i" using parse_dns_ok [of data "payload_len pp"] assms by (cases data) auto
  obtain hits where "engine_match pp (match_buffers_new\<lparr>mb_raw := data, mb_dns_query := Some (dn_qname i)\<rparr>) (pr_rules s) = Some hits"
    using engine_match_total s by (meson probe_ok_def)
  then show "\<exists>as s'. handle_dns pp data s = Some (as, s') \<and> probe_ok s' \<and> settings s' = settings s"
    using i s by (simp add: handle_dns_def)
qed

lemma keeps_udp:
  assumes "packet_ok (length buf) pp"
  shows "keeps (handle_udp buf pp now_ms)"
proof -
  obtain v where v: "bytes_at buf (payload pp) (payload_len pp) = Some v"
    "case v of None \<Rightarrow> True | Some d \<Rightarrow> length d = payload_len pp"
    using payload_bytes [OF assms] by blast
  obtain as where as: "inspect_doip_message pp v (payload_len pp) = Some as"
    using inspect_doip_total [OF v(2)] by blast
  have "keeps (then_step (\<lambda>s. if at_port DOIP_PORT pp
            then do { as \<leftarrow> inspect_doip_message pp v (payload_len pp); Some (as, s) } else Some ([], s))
          (then_step (\<lambda>s. if at_port (pc_someip_port (pr_cfg s)) pp then handle_someip pp v now_ms s else Some ([], s))
            (if at_port DNS_PORT pp then handle_dns pp v else match_rules_packet buf pp False)))"
    unfolding as bind.bind_lunit
    by (intro keeps_then keeps_if keeps_cond keeps_emit keeps_rules keeps_someip keeps_dns assms v(2))
  then show ?thesis using v(1) by (auto simp: keeps_def handle_udp_def)
qed

lemma keeps_l4: "packet_ok (length buf) pp \<Longrightarrow> keeps (handle_l4 buf pp now_ms)"
  unfolding handle_l4_def by (intro keeps_if keeps_emit keeps_tcp keeps_udp keeps_rules)

lemma reassembled_ok:
  assumes "packet_ok n pp"
  shows "\<exists>rp. reassembled_packet pp datagram = Some rp \<and> packet_ok (length datagram) rp"
proof -
  let ?r = "no_packet\<lparr>src_mac := src_mac pp, dst_mac := dst_mac pp, is_ipv4 := is_ipv4 pp,
        is_ipv6 := is_ipv6 pp, src_ip := src_ip pp, dst_ip := dst_ip pp, l4_proto := l4_proto pp,
        l4_data := Some 0, l4_len := length datagram\<rparr>"
  have "packet_ok (length datagram) ?r" "payload ?r = None" "payload_len ?r = 0"
    using assms by (simp_all add: packet_ok_def payload_in_def no_packet_def)
  then have "safely (parse_l4 datagram 0 (length datagram) (l4_proto pp) ?r) (packet_ok (length datagram))"
    by (intro parse_l4_ok) simp_all
  then show ?thesis by (simp add: reassembled_packet_def parse_l4_only_def safely_iff)
qed

lemma keeps_fragment:
  assumes pp: "packet_ok (length buf) pp" and len: "length buf < 2 ^ 31"
  shows "keeps (handle_fragment buf pp now_ms)"
proof (rule keepsI)
  fix s assume s: "probe_ok s"
  show "\<exists>as s'. handle_fragment buf pp now_ms s = Some (as, s') \<and> probe_ok s' \<and> settings s' = settings s"
  proof (cases "l4_data pp = None \<or> l4_len pp = 0")
    case False
    then obtain d where d: "l4_data pp = Some d" "d + l4_len pp \<le> length buf" using pp by (auto simp: packet_ok_def)
    let ?pl = "take (l4_len pp) (drop d buf)"
    have b: "bytes_at buf (l4_data pp) (l4_len pp) = Some (Some ?pl)" using d by (simp add: bytes_at_def view_def)
    obtain res df where r: "add_fragment pp (Some ?pl) (l4_len pp) now_ms (pr_defrag s) = Some (res, df)" "df_ok df" "df_cfg df = df_cfg (pr_defrag s)"
      using add_fragment_cfg add_fragment_ok [of "pr_defrag s" "l4_len pp" ?pl pp now_ms] s d len by (auto simp: probe_ok_def)
    have s1: "probe_ok (s\<lparr>pr_defrag := df\<rparr>)" using s r(2) by (simp add: probe_ok_def dir_bounded_def)
    obtain rp where rp: "reassembled_packet pp (fr_datagram res) = Some rp" "packet_ok (length (fr_datagram res)) rp"
      using reassembled_ok [OF pp] by blast
    show ?thesis
      using False b r(1,3) s1 rp(1) keepsD [OF keeps_l4 [OF rp(2)] s1, of now_ms] by (auto simp: handle_fragment_def Let_def)
  qed (use s in \<open>auto simp: handle_fragment_def\<close>)
qed

lemma keeps_rate: "keeps (rate_step pp now_ms)"
  by (rule keepsI) (auto simp: rate_step_def split: prod.split)

lemma keeps_packet:
  assumes "packet_ok (length buf) pp" "length buf < 2 ^ 31"
  shows "keeps (feed_packet buf pp now_ms)"
proof (rule keepsI)
  fix s assume s: "probe_ok s"
  have k: "keeps (then_step (rate_step pp now_ms) (then_step (check_cross_border pp now_ms)
      (if is_fragment pp then handle_fragment buf pp now_ms else handle_l4 buf pp now_ms)))"
    using assms by (intro keeps_then keeps_rate keeps_cross_border keeps_if keeps_fragment keeps_l4)
  show "\<exists>as s'. feed_packet buf pp now_ms s = Some (as, s') \<and> probe_ok s' \<and> settings s' = settings s"
    using keepsD [OF k s] s by (auto simp: feed_packet_def split: prod.split)
qed

lemma keeps_frame:
  assumes "length buf < 2 ^ 31"
  shows "keeps (feed_frame (Some buf) (length buf) now_ms)"
proof -
  obtain ok pp where p: "parse_packet (Some buf) (length buf) = Some (ok, pp)" "packet_ok (length buf) pp"
    using parse_packet_ok [of "Some buf" "length buf"] by fastforce
  show ?thesis
  proof (cases ok)
    case True
    then show ?thesis using keeps_packet [OF p(2) assms, of now_ms] p(1) by (simp add: feed_frame_def keeps_def)
  qed (use p(1) in \<open>simp add: feed_frame_def keeps_def\<close>)
qed

lemma df_cfg_expire: "df_cfg (snd (df_expire now_ms t)) = df_cfg t"
proof -
  have "df_cfg (fold df_remove vs t) = df_cfg t" for vs t
    by (induction vs arbitrary: t) (simp_all add: df_remove_def)
  then show ?thesis by (simp add: df_expire_def)
qed

lemma keeps_tick: "keeps (pipeline_tick now_ms)"
proof (rule keepsI)
  fix s assume s: "probe_ok s"
  have len: "length (tr_flows (snd (tcp_expire now_ms t))) \<le> length (tr_flows t)"
    "tr_cfg (snd (tcp_expire now_ms t)) = tr_cfg t" for t
  proof -
    have one: "length (tr_flows (erase_flow v t)) \<le> length (tr_flows t)" for v t
      by (auto simp: erase_flow_fields length_delete_le)
    have "length (tr_flows (fold erase_flow vs t)) \<le> length (tr_flows t) \<and> tr_cfg (fold erase_flow vs t) = tr_cfg t" for vs t
    proof (induction vs arbitrary: t)
      case (Cons v vs)
      show ?case using Cons [of "erase_flow v t"] one [of v t] by (simp add: erase_flow_fields)
    qed simp
    then show "length (tr_flows (snd (tcp_expire now_ms t))) \<le> length (tr_flows t)"
      "tr_cfg (snd (tcp_expire now_ms t)) = tr_cfg t" by (simp_all add: tcp_expire_def)
  qed
  show "\<exists>as s'. pipeline_tick now_ms s = Some (as, s') \<and> probe_ok s' \<and> settings s' = settings s"
    using s len [of "pr_tcp s"] df_ok_expire tcp_ok_expire
    by (auto simp: pipeline_tick_def probe_ok_def dir_bounded_def df_cfg_expire intro: order_trans)
qed

subsection \<open>Running the probe\<close>

text \<open>What the capture loop does with the probe: frames with the time of their capture, and ticks.\<close>

datatype probe_event = Frame bytes u64 | Tick u64

fun event_step :: "probe_event \<Rightarrow> probe_step" where
  "event_step (Frame buf now_ms) = feed_frame (Some buf) (length buf) now_ms"
| "event_step (Tick now_ms) = pipeline_tick now_ms"

fun frame_length :: "probe_event \<Rightarrow> nat" where
  "frame_length (Frame buf _) = length buf"
| "frame_length (Tick _) = 0"

fun run_steps :: "probe_step list \<Rightarrow> probe_step" where
  "run_steps [] = (\<lambda>s. Some ([], s))"
| "run_steps (f # fs) = then_step f (run_steps fs)"

lemma keeps_run: "list_all keeps fs \<Longrightarrow> keeps (run_steps fs)"
  by (induction fs) auto

lemma keeps_event: "frame_length ev < 2 ^ 31 \<Longrightarrow> keeps (event_step ev)"
  by (cases ev) (auto simp: keeps_frame keeps_tick)

lemma probe_ok_new: "engine_safe e \<Longrightarrow> probe_ok ((pipeline_new cfg geo wl scan flood arp df tcp)\<lparr>pr_rules := e\<rparr>)"
  using tcp_ok_new [of tcp, unfolded tcp_new_def]
  by (simp add: probe_ok_def pipeline_new_def df_ok_def defrag_new_def pool_ok_empty tcp_new_def)

text \<open>
  C25: whatever frames of less than 2 GiB arrive, in whatever order and at whatever times, with expiry in
  between, the probe processes all of them: no parser, no reassembly, no stream handler and no rule
  reads outside its buffer, provided the position options of the rules pass the check that makes their
  searches safe. Afterwards the two reassembly pools are within their limits, the flow table has at most its
  number of flows, and for every direction the bytes kept for the application parser and for the rules
  are within their caps.
\<close>

theorem probe_never_overreads:
  assumes "engine_safe e" "list_all (\<lambda>ev. frame_length ev < 2 ^ 31) evs"
  shows "\<exists>as s'. run_steps (map event_step evs) ((pipeline_new cfg geo wl scan flood arp df tcp)\<lparr>pr_rules := e\<rparr>) = Some (as, s') \<and>
    buffered_bytes (pr_defrag s') \<le> df_max_mem_bytes df \<and> tr_mem_used (pr_tcp s') \<le> tc_max_mem_bytes tcp \<and>
    length (tr_flows (pr_tcp s')) \<le> max 1 (tc_max_flows tcp) \<and>
    (\<forall>k d0 d1. pr_flows s' k = Some (d0, d1) \<longrightarrow>
       length (ds_acc d0) \<le> pc_stream_acc_cap cfg \<and> length (ds_acc d1) \<le> pc_stream_acc_cap cfg \<and>
       length (ds_rule_tail d0) \<le> tail_len e \<and> length (ds_rule_tail d1) \<le> tail_len e)"
proof -
  let ?s = "(pipeline_new cfg geo wl scan flood arp df tcp)\<lparr>pr_rules := e\<rparr>"
  have k: "keeps (run_steps (map event_step evs))"
    using assms(2) by (intro keeps_run) (auto simp: list_all_iff keeps_event)
  have "probe_ok ?s" by (rule probe_ok_new [OF assms(1)])
  from keepsD [OF k this] obtain as s' where r: "run_steps (map event_step evs) ?s = Some (as, s')" "probe_ok s'" "settings s' = settings ?s"
    by (elim exE conjE) (rule that)
  have lim: "pr_cfg s' = cfg" "pr_rules s' = e" "df_cfg (pr_defrag s') = df" "tr_cfg (pr_tcp s') = tcp"
    using r(3) by (simp_all add: pipeline_new_def defrag_new_def tcp_new_def)
  have pools: "buffered_bytes (pr_defrag s') \<le> df_max_mem_bytes df" "tr_mem_used (pr_tcp s') \<le> tc_max_mem_bytes tcp"
      "length (tr_flows (pr_tcp s')) \<le> max 1 (tc_max_flows tcp)"
    using r(2) lim by (simp_all add: probe_ok_def df_ok_def tcp_ok_def buffered_bytes_def)
  have dirs: "dir_bounded s' d0 \<and> dir_bounded s' d1" if "pr_flows s' k = Some (d0, d1)" for k d0 d1
    using r(2) that by (fastforce simp: probe_ok_def)
  show ?thesis
    by (intro exI conjI allI impI, rule r(1)) (use pools dirs in \<open>auto simp: dir_bounded_def lim\<close>)
qed

definition demo_rules :: rule_engine where
  "demo_rules = \<lparr> re_rules = [\<lparr> cr_rule = demo_rule, cr_codes = [] \<rparr>], re_skipped = 0 \<rparr>"

definition demo_defrag :: defrag_cfg where
  "demo_defrag = \<lparr> df_max_datagrams = 4, df_max_mem_bytes = 65536, df_timeout_ms = 30000 \<rparr>"

definition demo_probe :: probe where
  "demo_probe = (pipeline_new probe_cfg_new demo_geoip [] \<lparr> ps_window_ms = 1000, ps_unique_threshold = 10 \<rparr>
     \<lparr> rf_window_ms = 1000, rf_pps_threshold = 100, rf_sources = (\<lambda>_. None) \<rparr>
     \<lparr> as_window_ms = 1000, as_gratuitous_threshold = 5, as_bindings = (\<lambda>_. None), as_gratuitous = (\<lambda>_. None) \<rparr>
     demo_defrag demo_tcp)\<lparr>pr_rules := demo_rules\<rparr>"

lemma probe_never_overreads_witness:
  "\<exists>as s'. run_steps (map event_step [Frame (replicate 60 0x45) 5, Tick 1000, Frame [1, 2] 2000]) demo_probe = Some (as, s') \<and>
     buffered_bytes (pr_defrag s') \<le> 65536"
proof -
  have "engine_safe demo_rules"
    by (simp add: engine_safe_def demo_rules_def demo_rule_def content_safe_def content_of_def rule_new_def)
  from probe_never_overreads [OF this, of "[Frame (replicate 60 0x45) 5, Tick 1000, Frame [1, 2] 2000]" probe_cfg_new demo_geoip "[]"
      "\<lparr> ps_window_ms = 1000, ps_unique_threshold = 10 \<rparr>" "\<lparr> rf_window_ms = 1000, rf_pps_threshold = 100, rf_sources = (\<lambda>_. None) \<rparr>"
      "\<lparr> as_window_ms = 1000, as_gratuitous_threshold = 5, as_bindings = (\<lambda>_. None), as_gratuitous = (\<lambda>_. None) \<rparr>"
      demo_defrag demo_tcp]
  obtain as s' where "run_steps (map event_step [Frame (replicate 60 0x45) 5, Tick 1000, Frame [1, 2] 2000]) demo_probe = Some (as, s')"
    "buffered_bytes (pr_defrag s') \<le> df_max_mem_bytes demo_defrag"
    unfolding demo_probe_def [symmetric] by auto
  then show ?thesis by (intro exI conjI) (auto simp: demo_defrag_def)
qed

end
