(* ===== verification/Eth_Pipeline_Alerts.thy ===== *)
theory Eth_Pipeline_Alerts
  imports Eth_Pipeline_Safety
begin

text \<open>
  What \<open>apps/eth_probe\<close> reports: the silence of trusted sources, the cross-border alerts with their cooldown,
  and the framing of DoIP streams whatever the segments they arrive in.
\<close>

subsection \<open>Trusted sources\<close>

text \<open>
  A frame whose source address is in the trusted set leaves no trace: no alert, and no detector, table or
  window changes. The trusted set decides on exactly the IP frames with a source in one of its networks; an
  ARP frame is never dropped by it.
\<close>

lemma trusted_source_silent:
  assumes "parse_packet (Some buf) (length buf) = Some (True, pp)" "trusted_source (pr_cfg s) pp"
  shows "feed_frame (Some buf) (length buf) now_ms s = Some ([], s) \<and> (is_ipv4 pp \<or> is_ipv6 pp)"
  using assms by (simp add: feed_frame_def feed_packet_def trusted_source_def)

subsection \<open>Cross-border alerts\<close>

definition border_key :: "packet \<Rightarrow> bytes" where
  "border_key pp = take 16 (src_ip pp) @ take 16 (dst_ip pp)"

definition border_step :: "packet \<times> u64 \<Rightarrow> probe_step" where
  "border_step x = check_cross_border (fst x) (snd x)"

text \<open>The traffic that the check is about, whatever was reported before.\<close>

definition crosses_border :: "probe \<Rightarrow> packet \<Rightarrow> bool" where
  "crosses_border s pp \<longleftrightarrow> pc_cross_border_enabled (pr_cfg s) \<and> gi_domestic_loaded (pr_geoip s) \<and>
     \<not> local_destination pp \<and> classify (src_ip pp) (is_ipv6 pp) (pr_geoip s) = HOME \<and>
     classify (dst_ip pp) (is_ipv6 pp) (pr_geoip s) = FOREIGN"

definition cooling :: "probe \<Rightarrow> bytes \<Rightarrow> u64 \<Rightarrow> bool" where
  "cooling s k t \<longleftrightarrow> (case pr_xborder_last s k of None \<Rightarrow> False
     | Some t0 \<Rightarrow> t - t0 < ucast (pc_cross_border_cooldown_ms (pr_cfg s)))"

lemma cross_border_cases:
  "check_cross_border pp t s = Some (if crosses_border s pp \<and> \<not> cooling s (border_key pp) t
     then ([make_probe_alert DT_CROSS_BORDER pp 0], s\<lparr>pr_xborder_last := (pr_xborder_last s)(border_key pp \<mapsto> t)\<rparr>)
     else ([], s))"
  by (simp add: check_cross_border_def crosses_border_def cooling_def border_key_def Let_def)

lemma u64_diff_less: "unat t0 \<le> unat t \<Longrightarrow> unat t < unat t0 + unat c \<Longrightarrow> t - t0 < (c :: u64)"
  by (simp add: word_less_nat_alt unat_sub_if_size)

lemma border_run_muted:
  assumes "pr_xborder_last s k = Some t0" "list_all (\<lambda>(pp, t). t - t0 < ucast (pc_cross_border_cooldown_ms (pr_cfg s))) xs"
  shows "\<exists>as s'. run_steps (map border_step xs) s = Some (as, s') \<and>
    (\<forall>a \<in> set as. pa_src_ip a @ pa_dst_ip a \<noteq> k)"
  using assms
proof (induction xs arbitrary: s)
  case (Cons x xs)
  obtain pp t where x: "x = (pp, t)" by fastforce
  let ?fires = "crosses_border s pp \<and> \<not> cooling s (border_key pp) t"
  let ?s = "if ?fires then s\<lparr>pr_xborder_last := (pr_xborder_last s)(border_key pp \<mapsto> t)\<rparr> else s"
  have other: "border_key pp \<noteq> k" if ?fires using that Cons.prems x by (auto simp: cooling_def)
  have s: "pr_xborder_last ?s k = Some t0" "pr_cfg ?s = pr_cfg s" using Cons.prems(1) other by auto
  obtain as s' where r: "run_steps (map border_step xs) ?s = Some (as, s')" "\<forall>a \<in> set as. pa_src_ip a @ pa_dst_ip a \<noteq> k"
    using Cons.IH [of ?s] s Cons.prems(2) by auto
  have step: "border_step x s = Some (if ?fires then [make_probe_alert DT_CROSS_BORDER pp 0] else [], ?s)"
    by (simp add: x border_step_def cross_border_cases)
  have key: "pa_src_ip a @ pa_dst_ip a = border_key pp" if "a = make_probe_alert DT_CROSS_BORDER pp 0" for a
    by (simp add: that make_probe_alert_def border_key_def)
  show ?case
  proof (intro exI conjI)
    show "run_steps (map border_step (x # xs)) s =
        Some ((if ?fires then [make_probe_alert DT_CROSS_BORDER pp 0] else []) @ as, s')"
      using r(1) by (simp only: list.map run_steps.simps then_step_def step bind.bind_lunit prod.case)
    show "\<forall>a \<in> set ((if ?fires then [make_probe_alert DT_CROSS_BORDER pp 0] else []) @ as). pa_src_ip a @ pa_dst_ip a \<noteq> k"
      using r(2) other key by auto
  qed
qed simp

text \<open>
  C26: the cross-border check reports a packet exactly when it goes from the home network to a foreign address that
  is not a local destination, the check is enabled and its list loaded, and no alert for the same pair of
  addresses was raised within the cooldown. After an alert, of all the packets in the following cooldown,
  of any pair and in any order, none raises another alert for this pair.
\<close>

theorem cross_border_once_per_cooldown:
  assumes "list_all (\<lambda>(q, t). unat now_ms \<le> unat t \<and> unat t < unat now_ms + unat (pc_cross_border_cooldown_ms (pr_cfg s))) xs"
  shows "\<exists>as s'. check_cross_border pp now_ms s = Some (as, s') \<and>
     (as \<noteq> [] \<longleftrightarrow> crosses_border s pp \<and> \<not> cooling s (border_key pp) now_ms) \<and>
     (as \<noteq> [] \<longrightarrow> (\<exists>bs s2. run_steps (map border_step xs) s' = Some (bs, s2) \<and>
        (\<forall>a \<in> set bs. pa_src_ip a @ pa_dst_ip a \<noteq> border_key pp)))"
proof (cases "crosses_border s pp \<and> \<not> cooling s (border_key pp) now_ms")
  case True
  let ?s = "s\<lparr>pr_xborder_last := (pr_xborder_last s)(border_key pp \<mapsto> now_ms)\<rparr>"
  have "list_all (\<lambda>(q, t). t - now_ms < ucast (pc_cross_border_cooldown_ms (pr_cfg ?s))) xs"
    using assms by (auto simp: list_all_iff intro!: u64_diff_less)
  from border_run_muted [OF _ this, of "border_key pp"] show ?thesis
    using True by (simp add: cross_border_cases)
qed (auto simp: cross_border_cases)

definition border_geoip :: geoip where
  "border_geoip = demo_geoip\<lparr>gi_home_v4 := trie_insert [10, 0, 0, 0] 8 32 trie_empty, gi_domestic_loaded := True\<rparr>"

definition border_probe :: probe where
  "border_probe = demo_probe\<lparr>pr_geoip := border_geoip\<rparr>"

definition border_packet :: packet where
  "border_packet = no_packet\<lparr>is_ipv4 := True, src_ip := 10 # replicate 15 0, dst_ip := [8, 8, 8, 8] @ replicate 12 0\<rparr>"

lemma cross_border_once_per_cooldown_witness:
  "\<exists>as s' bs s2. check_cross_border border_packet 1000 border_probe = Some (as, s') \<and> as \<noteq> [] \<and>
     run_steps (map border_step [(border_packet, 2000), (no_packet, 3000)]) s' = Some (bs, s2) \<and>
     (\<forall>a \<in> set bs. pa_src_ip a @ pa_dst_ip a \<noteq> border_key border_packet)"
proof -
  have cfg: "pr_cfg border_probe = probe_cfg_new" "pr_xborder_last border_probe = (\<lambda>_. None)"
    by (simp_all add: border_probe_def demo_probe_def pipeline_new_def)
  have "gi_domestic_loaded border_geoip" "classify (src_ip border_packet) False border_geoip = HOME"
    "classify (dst_ip border_packet) False border_geoip = FOREIGN" "\<not> is_ipv6 border_packet" "\<not> local_destination border_packet"
    by code_simp+
  then have "crosses_border border_probe border_packet"
    by (simp add: crosses_border_def probe_cfg_new_def border_probe_def demo_probe_def pipeline_new_def)
  moreover have "\<not> cooling border_probe (border_key border_packet) 1000" by (simp add: cooling_def cfg)
  ultimately show ?thesis
    using cross_border_once_per_cooldown [of 1000 border_probe "[(border_packet, 2000), (no_packet, 3000)]" border_packet]
    by (auto simp: cfg probe_cfg_new_def simp del: list.map)
qed

subsection \<open>DoIP streams\<close>

text \<open>A message whose header counts its own payload.\<close>

definition doip_framed :: "bytes \<Rightarrow> bool" where
  "doip_framed m \<longleftrightarrow> 8 \<le> length m \<and> length m = 8 + unat (be32 (m ! 4) (m ! 5) (m ! 6) (m ! 7)) \<and>
     length m \<le> 8 + DOIP_MAX_PAYLOAD"

definition doip_alerts :: "packet \<Rightarrow> bytes \<Rightarrow> probe_alert list" where
  "doip_alerts pp m = (case inspect_doip_message pp (Some m) (length m) of None \<Rightarrow> [] | Some as \<Rightarrow> as)"

lemma rd32_shift: "rd32 (pre @ acc) (length pre + i) = rd32 acc i"
  by (simp add: rd32_def rd8_def nth_append ac_simps)

lemma view_shift: "view (pre @ acc) (length pre + i) n = view acc i n"
  by (simp add: view_def)

lemma doip_frames_shift:
  "doip_frames pp (pre @ acc) (length pre + off) = map_option (\<lambda>(as, e). (as, length pre + e)) (doip_frames pp acc off)"
proof (induction pp acc off rule: doip_frames.induct)
  case (1 pp acc off)
  have sub: "size_sub (length (pre @ acc)) (length pre + off) = size_sub (length acc) off"
    by (simp add: size_sub_def)
  show ?case
  proof (cases "size_sub (length acc) off")
    case None
    then show ?thesis using sub by (simp add: doip_frames.simps [of pp acc off] doip_frames.simps [of pp "pre @ acc"])
  next
    case (Some rem)
    note steps = doip_frames.simps [of pp acc off, unfolded Some option.case]
      doip_frames.simps [of pp "pre @ acc" "length pre + off", unfolded sub Some option.case]
    have rd: "rd32 (pre @ acc) (length pre + off + 4) = rd32 acc (off + 4)" using rd32_shift [of pre acc "off + 4"] by (simp add: ac_simps)
    have vw: "view (pre @ acc) (length pre + off) n = view acc off n" for n by (rule view_shift)
    show ?thesis
    proof (cases "rem \<ge> 8")
      case True
      show ?thesis
        unfolding steps rd vw
        using True 1 [OF Some True]
        by (cases "rd32 acc (off + 4)")
          (auto simp: ac_simps bind_eq_None_conv split: Option.bind_split option.splits)
    qed (simp add: steps)
  qed
qed

lemma doip_frame_first:
  assumes "doip_framed m"
  shows "doip_frames pp (m @ rest) 0 = map_option (\<lambda>(as, e). (doip_alerts pp m @ as, length m + e)) (doip_frames pp rest 0)"
proof -
  define n where "n = be32 (m ! 4) (m ! 5) (m ! 6) (m ! 7)"
  have len: "length m = 8 + unat n" "unat n \<le> DOIP_MAX_PAYLOAD" using assms by (auto simp: doip_framed_def n_def)
  have n: "rd32 (m @ rest) 4 = Some n" using len by (simp add: rd32_Some nth_append n_def)
  have v: "view (m @ rest) 0 (8 + unat n) = Some m" by (simp add: view_def len(1) [symmetric])
  obtain as where as: "inspect_doip_message pp (Some m) (8 + unat n) = Some as"
    using inspect_doip_total [where data = "Some m" and len = "8 + unat n" and pp = pp] len(1) by auto
  have "doip_alerts pp m = as" by (simp add: doip_alerts_def len(1) as)
  moreover have "doip_frames pp (m @ rest) (8 + unat n) = map_option (\<lambda>(as, e). (as, length m + e)) (doip_frames pp rest 0)"
    using doip_frames_shift [of pp m rest 0] len(1) by simp
  ultimately show ?thesis
    using len n v as
    by (subst doip_frames.simps, cases "doip_frames pp rest 0") (auto simp: size_sub_def not_less)
qed

lemma doip_frame_partial:
  assumes "doip_framed (acc @ x)" "x \<noteq> []"
  shows "doip_frames pp acc 0 = Some ([], 0)"
proof (cases "length acc < 8")
  case False
  let ?n = "be32 (acc ! 4) (acc ! 5) (acc ! 6) (acc ! 7)"
  have n: "length (acc @ x) = 8 + unat ?n" "unat ?n \<le> DOIP_MAX_PAYLOAD"
    using assms(1) False by (auto simp: doip_framed_def nth_append)
  have "length acc < 8 + unat ?n" using n(1) assms(2) by (cases x) auto
  moreover have "rd32 acc 4 = Some ?n" using False by (simp add: rd32_Some)
  ultimately show ?thesis using False n(2) by (subst doip_frames.simps) (simp add: size_sub_def not_less)
qed (simp add: doip_frames.simps size_sub_def)

lemma doip_frames_all:
  assumes "list_all doip_framed ms" "part = [] \<or> (\<exists>x. x \<noteq> [] \<and> doip_framed (part @ x))"
  shows "doip_frames pp (concat ms @ part) 0 = Some (concat (map (doip_alerts pp) ms), length (concat ms))"
  using assms(1)
proof (induction ms)
  case Nil
  show ?case using assms(2) doip_frame_partial by (auto simp: doip_frames.simps [of pp "[]"] size_sub_def)
next
  case (Cons m ms)
  then show ?case using doip_frame_first [of m pp "concat ms @ part"] by simp
qed

text \<open>A prefix of a sequence of messages: the complete ones and a proper part of the next.\<close>

lemma split_messages:
  assumes "acc @ rest = concat ms" "list_all (\<lambda>m. m \<noteq> []) ms"
  shows "\<exists>ms1 ms2 part. ms = ms1 @ ms2 \<and> acc = concat ms1 @ part \<and> part @ rest = concat ms2 \<and>
    (part = [] \<or> (\<exists>x. x \<noteq> [] \<and> part @ x = hd ms2 \<and> ms2 \<noteq> []))"
  using assms
proof (induction ms arbitrary: acc)
  case (Cons m ms)
  then obtain us where "acc = m @ us \<and> us @ rest = concat ms \<or> acc @ us = m \<and> us \<noteq> [] \<and> rest = us @ concat ms"
    by (auto simp: append_eq_append_conv2) (metis append_Nil append_Nil2)+
  then consider (whole) "acc = m @ us" "us @ rest = concat ms" | (part) "acc @ us = m" "us \<noteq> []" "rest = us @ concat ms" by blast
  then show ?case
  proof cases
    case whole
    then obtain ms1 ms2 part where "ms = ms1 @ ms2" "us = concat ms1 @ part" "part @ rest = concat ms2"
      "part = [] \<or> (\<exists>x. x \<noteq> [] \<and> part @ x = hd ms2 \<and> ms2 \<noteq> [])"
      using Cons.IH [of us] Cons.prems(2) by auto
    then show ?thesis using whole(1)
      by (intro exI [of _ "m # ms1"] exI [of _ ms2] exI [of _ part]) simp
  next
    case part
    then show ?thesis
      by (intro exI [of _ "[]"] exI [of _ "m # ms"] exI [of _ acc]) auto
  qed
qed auto

text \<open>The pieces of a stream, each fed to the handler, with the cap on what is kept.\<close>

fun feed_pieces :: "packet \<Rightarrow> nat \<Rightarrow> bytes list \<Rightarrow> dir_state \<Rightarrow> (probe_alert list \<times> dir_state) option" where
  "feed_pieces pp cap [] ds = Some ([], ds)"
| "feed_pieces pp cap (p # ps) ds = do {
     (as, ds) \<leftarrow> feed_doip_stream pp p ds;
     (bs, ds) \<leftarrow> feed_pieces pp cap ps (trim_acc cap ds);
     Some (as @ bs, ds) }"

definition doip_message :: "nat \<Rightarrow> bytes \<Rightarrow> bool" where
  "doip_message cap m \<longleftrightarrow> doip_framed m \<and> length m \<le> cap"

lemma feed_pieces_messages:
  assumes "ds_acc ds @ concat ps = concat ms" "list_all (doip_message cap) ms"
    "ds_acc ds = [] \<or> (\<exists>x. x \<noteq> [] \<and> ds_acc ds @ x = hd ms \<and> ms \<noteq> [])"
  shows "\<exists>ds'. feed_pieces pp cap ps ds = Some (concat (map (doip_alerts pp) ms), ds') \<and> ds_acc ds' = []"
  using assms
proof (induction ps arbitrary: ds ms)
  case Nil
  have "ms = []"
  proof (cases ms)
    case (Cons m ms')
    then show ?thesis using Nil by (auto simp: doip_message_def doip_framed_def)
  qed simp
  then show ?case using Nil by simp
next
  case (Cons p ps)
  have "list_all (\<lambda>m. m \<noteq> []) ms" using Cons.prems(2) by (auto simp: list_all_iff doip_message_def doip_framed_def)
  then obtain ms1 ms2 part where ms: "ms = ms1 @ ms2" "ds_acc ds @ p = concat ms1 @ part" "part @ concat ps = concat ms2"
    "part = [] \<or> (\<exists>x. x \<noteq> [] \<and> part @ x = hd ms2 \<and> ms2 \<noteq> [])"
    using split_messages [of "ds_acc ds @ p" "concat ps" ms] Cons.prems(1) by auto
  have framed: "list_all doip_framed ms1" "part = [] \<or> (\<exists>x. x \<noteq> [] \<and> doip_framed (part @ x))"
    using ms(1,4) Cons.prems(2) hd_in_set [of ms2] by (auto simp: list_all_iff doip_message_def)
  have cap: "length part \<le> cap"
  proof (cases "part = []")
    case False
    then obtain x where "part @ x = hd ms2" "ms2 \<noteq> []" using ms(4) by blast
    then have "length (part @ x) \<le> cap" using ms(1) Cons.prems(2) by (simp add: list_all_iff doip_message_def)
    then show ?thesis by simp
  qed simp
  let ?ds = "ds\<lparr>ds_acc := part\<rparr>"
  have "feed_doip_stream pp p ds = Some (concat (map (doip_alerts pp) ms1), ?ds)"
    using doip_frames_all [OF framed, of pp] ms(2) by (simp add: feed_doip_stream_def)
  moreover have "trim_acc cap ?ds = ?ds" using cap by (simp add: trim_acc_def)
  moreover obtain ds' where "feed_pieces pp cap ps ?ds = Some (concat (map (doip_alerts pp) ms2), ds')" "ds_acc ds' = []"
    using Cons.IH [of ?ds ms2] ms(1,3,4) Cons.prems(2) by auto
  ultimately show ?case using ms(1) by simp
qed

text \<open>
  C27: a DoIP stream is inspected message by message, in order, whatever pieces it arrives in: cut anywhere, even
  inside a header, a sequence of complete messages that fit the buffer of the direction raises exactly the
  alerts of its messages one by one, and nothing is left over.
\<close>

theorem doip_stream_framed:
  assumes "concat ps = concat ms" "list_all (doip_message cap) ms" "ds_acc ds = []"
  shows "\<exists>ds'. feed_pieces pp cap ps ds = Some (concat (map (doip_alerts pp) ms), ds') \<and> ds_acc ds' = []"
  by (rule feed_pieces_messages) (use assms in simp_all)

definition activation :: bytes where
  "activation = [2, 0xFD, 0, 5, 0, 0, 0, 2, 1, 1]"

lemma doip_stream_framed_witness:
  "\<exists>ds'. feed_pieces no_packet 65536 [take 3 activation, drop 3 activation @ [2], drop 1 activation] dir_state_new =
     Some (doip_alerts no_packet activation @ doip_alerts no_packet activation, ds') \<and> doip_alerts no_packet activation \<noteq> []"
proof -
  have m: "doip_message 65536 activation"
    by (simp add: doip_message_def doip_framed_def activation_def be32_def DOIP_MAX_PAYLOAD_def)
  have a: "doip_alerts no_packet activation \<noteq> []" by code_simp
  from doip_stream_framed [of "[take 3 activation, drop 3 activation @ [2], drop 1 activation]" "[activation, activation]" 65536
      dir_state_new no_packet] m a
  show ?thesis by (auto simp: activation_def dir_state_new_def)
qed

text \<open>
  A message longer than the buffer loses its header when the buffer is trimmed, and its payload is then read
  as messages: here, with a buffer of 13 bytes, a message that raises nothing when it comes in one piece raises
  an alert when it comes in two.
\<close>

lemma doip_cap_loses_framing:
  "doip_alerts no_packet ([2, 0xFD, 0x80, 1, 0, 0, 0, 20, 0, 0, 0, 0, 0, 0, 0, 0, 0, 0, 0, 0, 0, 0, 0, 0, 0, 0, 0, 0]) = []"
  "feed_pieces no_packet 13 [[2, 0xFD, 0x80, 1, 0, 0, 0, 20, 0, 0, 0, 0, 0, 0, 0, 0, 0, 0], [0, 0, 0, 0, 0, 0, 0, 0, 0, 0]] dir_state_new =
     Some ([make_probe_alert DT_DOIP no_packet 2, make_probe_alert DT_DOIP no_packet 2],
       dir_state_new\<lparr>ds_acc := [0, 0, 0, 0, 0, 0, 0]\<rparr>)"
proof -
  show "doip_alerts no_packet ([2, 0xFD, 0x80, 1, 0, 0, 0, 20, 0, 0, 0, 0, 0, 0, 0, 0, 0, 0, 0, 0, 0, 0, 0, 0, 0, 0, 0, 0]) = []"
    by (simp add: doip_alerts_def inspect_doip_message_def parse_doip_def rd32_def rd16_def rd8_def be32_def be16_def
        size_sub_def no_doip_def inspect_doip_def known_payload_type_def idsm_defs Let_def)
  let ?p = "[2, 0xFD, 0x80, 1, 0, 0, 0, 20, 0, 0, 0, 0, 0, 0, 0, 0, 0, 0] :: bytes"
  have "doip_framed (?p @ [0, 0, 0, 0, 0, 0, 0, 0, 0, 0])" by (simp add: doip_framed_def be32_def DOIP_MAX_PAYLOAD_def)
  then have one: "doip_frames no_packet ?p 0 = Some ([], 0)" by (rule doip_frame_partial) simp
  let ?ms = "[[0, 0, 20, 0, 0, 0, 0, 0], [0, 0, 0, 0, 0, 0, 0, 0]] :: bytes list"
  have "list_all doip_framed ?ms" "doip_framed ([0, 0, 0, 0, 0, 0, 0] @ [0])"
    by (simp_all add: doip_framed_def be32_def DOIP_MAX_PAYLOAD_def)
  then have "doip_frames no_packet (concat ?ms @ [0, 0, 0, 0, 0, 0, 0]) 0 =
      Some (concat (map (doip_alerts no_packet) ?ms), length (concat ?ms))"
    by (intro doip_frames_all) auto
  moreover have "map (doip_alerts no_packet) ?ms = [[make_probe_alert DT_DOIP no_packet 2], [make_probe_alert DT_DOIP no_packet 2]]"
    by (simp add: doip_alerts_def inspect_doip_message_def parse_doip_def rd32_def rd16_def rd8_def be32_def be16_def
        size_sub_def no_doip_def inspect_doip_def Let_def)
  ultimately have two: "doip_frames no_packet (concat ?ms @ [0, 0, 0, 0, 0, 0, 0]) 0 =
      Some ([make_probe_alert DT_DOIP no_packet 2, make_probe_alert DT_DOIP no_packet 2], 16)" by simp
  show "feed_pieces no_packet 13 [?p, [0, 0, 0, 0, 0, 0, 0, 0, 0, 0]] dir_state_new =
     Some ([make_probe_alert DT_DOIP no_packet 2, make_probe_alert DT_DOIP no_packet 2],
       dir_state_new\<lparr>ds_acc := [0, 0, 0, 0, 0, 0, 0]\<rparr>)"
    using one two by (simp add: feed_doip_stream_def dir_state_new_def trim_acc_def)
qed

subsection \<open>Repeated alerts\<close>

lemma match_rules_member:
  "match_rules pp bufs crs = Some hits \<Longrightarrow> cr \<in> set crs \<Longrightarrow> rule_hits pp bufs cr = Some True \<Longrightarrow> cr_rule cr \<in> set hits"
  by (induction crs arbitrary: hits) (auto simp: bind_eq_Some_conv split: if_splits)

text \<open>
  A rule without payload options is reported for a TCP segment at packet level, and once more for the data that
  the segment delivers.
\<close>

lemma header_rule_reported_twice:
  assumes "cr \<in> set (re_rules (pr_rules s))" "header_ok (cr_rule cr) pp" "ru_contents (cr_rule cr) = []"
    "ru_pcre_patterns (cr_rule cr) = []" "cr_codes cr = []"
    and packet: "match_rules_packet buf pp True s = Some (as, s1)"
    and stream: "handle_stream_data pp res s = Some (bs, s2)"
  shows "make_probe_alert DT_RULE_HIT pp (ru_sid (cr_rule cr)) \<in> set as \<inter> set bs"
proof -
  have hit: "rule_hits pp bufs cr = Some True" for bufs using assms(2-5) by (simp add: rule_hits_def)
  have mem: "cr_rule cr \<in> set hits" if "engine_match pp bufs (pr_rules s) = Some hits" for bufs hits
    using match_rules_member [OF _ assms(1) hit] that by (simp add: engine_match_def)
  have "rule_count (pr_rules s) \<noteq> 0" using assms(1) by (auto simp: rule_count_def)
  then show ?thesis
    using packet stream assms(3,4)
    by (auto simp: match_rules_packet_def handle_stream_data_def Let_def rule_alerts_def bind_eq_Some_conv image_iff
        dest!: mem)
qed

text \<open>The body of an HTTP message is read as the next message.\<close>

lemma http_body_reported:
  "map_option fst (feed_http_stream rule_engine_new no_packet
     (ascii ''POST /a HTTP/1.1'' @ [13, 10, 13, 10] @ ascii ''x=1&y=2'') dir_state_new) =
   Some [make_probe_alert DT_HTTP no_packet HTTP_ALERT_MALFORMED]"
  by code_simp

text \<open>The query type of a zone transfer cannot be read back from the alert.\<close>

lemma dns_alert_ambiguous: "DNS_ALERT_SUSPICIOUS_QTYPE OR 252 = DNS_ALERT_SUSPICIOUS_QTYPE OR 254"
  by (simp add: DNS_ALERT_SUSPICIOUS_QTYPE_def)

end
