(* ===== verification/Host_Sha256.thy ===== *)
theory Host_Sha256
  imports Block_Hash C_Text
begin

text \<open>
  \<open>apps/host_probe/sha256\<close>: the hash of the file integrity check, of a buffer and of a file, and its hexadecimal
  text. The hash is an interpretation of the contract of \<open>Block_Hash\<close>.
\<close>

definition SHA256_LEN :: nat where "SHA256_LEN = 32"

text \<open>The rows of the table.\<close>

definition sha_K :: "u32 list" where
  "sha_K = concat [
    [0x428a2f98, 0x71374491, 0xb5c0fbcf, 0xe9b5dba5],
    [0x3956c25b, 0x59f111f1, 0x923f82a4, 0xab1c5ed5],
    [0xd807aa98, 0x12835b01, 0x243185be, 0x550c7dc3],
    [0x72be5d74, 0x80deb1fe, 0x9bdc06a7, 0xc19bf174],
    [0xe49b69c1, 0xefbe4786, 0x0fc19dc6, 0x240ca1cc],
    [0x2de92c6f, 0x4a7484aa, 0x5cb0a9dc, 0x76f988da],
    [0x983e5152, 0xa831c66d, 0xb00327c8, 0xbf597fc7],
    [0xc6e00bf3, 0xd5a79147, 0x06ca6351, 0x14292967],
    [0x27b70a85, 0x2e1b2138, 0x4d2c6dfc, 0x53380d13],
    [0x650a7354, 0x766a0abb, 0x81c2c92e, 0x92722c85],
    [0xa2bfe8a1, 0xa81a664b, 0xc24b8b70, 0xc76c51a3],
    [0xd192e819, 0xd6990624, 0xf40e3585, 0x106aa070],
    [0x19a4c116, 0x1e376c08, 0x2748774c, 0x34b0bcb5],
    [0x391c0cb3, 0x4ed8aa4a, 0x5b9cca4f, 0x682e6ff3],
    [0x748f82ee, 0x78a5636f, 0x84c87814, 0x8cc70208],
    [0x90befffa, 0xa4506ceb, 0xbef9a3f7, 0xc67178f2]]"

definition rotr :: "u32 \<Rightarrow> nat \<Rightarrow> u32" where
  "rotr x n = drop_bit n x OR push_bit (32 - n) x"

definition sha_word :: "bytes \<Rightarrow> nat \<Rightarrow> u32" where
  "sha_word block i = push_bit 24 (ucast (block ! (4 * i))) OR push_bit 16 (ucast (block ! (4 * i + 1))) OR
     push_bit 8 (ucast (block ! (4 * i + 2))) OR ucast (block ! (4 * i + 3))"

text \<open>The message schedule, extended by its word \<open>i\<close>.\<close>

definition sha_extend :: "nat \<Rightarrow> u32 list \<Rightarrow> u32 list" where
  "sha_extend i w = (let
     s0 = rotr (w ! (i - 15)) 7 XOR rotr (w ! (i - 15)) 18 XOR drop_bit 3 (w ! (i - 15));
     s1 = rotr (w ! (i - 2)) 17 XOR rotr (w ! (i - 2)) 19 XOR drop_bit 10 (w ! (i - 2))
     in w @ [w ! (i - 16) + s0 + w ! (i - 7) + s1])"

definition sha_schedule :: "bytes \<Rightarrow> u32 list" where
  "sha_schedule block = fold sha_extend [16..<64] (map (sha_word block) [0..<16])"

text \<open>The eight working variables, and the chaining value of the same shape.\<close>

record sha_vars =
  v_a :: u32
  v_b :: u32
  v_c :: u32
  v_d :: u32
  v_e :: u32
  v_f :: u32
  v_g :: u32
  v_h :: u32

definition sha_round :: "u32 list \<Rightarrow> nat \<Rightarrow> sha_vars \<Rightarrow> sha_vars" where
  "sha_round w i v = (let
     s1 = rotr (v_e v) 6 XOR rotr (v_e v) 11 XOR rotr (v_e v) 25;
     ch = (v_e v AND v_f v) XOR (NOT (v_e v) AND v_g v);
     t1 = v_h v + s1 + ch + sha_K ! i + w ! i;
     s0 = rotr (v_a v) 2 XOR rotr (v_a v) 13 XOR rotr (v_a v) 22;
     mj = (v_a v AND v_b v) XOR (v_a v AND v_c v) XOR (v_b v AND v_c v);
     t2 = s0 + mj
     in \<lparr> v_a = t1 + t2, v_b = v_a v, v_c = v_b v, v_d = v_c v, v_e = v_d v + t1, v_f = v_e v, v_g = v_f v, v_h = v_g v \<rparr>)"

definition sha_compress :: "sha_vars \<Rightarrow> bytes \<Rightarrow> sha_vars" where
  "sha_compress h block = (let w = sha_schedule block; v = fold (sha_round w) [0..<64] h
     in \<lparr> v_a = v_a h + v_a v, v_b = v_b h + v_b v, v_c = v_c h + v_c v, v_d = v_d h + v_d v,
          v_e = v_e h + v_e v, v_f = v_f h + v_f v, v_g = v_g h + v_g v, v_h = v_h h + v_h v \<rparr>)"

record sha_ctx =
  c_h :: sha_vars
  c_buf :: bytes
  c_total_len :: u64

definition sha_init :: sha_vars where
  "sha_init = \<lparr> v_a = 0x6a09e667, v_b = 0xbb67ae85, v_c = 0x3c6ef372, v_d = 0xa54ff53a,
     v_e = 0x510e527f, v_f = 0x9b05688c, v_g = 0x1f83d9ab, v_h = 0x5be0cd19 \<rparr>"

definition sha_ctx_new :: sha_ctx where
  "sha_ctx_new = \<lparr> c_h = sha_init, c_buf = [], c_total_len = 0 \<rparr>"

definition ctx_update :: "bytes \<Rightarrow> sha_ctx \<Rightarrow> sha_ctx option" where
  "ctx_update data c = (let c = c\<lparr>c_total_len := c_total_len c + of_nat (length data)\<rparr> in
     map_option (\<lambda>(h, buf). c\<lparr>c_h := h, c_buf := buf\<rparr>) (block_feed sha_compress data (c_h c, c_buf c)))"

definition be_bytes64 :: "u64 \<Rightarrow> bytes" where
  "be_bytes64 n = map (\<lambda>i. ucast (drop_bit (56 - 8 * i) n)) [0..<8]"

definition be_bytes32 :: "u32 \<Rightarrow> bytes" where
  "be_bytes32 n = [byte3 n, byte2 n, byte1 n, byte0 n]"

definition sha_out :: "sha_vars \<Rightarrow> bytes" where
  "sha_out h = concat (map be_bytes32 [v_a h, v_b h, v_c h, v_d h, v_e h, v_f h, v_g h, v_h h])"

definition ctx_final :: "sha_ctx \<Rightarrow> (bytes \<times> sha_ctx) option" where
  "ctx_final c = (let bit_len = c_total_len c * 8 in do {
     c \<leftarrow> ctx_update [0x80] c;
     c \<leftarrow> pad_zeros ctx_update c_buf 64 c;
     c \<leftarrow> ctx_update (be_bytes64 bit_len) c;
     Some (sha_out (c_h c), c) })"

definition sha256 :: "bytes \<Rightarrow> bytes option" where
  "sha256 data = do { c \<leftarrow> ctx_update data sha_ctx_new; (out, _) \<leftarrow> ctx_final c; Some out }"

text \<open>
  The pieces of 64 KiB that a file is read in, and the hash of a file: the file is \<open>None\<close> when it cannot be opened,
  and the flag says that a read failed. The inner result is \<open>None\<close> when the function returns false.
\<close>

function read_pieces :: "nat \<Rightarrow> bytes \<Rightarrow> bytes list" where
  "read_pieces n data = (if n = 0 \<or> length data \<le> n then (if data = [] then [] else [data])
     else take n data # read_pieces n (drop n data))"
  by pat_completeness auto
termination
  by (relation "measure (\<lambda>(_, data). length data)") auto

declare read_pieces.simps [simp del]

definition sha256_file :: "bytes option \<Rightarrow> bool \<Rightarrow> bytes option option" where
  "sha256_file file bad = (case file of None \<Rightarrow> Some None
     | Some data \<Rightarrow> do {
         c \<leftarrow> update_all ctx_update (read_pieces 65536 data) sha_ctx_new;
         if bad then Some None
         else do { (out, _) \<leftarrow> ctx_final c; Some (Some out) } })"

subsection \<open>Hexadecimal text\<close>

definition hex_char :: "nat \<Rightarrow> char" where
  "hex_char n = ''0123456789abcdef'' ! n"

definition sha256_hex :: "bytes \<Rightarrow> string" where
  "sha256_hex digest = concat (map (\<lambda>b. [hex_char (unat (drop_bit 4 b)), hex_char (unat (b AND 0x0F))]) digest)"

definition nib :: "char \<Rightarrow> u8 option" where
  "nib c = (let n = of_char c in
     if 48 \<le> n \<and> n \<le> 57 then Some (n - 48)
     else if 97 \<le> n \<and> n \<le> 102 then Some (n - 97 + 10)
     else if 65 \<le> n \<and> n \<le> 70 then Some (n - 65 + 10) else None)"

text \<open>The loop over pairs of digits; an odd number of digits is excluded by the check of the length.\<close>

fun hex_pairs :: "string \<Rightarrow> bytes option" where
  "hex_pairs (a # b # s) = do { hi \<leftarrow> nib a; lo \<leftarrow> nib b; r \<leftarrow> hex_pairs s; Some ((push_bit 4 hi OR lo) # r) }"
| "hex_pairs _ = Some []"

definition hex_to_bytes :: "string \<Rightarrow> nat \<Rightarrow> bytes option" where
  "hex_to_bytes hex n = (if length hex \<noteq> n * 2 then None else hex_pairs hex)"

definition sha256_from_hex :: "string \<Rightarrow> bytes option" where
  "sha256_from_hex hex = hex_to_bytes hex SHA256_LEN"

subsection \<open>The hash of a file is the hash of its bytes\<close>

interpretation sha_hash: block_hash sha_compress ctx_update c_h c_buf
proof
  fix c :: sha_ctx and data
  assume "length (c_buf c) < 64"
  then show "\<exists>c'. ctx_update data c = Some c' \<and> (c_h c', c_buf c') = hash_blocks sha_compress (c_h c) (c_buf c @ data)"
    by (cases "hash_blocks sha_compress (c_h c) (c_buf c @ data)")
      (simp add: ctx_update_def block_feed_blocks Let_def)
qed

lemma ctx_update_total: "ctx_update p c = Some c' \<Longrightarrow> c_total_len c' = c_total_len c + of_nat (length p)"
  by (auto simp: ctx_update_def Let_def)

lemma ctx_all_total: "update_all ctx_update ps c = Some c' \<Longrightarrow> c_total_len c' = c_total_len c + of_nat (length (concat ps))"
  by (induction ps arbitrary: c) (auto simp: bind_eq_Some_conv dest!: ctx_update_total)

definition sha_padded :: "bytes \<Rightarrow> bytes" where
  "sha_padded msg = msg @ [0x80] @ replicate ((119 - length msg mod 64) mod 64) 0 @ be_bytes64 (of_nat (length msg) * 8)"

definition sha_digest :: "bytes \<Rightarrow> bytes" where
  "sha_digest msg = sha_out (fst (hash_blocks sha_compress sha_init (sha_padded msg)))"

lemma sha_pieces:
  "\<exists>c c'. update_all ctx_update ps sha_ctx_new = Some c \<and> ctx_final c = Some (sha_digest (concat ps), c')"
proof -
  let ?msg = "concat ps" and ?len = "be_bytes64 (of_nat (length (concat ps)) * 8)"
  have new: "c_buf sha_ctx_new = []" "c_total_len sha_ctx_new = 0" "c_h sha_ctx_new = sha_init" by (simp_all add: sha_ctx_new_def)
  obtain c where c: "update_all ctx_update ps sha_ctx_new = Some c"
    "(c_h c, c_buf c) = hash_blocks sha_compress (c_h sha_ctx_new) ?msg"
    using sha_hash.all_updated [of sha_ctx_new ps] by (auto simp: new)
  have total: "c_total_len c = of_nat (length ?msg)" using ctx_all_total [OF c(1)] by (simp add: new)
  obtain c2 c3 where p: "ctx_update [0x80] c = Some c2" "pad_zeros ctx_update c_buf 64 c2 = Some c3" "length (c_buf c3) = 56"
    "(c_h c3, c_buf c3) = hash_blocks sha_compress (c_h sha_ctx_new)
      (?msg @ [0x80] @ replicate ((119 - length ?msg mod 64) mod 64) 0)"
    using sha_hash.padded [OF new(1) c(2)] by blast
  have "length (c_buf c3) < 64" using p(3) by simp
  then obtain c4 where c4: "ctx_update ?len c3 = Some c4" "(c_h c4, c_buf c4) = hash_blocks sha_compress (c_h c3) (c_buf c3 @ ?len)"
    using sha_hash.updated by blast
  have "hash_blocks sha_compress sha_init (sha_padded ?msg) = (c_h c4, c_buf c4)"
    using hash_blocks_then [OF p(4) [symmetric], of ?len] c4(2) by (simp add: sha_padded_def new)
  then have "sha_out (c_h c4) = sha_digest ?msg" by (simp add: sha_digest_def)
  then have "ctx_final c = Some (sha_digest ?msg, c4)"
    using p(1,2) c4(1) by (simp add: ctx_final_def Let_def total)
  then show ?thesis using c(1) by blast
qed

lemma sha_one_shot: "sha256 p = Some (sha_digest p)"
  using sha_pieces [of "[p]"] by (auto simp: sha256_def bind_eq_Some_conv)

lemma read_pieces_concat: "concat (read_pieces n data) = data"
proof (induction n data rule: read_pieces.induct)
  case (1 n data)
  then show ?case by (subst read_pieces.simps) simp
qed

lemma nib_hex_char: "n < 16 \<Longrightarrow> nib (hex_char n) = Some (of_nat n)"
  by (simp add: numeral_eq_Suc less_Suc_eq) (elim disjE; simp add: hex_char_def nib_def Let_def)

lemma low_nibble: "b AND 0x0F = take_bit 4 (b :: u8)"
  by (rule bit_word_eqI) (auto simp: bit_simps numeral_eq_Suc less_Suc_eq bit_Suc)

lemma nibbles_small: "unat (b AND 0x0F :: u8) < 16" "unat (drop_bit 4 b :: u8) < 16"
  using less_mult_imp_div_less [of "unat b" 16 16] unat_u8_bound [of b]
  by (simp_all add: low_nibble unsigned_take_bit_eq take_bit_eq_mod [where 'a = nat] unat_drop_bit_eq drop_bit_eq_div [where 'a = nat])

lemma hex_pairs_hex: "hex_pairs (sha256_hex d) = Some d"
proof (induction d)
  case (Cons b d)
  have "push_bit 4 (drop_bit 4 b) OR (b AND 0x0F) = b"
    unfolding low_nibble by (rule bit_word_eqI) (auto simp: bit_or_iff bit_push_bit_iff bit_drop_bit_eq bit_take_bit_iff)
  then show ?case using Cons by (simp add: sha256_hex_def nib_hex_char nibbles_small)
qed (simp add: sha256_hex_def)

text \<open>The digest of a file is that of its bytes, however it is read.\<close>

lemma sha_file: "sha256_file (Some data) False = Some (Some (sha_digest data))"
  using sha_pieces [of "read_pieces 65536 data"] by (auto simp: sha256_file_def read_pieces_concat bind_eq_Some_conv)

lemma sha_digest_length [simp]: "length (sha_digest data) = SHA256_LEN"
  by (simp add: sha_digest_def sha_out_def be_bytes32_def SHA256_LEN_def)

lemma sha256_hex_length [simp]: "length (sha256_hex d) = 2 * length d"
  by (induction d) (simp_all add: sha256_hex_def)

lemma sha256_hex_back: "length d = SHA256_LEN \<Longrightarrow> sha256_from_hex (sha256_hex d) = Some d"
  by (simp add: sha256_from_hex_def hex_to_bytes_def hex_pairs_hex)

end
