(* ===== verification/Host_Event.thy ===== *)
theory Host_Event
  imports Host_Sha256
begin

text \<open>
  \<open>apps/host_probe/event\<close> and \<open>apps/host_probe/alert\<close>, with the report of an alert in
  \<open>apps/host_probe/main.cpp\<close>: the host events, the lines of the replay log, the alerts and their context bytes.
  A \<open>char[16]\<close> command name is the C string it holds. A function that returns false is \<open>None\<close>: its callers
  do not look at the event then.
\<close>

subsection \<open>Events\<close>

datatype host_kind = EXEC | FILE_SCAN | MODULE_SCAN | SNAPSHOT

definition COMM_LEN :: nat where "COMM_LEN = 16"

record exec_event =
  e_pid :: u32
  e_ppid :: u32
  e_uid :: u32
  e_euid :: u32
  e_gid :: u32
  e_egid :: u32
  e_comm :: string
  e_parent_comm :: string
  e_exe :: string

record file_scan_event =
  f_path :: string
  f_sha256 :: bytes
  f_present :: bool
  f_mode :: u32
  f_uid :: u32

record module_scan_event =
  m_name :: string

record snapshot_event =
  s_zombies :: u32
  s_top_cpu_pid :: u32
  s_top_cpu_uid :: u32
  s_top_cpu_ppm :: u32
  s_top_cpu_comm :: string
  s_top_mem_pid :: u32
  s_top_mem_uid :: u32
  s_top_mem_rss_kb :: u64
  s_top_mem_comm :: string

record host_event =
  ev_kind :: host_kind
  ev_ts_ms :: u64
  ev_exec :: exec_event
  ev_file :: file_scan_event
  ev_module :: module_scan_event
  ev_snap :: snapshot_event

definition exec_new :: exec_event where
  "exec_new = \<lparr> e_pid = 0, e_ppid = 0, e_uid = 0, e_euid = 0, e_gid = 0, e_egid = 0,
     e_comm = [], e_parent_comm = [], e_exe = [] \<rparr>"

definition file_scan_new :: file_scan_event where
  "file_scan_new = \<lparr> f_path = [], f_sha256 = replicate 32 0, f_present = False, f_mode = 0, f_uid = 0 \<rparr>"

definition snapshot_new :: snapshot_event where
  "snapshot_new = \<lparr> s_zombies = 0, s_top_cpu_pid = 0, s_top_cpu_uid = 0, s_top_cpu_ppm = 0, s_top_cpu_comm = [],
     s_top_mem_pid = 0, s_top_mem_uid = 0, s_top_mem_rss_kb = 0, s_top_mem_comm = [] \<rparr>"

definition host_event_new :: host_event where
  "host_event_new = \<lparr> ev_kind = EXEC, ev_ts_ms = 0, ev_exec = exec_new, ev_file = file_scan_new,
     ev_module = \<lparr> m_name = [] \<rparr>, ev_snap = snapshot_new \<rparr>"

subsection \<open>The extraction operators of a stream\<close>

text \<open>
  \<open>>>\<close> into a string and into a \<open>uint32_t\<close>, from what is left of the line: \<open>None\<close> when the stream
  fails. A number may have a sign, ends at the first character that is no digit, and fails when it does not fit;
  a negative one wraps.
\<close>

definition ext_str :: "string \<Rightarrow> (string \<times> string) option" where
  "ext_str s = (let r = dropWhile is_space s in
     if r = [] then None else Some (takeWhile (\<lambda>c. \<not> is_space c) r, dropWhile (\<lambda>c. \<not> is_space c) r))"

definition ext_u32 :: "string \<Rightarrow> (u32 \<times> string) option" where
  "ext_u32 s = (let (neg, r) = strip_sign (dropWhile is_space s); ds = digits_of 10 r; n = number_of 10 ds in
     if ds = [] \<or> n \<ge> 2 ^ 32 then None
     else Some (if neg then - of_nat n else of_nat n, drop (length ds) r))"

text \<open>The whole-token numbers of the file-local parsers.\<close>

definition parse_u64 :: "string \<Rightarrow> u64 option" where
  "parse_u64 s = (case c_strtoul 10 s of Some (v, []) \<Rightarrow> Some v | _ \<Rightarrow> None)"

definition parse_u32 :: "string \<Rightarrow> u32 option" where
  "parse_u32 s = map_option ucast (parse_u64 s)"

definition copy_comm :: "string \<Rightarrow> string" where
  "copy_comm s = take (COMM_LEN - 1) (c_str s)"

subsection \<open>The lines of the replay log\<close>

definition parse_exec :: "string \<Rightarrow> host_event option" where
  "parse_exec s = do {
     (ts, s) \<leftarrow> ext_str s;
     (pid, s) \<leftarrow> ext_u32 s;
     (ppid, s) \<leftarrow> ext_u32 s;
     (uid, s) \<leftarrow> ext_u32 s;
     (euid, s) \<leftarrow> ext_u32 s;
     (gid, s) \<leftarrow> ext_u32 s;
     (egid, s) \<leftarrow> ext_u32 s;
     (comm, s) \<leftarrow> ext_str s;
     (parent, s) \<leftarrow> ext_str s;
     ts_ms \<leftarrow> parse_u64 ts;
     let exe = (case ext_str s of Some (exe, _) \<Rightarrow> exe | None \<Rightarrow> []);
     Some (host_event_new\<lparr>ev_kind := EXEC, ev_ts_ms := ts_ms,
       ev_exec := \<lparr> e_pid = pid, e_ppid = ppid, e_uid = uid, e_euid = euid, e_gid = gid, e_egid = egid,
         e_comm = copy_comm comm, e_parent_comm = copy_comm parent, e_exe = exe \<rparr>\<rparr>) }"

definition parse_file :: "string \<Rightarrow> host_event option" where
  "parse_file s = do {
     (ts, s) \<leftarrow> ext_str s;
     (path, s) \<leftarrow> ext_str s;
     (present, s) \<leftarrow> ext_str s;
     (mode, s) \<leftarrow> ext_str s;
     (uid, s) \<leftarrow> ext_str s;
     (sha, s) \<leftarrow> ext_str s;
     ts_ms \<leftarrow> parse_u64 ts;
     mv \<leftarrow> (case c_strtoul 8 mode of Some (v, []) \<Rightarrow> Some (ucast v) | _ \<Rightarrow> None);
     uid \<leftarrow> parse_u32 uid;
     digest \<leftarrow> (if present = ''1'' \<and> sha \<noteq> ''-'' then hex_to_bytes sha 32 else Some (replicate 32 0));
     Some (host_event_new\<lparr>ev_kind := FILE_SCAN, ev_ts_ms := ts_ms,
       ev_file := \<lparr> f_path = path, f_sha256 = digest, f_present = (present = ''1''), f_mode = mv, f_uid = uid \<rparr>\<rparr>) }"

definition parse_module :: "string \<Rightarrow> host_event option" where
  "parse_module s = do {
     (ts, s) \<leftarrow> ext_str s;
     (name, s) \<leftarrow> ext_str s;
     ts_ms \<leftarrow> parse_u64 ts;
     Some (host_event_new\<lparr>ev_kind := MODULE_SCAN, ev_ts_ms := ts_ms, ev_module := \<lparr> m_name = name \<rparr>\<rparr>) }"

definition parse_snap :: "string \<Rightarrow> host_event option" where
  "parse_snap s = do {
     (ts, s) \<leftarrow> ext_str s;
     (zombies, s) \<leftarrow> ext_u32 s;
     (cpu_pid, s) \<leftarrow> ext_str s;
     (cpu_uid, s) \<leftarrow> ext_str s;
     (cpu_ppm, s) \<leftarrow> ext_str s;
     (cpu_comm, s) \<leftarrow> ext_str s;
     (mem_pid, s) \<leftarrow> ext_str s;
     (mem_uid, s) \<leftarrow> ext_str s;
     (mem_kb, s) \<leftarrow> ext_str s;
     (mem_comm, s) \<leftarrow> ext_str s;
     ts_ms \<leftarrow> parse_u64 ts;
     cpu_pid \<leftarrow> parse_u32 cpu_pid;
     cpu_uid \<leftarrow> parse_u32 cpu_uid;
     cpu_ppm \<leftarrow> parse_u32 cpu_ppm;
     mem_pid \<leftarrow> parse_u32 mem_pid;
     mem_uid \<leftarrow> parse_u32 mem_uid;
     mem_kb \<leftarrow> parse_u64 mem_kb;
     Some (host_event_new\<lparr>ev_kind := SNAPSHOT, ev_ts_ms := ts_ms,
       ev_snap := \<lparr> s_zombies = zombies, s_top_cpu_pid = cpu_pid, s_top_cpu_uid = cpu_uid, s_top_cpu_ppm = cpu_ppm,
         s_top_cpu_comm = copy_comm cpu_comm, s_top_mem_pid = mem_pid, s_top_mem_uid = mem_uid,
         s_top_mem_rss_kb = mem_kb, s_top_mem_comm = copy_comm mem_comm \<rparr>\<rparr>) }"

definition parse_host_event :: "string \<Rightarrow> host_event option" where
  "parse_host_event line = do {
     (kind, s) \<leftarrow> ext_str (takeWhile (\<lambda>c. c \<noteq> CHR ''#'') line);
     if kind = ''exec'' then parse_exec s
     else if kind = ''file'' then parse_file s
     else if kind = ''module'' then parse_module s
     else if kind = ''snap'' then parse_snap s
     else None }"

subsection \<open>Alerts\<close>

record host_alert =
  h_detector_type :: u8
  h_flags :: u8
  h_pid :: u32
  h_uid :: u32
  h_count :: u32
  h_aux :: u32
  h_name :: string

definition host_alert_new :: host_alert where
  "host_alert_new = \<lparr> h_detector_type = 0, h_flags = 0, h_pid = 0, h_uid = 0, h_count = 1, h_aux = 0,
     h_name = replicate 12 CHR 0x00 \<rparr>"

definition base_name :: "string \<Rightarrow> string" where
  "base_name p = rev (takeWhile (\<lambda>c. c \<noteq> CHR ''/'') (rev p))"

definition fill_name :: "string \<Rightarrow> string" where
  "fill_name s = (let base = take 11 (base_name s) in base @ replicate (12 - length base) CHR 0x00)"

abbreviation (input) "DT_UNKNOWN_EXEC \<equiv> 1 :: u8"
abbreviation (input) "DT_PRIV_ESC \<equiv> 2 :: u8"
abbreviation (input) "DT_FORK_FLOOD \<equiv> 3 :: u8"
abbreviation (input) "DT_REV_SHELL \<equiv> 4 :: u8"
abbreviation (input) "DT_FILE_MOD \<equiv> 5 :: u8"
abbreviation (input) "DT_NEW_SETUID \<equiv> 6 :: u8"
abbreviation (input) "DT_KMOD_LOAD \<equiv> 7 :: u8"
abbreviation (input) "DT_ZOMBIE_STORM \<equiv> 8 :: u8"
abbreviation (input) "DT_RES_EXHAUST \<equiv> 9 :: u8"
abbreviation (input) "DT_ROOT_SHELL \<equiv> 10 :: u8"

abbreviation (input) "HF_SETUID \<equiv> 0x01 :: u8"
abbreviation (input) "HF_SETGID \<equiv> 0x02 :: u8"
abbreviation (input) "HF_MISSING \<equiv> 0x04 :: u8"
abbreviation (input) "HF_NET_PARENT \<equiv> 0x08 :: u8"

abbreviation (input) "FILE_MOD_HASH \<equiv> 1 :: u32"
abbreviation (input) "FILE_MOD_GONE \<equiv> 2 :: u32"
abbreviation (input) "RES_EXHAUST_CPU \<equiv> 1 :: u32"
abbreviation (input) "RES_EXHAUST_MEM \<equiv> 2 :: u32"
abbreviation (input) "ROOT_SHELL_TTY \<equiv> 1 :: u32"
abbreviation (input) "ROOT_SHELL_NET \<equiv> 2 :: u32"

definition make_exec_alert :: "u8 \<Rightarrow> exec_event \<Rightarrow> u8 \<Rightarrow> u32 \<Rightarrow> host_alert" where
  "make_exec_alert dt e flags aux = host_alert_new\<lparr>h_detector_type := dt, h_flags := flags, h_pid := e_pid e,
     h_uid := e_uid e, h_aux := aux, h_name := fill_name (if e_comm e \<noteq> [] then e_comm e else e_exe e)\<rparr>"

definition make_file_alert :: "u8 \<Rightarrow> string \<Rightarrow> u32 \<Rightarrow> u8 \<Rightarrow> u32 \<Rightarrow> host_alert" where
  "make_file_alert dt path mode flags aux = host_alert_new\<lparr>h_detector_type := dt, h_flags := flags,
     h_uid := mode, h_aux := aux, h_name := fill_name path\<rparr>"

definition make_name_alert :: "u8 \<Rightarrow> string \<Rightarrow> host_alert" where
  "make_name_alert dt name = host_alert_new\<lparr>h_detector_type := dt, h_name := fill_name name\<rparr>"

definition make_snap_alert :: "u8 \<Rightarrow> snapshot_event \<Rightarrow> u32 \<Rightarrow> host_alert" where
  "make_snap_alert dt s aux = (if aux = RES_EXHAUST_MEM
     then host_alert_new\<lparr>h_detector_type := dt, h_aux := aux, h_pid := s_top_mem_pid s, h_uid := s_top_mem_uid s,
       h_name := fill_name (s_top_mem_comm s)\<rparr>
     else host_alert_new\<lparr>h_detector_type := dt, h_aux := aux, h_pid := s_top_cpu_pid s, h_uid := s_top_cpu_uid s,
       h_name := fill_name (s_top_cpu_comm s)\<rparr>)"

subsection \<open>The report of an alert\<close>

definition sev_for_detector :: "u8 \<Rightarrow> u16" where
  "sev_for_detector t = (if 1 \<le> t \<and> t \<le> 10 then ucast (t - 1) else 0xFFFF)"

definition char_byte :: "char \<Rightarrow> u8" where "char_byte c = of_char c"

definition serialize_context :: "host_alert \<Rightarrow> bytes" where
  "serialize_context a = [h_detector_type a, h_flags a]
     @ [byte3 (h_pid a), byte2 (h_pid a), byte1 (h_pid a), byte0 (h_pid a)]
     @ [byte3 (h_uid a), byte2 (h_uid a), byte1 (h_uid a), byte0 (h_uid a)]
     @ [byte3 (h_count a), byte2 (h_count a), byte1 (h_count a), byte0 (h_count a)]
     @ [byte3 (h_aux a), byte2 (h_aux a), byte1 (h_aux a), byte0 (h_aux a)]
     @ map char_byte (h_name a) @ [0, 0]"

text \<open>
  What \<open>report_alert\<close> passes to \<open>IdsM_ReportSecurityEvent\<close>: the internal event id, the context data, its
  version and the count.
\<close>

definition report_alert :: "host_alert \<Rightarrow> (u16 \<times> bytes \<times> u16 \<times> u16) option" where
  "report_alert a = (let count = (if h_count a > 65535 then 65535 else if h_count a = 0 then 1 else ucast (h_count a));
       sev = sev_for_detector (h_detector_type a) in
     if sev = 0xFFFF then None else Some (sev, serialize_context a, 1, count))"

end
