(* ===== verification/Host_Baseline.thy ===== *)
theory Host_Baseline
  imports Host_Sha256 "HOL-Library.AList"
begin

text \<open>
  \<open>apps/host_probe/baseline\<close>: the loaders of the allowlist and of the baselines. A file is the list of its lines,
  \<open>None\<close> when it cannot be opened. A \<open>std::set\<close> of names is a list without duplicates and the map from paths to
  digests an association list with distinct keys, so that they can be iterated; a loader that returns false is an
  \<open>Inl\<close> with its error text, otherwise the count that \<open>*bad\<close> receives comes with the result.
\<close>

type_synonym name_set = "string list"
type_synonym file_baseline = "(string \<times> bytes) list"

definition blank :: "char \<Rightarrow> bool" where
  "blank c \<longleftrightarrow> c = CHR '' '' \<or> c = CHR 0x09"

definition clean_line :: "string \<Rightarrow> string" where
  "clean_line line = trim_of (\<lambda>c. blank c \<or> c = CHR 0x0D) (takeWhile (\<lambda>c. c \<noteq> CHR ''#'') line)"

text \<open>The loop of a loader over the lines of its file, without the empty ones.\<close>

definition load_entries :: "(string \<Rightarrow> 'a \<Rightarrow> 'a) \<Rightarrow> string list \<Rightarrow> 'a \<Rightarrow> 'a" where
  "load_entries step ls acc = fold step (filter (\<lambda>e. e \<noteq> []) (map clean_line ls)) acc"

definition allowlist_entry :: "string \<Rightarrow> name_set \<times> name_set \<times> nat \<Rightarrow> name_set \<times> name_set \<times> nat" where
  "allowlist_entry entry = (\<lambda>(exact, base, skipped).
     if \<exists>c \<in> set entry. blank c then (exact, base, skipped + 1)
     else if CHR ''/'' \<in> set entry then (List.insert entry exact, base, skipped)
     else (exact, List.insert entry base, skipped))"

definition load_exec_allowlist_file :: "string \<Rightarrow> string list option \<Rightarrow> name_set \<Rightarrow> name_set \<Rightarrow>
    string + name_set \<times> name_set \<times> nat" where
  "load_exec_allowlist_file path lines exact base = (case lines of
     None \<Rightarrow> Inl (''cannot open exec allowlist: '' @ path)
   | Some ls \<Rightarrow> Inr (load_entries allowlist_entry ls (exact, base, 0)))"

definition baseline_entry :: "string \<Rightarrow> file_baseline \<times> nat \<Rightarrow> file_baseline \<times> nat" where
  "baseline_entry entry = (\<lambda>(out, skipped).
     if length entry < SHA256_LEN * 2 + 2 then (out, skipped + 1)
     else (case sha256_from_hex (take (SHA256_LEN * 2) entry) of
       None \<Rightarrow> (out, skipped + 1)
     | Some digest \<Rightarrow> let r = dropWhile (\<lambda>c. \<not> blank c) (drop (SHA256_LEN * 2) entry) in
         if r = [] then (out, skipped + 1)
         else let p = dropWhile blank r in
           if p = [] then (out, skipped + 1) else (AList.update p digest out, skipped)))"

definition load_file_baseline_file :: "string \<Rightarrow> string list option \<Rightarrow> file_baseline \<Rightarrow> string + file_baseline \<times> nat" where
  "load_file_baseline_file path lines out = (case lines of
     None \<Rightarrow> Inl (''cannot open file baseline: '' @ path @ '' (generate one with: sha256sum <files> > '' @ path @ '')'')
   | Some ls \<Rightarrow> Inr (load_entries baseline_entry ls (out, 0)))"

definition name_entry :: "string \<Rightarrow> name_set \<times> nat \<Rightarrow> name_set \<times> nat" where
  "name_entry entry = (\<lambda>(out, skipped).
     if CHR '' '' \<in> set entry then (out, skipped + 1) else (List.insert entry out, skipped))"

definition load_name_set :: "string \<Rightarrow> string list option \<Rightarrow> name_set \<Rightarrow> string + name_set \<times> nat" where
  "load_name_set path lines out = (case lines of
     None \<Rightarrow> Inl (''cannot open name list: '' @ path)
   | Some ls \<Rightarrow> Inr (load_entries name_entry ls (out, 0)))"

definition load_module_baseline_file :: "string \<Rightarrow> string list option \<Rightarrow> name_set \<Rightarrow> string + name_set \<times> nat" where
  "load_module_baseline_file path lines out = (case load_name_set path lines out of
     Inl err \<Rightarrow> Inl (err @ '' (generate one with: awk '' @ [CHR 0x27] @ ''{print $1}'' @ [CHR 0x27]
       @ '' /proc/modules | sort > '' @ path @ '')'')
   | Inr r \<Rightarrow> Inr r)"

end
