(* ===== verification/Mute_Window.thy ===== *)
theory Mute_Window
  imports Idsm_Prelude
begin

text \<open>
  The muting that the host detectors share: an event that is suspicious for a key raises an alert unless the key is
  muted, and the alert mutes the key for a cooldown. The locale states what such a detector promises, and proves once
  that it alerts on exactly those suspicious events that have no earlier alert of their key within the cooldown.
\<close>

text \<open>Events in the order of their times, early enough for the 64-bit sums not to wrap.\<close>

definition in_order :: "u32 \<Rightarrow> ('e \<times> u64) list \<Rightarrow> bool" where
  "in_order cooldown_ms evs \<longleftrightarrow> sorted (map (unat \<circ> snd) evs) \<and>
     (\<forall>(e, t) \<in> set evs. unat t + unat cooldown_ms < 2 ^ 64)"

locale muting =
  fixes feed :: "'e \<Rightarrow> u64 \<Rightarrow> 's \<Rightarrow> 'a option \<times> 's"
    and suspect :: "'s \<Rightarrow> 'e \<Rightarrow> 'k option"
    and until :: "'s \<Rightarrow> 'k \<Rightarrow> u64"
    and cooldown :: "'s \<Rightarrow> u32"
  assumes feed_quiet: "suspect s e = None \<Longrightarrow> fst (feed e t s) = None \<and> until (snd (feed e t s)) k = until s k"
    and feed_muted: "suspect s e = Some k' \<Longrightarrow> t < until s k' \<Longrightarrow>
      fst (feed e t s) = None \<and> until (snd (feed e t s)) k = until s k"
    and feed_alert: "suspect s e = Some k \<Longrightarrow> \<not> t < until s k \<Longrightarrow> fst (feed e t s) \<noteq> None"
    and feed_mutes: "suspect s e = Some k \<Longrightarrow> \<not> t < until s k \<Longrightarrow>
      until (snd (feed e t s)) k' = (if k' = k then t + ucast (cooldown s) else until s k')"
    and feed_suspect: "suspect (snd (feed e t s)) = suspect s"
    and feed_cooldown: "cooldown (snd (feed e t s)) = cooldown s"
begin

definition feeds :: "'s \<Rightarrow> ('e \<times> u64) list \<Rightarrow> 'a option list \<times> 's" where
  "feeds = run (\<lambda>s (e, t). feed e t s)"

text \<open>The times at which a key has raised an alert.\<close>

definition alert_times :: "'s \<Rightarrow> ('e \<times> u64) list \<Rightarrow> 'k \<Rightarrow> u64 set" where
  "alert_times s evs k = {t. \<exists>e a. ((e, t), Some a) \<in> set (zip evs (fst (feeds s evs))) \<and> suspect s e = Some k}"

lemma feeds_snoc:
  "fst (feeds s (evs @ [(e, t)])) = fst (feeds s evs) @ [fst (feed e t (snd (feeds s evs)))]"
  "snd (feeds s (evs @ [(e, t)])) = snd (feed e t (snd (feeds s evs)))"
  by (simp_all add: feeds_def run_append Let_def split_def)

lemma feeds_length [simp]: "length (fst (feeds s evs)) = length evs"
  by (simp add: feeds_def)

lemma feeds_fixed: "suspect (snd (feeds s evs)) = suspect s \<and> cooldown (snd (feeds s evs)) = cooldown s"
proof (induction evs rule: rev_induct)
  case (snoc x evs)
  then show ?case by (cases x) (simp add: feeds_snoc feed_suspect feed_cooldown)
qed (simp add: feeds_def)

lemma alert_times_snoc:
  "alert_times s (evs @ [(e, t)]) k = alert_times s evs k \<union>
     (if suspect s e = Some k \<and> fst (feed e t (snd (feeds s evs))) \<noteq> None then {t} else {})"
  unfolding alert_times_def feeds_snoc by (auto split: if_splits) blast+

lemma alert_times_sub: "t \<in> alert_times s evs k \<Longrightarrow> \<exists>e. (e, t) \<in> set evs"
  by (auto simp: alert_times_def dest: set_zip_leftD)

lemma in_order_snoc:
  "in_order c (evs @ [(e, t)]) \<Longrightarrow> in_order c evs \<and> unat t + unat c < 2 ^ 64 \<and> (\<forall>(e', t') \<in> set evs. unat t' \<le> unat t)"
  by (auto simp: in_order_def sorted_append)

text \<open>The time kept for a key is the latest of its alerts plus the cooldown.\<close>

lemma until_latest:
  assumes "\<And>k. until s k = 0" "in_order (cooldown s) evs"
  shows "(alert_times s evs k = {} \<longrightarrow> until (snd (feeds s evs)) k = 0) \<and>
    (\<forall>t \<in> alert_times s evs k. unat t + unat (cooldown s) \<le> unat (until (snd (feeds s evs)) k)) \<and>
    (alert_times s evs k \<noteq> {} \<longrightarrow>
      (\<exists>t \<in> alert_times s evs k. unat (until (snd (feeds s evs)) k) = unat t + unat (cooldown s)))"
  using assms(2)
proof (induction evs rule: rev_induct)
  case Nil
  then show ?case by (simp add: alert_times_def feeds_def assms(1))
next
  case (snoc x evs)
  obtain e t where x: "x = (e, t)" by (cases x)
  let ?s = "snd (feeds s evs)"
  note o = in_order_snoc [OF snoc.prems [unfolded x]]
  note IH = snoc.IH [OF conjunct1 [OF o]]
  note fx = feeds_fixed [of s evs]
  show ?case
  proof (cases "suspect s e = Some k \<and> fst (feed e t ?s) \<noteq> None")
    case True
    have sus: "suspect ?s e = Some k" using True fx by simp
    have nm: "\<not> t < until ?s k"
    proof
      assume "t < until ?s k"
      then show False using feed_muted [OF sus, of t k] True by simp
    qed
    have u: "until (snd (feed e t ?s)) k = t + ucast (cooldown s)" using feed_mutes [OF sus nm, of k] fx by simp
    have n: "unat (t + ucast (cooldown s)) = unat t + unat (cooldown s)"
      using o by (simp add: unat_word_ariths)
    have at: "alert_times s (evs @ [(e, t)]) k = insert t (alert_times s evs k)"
      using True by (simp add: alert_times_snoc)
    have "unat t' \<le> unat t" if "t' \<in> alert_times s evs k" for t'
      using alert_times_sub [OF that] o by fastforce
    then show ?thesis by (simp add: x at feeds_snoc u n)
  next
    case False
    have "until (snd (feed e t ?s)) k = until ?s k"
    proof (cases "suspect ?s e")
      case None
      then show ?thesis by (simp add: feed_quiet)
    next
      case (Some k')
      show ?thesis
      proof (cases "t < until ?s k'")
        case True
        then show ?thesis using Some by (simp add: feed_muted)
      next
        case nm: False
        then have "k \<noteq> k'" using False Some feed_alert [OF Some nm] fx by auto
        then show ?thesis using feed_mutes [OF Some nm, of k] by simp
      qed
    qed
    moreover have "alert_times s (evs @ [(e, t)]) k = alert_times s evs k"
      by (simp only: alert_times_snoc if_not_P [OF False] Un_empty_right)
    ultimately show ?thesis using IH by (simp add: x feeds_snoc)
  qed
qed

theorem alert_iff_cooled_down:
  assumes "\<And>k. until s k = 0" "in_order (cooldown s) (evs @ [(e, t)])"
  shows "fst (feed e t (snd (feeds s evs))) \<noteq> None \<longleftrightarrow>
    (\<exists>k. suspect s e = Some k \<and> (\<forall>t' \<in> alert_times s evs k. unat t' + unat (cooldown s) \<le> unat t))"
proof (cases "suspect s e")
  case None
  then show ?thesis using feeds_fixed [of s evs] by (simp add: feed_quiet)
next
  case (Some k)
  let ?s = "snd (feeds s evs)"
  have sus: "suspect ?s e = Some k" using Some feeds_fixed [of s evs] by simp
  have "fst (feed e t ?s) \<noteq> None \<longleftrightarrow> \<not> t < until ?s k"
    using feed_muted [OF sus, of t k] feed_alert [OF sus, of t] by (cases "t < until ?s k") simp_all
  also have "\<dots> \<longleftrightarrow> unat (until ?s k) \<le> unat t" by (simp add: word_less_nat_alt not_less)
  also have "\<dots> \<longleftrightarrow> (\<forall>t' \<in> alert_times s evs k. unat t' + unat (cooldown s) \<le> unat t)"
    using until_latest [OF assms(1), of evs k] in_order_snoc [OF assms(2)]
    by (cases "alert_times s evs k = {}") (auto intro: order_trans)
  finally show ?thesis using Some by simp
qed

end

end
