(* ===== verification/Host_Detectors.thy ===== *)
theory Host_Detectors
  imports Host_Event Host_Baseline Tumbling_Window Mute_Window
begin

text \<open>
  \<open>apps/host_probe/detectors\<close>: the ten host detectors with their state. A detector gives its alert, if any, and its
  state after the event. The time until which a key is muted is a 64-bit sum, as in the code.
\<close>

type_synonym mute_map = "string \<rightharpoonup> u64"

definition muted_until :: "mute_map \<Rightarrow> string \<Rightarrow> u64 \<Rightarrow> bool" where
  "muted_until muted key now_ms = (case muted key of Some t \<Rightarrow> t > now_ms | None \<Rightarrow> False)"

definition alert_key :: "exec_event \<Rightarrow> string" where
  "alert_key e = (if e_exe e = [] then e_comm e else e_exe e)"

definition k_shells :: "string list" where
  "k_shells = [''sh'', ''bash'', ''ash'', ''dash'', ''zsh'', ''ksh'', ''mksh'', ''toysh'', ''csh'', ''tcsh'', ''fish'']"

definition is_shell_comm :: "string \<Rightarrow> bool" where
  "is_shell_comm comm \<longleftrightarrow> comm \<in> set k_shells"

subsection \<open>Unknown exec\<close>

record unknown_exec =
  ue_cooldown_ms :: u32
  ue_exact :: name_set
  ue_base :: name_set
  ue_muted :: mute_map

definition unknown_exec_enabled :: "unknown_exec \<Rightarrow> bool" where
  "unknown_exec_enabled d \<longleftrightarrow> ue_exact d \<noteq> [] \<or> ue_base d \<noteq> []"

definition add_allowed :: "string \<Rightarrow> unknown_exec \<Rightarrow> unknown_exec" where
  "add_allowed entry d = (if CHR ''/'' \<in> set entry then d\<lparr>ue_exact := List.insert entry (ue_exact d)\<rparr>
     else d\<lparr>ue_base := List.insert entry (ue_base d)\<rparr>)"

definition is_allowed :: "unknown_exec \<Rightarrow> exec_event \<Rightarrow> bool" where
  "is_allowed d e \<longleftrightarrow> (e_exe e \<noteq> [] \<and> (e_exe e \<in> set (ue_exact d) \<or> base_name (e_exe e) \<in> set (ue_base d))) \<or>
     e_comm e \<in> set (ue_base d)"

definition UnknownExec_feed :: "exec_event \<Rightarrow> u64 \<Rightarrow> unknown_exec \<Rightarrow> host_alert option \<times> unknown_exec" where
  "UnknownExec_feed e now_ms d = (if \<not> unknown_exec_enabled d \<or> is_allowed d e then (None, d)
     else let key = alert_key e in
       if muted_until (ue_muted d) key now_ms then (None, d)
       else (Some (make_exec_alert DT_UNKNOWN_EXEC e 0 0),
             d\<lparr>ue_muted := (ue_muted d)(key \<mapsto> now_ms + ucast (ue_cooldown_ms d))\<rparr>))"

subsection \<open>Privilege escalation\<close>

record priv_esc =
  pe_cooldown_ms :: u32
  pe_muted :: mute_map

definition PrivEsc_feed :: "exec_event \<Rightarrow> u64 \<Rightarrow> priv_esc \<Rightarrow> host_alert option \<times> priv_esc" where
  "PrivEsc_feed e now_ms d = (if e_euid e \<noteq> 0 \<or> e_uid e = 0 then (None, d)
     else let key = alert_key e in
       if muted_until (pe_muted d) key now_ms then (None, d)
       else (Some (make_exec_alert DT_PRIV_ESC e
                (if e_egid e = 0 \<and> e_gid e \<noteq> 0 then HF_SETUID OR HF_SETGID else HF_SETUID) 0),
             d\<lparr>pe_muted := (pe_muted d)(key \<mapsto> now_ms + ucast (pe_cooldown_ms d))\<rparr>))"

subsection \<open>Fork flood\<close>

record fork_flood =
  ff_window_ms :: u32
  ff_spawn_threshold :: u32
  ff_started :: bool
  ff_window_start :: u64
  ff_count :: u32
  ff_alerted :: bool

definition fork_window :: "u64 \<Rightarrow> fork_flood \<Rightarrow> fork_flood" where
  "fork_window now_ms d = (let d = (if ff_started d then d else d\<lparr>ff_started := True, ff_window_start := now_ms\<rparr>) in
     if now_ms - ff_window_start d \<ge> ucast (ff_window_ms d)
     then d\<lparr>ff_window_start := now_ms, ff_count := 0, ff_alerted := False\<rparr> else d)"

definition ForkFlood_feed :: "exec_event \<Rightarrow> u64 \<Rightarrow> fork_flood \<Rightarrow> host_alert option \<times> fork_flood" where
  "ForkFlood_feed e now_ms d = (let d = fork_window now_ms d; d = d\<lparr>ff_count := ff_count d + 1\<rparr> in
     if \<not> ff_alerted d \<and> ff_count d \<ge> ff_spawn_threshold d
     then (Some (host_alert_new\<lparr>h_detector_type := DT_FORK_FLOOD, h_count := ff_count d, h_aux := ff_count d\<rparr>),
           d\<lparr>ff_alerted := True\<rparr>)
     else (None, d))"

subsection \<open>Reverse shell\<close>

record rev_shell =
  rv_cooldown_ms :: u32
  rv_net_parents :: name_set
  rv_muted :: mute_map

definition k_default :: "string list" where
  "k_default = [''adbd'', ''sshd'', ''dropbear'', ''netd'', ''rild'', ''httpd'', ''nginx'', ''lighttpd'', ''inetd'',
     ''xinetd'', ''ftpd'', ''vsftpd'', ''proftpd'', ''telnetd'', ''smbd'']"

definition rev_shell_new :: rev_shell where
  "rev_shell_new = \<lparr> rv_cooldown_ms = 60000, rv_net_parents = k_default, rv_muted = (\<lambda>_. None) \<rparr>"

definition add_net_parent :: "string \<Rightarrow> rev_shell \<Rightarrow> rev_shell" where
  "add_net_parent comm d = d\<lparr>rv_net_parents := List.insert comm (rv_net_parents d)\<rparr>"

definition RevShell_feed :: "exec_event \<Rightarrow> u64 \<Rightarrow> rev_shell \<Rightarrow> host_alert option \<times> rev_shell" where
  "RevShell_feed e now_ms d = (if \<not> is_shell_comm (e_comm e) then (None, d)
     else let parent = e_parent_comm e in
       if parent = [] \<or> parent \<notin> set (rv_net_parents d) then (None, d)
       else if muted_until (rv_muted d) parent now_ms then (None, d)
       else (Some (make_exec_alert DT_REV_SHELL e HF_NET_PARENT (e_ppid e)),
             d\<lparr>rv_muted := (rv_muted d)(parent \<mapsto> now_ms + ucast (rv_cooldown_ms d))\<rparr>))"

subsection \<open>File integrity\<close>

record file_mod =
  fm_cooldown_ms :: u32
  fm_baseline :: file_baseline
  fm_muted :: mute_map

definition set_baseline :: "file_baseline \<Rightarrow> file_mod \<Rightarrow> file_mod" where
  "set_baseline b d = d\<lparr>fm_baseline := b\<rparr>"

definition FileMod_feed :: "file_scan_event \<Rightarrow> u64 \<Rightarrow> file_mod \<Rightarrow> host_alert option \<times> file_mod" where
  "FileMod_feed f now_ms d = (case map_of (fm_baseline d) (f_path f) of
     None \<Rightarrow> (None, d)
   | Some digest \<Rightarrow>
       let d' = d\<lparr>fm_muted := (fm_muted d)(f_path f \<mapsto> now_ms + ucast (fm_cooldown_ms d))\<rparr> in
       if muted_until (fm_muted d) (f_path f) now_ms then (None, d)
       else if \<not> f_present f
       then (Some (make_file_alert DT_FILE_MOD (f_path f) 0 HF_MISSING FILE_MOD_GONE), d')
       else if f_sha256 f \<noteq> digest
       then (Some (make_file_alert DT_FILE_MOD (f_path f) (f_mode f) 0 FILE_MOD_HASH), d')
       else (None, d))"

subsection \<open>New setuid-root file\<close>

record new_setuid =
  ns_cooldown_ms :: u32
  ns_baseline_paths :: name_set
  ns_muted :: mute_map

definition new_setuid_enabled :: "new_setuid \<Rightarrow> bool" where
  "new_setuid_enabled d \<longleftrightarrow> ns_baseline_paths d \<noteq> []"

definition add_baseline_path :: "string \<Rightarrow> new_setuid \<Rightarrow> new_setuid" where
  "add_baseline_path p d = d\<lparr>ns_baseline_paths := List.insert p (ns_baseline_paths d)\<rparr>"

definition NewSetuid_feed :: "file_scan_event \<Rightarrow> u64 \<Rightarrow> new_setuid \<Rightarrow> host_alert option \<times> new_setuid" where
  "NewSetuid_feed f now_ms d = (if \<not> new_setuid_enabled d then (None, d)
     else if \<not> f_present f \<or> f_mode f AND 2048 = 0 \<or> f_uid f \<noteq> 0 then (None, d)
     else if f_path f \<in> set (ns_baseline_paths d) then (None, d)
     else if muted_until (ns_muted d) (f_path f) now_ms then (None, d)
     else (Some ((make_file_alert DT_NEW_SETUID (f_path f) (f_mode f) HF_SETUID 0)\<lparr>h_uid := f_uid f\<rparr>),
           d\<lparr>ns_muted := (ns_muted d)(f_path f \<mapsto> now_ms + ucast (ns_cooldown_ms d))\<rparr>))"

subsection \<open>Kernel modules\<close>

record kmod_load =
  km_cooldown_ms :: u32
  km_baseline :: name_set
  km_muted :: mute_map

definition kmod_enabled :: "kmod_load \<Rightarrow> bool" where
  "kmod_enabled d \<longleftrightarrow> km_baseline d \<noteq> []"

definition add_baseline :: "string \<Rightarrow> kmod_load \<Rightarrow> kmod_load" where
  "add_baseline name d = d\<lparr>km_baseline := List.insert name (km_baseline d)\<rparr>"

definition KmodLoad_feed :: "module_scan_event \<Rightarrow> u64 \<Rightarrow> kmod_load \<Rightarrow> host_alert option \<times> kmod_load" where
  "KmodLoad_feed m now_ms d = (if \<not> kmod_enabled d \<or> m_name m \<in> set (km_baseline d) then (None, d)
     else if muted_until (km_muted d) (m_name m) now_ms then (None, d)
     else (Some (make_name_alert DT_KMOD_LOAD (m_name m)),
           d\<lparr>km_muted := (km_muted d)(m_name m \<mapsto> now_ms + ucast (km_cooldown_ms d))\<rparr>))"

subsection \<open>Zombie storm\<close>

record zombie_storm =
  zs_window_ms :: u32
  zs_zombie_threshold :: u32
  zs_started :: bool
  zs_window_start :: u64
  zs_max_zombies :: u32
  zs_alerted :: bool

definition zombie_window :: "u64 \<Rightarrow> zombie_storm \<Rightarrow> zombie_storm" where
  "zombie_window now_ms d = (let d = (if zs_started d then d else d\<lparr>zs_started := True, zs_window_start := now_ms\<rparr>) in
     if now_ms - zs_window_start d \<ge> ucast (zs_window_ms d)
     then d\<lparr>zs_window_start := now_ms, zs_max_zombies := 0, zs_alerted := False\<rparr> else d)"

definition ZombieStorm_feed :: "snapshot_event \<Rightarrow> u64 \<Rightarrow> zombie_storm \<Rightarrow> host_alert option \<times> zombie_storm" where
  "ZombieStorm_feed s now_ms d = (let d = zombie_window now_ms d;
       d = (if s_zombies s > zs_max_zombies d then d\<lparr>zs_max_zombies := s_zombies s\<rparr> else d) in
     if \<not> zs_alerted d \<and> zs_max_zombies d \<ge> zs_zombie_threshold d
     then (Some (host_alert_new\<lparr>h_detector_type := DT_ZOMBIE_STORM, h_aux := zs_max_zombies d,
              h_count := zs_max_zombies d\<rparr>), d\<lparr>zs_alerted := True\<rparr>)
     else (None, d))"

subsection \<open>Resource exhaustion\<close>

record res_exhaust =
  rx_cpu_ppm_threshold :: u32
  rx_rss_kb_threshold :: u64
  rx_cooldown_ms :: u32
  rx_muted_until :: u64

definition ResExhaust_feed :: "snapshot_event \<Rightarrow> u64 \<Rightarrow> res_exhaust \<Rightarrow> host_alert option \<times> res_exhaust" where
  "ResExhaust_feed s now_ms d = (let d' = d\<lparr>rx_muted_until := now_ms + ucast (rx_cooldown_ms d)\<rparr> in
     if now_ms < rx_muted_until d then (None, d)
     else if s_top_cpu_ppm s \<ge> rx_cpu_ppm_threshold d then (Some (make_snap_alert DT_RES_EXHAUST s RES_EXHAUST_CPU), d')
     else if s_top_mem_rss_kb s \<ge> rx_rss_kb_threshold d then (Some (make_snap_alert DT_RES_EXHAUST s RES_EXHAUST_MEM), d')
     else (None, d))"

subsection \<open>Root shell\<close>

record root_shell =
  rs_cooldown_ms :: u32
  rs_muted :: mute_map

definition RootShell_feed :: "exec_event \<Rightarrow> u64 \<Rightarrow> root_shell \<Rightarrow> host_alert option \<times> root_shell" where
  "RootShell_feed e now_ms d = (if e_uid e \<noteq> 0 \<or> \<not> is_shell_comm (e_comm e) then (None, d)
     else let key = e_comm e in
       if muted_until (rs_muted d) key now_ms then (None, d)
       else (Some (make_exec_alert DT_ROOT_SHELL e 0
               (if e_parent_comm e \<in> {''sshd'', ''adbd'', ''dropbear'', ''telnetd''} then ROOT_SHELL_NET else ROOT_SHELL_TTY)),
             d\<lparr>rs_muted := (rs_muted d)(key \<mapsto> now_ms + ucast (rs_cooldown_ms d))\<rparr>))"

subsection \<open>The contracts of the detectors\<close>

text \<open>For each muting detector, the key for which it suspects an event.\<close>

definition mute_time :: "mute_map \<Rightarrow> string \<Rightarrow> u64" where
  "mute_time muted key = (case muted key of Some t \<Rightarrow> t | None \<Rightarrow> 0)"

lemma muted_until_time: "muted_until muted key t \<longleftrightarrow> t < mute_time muted key"
  by (simp add: muted_until_def mute_time_def split: option.split)

lemma mute_time_upd: "mute_time (m(k \<mapsto> t)) k' = (if k' = k then t else mute_time m k')"
  by (simp add: mute_time_def)

lemma mute_time_empty [simp]: "mute_time (\<lambda>_. None) k = 0"
  by (simp add: mute_time_def)

definition unknown_exec_suspect :: "unknown_exec \<Rightarrow> exec_event \<Rightarrow> string option" where
  "unknown_exec_suspect d e = (if unknown_exec_enabled d \<and> \<not> is_allowed d e then Some (alert_key e) else None)"

definition priv_esc_suspect :: "priv_esc \<Rightarrow> exec_event \<Rightarrow> string option" where
  "priv_esc_suspect d e = (if e_euid e = 0 \<and> e_uid e \<noteq> 0 then Some (alert_key e) else None)"

definition rev_shell_suspect :: "rev_shell \<Rightarrow> exec_event \<Rightarrow> string option" where
  "rev_shell_suspect d e = (if is_shell_comm (e_comm e) \<and> e_parent_comm e \<noteq> [] \<and> e_parent_comm e \<in> set (rv_net_parents d)
     then Some (e_parent_comm e) else None)"

definition file_mod_suspect :: "file_mod \<Rightarrow> file_scan_event \<Rightarrow> string option" where
  "file_mod_suspect d f = (case map_of (fm_baseline d) (f_path f) of None \<Rightarrow> None
     | Some digest \<Rightarrow> if \<not> f_present f \<or> f_sha256 f \<noteq> digest then Some (f_path f) else None)"

definition new_setuid_suspect :: "new_setuid \<Rightarrow> file_scan_event \<Rightarrow> string option" where
  "new_setuid_suspect d f = (if new_setuid_enabled d \<and> f_present f \<and> f_mode f AND 2048 \<noteq> 0 \<and> f_uid f = 0 \<and>
     f_path f \<notin> set (ns_baseline_paths d) then Some (f_path f) else None)"

definition kmod_suspect :: "kmod_load \<Rightarrow> module_scan_event \<Rightarrow> string option" where
  "kmod_suspect d m = (if kmod_enabled d \<and> m_name m \<notin> set (km_baseline d) then Some (m_name m) else None)"

definition res_suspect :: "res_exhaust \<Rightarrow> snapshot_event \<Rightarrow> unit option" where
  "res_suspect d s = (if s_top_cpu_ppm s \<ge> rx_cpu_ppm_threshold d \<or> s_top_mem_rss_kb s \<ge> rx_rss_kb_threshold d
     then Some () else None)"

definition root_shell_suspect :: "root_shell \<Rightarrow> exec_event \<Rightarrow> string option" where
  "root_shell_suspect d e = (if e_uid e = 0 \<and> is_shell_comm (e_comm e) then Some (e_comm e) else None)"

lemmas mute_simps = muted_until_time mute_time_upd Let_def

interpretation unknown_exec_mute: muting UnknownExec_feed unknown_exec_suspect "\<lambda>d. mute_time (ue_muted d)" ue_cooldown_ms
  by unfold_locales
    (auto simp: UnknownExec_feed_def unknown_exec_suspect_def [abs_def] unknown_exec_enabled_def is_allowed_def mute_simps split: if_splits)

interpretation priv_esc_mute: muting PrivEsc_feed priv_esc_suspect "\<lambda>d. mute_time (pe_muted d)" pe_cooldown_ms
  by unfold_locales (auto simp: PrivEsc_feed_def priv_esc_suspect_def [abs_def] mute_simps split: if_splits)

interpretation rev_shell_mute: muting RevShell_feed rev_shell_suspect "\<lambda>d. mute_time (rv_muted d)" rv_cooldown_ms
  by unfold_locales (auto simp: RevShell_feed_def rev_shell_suspect_def [abs_def] mute_simps split: if_splits)

interpretation file_mod_mute: muting FileMod_feed file_mod_suspect "\<lambda>d. mute_time (fm_muted d)" fm_cooldown_ms
  by unfold_locales
    (auto simp: FileMod_feed_def file_mod_suspect_def [abs_def] mute_simps split: if_splits option.splits)

interpretation new_setuid_mute: muting NewSetuid_feed new_setuid_suspect "\<lambda>d. mute_time (ns_muted d)" ns_cooldown_ms
  by unfold_locales
    (auto simp: NewSetuid_feed_def new_setuid_suspect_def [abs_def] new_setuid_enabled_def mute_simps split: if_splits)

interpretation kmod_mute: muting KmodLoad_feed kmod_suspect "\<lambda>d. mute_time (km_muted d)" km_cooldown_ms
  by unfold_locales (auto simp: KmodLoad_feed_def kmod_suspect_def [abs_def] kmod_enabled_def mute_simps split: if_splits)

interpretation res_mute: muting ResExhaust_feed res_suspect "\<lambda>d _. rx_muted_until d" rx_cooldown_ms
  by unfold_locales (auto simp: ResExhaust_feed_def res_suspect_def [abs_def] mute_simps split: if_splits)

interpretation root_shell_mute: muting RootShell_feed root_shell_suspect "\<lambda>d. mute_time (rs_muted d)" rs_cooldown_ms
  by unfold_locales (auto simp: RootShell_feed_def root_shell_suspect_def [abs_def] mute_simps split: if_splits)

text \<open>The fork flood detector is a counting window; its slot is open once it has started.\<close>

definition fork_slot :: "fork_flood \<Rightarrow> window_state" where
  "fork_slot d = \<lparr> w_start = (if ff_started d then ff_window_start d else 0), w_count = ff_count d, w_alerted = ff_alerted d \<rparr>"

interpretation fork_flood_window: tumbling_window ForkFlood_feed "\<lambda>d _. fork_slot d" "\<lambda>_. ()" "\<lambda>_. True" h_count window_ms
    threshold "\<lambda>d. ff_window_ms d = window_ms \<and> ff_spawn_threshold d = threshold \<and> (ff_started d \<longrightarrow> ff_window_start d > 0)"
    for window_ms threshold
  by unfold_locales
    (auto simp: ForkFlood_feed_def fork_window_def fork_slot_def tumble_def open_window_def Let_def split: if_splits)

end
