(* ===== verification/Host_Pipeline.thy ===== *)
theory Host_Pipeline
  imports Host_Detectors "HOL-Library.Char_ord" "HOL-Library.List_Lexorder"
begin

text \<open>
  \<open>apps/host_probe/pipeline\<close>, and the set-up of the pipeline in \<open>main\<close>: which detectors see an event and in
  which order, the baseline loaders, and the thresholds of the command line. An event gives the list of its alerts in the
  order in which the callback gets them. \<open>HostProbePipeline::Config\<close> is never read and has no counterpart.
\<close>

subsection \<open>The pipeline\<close>

record host_pipeline =
  hp_unknown_exec :: unknown_exec
  hp_priv_esc :: priv_esc
  hp_fork_flood :: fork_flood
  hp_rev_shell :: rev_shell
  hp_file_mod :: file_mod
  hp_new_setuid :: new_setuid
  hp_kmod :: kmod_load
  hp_zombie :: zombie_storm
  hp_res :: res_exhaust
  hp_root_shell :: root_shell

definition fork_flood_new :: "u32 \<Rightarrow> fork_flood" where
  "fork_flood_new threshold = \<lparr> ff_window_ms = 1000, ff_spawn_threshold = threshold, ff_started = False,
     ff_window_start = 0, ff_count = 0, ff_alerted = False \<rparr>"

definition zombie_new :: zombie_storm where
  "zombie_new = \<lparr> zs_window_ms = 1000, zs_zombie_threshold = 100, zs_started = False, zs_window_start = 0,
     zs_max_zombies = 0, zs_alerted = False \<rparr>"

definition res_new :: res_exhaust where
  "res_new = \<lparr> rx_cpu_ppm_threshold = 900, rx_rss_kb_threshold = 1048576, rx_cooldown_ms = 60000, rx_muted_until = 0 \<rparr>"

definition host_start :: host_pipeline where
  "host_start = \<lparr>
     hp_unknown_exec = \<lparr> ue_cooldown_ms = 60000, ue_exact = [], ue_base = [], ue_muted = (\<lambda>_. None) \<rparr>,
     hp_priv_esc = \<lparr> pe_cooldown_ms = 60000, pe_muted = (\<lambda>_. None) \<rparr>,
     hp_fork_flood = fork_flood_new 200,
     hp_rev_shell = rev_shell_new,
     hp_file_mod = \<lparr> fm_cooldown_ms = 600000, fm_baseline = [], fm_muted = (\<lambda>_. None) \<rparr>,
     hp_new_setuid = \<lparr> ns_cooldown_ms = 600000, ns_baseline_paths = [], ns_muted = (\<lambda>_. None) \<rparr>,
     hp_kmod = \<lparr> km_cooldown_ms = 60000, km_baseline = [], km_muted = (\<lambda>_. None) \<rparr>,
     hp_zombie = zombie_new,
     hp_res = res_new,
     hp_root_shell = \<lparr> rs_cooldown_ms = 60000, rs_muted = (\<lambda>_. None) \<rparr> \<rparr>"

definition emit :: "host_alert option \<Rightarrow> host_alert list" where
  "emit a = (case a of Some x \<Rightarrow> [x] | None \<Rightarrow> [])"

lemma emit_simps [simp]: "emit None = []" "emit (Some a) = [a]" "a \<in> set (emit r) \<longleftrightarrow> r = Some a"
  by (auto simp: emit_def split: option.split)

definition feed_event :: "host_event \<Rightarrow> host_pipeline \<Rightarrow> host_alert list \<times> host_pipeline" where
  "feed_event ev p = (let now_ms = ev_ts_ms ev in case ev_kind ev of
     EXEC \<Rightarrow> (let
         (a1, ue) = UnknownExec_feed (ev_exec ev) now_ms (hp_unknown_exec p);
         (a2, pe) = PrivEsc_feed (ev_exec ev) now_ms (hp_priv_esc p);
         (a3, ff) = ForkFlood_feed (ev_exec ev) now_ms (hp_fork_flood p);
         (a4, rv) = RevShell_feed (ev_exec ev) now_ms (hp_rev_shell p);
         (a5, rs) = RootShell_feed (ev_exec ev) now_ms (hp_root_shell p)
       in (emit a1 @ emit a2 @ emit a3 @ emit a4 @ emit a5,
           p\<lparr>hp_unknown_exec := ue, hp_priv_esc := pe, hp_fork_flood := ff, hp_rev_shell := rv, hp_root_shell := rs\<rparr>))
   | FILE_SCAN \<Rightarrow> (let
         (a1, fm) = FileMod_feed (ev_file ev) now_ms (hp_file_mod p);
         (a2, ns) = NewSetuid_feed (ev_file ev) now_ms (hp_new_setuid p)
       in (emit a1 @ emit a2, p\<lparr>hp_file_mod := fm, hp_new_setuid := ns\<rparr>))
   | MODULE_SCAN \<Rightarrow> (let (a, km) = KmodLoad_feed (ev_module ev) now_ms (hp_kmod p)
       in (emit a, p\<lparr>hp_kmod := km\<rparr>))
   | SNAPSHOT \<Rightarrow> (let
         (a1, zs) = ZombieStorm_feed (ev_snap ev) now_ms (hp_zombie p);
         (a2, rx) = ResExhaust_feed (ev_snap ev) now_ms (hp_res p)
       in (emit a1 @ emit a2, p\<lparr>hp_zombie := zs, hp_res := rx\<rparr>)))"

subsection \<open>Baseline loaders\<close>

definition load_exec_allowlist :: "string \<Rightarrow> string list option \<Rightarrow> host_pipeline \<Rightarrow> (string + nat) \<times> host_pipeline" where
  "load_exec_allowlist path lines p = (case load_exec_allowlist_file path lines [] [] of
     Inl err \<Rightarrow> (Inl err, p)
   | Inr (exact, base, bad) \<Rightarrow>
       (Inr bad, p\<lparr>hp_unknown_exec := fold add_allowed base (fold add_allowed exact (hp_unknown_exec p))\<rparr>))"

definition load_file_baseline :: "string \<Rightarrow> string list option \<Rightarrow> host_pipeline \<Rightarrow> (string + nat) \<times> host_pipeline" where
  "load_file_baseline path lines p = (case load_file_baseline_file path lines [] of
     Inl err \<Rightarrow> (Inl err, p)
   | Inr (fb, bad) \<Rightarrow>
       (Inr bad, p\<lparr>hp_new_setuid := fold add_baseline_path (map fst fb) (hp_new_setuid p),
                   hp_file_mod := set_baseline fb (hp_file_mod p)\<rparr>))"

definition load_module_baseline :: "string \<Rightarrow> string list option \<Rightarrow> host_pipeline \<Rightarrow> (string + nat) \<times> host_pipeline" where
  "load_module_baseline path lines p = (case load_module_baseline_file path lines [] of
     Inl err \<Rightarrow> (Inl err, p)
   | Inr (names, bad) \<Rightarrow> (Inr bad, p\<lparr>hp_kmod := fold add_baseline names (hp_kmod p)\<rparr>))"

subsection \<open>The set-up in \<open>main\<close>\<close>

record host_args =
  arg_baseline_exec :: string
  arg_baseline_files :: string
  arg_baseline_mods :: string
  arg_net_parents :: string
  arg_fork_rate :: u32
  arg_zombie_max :: u32
  arg_cpu_ppm :: u32
  arg_rss_kb :: u64

definition set_thresholds :: "host_args \<Rightarrow> host_pipeline \<Rightarrow> host_pipeline" where
  "set_thresholds args p = (let
     p = (if arg_fork_rate args > 0
       then p\<lparr>hp_fork_flood := (hp_fork_flood p)\<lparr>ff_window_ms := 1000, ff_spawn_threshold := arg_fork_rate args\<rparr>\<rparr> else p);
     p = (if arg_zombie_max args > 0
       then p\<lparr>hp_zombie := (hp_zombie p)\<lparr>zs_window_ms := 1000, zs_zombie_threshold := arg_zombie_max args\<rparr>\<rparr> else p)
     in if arg_cpu_ppm args > 0 \<or> arg_rss_kb args > 0
       then p\<lparr>hp_res := (hp_res p)\<lparr>rx_cpu_ppm_threshold := (if arg_cpu_ppm args > 0 then arg_cpu_ppm args else 900),
         rx_rss_kb_threshold := (if arg_rss_kb args > 0 then arg_rss_kb args else 1048576), rx_cooldown_ms := 60000\<rparr>\<rparr> else p)"

text \<open>A baseline that is not given is not loaded; one that cannot be loaded ends the program.\<close>

definition load_if :: "string \<Rightarrow> (string \<Rightarrow> host_pipeline \<Rightarrow> (string + nat) \<times> host_pipeline) \<Rightarrow>
    host_pipeline \<Rightarrow> string + host_pipeline" where
  "load_if path load p = (if path = [] then Inr p
     else (case load path p of (Inl err, _) \<Rightarrow> Inl err | (Inr _, p) \<Rightarrow> Inr p))"

definition load_net_parents :: "string \<Rightarrow> string list option \<Rightarrow> host_pipeline \<Rightarrow> (string + nat) \<times> host_pipeline" where
  "load_net_parents path lines p = (case load_name_set path lines [] of
     Inl err \<Rightarrow> (Inl err, p)
   | Inr (names, bad) \<Rightarrow> (Inr bad, p\<lparr>hp_rev_shell := fold add_net_parent names (hp_rev_shell p)\<rparr>))"

definition then_load :: "string + host_pipeline \<Rightarrow> (host_pipeline \<Rightarrow> string + host_pipeline) \<Rightarrow> string + host_pipeline" where
  "then_load r f = (case r of Inl err \<Rightarrow> Inl err | Inr p \<Rightarrow> f p)"

definition host_setup :: "host_args \<Rightarrow> (string \<Rightarrow> string list option) \<Rightarrow> string + host_pipeline" where
  "host_setup args files =
     then_load (then_load (then_load (load_if (arg_baseline_exec args) (\<lambda>path. load_exec_allowlist path (files path))
         (set_thresholds args host_start))
       (load_if (arg_baseline_files args) (\<lambda>path. load_file_baseline path (files path))))
       (load_if (arg_baseline_mods args) (\<lambda>path. load_module_baseline path (files path))))
       (load_if (arg_net_parents args) (\<lambda>path. load_net_parents path (files path)))"

text \<open>The files that the poller watches: those of the baseline, in the order of the map.\<close>

definition scan_files :: "host_pipeline \<Rightarrow> string list" where
  "scan_files p = sort (map fst (fm_baseline (hp_file_mod p)))"

end
