(* ===== verification/Host_Muting.thy ===== *)
theory Host_Muting
  imports Host_Pipeline
begin

text \<open>
  The eight muting detectors of the host pipeline under one contract: whatever the mix of events, a detector alerts on
  exactly those suspicious events that have no earlier alert of their key within its cooldown. The contract of each
  detector carries over to the pipeline that holds it.
\<close>

datatype mute_kind = MExec | MPriv | MRev | MFile | MSetuid | MKmod | MRes | MRoot

fun type_code :: "mute_kind \<Rightarrow> u8" where
  "type_code MExec = DT_UNKNOWN_EXEC"
| "type_code MPriv = DT_PRIV_ESC"
| "type_code MRev = DT_REV_SHELL"
| "type_code MFile = DT_FILE_MOD"
| "type_code MSetuid = DT_NEW_SETUID"
| "type_code MKmod = DT_KMOD_LOAD"
| "type_code MRes = DT_RES_EXHAUST"
| "type_code MRoot = DT_ROOT_SHELL"

text \<open>The key for which a detector suspects an event; the one for the resources has a single key.\<close>

fun host_suspect :: "mute_kind \<Rightarrow> host_pipeline \<Rightarrow> host_event \<Rightarrow> string option" where
  "host_suspect MExec p ev = (if ev_kind ev = EXEC then unknown_exec_suspect (hp_unknown_exec p) (ev_exec ev) else None)"
| "host_suspect MPriv p ev = (if ev_kind ev = EXEC then priv_esc_suspect (hp_priv_esc p) (ev_exec ev) else None)"
| "host_suspect MRev p ev = (if ev_kind ev = EXEC then rev_shell_suspect (hp_rev_shell p) (ev_exec ev) else None)"
| "host_suspect MFile p ev = (if ev_kind ev = FILE_SCAN then file_mod_suspect (hp_file_mod p) (ev_file ev) else None)"
| "host_suspect MSetuid p ev = (if ev_kind ev = FILE_SCAN then new_setuid_suspect (hp_new_setuid p) (ev_file ev) else None)"
| "host_suspect MKmod p ev = (if ev_kind ev = MODULE_SCAN then kmod_suspect (hp_kmod p) (ev_module ev) else None)"
| "host_suspect MRes p ev = (if ev_kind ev = SNAPSHOT \<and> res_suspect (hp_res p) (ev_snap ev) \<noteq> None then Some [] else None)"
| "host_suspect MRoot p ev = (if ev_kind ev = EXEC then root_shell_suspect (hp_root_shell p) (ev_exec ev) else None)"

fun host_until :: "mute_kind \<Rightarrow> host_pipeline \<Rightarrow> string \<Rightarrow> u64" where
  "host_until MExec p = mute_time (ue_muted (hp_unknown_exec p))"
| "host_until MPriv p = mute_time (pe_muted (hp_priv_esc p))"
| "host_until MRev p = mute_time (rv_muted (hp_rev_shell p))"
| "host_until MFile p = mute_time (fm_muted (hp_file_mod p))"
| "host_until MSetuid p = mute_time (ns_muted (hp_new_setuid p))"
| "host_until MKmod p = mute_time (km_muted (hp_kmod p))"
| "host_until MRes p = (\<lambda>k. if k = [] then rx_muted_until (hp_res p) else 0)"
| "host_until MRoot p = mute_time (rs_muted (hp_root_shell p))"

fun host_cooldown :: "mute_kind \<Rightarrow> host_pipeline \<Rightarrow> u32" where
  "host_cooldown MExec p = ue_cooldown_ms (hp_unknown_exec p)"
| "host_cooldown MPriv p = pe_cooldown_ms (hp_priv_esc p)"
| "host_cooldown MRev p = rv_cooldown_ms (hp_rev_shell p)"
| "host_cooldown MFile p = fm_cooldown_ms (hp_file_mod p)"
| "host_cooldown MSetuid p = ns_cooldown_ms (hp_new_setuid p)"
| "host_cooldown MKmod p = km_cooldown_ms (hp_kmod p)"
| "host_cooldown MRes p = rx_cooldown_ms (hp_res p)"
| "host_cooldown MRoot p = rs_cooldown_ms (hp_root_shell p)"

text \<open>The alert of one type that an event at a time raises, as a detector of its own.\<close>

definition alert_of :: "mute_kind \<Rightarrow> host_event \<Rightarrow> u64 \<Rightarrow> host_pipeline \<Rightarrow> host_alert option \<times> host_pipeline" where
  "alert_of k ev t p = (case feed_event (ev\<lparr>ev_ts_ms := t\<rparr>) p of
     (as, p') \<Rightarrow> (List.find (\<lambda>a. h_detector_type a = type_code k) as, p'))"

subsection \<open>Each detector raises alerts of its own type only\<close>

lemma make_alert_types [simp]:
  "h_detector_type (make_exec_alert dt e fl aux) = dt"
  "h_detector_type (make_file_alert dt path mode fl aux) = dt"
  "h_detector_type (make_name_alert dt name) = dt"
  "h_detector_type (make_snap_alert dt s aux) = dt"
  by (simp_all add: make_exec_alert_def make_file_alert_def make_name_alert_def make_snap_alert_def)

lemma find_emit:
  "List.find P (emit r @ as) = (case r of Some a \<Rightarrow> if P a then Some a else List.find P as | None \<Rightarrow> List.find P as)"
  "List.find P (emit r) = (case r of Some a \<Rightarrow> if P a then Some a else None | None \<Rightarrow> None)"
  by (simp_all add: emit_def split: option.split)

definition own :: "u8 \<Rightarrow> host_alert option \<Rightarrow> bool" where
  "own dt r \<longleftrightarrow> (\<forall>a. r = Some a \<longrightarrow> h_detector_type a = dt)"

lemma own_find:
  "own dt r \<Longrightarrow> (case r of Some a \<Rightarrow> if h_detector_type a = dt' then Some a else x | None \<Rightarrow> x) =
     (if dt' = dt \<and> r \<noteq> None then r else x)"
  by (auto simp: own_def split: option.split)

lemma detectors_own:
  "own DT_UNKNOWN_EXEC (fst (UnknownExec_feed e t d1))"
  "own DT_PRIV_ESC (fst (PrivEsc_feed e t d2))"
  "own DT_FORK_FLOOD (fst (ForkFlood_feed e t d3))"
  "own DT_REV_SHELL (fst (RevShell_feed e t d4))"
  "own DT_FILE_MOD (fst (FileMod_feed f t d5))"
  "own DT_NEW_SETUID (fst (NewSetuid_feed f t d6))"
  "own DT_KMOD_LOAD (fst (KmodLoad_feed m t d7))"
  "own DT_ZOMBIE_STORM (fst (ZombieStorm_feed s t d8))"
  "own DT_RES_EXHAUST (fst (ResExhaust_feed s t d9))"
  "own DT_ROOT_SHELL (fst (RootShell_feed e t d10))"
  by (auto simp: own_def UnknownExec_feed_def PrivEsc_feed_def ForkFlood_feed_def RevShell_feed_def FileMod_feed_def
      NewSetuid_feed_def KmodLoad_feed_def ZombieStorm_feed_def ResExhaust_feed_def RootShell_feed_def Let_def
      split: if_splits option.splits)

lemmas find_simps = find_emit own_find [OF detectors_own(1)] own_find [OF detectors_own(2)] own_find [OF detectors_own(3)]
  own_find [OF detectors_own(4)] own_find [OF detectors_own(5)] own_find [OF detectors_own(6)] own_find [OF detectors_own(7)]
  own_find [OF detectors_own(8)] own_find [OF detectors_own(9)] own_find [OF detectors_own(10)]

lemma alert_of_alerts:
  "fst (alert_of MExec ev t p) = (if ev_kind ev = EXEC then fst (UnknownExec_feed (ev_exec ev) t (hp_unknown_exec p)) else None)"
  "fst (alert_of MPriv ev t p) = (if ev_kind ev = EXEC then fst (PrivEsc_feed (ev_exec ev) t (hp_priv_esc p)) else None)"
  "fst (alert_of MRev ev t p) = (if ev_kind ev = EXEC then fst (RevShell_feed (ev_exec ev) t (hp_rev_shell p)) else None)"
  "fst (alert_of MFile ev t p) = (if ev_kind ev = FILE_SCAN then fst (FileMod_feed (ev_file ev) t (hp_file_mod p)) else None)"
  "fst (alert_of MSetuid ev t p) = (if ev_kind ev = FILE_SCAN then fst (NewSetuid_feed (ev_file ev) t (hp_new_setuid p)) else None)"
  "fst (alert_of MKmod ev t p) = (if ev_kind ev = MODULE_SCAN then fst (KmodLoad_feed (ev_module ev) t (hp_kmod p)) else None)"
  "fst (alert_of MRes ev t p) = (if ev_kind ev = SNAPSHOT then fst (ResExhaust_feed (ev_snap ev) t (hp_res p)) else None)"
  "fst (alert_of MRoot ev t p) = (if ev_kind ev = EXEC then fst (RootShell_feed (ev_exec ev) t (hp_root_shell p)) else None)"
  by (cases "ev_kind ev"; simp add: alert_of_def feed_event_def split_def Let_def find_simps)+

lemma alert_of_parts:
  "hp_unknown_exec (snd (alert_of k ev t p)) =
     (if ev_kind ev = EXEC then snd (UnknownExec_feed (ev_exec ev) t (hp_unknown_exec p)) else hp_unknown_exec p)"
  "hp_priv_esc (snd (alert_of k ev t p)) =
     (if ev_kind ev = EXEC then snd (PrivEsc_feed (ev_exec ev) t (hp_priv_esc p)) else hp_priv_esc p)"
  "hp_rev_shell (snd (alert_of k ev t p)) =
     (if ev_kind ev = EXEC then snd (RevShell_feed (ev_exec ev) t (hp_rev_shell p)) else hp_rev_shell p)"
  "hp_file_mod (snd (alert_of k ev t p)) =
     (if ev_kind ev = FILE_SCAN then snd (FileMod_feed (ev_file ev) t (hp_file_mod p)) else hp_file_mod p)"
  "hp_new_setuid (snd (alert_of k ev t p)) =
     (if ev_kind ev = FILE_SCAN then snd (NewSetuid_feed (ev_file ev) t (hp_new_setuid p)) else hp_new_setuid p)"
  "hp_kmod (snd (alert_of k ev t p)) =
     (if ev_kind ev = MODULE_SCAN then snd (KmodLoad_feed (ev_module ev) t (hp_kmod p)) else hp_kmod p)"
  "hp_res (snd (alert_of k ev t p)) =
     (if ev_kind ev = SNAPSHOT then snd (ResExhaust_feed (ev_snap ev) t (hp_res p)) else hp_res p)"
  "hp_root_shell (snd (alert_of k ev t p)) =
     (if ev_kind ev = EXEC then snd (RootShell_feed (ev_exec ev) t (hp_root_shell p)) else hp_root_shell p)"
  by (cases "ev_kind ev"; simp add: alert_of_def feed_event_def split_def Let_def)+

lemma res_quiet: "res_suspect d s \<noteq> Some () \<Longrightarrow>
    fst (ResExhaust_feed s t d) = None \<and> rx_muted_until (snd (ResExhaust_feed s t d)) = rx_muted_until d"
  by (cases "res_suspect d s") (simp_all add: res_mute.feed_quiet)

lemma res_mutes: "res_suspect d s = Some () \<Longrightarrow> \<not> t < rx_muted_until d \<Longrightarrow>
    rx_muted_until (snd (ResExhaust_feed s t d)) = t + ucast (rx_cooldown_ms d)"
  using res_mute.feed_mutes [of d s "()" t "()"] by simp

lemmas mute_fixed = unknown_exec_mute.feed_suspect unknown_exec_mute.feed_cooldown priv_esc_mute.feed_suspect
  priv_esc_mute.feed_cooldown rev_shell_mute.feed_suspect rev_shell_mute.feed_cooldown file_mod_mute.feed_suspect
  file_mod_mute.feed_cooldown new_setuid_mute.feed_suspect new_setuid_mute.feed_cooldown kmod_mute.feed_suspect
  kmod_mute.feed_cooldown res_mute.feed_suspect res_mute.feed_cooldown root_shell_mute.feed_suspect root_shell_mute.feed_cooldown

interpretation host_mute: muting "alert_of k" "host_suspect k" "host_until k" "host_cooldown k" for k
proof
  fix p ev t k' k''
  show "host_suspect k p ev = None \<Longrightarrow> fst (alert_of k ev t p) = None \<and> host_until k (snd (alert_of k ev t p)) k' = host_until k p k'"
    by (cases k) (simp_all add: alert_of_alerts alert_of_parts unknown_exec_mute.feed_quiet priv_esc_mute.feed_quiet
      rev_shell_mute.feed_quiet file_mod_mute.feed_quiet new_setuid_mute.feed_quiet kmod_mute.feed_quiet res_quiet
      root_shell_mute.feed_quiet split: if_splits)
  show "host_suspect k p ev = Some k'' \<Longrightarrow> t < host_until k p k'' \<Longrightarrow>
      fst (alert_of k ev t p) = None \<and> host_until k (snd (alert_of k ev t p)) k' = host_until k p k'"
    by (cases k) (simp_all add: alert_of_alerts alert_of_parts unknown_exec_mute.feed_muted priv_esc_mute.feed_muted
      rev_shell_mute.feed_muted file_mod_mute.feed_muted new_setuid_mute.feed_muted kmod_mute.feed_muted res_mute.feed_muted
      root_shell_mute.feed_muted split: if_splits)
  show "host_suspect k p ev = Some k'' \<Longrightarrow> \<not> t < host_until k p k'' \<Longrightarrow> fst (alert_of k ev t p) \<noteq> None"
    using unknown_exec_mute.feed_alert priv_esc_mute.feed_alert rev_shell_mute.feed_alert file_mod_mute.feed_alert
      new_setuid_mute.feed_alert kmod_mute.feed_alert res_mute.feed_alert root_shell_mute.feed_alert
    by (cases k) (simp_all add: alert_of_alerts split: if_splits)
  show "host_suspect k p ev = Some k'' \<Longrightarrow> \<not> t < host_until k p k'' \<Longrightarrow>
      host_until k (snd (alert_of k ev t p)) k' = (if k' = k'' then t + ucast (host_cooldown k p) else host_until k p k')"
    by (cases k) (simp_all add: alert_of_parts unknown_exec_mute.feed_mutes priv_esc_mute.feed_mutes
      rev_shell_mute.feed_mutes file_mod_mute.feed_mutes new_setuid_mute.feed_mutes kmod_mute.feed_mutes res_mutes
      root_shell_mute.feed_mutes split: if_splits)
  show "host_suspect k (snd (alert_of k ev t p)) = host_suspect k p"
    by (cases k) (simp_all add: fun_eq_iff alert_of_parts mute_fixed)
  show "host_cooldown k (snd (alert_of k ev t p)) = host_cooldown k p"
    by (cases k) (simp_all add: alert_of_parts mute_fixed)
qed

subsection \<open>Runs of the pipeline\<close>

definition host_run :: "host_pipeline \<Rightarrow> host_event list \<Rightarrow> host_alert list list \<times> host_pipeline" where
  "host_run = run (\<lambda>p ev. feed_event ev p)"

definition raises :: "mute_kind \<Rightarrow> host_alert list \<Rightarrow> bool" where
  "raises k as \<longleftrightarrow> (\<exists>a \<in> set as. h_detector_type a = type_code k)"

definition timed :: "host_event list \<Rightarrow> (host_event \<times> u64) list" where
  "timed evs = map (\<lambda>ev. (ev, ev_ts_ms ev)) evs"

lemma host_run_simps [simp]:
  "host_run p [] = ([], p)"
  "host_run p (evs @ [ev]) = (fst (host_run p evs) @ [fst (feed_event ev (snd (host_run p evs)))],
     snd (feed_event ev (snd (host_run p evs))))"
  by (simp_all add: host_run_def run_append Let_def split_def)

lemma host_run_length [simp]: "length (fst (host_run p evs)) = length evs"
  by (simp add: host_run_def)

lemma find_raises: "List.find (\<lambda>a. h_detector_type a = type_code k) as \<noteq> None \<longleftrightarrow> raises k as"
  by (auto simp: raises_def find_None_iff)

lemma alert_of_own_time:
  "alert_of k ev (ev_ts_ms ev) p = (List.find (\<lambda>a. h_detector_type a = type_code k) (fst (feed_event ev p)), snd (feed_event ev p))"
  by (simp add: alert_of_def split_def)

lemma feeds_run:
  "host_mute.feeds k p (timed evs) =
     (map (List.find (\<lambda>a. h_detector_type a = type_code k)) (fst (host_run p evs)), snd (host_run p evs))"
proof (induction evs rule: rev_induct)
  case Nil
  then show ?case by (simp add: timed_def host_mute.feeds_def)
next
  case (snoc ev evs)
  have t: "timed (evs @ [ev]) = timed evs @ [(ev, ev_ts_ms ev)]" by (simp add: timed_def)
  show ?case by (rule prod_eqI) (simp_all add: t host_mute.feeds_snoc snoc.IH alert_of_own_time)
qed

lemma raised_times:
  "host_mute.alert_times k p (timed evs) key =
     ev_ts_ms ` {ev. \<exists>as. (ev, as) \<in> set (zip evs (fst (host_run p evs))) \<and> raises k as \<and> host_suspect k p ev = Some key}"
proof -
  have zip: "zip (timed evs) (map f xs) = map (\<lambda>(ev, as). ((ev, ev_ts_ms ev), f as)) (zip evs xs)" for f :: "host_alert list \<Rightarrow> 'z" and xs
    by (simp add: timed_def zip_map_map)
  show ?thesis
    unfolding host_mute.alert_times_def feeds_run fst_conv zip find_raises [symmetric]
    by (auto simp: image_iff) (metis, force)
qed

lemma host_alert_iff:
  assumes "\<And>key. host_until k p key = 0" "in_order (host_cooldown k p) (timed (evs @ [ev]))"
  shows "raises k (fst (feed_event ev (snd (host_run p evs)))) \<longleftrightarrow>
    (\<exists>key. host_suspect k p ev = Some key \<and>
      (\<forall>(ev', as) \<in> set (zip evs (fst (host_run p evs))). raises k as \<longrightarrow> host_suspect k p ev' = Some key \<longrightarrow>
         unat (ev_ts_ms ev') + unat (host_cooldown k p) \<le> unat (ev_ts_ms ev)))"
proof -
  have t: "timed (evs @ [ev]) = timed evs @ [(ev, ev_ts_ms ev)]" by (simp add: timed_def)
  show ?thesis
    using host_mute.alert_iff_cooled_down [of k p, OF assms(1) assms(2) [unfolded t]]
    unfolding raised_times feeds_run by (simp add: alert_of_own_time find_raises [unfolded not_None_eq]) fastforce
qed

subsection \<open>The detectors after the set-up\<close>

definition pristine :: "host_pipeline \<Rightarrow> bool" where
  "pristine p \<longleftrightarrow> (\<forall>k key. host_until k p key = 0) \<and>
     (\<forall>k. host_cooldown k p = (if k = MFile \<or> k = MSetuid then 600000 else 60000))"

lemma fold_keeps: "(\<And>x s. f (g x s) = f s) \<Longrightarrow> f (fold g xs s) = f s"
  by (induction xs arbitrary: s) simp_all

lemma loaded_state [simp]:
  "ue_muted (fold add_allowed xs d1) = ue_muted d1" "ue_cooldown_ms (fold add_allowed xs d1) = ue_cooldown_ms d1"
  "ns_muted (fold add_baseline_path xs d2) = ns_muted d2"
  "ns_cooldown_ms (fold add_baseline_path xs d2) = ns_cooldown_ms d2"
  "km_muted (fold add_baseline xs d3) = km_muted d3" "km_cooldown_ms (fold add_baseline xs d3) = km_cooldown_ms d3"
  "rv_muted (fold add_net_parent xs d4) = rv_muted d4" "rv_cooldown_ms (fold add_net_parent xs d4) = rv_cooldown_ms d4"
  by (rule fold_keeps; simp add: add_allowed_def add_baseline_path_def add_baseline_def add_net_parent_def)+

lemma loads_mutes:
  "host_until k (snd (load_exec_allowlist path ls p)) = host_until k p"
  "host_cooldown k (snd (load_exec_allowlist path ls p)) = host_cooldown k p"
  "host_until k (snd (load_file_baseline path ls p)) = host_until k p"
  "host_cooldown k (snd (load_file_baseline path ls p)) = host_cooldown k p"
  "host_until k (snd (load_module_baseline path ls p)) = host_until k p"
  "host_cooldown k (snd (load_module_baseline path ls p)) = host_cooldown k p"
  "host_until k (snd (load_net_parents path ls p)) = host_until k p"
  "host_cooldown k (snd (load_net_parents path ls p)) = host_cooldown k p"
  by (cases k; simp add: load_exec_allowlist_def load_file_baseline_def load_module_baseline_def load_net_parents_def
      set_baseline_def split_def fun_eq_iff split: sum.split)+

lemma loads_pristine:
  "pristine (snd (load_exec_allowlist path ls p)) = pristine p"
  "pristine (snd (load_file_baseline path ls p)) = pristine p"
  "pristine (snd (load_module_baseline path ls p)) = pristine p"
  "pristine (snd (load_net_parents path ls p)) = pristine p"
  by (simp_all add: pristine_def loads_mutes)

lemma thresholds_pristine: "pristine (set_thresholds args host_start)"
proof -
  have "host_until k (set_thresholds args host_start) key = 0" for k key
    by (cases k) (simp_all add: set_thresholds_def host_start_def rev_shell_new_def res_new_def Let_def)
  moreover have "host_cooldown k (set_thresholds args host_start) = (if k = MFile \<or> k = MSetuid then 600000 else 60000)" for k
    by (cases k) (simp_all add: set_thresholds_def host_start_def rev_shell_new_def res_new_def Let_def)
  ultimately show ?thesis by (simp add: pristine_def)
qed

lemma load_if_pristine:
  "load_if path load p = Inr p' \<Longrightarrow> (\<And>p. pristine (snd (load path p)) = pristine p) \<Longrightarrow> pristine p' = pristine p"
  unfolding load_if_def by (drule meta_spec [of _ p]) (auto split: if_splits prod.splits sum.splits)

lemma then_load_Inr: "then_load r f = Inr p' \<longleftrightarrow> (\<exists>p. r = Inr p \<and> f p = Inr p')"
  by (simp add: then_load_def split: sum.split)

lemma setup_pristine: "host_setup args files = Inr p \<Longrightarrow> pristine p"
proof -
  assume "host_setup args files = Inr p"
  then obtain p1 p2 p3 where l:
    "load_if (arg_baseline_exec args) (\<lambda>path. load_exec_allowlist path (files path)) (set_thresholds args host_start) = Inr p1"
    "load_if (arg_baseline_files args) (\<lambda>path. load_file_baseline path (files path)) p1 = Inr p2"
    "load_if (arg_baseline_mods args) (\<lambda>path. load_module_baseline path (files path)) p2 = Inr p3"
    "load_if (arg_net_parents args) (\<lambda>path. load_net_parents path (files path)) p3 = Inr p"
    unfolding host_setup_def then_load_Inr by blast
  show ?thesis
    using load_if_pristine [OF l(1) loads_pristine(1)] load_if_pristine [OF l(2) loads_pristine(2)]
      load_if_pristine [OF l(3) loads_pristine(3)] load_if_pristine [OF l(4) loads_pristine(4)] thresholds_pristine
    by simp
qed

end
