(* ===== verification/Host_Capture.thy ===== *)
theory Host_Capture
  imports Host_Pipeline
begin

text \<open>
  \<open>apps/host_probe/capture.cpp\<close>: the replay of an event log and the passes of the \<open>/proc\<close> poller. What
  a pass reads from the operating system is a parameter, the record \<open>host_os\<close>, taken as unchanging within one pass. The
  netlink source, whose messages are structures of the kernel, contributes \<open>read_proc_details\<close>, which the poller
  uses too. Numbers are those of a 64-bit target.
\<close>

subsection \<open>Replay\<close>

definition replay_blank :: "string \<Rightarrow> bool" where
  "replay_blank line \<longleftrightarrow> (\<forall>c \<in> set (takeWhile (\<lambda>c. c \<noteq> CHR ''#'') line). blank c \<or> c = CHR 0x0D)"

definition replay_line :: "string \<Rightarrow> nat \<times> host_event list \<Rightarrow> nat \<times> host_event list" where
  "replay_line line = (\<lambda>(bad, evs). case parse_host_event line of
     None \<Rightarrow> (if replay_blank line then bad else bad + 1, evs)
   | Some ev \<Rightarrow> (bad, evs @ [ev]))"

text \<open>Whether the replay succeeds, its \<open>err\<close> text, and the events that it delivers.\<close>

definition replay_events :: "string \<Rightarrow> string list option \<Rightarrow> bool \<times> string \<times> host_event list" where
  "replay_events path lines = (case lines of
     None \<Rightarrow> (False, ''cannot open events file: '' @ path, [])
   | Some ls \<Rightarrow> let (bad, evs) = fold replay_line ls (0, []) in
       (True, if bad > 0 then dec bad @ '' malformed line(s) skipped in '' @ path else [], evs))"

subsection \<open>Reading \<open>/proc\<close>\<close>

record host_os =
  os_proc :: "string list option"
  os_read :: "string \<Rightarrow> string option"
  os_link :: "string \<Rightarrow> string option"
  os_stat :: "string \<Rightarrow> (u32 \<times> u32) option"
  os_data :: "string \<Rightarrow> bytes option"
  os_data_bad :: "string \<Rightarrow> bool"
  os_hz :: u64
  os_page_kb :: u64

definition proc_path :: "u32 \<Rightarrow> string \<Rightarrow> string" where
  "proc_path pid what = ''/proc/'' @ dec (unat pid) @ ''/'' @ what"

text \<open>\<open>strtoul\<close> without a look at where the number ends.\<close>

definition num10 :: "string \<Rightarrow> u64" where
  "num10 s = (case c_strtoul 10 s of Some (v, _) \<Rightarrow> v | None \<Rightarrow> 0)"

definition after_last :: "char \<Rightarrow> string \<Rightarrow> string option" where
  "after_last c s = (if c \<in> set s then Some (rev (takeWhile (\<lambda>d. d \<noteq> c) (rev s))) else None)"

record proc_stat =
  ps_state :: char
  ps_ppid :: u32
  ps_ticks :: u64
  ps_rss_pages :: u64

definition read_stat :: "host_os \<Rightarrow> u32 \<Rightarrow> proc_stat option" where
  "read_stat os pid = do {
     raw \<leftarrow> os_read os (proc_path pid ''stat'');
     r \<leftarrow> after_last CHR '')'' raw;
     let f = tokens r;
     if length f < 22 then None
     else let rss = (case c_strtol 10 (f ! 21) of Some (n, _) \<Rightarrow> n | None \<Rightarrow> 0) in
       Some \<lparr> ps_state = (if f ! 0 = [] then CHR ''?'' else f ! 0 ! 0), ps_ppid = ucast (num10 (f ! 1)),
         ps_ticks = num10 (f ! 11) + num10 (f ! 12), ps_rss_pages = (if rss > 0 then of_int rss else 0) \<rparr> }"

text \<open>The real and effective user and group of a process; a malformed line ends the search.\<close>

record proc_ids =
  pi_uid :: u32
  pi_euid :: u32
  pi_gid :: u32
  pi_egid :: u32

definition four_ids :: "string \<Rightarrow> (u32 \<times> u32) option" where
  "four_ids s = do {
     (r, s) \<leftarrow> ext_u32 s;
     (e, s) \<leftarrow> ext_u32 s;
     (sv, s) \<leftarrow> ext_u32 s;
     (fs, s) \<leftarrow> ext_u32 s;
     Some (r, e) }"

fun status_lines :: "string list \<Rightarrow> proc_ids \<Rightarrow> bool \<times> proc_ids" where
  "status_lines [] i = (True, i)"
| "status_lines (l # ls) i = (case ext_str l of
     None \<Rightarrow> status_lines ls i
   | Some (tag, r) \<Rightarrow>
       if tag = ''Uid:'' then (case four_ids r of
           None \<Rightarrow> (False, i) | Some (re, ef) \<Rightarrow> status_lines ls (i\<lparr>pi_uid := re, pi_euid := ef\<rparr>))
       else if tag = ''Gid:'' then (case four_ids r of
           None \<Rightarrow> (False, i) | Some (re, ef) \<Rightarrow> status_lines ls (i\<lparr>pi_gid := re, pi_egid := ef\<rparr>))
       else status_lines ls i)"

definition read_status_ids :: "host_os \<Rightarrow> u32 \<Rightarrow> proc_ids \<Rightarrow> bool \<times> proc_ids" where
  "read_status_ids os pid i = (case os_read os (proc_path pid ''status'') of
     None \<Rightarrow> (False, i) | Some raw \<Rightarrow> status_lines (getlines CHR 0x0A raw) i)"

definition read_comm_name :: "host_os \<Rightarrow> u32 \<Rightarrow> string option" where
  "read_comm_name os pid = map_option
     (\<lambda>raw. copy_comm (rev (dropWhile (\<lambda>c. c = CHR 0x0A \<or> c = CHR 0x0D) (rev raw)))) (os_read os (proc_path pid ''comm''))"

definition read_exe_path :: "host_os \<Rightarrow> u32 \<Rightarrow> string option" where
  "read_exe_path os pid = map_option (\<lambda>l. c_str (take 4095 l)) (os_link os (proc_path pid ''exe''))"

definition or_else :: "'a option \<Rightarrow> 'a \<Rightarrow> 'a" where
  "or_else r x = (case r of Some y \<Rightarrow> y | None \<Rightarrow> x)"

definition no_ids :: proc_ids where "no_ids = \<lparr> pi_uid = 0, pi_euid = 0, pi_gid = 0, pi_egid = 0 \<rparr>"

text \<open>The details of a process for a fresh event; what cannot be read stays empty.\<close>

definition read_proc_details :: "host_os \<Rightarrow> u32 \<Rightarrow> exec_event" where
  "read_proc_details os pid = (let
     st = read_stat os pid;
     ppid = (case st of Some s \<Rightarrow> ps_ppid s | None \<Rightarrow> 0);
     parent = (case st of Some s \<Rightarrow> or_else (map_option copy_comm (read_comm_name os (ps_ppid s))) [] | None \<Rightarrow> []);
     i = snd (read_status_ids os pid no_ids)
     in \<lparr> e_pid = pid, e_ppid = ppid, e_uid = pi_uid i, e_euid = pi_euid i, e_gid = pi_gid i, e_egid = pi_egid i,
          e_comm = or_else (read_comm_name os pid) [], e_parent_comm = parent, e_exe = or_else (read_exe_path os pid) [] \<rparr>)"

definition is_number :: "string \<Rightarrow> bool" where
  "is_number s \<longleftrightarrow> s \<noteq> [] \<and> (\<forall>c \<in> set s. 48 \<le> (of_char c :: nat) \<and> (of_char c :: nat) \<le> 57)"

subsection \<open>A pass of the poller\<close>

record scanner =
  sc_scan_files :: "string list"
  sc_emit_execs :: bool
  sc_known_pids :: "u32 list"
  sc_prev_ticks :: "(u32 \<times> u64) list"
  sc_known_mods :: name_set
  sc_primed :: bool
  sc_last_scan_ms :: u64

definition scanner_new :: "bool \<Rightarrow> string list \<Rightarrow> scanner" where
  "scanner_new emit_execs files = \<lparr> sc_scan_files = files, sc_emit_execs = emit_execs, sc_known_pids = [], sc_prev_ticks = [],
     sc_known_mods = [], sc_primed = False, sc_last_scan_ms = 0 \<rparr>"

text \<open>What the walk over the processes collects: the events, the ticks seen, and the aggregate.\<close>

record walk =
  wk_events :: "host_event list"
  wk_ticks :: "(u32 \<times> u64) list"
  wk_snap :: snapshot_event

definition exec_born :: "host_os \<Rightarrow> u64 \<Rightarrow> u32 \<Rightarrow> host_event" where
  "exec_born os now pid = host_event_new\<lparr>ev_kind := EXEC, ev_ts_ms := now, ev_exec := read_proc_details os pid\<rparr>"

text \<open>The processor time of a process since the last pass, in thousandths.\<close>

definition proc_ppm :: "host_os \<Rightarrow> u64 \<Rightarrow> scanner \<Rightarrow> u32 \<Rightarrow> u64 \<Rightarrow> u32" where
  "proc_ppm os delta_ms s pid ticks = (case map_of (sc_prev_ticks s) pid of
     None \<Rightarrow> 0
   | Some prev \<Rightarrow> if delta_ms > 0 \<and> ticks \<ge> prev
       then ucast ((ticks - prev) * 1000000 div (os_hz os * delta_ms)) else 0)"

definition top_cpu :: "host_os \<Rightarrow> u32 \<Rightarrow> u32 \<Rightarrow> snapshot_event \<Rightarrow> snapshot_event" where
  "top_cpu os pid ppm n = (if ppm > s_top_cpu_ppm n
     then let (ok, i) = read_status_ids os pid no_ids in
       n\<lparr>s_top_cpu_pid := pid, s_top_cpu_ppm := ppm,
         s_top_cpu_comm := (case read_comm_name os pid of Some c \<Rightarrow> copy_comm c | None \<Rightarrow> s_top_cpu_comm n),
         s_top_cpu_uid := (if ok then pi_uid i else s_top_cpu_uid n)\<rparr>
     else n)"

definition top_mem :: "host_os \<Rightarrow> u32 \<Rightarrow> u64 \<Rightarrow> snapshot_event \<Rightarrow> snapshot_event" where
  "top_mem os pid rss_kb n = (if rss_kb > s_top_mem_rss_kb n
     then let (ok, i) = read_status_ids os pid no_ids in
       n\<lparr>s_top_mem_pid := pid, s_top_mem_rss_kb := rss_kb,
         s_top_mem_comm := (case read_comm_name os pid of Some c \<Rightarrow> copy_comm c | None \<Rightarrow> s_top_mem_comm n),
         s_top_mem_uid := (if ok then pi_uid i else s_top_mem_uid n)\<rparr>
     else n)"

definition walk_entry :: "host_os \<Rightarrow> u64 \<Rightarrow> u64 \<Rightarrow> scanner \<Rightarrow> string \<Rightarrow> walk \<Rightarrow> walk" where
  "walk_entry os now delta_ms s name w = (if \<not> is_number name then w
     else let pid = ucast (num10 name) in
       case read_stat os pid of
         None \<Rightarrow> w
       | Some st \<Rightarrow> let
           w = w\<lparr>wk_ticks := AList.update pid (ps_ticks st) (wk_ticks w)\<rparr>;
           w = (if sc_emit_execs s \<and> sc_primed s \<and> pid \<notin> set (sc_known_pids s) \<and> ps_ppid st \<noteq> 2
             then w\<lparr>wk_events := wk_events w @ [exec_born os now pid]\<rparr> else w);
           n = wk_snap w;
           n = (if ps_state st = CHR ''Z'' then n\<lparr>s_zombies := s_zombies n + 1\<rparr> else n);
           n = top_cpu os pid (proc_ppm os delta_ms s pid (ps_ticks st)) n;
           n = top_mem os pid (ps_rss_pages st * os_page_kb os) n
           in w\<lparr>wk_snap := n\<rparr>)"

definition walk_start :: walk where
  "walk_start = \<lparr> wk_events = [], wk_ticks = [], wk_snap = snapshot_new \<rparr>"

definition walk_proc :: "host_os \<Rightarrow> u64 \<Rightarrow> u64 \<Rightarrow> scanner \<Rightarrow> walk" where
  "walk_proc os now delta_ms s = (case os_proc os of
     None \<Rightarrow> walk_start | Some names \<Rightarrow> fold (walk_entry os now delta_ms s) names walk_start)"

definition module_line :: "u64 \<Rightarrow> bool \<Rightarrow> string \<Rightarrow> host_event list \<times> name_set \<Rightarrow> host_event list \<times> name_set" where
  "module_line now primed line = (\<lambda>(evs, known). case ext_str line of
     None \<Rightarrow> (evs, known)
   | Some (name, _) \<Rightarrow>
       (if name \<notin> set known \<and> primed
        then evs @ [host_event_new\<lparr>ev_kind := MODULE_SCAN, ev_ts_ms := now, ev_module := \<lparr> m_name = name \<rparr>\<rparr>] else evs,
        List.insert name known))"

definition scan_modules :: "host_os \<Rightarrow> u64 \<Rightarrow> scanner \<Rightarrow> host_event list \<times> name_set" where
  "scan_modules os now s = (case os_read os ''/proc/modules'' of
     None \<Rightarrow> ([], sc_known_mods s)
   | Some raw \<Rightarrow> fold (module_line now (sc_primed s)) (getlines CHR 0x0A raw) ([], sc_known_mods s))"

text \<open>The scan of one monitored file; \<open>None\<close> only passes on the one of the hash, which never occurs.\<close>

definition scan_file :: "host_os \<Rightarrow> u64 \<Rightarrow> string \<Rightarrow> host_event option" where
  "scan_file os now path = (let ev = host_event_new\<lparr>ev_kind := FILE_SCAN, ev_ts_ms := now\<rparr> in
     case os_stat os path of
       None \<Rightarrow> Some (ev\<lparr>ev_file := file_scan_new\<lparr>f_path := path\<rparr>\<rparr>)
     | Some (st_mode, st_uid) \<Rightarrow> do {
         r \<leftarrow> sha256_file (os_data os path) (os_data_bad os path);
         Some (ev\<lparr>ev_file := \<lparr> f_path = path, f_sha256 = or_else r (replicate 32 0), f_present = True,
           f_mode = st_mode AND 0xFFF, f_uid = st_uid \<rparr>\<rparr>) })"

fun scan_all :: "host_os \<Rightarrow> u64 \<Rightarrow> string list \<Rightarrow> host_event list option" where
  "scan_all os now [] = Some []"
| "scan_all os now (p # ps) = do { ev \<leftarrow> scan_file os now p; evs \<leftarrow> scan_all os now ps; Some (ev # evs) }"

text \<open>One round of the loop of \<open>ProcScanCapture::run\<close>, up to the sleep: the events in order and the new state.\<close>

definition scan_pass :: "host_os \<Rightarrow> u64 \<Rightarrow> scanner \<Rightarrow> (host_event list \<times> scanner) option" where
  "scan_pass os now s = (let
     delta_ms = (if sc_last_scan_ms s > 0 \<and> now > sc_last_scan_ms s then now - sc_last_scan_ms s else 0);
     w = walk_proc os now delta_ms s;
     snap = (if sc_primed s then [host_event_new\<lparr>ev_kind := SNAPSHOT, ev_ts_ms := now, ev_snap := wk_snap w\<rparr>] else []);
     (mods, known) = scan_modules os now s
     in do {
       files \<leftarrow> scan_all os now (sc_scan_files s);
       Some (wk_events w @ snap @ mods @ files,
         s\<lparr>sc_last_scan_ms := now, sc_prev_ticks := wk_ticks w, sc_known_pids := map fst (wk_ticks w),
           sc_known_mods := known, sc_primed := True\<rparr>) })"

end
