(* ===== verification/Host_Integrity.thy ===== *)
theory Host_Integrity
  imports Host_Muting Host_Capture
begin

text \<open>
  What the host probe promises as a whole: the verdict on a monitored file from the line of its baseline to the alert,
  the births of processes that the poller reports, and which detectors a live run can reach.
\<close>

subsection \<open>A baseline line reads back\<close>

text \<open>A line of \<open>sha256sum\<close> for a path and the content of its file.\<close>

definition sum_line :: "string \<times> bytes \<Rightarrow> string" where
  "sum_line = (\<lambda>(path, content). sha256_hex (sha_digest content) @ ''  '' @ path)"

definition trimmable :: "char \<Rightarrow> bool" where
  "trimmable c \<longleftrightarrow> blank c \<or> c = CHR 0x0D"

definition plain_path :: "string \<Rightarrow> bool" where
  "plain_path path \<longleftrightarrow> path \<noteq> [] \<and> CHR ''#'' \<notin> set path \<and> \<not> trimmable (hd path) \<and> \<not> trimmable (last path)"

lemma hex_char_plain: "n < 16 \<Longrightarrow> hex_char n \<noteq> CHR ''#'' \<and> \<not> trimmable (hex_char n)"
  by (simp add: numeral_eq_Suc less_Suc_eq) (elim disjE; simp add: hex_char_def trimmable_def blank_def)

lemma hex_plain: "c \<in> set (sha256_hex d) \<Longrightarrow> c \<noteq> CHR ''#'' \<and> \<not> trimmable c"
  by (auto simp: sha256_hex_def hex_char_plain nibbles_small)

lemma trim_of_plain: "s \<noteq> [] \<Longrightarrow> \<not> P (hd s) \<Longrightarrow> \<not> P (last s) \<Longrightarrow> trim_of P s = s"
proof -
  assume "s \<noteq> []" "\<not> P (hd s)" "\<not> P (last s)"
  moreover have "dropWhile P r = r" if "r \<noteq> []" "\<not> P (hd r)" for r using that by (cases r) simp_all
  ultimately show ?thesis by (simp add: trim_of_def hd_rev)
qed

lemma sum_line_cut:
  "length (sha256_hex (sha_digest content)) = 64"
  "take 64 (sum_line (path, content)) = sha256_hex (sha_digest content)"
  "drop 64 (sum_line (path, content)) = ''  '' @ path"
  by (simp_all add: sum_line_def SHA256_LEN_def)

lemma clean_sum_line:
  assumes "plain_path path"
  shows "clean_line (sum_line (path, content)) = sum_line (path, content)"
proof -
  let ?l = "sum_line (path, content)" and ?h = "sha256_hex (sha_digest content)"
  have l: "?l = ?h @ ''  '' @ path" by (simp add: sum_line_def)
  have h: "?h \<noteq> []" by (metis sum_line_cut(1) list.size(3) zero_neq_numeral)
  have "\<forall>c \<in> set ?l. c \<noteq> CHR ''#''" using assms hex_plain [where d = "sha_digest content"] by (auto simp: l plain_path_def)
  then have "takeWhile (\<lambda>c. c \<noteq> CHR ''#'') ?l = ?l" by (simp add: takeWhile_eq_all_conv)
  moreover have "\<not> trimmable (hd ?l)" using hex_plain [OF hd_in_set [OF h]] h by (simp add: l)
  moreover have "\<not> trimmable (last ?l)" using assms by (simp add: l plain_path_def)
  moreover have "?l \<noteq> []" by (simp add: l)
  ultimately have "trim_of trimmable (takeWhile (\<lambda>c. c \<noteq> CHR ''#'') ?l) = ?l" by (metis trim_of_plain)
  then show ?thesis by (simp only: clean_line_def trimmable_def [abs_def])
qed

lemma baseline_entry_sum_line:
  assumes "plain_path path"
  shows "baseline_entry (sum_line (path, content)) (out, k) = (AList.update path (sha_digest content) out, k)"
proof -
  have "length (sum_line (path, content)) \<ge> 67"
    using assms by (cases path) (auto simp: sum_line_def plain_path_def SHA256_LEN_def)
  moreover have "dropWhile blank (''  '' @ path) = path" "\<not> blank (hd path)" "path \<noteq> []"
    using assms by (cases path; simp add: plain_path_def trimmable_def blank_def)+
  ultimately show ?thesis
    by (simp add: baseline_entry_def SHA256_LEN_def sum_line_cut [unfolded SHA256_LEN_def] sha256_hex_back
        sha_digest_length [unfolded SHA256_LEN_def] blank_def Let_def)
qed

lemma baseline_of_sums:
  assumes "\<forall>(path, content) \<in> set es. plain_path path"
  shows "load_entries baseline_entry (map sum_line es) (out, k) =
    (fold (\<lambda>(path, content). AList.update path (sha_digest content)) es out, k)"
  using assms
proof (induction es arbitrary: out)
  case (Cons e es)
  obtain path content where e: "e = (path, content)" by (cases e)
  have ne: "sum_line (path, content) \<noteq> []" by (simp add: sum_line_def)
  show ?case using Cons ne by (simp add: e load_entries_def clean_sum_line baseline_entry_sum_line)
qed (simp add: load_entries_def)

lemma sums_map_of:
  "distinct (map fst es) \<Longrightarrow> (path, content) \<in> set es \<Longrightarrow>
     map_of (fold (\<lambda>(path, content). AList.update path (sha_digest content)) es out) path = Some (sha_digest content)"
  by (induction es rule: rev_induct) (auto simp: update_conv split: prod.splits, metis fst_conv rev_image_eqI)

subsection \<open>What the set-up leaves in the file detectors\<close>

lemma set_fold_insert:
  "set (ns_baseline_paths (fold add_baseline_path ps d)) = set (ns_baseline_paths d) \<union> set ps"
  by (induction ps arbitrary: d) (auto simp: add_baseline_path_def)

definition files_loaded :: "file_baseline \<Rightarrow> host_pipeline \<Rightarrow> bool" where
  "files_loaded fb p \<longleftrightarrow> fm_baseline (hp_file_mod p) = fb \<and> set (ns_baseline_paths (hp_new_setuid p)) = fst ` set fb"

lemma other_loads_files:
  "files_loaded fb (snd (load_exec_allowlist path ls p)) = files_loaded fb p"
  "files_loaded fb (snd (load_module_baseline path ls p)) = files_loaded fb p"
  "files_loaded fb (snd (load_net_parents path ls p)) = files_loaded fb p"
  by (simp_all add: files_loaded_def load_exec_allowlist_def load_module_baseline_def load_net_parents_def split_def
      split: sum.split)

lemma load_if_files:
  "load_if path load p = Inr p' \<Longrightarrow> (\<And>p. files_loaded fb (snd (load path p)) = files_loaded fb p) \<Longrightarrow>
     files_loaded fb p' = files_loaded fb p"
  unfolding load_if_def by (drule meta_spec [of _ p]) (auto split: if_splits prod.splits sum.splits)

definition baseline_given :: "host_args \<Rightarrow> (string \<Rightarrow> string list option) \<Rightarrow> file_baseline" where
  "baseline_given args files = (if arg_baseline_files args = [] then []
     else case files (arg_baseline_files args) of None \<Rightarrow> [] | Some ls \<Rightarrow> fst (load_entries baseline_entry ls ([], 0)))"

lemma setup_files:
  assumes "host_setup args files = Inr p"
  shows "files_loaded (baseline_given args files) p"
proof -
  obtain p1 p2 p3 where l:
    "load_if (arg_baseline_exec args) (\<lambda>path. load_exec_allowlist path (files path)) (set_thresholds args host_start) = Inr p1"
    "load_if (arg_baseline_files args) (\<lambda>path. load_file_baseline path (files path)) p1 = Inr p2"
    "load_if (arg_baseline_mods args) (\<lambda>path. load_module_baseline path (files path)) p2 = Inr p3"
    "load_if (arg_net_parents args) (\<lambda>path. load_net_parents path (files path)) p3 = Inr p"
    using assms unfolding host_setup_def then_load_Inr by blast
  have "files_loaded [] (set_thresholds args host_start)"
    by (simp add: files_loaded_def set_thresholds_def host_start_def Let_def)
  then have p1: "files_loaded [] p1" using load_if_files [OF l(1) other_loads_files(1)] by simp
  have "files_loaded (baseline_given args files) p2"
    using p1 l(2)
    by (auto simp: load_if_def baseline_given_def load_file_baseline_def load_file_baseline_file_def files_loaded_def
        set_baseline_def set_fold_insert image_iff split: if_splits prod.splits sum.splits option.splits) force
  then show ?thesis using load_if_files [OF l(3) other_loads_files(2)] load_if_files [OF l(4) other_loads_files(3)] by simp
qed

subsection \<open>The verdict on a file\<close>

text \<open>The digest that a scan finds: zeros for a file that cannot be read.\<close>

definition scan_digest :: "host_os \<Rightarrow> string \<Rightarrow> bytes" where
  "scan_digest os path = (case os_data os path of None \<Rightarrow> replicate 32 0
     | Some d \<Rightarrow> if os_data_bad os path then replicate 32 0 else sha_digest d)"

lemma scan_file_event:
  "scan_file os now path = Some (case os_stat os path of
     None \<Rightarrow> host_event_new\<lparr>ev_kind := FILE_SCAN, ev_ts_ms := now, ev_file := file_scan_new\<lparr>f_path := path\<rparr>\<rparr>
   | Some (mode, uid) \<Rightarrow> host_event_new\<lparr>ev_kind := FILE_SCAN, ev_ts_ms := now, ev_file := \<lparr> f_path = path,
       f_sha256 = scan_digest os path, f_present = True, f_mode = mode AND 0xFFF, f_uid = uid \<rparr>\<rparr>)"
proof -
  have "\<exists>r. sha256_file (os_data os path) (os_data_bad os path) = Some r \<and> or_else r (replicate 32 0) = scan_digest os path"
  proof (cases "os_data os path")
    case (Some d)
    then show ?thesis using sha_pieces [of "read_pieces 65536 d"] sha_file [of d]
      by (cases "os_data_bad os path") (auto simp: sha256_file_def scan_digest_def or_else_def)
  qed (simp add: sha256_file_def scan_digest_def or_else_def)
  then show ?thesis by (auto simp: scan_file_def Let_def split: option.split)
qed

lemma pristine_unmuted: "pristine p \<Longrightarrow> \<not> muted_until (fm_muted (hp_file_mod p)) path t"
  using host_until.simps(4) [of p] unfolding pristine_def muted_until_time by (metis word_not_simps(1))

text \<open>A small run: one listed file, and a system without processes in which the file is missing.\<close>

definition demo_args :: host_args where
  "demo_args = \<lparr> arg_baseline_exec = [], arg_baseline_files = ''base'', arg_baseline_mods = [], arg_net_parents = [],
     arg_fork_rate = 0, arg_zombie_max = 0, arg_cpu_ppm = 0, arg_rss_kb = 0 \<rparr>"

definition demo_files :: "string \<Rightarrow> string list option" where
  "demo_files path = (if path = ''base'' then Some (map sum_line [(''/etc/passwd'', [1, 2])]) else None)"

definition demo_os :: "string list option \<Rightarrow> (string \<Rightarrow> string option) \<Rightarrow> host_os" where
  "demo_os proc reads = \<lparr> os_proc = proc, os_read = reads, os_link = (\<lambda>_. None), os_stat = (\<lambda>_. None), os_data = (\<lambda>_. None),
     os_data_bad = (\<lambda>_. False), os_hz = 100, os_page_kb = 4 \<rparr>"

lemma demo_setup: "\<exists>p. host_setup demo_args demo_files = Inr p"
  by (simp add: host_setup_def load_if_def then_load_def demo_args_def demo_files_def load_file_baseline_def
      load_file_baseline_file_def split: prod.split)

text \<open>
  C38: From the baseline to the alert: with a baseline written by \<open>sha256sum\<close>, the first scan of a listed file gives
  no alert when its bytes have the digest of the listed content, the alert for a vanished file when it cannot be
  found, and otherwise the alert for a changed one.
\<close>

theorem integrity_verdict:
  assumes "host_setup args files = Inr p" "arg_baseline_files args \<noteq> []"
    and "files (arg_baseline_files args) = Some (map sum_line es)"
    and "distinct (map fst es)" "\<forall>(path, content) \<in> set es. plain_path path"
    and "(path, good) \<in> set es" "scan_file os now path = Some ev"
  shows "fst (feed_event ev p) = (case os_stat os path of
      None \<Rightarrow> [make_file_alert DT_FILE_MOD path 0 HF_MISSING FILE_MOD_GONE]
    | Some (mode, uid) \<Rightarrow> if scan_digest os path = sha_digest good then []
        else [make_file_alert DT_FILE_MOD path (mode AND 0xFFF) 0 FILE_MOD_HASH])"
proof -
  have fb: "baseline_given args files = fold (\<lambda>(path, content). AList.update path (sha_digest content)) es []"
    using assms(2,3,5) by (simp add: baseline_given_def baseline_of_sums)
  have known: "map_of (fm_baseline (hp_file_mod p)) path = Some (sha_digest good)"
    using setup_files [OF assms(1)] sums_map_of [OF assms(4,6), of "[]"] by (simp add: files_loaded_def fb)
  moreover have "path \<in> set (ns_baseline_paths (hp_new_setuid p))"
    using setup_files [OF assms(1)] known by (force simp: files_loaded_def dest: map_of_SomeD)
  moreover note pristine_unmuted [OF setup_pristine [OF assms(1)]]
  ultimately show ?thesis
    using assms(7)
    by (cases "os_stat os path") (auto simp: scan_file_event feed_event_def FileMod_feed_def NewSetuid_feed_def
        file_scan_new_def Let_def split_def)
qed

lemma integrity_verdict_witness:
  "\<exists>p ev. host_setup demo_args demo_files = Inr p \<and> scan_file (demo_os None (\<lambda>_. None)) 5 ''/etc/passwd'' = Some ev \<and>
     fst (feed_event ev p) = [make_file_alert DT_FILE_MOD ''/etc/passwd'' 0 HF_MISSING FILE_MOD_GONE]"
proof -
  obtain p where p: "host_setup demo_args demo_files = Inr p" using demo_setup by blast
  obtain ev where ev: "scan_file (demo_os None (\<lambda>_. None)) 5 ''/etc/passwd'' = Some ev"
    by (simp add: scan_file_event)
  have "fst (feed_event ev p) = (case os_stat (demo_os None (\<lambda>_. None)) ''/etc/passwd'' of
      None \<Rightarrow> [make_file_alert DT_FILE_MOD ''/etc/passwd'' 0 HF_MISSING FILE_MOD_GONE]
    | Some (mode, uid) \<Rightarrow> if scan_digest (demo_os None (\<lambda>_. None)) ''/etc/passwd'' = sha_digest [1, 2] then []
        else [make_file_alert DT_FILE_MOD ''/etc/passwd'' (mode AND 0xFFF) 0 FILE_MOD_HASH])"
    by (rule integrity_verdict [OF p _ _ _ _ _ ev, where es = "[(''/etc/passwd'', [1, 2])]"])
      (simp_all add: demo_args_def demo_files_def plain_path_def trimmable_def blank_def)
  then show ?thesis using p ev by (auto simp: demo_os_def)
qed

text \<open>
  C39: Every detector that mutes, in every mix of events: an event raises its alert exactly when it is suspicious for a
  key and no earlier event of that key raised one within the cooldown.
\<close>

theorem host_alerts_once_per_cooldown:
  assumes "host_setup args files = Inr p" "in_order (host_cooldown k p) (timed (evs @ [ev]))"
  shows "raises k (fst (feed_event ev (snd (host_run p evs)))) \<longleftrightarrow>
    (\<exists>key. host_suspect k p ev = Some key \<and>
      (\<forall>(ev', as) \<in> set (zip evs (fst (host_run p evs))). raises k as \<longrightarrow> host_suspect k p ev' = Some key \<longrightarrow>
         unat (ev_ts_ms ev') + unat (host_cooldown k p) \<le> unat (ev_ts_ms ev)))"
  by (rule host_alert_iff) (use assms setup_pristine [OF assms(1)] in \<open>simp_all add: pristine_def\<close>)

definition demo_exec :: "u64 \<Rightarrow> host_event" where
  "demo_exec t = host_event_new\<lparr>ev_kind := EXEC, ev_ts_ms := t, ev_exec := exec_new\<lparr>e_pid := 7, e_uid := 1000, e_comm := ''su''\<rparr>\<rparr>"

lemma host_alerts_once_per_cooldown_witness:
  "\<exists>p. host_setup demo_args demo_files = Inr p \<and> raises MPriv (fst (feed_event (demo_exec 5) (snd (host_run p []))))"
proof -
  obtain p where p: "host_setup demo_args demo_files = Inr p" using demo_setup by blast
  have "host_cooldown MPriv p = 60000" using setup_pristine [OF p] by (simp only: pristine_def) simp
  then have "in_order (host_cooldown MPriv p) (timed ([] @ [demo_exec 5]))"
    by (simp add: in_order_def timed_def demo_exec_def)
  from host_alerts_once_per_cooldown [OF p this]
  have "raises MPriv (fst (feed_event (demo_exec 5) (snd (host_run p []))))"
    by (simp add: priv_esc_suspect_def demo_exec_def exec_new_def host_event_new_def)
  then show ?thesis using p by blast
qed

subsection \<open>Births of processes\<close>

text \<open>The processes that a pass can read.\<close>

definition readable_pids :: "host_os \<Rightarrow> string list \<Rightarrow> u32 list" where
  "readable_pids os names = filter (\<lambda>pid. read_stat os pid \<noteq> None) (map (\<lambda>n. ucast (num10 n)) (filter is_number names))"

definition proc_pids :: "host_os \<Rightarrow> u32 list" where
  "proc_pids os = (case os_proc os of None \<Rightarrow> [] | Some names \<Rightarrow> readable_pids os names)"

definition born :: "host_os \<Rightarrow> scanner \<Rightarrow> u32 \<Rightarrow> bool" where
  "born os s pid \<longleftrightarrow> sc_emit_execs s \<and> sc_primed s \<and> pid \<notin> set (sc_known_pids s) \<and>
     (\<forall>st. read_stat os pid = Some st \<longrightarrow> ps_ppid st \<noteq> 2)"

lemma walk_fold:
  "wk_events (fold (walk_entry os now d s) names w) = wk_events w @ map (exec_born os now) (filter (born os s) (readable_pids os names))"
  "fst ` set (wk_ticks (fold (walk_entry os now d s) names w)) = fst ` set (wk_ticks w) \<union> set (readable_pids os names)"
proof (induction names arbitrary: w)
  case (Cons name names)
  case 1
  show ?case using Cons(1)
    by (auto simp: readable_pids_def walk_entry_def born_def Let_def split: option.splits)
next
  case (Cons name names)
  case 2
  show ?case using Cons(2)
    by (auto simp: readable_pids_def walk_entry_def dom_update Let_def split: option.splits)
qed (simp_all add: readable_pids_def)

lemma walk_proc_events:
  "wk_events (walk_proc os now d s) = map (exec_born os now) (filter (born os s) (proc_pids os))"
  "fst ` set (wk_ticks (walk_proc os now d s)) = set (proc_pids os)"
  by (simp_all add: walk_proc_def proc_pids_def walk_fold walk_start_def split: option.split)

text \<open>The parts of a pass that are no births.\<close>

lemma module_lines_kind:
  "\<forall>ev \<in> set (fst (fold (module_line now primed) ls (evs, known))). ev \<in> set evs \<or> ev_kind ev = MODULE_SCAN"
proof (induction ls arbitrary: evs known)
  case (Cons l ls)
  obtain evs' known' where l: "module_line now primed l (evs, known) = (evs', known')" by fastforce
  then have "\<forall>ev \<in> set evs'. ev \<in> set evs \<or> ev_kind ev = MODULE_SCAN"
    by (auto simp: module_line_def split: option.splits if_splits)
  then show ?case using Cons [of evs' known'] by (auto simp: l)
qed simp

lemma scan_modules_kind: "ev \<in> set (fst (scan_modules os now s)) \<Longrightarrow> ev_kind ev = MODULE_SCAN"
  using module_lines_kind [of now "sc_primed s" _ "[]"] by (fastforce simp: scan_modules_def split: option.splits)

lemma scan_all_events: "scan_all os now ps = Some evs \<Longrightarrow> ev \<in> set evs \<Longrightarrow> ev_kind ev = FILE_SCAN \<and> f_path (ev_file ev) \<in> set ps"
  by (induction ps arbitrary: evs) (auto simp: bind_eq_Some_conv scan_file_event split: option.splits)

lemma scan_pass_parts:
  assumes "scan_pass os now s = Some (evs, s')"
  obtains snap mods files where
    "evs = map (exec_born os now) (filter (born os s) (proc_pids os)) @ snap @ mods @ files"
    "\<forall>ev \<in> set snap. ev_kind ev = SNAPSHOT" "\<forall>ev \<in> set mods. ev_kind ev = MODULE_SCAN"
    "\<forall>ev \<in> set files. ev_kind ev = FILE_SCAN \<and> f_path (ev_file ev) \<in> set (sc_scan_files s)"
    "set (sc_known_pids s') = set (proc_pids os)" "sc_primed s'" "sc_emit_execs s' = sc_emit_execs s"
    "sc_scan_files s' = sc_scan_files s"
proof -
  define d where "d = (if sc_last_scan_ms s > 0 \<and> now > sc_last_scan_ms s then now - sc_last_scan_ms s else 0)"
  define w where "w = walk_proc os now d s"
  define snap where
    "snap = (if sc_primed s then [host_event_new\<lparr>ev_kind := SNAPSHOT, ev_ts_ms := now, ev_snap := wk_snap w\<rparr>] else [])"
  obtain mods known where mods: "scan_modules os now s = (mods, known)" by fastforce
  obtain files where files: "scan_all os now (sc_scan_files s) = Some files" "evs = wk_events w @ snap @ mods @ files"
    and s': "s' = s\<lparr>sc_last_scan_ms := now, sc_prev_ticks := wk_ticks w, sc_known_pids := map fst (wk_ticks w),
           sc_known_mods := known, sc_primed := True\<rparr>"
    using assms unfolding scan_pass_def Let_def d_def [symmetric] mods prod.case w_def [symmetric] snap_def [symmetric]
    by (auto simp: bind_eq_Some_conv)
  show thesis
  proof (rule that)
    show "evs = map (exec_born os now) (filter (born os s) (proc_pids os)) @ snap @ mods @ files"
      using files(2) by (simp add: w_def walk_proc_events)
    show "\<forall>ev \<in> set mods. ev_kind ev = MODULE_SCAN" using scan_modules_kind [of _ os now s] by (simp add: mods)
    show "\<forall>ev \<in> set files. ev_kind ev = FILE_SCAN \<and> f_path (ev_file ev) \<in> set (sc_scan_files s)"
      using scan_all_events [OF files(1)] by blast
    show "set (sc_known_pids s') = set (proc_pids os)" using walk_proc_events(2) [of os now d s] by (simp add: s' w_def)
  qed (simp_all add: s' snap_def)
qed

lemma exec_born_simps [simp]: "ev_kind (exec_born os now pid) = EXEC" "e_pid (ev_exec (exec_born os now pid)) = pid"
  by (simp_all add: exec_born_def read_proc_details_def Let_def)

lemma filter_kind: "\<forall>ev \<in> set evs. ev_kind ev = k \<Longrightarrow> k \<noteq> EXEC \<Longrightarrow> filter (\<lambda>ev. ev_kind ev = EXEC) evs = []"
  by (auto simp: filter_empty_conv)

text \<open>
  C40: When the poller reports the births of processes, a pass reports exactly the processes that the pass before did not
  see and that are no kernel threads, in the order of the directory.
\<close>

theorem births_reported:
  assumes "scan_pass os1 now1 s = Some (evs1, s1)" "scan_pass os2 now2 s1 = Some (evs2, s2)" "sc_emit_execs s"
  shows "map (\<lambda>ev. e_pid (ev_exec ev)) (filter (\<lambda>ev. ev_kind ev = EXEC) evs2) =
    filter (\<lambda>pid. pid \<notin> set (proc_pids os1) \<and> (\<forall>st. read_stat os2 pid = Some st \<longrightarrow> ps_ppid st \<noteq> 2)) (proc_pids os2)"
proof -
  have s1: "set (sc_known_pids s1) = set (proc_pids os1)" "sc_primed s1" "sc_emit_execs s1"
    using scan_pass_parts [OF assms(1)] assms(3) by metis+
  obtain snap mods files where e: "evs2 = map (exec_born os2 now2) (filter (born os2 s1) (proc_pids os2)) @ snap @ mods @ files"
    "\<forall>ev \<in> set snap. ev_kind ev = SNAPSHOT" "\<forall>ev \<in> set mods. ev_kind ev = MODULE_SCAN" "\<forall>ev \<in> set files. ev_kind ev = FILE_SCAN"
    using scan_pass_parts [OF assms(2)] by metis
  have "filter (\<lambda>ev. ev_kind ev = EXEC) evs2 = map (exec_born os2 now2) (filter (born os2 s1) (proc_pids os2))"
    by (simp add: e(1) filter_kind [OF e(2)] filter_kind [OF e(3)] filter_kind [OF e(4)] filter_map comp_def)
  then show ?thesis by (simp add: comp_def born_def [abs_def] s1)
qed

text \<open>A process directory with the process 7, and its \<open>stat\<close> file.\<close>

definition demo_stat :: string where
  "demo_stat = ''7 (sh) S 1 0 0 0 0 0 0 0 0 0 3 4 0 0 0 0 0 0 0 0 9''"

definition demo_reads :: "string \<Rightarrow> string option" where
  "demo_reads path = (if path = ''/proc/7/stat'' then Some demo_stat else None)"

lemmas number_defs = num10_def c_strtoul_def c_strtol_def c_digits_def c_str_def strip_sign_def strip_0x_def digits_of_def
  digit_val_def is_space_def strtoul_def number_of_def

lemma demo_stat_path: "proc_path 7 ''stat'' = ''/proc/7/stat''"
  by code_simp

lemma demo_stat_parts:
  "after_last CHR '')'' demo_stat = Some '' S 1 0 0 0 0 0 0 0 0 0 3 4 0 0 0 0 0 0 0 0 9''"
  "tokens '' S 1 0 0 0 0 0 0 0 0 0 3 4 0 0 0 0 0 0 0 0 9'' = [''S'', ''1'', ''0'', ''0'', ''0'', ''0'', ''0'', ''0'', ''0'', ''0'', ''0'', ''3'', ''4'', ''0'', ''0'', ''0'', ''0'', ''0'', ''0'', ''0'', ''0'', ''9'']"
  by (simp_all add: demo_stat_def after_last_def is_space_def)
lemma num_one: "num10 ''1'' = 1" "num10 ''7'' = 7"
  by (simp_all add: num10_def c_strtoul_def c_digits_def c_str_def strip_sign_def strip_0x_def digits_of_def
    digit_val_def is_space_def strtoul_def number_of_def)

lemma demo_stat_read: "os_read os = demo_reads \<Longrightarrow> \<exists>st. read_stat os 7 = Some st \<and> ps_ppid st = 1"
  by (simp add: read_stat_def demo_stat_path demo_stat_parts demo_reads_def num_one Let_def del: tokens.simps)

lemma births_reported_witness:
  "\<exists>evs1 s1 evs2 s2. scan_pass (demo_os None demo_reads) 5 (scanner_new True []) = Some (evs1, s1) \<and>
     scan_pass (demo_os (Some [''7'', ''self'']) demo_reads) 9 s1 = Some (evs2, s2) \<and>
     map (\<lambda>ev. e_pid (ev_exec ev)) (filter (\<lambda>ev. ev_kind ev = EXEC) evs2) = [7]"
proof -
  obtain evs1 s1 where p1: "scan_pass (demo_os None demo_reads) 5 (scanner_new True []) = Some (evs1, s1)"
    by (auto simp: scan_pass_def scanner_new_def Let_def split_def)
  have "sc_scan_files s1 = []" using scan_pass_parts [OF p1] by (metis scanner.select_convs(1) scanner_new_def)
  then obtain evs2 s2 where p2: "scan_pass (demo_os (Some [''7'', ''self'']) demo_reads) 9 s1 = Some (evs2, s2)"
    by (auto simp: scan_pass_def Let_def split_def)
  have st: "\<exists>st. read_stat (demo_os (Some [''7'', ''self'']) demo_reads) 7 = Some st \<and> ps_ppid st = 1"
    by (rule demo_stat_read) (simp add: demo_os_def)
  then have "proc_pids (demo_os (Some [''7'', ''self'']) demo_reads) = [7]" "proc_pids (demo_os None demo_reads) = []"
    by (auto simp: proc_pids_def readable_pids_def is_number_def demo_os_def num_one)
  then show ?thesis using births_reported [OF p1 p2] st p1 p2 by (auto simp: scanner_new_def)
qed

subsection \<open>What a live run can reach\<close>

text \<open>The rounds of the loop of the poller, each with the system it meets and its time.\<close>

fun scan_rounds :: "(host_os \<times> u64) list \<Rightarrow> scanner \<Rightarrow> host_event list option" where
  "scan_rounds [] s = Some []"
| "scan_rounds ((os, now) # rest) s = do {
     (evs, s) \<leftarrow> scan_pass os now s;
     evs' \<leftarrow> scan_rounds rest s;
     Some (evs @ evs') }"

lemma rounds_watch_scan_files:
  "scan_rounds rounds s = Some evs \<Longrightarrow> ev \<in> set evs \<Longrightarrow> ev_kind ev = FILE_SCAN \<Longrightarrow> f_path (ev_file ev) \<in> set (sc_scan_files s)"
proof (induction rounds s arbitrary: evs rule: scan_rounds.induct)
  case (2 os now rest s)
  obtain evs1 s1 evs2 where p: "scan_pass os now s = Some (evs1, s1)" "scan_rounds rest s1 = Some evs2" "evs = evs1 @ evs2"
    using "2.prems"(1) by (auto simp: bind_eq_Some_conv)
  note parts = scan_pass_parts [OF p(1)]
  show ?case
  proof (cases "ev \<in> set evs1")
    case True
    from parts obtain snap mods files where
      "evs1 = map (exec_born os now) (filter (born os s) (proc_pids os)) @ snap @ mods @ files"
      "\<forall>ev \<in> set snap. ev_kind ev = SNAPSHOT" "\<forall>ev \<in> set mods. ev_kind ev = MODULE_SCAN"
      "\<forall>ev \<in> set files. ev_kind ev = FILE_SCAN \<and> f_path (ev_file ev) \<in> set (sc_scan_files s)" by metis
    then show ?thesis using True "2.prems"(3) by fastforce
  next
    case False
    moreover have "sc_scan_files s1 = sc_scan_files s" using parts by metis
    ultimately show ?thesis using "2.IH" [OF p(1) refl p(2)] "2.prems" p(3) by simp
  qed
qed simp

lemma raises_suspect:
  assumes "raises k (fst (feed_event ev (snd (host_run p evs))))"
  shows "host_suspect k p ev \<noteq> None"
proof
  assume "host_suspect k p ev = None"
  then have "host_suspect k (snd (host_run p evs)) ev = None"
    using host_mute.feeds_fixed [of k p "timed evs"] by (simp add: feeds_run)
  from host_mute.feed_quiet [OF this, of "ev_ts_ms ev" "[]"] show False
    using assms find_raises [of k "fst (feed_event ev (snd (host_run p evs)))"] by (simp add: alert_of_own_time)
qed

lemma run_raises:
  assumes "as \<in> set (fst (host_run p evs))" "raises k as"
  shows "\<exists>ev \<in> set evs. host_suspect k p ev \<noteq> None"
  using assms(1)
proof (induction evs rule: rev_induct)
  case (snoc ev evs)
  then show ?case using raises_suspect [of k ev p evs] assms(2) by auto
qed simp

text \<open>
  In a live run the alert for a new setuid file never comes: the poller looks only at the files of the baseline, and
  the detector only at files outside it. Process events of the other source change nothing.
\<close>

lemma live_never_new_setuid:
  assumes "host_setup args files = Inr p"
    and "scan_rounds rounds (scanner_new emit_execs (scan_files p)) = Some live"
    and "\<forall>ev \<in> set evs. ev \<in> set live \<or> ev_kind ev = EXEC"
    and "as \<in> set (fst (host_run p evs))"
  shows "\<not> raises MSetuid as"
proof
  assume "raises MSetuid as"
  then obtain ev where ev: "ev \<in> set evs" "host_suspect MSetuid p ev \<noteq> None" using run_raises [OF assms(4)] by blast
  then have k: "ev_kind ev = FILE_SCAN" "f_path (ev_file ev) \<notin> set (ns_baseline_paths (hp_new_setuid p))"
    by (auto simp: new_setuid_suspect_def split: if_splits)
  then have "ev \<in> set live" using assms(3) ev(1) by auto
  then have "f_path (ev_file ev) \<in> set (scan_files p)"
    using rounds_watch_scan_files [OF assms(2) _ k(1)] by (simp add: scanner_new_def)
  then show False using k(2) setup_files [OF assms(1)] by (simp add: scan_files_def files_loaded_def)
qed

end
