(* ===== verification/Json.thy ===== *)
theory Json
  imports C_Text
begin

text \<open>
  The values of the JSON library \<open>nlohmann::json\<close>, which is not part of the repository, and the accessors that the
  program uses, as that library documents them. \<open>None\<close> is an exception. Parsing and printing stay parameters. Of a
  floating point number only its integral part can be observed by the program.
\<close>

datatype json = JNull | JBool bool | JNum int | JFloat int | JString string | JArray "json list" | JObject "(string \<times> json) list"

text \<open>\<open>contains\<close>, \<open>at\<close> and \<open>value\<close>.\<close>

definition j_contains :: "json \<Rightarrow> string \<Rightarrow> bool" where
  "j_contains j k = (case j of JObject m \<Rightarrow> map_of m k \<noteq> None | _ \<Rightarrow> False)"

definition j_at :: "json \<Rightarrow> string \<Rightarrow> json option" where
  "j_at j k = (case j of JObject m \<Rightarrow> map_of m k | _ \<Rightarrow> None)"

definition j_value :: "json \<Rightarrow> string \<Rightarrow> (json \<Rightarrow> 'a option) \<Rightarrow> 'a \<Rightarrow> 'a option" where
  "j_value j k get d = (case j of JObject m \<Rightarrow> (case map_of m k of None \<Rightarrow> Some d | Some v \<Rightarrow> get v) | _ \<Rightarrow> None)"

text \<open>The conversions \<open>get<T>\<close>; integers are cut to the width of their type.\<close>

definition get_string :: "json \<Rightarrow> string option" where
  "get_string j = (case j of JString s \<Rightarrow> Some s | _ \<Rightarrow> None)"

definition get_bool :: "json \<Rightarrow> bool option" where
  "get_bool j = (case j of JBool b \<Rightarrow> Some b | _ \<Rightarrow> None)"

definition get_num :: "json \<Rightarrow> int option" where
  "get_num j = (case j of JNum n \<Rightarrow> Some n | JFloat n \<Rightarrow> Some n | JBool b \<Rightarrow> Some (if b then 1 else 0) | _ \<Rightarrow> None)"

definition get_i64 :: "json \<Rightarrow> int option" where
  "get_i64 j = map_option (signed_take_bit 63) (get_num j)"

definition get_i32 :: "json \<Rightarrow> int option" where
  "get_i32 j = map_option (signed_take_bit 31) (get_num j)"

definition is_array :: "json \<Rightarrow> bool" where
  "is_array j = (case j of JArray _ \<Rightarrow> True | _ \<Rightarrow> False)"

definition is_string :: "json \<Rightarrow> bool" where
  "is_string j = (case j of JString _ \<Rightarrow> True | _ \<Rightarrow> False)"

definition is_object :: "json \<Rightarrow> bool" where
  "is_object j = (case j of JObject _ \<Rightarrow> True | _ \<Rightarrow> False)"

text \<open>The elements that a range loop visits: those of an array, the values of an object, and a scalar itself.\<close>

definition j_elems :: "json \<Rightarrow> json list" where
  "j_elems j = (case j of JArray xs \<Rightarrow> xs | JObject m \<Rightarrow> map snd m | JNull \<Rightarrow> [] | _ \<Rightarrow> [j])"

definition j_empty :: "json \<Rightarrow> bool" where
  "j_empty j \<longleftrightarrow> j_elems j = []"

text \<open>
  The library itself: \<open>parse\<close> with the text of its error, reading one value from the front of a stream, \<open>dump\<close>, and
  \<open>dump\<close> with an indentation.
\<close>

record json_lib =
  jl_parse :: "string \<Rightarrow> string + json"
  jl_read :: "string \<Rightarrow> json option"
  jl_dump :: "json \<Rightarrow> string"
  jl_pretty :: "nat \<Rightarrow> json \<Rightarrow> string"

end
