(* ===== verification/Mgr_Base64.thy ===== *)
theory Mgr_Base64
  imports Idsm_Prelude
begin

text \<open>
  \<open>linux/idsm_managerd/base64.h\<close>. A \<open>std::string\<close> that holds bytes is a list of bytes here, and the encoded text is a
  string; the alphabet and the padding are those of the code.
\<close>

definition kAlphabet :: string where
  "kAlphabet = ''ABCDEFGHIJKLMNOPQRSTUVWXYZabcdefghijklmnopqrstuvwxyz0123456789+/''"

definition b64_char :: "nat \<Rightarrow> char" where
  "b64_char n = kAlphabet ! (n mod 64)"

text \<open>The four characters of the group \<open>n\<close> of 24 bits, of which \<open>k\<close> bytes are there.\<close>

definition b64_group :: "nat \<Rightarrow> nat \<Rightarrow> string" where
  "b64_group k n = [b64_char (n div 2 ^ 18), b64_char (n div 2 ^ 12),
     (if k > 1 then b64_char (n div 2 ^ 6) else CHR ''=''), (if k > 2 then b64_char n else CHR ''='')]"

definition group24 :: "u8 \<Rightarrow> u8 \<Rightarrow> u8 \<Rightarrow> nat" where
  "group24 a b c = unat a * 2 ^ 16 + unat b * 2 ^ 8 + unat c"

fun base64Encode :: "bytes \<Rightarrow> string" where
  "base64Encode [] = []"
| "base64Encode [a] = b64_group 1 (group24 a 0 0)"
| "base64Encode [a, b] = b64_group 2 (group24 a b 0)"
| "base64Encode (a # b # c # r) = b64_group 3 (group24 a b c) @ base64Encode r"

definition b64_val :: "char \<Rightarrow> nat option" where
  "b64_val c = (let n = of_char c :: nat in
     if 65 \<le> n \<and> n \<le> 90 then Some (n - 65)
     else if 97 \<le> n \<and> n \<le> 122 then Some (n - 97 + 26)
     else if 48 \<le> n \<and> n \<le> 57 then Some (n - 48 + 52)
     else if n = 43 then Some 62
     else if n = 47 then Some 63 else None)"

text \<open>The bytes of one group of four characters.\<close>

definition b64_bytes :: "char \<Rightarrow> char \<Rightarrow> char \<Rightarrow> char \<Rightarrow> bytes option" where
  "b64_bytes w x y z = do {
     a \<leftarrow> b64_val w;
     b \<leftarrow> b64_val x;
     c \<leftarrow> (if y = CHR ''='' then Some 0 else b64_val y);
     d \<leftarrow> (if z = CHR ''='' then Some 0 else b64_val z);
     let n = a * 2 ^ 18 + b * 2 ^ 12 + c * 2 ^ 6 + d;
     Some ([of_nat (n div 2 ^ 16 mod 256)] @ (if y = CHR ''='' then [] else [of_nat (n div 2 ^ 8 mod 256)])
       @ (if z = CHR ''='' then [] else [of_nat (n mod 256)])) }"

fun base64Decode :: "string \<Rightarrow> bytes option" where
  "base64Decode [] = Some []"
| "base64Decode (w # x # y # z # r) = do { p \<leftarrow> b64_bytes w x y z; q \<leftarrow> base64Decode r; Some (p @ q) }"
| "base64Decode _ = None"

subsection \<open>Decoding gives back what was encoded\<close>

lemma alphabet_vals: "map b64_val kAlphabet = map Some [0..<64]"
  by (simp add: kAlphabet_def b64_val_def Let_def upt_conv_Cons)

lemma b64_char_val: "b64_val (b64_char n) = Some (n mod 64)"
proof -
  have l: "length kAlphabet = 64" by (simp add: kAlphabet_def)
  have "b64_val (b64_char n) = map b64_val kAlphabet ! (n mod 64)" by (simp add: b64_char_def l)
  then show ?thesis by (simp add: alphabet_vals)
qed

lemma b64_char_pad: "b64_char n \<noteq> CHR ''=''"
proof
  assume "b64_char n = CHR ''=''"
  then show False using b64_char_val [of n] by (simp add: b64_val_def)
qed

text \<open>The sextets of a group of 24 bits put it together again, and its bytes are those it was made of.\<close>

lemma sextets:
  fixes n :: nat
  assumes "n < 2 ^ 24"
  shows "n div 2 ^ 18 mod 64 * 2 ^ 18 + n div 2 ^ 12 mod 64 * 2 ^ 12 + n div 2 ^ 6 mod 64 * 2 ^ 6 + n mod 64 = n"
proof -
  have d: "n div 2 ^ 12 = n div 64 div 64" "n div 2 ^ 18 = n div 64 div 64 div 64" "n div 2 ^ 6 = n div 64"
    by (simp_all add: div_mult2_eq [symmetric])
  have top: "n div 64 div 64 div 64 < 64" using assms by (simp add: div_mult2_eq [symmetric] less_mult_imp_div_less)
  have sum: "q3 * 2 ^ 18 + r2 * 2 ^ 12 + r1 * 2 ^ 6 + r0 = n"
    if "q1 * 64 + r0 = n" "q2 * 64 + r1 = q1" "q3 * 64 + r2 = q2" for q1 q2 q3 r0 r1 r2 n :: nat
    using that by simp
  show ?thesis unfolding d mod_less [OF top]
    by (rule sum [of "n div 64" _ _ "n div 64 div 64"]) (rule div_mult_mod_eq)+
qed

lemma last_byte: "c < 256 \<Longrightarrow> (x * 256 + c) div 256 = x \<and> (x * 256 + c) mod 256 = c" for c x :: nat
  by simp

lemma group24_bytes:
  "group24 a b c < 2 ^ 24" "group24 a b c div 2 ^ 16 mod 256 = unat a" "group24 a b c div 2 ^ 8 mod 256 = unat b"
  "group24 a b c mod 256 = unat c"
proof -
  have u: "unat a < 256" "unat b < 256" "unat c < 256" by simp_all
  have g: "group24 a b c = (unat a * 256 + unat b) * 256 + unat c" by (simp add: group24_def)
  have d1: "group24 a b c div 256 = unat a * 256 + unat b" unfolding g using last_byte [OF u(3)] by blast
  have d2: "group24 a b c div 256 div 256 = unat a" unfolding d1 using last_byte [OF u(2)] by blast
  have "x * 2 ^ 16 + y * 2 ^ 8 + z < 2 ^ 24" if "x < 256" "y < 256" "z < 256" for x y z :: nat using that by simp
  from this [OF u] show "group24 a b c < 2 ^ 24" by (simp only: group24_def)
  show "group24 a b c mod 256 = unat c" unfolding g using last_byte [OF u(3)] by blast
  show "group24 a b c div 2 ^ 8 mod 256 = unat b" using last_byte [OF u(2), of "unat a"] by (simp add: d1)
  have "group24 a b c div 2 ^ 16 = group24 a b c div 256 div 256" by (simp add: div_mult2_eq [symmetric])
  then show "group24 a b c div 2 ^ 16 mod 256 = unat a" using d2 u(1) by simp
qed

lemma b64_bytes_chars:
  assumes "n < 2 ^ 24"
  shows "b64_bytes (b64_char (n div 2 ^ 18)) (b64_char (n div 2 ^ 12)) (b64_char (n div 2 ^ 6)) (b64_char n) =
      Some [of_nat (n div 2 ^ 16 mod 256), of_nat (n div 2 ^ 8 mod 256), of_nat (n mod 256)]"
    "n mod 64 = 0 \<Longrightarrow> b64_bytes (b64_char (n div 2 ^ 18)) (b64_char (n div 2 ^ 12)) (b64_char (n div 2 ^ 6)) CHR ''='' =
      Some [of_nat (n div 2 ^ 16 mod 256), of_nat (n div 2 ^ 8 mod 256)]"
    "n mod 64 = 0 \<Longrightarrow> n div 2 ^ 6 mod 64 = 0 \<Longrightarrow> b64_bytes (b64_char (n div 2 ^ 18)) (b64_char (n div 2 ^ 12)) CHR ''='' CHR ''='' =
      Some [of_nat (n div 2 ^ 16 mod 256)]"
  using sextets [OF assms] by (simp_all only: b64_bytes_def b64_char_val b64_char_pad Let_def bind.bind_lunit if_False if_True
      simp_thms append_Nil append_Cons append_Nil2 add_0_right mult_zero_left)

lemma group24_zero: "group24 a b 0 mod 64 = 0" "group24 a 0 0 div 2 ^ 6 mod 64 = 0"
proof -
  have "group24 a b 0 = (unat a * 1024 + unat b * 4) * 64" "group24 a 0 0 = (unat a * 16 * 64) * 64" by (simp_all add: group24_def)
  then show "group24 a b 0 mod 64 = 0" "group24 a 0 0 div 2 ^ 6 mod 64 = 0" by simp_all
qed

lemma b64_groups:
  "b64_group 1 n = [b64_char (n div 2 ^ 18), b64_char (n div 2 ^ 12), CHR ''='', CHR ''='']"
  "b64_group 2 n = [b64_char (n div 2 ^ 18), b64_char (n div 2 ^ 12), b64_char (n div 2 ^ 6), CHR ''='']"
  "b64_group 3 n = [b64_char (n div 2 ^ 18), b64_char (n div 2 ^ 12), b64_char (n div 2 ^ 6), b64_char n]"
  by (simp_all add: b64_group_def)

lemma base64_round: "base64Decode (base64Encode p) = Some p"
  by (induction p rule: base64Encode.induct)
    (simp_all only: base64Encode.simps base64Decode.simps b64_groups append_Cons append_Nil bind.bind_lunit
      b64_bytes_chars group24_bytes group24_zero, simp_all)

end
