(* ===== verification/Mgr_Bundle.thy ===== *)
theory Mgr_Bundle
  imports Json Mgr_Base64 "HOL-Library.Char_ord" "HOL-Library.List_Lexorder"
begin

text \<open>
  What the two update managers \<open>linux/idsm_managerd/rule_manager.cpp\<close> and \<open>config_manager.cpp\<close> share, in the code as
  equal copies: names and targets, the signature check, the stored sequence number, and the directory they work on.
  Cryptography is OpenSSL's and a parameter, the record \<open>crypto\<close>; the directory is a map from names to nodes, and what
  the operating system may refuse is told by the record \<open>disk_io\<close>.
\<close>

definition nl :: string where "nl = [CHR 0x0A]"

definition dec_int :: "int \<Rightarrow> string" where
  "dec_int n = (if n < 0 then CHR ''-'' # dec (nat (- n)) else dec (nat n))"

subsection \<open>Names and targets\<close>

definition lower :: "char \<Rightarrow> char" where
  "lower c = (let n = of_char c :: nat in if 65 \<le> n \<and> n \<le> 90 then char_of (n + 32) else c)"

definition toLower :: "string \<Rightarrow> string" where
  "toLower s = map lower s"

definition targetMatches :: "string \<Rightarrow> string \<Rightarrow> bool" where
  "targetMatches want have_id = (let w = toLower want in w = ''all'' \<or> w = toLower have_id)"

definition version_char :: "char \<Rightarrow> bool" where
  "version_char c = (let n = of_char c :: nat in
     65 \<le> n \<and> n \<le> 90 \<or> 97 \<le> n \<and> n \<le> 122 \<or> 48 \<le> n \<and> n \<le> 57 \<or> n = 46 \<or> n = 95 \<or> n = 45)"

definition validVersionName :: "string \<Rightarrow> bool" where
  "validVersionName v \<longleftrightarrow> v \<noteq> [] \<and> v \<noteq> ''.'' \<and> v \<noteq> ''..'' \<and> (\<forall>c \<in> set v. version_char c)"

record identity =
  id_ecu :: string
  id_vmodel :: string
  id_node_types :: "string list"

record bundle_head =
  b_seq :: int
  b_tenant :: string
  b_version :: string
  b_rollback :: bool
  b_ecu :: string
  b_node :: string
  b_vmodel :: string
  b_issued_at :: int
  b_expires_at :: int
  b_type :: int
  b_pubkey_id :: string
  b_signature :: string

definition target_hit :: "identity \<Rightarrow> bundle_head \<Rightarrow> bool" where
  "target_hit self h \<longleftrightarrow> targetMatches (b_ecu h) (id_ecu self) \<and> targetMatches (b_vmodel h) (id_vmodel self) \<and>
     (targetMatches (b_node h) ''all'' \<or> (\<exists>nt \<in> set (id_node_types self). targetMatches (b_node h) nt))"

subsection \<open>The fields that both bundles have\<close>

definition missing_key :: "string list \<Rightarrow> json \<Rightarrow> string option" where
  "missing_key ks j = List.find (\<lambda>k. \<not> j_contains j k) ks"

definition j_get :: "json \<Rightarrow> string \<Rightarrow> (json \<Rightarrow> 'a option) \<Rightarrow> 'a option" where
  "j_get j k get = Option.bind (j_at j k) get"

definition target_missing :: "json \<Rightarrow> string option" where
  "target_missing t = List.find (\<lambda>k. case j_at t k of Some v \<Rightarrow> \<not> is_string v | None \<Rightarrow> True) [''ecu'', ''nodeType'', ''vmodel'']"

definition j_text :: "json \<Rightarrow> string \<Rightarrow> string" where
  "j_text j k = (case j_at j k of Some (JString s) \<Rightarrow> s | _ \<Rightarrow> [])"

text \<open>
  The typed reads of the fields: \<open>None\<close> when a field has another type, since the conversion throws. The target is read
  as far as it can be; its check comes later.
\<close>

definition read_head :: "json \<Rightarrow> string \<Rightarrow> bundle_head option" where
  "read_head j type_key = do {
     seq \<leftarrow> j_get j ''seq'' get_i64;
     version \<leftarrow> j_get j ''version'' get_string;
     rollback \<leftarrow> j_get j ''rollback'' get_bool;
     ty \<leftarrow> j_get j type_key get_i32;
     issued_at \<leftarrow> j_get j ''issued_at'' get_i64;
     expires_at \<leftarrow> j_get j ''expires_at'' get_i64;
     tenant \<leftarrow> j_get j ''manufacturer'' get_string;
     pubkey_id \<leftarrow> j_get j ''pubkey_id'' get_string;
     signature \<leftarrow> j_get j ''signature'' get_string;
     t \<leftarrow> j_at j ''target'';
     Some \<lparr> b_seq = seq, b_tenant = tenant, b_version = version, b_rollback = rollback, b_ecu = j_text t ''ecu'',
       b_node = j_text t ''nodeType'', b_vmodel = j_text t ''vmodel'', b_issued_at = issued_at, b_expires_at = expires_at,
       b_type = ty, b_pubkey_id = pubkey_id, b_signature = signature \<rparr> }"

definition kClockSkewToleranceSec :: int where "kClockSkewToleranceSec = 24 * 3600"

text \<open>The checks of the validity period and of the sequence number; \<open>Some\<close> is the reason to reject.\<close>

definition check_fresh :: "int \<Rightarrow> int \<Rightarrow> bundle_head \<Rightarrow> string option" where
  "check_fresh now max_seq h = (if b_expires_at h < now - kClockSkewToleranceSec then Some ''bundle expired''
     else if b_issued_at h > now + kClockSkewToleranceSec then Some ''bundle issued in the future''
     else if b_seq h \<le> max_seq then Some (''seq rollback rejected (max_seq='' @ dec_int max_seq @ '')'')
     else None)"

subsection \<open>The canonical bytes\<close>

text \<open>One line per field.\<close>

definition canonical_lines :: "string \<Rightarrow> bundle_head \<Rightarrow> string list" where
  "canonical_lines type_key h = [''seq='' @ dec_int (b_seq h), ''tenant='' @ b_tenant h, ''version='' @ b_version h,
     ''rollback='' @ (if b_rollback h then ''1'' else ''0''), ''target_ecu='' @ b_ecu h, ''target_node='' @ b_node h,
     ''target_vmodel='' @ b_vmodel h, ''issued_at='' @ dec_int (b_issued_at h), ''expires_at='' @ dec_int (b_expires_at h),
     type_key @ ''='' @ dec_int (b_type h)]"

definition as_lines :: "string list \<Rightarrow> string" where
  "as_lines ls = concat (map (\<lambda>l. l @ nl) ls)"

definition canonicalRuleBytes :: "bundle_head \<Rightarrow> string list \<Rightarrow> string" where
  "canonicalRuleBytes h payload_lines = as_lines (canonical_lines ''upgrade_type'' h @ payload_lines)"

definition canonicalConfigBytes :: "bundle_head \<Rightarrow> string list \<Rightarrow> string" where
  "canonicalConfigBytes h payload_lines = as_lines (canonical_lines ''config_type'' h @ payload_lines)"

definition string_bytes :: "string \<Rightarrow> bytes" where
  "string_bytes s = map of_char s"

definition bytes_string :: "bytes \<Rightarrow> string" where
  "bytes_string p = map (\<lambda>b. char_of (unat b)) p"

subsection \<open>The signature\<close>

record 'k crypto =
  cr_key :: "string \<Rightarrow> 'k option"
  cr_verify :: "'k \<Rightarrow> bytes \<Rightarrow> string \<Rightarrow> bool"
  cr_raw :: "'k \<Rightarrow> bytes option"
  cr_sha256 :: "bytes \<Rightarrow> bytes"

definition pem_of :: "bytes \<Rightarrow> string" where
  "pem_of der = ''-----BEGIN PUBLIC KEY-----'' @ nl @ base64Encode der @ nl @ ''-----END PUBLIC KEY-----'' @ nl"

text \<open>The key that is configured; \<open>Inl\<close> is the error text.\<close>

definition configured_key :: "'k crypto \<Rightarrow> string \<Rightarrow> string + 'k" where
  "configured_key cr pubkey = (case base64Decode pubkey of
     None \<Rightarrow> Inl ''pubkey b64 decode failed''
   | Some der \<Rightarrow> (case cr_key cr (pem_of der) of None \<Rightarrow> Inl ''pubkey parse failed'' | Some k \<Rightarrow> Inr k))"

text \<open>\<open>Some\<close> is the reason why the signature does not hold.\<close>

definition verifySignature :: "string \<Rightarrow> 'k crypto \<Rightarrow> string \<Rightarrow> string \<Rightarrow> string \<Rightarrow> string option" where
  "verifySignature what cr pubkey canonical sig_b64 = (if pubkey = []
     then Some (''no '' @ what @ '' signing pubkey configured (--pubkey-b64)'')
     else (case configured_key cr pubkey of
       Inl err \<Rightarrow> Some err
     | Inr k \<Rightarrow> if (case base64Decode sig_b64 of Some sig \<Rightarrow> cr_verify cr k sig canonical | None \<Rightarrow> False) then None
         else Some ''Ed25519 signature mismatch''))"

definition hex_text :: "bytes \<Rightarrow> string" where
  "hex_text p = concat (map (\<lambda>b. [lower (digit (unat b div 16)), lower (digit (unat b mod 16))]) p)"

definition configuredPubkeyId :: "'k crypto \<Rightarrow> string \<Rightarrow> string + string" where
  "configuredPubkeyId cr pubkey = (case configured_key cr pubkey of
     Inl err \<Rightarrow> Inl err
   | Inr k \<Rightarrow> (case cr_raw cr k of
       None \<Rightarrow> Inl ''pubkey is not Ed25519 raw-extractable''
     | Some raw \<Rightarrow> if length raw \<noteq> 32 then Inl ''pubkey is not Ed25519 raw-extractable''
         else Inr (hex_text (take 8 (cr_sha256 cr raw)))))"

text \<open>Both checks of the signer: the signature over the canonical bytes, then the fingerprint of the key.\<close>

definition check_signer :: "string \<Rightarrow> 'k crypto \<Rightarrow> string \<Rightarrow> string \<Rightarrow> bundle_head \<Rightarrow> string option" where
  "check_signer what cr pubkey canonical h = (case verifySignature what cr pubkey canonical (b_signature h) of
     Some err \<Rightarrow> Some err
   | None \<Rightarrow> (case configuredPubkeyId cr pubkey of
       Inl err \<Rightarrow> Some err
     | Inr want \<Rightarrow> if want = [] then Some []
         else if toLower want \<noteq> toLower (b_pubkey_id h)
         then Some (''pubkey_id mismatch (want '' @ want @ '', got '' @ b_pubkey_id h @ '')'') else None))"

subsection \<open>The directory\<close>

datatype node = NFile string | NDir "(string \<times> string) list" | NLink string

type_synonym dir = "string \<rightharpoonup> node"

text \<open>
  What the system allows: the content that the write of the \<open>n\<close>th file leaves behind, if any, whether the step on the
  named file succeeds, whether a name can be removed, the entries of a directory that a failed step on it leaves, what a failed
  write of a file leaves in it, the part of a line that is appended, the text of an error, and the exit code of the reload
  command.
\<close>

record disk_io =
  io_write :: "nat \<Rightarrow> string \<Rightarrow> string option"
  io_ok :: "string \<Rightarrow> bool"
  io_rm :: "string \<Rightarrow> bool"
  io_kept :: "string \<Rightarrow> string \<Rightarrow> bool"
  io_left :: "string \<Rightarrow> string option"
  io_append :: "string \<Rightarrow> string"
  io_msg :: string
  io_reload :: int

text \<open>The removals, whose success the code does not check; the first name is that of the step.\<close>

definition remove_all :: "disk_io \<Rightarrow> string \<Rightarrow> string \<Rightarrow> dir \<Rightarrow> dir" where
  "remove_all io step a d = (if io_rm io step then d(a := None)
     else case d a of Some (NDir es) \<Rightarrow> d(a \<mapsto> NDir (filter (\<lambda>(n, _). io_kept io step n) es)) | _ \<Rightarrow> d)"

text \<open>\<open>remove\<close> does not take a directory with entries.\<close>

definition remove_one :: "disk_io \<Rightarrow> string \<Rightarrow> dir \<Rightarrow> dir" where
  "remove_one io a d = (if io_rm io a then (case d a of Some (NDir (_ # _)) \<Rightarrow> d | _ \<Rightarrow> d(a := None)) else d)"

text \<open>Files written into a directory replace those of the same name. \<open>None\<close>: there is no directory and none can be made.\<close>

definition over_files :: "(string \<times> string) list \<Rightarrow> (string \<times> string) list \<Rightarrow> (string \<times> string) list" where
  "over_files es files = filter (\<lambda>(n, _). n \<notin> fst ` set files) es @ files"

definition put_dir :: "bool \<Rightarrow> string \<Rightarrow> (string \<times> string) list \<Rightarrow> dir \<Rightarrow> dir option" where
  "put_dir ok a files d = (case d a of
     None \<Rightarrow> if ok then Some (d(a \<mapsto> NDir files)) else None
   | Some (NDir es) \<Rightarrow> Some (d(a \<mapsto> NDir (over_files es files)))
   | Some _ \<Rightarrow> None)"

text \<open>\<open>rename\<close>: a directory only replaces an empty directory, and anything else no directory.\<close>

definition rename :: "string \<Rightarrow> string \<Rightarrow> dir \<Rightarrow> dir option" where
  "rename a b d = (case d a of
     None \<Rightarrow> None
   | Some n \<Rightarrow> if a = b then Some d else
       (case (n, d b) of
          (NDir _, Some (NDir [])) \<Rightarrow> Some (d(a := None, b \<mapsto> n))
        | (NDir _, Some _) \<Rightarrow> None
        | (_, Some (NDir _)) \<Rightarrow> None
        | _ \<Rightarrow> Some (d(a := None, b \<mapsto> n))))"

definition rename_if :: "bool \<Rightarrow> string \<Rightarrow> string \<Rightarrow> dir \<Rightarrow> dir option" where
  "rename_if ok a b d = (if ok then rename a b d else None)"

definition create_symlink :: "bool \<Rightarrow> string \<Rightarrow> string \<Rightarrow> dir \<Rightarrow> dir" where
  "create_symlink ok target a d = (if ok \<and> d a = None then d(a \<mapsto> NLink target) else d)"

subsection \<open>The stored sequence number\<close>

text \<open>\<open>>>\<close> into a \<open>long long\<close>: the number, or a failure.\<close>

definition ext_i64 :: "string \<Rightarrow> int option" where
  "ext_i64 s = (let (neg, r) = strip_sign (dropWhile is_space s); ds = digits_of 10 r; n = int (number_of 10 ds) in
     if ds = [] \<or> (if neg then n > 2 ^ 63 else n \<ge> 2 ^ 63) then None else Some (if neg then - n else n))"

definition loadMaxSeq :: "dir \<Rightarrow> int" where
  "loadMaxSeq d = (case d ''max_seq'' of
     Some (NFile s) \<Rightarrow> (case ext_i64 s of Some n \<Rightarrow> n | None \<Rightarrow> 0) | _ \<Rightarrow> 0)"

text \<open>
  A file is written under a temporary name and then renamed. \<open>Some\<close> is the error text, one for each step; the directory
  is given as it is left.
\<close>

definition is_dir :: "string \<Rightarrow> dir \<Rightarrow> bool" where
  "is_dir a d = (case d a of Some (NDir _) \<Rightarrow> True | _ \<Rightarrow> False)"

definition replace_file :: "disk_io \<Rightarrow> string \<Rightarrow> string \<Rightarrow> string \<Rightarrow> string \<Rightarrow> dir \<Rightarrow> string option \<times> dir" where
  "replace_file io write_err rename_err a content d = (let tmp = a @ ''.tmp'' in
     if is_dir tmp d then (Some write_err, d)
     else if \<not> io_ok io tmp then (Some write_err, case io_left io tmp of None \<Rightarrow> d | Some c \<Rightarrow> d(tmp \<mapsto> NFile c))
     else let d = d(tmp \<mapsto> NFile content) in
       case rename_if (io_ok io a) tmp a d of None \<Rightarrow> (Some rename_err, d) | Some d \<Rightarrow> (None, d))"

definition storeMaxSeq :: "disk_io \<Rightarrow> int \<Rightarrow> dir \<Rightarrow> string option \<times> dir" where
  "storeMaxSeq io seq d = replace_file io ''max_seq write failed'' (''max_seq rename: '' @ io_msg io) ''max_seq'' (dec_int seq @ nl) d"

definition runReload :: "disk_io \<Rightarrow> string \<Rightarrow> string option" where
  "runReload io cmd = (if cmd = [] then None else if io_reload io \<noteq> 0 then Some (''reload cmd failed: '' @ cmd) else None)"

text \<open>The enumerations \<open>RuleApply\<close> and \<open>ConfigApply\<close>, and what is done with a bundle for another target: its number is used up.\<close>

datatype bundle_apply = Applied | Skipped | Rejected

definition skip_bundle :: "disk_io \<Rightarrow> bundle_head \<Rightarrow> dir \<Rightarrow> (bundle_apply \<times> string) \<times> dir" where
  "skip_bundle io h d = (case storeMaxSeq io (b_seq h) d of
     (Some err, d) \<Rightarrow> ((Rejected, err), d) | (None, d) \<Rightarrow> ((Skipped, []), d))"

subsection \<open>Printed numbers read back\<close>

lemma digit_minus: "\<not> digit_val CHR 0x0A < 10" "\<not> digit_val CHR ''-'' < 16"
  by (simp_all add: digit_val_def)

lemma dec_int_read:
  assumes "- (2 ^ 63) \<le> n" "n < 2 ^ 63"
  shows "ext_i64 (dec_int n @ nl) = Some n"
proof -
  have ds: "\<forall>c \<in> set (dec k). digit_val c < 10" for k using dec_digits by blast
  have cut: "digits_of 10 (dec k @ nl) = dec k" for k
    using ds by (intro digits_of_append) (simp_all add: nl_def digit_minus)
  have hd: "digit_val (hd (dec k)) < 16" for k using bspec [OF ds hd_in_set [OF dec_not_Nil, of k]] by simp
  have sp: "dropWhile is_space (dec k @ nl) = dec k @ nl" for k
    using hd [of k] digit_not_space [of "hd (dec k)"] by (cases "dec k") simp_all
  have sg: "strip_sign (dec k @ nl) = (False, dec k @ nl)" for k
    using hd [of k] by (intro strip_sign_digit) simp_all
  show ?thesis
  proof (cases "n < 0")
    case True
    have "dropWhile is_space (CHR ''-'' # dec k @ nl) = CHR ''-'' # dec k @ nl" for k by (simp add: is_space_def)
    then show ?thesis using True assms by (simp add: ext_i64_def dec_int_def strip_sign_def cut Let_def nat_less_iff zless_nat_eq_int_zless)
  next
    case False
    then show ?thesis using assms by (simp add: ext_i64_def dec_int_def sp sg cut)
  qed
qed

lemma dec_inj: "dec m = dec n \<Longrightarrow> m = n"
  by (metis number_of_dec)

lemma dec_no_newline: "CHR 0x0A \<notin> set (dec n)"
  using dec_digits by (fastforce simp: is_space_def)

lemma dec_int_inj: "dec_int m = dec_int n \<Longrightarrow> m = n"
proof -
  have "CHR ''-'' \<notin> set (dec k)" for k
  proof
    assume "CHR ''-'' \<in> set (dec k)"
    then show False using dec_digits [of "CHR ''-''" k] by (simp add: digit_val_def)
  qed
  then have m: "dec k \<noteq> CHR ''-'' # r" "CHR ''-'' # r \<noteq> dec k" for k r by (metis list.set_intros(1))+
  assume "dec_int m = dec_int n"
  then show ?thesis by (auto simp: dec_int_def m dest!: dec_inj split: if_splits)
qed

lemma dec_int_no_newline: "CHR 0x0A \<notin> set (dec_int n)"
  by (simp add: dec_int_def dec_no_newline)

subsection \<open>What the store promises\<close>

lemma rename_other: "rename a b d = Some d' \<Longrightarrow> x \<noteq> a \<Longrightarrow> x \<noteq> b \<Longrightarrow> d' x = d x"
  by (auto simp: rename_def split: option.splits node.splits list.splits if_splits)

lemma rename_target: "rename a b d = Some d' \<Longrightarrow> d' b = d a"
  by (auto simp: rename_def split: option.splits node.splits list.splits if_splits)

lemma replace_file_ok:
  assumes "replace_file io e1 e2 a content d = (None, d')"
  shows "d' a = Some (NFile content)" "x \<noteq> a \<Longrightarrow> x \<noteq> a @ ''.tmp'' \<Longrightarrow> d' x = d x"
proof -
  have r: "rename (a @ ''.tmp'') a (d(a @ ''.tmp'' \<mapsto> NFile content)) = Some d'"
    using assms(1) by (auto simp: replace_file_def rename_if_def Let_def split: if_splits option.splits)
  show "d' a = Some (NFile content)" using rename_target [OF r] by simp
  show "x \<noteq> a \<Longrightarrow> x \<noteq> a @ ''.tmp'' \<Longrightarrow> d' x = d x" using rename_other [OF r, of x] by simp
qed

lemma replace_file_err: "replace_file io e1 e2 a content d = (Some err, d') \<Longrightarrow> x \<noteq> a @ ''.tmp'' \<Longrightarrow> d' x = d x"
  by (auto simp: replace_file_def Let_def split: if_splits option.splits)

lemma replace_file_other: "replace_file io e1 e2 a content d = (r, d') \<Longrightarrow> x \<noteq> a \<Longrightarrow> x \<noteq> a @ ''.tmp'' \<Longrightarrow> d' x = d x"
  by (cases r) (simp_all add: replace_file_ok(2) replace_file_err)

lemma storeMaxSeq_other: "storeMaxSeq io n d = (r, d') \<Longrightarrow> x \<noteq> ''max_seq'' \<Longrightarrow> x \<noteq> ''max_seq.tmp'' \<Longrightarrow> d' x = d x"
  unfolding storeMaxSeq_def by (drule replace_file_other [where x = x]) simp_all

lemma storeMaxSeq_ok:
  assumes "storeMaxSeq io n d = (None, d')" "- (2 ^ 63) \<le> n" "n < 2 ^ 63"
  shows "loadMaxSeq d' = n" "x \<noteq> ''max_seq'' \<Longrightarrow> x \<noteq> ''max_seq.tmp'' \<Longrightarrow> d' x = d x"
  using replace_file_ok [OF assms(1) [unfolded storeMaxSeq_def]] dec_int_read [OF assms(2,3)]
  by (simp_all add: loadMaxSeq_def)

lemma storeMaxSeq_err:
  "storeMaxSeq io n d = (Some err, d') \<Longrightarrow> x \<noteq> ''max_seq.tmp'' \<Longrightarrow> d' x = d x"
  unfolding storeMaxSeq_def by (drule replace_file_err [where x = x]) simp_all

lemma load_max_seq_cong: "d' ''max_seq'' = d ''max_seq'' \<Longrightarrow> loadMaxSeq d' = loadMaxSeq d"
  by (simp add: loadMaxSeq_def)

end
