(* ===== verification/Mgr_Canonical.thy ===== *)
theory Mgr_Canonical
  imports Mgr_Bundle
begin

text \<open>
  What a signature binds. The bundles are signed over their canonical bytes, one labelled line per field and then the
  lines of the payload in order. Text fields are put there as they are, so the bytes tell the fields apart only for a
  bundle without newlines; it is enough that the bundle which the cloud signed is of that kind.
\<close>

lemma as_lines_simps [simp]: "as_lines [] = []" "as_lines (l # ls) = l @ nl @ as_lines ls" "as_lines (a @ b) = as_lines a @ as_lines b"
  by (simp_all add: as_lines_def)

definition plain_line :: "string \<Rightarrow> bool" where
  "plain_line l \<longleftrightarrow> CHR 0x0A \<notin> set l"

lemma plain_line_Cons [simp]: "plain_line []" "plain_line (c # s) \<longleftrightarrow> c \<noteq> CHR 0x0A \<and> plain_line s"
  by (auto simp: plain_line_def)

lemma plain_line_append [simp]: "plain_line (a @ b) \<longleftrightarrow> plain_line a \<and> plain_line b"
  by (auto simp: plain_line_def)

lemma plain_dec_int [simp]: "plain_line (dec_int n)"
  by (simp add: plain_line_def dec_int_no_newline)

lemma plain_dec [simp]: "plain_line (dec n)"
  by (simp add: plain_line_def dec_no_newline)

text \<open>A line that may hold newlines takes a whole number of plain lines.\<close>

lemma first_line:
  assumes "plain_line x" "x @ nl @ r = y @ nl @ r'"
  shows "(y = x \<and> r = r') \<or> (\<exists>y'. y = x @ nl @ y' \<and> r = y' @ nl @ r')"
  using assms
proof (induction x arbitrary: y)
  case Nil
  then show ?case by (cases y) (auto simp: nl_def)
next
  case (Cons a x)
  then show ?case by (cases y) (auto simp: nl_def plain_line_def)
qed

lemma plain_label:
  assumes "plain_line x" "plain_line lab" "x @ nl @ r = lab @ s"
  shows "take (length lab) x = lab"
  using assms
proof (induction lab arbitrary: x)
  case (Cons a lab)
  then show ?case by (cases x) (auto simp: nl_def plain_line_def)
qed simp

lemma lines_taken:
  assumes "\<forall>x \<in> set xs. plain_line x" "as_lines xs = y @ nl @ r"
  shows "\<exists>n. n < length xs \<and> as_lines (drop (Suc n) xs) = r \<and> (n = 0 \<longrightarrow> y = hd xs)"
  using assms
proof (induction xs arbitrary: y)
  case (Cons x xs)
  have "x @ nl @ as_lines xs = y @ nl @ r" using Cons.prems(2) by simp
  from first_line [OF _ this] Cons.prems(1) consider "y = x" "as_lines xs = r" | y' where "y = x @ nl @ y'" "as_lines xs = y' @ nl @ r"
    by auto
  then show ?case
  proof cases
    case 1
    then show ?thesis by (intro exI [of _ 0]) simp
  next
    case 2
    then obtain n where "n < length xs" "as_lines (drop (Suc n) xs) = r" using Cons by auto
    then show ?thesis by (intro exI [of _ "Suc n"]) simp
  qed
qed (simp add: nl_def)

text \<open>
  A field of the other text takes one line when the label that follows it stands on the second plain line only.
\<close>

lemma field_ends:
  assumes "\<forall>x \<in> set (x # xs). plain_line x" "as_lines (x # xs) = y @ nl @ lab @ r" "plain_line lab" "lab \<noteq> []"
    and "\<forall>l \<in> set (tl xs). take (length lab) l \<noteq> lab"
  shows "y = x \<and> as_lines xs = lab @ r"
proof -
  obtain n where n: "n < length (x # xs)" "as_lines (drop n xs) = lab @ r" "n = 0 \<Longrightarrow> y = x"
    using lines_taken [OF assms(1), of y "lab @ r"] assms(2) by auto
  have "drop n xs \<noteq> []" using n(2) assms(4) by auto
  then have lt: "n < length xs" by simp
  have d: "drop n xs = xs ! n # drop (Suc n) xs" using lt by (rule Cons_nth_drop_Suc [symmetric])
  have "plain_line (xs ! n)" using assms(1) lt by simp
  from plain_label [OF this assms(3)] n(2) have "take (length lab) (xs ! n) = lab" by (simp add: d)
  then have "n = 0" using assms(5) lt by (cases xs; cases n) auto
  then show ?thesis using n by simp
qed

text \<open>Labelled fields, one per line; each label but the first stands on its own line only.\<close>

definition field_line :: "string \<times> string \<Rightarrow> string" where
  "field_line f = fst f @ snd f"

fun separate :: "(string \<times> string) list \<Rightarrow> string list \<Rightarrow> bool" where
  "separate (f # g # fs) ls \<longleftrightarrow> (\<forall>l \<in> set (map field_line fs @ ls). take (length (fst g)) l \<noteq> fst g) \<and> separate (g # fs) ls"
| "separate [f] ls \<longleftrightarrow> True"
| "separate [] ls \<longleftrightarrow> True"

lemma lines_split: "as_lines (x # xs) = y @ nl @ r \<Longrightarrow> plain_line x \<Longrightarrow> plain_line y \<Longrightarrow> y = x \<and> as_lines xs = r"
  using first_line [of x "as_lines xs" y r] by (auto simp: plain_line_def nl_def)

lemma fields_bind:
  assumes "separate fs ls" "map fst fs' = map fst fs" "\<forall>f \<in> set fs. plain_line (field_line f) \<and> fst f \<noteq> []"
    and "\<forall>l \<in> set ls. plain_line l" "fs' \<noteq> [] \<Longrightarrow> plain_line (snd (last fs'))"
    and "as_lines (map field_line fs @ ls) = as_lines (map field_line fs' @ ls')"
  shows "fs' = fs \<and> as_lines ls = as_lines ls'"
  using assms
proof (induction fs ls arbitrary: fs' rule: separate.induct)
  case (1 f g fs ls)
  obtain f' g' gs where fs': "fs' = f' # g' # gs" "fst f' = fst f" "fst g' = fst g"
    using "1.prems"(2) by (auto simp: map_eq_Cons_conv)
  have eq: "as_lines (field_line f # field_line g # map field_line fs @ ls) =
      field_line f' @ nl @ fst g @ (snd g' @ nl @ as_lines (map field_line gs @ ls'))"
    using "1.prems"(6) fs'(2,3) unfolding fs'(1) by (simp add: field_line_def [abs_def])
  have plain: "\<forall>x \<in> set (field_line f # field_line g # map field_line fs @ ls). plain_line x"
    using "1.prems"(3,4) by auto
  have alone: "\<forall>l \<in> set (tl (field_line g # map field_line fs @ ls)). take (length (fst g)) l \<noteq> fst g"
    using "1.prems"(1) by auto
  have g: "plain_line (fst g)" "fst g \<noteq> []" using "1.prems"(3) by (auto simp: field_line_def)
  from field_ends [OF plain eq g alone] have e: "field_line f' = field_line f" "as_lines (field_line g # map field_line fs @ ls) =
      fst g @ (snd g' @ nl @ as_lines (map field_line gs @ ls'))" by blast+
  have "f' = f" using e(1) fs'(2) by (simp add: field_line_def prod_eq_iff)
  moreover have "g' # gs = g # fs \<and> as_lines ls = as_lines ls'"
    using "1.prems" fs' e(2) by (intro "1.IH") (simp_all add: field_line_def [abs_def])
  ultimately show ?case using fs'(1) by simp
next
  case (2 f ls)
  then obtain w where w: "fs' = [(fst f, w)]" by (cases fs') (auto simp: prod_eq_iff)
  then show ?case
    using lines_split [of "field_line f" ls "fst f @ w" "as_lines ls'"] 2 by (auto simp: field_line_def prod_eq_iff)
next
  case (3 ls)
  then show ?case by simp
qed

definition plain_head :: "bundle_head \<Rightarrow> bool" where
  "plain_head h \<longleftrightarrow> plain_line (b_tenant h) \<and> plain_line (b_version h) \<and> plain_line (b_ecu h) \<and> plain_line (b_node h) \<and>
     plain_line (b_vmodel h)"

definition same_signed :: "bundle_head \<Rightarrow> bundle_head \<Rightarrow> bool" where
  "same_signed h h' \<longleftrightarrow> h' = h\<lparr>b_pubkey_id := b_pubkey_id h', b_signature := b_signature h'\<rparr>"

definition head_fields :: "string \<Rightarrow> bundle_head \<Rightarrow> (string \<times> string) list" where
  "head_fields key h = [(''seq='', dec_int (b_seq h)), (''tenant='', b_tenant h), (''version='', b_version h),
     (''rollback='', if b_rollback h then ''1'' else ''0''), (''target_ecu='', b_ecu h), (''target_node='', b_node h),
     (''target_vmodel='', b_vmodel h), (''issued_at='', dec_int (b_issued_at h)), (''expires_at='', dec_int (b_expires_at h)),
     (key @ ''='', dec_int (b_type h))]"

lemma canonical_fields: "canonical_lines key h = map field_line (head_fields key h)"
  by (simp add: canonical_lines_def head_fields_def field_line_def)

lemma head_fields_eq: "head_fields key h' = head_fields key h \<Longrightarrow> same_signed h h'"
  by (cases h; cases h') (auto simp: head_fields_def same_signed_def dest: dec_int_inj split: if_splits)

lemma canonical_binds:
  assumes "plain_head h" "key = ''upgrade_type'' \<or> key = ''config_type''" "tag = ''rule:'' \<or> tag = ''item:''"
    and "\<forall>l \<in> set ls. plain_line l \<and> take 5 l = tag"
    and "as_lines (canonical_lines key h @ ls) = as_lines (canonical_lines key h' @ ls')"
  shows "same_signed h h' \<and> as_lines ls = as_lines ls'"
proof -
  have other: "take n l \<noteq> lab" if "l \<in> set ls" "take 5 lab \<noteq> ''rule:''" "take 5 lab \<noteq> ''item:''" "n \<ge> 5" for l lab n
  proof
    assume "take n l = lab"
    then have "take 5 lab = take 5 l" using that(4) by (auto simp: take_take min_def)
    then show False using assms(3,4) that(1-3) by auto
  qed
  have "head_fields key h' = head_fields key h \<and> as_lines ls = as_lines ls'"
  proof (rule fields_bind)
    show "separate (head_fields key h) ls" using assms(2) by (auto simp: head_fields_def field_line_def other)
    show "as_lines (map field_line (head_fields key h) @ ls) = as_lines (map field_line (head_fields key h') @ ls')"
      using assms(5) by (simp only: canonical_fields)
    show "map fst (head_fields key h') = map fst (head_fields key h)" by (simp add: head_fields_def)
    show "\<forall>f \<in> set (head_fields key h). plain_line (field_line f) \<and> fst f \<noteq> []"
      using assms(1,2) by (auto simp: head_fields_def field_line_def plain_head_def)
  qed (use assms(4) in \<open>simp_all add: head_fields_def\<close>)
  then show ?thesis using head_fields_eq by blast
qed

lemma lines_inj: "as_lines ls = as_lines ls' \<Longrightarrow> \<forall>l \<in> set ls \<union> set ls'. plain_line l \<Longrightarrow> ls = ls'"
proof (induction ls arbitrary: ls')
  case Nil
  then show ?case by (cases ls') (simp_all add: nl_def)
next
  case (Cons l ls)
  then obtain k ks where ls': "ls' = k # ks" by (cases ls') (simp_all add: nl_def)
  have l: "plain_line l" "plain_line k" and r: "\<forall>l \<in> set ls \<union> set ks. plain_line l"
    using Cons.prems(2) by (simp_all add: ls')
  have "as_lines (l # ls) = k @ nl @ as_lines ks" using Cons.prems(1) by (simp add: ls')
  from lines_split [OF this l] have "k = l" "as_lines ls = as_lines ks" by blast+
  then show ?case using Cons.IH [OF _ r] ls' by blast
qed

lemma base64_inj: "base64Encode p = base64Encode q \<Longrightarrow> p = q"
  by (metis base64_round option.inject)

lemma inj_of_char_word: "inj (of_char :: char \<Rightarrow> u8)"
proof (rule injI)
  fix c d :: char
  assume "(of_char c :: u8) = of_char d"
  then have "unat (of_nat (of_char c) :: u8) = unat (of_nat (of_char d) :: u8)" by (simp add: of_nat_of_char)
  then have "(of_char c :: nat) = of_char d"
    by (simp only: unat_of_nat) (simp add: take_bit_eq_mod [symmetric])
  then show "c = d" by simp
qed

lemma string_bytes_inj: "string_bytes s = string_bytes t \<Longrightarrow> s = t"
  unfolding string_bytes_def by (rule map_injective [where f = "of_char :: char \<Rightarrow> u8"]) (simp_all add: inj_of_char_word)

lemma alphabet_no_newline: "CHR 0x0A \<notin> set kAlphabet"
  by (simp add: kAlphabet_def)

lemma b64_char_no_newline: "b64_char n \<noteq> CHR 0x0A"
proof -
  have "b64_char n \<in> set kAlphabet" unfolding b64_char_def by (rule nth_mem) (simp add: kAlphabet_def)
  then show ?thesis using alphabet_no_newline by metis
qed

lemma plain_base64 [simp]: "plain_line (base64Encode p)"
  by (induction p rule: base64Encode.induct) (auto simp: plain_line_def b64_group_def b64_char_no_newline [symmetric])

end
