(* ===== verification/Mgr_Guard.thy ===== *)
theory Mgr_Guard
  imports Mgr_Canonical
begin

text \<open>
  The guard against replay that both update managers share: a bundle must be signed and carry a number above the stored
  one, and a bundle that is taken stores its number. The locale states that contract and what follows for any sequence of
  bundles; it is interpreted on each manager.
\<close>

subsection \<open>The signer\<close>

text \<open>What it means that a bundle is signed: by the configured key, over the canonical bytes, and under the right fingerprint.\<close>

definition signed_by :: "'k crypto \<Rightarrow> string \<Rightarrow> string \<Rightarrow> bundle_head \<Rightarrow> bool" where
  "signed_by cr pubkey canonical h \<longleftrightarrow> pubkey \<noteq> [] \<and> (\<exists>k sig raw. configured_key cr pubkey = Inr k \<and>
     base64Decode (b_signature h) = Some sig \<and> cr_verify cr k sig canonical \<and> cr_raw cr k = Some raw \<and>
     toLower (b_pubkey_id h) = toLower (hex_text (take 8 (cr_sha256 cr raw))))"

lemma check_signer_None: "check_signer what cr pubkey canonical h = None \<Longrightarrow> signed_by cr pubkey canonical h"
  by (auto simp: check_signer_def verifySignature_def configuredPubkeyId_def signed_by_def
      split: option.splits sum.splits if_splits)

subsection \<open>Sequence numbers\<close>

lemma get_i64_range: "get_i64 j = Some n \<Longrightarrow> - (2 ^ 63) \<le> n \<and> n < 2 ^ 63"
  using signed_take_bit_int_greater_eq_minus_exp [of 63] signed_take_bit_int_less_exp [of 63] by (auto simp: get_i64_def)

lemma read_head_range: "read_head j k = Some h \<Longrightarrow> - (2 ^ 63) \<le> b_seq h \<and> b_seq h < 2 ^ 63"
  by (auto simp: read_head_def j_get_def bind_eq_Some_conv dest!: get_i64_range)

lemma check_fresh_None: "check_fresh now m h = None \<Longrightarrow> m < b_seq h \<and> b_issued_at h \<le> now + kClockSkewToleranceSec \<and>
    now - kClockSkewToleranceSec \<le> b_expires_at h"
  by (auto simp: check_fresh_def split: if_splits)

subsection \<open>A bundle for another target\<close>

lemma skip_bundle_Skipped:
  "skip_bundle io h d = ((Skipped, err), d') \<Longrightarrow> - (2 ^ 63) \<le> b_seq h \<Longrightarrow> b_seq h < 2 ^ 63 \<Longrightarrow>
    loadMaxSeq d' = b_seq h \<and> (\<forall>x. x \<noteq> ''max_seq'' \<longrightarrow> x \<noteq> ''max_seq.tmp'' \<longrightarrow> d' x = d x)"
  by (auto simp: skip_bundle_def dest: storeMaxSeq_ok split: prod.split_asm option.split_asm)

lemma skip_not_Applied: "skip_bundle io h d \<noteq> ((Applied, err), d')"
  by (auto simp: skip_bundle_def split: prod.split_asm option.split_asm)

lemma skip_bundle_seq:
  assumes "skip_bundle io h d = (r, d')" "- (2 ^ 63) \<le> b_seq h" "b_seq h < 2 ^ 63" "loadMaxSeq d < b_seq h"
  shows "loadMaxSeq d \<le> loadMaxSeq d'"
proof -
  obtain err e where st: "storeMaxSeq io (b_seq h) d = (err, e)" by fastforce
  show ?thesis
  proof (cases err)
    case None
    then show ?thesis using storeMaxSeq_ok(1) [OF _ assms(2,3)] st assms(1,4) by (simp add: skip_bundle_def)
  next
    case (Some w)
    have "e ''max_seq'' = d ''max_seq''" by (rule storeMaxSeq_err [OF st [unfolded Some]]) simp
    then show ?thesis using load_max_seq_cong [of e d] assms(1) st Some by (simp add: skip_bundle_def)
  qed
qed

subsection \<open>The surroundings of the examples\<close>

definition demo_crypto :: "unit crypto" where
  "demo_crypto = \<lparr> cr_key = (\<lambda>_. Some ()), cr_verify = (\<lambda>_ sig _. sig = [0, 0, 0]), cr_raw = (\<lambda>_. Some (replicate 32 0)),
     cr_sha256 = (\<lambda>_. replicate 32 0) \<rparr>"

definition demo_io :: disk_io where
  "demo_io = \<lparr> io_write = (\<lambda>_ c. Some c), io_ok = (\<lambda>_. True), io_rm = (\<lambda>_. True), io_kept = (\<lambda>_ _. False),
     io_left = (\<lambda>_. None), io_append = (\<lambda>l. l), io_msg = [], io_reload = 0 \<rparr>"

definition demo_self :: identity where
  "demo_self = \<lparr> id_ecu = ''e1'', id_vmodel = ''m1'', id_node_types = [] \<rparr>"

lemma demo_hex: "hex_text (replicate 8 0) \<noteq> []"
  by (simp add: hex_text_def)

subsection \<open>Ascending numbers\<close>

text \<open>The messages that are taken when a sequence of them arrives, each with its circumstances.\<close>

primrec taken_messages :: "('e \<Rightarrow> 'm \<Rightarrow> 's \<Rightarrow> bool \<times> 's) \<Rightarrow> ('e \<times> 'm) list \<Rightarrow> 's \<Rightarrow> 'm list" where
  "taken_messages receive [] s = []"
| "taken_messages receive (a # as) s = (case receive (fst a) (snd a) s of (t, s') \<Rightarrow>
     (if t then [snd a] else []) @ taken_messages receive as s')"

locale seq_guarded =
  fixes receive :: "'e \<Rightarrow> 'm \<Rightarrow> 's \<Rightarrow> bool \<times> 's"
    and stored :: "'s \<Rightarrow> int"
    and num :: "'m \<Rightarrow> int"
    and safe :: "'m \<Rightarrow> bool"
  assumes taken: "receive e m s = (True, s') \<Longrightarrow> stored s < num m \<and> stored s' = num m"
    and kept: "receive e m s = (t, s') \<Longrightarrow> safe m \<Longrightarrow> stored s \<le> stored s'"
begin

lemma above_stored: "\<forall>a \<in> set as. safe (snd a) \<Longrightarrow> m \<in> set (taken_messages receive as s) \<Longrightarrow> stored s < num m"
proof (induction as arbitrary: s)
  case (Cons a as)
  obtain t s' where r: "receive (fst a) (snd a) s = (t, s')" by fastforce
  have "stored s \<le> stored s'" using kept [OF r] Cons.prems(1) by simp
  then show ?case using Cons r taken by fastforce
qed simp

lemma ascending: "\<forall>a \<in> set as. safe (snd a) \<Longrightarrow> sorted_wrt (\<lambda>m m'. num m < num m') (taken_messages receive as s)"
proof (induction as arbitrary: s)
  case (Cons a as)
  obtain t s' where r: "receive (fst a) (snd a) s = (t, s')" by fastforce
  have "num (snd a) < num m" if "t" "m \<in> set (taken_messages receive as s')" for m
    using above_stored [of as m s'] taken [of "fst a" "snd a" s s'] r that Cons.prems by simp
  then show ?case using Cons r by simp
qed simp

end

end
