(* ===== verification/Mgr_Rules.thy ===== *)
theory Mgr_Rules
  imports Mgr_Guard
begin

text \<open>
  \<open>linux/idsm_managerd/rule_manager.cpp\<close>: the signed rule bundle, from its JSON text to the switched directory. The
  parser of the JSON text is a parameter, an \<open>Inl\<close> is the text of its error. The result is \<open>None\<close> when an exception
  leaves the function, which happens before anything is written.
\<close>

record rule_manager =
  rm_reload_cmd :: string
  rm_pubkey_b64 :: string

subsection \<open>Checks\<close>

definition rule_keys :: "string list" where
  "rule_keys = [''msg_type'', ''manufacturer'', ''seq'', ''version'', ''rollback'', ''target'', ''upgrade_type'',
     ''issued_at'', ''expires_at'', ''sig_alg'', ''pubkey_id'', ''signature'']"

text \<open>The form of the bundle; \<open>Inl\<close> is the reason to reject it.\<close>

definition check_rule_form :: "json \<Rightarrow> bundle_head \<Rightarrow> string option" where
  "check_rule_form j h =
     (if b_seq h \<le> 0 then Some ''bad seq''
      else if \<not> validVersionName (b_version h) then Some (''illegal version: '' @ b_version h)
      else if b_type h \<noteq> 1 \<and> b_type h \<noteq> 2 then Some ''bad upgrade_type''
      else if b_type h = 2 then Some ''upgrade_type=2 (download_uri) not supported by managerd''
      else if \<not> (case j_at j ''rules'' of Some r \<Rightarrow> is_array r \<and> \<not> j_empty r | None \<Rightarrow> False)
      then Some ''upgrade_type=1 requires non-empty rules[]''
      else map_option (\<lambda>k. ''target missing '' @ k) (Option.bind (j_at j ''target'') target_missing))"

definition read_rule_head :: "json \<Rightarrow> (string + bundle_head) option" where
  "read_rule_head j = (case missing_key rule_keys j of
     Some k \<Rightarrow> Some (Inl (''bundle missing '' @ k))
   | None \<Rightarrow> do {
       msg_type \<leftarrow> j_get j ''msg_type'' get_string;
       if msg_type \<noteq> ''rule_update'' then Some (Inl ''msg_type != rule_update'')
       else do {
         sig_alg \<leftarrow> j_get j ''sig_alg'' get_string;
         if sig_alg \<noteq> ''Ed25519'' then Some (Inl ''sig_alg != Ed25519'')
         else do {
           h \<leftarrow> read_head j ''upgrade_type'';
           Some (case check_rule_form j h of Some err \<Rightarrow> Inl err | None \<Rightarrow> Inr h) } } })"

definition rule_line :: "nat \<Rightarrow> string \<Rightarrow> string" where
  "rule_line i rule = ''rule:'' @ dec (10000 + i) @ '':'' @ base64Encode (string_bytes rule)"

definition payload_lines :: "string list \<Rightarrow> string list" where
  "payload_lines rules = sort (map (\<lambda>(i, r). rule_line i r) (enumerate 0 rules))"

fun get_strings :: "json list \<Rightarrow> string list option" where
  "get_strings [] = Some []"
| "get_strings (j # js) = do { s \<leftarrow> get_string j; ss \<leftarrow> get_strings js; Some (s # ss) }"

definition read_rules :: "json \<Rightarrow> string list option" where
  "read_rules j = Option.bind (j_at j ''rules'') (\<lambda>r. get_strings (j_elems r))"

subsection \<open>The switch\<close>

definition rule_file :: "nat \<Rightarrow> string" where
  "rule_file i = ''rule_'' @ dec (10000 + i) @ ''.rules''"

text \<open>The rule files as the writes leave them; their success is not checked, nor that of the removals.\<close>

definition written_rules :: "disk_io \<Rightarrow> string list \<Rightarrow> (string \<times> string) list" where
  "written_rules io rules = concat (map (\<lambda>(i, r). case io_write io i r of Some c \<Rightarrow> [(rule_file i, c)] | None \<Rightarrow> [])
     (enumerate 0 rules))"

definition switch_rules :: "disk_io \<Rightarrow> string \<Rightarrow> string list \<Rightarrow> dir \<Rightarrow> string option \<times> dir" where
  "switch_rules io version rules d = (let
     d = remove_all io ''rules.new'' ''rules.new'' d;
     d = (case put_dir (io_ok io ''rules.new'') ''rules.new'' (written_rules io rules) d of Some e \<Rightarrow> e | None \<Rightarrow> d);
     d = remove_all io ''version'' version d
     in case rename_if (io_ok io ''version'') ''rules.new'' version d of
       None \<Rightarrow> (Some (''rename rules.new: '' @ io_msg io), d)
     | Some d \<Rightarrow> let
         d = remove_one io ''current.tmp'' d;
         d = create_symlink (io_ok io ''current.tmp'') version ''current.tmp'' d
         in case rename_if (io_ok io ''current'') ''current.tmp'' ''current'' d of
           None \<Rightarrow> (Some (''current swap: '' @ io_msg io), d)
         | Some d \<Rightarrow> (None, d))"

definition apply_rules :: "rule_manager \<Rightarrow> disk_io \<Rightarrow> bundle_head \<Rightarrow> string list \<Rightarrow> dir \<Rightarrow> (bundle_apply \<times> string) \<times> dir" where
  "apply_rules rm io h rules d = (case switch_rules io (b_version h) rules d of
     (Some err, d) \<Rightarrow> ((Rejected, err), d)
   | (None, d) \<Rightarrow> (case storeMaxSeq io (b_seq h) d of
       (Some err, d) \<Rightarrow> ((Rejected, err), d)
     | (None, d) \<Rightarrow> (case runReload io (rm_reload_cmd rm) of
         Some err \<Rightarrow> ((Rejected, err), d) | None \<Rightarrow> ((Applied, []), d))))"

text \<open>All checks of a bundle, in their order; they read nothing but the stored number.\<close>

definition check_rules :: "(string \<Rightarrow> string + json) \<Rightarrow> 'k crypto \<Rightarrow> rule_manager \<Rightarrow> int \<Rightarrow> int \<Rightarrow> string \<Rightarrow>
    (string + bundle_head \<times> string list) option" where
  "check_rules parse cr rm now max_seq json_text = (case parse json_text of
     Inl what \<Rightarrow> Some (Inl (''json parse: '' @ what))
   | Inr j \<Rightarrow> Option.bind (read_rule_head j) (\<lambda>r. case r of
       Inl err \<Rightarrow> Some (Inl err)
     | Inr h \<Rightarrow> (case check_fresh now max_seq h of
         Some err \<Rightarrow> Some (Inl err)
       | None \<Rightarrow> Option.bind (read_rules j) (\<lambda>rules.
           Some (case check_signer ''rule'' cr (rm_pubkey_b64 rm) (canonicalRuleBytes h (payload_lines rules)) h of
             Some err \<Rightarrow> Inl err | None \<Rightarrow> Inr (h, rules))))))"

definition applyRuleBundle :: "(string \<Rightarrow> string + json) \<Rightarrow> 'k crypto \<Rightarrow> rule_manager \<Rightarrow> disk_io \<Rightarrow> identity \<Rightarrow> int \<Rightarrow>
    string \<Rightarrow> dir \<Rightarrow> ((bundle_apply \<times> string) \<times> dir) option" where
  "applyRuleBundle parse cr rm io self now json_text d = map_option (\<lambda>c. case c of
     Inl err \<Rightarrow> ((Rejected, err), d)
   | Inr (h, rules) \<Rightarrow> if target_hit self h then apply_rules rm io h rules d else skip_bundle io h d)
   (check_rules parse cr rm now (loadMaxSeq d) json_text)"

subsection \<open>The factory rules\<close>

text \<open>
  \<open>seed\<close> is the factory directory, when there is one. A link exists when its target does. A copy that fails leaves some of
  the files.
\<close>

definition node_exists :: "string \<Rightarrow> dir \<Rightarrow> bool" where
  "node_exists a d = (case d a of None \<Rightarrow> False | Some (NLink t) \<Rightarrow> d t \<noteq> None | _ \<Rightarrow> True)"

definition seedFromImageDefaults :: "disk_io \<Rightarrow> (string \<times> string) list option \<Rightarrow> dir \<Rightarrow> string option \<times> dir" where
  "seedFromImageDefaults io seed d = (if node_exists ''current'' d then (None, d)
     else case seed of None \<Rightarrow> (None, d)
     | Some files \<Rightarrow> let
         d = remove_all io ''v0'' ''v0'' d;
         part = filter (\<lambda>(n, _). io_ok io ''v0'' \<or> io_kept io ''copy'' n) files
         in case put_dir (io_ok io ''v0.dir'') ''v0'' part d of
         None \<Rightarrow> (Some (''seed copy: '' @ io_msg io), d)
       | Some d \<Rightarrow> if \<not> io_ok io ''v0'' then (Some (''seed copy: '' @ io_msg io), d)
         else let
           d = remove_one io ''current.tmp'' d;
           d = create_symlink (io_ok io ''current.tmp'') ''v0'' ''current.tmp'' d
           in case rename_if (io_ok io ''current'') ''current.tmp'' ''current'' d of
             None \<Rightarrow> (Some (''seed symlink: '' @ io_msg io), d)
           | Some d \<Rightarrow> (None, d))"

text \<open>\<open>currentRuleVersion\<close> of \<open>main.cpp\<close>: the target of the link without its \<open>v\<close>.\<close>

definition currentRuleVersion :: "dir \<Rightarrow> string" where
  "currentRuleVersion d = (case d ''current'' of
     Some (NLink target) \<Rightarrow> (let v = (if target \<noteq> [] \<and> hd target = CHR ''v'' then tl target else target) in
       if v = [] then ''unknown'' else v)
   | _ \<Rightarrow> ''unknown'')"

end
