(* ===== verification/Mgr_Rules_Facts.thy ===== *)
theory Mgr_Rules_Facts
  imports Mgr_Rules
begin

text \<open>
  What the rule manager promises: a signature binds one bundle, rules are switched only for a fresh bundle that is
  signed and meant for this vehicle, and a bundle is never taken twice.
\<close>

subsection \<open>The payload\<close>

lemma dec_colon_cut: "dec m @ CHR '':'' # s = dec n @ CHR '':'' # t \<Longrightarrow> m = n \<and> s = t"
proof -
  assume eq: "dec m @ CHR '':'' # s = dec n @ CHR '':'' # t"
  have "CHR '':'' \<notin> set (dec k)" for k using dec_digits [of "CHR '':''" k] by (auto simp: digit_val_def)
  then have "takeWhile (\<lambda>c. c \<noteq> CHR '':'') (dec k @ CHR '':'' # u) = dec k" for k u
    by (subst takeWhile_append2) auto
  with eq have "dec m = dec n" by metis
  with eq show ?thesis using dec_inj by simp
qed

lemma rule_line_inj: "rule_line i r = rule_line i' r' \<Longrightarrow> i = i' \<and> r = r'"
  unfolding rule_line_def by (auto dest!: dec_colon_cut base64_inj string_bytes_inj)

lemma plain_rule_line [simp]: "plain_line (rule_line i r)"
  by (simp add: rule_line_def)

lemma take_rule_line [simp]: "take 5 (rule_line i r) = ''rule:''"
  by (simp add: rule_line_def)

lemma payload_lines_inj: "payload_lines rules = payload_lines rules' \<Longrightarrow> rules = rules'"
proof -
  assume "payload_lines rules = payload_lines rules'"
  then have "set (payload_lines rules) = set (payload_lines rules')" by simp
  then have "(\<lambda>(i, r). rule_line i r) ` set (enumerate 0 rules) = (\<lambda>(i, r). rule_line i r) ` set (enumerate 0 rules')"
    by (simp add: payload_lines_def)
  moreover have "inj (\<lambda>(i, r). rule_line i r)" by (auto intro!: injI dest: rule_line_inj)
  ultimately have eq: "set (enumerate 0 rules) = set (enumerate 0 rules')" by (metis inj_image_eq_iff)
  then have "card (set (enumerate 0 rules)) = card (set (enumerate 0 rules'))" by simp
  then have "length rules = length rules'" by (simp add: distinct_card distinct_enumerate)
  moreover have "rules ! i = rules' ! i" if "i < length rules" for i
  proof -
    have "(i, rules ! i) \<in> set (enumerate 0 rules')" using that by (simp flip: eq add: in_set_enumerate_eq)
    then show ?thesis by (simp add: in_set_enumerate_eq)
  qed
  ultimately show ?thesis by (rule nth_equalityI)
qed

lemma plain_payload: "\<forall>l \<in> set (payload_lines rules). plain_line l \<and> take 5 l = ''rule:''"
  by (auto simp: payload_lines_def)

text \<open>
  C14: a signature binds one bundle. If the bundle that the cloud signed has no newline in its text fields, every
  bundle with the same canonical bytes, whoever made it, has the same signed fields and the same rules in the same order.
\<close>

theorem rule_signature_binds:
  assumes "plain_head h" "canonicalRuleBytes h (payload_lines rules) = canonicalRuleBytes h' (payload_lines rules')"
  shows "same_signed h h' \<and> rules' = rules"
proof -
  have b: "same_signed h h' \<and> as_lines (payload_lines rules) = as_lines (payload_lines rules')"
    using assms plain_payload [of rules] unfolding canonicalRuleBytes_def by (intro canonical_binds) auto
  then have "payload_lines rules = payload_lines rules'"
    using plain_payload [of rules] plain_payload [of rules'] by (intro lines_inj) auto
  with b show ?thesis using payload_lines_inj by metis
qed

subsection \<open>The switch\<close>

definition reserved :: "string list" where
  "reserved = [''current'', ''current.tmp'', ''max_seq'', ''max_seq.tmp'']"

text \<open>The name of the link that is being made is no directory.\<close>

definition tidy :: "dir \<Rightarrow> bool" where
  "tidy d \<longleftrightarrow> (\<forall>es. d ''current.tmp'' \<noteq> Some (NDir es))"

text \<open>Nothing of an earlier, interrupted switch is in the way that cannot be removed.\<close>

definition removable :: "disk_io \<Rightarrow> string \<Rightarrow> dir \<Rightarrow> bool" where
  "removable io a d \<longleftrightarrow> d a = None \<or> io_rm io a"

definition clean_switch :: "disk_io \<Rightarrow> dir \<Rightarrow> bool" where
  "clean_switch io d \<longleftrightarrow> tidy d \<and> removable io ''current.tmp'' d \<and> removable io ''rules.new'' d"

lemma remove_simps [simp]: "x \<noteq> a \<Longrightarrow> remove_all io s a d x = d x" "x \<noteq> a \<Longrightarrow> remove_one io a d x = d x"
  by (auto simp: remove_all_def remove_one_def split: option.splits node.splits list.splits)

lemma remove_all_gone: "removable io a d \<Longrightarrow> remove_all io a a d a = None"
  by (auto simp: remove_all_def removable_def)

lemma remove_all_absent: "d a = None \<Longrightarrow> remove_all io s a d = d"
  by (simp add: remove_all_def fun_upd_idem)

lemma remove_one_absent: "d a = None \<Longrightarrow> remove_one io a d = d"
  by (simp add: remove_one_def fun_upd_idem)

lemma remove_one_link: "\<forall>es. d a \<noteq> Some (NDir es) \<Longrightarrow> removable io a d \<Longrightarrow> remove_one io a d a = None"
  by (auto simp: remove_one_def removable_def split: option.splits node.splits)

lemma put_dir_other: "put_dir ok a files d = Some d' \<Longrightarrow> x \<noteq> a \<Longrightarrow> d' x = d x"
  by (auto simp: put_dir_def split: option.splits node.splits if_splits)

lemma put_dir_fresh: "d a = None \<Longrightarrow> put_dir ok a files d = Some d' \<Longrightarrow> d' a = Some (NDir files)"
  by (auto simp: put_dir_def split: if_splits)

lemma rename_if_Some: "rename_if ok a b d = Some d' \<longleftrightarrow> ok \<and> rename a b d = Some d'"
  by (simp add: rename_if_def)

lemma rename_source: "rename a b d = Some d' \<Longrightarrow> d a \<noteq> None"
  by (auto simp: rename_def split: option.splits)

lemma create_symlink_other [simp]: "x \<noteq> a \<Longrightarrow> create_symlink ok t a d x = d x"
  by (simp add: create_symlink_def)

lemma rename_gone: "rename a b d = Some d' \<Longrightarrow> a \<noteq> b \<Longrightarrow> d' a = None"
  by (auto simp: rename_def split: option.splits node.splits list.splits if_splits)

lemma rename_link: "rename a b d = Some d' \<Longrightarrow> a \<noteq> b \<Longrightarrow> d a = Some (NLink t) \<Longrightarrow> d b \<noteq> Some (NDir es)"
  by (auto simp: rename_def)

lemma link_swap:
  assumes "rename_if ok2 ''current.tmp'' ''current'' (create_symlink ok1 v ''current.tmp'' (remove_one io ''current.tmp'' d)) = Some d'"
    and "tidy d" "removable io ''current.tmp'' d"
  shows "d' ''current'' = Some (NLink v)" "d ''current'' \<noteq> Some (NDir es)" "tidy d'"
    and "x \<noteq> ''current'' \<Longrightarrow> x \<noteq> ''current.tmp'' \<Longrightarrow> d' x = d x"
proof -
  let ?e = "create_symlink ok1 v ''current.tmp'' (remove_one io ''current.tmp'' d)"
  have r: "rename ''current.tmp'' ''current'' ?e = Some d'" using assms(1) by (simp add: rename_if_Some)
  have "remove_one io ''current.tmp'' d ''current.tmp'' = None" using assms(2,3) by (intro remove_one_link) (simp_all add: tidy_def)
  with rename_source [OF r] have e: "?e ''current.tmp'' = Some (NLink v)" by (auto simp: create_symlink_def split: if_splits)
  show "d' ''current'' = Some (NLink v)" using rename_target [OF r] e by simp
  show "d ''current'' \<noteq> Some (NDir es)" using rename_link [OF r _ e, of es] by simp
  show "tidy d'" using rename_gone [OF r] by (simp add: tidy_def)
  show "x \<noteq> ''current'' \<Longrightarrow> x \<noteq> ''current.tmp'' \<Longrightarrow> d' x = d x" using rename_other [OF r, of x] by simp
qed

lemma switch_rules_ok:
  assumes "switch_rules io v rules d = (None, d')" "clean_switch io d" "v \<noteq> ''current.tmp''" "v \<noteq> ''rules.new''"
  shows "d' ''current'' = Some (NLink v)" "d' v = Some (NDir (written_rules io rules))" "v \<noteq> ''current''"
    and "x \<noteq> ''current'' \<Longrightarrow> x \<noteq> ''current.tmp'' \<Longrightarrow> x \<noteq> ''rules.new'' \<Longrightarrow> x \<noteq> v \<Longrightarrow> d' x = d x" "tidy d'"
proof -
  let ?new = "Some (NDir (written_rules io rules))"
  define d0 where "d0 = remove_all io ''rules.new'' ''rules.new'' d"
  define d1 where "d1 = (case put_dir (io_ok io ''rules.new'') ''rules.new'' (written_rules io rules) d0 of Some e \<Rightarrow> e | None \<Rightarrow> d0)"
  define d2 where "d2 = remove_all io ''version'' v d1"
  obtain d3 where r: "rename ''rules.new'' v d2 = Some d3"
    and s: "rename_if (io_ok io ''current'') ''current.tmp'' ''current''
      (create_symlink (io_ok io ''current.tmp'') v ''current.tmp'' (remove_one io ''current.tmp'' d3)) = Some d'"
    using assms(1) by (auto simp: switch_rules_def Let_def d0_def d1_def d2_def rename_if_Some split: option.split_asm)
  have d0: "d0 ''rules.new'' = None" using assms(2) by (simp add: d0_def clean_switch_def remove_all_gone)
  have d2: "d2 x = d x" if "x \<noteq> ''rules.new''" "x \<noteq> v" for x
    using that put_dir_other [of "io_ok io ''rules.new''" "''rules.new''" "written_rules io rules" d0 _ x]
    by (auto simp: d1_def d2_def d0_def split: option.split)
  have new: "d2 ''rules.new'' = ?new"
    using assms(4) rename_source [OF r] d0 put_dir_fresh [where d = d0, OF d0] by (auto simp: d1_def d2_def split: option.splits)
  have d3v: "d3 v = ?new" using rename_target [OF r] new by simp
  have d3: "d3 x = d x" if "x \<noteq> ''rules.new''" "x \<noteq> v" for x using rename_other [OF r, of x] that d2 by simp
  have t: "tidy d3" "removable io ''current.tmp'' d3"
    using assms(2,3) d3 by (simp_all add: clean_switch_def tidy_def removable_def)
  show cur: "v \<noteq> ''current''" using link_swap(2) [OF s t] d3v by metis
  show "d' ''current'' = Some (NLink v)" "tidy d'" using link_swap(1,3) [OF s t] by blast+
  show "d' v = ?new" using link_swap(4) [OF s t, of v] cur assms(3) d3v by simp
  show "x \<noteq> ''current'' \<Longrightarrow> x \<noteq> ''current.tmp'' \<Longrightarrow> x \<noteq> ''rules.new'' \<Longrightarrow> x \<noteq> v \<Longrightarrow> d' x = d x"
    using link_swap(4) [OF s t, of x] d3 by simp
qed

text \<open>A failed switch leaves the stored number alone, unless the version has its name.\<close>

lemma switch_rules_other:
  assumes "switch_rules io v rules d = (err, d')" "x \<noteq> ''current''" "x \<noteq> ''current.tmp''" "x \<noteq> ''rules.new''" "x \<noteq> v"
  shows "d' x = d x"
proof -
  define d0 where "d0 = remove_all io ''rules.new'' ''rules.new'' d"
  define d1 where "d1 = (case put_dir (io_ok io ''rules.new'') ''rules.new'' (written_rules io rules) d0 of Some e \<Rightarrow> e | None \<Rightarrow> d0)"
  have "d0 x = d x" using assms(4) by (simp add: d0_def)
  then have d1: "d1 x = d x" using assms(4) by (auto simp: d1_def put_dir_other split: option.split)
  show ?thesis
    using assms unfolding switch_rules_def Let_def d0_def [symmetric] d1_def [symmetric]
    by (auto simp: rename_if_Some d1 dest!: rename_other [where x = x] split: option.splits)
qed

subsection \<open>The checks\<close>

lemma read_rule_head_range: "read_rule_head j = Some (Inr h) \<Longrightarrow> - (2 ^ 63) \<le> b_seq h \<and> b_seq h < 2 ^ 63"
  by (auto simp: read_rule_head_def bind_eq_Some_conv dest!: read_head_range split: option.splits if_splits)

text \<open>What all checks together establish.\<close>

definition rule_checked :: "(string \<Rightarrow> string + json) \<Rightarrow> 'k crypto \<Rightarrow> rule_manager \<Rightarrow> int \<Rightarrow> int \<Rightarrow> string \<Rightarrow> bundle_head \<Rightarrow>
    string list \<Rightarrow> bool" where
  "rule_checked parse cr rm now max_seq json_text h rules \<longleftrightarrow> max_seq < b_seq h \<and>
     b_issued_at h \<le> now + kClockSkewToleranceSec \<and> now - kClockSkewToleranceSec \<le> b_expires_at h \<and>
     signed_by cr (rm_pubkey_b64 rm) (canonicalRuleBytes h (payload_lines rules)) h \<and>
     (\<exists>j. parse json_text = Inr j \<and> read_rule_head j = Some (Inr h) \<and> read_rules j = Some rules)"

lemma check_rules_ok:
  assumes "check_rules parse cr rm now m json_text = Some (Inr (h, rules))"
  shows "rule_checked parse cr rm now m json_text h rules"
proof -
  obtain j where j: "parse json_text = Inr j" "read_rule_head j = Some (Inr h)" "check_fresh now m h = None"
    "read_rules j = Some rules" "check_signer ''rule'' cr (rm_pubkey_b64 rm) (canonicalRuleBytes h (payload_lines rules)) h = None"
  proof -
    obtain j where p: "parse json_text = Inr j" using assms by (cases "parse json_text") (simp_all add: check_rules_def)
    obtain q where q: "read_rule_head j = Some q" using assms p by (cases "read_rule_head j") (simp_all add: check_rules_def)
    obtain h' where h': "q = Inr h'" "check_fresh now m h' = None"
      using assms p q by (cases q) (auto simp: check_rules_def split: option.split_asm)
    show thesis using assms p q h' that by (auto simp: check_rules_def bind_eq_Some_conv split: option.split_asm)
  qed
  then show ?thesis using check_fresh_None [OF j(3)] check_signer_None [OF j(5)] by (simp add: rule_checked_def)
qed

lemma rule_checked_range: "rule_checked parse cr rm now m json_text h rules \<Longrightarrow> - (2 ^ 63) \<le> b_seq h \<and> b_seq h < 2 ^ 63"
  unfolding rule_checked_def using read_rule_head_range by blast

lemma applyRuleBundle_cases:
  assumes "applyRuleBundle parse cr rm io self now json_text d = Some (r, d')"
  obtains (refused) err where "r = (Rejected, err)" "d' = d"
  | (apply_it) h rules where "rule_checked parse cr rm now (loadMaxSeq d) json_text h rules" "target_hit self h"
      "apply_rules rm io h rules d = (r, d')"
  | (skip) h rules where "rule_checked parse cr rm now (loadMaxSeq d) json_text h rules" "\<not> target_hit self h"
      "skip_bundle io h d = (r, d')"
proof -
  obtain c where c: "check_rules parse cr rm now (loadMaxSeq d) json_text = Some c"
    and r: "(r, d') = (case c of Inl err \<Rightarrow> ((Rejected, err), d)
      | Inr (h, rules) \<Rightarrow> if target_hit self h then apply_rules rm io h rules d else skip_bundle io h d)"
    using assms by (auto simp: applyRuleBundle_def)
  show thesis
  proof (cases c)
    case (Inl err)
    then show ?thesis using r refused by simp
  next
    case (Inr p)
    then obtain h rules where p: "c = Inr (h, rules)" by (cases p) simp
    have k: "rule_checked parse cr rm now (loadMaxSeq d) json_text h rules" using c p check_rules_ok by blast
    show ?thesis using r p apply_it [OF k] skip [OF k] by (cases "target_hit self h") simp_all
  qed
qed

subsection \<open>What is applied\<close>

lemma apply_rules_Applied:
  assumes "apply_rules rm io h rules d = ((Applied, err), d')" "- (2 ^ 63) \<le> b_seq h" "b_seq h < 2 ^ 63"
  shows "loadMaxSeq d' = b_seq h"
    and "clean_switch io d \<Longrightarrow> b_version h \<notin> {''current.tmp'', ''rules.new''} \<Longrightarrow>
      d' ''current'' = Some (NLink (b_version h)) \<and> d' (b_version h) = Some (NDir (written_rules io rules))"
proof -
  obtain e where sw: "switch_rules io (b_version h) rules d = (None, e)" and st: "storeMaxSeq io (b_seq h) e = (None, d')"
    using assms(1) by (auto simp: apply_rules_def split: prod.split_asm option.split_asm)
  show "loadMaxSeq d' = b_seq h" by (rule storeMaxSeq_ok(1) [OF st assms(2,3)])
  assume "clean_switch io d" "b_version h \<notin> {''current.tmp'', ''rules.new''}"
  then have t: "clean_switch io d" "b_version h \<noteq> ''current.tmp''" "b_version h \<noteq> ''rules.new''" by simp_all
  note s = switch_rules_ok [OF sw t]
  have "e ''max_seq.tmp'' \<noteq> Some (NDir w)" "e ''max_seq'' \<noteq> Some (NDir w)" for w
    using st by (auto simp: storeMaxSeq_def replace_file_def is_dir_def rename_if_def rename_def Let_def
        split: option.splits if_splits)
  then have "b_version h \<noteq> ''max_seq''" "b_version h \<noteq> ''max_seq.tmp''" using s(2) by metis+
  then show "d' ''current'' = Some (NLink (b_version h)) \<and> d' (b_version h) = Some (NDir (written_rules io rules))"
    using storeMaxSeq_ok(2) [OF st assms(2,3), of "b_version h"] storeMaxSeq_ok(2) [OF st assms(2,3), of "''current''"] s
    by simp
qed

lemma apply_not_Skipped: "apply_rules rm io h rules d \<noteq> ((Skipped, err), d')"
  by (auto simp: apply_rules_def split: prod.split_asm option.split_asm)

text \<open>
  C12: whatever bundle arrives, and whatever fails, nothing in the directory changes unless the bundle passed every check: it is
  well formed, signed with the configured key over its canonical bytes, fresh, and above the stored number. The rules, which
  is everything but the stored number and its temporary file, change only for a bundle that is also meant for this vehicle; this holds
  as well for a bundle that ends as rejected because a step after the switch fails. A bundle is applied only under the same
  checks, and then the stored number is that of the bundle; if its version is none of the two temporary names of the switch
  (\<open>current.tmp\<close>, \<open>rules.new\<close>), and no remains of an interrupted switch under these names resist their removal
  (\<open>clean_switch\<close>), the link names the version, whose directory holds the rules of the bundle as the writes left them.
\<close>

theorem rule_applied_only_if_signed:
  assumes "applyRuleBundle parse cr rm io self now json_text d = Some ((r, err), d')"
    and "r \<noteq> Rejected \<or> d' \<noteq> d"
  shows "\<exists>h rules. rule_checked parse cr rm now (loadMaxSeq d) json_text h rules \<and>
    (r = Applied \<or> (\<exists>x. x \<notin> {''max_seq'', ''max_seq.tmp''} \<and> d' x \<noteq> d x) \<longrightarrow> target_hit self h) \<and>
    (r = Applied \<longrightarrow> loadMaxSeq d' = b_seq h) \<and>
    (r = Applied \<and> clean_switch io d \<and> b_version h \<notin> {''current.tmp'', ''rules.new''} \<longrightarrow>
      d' ''current'' = Some (NLink (b_version h)) \<and> d' (b_version h) = Some (NDir (written_rules io rules)))"
  using assms(1)
proof (cases rule: applyRuleBundle_cases)
  case (apply_it h rules)
  note k = rule_checked_range [OF apply_it(1)]
  have "loadMaxSeq d' = b_seq h" "clean_switch io d \<Longrightarrow> b_version h \<notin> {''current.tmp'', ''rules.new''} \<Longrightarrow>
      d' ''current'' = Some (NLink (b_version h)) \<and> d' (b_version h) = Some (NDir (written_rules io rules))" if "r = Applied"
    using apply_rules_Applied [OF apply_it(3) [unfolded that]] k by blast+
  then show ?thesis using apply_it by blast
next
  case (skip h rules)
  have "r \<noteq> Applied" using skip(3) skip_not_Applied by blast
  moreover have "d' x = d x" if "x \<notin> {''max_seq'', ''max_seq.tmp''}" for x
    using skip(3) that by (auto simp: skip_bundle_def dest: storeMaxSeq_other split: prod.split_asm option.split_asm)
  ultimately show ?thesis using skip(1) by blast
qed (use assms(2) in simp)

text \<open>The rules are already switched when a later step fails, and the bundle is rejected.\<close>

lemma rejected_after_switch:
  assumes "switch_rules io (b_version h) rules d = (None, e)" "storeMaxSeq io (b_seq h) e = (None, d')"
    and "rm_reload_cmd rm \<noteq> []" "io_reload io \<noteq> 0"
  shows "fst (fst (apply_rules rm io h rules d)) = Rejected" "snd (apply_rules rm io h rules d) = d'"
  using assms by (simp_all add: apply_rules_def runReload_def)

text \<open>
  When the remains of an interrupted switch cannot be removed, the switch succeeds with the old link, or with old
  rules among the new ones.
\<close>

lemma stale_link_switched:
  assumes "d ''current.tmp'' = Some (NLink w)" "\<not> io_rm io ''current.tmp''" "d ''current'' = None"
    and "io_ok io ''current''" "io_ok io ''version''" "io_ok io ''rules.new''" "d ''rules.new'' = None" "d v = None"
    and "v \<notin> {''current.tmp'', ''rules.new'', ''current''}"
  shows "\<exists>d'. switch_rules io v rules d = (None, d') \<and> d' ''current'' = Some (NLink w)"
proof -
  have "v \<noteq> ''current.tmp''" "v \<noteq> ''rules.new''" "v \<noteq> ''current''" "''current.tmp'' \<noteq> v" "''rules.new'' \<noteq> v" "''current'' \<noteq> v"
    using assms by auto
  with assms show ?thesis by (simp add: switch_rules_def Let_def remove_all_absent remove_one_def put_dir_def rename_if_def rename_def
      create_symlink_def)
qed

lemma stale_rules_kept:
  assumes "d ''rules.new'' = Some (NDir es)" "\<not> io_rm io ''rules.new''"
    and "io_ok io ''version''" "d v = None" "v \<notin> {''current.tmp'', ''rules.new'', ''current''}"
    and "io_ok io ''current''" "io_ok io ''current.tmp''" "d ''current.tmp'' = None" "d ''current'' = None"
  shows "\<exists>d'. switch_rules io v rules d = (None, d') \<and>
    d' v = Some (NDir (over_files (filter (\<lambda>(n, _). io_kept io ''rules.new'' n) es) (written_rules io rules)))"
proof -
  have "v \<noteq> ''current.tmp''" "v \<noteq> ''rules.new''" "v \<noteq> ''current''" "''current.tmp'' \<noteq> v" "''rules.new'' \<noteq> v" "''current'' \<noteq> v"
    using assms by auto
  with assms show ?thesis by (simp add: switch_rules_def Let_def remove_all_absent remove_one_absent put_dir_def rename_if_def rename_def
      create_symlink_def remove_all_def [of io "''rules.new''" "''rules.new''" d])
qed

subsection \<open>What every bundle leaves of the stored number\<close>

lemma apply_rules_seq:
  assumes "apply_rules rm io h rules d = (r, d')" "b_version h \<noteq> ''max_seq''" "- (2 ^ 63) \<le> b_seq h" "b_seq h < 2 ^ 63"
    and "loadMaxSeq d < b_seq h"
  shows "loadMaxSeq d \<le> loadMaxSeq d'"
proof -
  obtain err e where sw: "switch_rules io (b_version h) rules d = (err, e)" by fastforce
  have "e ''max_seq'' = d ''max_seq''" using switch_rules_other [OF sw, of "''max_seq''"] assms(2) by simp
  then have e: "loadMaxSeq e = loadMaxSeq d" by (rule load_max_seq_cong)
  show ?thesis
  proof (cases err)
    case None
    obtain err2 e2 where st: "storeMaxSeq io (b_seq h) e = (err2, e2)" by fastforce
    have d': "d' = e2" using assms(1) sw st None by (auto simp: apply_rules_def split: option.split_asm)
    show ?thesis
    proof (cases err2)
      case None
      then show ?thesis using storeMaxSeq_ok(1) [OF _ assms(3,4)] st d' assms(5) by simp
    next
      case (Some w)
      have "e2 ''max_seq'' = e ''max_seq''" by (rule storeMaxSeq_err [OF st [unfolded Some]]) simp
      then show ?thesis using load_max_seq_cong [of e2 e] e d' by simp
    qed
  next
    case (Some w)
    then show ?thesis using assms(1) sw e by (simp add: apply_rules_def)
  qed
qed

text \<open>The daemon's handler: whether the bundle was taken. An exception leaves the directory as it was.\<close>

definition rule_receive :: "(string \<Rightarrow> string + json) \<Rightarrow> 'k crypto \<Rightarrow> rule_manager \<Rightarrow> disk_io \<times> identity \<times> int \<Rightarrow> string \<Rightarrow>
    dir \<Rightarrow> bool \<times> dir" where
  "rule_receive parse cr rm e json_text d = (case e of (io, self, now) \<Rightarrow>
     (case applyRuleBundle parse cr rm io self now json_text d of
        None \<Rightarrow> (False, d) | Some ((r, err), d') \<Rightarrow> (r \<noteq> Rejected, d')))"

definition rule_head_of :: "(string \<Rightarrow> string + json) \<Rightarrow> string \<Rightarrow> bundle_head option" where
  "rule_head_of parse json_text = (case parse json_text of
     Inr j \<Rightarrow> (case read_rule_head j of Some (Inr h) \<Rightarrow> Some h | _ \<Rightarrow> None) | Inl _ \<Rightarrow> None)"

definition rule_seq :: "(string \<Rightarrow> string + json) \<Rightarrow> string \<Rightarrow> int" where
  "rule_seq parse json_text = (case rule_head_of parse json_text of Some h \<Rightarrow> b_seq h | None \<Rightarrow> 0)"

definition rule_safe :: "(string \<Rightarrow> string + json) \<Rightarrow> string \<Rightarrow> bool" where
  "rule_safe parse json_text = (case rule_head_of parse json_text of Some h \<Rightarrow> b_version h \<noteq> ''max_seq'' | None \<Rightarrow> True)"

lemma rule_checked_head: "rule_checked parse cr rm now m json_text h rules \<Longrightarrow> rule_head_of parse json_text = Some h"
  by (auto simp: rule_checked_def rule_head_of_def)

lemma rule_receive_taken:
  assumes "rule_receive parse cr rm e json_text d = (True, d')"
  shows "loadMaxSeq d < rule_seq parse json_text \<and> loadMaxSeq d' = rule_seq parse json_text"
proof -
  obtain io self now r err where e: "e = (io, self, now)" "r \<noteq> Rejected"
    and a: "applyRuleBundle parse cr rm io self now json_text d = Some ((r, err), d')"
    using assms by (cases e) (auto simp: rule_receive_def split: option.split_asm)
  from a show ?thesis
  proof (cases rule: applyRuleBundle_cases)
    case (apply_it h rules)
    have "r = Applied" using apply_it(3) apply_not_Skipped e(2) by (cases r) auto
    then show ?thesis using apply_it apply_rules_Applied(1) rule_checked_range [OF apply_it(1)] rule_checked_head [OF apply_it(1)]
      by (auto simp: rule_seq_def rule_checked_def)
  next
    case (skip h rules)
    have "r = Skipped" using skip(3) skip_not_Applied e(2) by (cases r) auto
    then show ?thesis using skip skip_bundle_Skipped rule_checked_range [OF skip(1)] rule_checked_head [OF skip(1)]
      by (auto simp: rule_seq_def rule_checked_def)
  qed (use e(2) in simp)
qed

lemma rule_receive_kept:
  assumes "rule_receive parse cr rm e json_text d = (t, d')" "rule_safe parse json_text"
  shows "loadMaxSeq d \<le> loadMaxSeq d'"
proof -
  obtain io self now where e: "e = (io, self, now)" by (cases e)
  show ?thesis
  proof (cases "applyRuleBundle parse cr rm io self now json_text d")
    case None
    then show ?thesis using assms(1) e by (simp add: rule_receive_def)
  next
    case (Some p)
    then obtain r where "applyRuleBundle parse cr rm io self now json_text d = Some (r, d')"
      using assms(1) e by (cases p) (auto simp: rule_receive_def)
    then show ?thesis
    proof (cases rule: applyRuleBundle_cases)
      case (apply_it h rules)
      have "b_version h \<noteq> ''max_seq''" using assms(2) rule_checked_head [OF apply_it(1)] by (simp add: rule_safe_def)
      then show ?thesis using apply_rules_seq [OF apply_it(3)] rule_checked_range [OF apply_it(1)] apply_it(1)
        by (simp add: rule_checked_def)
    next
      case (skip h rules)
      then show ?thesis using skip_bundle_seq [OF skip(3)] rule_checked_range [OF skip(1)] by (simp add: rule_checked_def)
    qed simp
  qed
qed

interpretation rule_guard: seq_guarded "rule_receive parse cr rm" loadMaxSeq "rule_seq parse" "rule_safe parse"
  for parse :: "string \<Rightarrow> string + json" and cr :: "'k crypto" and rm
  by unfold_locales (fact rule_receive_taken rule_receive_kept)+

text \<open>
  C13: no replay. Of any sequence of rule bundles, under any circumstances, those that are taken (applied, or skipped for
  another target) have strictly ascending numbers, as long as no bundle has the version \<open>max_seq\<close>.
\<close>

theorem rule_numbers_ascend:
  assumes "\<forall>a \<in> set as. rule_safe parse (snd a)"
  shows "sorted_wrt (\<lambda>t t'. rule_seq parse t < rule_seq parse t') (taken_messages (rule_receive parse cr rm) as d)"
  by (rule rule_guard.ascending [OF assms])

subsection \<open>An example\<close>

definition demo_head :: bundle_head where
  "demo_head = \<lparr> b_seq = 7, b_tenant = ''acme'', b_version = ''v2'', b_rollback = False, b_ecu = ''all'', b_node = ''all'',
     b_vmodel = ''all'', b_issued_at = 0, b_expires_at = 10, b_type = 1, b_pubkey_id = [], b_signature = ''AAAA'' \<rparr>"

definition demo_rules_json :: json where
  "demo_rules_json = JObject [(''msg_type'', JString ''rule_update''), (''manufacturer'', JString ''acme''), (''seq'', JNum 7),
     (''version'', JString ''v2''), (''rollback'', JBool False),
     (''target'', JObject [(''ecu'', JString ''all''), (''nodeType'', JString ''all''), (''vmodel'', JString ''all'')]),
     (''upgrade_type'', JNum 1), (''issued_at'', JNum 0), (''expires_at'', JNum 10), (''sig_alg'', JString ''Ed25519''),
     (''pubkey_id'', JString (hex_text (replicate 8 0))), (''signature'', JString ''AAAA''), (''rules'', JArray [JString ''a''])]"

definition demo_rm :: rule_manager where
  "demo_rm = \<lparr> rm_reload_cmd = [], rm_pubkey_b64 = ''AAAA'' \<rparr>"

definition demo_rule_parse :: "string \<Rightarrow> string + json" where
  "demo_rule_parse s = (if s = ''bundle'' then Inr demo_rules_json else Inl ''bad'')"

lemma demo_rule_head: "read_rule_head demo_rules_json = Some (Inr (demo_head\<lparr>b_pubkey_id := hex_text (replicate 8 0)\<rparr>))"
  by (simp add: read_rule_head_def demo_rules_json_def missing_key_def rule_keys_def j_contains_def j_get_def j_at_def
      get_string_def get_i64_def get_i32_def get_num_def get_bool_def read_head_def j_text_def demo_head_def check_rule_form_def
      validVersionName_def version_char_def Let_def is_array_def j_empty_def j_elems_def target_missing_def is_string_def
      signed_take_bit_int_eq_self)

lemma demo_rule_signer:
  "check_signer ''rule'' demo_crypto ''AAAA'' c (demo_head\<lparr>b_pubkey_id := hex_text (replicate 8 0)\<rparr>) = None"
  by (simp add: check_signer_def verifySignature_def configuredPubkeyId_def configured_key_def demo_crypto_def demo_head_def
      demo_hex
      b64_bytes_def b64_val_def Let_def)

lemma demo_rule_checks: "check_rules demo_rule_parse demo_crypto demo_rm 0 0 ''bundle'' =
    Some (Inr (demo_head\<lparr>b_pubkey_id := hex_text (replicate 8 0)\<rparr>, [''a'']))"
  using demo_rule_signer [of "canonicalRuleBytes (demo_head\<lparr>b_pubkey_id := hex_text (replicate 8 0)\<rparr>) (payload_lines [''a''])"]
  by (simp add: check_rules_def demo_rule_parse_def demo_rule_head demo_rm_def)
    (simp add: demo_head_def check_fresh_def kClockSkewToleranceSec_def read_rules_def demo_rules_json_def j_at_def j_elems_def get_string_def)

lemma demo_rule_applied: "\<exists>d'. applyRuleBundle demo_rule_parse demo_crypto demo_rm demo_io demo_self 0 ''bundle'' Map.empty =
    Some ((Applied, []), d')"
proof -
  have hit: "target_hit demo_self (demo_head\<lparr>b_pubkey_id := p\<rparr>)" for p
    by (simp add: target_hit_def targetMatches_def toLower_def demo_head_def lower_def Let_def)
  have ap: "\<exists>d'. apply_rules demo_rm demo_io (demo_head\<lparr>b_pubkey_id := p\<rparr>) [''a''] Map.empty = ((Applied, []), d')" for p
    by (simp add: apply_rules_def switch_rules_def demo_io_def demo_head_def remove_all_def remove_one_def put_dir_def create_symlink_def
        rename_if_def rename_def storeMaxSeq_def replace_file_def is_dir_def Let_def runReload_def demo_rm_def)
  show ?thesis using ap by (simp add: applyRuleBundle_def loadMaxSeq_def demo_rule_checks hit)
qed

theorem rule_applied_only_if_signed_witness:
  "\<exists>h rules. rule_checked demo_rule_parse demo_crypto demo_rm 0 0 ''bundle'' h rules \<and> target_hit demo_self h"
proof -
  obtain d' where d': "applyRuleBundle demo_rule_parse demo_crypto demo_rm demo_io demo_self 0 ''bundle'' Map.empty =
    Some ((Applied, []), d')" using demo_rule_applied by blast
  have "Applied \<noteq> Rejected \<or> d' \<noteq> Map.empty" by simp
  from rule_applied_only_if_signed [OF d' this] show ?thesis by (auto simp: loadMaxSeq_def)
qed

theorem rule_numbers_ascend_witness:
  "sorted_wrt (\<lambda>t t'. rule_seq demo_rule_parse t < rule_seq demo_rule_parse t')
     (taken_messages (rule_receive demo_rule_parse demo_crypto demo_rm) (replicate 3 ((demo_io, demo_self, 0), ''bundle'')) Map.empty)"
  by (rule rule_numbers_ascend)
    (simp add: rule_safe_def rule_head_of_def demo_rule_parse_def demo_rule_head, simp add: demo_head_def)

theorem rule_signature_binds_witness:
  "same_signed demo_head (demo_head\<lparr>b_signature := ''BBBB''\<rparr>) \<and> [''a''] = [''a'']"
  by (rule rule_signature_binds)
    (simp_all add: plain_head_def demo_head_def plain_line_def canonicalRuleBytes_def canonical_lines_def)

subsection \<open>Names that collide\<close>

text \<open>
  A version named like the file of the stored number: its directory takes the place of that file, and the number is lost.
\<close>

lemma max_seq_version_resets:
  assumes "apply_rules rm io h rules d = (r, d')" "b_version h = ''max_seq''" "clean_switch io d"
    and "fst (switch_rules io ''max_seq'' rules d) = None"
  shows "fst r = Rejected \<and> d' ''current'' = Some (NLink ''max_seq'') \<and> loadMaxSeq d' = 0"
proof -
  obtain e where sw: "switch_rules io ''max_seq'' rules d = (None, e)" using assms(4) by (cases "switch_rules io ''max_seq'' rules d") simp
  note s = switch_rules_ok(1,2) [OF sw assms(3), simplified]
  obtain err e2 where st: "storeMaxSeq io (b_seq h) e = (err, e2)" by fastforce
  have "err \<noteq> None"
    using st s(2) by (auto simp: storeMaxSeq_def replace_file_def rename_if_def rename_def Let_def split: if_splits option.splits)
  then obtain t where t: "err = Some t" by blast
  have "e2 ''current'' = e ''current''" "e2 ''max_seq'' = e ''max_seq''"
    by (rule storeMaxSeq_err [OF st [unfolded t]], simp)+
  moreover have "r = (Rejected, t) \<and> d' = e2" using assms(1,2) sw st t by (simp add: apply_rules_def)
  ultimately show ?thesis using s by (simp add: loadMaxSeq_def)
qed

text \<open>Newlines in the text fields: two bundles for different targets with one signature.\<close>

lemma canonical_collision:
  "canonicalRuleBytes (demo_head\<lparr>b_ecu := ''e'' @ nl @ ''target_node=n'', b_node := ''m''\<rparr>) ls =
   canonicalRuleBytes (demo_head\<lparr>b_ecu := ''e'', b_node := ''n'' @ nl @ ''target_node=m''\<rparr>) ls"
  by (simp add: canonicalRuleBytes_def canonical_lines_def demo_head_def)

subsection \<open>The factory rules\<close>

lemma seed_keeps_current: "node_exists ''current'' d \<Longrightarrow> seedFromImageDefaults io seed d = (None, d)"
  by (simp add: seedFromImageDefaults_def)

lemma seed_installs:
  assumes "seedFromImageDefaults io (Some files) d = (None, d')" "\<not> node_exists ''current'' d" "tidy d"
    and "removable io ''current.tmp'' d" "removable io ''v0'' d"
  shows "d' ''current'' = Some (NLink ''v0'') \<and> d' ''v0'' = Some (NDir files) \<and> currentRuleVersion d' = ''0''"
proof -
  obtain e where e: "put_dir (io_ok io ''v0.dir'') ''v0'' files (remove_all io ''v0'' ''v0'' d) = Some e"
    and r: "rename_if (io_ok io ''current'') ''current.tmp'' ''current''
      (create_symlink (io_ok io ''current.tmp'') ''v0'' ''current.tmp'' (remove_one io ''current.tmp'' e)) = Some d'"
    using assms(1,2) by (auto simp: seedFromImageDefaults_def Let_def split: if_splits option.split_asm)
  have v0: "e ''v0'' = Some (NDir files)" using put_dir_fresh [OF _ e] assms(5) by (simp add: remove_all_gone)
  have "e x = d x" if "x \<noteq> ''v0''" for x using put_dir_other [OF e that] that by simp
  then have t: "tidy e" "removable io ''current.tmp'' e" using assms(3,4) by (simp_all add: tidy_def removable_def)
  show ?thesis using link_swap(1,4) [OF r t] v0 by (simp add: currentRuleVersion_def)
qed

end
