(* ===== verification/Mgr_Config.thy ===== *)
theory Mgr_Config
  imports Mgr_Guard
begin

text \<open>
  \<open>linux/idsm_managerd/config_manager.cpp\<close>: the signed configuration bundle, its items, and the files they become. The
  JSON library is the record \<open>json_lib\<close>. The second result is the directory as it is left; the first is \<open>None\<close> when an
  exception leaves the function.
\<close>

record config_manager =
  cm_config_dir :: string
  cm_reload_cmd :: string
  cm_pubkey_b64 :: string

record config_item =
  ci_line :: string
  ci_name :: string
  ci_value :: json
  ci_version :: string

subsection \<open>Checks\<close>

definition isAsciiPrintable :: "string \<Rightarrow> bool" where
  "isAsciiPrintable s \<longleftrightarrow> (\<forall>c \<in> set s. 32 \<le> (of_char c :: nat) \<and> (of_char c :: nat) \<le> 126)"

definition list_names :: "string list" where
  "list_names = [''app_w_list'', ''process_w_list'', ''fw_ip_w_list'', ''fw_ip_b_list'', ''fw_port_w_list'', ''fw_port_b_list'']"

definition validListName :: "string \<Rightarrow> bool" where
  "validListName name \<longleftrightarrow> name \<in> set list_names"

definition config_keys :: "string list" where
  "config_keys = [''msg_type'', ''manufacturer'', ''seq'', ''version'', ''rollback'', ''target'', ''config_type'', ''items'',
     ''issued_at'', ''expires_at'', ''sig_alg'', ''pubkey_id'', ''signature'']"

definition check_config_form :: "json \<Rightarrow> bundle_head \<Rightarrow> string option" where
  "check_config_form j h =
     (if b_seq h \<le> 0 then Some ''bad seq''
      else if \<not> validVersionName (b_version h) then Some (''illegal version: '' @ b_version h)
      else if b_type h \<noteq> 1 \<and> b_type h \<noteq> 2 then Some ''bad config_type''
      else if \<not> (case j_at j ''items'' of Some r \<Rightarrow> is_array r \<and> \<not> j_empty r | None \<Rightarrow> False)
      then Some ''items[] required and non-empty''
      else map_option (\<lambda>k. ''target missing '' @ k) (Option.bind (j_at j ''target'') target_missing))"

definition read_config_head :: "json \<Rightarrow> (string + bundle_head) option" where
  "read_config_head j = (case missing_key config_keys j of
     Some k \<Rightarrow> Some (Inl (''bundle missing '' @ k))
   | None \<Rightarrow> do {
       msg_type \<leftarrow> j_get j ''msg_type'' get_string;
       if msg_type \<noteq> ''config_update'' then Some (Inl ''msg_type != config_update'')
       else do {
         sig_alg \<leftarrow> j_get j ''sig_alg'' get_string;
         if sig_alg \<noteq> ''Ed25519'' then Some (Inl ''sig_alg != Ed25519'')
         else do {
           h \<leftarrow> read_head j ''config_type'';
           Some (case check_config_form j h of Some err \<Rightarrow> Inl err | None \<Rightarrow> Inr h) } } })"

text \<open>The value of an item: a list of printable strings, or for \<open>rule_enable\<close> an object of zeros and ones.\<close>

definition printable_entry :: "json \<Rightarrow> bool" where
  "printable_entry v = (case v of JString s \<Rightarrow> isAsciiPrintable s | _ \<Rightarrow> False)"

definition enable_flag :: "json \<Rightarrow> bool" where
  "enable_flag v = (case v of JNum _ \<Rightarrow> get_i64 v = Some 0 \<or> get_i64 v = Some 1 | _ \<Rightarrow> False)"

definition check_list_value :: "string \<Rightarrow> json \<Rightarrow> string option" where
  "check_list_value name v = (if \<not> validListName name then Some (''unknown config_name: '' @ name)
     else if \<not> is_array v then Some (name @ '': config_value must be array<string>'')
     else if \<exists>x \<in> set (j_elems v). \<not> printable_entry x then Some (name @ '': non-ascii or non-string entry'')
     else None)"

definition check_enable_value :: "string \<Rightarrow> json \<Rightarrow> string option" where
  "check_enable_value name v = (if name \<noteq> ''rule_enable'' then Some (''config_type=2 only supports rule_enable, got '' @ name)
     else case v of
       JObject m \<Rightarrow> if m = [] then Some ''rule_enable: config_value must be non-empty object''
         else map_option (\<lambda>(k, _). ''rule_enable: value of '' @ k @ '' must be 0|1'') (List.find (\<lambda>(_, x). \<not> enable_flag x) m)
     | _ \<Rightarrow> Some ''rule_enable: config_value must be non-empty object'')"

definition check_item_value :: "int \<Rightarrow> string \<Rightarrow> json \<Rightarrow> string option" where
  "check_item_value ty name v = (if ty = 1 then check_list_value name v else check_enable_value name v)"

definition item_json :: "string \<Rightarrow> json \<Rightarrow> string \<Rightarrow> json" where
  "item_json name v version = JObject [(''config_name'', JString name), (''config_value'', v), (''config_version'', JString version)]"

definition item_line :: "string \<Rightarrow> string \<Rightarrow> string" where
  "item_line name canon = ''item:'' @ name @ '':'' @ base64Encode (string_bytes canon)"

definition read_item :: "json_lib \<Rightarrow> int \<Rightarrow> json \<Rightarrow> (string + config_item) option" where
  "read_item jl ty it = (if \<not> is_object it \<or> missing_key [''config_name'', ''config_value'', ''config_version''] it \<noteq> None
     then Some (Inl ''item missing config_name/config_value/config_version'')
     else do {
       name \<leftarrow> j_get it ''config_name'' get_string;
       v \<leftarrow> j_at it ''config_value'';
       version \<leftarrow> j_get it ''config_version'' get_string;
       if \<not> isAsciiPrintable name \<or> \<not> isAsciiPrintable version then Some (Inl ''item non-ascii name/version'')
       else Some (case check_item_value ty name v of
         Some err \<Rightarrow> Inl err
       | None \<Rightarrow> let canon = jl_dump jl (item_json name v version) in
           if \<not> isAsciiPrintable canon then Inl ''item canonical json not ascii''
           else Inr \<lparr> ci_line = item_line name canon, ci_name = name, ci_value = v, ci_version = version \<rparr>) })"

text \<open>The items in order, up to the first that is refused.\<close>

fun read_items :: "json_lib \<Rightarrow> int \<Rightarrow> json list \<Rightarrow> (string + config_item list) option" where
  "read_items jl ty [] = Some (Inr [])"
| "read_items jl ty (it # its) = (case read_item jl ty it of
     None \<Rightarrow> None
   | Some (Inl err) \<Rightarrow> Some (Inl err)
   | Some (Inr i) \<Rightarrow> map_option (\<lambda>r. case r of Inl err \<Rightarrow> Inl err | Inr is \<Rightarrow> Inr (i # is)) (read_items jl ty its))"

definition item_lines :: "config_item list \<Rightarrow> string list" where
  "item_lines is = sort (map ci_line is)"

text \<open>All checks of a bundle, in their order; they read nothing but the stored number.\<close>

definition check_config :: "json_lib \<Rightarrow> 'k crypto \<Rightarrow> config_manager \<Rightarrow> int \<Rightarrow> int \<Rightarrow> string \<Rightarrow>
    (string + bundle_head \<times> config_item list) option" where
  "check_config jl cr cm now max_seq json_text = (case jl_parse jl json_text of
     Inl what \<Rightarrow> Some (Inl (''json parse: '' @ what))
   | Inr j \<Rightarrow> Option.bind (read_config_head j) (\<lambda>r. case r of
       Inl err \<Rightarrow> Some (Inl err)
     | Inr h \<Rightarrow> Option.bind (Option.bind (j_at j ''items'') (\<lambda>its. read_items jl (b_type h) (j_elems its))) (\<lambda>r. case r of
         Inl err \<Rightarrow> Some (Inl err)
       | Inr is \<Rightarrow> Some (case check_fresh now max_seq h of
           Some err \<Rightarrow> Inl err
         | None \<Rightarrow> (case check_signer ''config'' cr (cm_pubkey_b64 cm) (canonicalConfigBytes h (item_lines is)) h of
             Some err \<Rightarrow> Inl err | None \<Rightarrow> Inr (h, is))))))"

subsection \<open>Writing the items\<close>

definition atomicWrite :: "config_manager \<Rightarrow> disk_io \<Rightarrow> string \<Rightarrow> string \<Rightarrow> dir \<Rightarrow> string option \<times> dir" where
  "atomicWrite cm io a content d = (let path = cm_config_dir cm @ ''/'' @ a in
     replace_file io (''write '' @ path @ ''.tmp'') (''rename '' @ path @ '': '' @ io_msg io) a content d)"

definition appendAudit :: "disk_io \<Rightarrow> string \<Rightarrow> dir \<Rightarrow> dir" where
  "appendAudit io line d = (if \<not> io_ok io ''audit.log'' \<or> is_dir ''audit.log'' d then d
     else d(''audit.log'' \<mapsto> NFile ((case d ''audit.log'' of Some (NFile s) \<Rightarrow> s | _ \<Rightarrow> []) @ io_append io (line @ nl))))"

definition audit_entry :: "int \<Rightarrow> bundle_head \<Rightarrow> config_item \<Rightarrow> json" where
  "audit_entry now h i = JObject [(''config_name'', JString (ci_name i)), (''config_type'', JNum (b_type h)),
     (''seq'', JNum (b_seq h)), (''ts'', JNum now), (''version'', JString (b_version h))]"

definition list_file :: "string \<Rightarrow> string" where
  "list_file name = ''current/'' @ name @ ''.list''"

definition item_file :: "int \<Rightarrow> config_item \<Rightarrow> string" where
  "item_file ty i = (if ty = 1 then list_file (ci_name i) else ''current/rule_enable.json'')"

definition item_text :: "json_lib \<Rightarrow> int \<Rightarrow> config_item \<Rightarrow> string" where
  "item_text jl ty i = (if ty = 1
     then concat (map (\<lambda>v. (case v of JString s \<Rightarrow> s | _ \<Rightarrow> []) @ nl) (j_elems (ci_value i)))
     else jl_dump jl (ci_value i) @ nl)"

text \<open>\<open>versions[k] = v\<close>; the keys of an object are in order, and only an object or null can be indexed.\<close>

fun j_insert :: "string \<Rightarrow> json \<Rightarrow> (string \<times> json) list \<Rightarrow> (string \<times> json) list" where
  "j_insert k v [] = [(k, v)]"
| "j_insert k v ((k', v') # m) = (if k = k' then (k, v) # m else if k < k' then (k, v) # (k', v') # m else (k', v') # j_insert k v m)"

definition j_put :: "json \<Rightarrow> string \<Rightarrow> json \<Rightarrow> json option" where
  "j_put j k v = (case j of JNull \<Rightarrow> Some (JObject [(k, v)]) | JObject m \<Rightarrow> Some (JObject (j_insert k v m)) | _ \<Rightarrow> None)"

text \<open>What became of the writing: an exception, the text of an error, or the versions to write.\<close>

datatype landing = Thrown | Failed string | Landed json

fun land_items :: "json_lib \<Rightarrow> config_manager \<Rightarrow> disk_io \<Rightarrow> int \<Rightarrow> bundle_head \<Rightarrow> config_item list \<Rightarrow> json \<Rightarrow> dir \<Rightarrow>
    landing \<times> dir" where
  "land_items jl cm io now h [] versions d = (Landed versions, d)"
| "land_items jl cm io now h (i # is) versions d =
     (case atomicWrite cm io (item_file (b_type h) i) (item_text jl (b_type h) i) d of
        (Some err, d) \<Rightarrow> (Failed err, d)
      | (None, d) \<Rightarrow> (case j_put versions (ci_name i) (JString (ci_version i)) of
          None \<Rightarrow> (Thrown, d)
        | Some versions \<Rightarrow> land_items jl cm io now h is versions (appendAudit io (jl_dump jl (audit_entry now h i)) d)))"

definition versions_file :: string where "versions_file = ''current/_versions.json''"

definition old_versions :: "json_lib \<Rightarrow> dir \<Rightarrow> json" where
  "old_versions jl d = (case d versions_file of
     Some (NFile s) \<Rightarrow> (case jl_read jl s of Some v \<Rightarrow> v | None \<Rightarrow> JObject []) | _ \<Rightarrow> JObject [])"

definition apply_config :: "json_lib \<Rightarrow> config_manager \<Rightarrow> disk_io \<Rightarrow> int \<Rightarrow> bundle_head \<Rightarrow> config_item list \<Rightarrow> dir \<Rightarrow>
    (bundle_apply \<times> string) option \<times> dir" where
  "apply_config jl cm io now h is d = (case land_items jl cm io now h is (old_versions jl d) d of
     (Thrown, d) \<Rightarrow> (None, d)
   | (Failed err, d) \<Rightarrow> (Some (Rejected, err), d)
   | (Landed versions, d) \<Rightarrow> (case atomicWrite cm io versions_file (jl_pretty jl 1 versions @ nl) d of
       (Some err, d) \<Rightarrow> (Some (Rejected, err), d)
     | (None, d) \<Rightarrow> (case storeMaxSeq io (b_seq h) d of
         (Some err, d) \<Rightarrow> (Some (Rejected, err), d)
       | (None, d) \<Rightarrow> (case runReload io (cm_reload_cmd cm) of
           Some err \<Rightarrow> (Some (Rejected, err), d) | None \<Rightarrow> (Some (Applied, []), d)))))"

definition applyConfigBundle :: "json_lib \<Rightarrow> 'k crypto \<Rightarrow> config_manager \<Rightarrow> disk_io \<Rightarrow> identity \<Rightarrow> int \<Rightarrow> string \<Rightarrow> dir \<Rightarrow>
    (bundle_apply \<times> string) option \<times> dir" where
  "applyConfigBundle jl cr cm io self now json_text d = (case check_config jl cr cm now (loadMaxSeq d) json_text of
     None \<Rightarrow> (None, d)
   | Some (Inl err) \<Rightarrow> (Some (Rejected, err), d)
   | Some (Inr (h, is)) \<Rightarrow> if target_hit self h then apply_config jl cm io now h is d
       else (case skip_bundle io h d of (r, d) \<Rightarrow> (Some r, d)))"

end
