(* ===== verification/Mgr_Config_Facts.thy ===== *)
theory Mgr_Config_Facts
  imports Mgr_Config
begin

text \<open>
  What the configuration manager promises: items are written only for a fresh bundle that is signed and meant for this
  vehicle, only the fixed files are ever written, and a bundle is never taken twice.
\<close>

subsection \<open>Checked items\<close>

definition item_ok :: "int \<Rightarrow> config_item \<Rightarrow> bool" where
  "item_ok ty i \<longleftrightarrow> check_item_value ty (ci_name i) (ci_value i) = None"

lemma item_ok_name: "item_ok ty i \<Longrightarrow> if ty = 1 then ci_name i \<in> set list_names else ci_name i = ''rule_enable''"
  by (auto simp: item_ok_def check_item_value_def check_list_value_def check_enable_value_def validListName_def
      split: if_split_asm)

lemma read_item_ok: "read_item jl ty it = Some (Inr i) \<Longrightarrow> item_ok ty i"
  by (auto simp: read_item_def bind_eq_Some_conv item_ok_def Let_def split: if_split_asm option.split_asm)

lemma read_items_Cons:
  assumes "read_items jl ty (it # its) = Some (Inr is)"
  obtains i is' where "read_item jl ty it = Some (Inr i)" "read_items jl ty its = Some (Inr is')" "is = i # is'"
proof -
  obtain i where i: "read_item jl ty it = Some (Inr i)" using assms by (auto split: option.split_asm sum.split_asm)
  obtain r where r: "read_items jl ty its = Some r" using assms i by auto
  show thesis using assms i r that by (cases r) auto
qed

lemma read_items_ok: "read_items jl ty its = Some (Inr is) \<Longrightarrow> \<forall>i \<in> set is. item_ok ty i"
proof (induction its arbitrary: "is")
  case (Cons it its)
  from Cons.prems obtain i is' where "read_item jl ty it = Some (Inr i)" "read_items jl ty its = Some (Inr is')" "is = i # is'"
    by (rule read_items_Cons)
  then show ?case using Cons.IH read_item_ok by simp
qed simp

definition item_files :: "string list" where
  "item_files = ''current/rule_enable.json'' # map list_file list_names"

lemma item_file_in: "item_ok ty i \<Longrightarrow> item_file ty i \<in> set item_files"
  by (drule item_ok_name) (auto simp: item_file_def item_files_def split: if_split_asm)

definition config_files :: "string list" where
  "config_files = item_files @ map (\<lambda>f. f @ ''.tmp'') item_files @
     [''audit.log'', versions_file, versions_file @ ''.tmp'', ''max_seq'', ''max_seq.tmp'']"

lemma item_file_names:
  assumes "f \<in> set item_files"
  shows "f \<in> set config_files" "f @ ''.tmp'' \<in> set config_files" "f \<noteq> ''audit.log''" "f \<noteq> versions_file" "f \<noteq> versions_file @ ''.tmp''"
    "f \<noteq> ''max_seq''" "f \<noteq> ''max_seq.tmp''" "f @ ''.tmp'' \<noteq> ''max_seq''"
    and "g \<in> set item_files \<Longrightarrow> f \<noteq> g @ ''.tmp''"
  using assms by (auto simp: item_files_def list_file_def list_names_def versions_file_def config_files_def)

definition config_checked :: "json_lib \<Rightarrow> 'k crypto \<Rightarrow> config_manager \<Rightarrow> int \<Rightarrow> int \<Rightarrow> string \<Rightarrow> bundle_head \<Rightarrow>
    config_item list \<Rightarrow> bool" where
  "config_checked jl cr cm now max_seq json_text h is \<longleftrightarrow> max_seq < b_seq h \<and>
     b_issued_at h \<le> now + kClockSkewToleranceSec \<and> now - kClockSkewToleranceSec \<le> b_expires_at h \<and>
     signed_by cr (cm_pubkey_b64 cm) (canonicalConfigBytes h (item_lines is)) h \<and> (\<forall>i \<in> set is. item_ok (b_type h) i) \<and>
     (\<exists>j its. jl_parse jl json_text = Inr j \<and> read_config_head j = Some (Inr h) \<and> j_at j ''items'' = Some its \<and>
        read_items jl (b_type h) (j_elems its) = Some (Inr is))"

lemma read_config_head_range: "read_config_head j = Some (Inr h) \<Longrightarrow> - (2 ^ 63) \<le> b_seq h \<and> b_seq h < 2 ^ 63"
  by (auto simp: read_config_head_def bind_eq_Some_conv dest!: read_head_range split: option.splits if_splits)

lemma check_config_ok:
  assumes "check_config jl cr cm now m json_text = Some (Inr (h, is))"
  shows "config_checked jl cr cm now m json_text h is"
proof -
  obtain j where p: "jl_parse jl json_text = Inr j" using assms by (cases "jl_parse jl json_text") (simp_all add: check_config_def)
  obtain q where q: "read_config_head j = Some q" using assms p by (cases "read_config_head j") (simp_all add: check_config_def)
  obtain h' where h': "q = Inr h'" using assms p q by (cases q) (simp_all add: check_config_def)
  obtain its r where r: "j_at j ''items'' = Some its" "read_items jl (b_type h') (j_elems its) = Some r"
    using assms p q h' by (auto simp: check_config_def bind_eq_Some_conv)
  have "check_fresh now m h = None \<and> h' = h \<and> r = Inr is \<and>
      check_signer ''config'' cr (cm_pubkey_b64 cm) (canonicalConfigBytes h (item_lines is)) h = None"
    using assms p q h' r by (cases r) (auto simp: check_config_def split: option.split_asm)
  then have fr: "check_fresh now m h = None" and h: "h' = h" and iss: "r = Inr is"
    and sg: "check_signer ''config'' cr (cm_pubkey_b64 cm) (canonicalConfigBytes h (item_lines is)) h = None" by blast+
  have rd: "read_items jl (b_type h) (j_elems its) = Some (Inr is)" using r h iss by simp
  show ?thesis using p q h' h r(1) rd check_fresh_None [OF fr] check_signer_None [OF sg] read_items_ok [OF rd]
    unfolding config_checked_def by blast
qed

lemma config_checked_range: "config_checked jl cr cm now m json_text h is \<Longrightarrow> - (2 ^ 63) \<le> b_seq h \<and> b_seq h < 2 ^ 63"
  unfolding config_checked_def using read_config_head_range by blast

lemma applyConfigBundle_cases:
  assumes "applyConfigBundle jl cr cm io self now json_text d = (r, d')"
  obtains (refused) "\<forall>a err. r = Some (a, err) \<longrightarrow> a = Rejected" "d' = d"
  | (apply_it) h "is" where "config_checked jl cr cm now (loadMaxSeq d) json_text h is" "target_hit self h"
      "apply_config jl cm io now h is d = (r, d')"
  | (skip) h "is" s where "config_checked jl cr cm now (loadMaxSeq d) json_text h is" "\<not> target_hit self h"
      "skip_bundle io h d = (s, d')" "r = Some s"
proof (cases "check_config jl cr cm now (loadMaxSeq d) json_text")
  case None
  then show thesis using assms refused by (simp add: applyConfigBundle_def)
next
  case (Some c)
  show thesis
  proof (cases c)
    case (Inl err)
    then show ?thesis using assms Some refused by (auto simp: applyConfigBundle_def)
  next
    case (Inr p)
    obtain h "is" where p: "c = Inr (h, is)" using Inr by (cases p) simp
    have k: "config_checked jl cr cm now (loadMaxSeq d) json_text h is" using Some p check_config_ok by blast
    show ?thesis using assms Some p apply_it [OF k] skip [OF k]
      by (cases "target_hit self h") (auto simp: applyConfigBundle_def split: prod.split_asm)
  qed
qed

subsection \<open>What is written\<close>

lemma atomicWrite_ok:
  assumes "atomicWrite cm io a content d = (None, d')"
  shows "d' a = Some (NFile content)" "x \<noteq> a \<Longrightarrow> x \<noteq> a @ ''.tmp'' \<Longrightarrow> d' x = d x"
  using replace_file_ok [OF assms [unfolded atomicWrite_def Let_def]] by simp_all

lemma atomicWrite_other: "atomicWrite cm io a content d = (r, d') \<Longrightarrow> x \<noteq> a \<Longrightarrow> x \<noteq> a @ ''.tmp'' \<Longrightarrow> d' x = d x"
  unfolding atomicWrite_def Let_def by (rule replace_file_other)

lemma appendAudit_other [simp]: "x \<noteq> ''audit.log'' \<Longrightarrow> appendAudit io l d x = d x"
  by (simp add: appendAudit_def)

text \<open>The files that a list of items leaves behind; a later item replaces an earlier one.\<close>

definition landed_files :: "json_lib \<Rightarrow> int \<Rightarrow> config_item list \<Rightarrow> string \<rightharpoonup> string" where
  "landed_files jl ty is = map_of (rev (map (\<lambda>i. (item_file ty i, item_text jl ty i)) is))"

lemma landed_Cons: "landed_files jl ty (i # is) f =
    (case landed_files jl ty is f of None \<Rightarrow> if f = item_file ty i then Some (item_text jl ty i) else None | Some c \<Rightarrow> Some c)"
  by (auto simp: landed_files_def map_add_def split: option.splits)

lemma landed_None: "f \<notin> item_file ty ` set is \<Longrightarrow> landed_files jl ty is f = None"
  by (auto simp: landed_files_def map_of_eq_None_iff)

lemma land_items_other:
  "land_items jl cm io now h is versions d = (r, d') \<Longrightarrow> \<forall>i \<in> set is. item_ok (b_type h) i \<Longrightarrow> x \<noteq> ''audit.log'' \<Longrightarrow>
    x \<notin> set item_files \<Longrightarrow> \<forall>f \<in> set item_files. x \<noteq> f @ ''.tmp'' \<Longrightarrow> d' x = d x"
proof (induction jl cm io now h "is" versions d rule: land_items.induct)
  case (2 jl cm io now h i "is" versions d)
  obtain e d1 where w: "atomicWrite cm io (item_file (b_type h) i) (item_text jl (b_type h) i) d = (e, d1)" by fastforce
  have f: "item_file (b_type h) i \<in> set item_files" using 2(3) by (simp add: item_file_in)
  have "x \<noteq> item_file (b_type h) i" "x \<noteq> item_file (b_type h) i @ ''.tmp''" using f 2(5,6) by blast+
  from atomicWrite_other [OF w this] have d1: "d1 x = d x" .
  show ?case
  proof (cases e)
    case (Some err)
    then show ?thesis using 2(2) w d1 by simp
  next
    case None
    show ?thesis
    proof (cases "j_put versions (ci_name i) (JString (ci_version i))")
      case None
      then show ?thesis using 2(2) w \<open>e = None\<close> d1 by simp
    next
      case (Some v)
      then show ?thesis using 2(1) [OF w [symmetric, unfolded \<open>e = None\<close>] refl Some] 2(2-) w \<open>e = None\<close> d1 by simp
    qed
  qed
qed simp

lemma land_items_ok:
  "land_items jl cm io now h is versions d = (Landed v, d') \<Longrightarrow> \<forall>i \<in> set is. item_ok (b_type h) i \<Longrightarrow>
    f \<in> set item_files \<Longrightarrow> d' f = (case landed_files jl (b_type h) is f of None \<Rightarrow> d f | Some c \<Rightarrow> Some (NFile c))"
proof (induction jl cm io now h "is" versions d rule: land_items.induct)
  case (1 jl cm io now h versions d)
  then show ?case by (simp add: landed_files_def)
next
  case (2 jl cm io now h i "is" versions d)
  obtain e d1 where w: "atomicWrite cm io (item_file (b_type h) i) (item_text jl (b_type h) i) d = (e, d1)" by fastforce
  have e: "e = None" using 2(2) w by (cases e) simp_all
  obtain u where u: "j_put versions (ci_name i) (JString (ci_version i)) = Some u"
    using 2(2) w e by (cases "j_put versions (ci_name i) (JString (ci_version i))") simp_all
  let ?a = "appendAudit io (jl_dump jl (audit_entry now h i)) d1"
  have IH: "d' f = (case landed_files jl (b_type h) is f of None \<Rightarrow> ?a f | Some c \<Rightarrow> Some (NFile c))"
    using 2(1) [OF w [symmetric, unfolded e] refl u] 2(2-) w e u by simp
  note w' = atomicWrite_ok [OF w [unfolded e]]
  have a: "?a f = d1 f" using item_file_names(3) [OF 2(4)] by simp
  show ?case
  proof (cases "f = item_file (b_type h) i")
    case True
    then show ?thesis using IH a w'(1) by (simp add: landed_Cons split: option.splits)
  next
    case False
    have "f \<noteq> item_file (b_type h) i @ ''.tmp''" using item_file_names(9) [OF 2(4) item_file_in] 2(3) by simp
    then show ?thesis using IH a w'(2) [OF False] False by (simp add: landed_Cons split: option.splits)
  qed
qed

lemma config_files_iff: "x \<notin> set config_files \<longleftrightarrow> x \<notin> set item_files \<and> (\<forall>f \<in> set item_files. x \<noteq> f @ ''.tmp'') \<and>
    x \<noteq> ''audit.log'' \<and> x \<noteq> versions_file \<and> x \<noteq> versions_file @ ''.tmp'' \<and> x \<noteq> ''max_seq'' \<and> x \<noteq> ''max_seq.tmp''"
  by (auto simp: config_files_def)

text \<open>The three ways in which the writing of a bundle goes.\<close>

lemma apply_config_cases:
  assumes "apply_config jl cm io now h is d = (r, d')"
  obtains (early) l where "land_items jl cm io now h is (old_versions jl d) d = (l, d')" "\<forall>a err. r = Some (a, err) \<longrightarrow> a = Rejected"
  | (versions) v d1 err where "land_items jl cm io now h is (old_versions jl d) d = (Landed v, d1)"
      "atomicWrite cm io versions_file (jl_pretty jl 1 v @ nl) d1 = (Some err, d')" "r = Some (Rejected, err)"
  | (num) v d1 d2 e where "land_items jl cm io now h is (old_versions jl d) d = (Landed v, d1)"
      "atomicWrite cm io versions_file (jl_pretty jl 1 v @ nl) d1 = (None, d2)" "storeMaxSeq io (b_seq h) d2 = (e, d')"
      "\<forall>err. e = Some err \<longrightarrow> r = Some (Rejected, err)" "\<forall>err. r \<noteq> Some (Skipped, err)"
proof -
  obtain l d1 where l: "land_items jl cm io now h is (old_versions jl d) d = (l, d1)" by fastforce
  show thesis
  proof (cases l)
    case (Landed v)
    obtain e d2 where w: "atomicWrite cm io versions_file (jl_pretty jl 1 v @ nl) d1 = (e, d2)" by fastforce
    show ?thesis
    proof (cases e)
      case (Some err)
      then show ?thesis using assms l w Landed versions by (simp add: apply_config_def)
    next
      case None
      obtain e3 d3 where st: "storeMaxSeq io (b_seq h) d2 = (e3, d3)" by fastforce
      show ?thesis using assms l w st Landed None num [of v d1 d2 e3]
        by (auto simp: apply_config_def split: option.split_asm)
    qed
  qed (use assms l early [of l] in \<open>auto simp: apply_config_def\<close>)
qed

lemma apply_config_other:
  assumes "apply_config jl cm io now h is d = (r, d')" "\<forall>i \<in> set is. item_ok (b_type h) i" "x \<notin> set config_files"
  shows "d' x = d x"
proof -
  have x: "x \<noteq> ''audit.log''" "x \<notin> set item_files" "\<forall>f \<in> set item_files. x \<noteq> f @ ''.tmp''" "x \<noteq> versions_file"
    "x \<noteq> versions_file @ ''.tmp''" "x \<noteq> ''max_seq''" "x \<noteq> ''max_seq.tmp''"
    using assms(3) unfolding config_files_iff by blast+
  from assms(1) show ?thesis
  proof (cases rule: apply_config_cases)
    case (early l)
    show ?thesis by (rule land_items_other [OF early(1) assms(2) x(1-3)])
  next
    case (versions v d1 err)
    show ?thesis using land_items_other [OF versions(1) assms(2) x(1-3)] atomicWrite_other [OF versions(2) x(4,5)] by simp
  next
    case (num v d1 d2 e)
    show ?thesis using land_items_other [OF num(1) assms(2) x(1-3)] atomicWrite_other [OF num(2) x(4,5)]
        storeMaxSeq_other [OF num(3) x(6,7)] by simp
  qed
qed

lemma skip_bundle_other: "skip_bundle io h d = (r, d') \<Longrightarrow> x \<noteq> ''max_seq'' \<Longrightarrow> x \<noteq> ''max_seq.tmp'' \<Longrightarrow> d' x = d x"
  by (auto simp: skip_bundle_def dest: storeMaxSeq_other split: prod.split_asm option.split_asm)

text \<open>
  C16: whatever text arrives, signed or not, and whatever becomes of it, the configuration manager changes nothing but its
  fixed files: the item files, the versions, the audit log, the stored number and their temporary files.
\<close>

theorem config_touches_only_its_files:
  assumes "applyConfigBundle jl cr cm io self now json_text d = (r, d')" "x \<notin> set config_files"
  shows "d' x = d x"
  using assms(1)
proof (cases rule: applyConfigBundle_cases)
  case (apply_it h "is")
  then show ?thesis using apply_config_other [OF apply_it(3) _ assms(2)] by (simp add: config_checked_def)
next
  case (skip h "is" s)
  then show ?thesis using skip_bundle_other [OF skip(3), of x] assms(2) unfolding config_files_iff by blast
qed simp

lemma item_file_seq: "\<forall>f \<in> set item_files. ''max_seq'' \<noteq> f @ ''.tmp''" "''max_seq'' \<notin> set item_files"
  using item_file_names by metis+

lemma apply_config_seq:
  assumes "apply_config jl cm io now h is d = (r, d')" "\<forall>i \<in> set is. item_ok (b_type h) i" "loadMaxSeq d < b_seq h"
    "- (2 ^ 63) \<le> b_seq h" "b_seq h < 2 ^ 63"
  shows "loadMaxSeq d \<le> loadMaxSeq d'" "r = Some (Applied, err) \<Longrightarrow> loadMaxSeq d' = b_seq h" "r \<noteq> Some (Skipped, err)"
proof -
  have land: "loadMaxSeq d1 = loadMaxSeq d" if "land_items jl cm io now h is (old_versions jl d) d = (l, d1)" for l d1
    using land_items_other [OF that assms(2) _ item_file_seq(2,1)] by (intro load_max_seq_cong) simp
  have vers: "loadMaxSeq d2 = loadMaxSeq d1" if "atomicWrite cm io versions_file c d1 = (e, d2)" for e c d1 d2
    using atomicWrite_other [OF that, of "''max_seq''"] by (intro load_max_seq_cong) (simp add: versions_file_def)
  have "loadMaxSeq d \<le> loadMaxSeq d' \<and> (r = Some (Applied, err) \<longrightarrow> loadMaxSeq d' = b_seq h) \<and> r \<noteq> Some (Skipped, err)"
    using assms(1)
  proof (cases rule: apply_config_cases)
    case (early l)
    then show ?thesis using land by auto
  next
    case (versions v d1 e)
    then show ?thesis using land [OF versions(1)] vers [OF versions(2)] by simp
  next
    case (num v d1 d2 e)
    show ?thesis
    proof (cases e)
      case None
      then show ?thesis using storeMaxSeq_ok(1) [OF num(3) [unfolded None] assms(4,5)] assms(3) num(5) by simp
    next
      case (Some err)
      have "d' ''max_seq'' = d2 ''max_seq''" by (rule storeMaxSeq_err [OF num(3) [unfolded Some]]) simp
      then show ?thesis using land [OF num(1)] vers [OF num(2)] load_max_seq_cong [of d' d2] num(4) Some by simp
    qed
  qed
  then show "loadMaxSeq d \<le> loadMaxSeq d'" "r = Some (Applied, err) \<Longrightarrow> loadMaxSeq d' = b_seq h" "r \<noteq> Some (Skipped, err)" by auto
qed

text \<open>
  C15: a configuration is applied only for a bundle that passed every check. Then the stored number is that of the bundle, and
  the files of its items hold exactly the text of the last item of that name, while the other item files are unchanged.
\<close>

theorem config_applied_only_if_signed:
  assumes "applyConfigBundle jl cr cm io self now json_text d = (Some (Applied, err), d')"
  shows "\<exists>h is. config_checked jl cr cm now (loadMaxSeq d) json_text h is \<and> target_hit self h \<and> loadMaxSeq d' = b_seq h \<and>
    (\<forall>f \<in> set item_files. d' f = (case landed_files jl (b_type h) is f of None \<Rightarrow> d f | Some c \<Rightarrow> Some (NFile c)))"
  using assms
proof (cases rule: applyConfigBundle_cases)
  case (apply_it h "is")
  have ok: "\<forall>i \<in> set is. item_ok (b_type h) i" and new: "loadMaxSeq d < b_seq h" using apply_it(1) by (simp_all add: config_checked_def)
  have seq: "loadMaxSeq d' = b_seq h"
    by (rule apply_config_seq(2) [OF apply_it(3) ok new _ _ refl]) (use config_checked_range [OF apply_it(1)] in simp_all)
  have "d' f = (case landed_files jl (b_type h) is f of None \<Rightarrow> d f | Some c \<Rightarrow> Some (NFile c))" if f: "f \<in> set item_files" for f
    using apply_it(3)
  proof (cases rule: apply_config_cases)
    case (num v d1 d2 e)
    show ?thesis using land_items_ok [OF num(1) ok f] atomicWrite_other [OF num(2) item_file_names(4,5) [OF f]]
        storeMaxSeq_other [OF num(3) item_file_names(6,7) [OF f]] by simp
  qed simp_all
  then show ?thesis using apply_it(1,2) seq by blast
next
  case (skip h "is" s)
  then show ?thesis using skip_not_Applied by blast
qed simp

subsection \<open>Ascending numbers\<close>

definition config_receive :: "json_lib \<Rightarrow> 'k crypto \<Rightarrow> config_manager \<Rightarrow> disk_io \<times> identity \<times> int \<Rightarrow> string \<Rightarrow> dir \<Rightarrow> bool \<times> dir" where
  "config_receive jl cr cm e json_text d = (case e of (io, self, now) \<Rightarrow>
     (case applyConfigBundle jl cr cm io self now json_text d of
        (None, d') \<Rightarrow> (False, d') | (Some (r, err), d') \<Rightarrow> (r \<noteq> Rejected, d')))"

definition config_seq :: "json_lib \<Rightarrow> string \<Rightarrow> int" where
  "config_seq jl json_text = (case jl_parse jl json_text of
     Inr j \<Rightarrow> (case read_config_head j of Some (Inr h) \<Rightarrow> b_seq h | _ \<Rightarrow> 0) | Inl _ \<Rightarrow> 0)"

lemma config_checked_seq: "config_checked jl cr cm now m json_text h is \<Longrightarrow> config_seq jl json_text = b_seq h \<and> m < b_seq h"
  by (auto simp: config_checked_def config_seq_def)

lemma config_receive_guard:
  assumes "config_receive jl cr cm e json_text d = (t, d')"
  shows "loadMaxSeq d \<le> loadMaxSeq d'" and "t \<Longrightarrow> loadMaxSeq d < config_seq jl json_text \<and> loadMaxSeq d' = config_seq jl json_text"
proof -
  obtain io self now where e: "e = (io, self, now)" by (cases e)
  obtain r where r: "applyConfigBundle jl cr cm io self now json_text d = (r, d')"
    and t: "t = (\<exists>a err. r = Some (a, err) \<and> a \<noteq> Rejected)"
    using assms e by (auto simp: config_receive_def split: prod.split_asm option.split_asm)
  have "loadMaxSeq d \<le> loadMaxSeq d' \<and> (t \<longrightarrow> loadMaxSeq d < config_seq jl json_text \<and> loadMaxSeq d' = config_seq jl json_text)"
    using r
  proof (cases rule: applyConfigBundle_cases)
    case refused
    then show ?thesis using t by auto
  next
    case (apply_it h "is")
    have ok: "\<forall>i \<in> set is. item_ok (b_type h) i" using apply_it(1) by (simp add: config_checked_def)
    have k: "config_seq jl json_text = b_seq h" "loadMaxSeq d < b_seq h" "- (2 ^ 63) \<le> b_seq h" "b_seq h < 2 ^ 63"
      using config_checked_seq [OF apply_it(1)] config_checked_range [OF apply_it(1)] by simp_all
    note s = apply_config_seq [OF apply_it(3) ok k(2-4)]
    have "r = Some (Applied, err)" if "r = Some (a, err)" "a \<noteq> Rejected" for a err using s(3) [of err] that by (cases a) simp_all
    then show ?thesis using s(1,2) t k by auto
  next
    case (skip h "is" q)
    have k: "config_seq jl json_text = b_seq h" "loadMaxSeq d < b_seq h" "- (2 ^ 63) \<le> b_seq h" "b_seq h < 2 ^ 63"
      using config_checked_seq [OF skip(1)] config_checked_range [OF skip(1)] by simp_all
    have "loadMaxSeq d' = b_seq h" if "q = (a, err)" "a \<noteq> Rejected" for a err
    proof -
      have "a = Skipped" using skip_not_Applied skip(3) that by (cases a) auto
      then show ?thesis using skip_bundle_Skipped [OF _ k(3,4)] skip(3) that(1) by blast
    qed
    then show ?thesis using skip_bundle_seq [OF skip(3) k(3,4,2)] t k skip(4) by auto
  qed
  then show "loadMaxSeq d \<le> loadMaxSeq d'" "t \<Longrightarrow> loadMaxSeq d < config_seq jl json_text \<and> loadMaxSeq d' = config_seq jl json_text"
    by auto
qed

interpretation config_guard: seq_guarded "config_receive jl cr cm" loadMaxSeq "config_seq jl" "\<lambda>_. True"
  for jl and cr :: "'k crypto" and cm
  by unfold_locales (rule config_receive_guard(2) [OF _ TrueI] config_receive_guard(1), assumption)+

theorem config_numbers_ascend:
  "sorted_wrt (\<lambda>t t'. config_seq jl t < config_seq jl t') (taken_messages (config_receive jl cr cm) as d)"
  by (rule config_guard.ascending) simp

subsection \<open>An example\<close>

definition demo_config_head :: bundle_head where
  "demo_config_head = \<lparr> b_seq = 7, b_tenant = ''acme'', b_version = ''v2'', b_rollback = False, b_ecu = ''all'', b_node = ''all'',
     b_vmodel = ''all'', b_issued_at = 0, b_expires_at = 10, b_type = 1, b_pubkey_id = hex_text (replicate 8 0),
     b_signature = ''AAAA'' \<rparr>"

definition demo_item :: config_item where
  "demo_item = \<lparr> ci_line = item_line ''fw_port_w_list'' ''{}'', ci_name = ''fw_port_w_list'', ci_value = JArray [JString ''80''],
     ci_version = ''1'' \<rparr>"

definition demo_items_json :: json where
  "demo_items_json = JArray [item_json ''fw_port_w_list'' (JArray [JString ''80'']) ''1'']"

definition demo_config_json :: json where
  "demo_config_json = JObject [(''msg_type'', JString ''config_update''), (''manufacturer'', JString ''acme''), (''seq'', JNum 7),
     (''version'', JString ''v2''), (''rollback'', JBool False),
     (''target'', JObject [(''ecu'', JString ''all''), (''nodeType'', JString ''all''), (''vmodel'', JString ''all'')]),
     (''config_type'', JNum 1), (''issued_at'', JNum 0), (''expires_at'', JNum 10), (''sig_alg'', JString ''Ed25519''),
     (''pubkey_id'', JString (hex_text (replicate 8 0))), (''signature'', JString ''AAAA''), (''items'', demo_items_json)]"

definition demo_json_lib :: json_lib where
  "demo_json_lib = \<lparr> jl_parse = (\<lambda>s. if s = ''bundle'' then Inr demo_config_json else Inl ''bad''), jl_read = (\<lambda>_. None),
     jl_dump = (\<lambda>_. ''{}''), jl_pretty = (\<lambda>_ _. ''{}'') \<rparr>"

definition demo_cm :: config_manager where
  "demo_cm = \<lparr> cm_config_dir = ''/etc'', cm_reload_cmd = [], cm_pubkey_b64 = ''AAAA'' \<rparr>"

lemma demo_config_head: "read_config_head demo_config_json = Some (Inr demo_config_head)"
  by (simp add: read_config_head_def demo_config_json_def missing_key_def config_keys_def j_contains_def j_get_def j_at_def
      get_string_def get_i64_def get_i32_def get_num_def get_bool_def read_head_def j_text_def demo_config_head_def
      check_config_form_def validVersionName_def version_char_def Let_def is_array_def j_empty_def j_elems_def target_missing_def
      is_string_def signed_take_bit_int_eq_self demo_items_json_def)

lemma demo_read_items: "read_items demo_json_lib 1 (j_elems demo_items_json) = Some (Inr [demo_item])"
  by (simp add: demo_items_json_def j_elems_def read_item_def item_json_def is_object_def missing_key_def j_contains_def j_get_def
      j_at_def get_string_def isAsciiPrintable_def check_item_value_def check_list_value_def validListName_def list_names_def
      is_array_def printable_entry_def demo_json_lib_def demo_item_def Let_def)

lemma demo_config_signer: "check_signer ''config'' demo_crypto ''AAAA'' c demo_config_head = None"
  by (simp add: check_signer_def verifySignature_def configuredPubkeyId_def configured_key_def demo_crypto_def demo_config_head_def
      b64_bytes_def b64_val_def Let_def) (simp add: hex_text_def)

lemma demo_config_checks: "check_config demo_json_lib demo_crypto demo_cm 0 0 ''bundle'' = Some (Inr (demo_config_head, [demo_item]))"
proof -
  have "jl_parse demo_json_lib ''bundle'' = Inr demo_config_json" by (simp add: demo_json_lib_def)
  moreover have "j_at demo_config_json ''items'' = Some demo_items_json" by (simp add: demo_config_json_def j_at_def)
  moreover have "b_type demo_config_head = 1" by (simp add: demo_config_head_def)
  moreover have "check_fresh 0 0 demo_config_head = None"
    by (simp add: demo_config_head_def check_fresh_def kClockSkewToleranceSec_def)
  moreover have "cm_pubkey_b64 demo_cm = ''AAAA''" by (simp add: demo_cm_def)
  ultimately show ?thesis by (simp add: check_config_def demo_config_head demo_read_items demo_config_signer)
qed

lemma demo_config_applied: "\<exists>d'. applyConfigBundle demo_json_lib demo_crypto demo_cm demo_io demo_self 0 ''bundle'' Map.empty =
    (Some (Applied, []), d')"
proof -
  have hit: "target_hit demo_self demo_config_head"
    by (simp add: target_hit_def targetMatches_def toLower_def demo_config_head_def lower_def Let_def)
  have "\<exists>d'. apply_config demo_json_lib demo_cm demo_io 0 demo_config_head [demo_item] Map.empty = (Some (Applied, []), d')"
    by (simp add: apply_config_def old_versions_def atomicWrite_def replace_file_def is_dir_def demo_io_def rename_if_def rename_def
        Let_def item_file_def demo_config_head_def demo_item_def list_file_def j_put_def appendAudit_def versions_file_def
        storeMaxSeq_def runReload_def demo_cm_def)
  then show ?thesis by (simp add: applyConfigBundle_def loadMaxSeq_def demo_config_checks hit)
qed

theorem config_applied_only_if_signed_witness:
  "\<exists>h is. config_checked demo_json_lib demo_crypto demo_cm 0 0 ''bundle'' h is \<and> target_hit demo_self h"
proof -
  obtain d' where d': "applyConfigBundle demo_json_lib demo_crypto demo_cm demo_io demo_self 0 ''bundle'' Map.empty =
    (Some (Applied, []), d')" using demo_config_applied by blast
  from config_applied_only_if_signed [OF d'] show ?thesis by (auto simp: loadMaxSeq_def)
qed

theorem config_touches_only_its_files_witness:
  "snd (applyConfigBundle demo_json_lib demo_crypto demo_cm demo_io demo_self 0 ''bundle'' Map.empty) ''passwd'' = None"
proof -
  obtain r d' where d': "applyConfigBundle demo_json_lib demo_crypto demo_cm demo_io demo_self 0 ''bundle'' Map.empty = (r, d')"
    by fastforce
  have "''passwd'' \<notin> set config_files"
    by (simp add: config_files_def item_files_def list_file_def list_names_def versions_file_def)
  from config_touches_only_its_files [OF d' this] show ?thesis by (simp add: d')
qed

subsection \<open>What the signature does not bind\<close>

text \<open>
  The lines of the items are sorted before they are signed, and the items are written in the order of the bundle: two items
  of one name can be exchanged under the same signature, and the last one stays.
\<close>

lemma item_order_unsigned: "canonicalConfigBytes h (item_lines [i, j]) = canonicalConfigBytes h (item_lines [j, i])"
  using linear [of "ci_line i" "ci_line j"] by (auto simp: item_lines_def)

lemma last_item_stays: "item_file ty i = item_file ty j \<Longrightarrow> landed_files jl ty [i, j] (item_file ty j) = Some (item_text jl ty j)"
  by (simp add: landed_files_def)

text \<open>A write that fails leaves the items before it in place, although the bundle is rejected.\<close>

lemma landing_not_atomic:
  assumes "land_items jl cm io now h [i] v d = (Landed v', d1)"
    and "atomicWrite cm io (item_file (b_type h) j) (item_text jl (b_type h) j) d1 = (Some err, d2)"
  shows "land_items jl cm io now h [i, j] v d = (Failed err, d2)"
  using assms by (auto split: prod.split_asm option.split_asm)

end
