(* ===== verification/Mgr_Queue.thy ===== *)
theory Mgr_Queue
  imports Mgr_Canonical
begin

text \<open>
  The connection of a probe (\<open>linux/idsm_managerd/socket_server.cpp\<close>), which cuts its stream into lines, and the queue of alert
  lines in a file with a cursor (\<open>alert_queue.cpp\<close>).
\<close>

subsection \<open>Lines of a connection\<close>

text \<open>The complete lines of the pending text, empty ones left out, and the rest.\<close>

fun cut_lines :: "string \<Rightarrow> string \<Rightarrow> string list \<times> string" where
  "cut_lines acc [] = ([], acc)"
| "cut_lines acc (c # s) = (if c = CHR 0x0A
     then (case cut_lines [] s of (ls, r) \<Rightarrow> (if acc = [] then ls else acc # ls, r))
     else cut_lines (acc @ [c]) s)"

text \<open>\<open>handleConn\<close>: the lines handed to the callback for what the reads return, until the peer closes.\<close>

fun handleConn :: "string \<Rightarrow> string list \<Rightarrow> string list" where
  "handleConn p [] = (if p = [] then [] else [p])"
| "handleConn p (c # cs) = (case cut_lines [] (p @ c) of (ls, r) \<Rightarrow>
     ls @ (if length r > 2 ^ 20 then [r] else handleConn r cs))"

subsection \<open>The queue\<close>

text \<open>The two files, and the members that a restart loses.\<close>

record alert_queue =
  aq_file :: string
  aq_saved :: "string option"
  aq_open :: bool
  aq_cursor :: nat
  aq_pending_end :: nat

definition queue_new :: alert_queue where
  "queue_new = \<lparr> aq_file = [], aq_saved = None, aq_open = False, aq_cursor = 0, aq_pending_end = 0 \<rparr>"

definition loadCursor :: "alert_queue \<Rightarrow> nat option" where
  "loadCursor q = Option.bind (aq_saved q) (\<lambda>s. map_option (\<lambda>(v, _). unat v) (c_strtoul 10 s))"

text \<open>\<open>ok\<close> tells whether the temporary file could be written and renamed.\<close>

definition saveCursor :: "bool \<Rightarrow> alert_queue \<Rightarrow> alert_queue" where
  "saveCursor ok q = (if ok then q\<lparr>aq_saved := Some (dec (aq_cursor q))\<rparr> else q)"

text \<open>\<open>open\<close> of a new process on the files; \<open>sized\<close> tells whether the size could be read.\<close>

definition queue_open :: "bool \<Rightarrow> alert_queue \<Rightarrow> alert_queue" where
  "queue_open sized q = (let c = (case loadCursor q of None \<Rightarrow> 0 | Some v \<Rightarrow> v) in
     q\<lparr>aq_open := True, aq_cursor := (if sized \<and> length (aq_file q) < c then 0 else c), aq_pending_end := 0\<rparr>)"

text \<open>
  \<open>write\<close> tells what of the line reached the file and whether all steps succeeded. An empty line has no last character
  and is undefined.
\<close>

definition queue_append :: "(string \<Rightarrow> string \<times> bool) \<Rightarrow> string \<Rightarrow> alert_queue \<Rightarrow> (bool \<times> alert_queue) option" where
  "queue_append write raw q = (if \<not> aq_open q then Some (False, q)
     else if raw = [] then None
     else case write (if last raw = CHR 0x0A then raw else raw @ nl) of (out, ok) \<Rightarrow>
       Some (ok, q\<lparr>aq_file := aq_file q @ out\<rparr>))"

text \<open>The lines that \<open>getline\<close> reads, each with its newline; the last one may lack it.\<close>

fun raw_lines :: "string \<Rightarrow> string list" where
  "raw_lines [] = []"
| "raw_lines (c # s) = (if c = CHR 0x0A then [c] # raw_lines s
     else case raw_lines s of [] \<Rightarrow> [[c]] | l # ls \<Rightarrow> (c # l) # ls)"

text \<open>The batch and the number of bytes it advances. A line is read as a C string, so it ends at a zero byte.\<close>

fun take_batch :: "nat \<Rightarrow> string list \<Rightarrow> string list \<times> nat" where
  "take_batch 0 _ = ([], 0)"
| "take_batch (Suc n) [] = ([], 0)"
| "take_batch (Suc n) (raw # raws) = (let buf = c_str raw;
     line = (if buf \<noteq> [] \<and> last buf = CHR 0x0A then butlast buf else buf) in
     case take_batch (if line = [] then Suc n else n) raws of (ls, k) \<Rightarrow>
       (if line = [] then ls else line # ls, length buf + k))"

text \<open>\<open>readable\<close>: the file could be flushed, opened and positioned.\<close>

definition queue_pending :: "bool \<Rightarrow> nat \<Rightarrow> alert_queue \<Rightarrow> string list \<times> alert_queue" where
  "queue_pending readable cap q = (if \<not> aq_open q \<or> cap = 0 \<or> \<not> readable then ([], q)
     else case take_batch cap (raw_lines (drop (aq_cursor q) (aq_file q))) of (ls, k) \<Rightarrow>
       (ls, q\<lparr>aq_pending_end := aq_cursor q + k\<rparr>))"

definition compactIfDrained :: "bool \<Rightarrow> bool \<Rightarrow> alert_queue \<Rightarrow> alert_queue" where
  "compactIfDrained truncated save_ok q = (if aq_open q \<and> length (aq_file q) = aq_cursor q \<and> aq_cursor q > 0 \<and> truncated
     then saveCursor save_ok (q\<lparr>aq_file := [], aq_cursor := 0\<rparr>) else q)"

definition markUploaded :: "bool \<Rightarrow> bool \<Rightarrow> bool \<Rightarrow> alert_queue \<Rightarrow> bool \<times> alert_queue" where
  "markUploaded save_ok truncated resave_ok q = (if aq_pending_end q < aq_cursor q then (False, q)
     else (save_ok, compactIfDrained truncated resave_ok
       (saveCursor save_ok (q\<lparr>aq_cursor := aq_pending_end q, aq_pending_end := 0\<rparr>))))"

definition backlog :: "alert_queue \<Rightarrow> nat" where
  "backlog q = (if aq_open q \<and> length (aq_file q) > aq_cursor q then (length (aq_file q) - aq_cursor q) div 128 + 1 else 0)"

subsection \<open>Uses of a queue\<close>

text \<open>
  What happens to a queue: a line is appended, of which all or nothing reaches the file; a batch is read and marked, or read and
  not marked; the process is started again; or nothing. The result of \<open>queue_step\<close> is the batch that is marked. \<open>Mgr_Channel\<close> relates
  the steps of the daemon to these.
\<close>

datatype queue_op = Append string bool | Take bool bool bool | Defer | Restart bool | Idle

fun queue_step :: "queue_op \<Rightarrow> alert_queue \<Rightarrow> string list \<times> alert_queue" where
  "queue_step (Append l ok) q = (case queue_append (\<lambda>s. if ok then (s, True) else ([], False)) l q of
     None \<Rightarrow> ([], q) | Some (_, q) \<Rightarrow> ([], q))"
| "queue_step (Take save_ok truncated resave_ok) q = (case queue_pending True 64 q of (ls, q) \<Rightarrow>
     if ls = [] then ([], q) else (ls, snd (markUploaded save_ok truncated resave_ok q)))"
| "queue_step Defer q = ([], snd (queue_pending True 64 q))"
| "queue_step (Restart sized) q = ([], queue_open sized q)"
| "queue_step Idle q = ([], q)"

fun queue_run :: "queue_op list \<Rightarrow> alert_queue \<Rightarrow> string list \<times> alert_queue" where
  "queue_run [] q = ([], q)"
| "queue_run (a # as) q = (case queue_step a q of (up, q) \<Rightarrow> case queue_run as q of (ups, q) \<Rightarrow> (up @ ups, q))"

fun appended :: "queue_op list \<Rightarrow> string list" where
  "appended [] = []"
| "appended (Append l ok # as) = (if ok then [l] else []) @ appended as"
| "appended (_ # as) = appended as"

text \<open>The lines behind the cursor.\<close>

definition waiting :: "alert_queue \<Rightarrow> string list" where
  "waiting q = map butlast (raw_lines (drop (aq_cursor q) (aq_file q)))"

end
