(* ===== verification/Mgr_Queue_Facts.thy ===== *)
theory Mgr_Queue_Facts
  imports Mgr_Queue
begin

text \<open>
  A connection hands over the lines of its stream however the reads cut it, and every line of the queue is taken at least
  once, in order, and exactly once when its cursor can always be saved.
\<close>

subsection \<open>Lines of a connection\<close>

definition text_lines :: "string \<Rightarrow> string list" where
  "text_lines s = filter (\<lambda>l. l \<noteq> []) (split_on CHR 0x0A s)"

lemma split_on_not_Nil [simp]: "split_on c s \<noteq> []"
  by (induction c s rule: split_on.induct) (auto split: list.splits)

lemma cut_lines_split: "cut_lines acc s = (let ps = split_on CHR 0x0A s; qs = (acc @ hd ps) # tl ps in
    (filter (\<lambda>l. l \<noteq> []) (butlast qs), last qs))"
proof (induction acc s rule: cut_lines.induct)
  case (2 acc c s)
  obtain t ts where s: "split_on CHR 0x0A s = t # ts" by (cases "split_on CHR 0x0A s") simp_all
  show ?case using 2 s by (cases "c = CHR 0x0A") (auto simp: Let_def)
qed simp

lemma split_append: "split_on c (s @ t) = butlast (split_on c s) @ (last (split_on c s) @ hd (split_on c t)) # tl (split_on c t)"
proof (induction s)
  case Nil
  then show ?case by (cases "split_on c t") simp_all
next
  case (Cons a s)
  obtain u us where s: "split_on c s = u # us" by (cases "split_on c s") simp_all
  show ?case using Cons s by (cases us) (auto split: list.splits)
qed

lemma split_last_plain: "CHR 0x0A \<notin> set (last (split_on CHR 0x0A s))"
proof (induction s)
  case (Cons a s)
  then show ?case by (auto split: list.splits)
qed simp

lemma split_plain: "c \<notin> set p \<Longrightarrow> split_on c (p @ s) = (p @ hd (split_on c s)) # tl (split_on c s)"
proof (induction p)
  case Nil
  then show ?case by (cases "split_on c s") simp_all
qed auto

lemma lines_framed:
  assumes "\<forall>l \<in> set (split_on CHR 0x0A (concat cs)). length l \<le> 2 ^ 20"
  shows "handleConn [] cs = text_lines (concat cs)"
proof -
  have "handleConn p cs = text_lines (p @ concat cs)"
    if "CHR 0x0A \<notin> set p" "\<forall>l \<in> set (split_on CHR 0x0A (p @ concat cs)). length l \<le> 2 ^ 20" for p
    using that
  proof (induction cs arbitrary: p)
    case Nil
    then show ?case using split_plain [of "CHR 0x0A" p "[]"] by (simp add: text_lines_def)
  next
    case (Cons c cs)
    let ?ps = "split_on CHR 0x0A (p @ c)"
    let ?r = "last ?ps"
    have cut: "cut_lines [] (p @ c) = (filter (\<lambda>l. l \<noteq> []) (butlast ?ps), ?r)"
      by (simp only: cut_lines_split Let_def append_Nil list.collapse [OF split_on_not_Nil])
    let ?qs = "split_on CHR 0x0A (concat cs)"
    have whole: "split_on CHR 0x0A (p @ concat (c # cs)) = butlast ?ps @ (?r @ hd ?qs) # tl ?qs"
      using split_append [of "CHR 0x0A" "p @ c" "concat cs"] by simp
    have rest: "split_on CHR 0x0A (?r @ concat cs) = (?r @ hd ?qs) # tl ?qs"
      by (rule split_plain) (rule split_last_plain)
    have short: "length ?r \<le> 2 ^ 20" using Cons.prems(2) unfolding whole by auto
    have "handleConn ?r cs = text_lines (?r @ concat cs)"
      using Cons.prems(2) unfolding whole by (intro Cons.IH split_last_plain) (simp add: rest)
    then show ?case using cut short by (simp add: text_lines_def whole [simplified] rest)
  qed
  from this [of "[]"] assms show ?thesis by simp
qed

subsection \<open>Batches\<close>

definition proper_line :: "string \<Rightarrow> bool" where
  "proper_line l \<longleftrightarrow> l \<noteq> [] \<and> plain_line l \<and> CHR 0x00 \<notin> set l"

lemma raw_line: "plain_line l \<Longrightarrow> raw_lines (l @ nl @ s) = (l @ nl) # raw_lines s"
  by (induction l) (auto simp: nl_def)

lemma raw_lines_as_lines: "\<forall>l \<in> set ls. proper_line l \<Longrightarrow> raw_lines (as_lines ls) = map (\<lambda>l. l @ nl) ls"
  by (induction ls) (simp_all add: raw_line proper_line_def)

lemma c_str_line: "proper_line l \<Longrightarrow> c_str (l @ nl) = l @ nl"
  by (auto simp: c_str_def proper_line_def nl_def)

lemma batch_lines: "\<forall>l \<in> set ls. proper_line l \<Longrightarrow>
    take_batch n (map (\<lambda>l. l @ nl) ls) = (take n ls, length (as_lines (take n ls)))"
proof (induction ls arbitrary: n)
  case Nil
  show ?case by (cases n) simp_all
next
  case (Cons l ls)
  have "c_str (l @ nl) = l @ nl" "l \<noteq> []" using Cons.prems by (simp_all add: c_str_line proper_line_def)
  then show ?case using Cons by (cases n) (simp_all add: Let_def, simp_all add: nl_def)
qed

lemma split_plain_pieces: "l \<in> set (split_on CHR 0x0A s) \<Longrightarrow> plain_line l"
  by (induction s arbitrary: l) (fastforce simp: plain_line_def split: if_split_asm list.split_asm)+

lemma as_lines_Nil_iff [simp]: "as_lines ls = [] \<longleftrightarrow> ls = []"
  by (cases ls) (simp_all add: nl_def)

lemma as_lines_length_mono: "length (as_lines a) \<le> length (as_lines (a @ b))"
  by simp

subsection \<open>The queue\<close>

text \<open>
  What relates the files and the cursor to the lines: of the appended lines \<open>gone\<close> have left the file, \<open>d1\<close> lie before
  the saved cursor, \<open>d2\<close> between the saved and the current one, and \<open>todo\<close> wait. Everything before the cursor is
  uploaded; with \<open>exact\<close>, just that, in order, and the saved cursor is the current one.
\<close>

definition queue_inv :: "bool \<Rightarrow> string list \<Rightarrow> string list \<Rightarrow> alert_queue \<Rightarrow> string list \<Rightarrow> bool" where
  "queue_inv exact ls up q todo \<longleftrightarrow> (\<forall>l \<in> set ls. proper_line l) \<and> aq_open q \<and> (\<exists>gone d1 d2. ls = gone @ d1 @ d2 @ todo \<and>
     aq_file q = as_lines (d1 @ d2 @ todo) \<and> (case loadCursor q of None \<Rightarrow> 0 | Some v \<Rightarrow> v) = length (as_lines d1) \<and>
     aq_cursor q = length (as_lines (d1 @ d2)) \<and> set (gone @ d1 @ d2) \<subseteq> set up \<and> (exact \<longrightarrow> d2 = [] \<and> up = gone @ d1))"

lemma queue_inv_waiting: "queue_inv exact ls up q todo \<Longrightarrow> waiting q = todo"
  by (auto simp: queue_inv_def waiting_def raw_lines_as_lines nl_def comp_def)

lemma queue_inv_set: "queue_inv exact ls up q todo \<Longrightarrow> set ls \<subseteq> set up \<union> set (waiting q)"
  using queue_inv_waiting [of exact ls up q todo] unfolding queue_inv_def by auto

lemma loadCursor_saved [simp]: "n < 2 ^ 64 \<Longrightarrow> loadCursor (q\<lparr>aq_saved := Some (dec n)\<rparr>) = Some n"
  using strtoul_dec [of n "[]"] by (simp add: loadCursor_def unat_of_nat take_bit_nat_eq_self)

lemma loadCursor_other [simp]:
  "loadCursor (q\<lparr>aq_file := f\<rparr>) = loadCursor q" "loadCursor (q\<lparr>aq_cursor := c\<rparr>) = loadCursor q"
  "loadCursor (q\<lparr>aq_pending_end := e\<rparr>) = loadCursor q" "loadCursor (q\<lparr>aq_open := b\<rparr>) = loadCursor q"
  by (simp_all add: loadCursor_def)

lemma append_inv:
  assumes "queue_inv exact ls up q todo" "proper_line l"
  shows "queue_inv exact (ls @ (if ok then [l] else [])) up (snd (queue_step (Append l ok) q)) (todo @ (if ok then [l] else []))"
proof -
  have l: "l \<noteq> []" "last l \<noteq> CHR 0x0A" using assms(2) by (auto simp: proper_line_def plain_line_def dest: last_in_set)
  have st: "snd (queue_step (Append l ok) q) = q\<lparr>aq_file := aq_file q @ (if ok then l @ nl else [])\<rparr>"
    using assms(1) l by (simp add: queue_append_def queue_inv_def)
  from assms(1) obtain gone d1 d2 where "ls = gone @ d1 @ d2 @ todo" "aq_file q = as_lines (d1 @ d2 @ todo)"
    "(case loadCursor q of None \<Rightarrow> 0 | Some v \<Rightarrow> v) = length (as_lines d1)" "aq_cursor q = length (as_lines (d1 @ d2))"
    "set (gone @ d1 @ d2) \<subseteq> set up" "exact \<longrightarrow> d2 = [] \<and> up = gone @ d1"
    unfolding queue_inv_def by blast
  moreover have "\<forall>x \<in> set (ls @ (if ok then [l] else [])). proper_line x" "aq_open q"
    using assms by (auto simp: queue_inv_def)
  ultimately show ?thesis unfolding st queue_inv_def
    by (intro conjI exI [of _ gone] exI [of _ d1] exI [of _ d2]) simp_all
qed

lemma pending_inv:
  assumes "queue_inv exact ls up q todo"
  shows "queue_pending True n q = (take n todo, if n = 0 then q else
    q\<lparr>aq_pending_end := aq_cursor q + length (as_lines (take n todo))\<rparr>)"
proof -
  have "\<forall>l \<in> set todo. proper_line l" "aq_open q" "drop (aq_cursor q) (aq_file q) = as_lines todo"
    using assms by (auto simp: queue_inv_def)
  then show ?thesis by (simp add: queue_pending_def raw_lines_as_lines batch_lines)
qed

lemma pending_end_inv: "queue_inv exact ls up q todo \<Longrightarrow> queue_inv exact ls up (q\<lparr>aq_pending_end := e\<rparr>) todo"
  by (simp add: queue_inv_def)

lemma restart_inv:
  assumes "queue_inv exact ls up q todo"
  shows "\<exists>todo'. queue_inv exact ls up (queue_open sized q) todo'"
proof -
  obtain gone d1 d2 where g: "ls = gone @ d1 @ d2 @ todo" "aq_file q = as_lines (d1 @ d2 @ todo)"
    "(case loadCursor q of None \<Rightarrow> 0 | Some v \<Rightarrow> v) = length (as_lines d1)"
    "set (gone @ d1 @ d2) \<subseteq> set up" "exact \<longrightarrow> d2 = [] \<and> up = gone @ d1" "\<forall>l \<in> set ls. proper_line l"
    using assms unfolding queue_inv_def by blast
  have "aq_cursor (queue_open sized q) = length (as_lines d1)" using g(2) by (simp add: queue_open_def g(3) Let_def)
  then have "queue_inv exact ls up (queue_open sized q) (d2 @ todo)"
    using g unfolding queue_inv_def
    by (intro conjI exI [of _ gone] exI [of _ d1] exI [of _ "[]"]) (simp_all add: queue_open_def Let_def)
  then show ?thesis by blast
qed

lemma mark_inv:
  assumes "queue_inv exact ls up q todo" "b = take n todo" "length (as_lines ls) < 2 ^ 64" "truncated \<longrightarrow> resave_ok"
    and "exact \<longrightarrow> save_ok"
  shows "queue_inv exact ls (up @ b) (snd (markUploaded save_ok truncated resave_ok
    (q\<lparr>aq_pending_end := aq_cursor q + length (as_lines b)\<rparr>))) (drop n todo)"
proof -
  obtain gone d1 d2 where g: "ls = gone @ d1 @ d2 @ todo" "aq_file q = as_lines (d1 @ d2 @ todo)"
    "(case loadCursor q of None \<Rightarrow> 0 | Some v \<Rightarrow> v) = length (as_lines d1)" "aq_cursor q = length (as_lines (d1 @ d2))"
    "set (gone @ d1 @ d2) \<subseteq> set up" "exact \<longrightarrow> d2 = [] \<and> up = gone @ d1" "\<forall>l \<in> set ls. proper_line l" "aq_open q"
    using assms(1) unfolding queue_inv_def by blast
  define q1 where "q1 = saveCursor save_ok (q\<lparr>aq_cursor := length (as_lines (d1 @ d2 @ b)), aq_pending_end := 0\<rparr>)"
  have t: "todo = b @ drop n todo" using assms(2) by simp
  have lt: "length (as_lines (d1 @ d2 @ b)) < 2 ^ 64"
    using assms(3) unfolding g(1) by (subst (asm) t) simp
  have q1: "queue_inv exact ls (up @ b) q1 (drop n todo)"
  proof (cases save_ok)
    case True
    then show ?thesis using g t lt unfolding q1_def queue_inv_def saveCursor_def
      by (intro conjI exI [of _ gone] exI [of _ "d1 @ d2 @ b"] exI [of _ "[]"]) (auto simp: ac_simps)
  next
    case False
    then show ?thesis using g t assms(5) unfolding q1_def queue_inv_def saveCursor_def
      by (intro conjI exI [of _ gone] exI [of _ d1] exI [of _ "d2 @ b"]) auto
  qed
  have mk: "snd (markUploaded save_ok truncated resave_ok (q\<lparr>aq_pending_end := aq_cursor q + length (as_lines b)\<rparr>)) =
      compactIfDrained truncated resave_ok q1"
    by (simp add: markUploaded_def q1_def g(4) ac_simps)
  show ?thesis
  proof (cases "compactIfDrained truncated resave_ok q1 = q1")
    case True
    then show ?thesis using q1 mk by simp
  next
    case False
    then have c: "compactIfDrained truncated resave_ok q1 = q1\<lparr>aq_file := [], aq_cursor := 0, aq_saved := Some (dec 0)\<rparr>"
      and len: "length (aq_file q1) = aq_cursor q1"
      using assms(4) by (auto simp: compactIfDrained_def saveCursor_def split: if_splits)
    have "length (as_lines (drop n todo)) = 0" using len q1 by (auto simp: queue_inv_def)
    then have "drop n todo = []" by simp
    then show ?thesis using q1 unfolding mk c queue_inv_def
      by (intro conjI exI [of _ "ls"] exI [of _ "[]"] exI [of _ "[]"]) auto
  qed
qed

text \<open>Operations as the probes and the system make them: proper lines, and a file that is emptied has its cursor saved.\<close>

fun op_ok :: "queue_op \<Rightarrow> bool" where
  "op_ok (Append l ok) \<longleftrightarrow> proper_line l"
| "op_ok (Take save_ok truncated resave_ok) \<longleftrightarrow> (truncated \<longrightarrow> resave_ok)"
| "op_ok _ \<longleftrightarrow> True"

fun op_saves :: "queue_op \<Rightarrow> bool" where
  "op_saves (Take save_ok truncated resave_ok) \<longleftrightarrow> save_ok"
| "op_saves _ \<longleftrightarrow> True"

lemma queue_step_inv:
  assumes "queue_inv exact ls up q todo" "op_ok a" "exact \<longrightarrow> op_saves a" "queue_step a q = (ups, q')"
    and "length (as_lines ls) < 2 ^ 64"
  shows "\<exists>todo'. queue_inv exact (ls @ appended [a]) (up @ ups) q' todo'"
proof (cases a)
  case (Append l ok)
  have "ups = []" "q' = snd (queue_step (Append l ok) q)"
    using assms(4) Append by (auto simp: queue_append_def split: option.splits prod.splits)
  then show ?thesis using append_inv [OF assms(1), of l ok] assms(2) Append by auto
next
  case (Take save_ok truncated resave_ok)
  show ?thesis
  proof (cases "todo = []")
    case True
    then show ?thesis using assms(1,4) Take pending_end_inv [OF assms(1)] by (auto simp: pending_inv [OF assms(1)])
  next
    case False
    then have "ups = take 64 todo" "q' = snd (markUploaded save_ok truncated resave_ok
        (q\<lparr>aq_pending_end := aq_cursor q + length (as_lines (take 64 todo))\<rparr>))"
      using assms(4) Take by (auto simp: pending_inv [OF assms(1)])
    then show ?thesis using mark_inv [OF assms(1) refl assms(5), of truncated resave_ok save_ok 64] assms(2,3) Take by auto
  qed
next
  case Defer
  then show ?thesis using assms(1,4) pending_end_inv [OF assms(1)] by (auto simp: pending_inv [OF assms(1)])
next
  case (Restart sized)
  then show ?thesis using assms(4) restart_inv [OF assms(1)] by auto
next
  case Idle
  then show ?thesis using assms(1,4) by auto
qed

lemma appended_Cons: "appended (a # as) = appended [a] @ appended as"
  by (cases a) simp_all

lemma run_inv:
  "queue_inv exact ls up q todo \<Longrightarrow> \<forall>a \<in> set as. op_ok a \<and> (exact \<longrightarrow> op_saves a) \<Longrightarrow> queue_run as q = (ups, q') \<Longrightarrow>
    length (as_lines (ls @ appended as)) < 2 ^ 64 \<Longrightarrow> \<exists>todo'. queue_inv exact (ls @ appended as) (up @ ups) q' todo'"
proof (induction as arbitrary: ls up q todo ups)
  case Nil
  then show ?case by auto
next
  case (Cons a as)
  obtain u q1 where s: "queue_step a q = (u, q1)" by fastforce
  obtain us where r: "queue_run as q1 = (us, q')" "ups = u @ us" using Cons.prems(3) s by (auto split: prod.splits)
  have len: "length (as_lines ls) < 2 ^ 64" "length (as_lines ((ls @ appended [a]) @ appended as)) < 2 ^ 64"
    using Cons.prems(4) by (simp_all add: appended_Cons [of a as])
  obtain todo1 where "queue_inv exact (ls @ appended [a]) (up @ u) q1 todo1"
    using queue_step_inv [OF Cons.prems(1) _ _ s len(1)] Cons.prems(2) by auto
  from Cons.IH [OF this _ r(1) len(2)] Cons.prems(2) show ?case by (simp add: r(2) appended_Cons [of a as])
qed

lemma new_inv: "queue_inv exact [] [] (queue_open sized queue_new) []"
  by (auto simp: queue_inv_def queue_open_def queue_new_def loadCursor_def)

text \<open>Whatever mix of uses the queue goes through, every appended line is taken or still waits.\<close>

lemma lines_taken_at_least_once:
  assumes "\<forall>a \<in> set as. op_ok a" "length (as_lines (appended as)) < 2 ^ 64"
    and "queue_run as (queue_open True queue_new) = (ups, q)"
  shows "\<forall>l \<in> set (appended as). l \<in> set ups \<or> l \<in> set (waiting q)"
proof -
  obtain todo where i: "queue_inv False (appended as) ups q todo"
    using run_inv [OF new_inv [of False True] _ assms(3)] assms(1,2) by auto
  then show ?thesis using queue_inv_waiting [OF i] unfolding queue_inv_def by auto
qed

lemma lines_taken_exactly_once:
  assumes "\<forall>a \<in> set as. op_ok a \<and> op_saves a" "length (as_lines (appended as)) < 2 ^ 64"
    and "queue_run as (queue_open True queue_new) = (ups, q)"
  shows "ups @ waiting q = appended as"
proof -
  obtain todo where i: "queue_inv True (appended as) ups q todo"
    using run_inv [OF new_inv [of True True] _ assms(3)] assms(1,2) by auto
  then show ?thesis using queue_inv_waiting [OF i] unfolding queue_inv_def by auto
qed

subsection \<open>Progress\<close>

lemma upload_drains:
  assumes "queue_inv exact ls up q todo" "length (as_lines ls) < 2 ^ 64" "op_ok (Take a b c)" "exact \<longrightarrow> a"
  shows "queue_inv exact ls (up @ take 64 todo) (snd (queue_step (Take a b c) q)) (drop 64 todo) \<and>
    fst (queue_step (Take a b c) q) = take 64 todo"
proof (cases "todo = []")
  case True
  then show ?thesis using assms(1) pending_end_inv [OF assms(1)] by (simp add: pending_inv [OF assms(1)])
next
  case False
  then show ?thesis using mark_inv [OF assms(1) refl assms(2), of b c a 64] assms(3,4) by (simp add: pending_inv [OF assms(1)])
qed

lemma uploads_drain:
  assumes "queue_inv exact ls up q todo" "length (as_lines ls) < 2 ^ 64" "op_ok (Take a b c)" "exact \<longrightarrow> a"
  shows "fst (queue_run (replicate n (Take a b c)) q) = take (64 * n) todo"
  using assms(1)
proof (induction n arbitrary: up q todo)
  case (Suc n)
  obtain u q1 where s: "queue_step (Take a b c) q = (u, q1)" by fastforce
  note d = upload_drains [OF Suc.prems assms(2-4), unfolded s, simplified]
  have "take 64 todo @ take (64 * n) (drop 64 todo) = take (64 * Suc n) todo"
    by (simp add: take_add [symmetric] algebra_simps)
  then show ?case using Suc.IH d s by (auto split: prod.splits) (metis fst_conv)+
qed simp

lemma queue_run_append: "queue_run (as @ bs) q = (case queue_run as q of (u, q1) \<Rightarrow> case queue_run bs q1 of (v, q2) \<Rightarrow> (u @ v, q2))"
  by (induction as arbitrary: q) (auto split: prod.splits)

subsection \<open>Examples\<close>

lemma take_batch_numeral [simp]:
  "take_batch (numeral k) [] = ([], 0)"
  "take_batch (numeral k) (raw # raws) = (let buf = c_str raw;
     line = (if buf \<noteq> [] \<and> last buf = CHR 0x0A then butlast buf else buf) in
     case take_batch (if line = [] then numeral k else pred_numeral k) raws of (ls, k) \<Rightarrow>
       (if line = [] then ls else line # ls, length buf + k))"
  by (simp_all only: numeral_eq_Suc take_batch.simps)

lemma read_dec: "n < 2 ^ 64 \<Longrightarrow> c_strtoul 10 (dec n) = Some (of_nat n, [])"
  using strtoul_dec [of n "[]"] by simp

text \<open>
  When the process ends between the truncation of a drained file and the saving of its cursor, the old cursor stays, and
  lines that come later are skipped after the next start.
\<close>

lemma drained_cursor_skips:
  "fst (queue_run [Append ''aa'' True, Take True True False, Append ''b'' True, Append ''c'' True, Restart True,
     Take True True True] (queue_open True queue_new)) = [''aa'']"
  by (simp add: queue_open_def queue_new_def loadCursor_def queue_append_def queue_pending_def markUploaded_def
      compactIfDrained_def saveCursor_def nl_def c_str_def Let_def read_dec)

text \<open>A zero byte in a line counts only up to it, so the cursor falls behind and a part of a line is sent again.\<close>

lemma zero_byte_misaligns:
  "fst (queue_run [Append (''a'' @ [CHR 0x00] @ ''b'') True, Append ''xyz'' True, Take True True True, Take True True True]
     (queue_open True queue_new)) = [''a'', ''xyz'', ''yz'']"
  by (simp add: queue_open_def queue_new_def loadCursor_def queue_append_def queue_pending_def markUploaded_def
      compactIfDrained_def saveCursor_def nl_def c_str_def Let_def read_dec)

end
