(* ===== verification/Mgr_Cloud.thy ===== *)
theory Mgr_Cloud
  imports Mgr_Guard
begin

text \<open>
  The messages of the daemon to and from the cloud: alert and event envelopes (\<open>linux/idsm_managerd/vsoc_envelope.cpp\<close>),
  property reports (\<open>property_report.cpp\<close>), and credentials and registration (\<open>registration.cpp\<close>). The JSON library is the
  record \<open>json_lib\<close>, the digest of OpenSSL the parameter \<open>sha\<close>; the fields of an object are in the order of their names, as
  the library keeps them.
\<close>

subsection \<open>Alert envelopes\<close>

definition get_u32 :: "json \<Rightarrow> nat option" where
  "get_u32 j = map_option (\<lambda>n. nat (n mod 2 ^ 32)) (get_num j)"

record parsed_alert =
  pa_event_id :: nat
  pa_severity :: string
  pa_timestamp_ms :: int
  pa_ids_message_hex :: string

definition sha256Hex :: "(bytes \<Rightarrow> bytes) \<Rightarrow> string \<Rightarrow> string" where
  "sha256Hex sha s = hex_text (sha (string_bytes s))"

text \<open>Division in C rounds towards 0; the sum is kept in 64 bits.\<close>

definition stamp_ms :: "int \<Rightarrow> int \<Rightarrow> int" where
  "stamp_ms s ns = signed_take_bit 63 (s * 1000 + sgn ns * (\<bar>ns\<bar> div 1000000))"

text \<open>\<open>None\<close> stands for false; the only caller drops the error text.\<close>

definition parseAlertLine :: "json_lib \<Rightarrow> (bytes \<Rightarrow> bytes) \<Rightarrow> string \<Rightarrow> parsed_alert option" where
  "parseAlertLine jl sha line = (case jl_parse jl line of Inl _ \<Rightarrow> None | Inr j \<Rightarrow> do {
     event_id \<leftarrow> j_get j ''event_id'' get_u32;
     severity \<leftarrow> j_value j ''severity'' get_string ''MEDIUM'';
     s \<leftarrow> j_value j ''timestamp_s'' get_i64 0;
     ns \<leftarrow> j_value j ''timestamp_ns'' get_i64 0;
     hex \<leftarrow> j_value j ''ids_message'' get_string [];
     Some \<lparr> pa_event_id = event_id, pa_severity = severity, pa_timestamp_ms = stamp_ms s ns,
       pa_ids_message_hex = (if hex = [] then sha256Hex sha line else hex) \<rparr> })"

fun hex_digits :: "nat \<Rightarrow> string" where
  "hex_digits n = (if n < 16 then [digit n] else hex_digits (n div 16) @ [digit (n mod 16)])"

declare hex_digits.simps [simp del]

definition evt_name :: "nat \<Rightarrow> string" where
  "evt_name n = (let h = hex_digits n in ''EVT_'' @ replicate (4 - length h) CHR ''0'' @ h)"

definition host_names :: "(nat \<times> string) list" where
  "host_names = [(0x8021, ''DT_UNKNOWN_EXEC''), (0x8022, ''DT_PRIV_ESC''), (0x8023, ''DT_FORK_FLOOD''),
     (0x8024, ''DT_REVERSE_SHELL''), (0x8025, ''DT_FILE_MOD''), (0x8026, ''DT_NEW_SETUID''), (0x8027, ''DT_KMOD''),
     (0x8028, ''DT_ZOMBIE_STORM''), (0x8029, ''DT_RES_EXHAUST''), (0x802A, ''DT_ROOT_SHELL'')]"

definition hostEventTypeName :: "nat \<Rightarrow> string" where
  "hostEventTypeName n = (case map_of host_names n of Some s \<Rightarrow> s | None \<Rightarrow> evt_name n)"

definition makeEventId :: "(bytes \<Rightarrow> bytes) \<Rightarrow> string \<Rightarrow> string \<Rightarrow> string \<Rightarrow> string" where
  "makeEventId sha device_id node_type hex = device_id @ ''-'' @ node_type @ ''-'' @ take 32 (sha256Hex sha hex)"

definition nodeTypeToTopicSeg :: "string \<Rightarrow> string" where
  "nodeTypeToTopicSeg t = (if t = ''HIDPS'' then ''host'' else if t = ''NIDPS'' then ''eth''
     else if t = ''CIDS'' then ''can'' else ''unknown'')"

text \<open>The arguments that all lines of a batch share.\<close>

record sender =
  sd_manufacturer :: string
  sd_device_id :: string
  sd_node_type :: string
  sd_ecu_code :: string
  sd_rule_version :: string

definition alert_type :: "string \<Rightarrow> nat \<Rightarrow> string" where
  "alert_type node_type n = (if node_type = ''HIDPS'' then hostEventTypeName n else evt_name n)"

definition alert_item :: "(bytes \<Rightarrow> bytes) \<Rightarrow> sender \<Rightarrow> json \<Rightarrow> parsed_alert \<Rightarrow> json" where
  "alert_item sha sd raw a = JObject [(''ecuCode'', JString (sd_ecu_code sd)),
     (''eventId'', JString (makeEventId sha (sd_device_id sd) (sd_node_type sd) (pa_ids_message_hex a))),
     (''eventType'', JString (alert_type (sd_node_type sd) (pa_event_id a))), (''nodeType'', JString (sd_node_type sd)),
     (''raw'', raw), (''replay'', JBool False), (''ruleVersion'', JString (sd_rule_version sd)),
     (''severity'', JString (pa_severity a)), (''timestamp'', JNum (pa_timestamp_ms a))]"

definition line_item :: "json_lib \<Rightarrow> (bytes \<Rightarrow> bytes) \<Rightarrow> sender \<Rightarrow> string \<Rightarrow> json option" where
  "line_item jl sha sd line = map_option
     (alert_item sha sd (case jl_parse jl line of Inr j \<Rightarrow> j | Inl _ \<Rightarrow> JObject [])) (parseAlertLine jl sha line)"

definition alert_items :: "json_lib \<Rightarrow> (bytes \<Rightarrow> bytes) \<Rightarrow> sender \<Rightarrow> string list \<Rightarrow> json list" where
  "alert_items jl sha sd ls = List.map_filter (line_item jl sha sd) ls"

definition message :: "string \<Rightarrow> string \<Rightarrow> int \<Rightarrow> json list \<Rightarrow> json" where
  "message manufacturer msg_type now_ms content = JObject [(''content'', JArray content),
     (''manufacturer'', JString manufacturer), (''msg_type'', JString msg_type), (''protocol_version'', JString ''1.0''),
     (''timestamp'', JNum now_ms)]"

text \<open>\<open>Inl\<close> is the error text, with which the empty string is returned.\<close>

definition buildAlertEnvelope :: "json_lib \<Rightarrow> (bytes \<Rightarrow> bytes) \<Rightarrow> int \<Rightarrow> sender \<Rightarrow> string list \<Rightarrow> string + string" where
  "buildAlertEnvelope jl sha now_ms sd ls = (let items = alert_items jl sha sd ls in
     if items = [] then Inl (''no valid alert lines ('' @ dec (length ls) @ '' dropped)'')
     else Inr (jl_dump jl (message (sd_manufacturer sd) (''alert_'' @ nodeTypeToTopicSeg (sd_node_type sd)) now_ms items)))"

record event_item =
  ei_event_type :: string
  ei_detail :: string
  ei_severity :: string
  ei_timestamp_ms :: int

definition buildEventUpEnvelope :: "json_lib \<Rightarrow> int \<Rightarrow> string \<Rightarrow> event_item list \<Rightarrow> string" where
  "buildEventUpEnvelope jl now_ms manufacturer items = jl_dump jl (message manufacturer ''event_up'' now_ms
     (map (\<lambda>i. JObject [(''detail'', JString (ei_detail i)), (''eventType'', JString (ei_event_type i)),
        (''severity'', JString (ei_severity i)),
        (''timestamp'', JNum (if ei_timestamp_ms i > 0 then ei_timestamp_ms i else now_ms))]) items))"

subsection \<open>Property reports\<close>

record node_property =
  np_ecu_code :: string
  np_ecu_os :: string
  np_node_type :: string
  np_node_version :: string
  np_node_status :: int
  np_rule_version :: string
  np_remark :: string

definition node_json :: "node_property \<Rightarrow> json" where
  "node_json n = JObject ([(''ecuCode'', JString (np_ecu_code n)), (''ecuOs'', JString (np_ecu_os n)),
     (''nodeStatus'', JNum (np_node_status n)), (''nodeType'', JString (np_node_type n)),
     (''nodeVersion'', JString (np_node_version n))] @
     (if np_remark n = [] then [] else [(''remark'', JString (np_remark n))]) @
     [(''ruleVersion'', JString (np_rule_version n))])"

definition buildPropertyReport :: "json_lib \<Rightarrow> string \<Rightarrow> node_property list \<Rightarrow> int \<Rightarrow> string" where
  "buildPropertyReport jl manufacturer nodes timestamp_ms =
     jl_dump jl (message manufacturer ''property'' timestamp_ms (map node_json nodes))"

definition propertyTopic :: "string \<Rightarrow> string" where
  "propertyTopic device_id = ''oc/devices/'' @ device_id @ ''/sys/property/report''"

definition nextReportTimeMs :: "int \<Rightarrow> u32 \<Rightarrow> int" where
  "nextReportTimeMs now_ms jitter = (let base = 300000; half = base div 10 in
     now_ms + base - half + int (unat (jitter mod of_int (2 * half + 1))))"

subsection \<open>Credentials\<close>

record credentials =
  cd_client_id :: string
  cd_token :: string
  cd_token_expire :: int

definition no_credentials :: credentials where
  "no_credentials = \<lparr> cd_client_id = [], cd_token = [], cd_token_expire = 0 \<rparr>"

definition validAt :: "credentials \<Rightarrow> int \<Rightarrow> bool" where
  "validAt c now_sec \<longleftrightarrow> cd_client_id c \<noteq> [] \<and> cd_token c \<noteq> [] \<and> (cd_token_expire c = 0 \<or> cd_token_expire c > now_sec)"

text \<open>
  Reading the file, whose content is given when it exists: the result, whether there is an error text, and what the caller's
  object holds then; each field is stored as soon as it has been read.
\<close>

definition cred_load :: "json_lib \<Rightarrow> string option \<Rightarrow> credentials \<Rightarrow> bool \<times> bool \<times> credentials" where
  "cred_load jl f out = (case f of None \<Rightarrow> (False, False, out) | Some s \<Rightarrow> (case jl_parse jl s of
     Inl _ \<Rightarrow> (False, True, out)
   | Inr j \<Rightarrow> (case j_get j ''client_id'' get_string of None \<Rightarrow> (False, True, out)
     | Some c \<Rightarrow> let out = out\<lparr>cd_client_id := c\<rparr> in
       (case j_get j ''token'' get_string of None \<Rightarrow> (False, True, out)
       | Some t \<Rightarrow> let out = out\<lparr>cd_token := t\<rparr> in
         (case j_value j ''token_expire'' get_i64 0 of None \<Rightarrow> (False, True, out)
         | Some e \<Rightarrow> (True, False, out\<lparr>cd_token_expire := e\<rparr>))))))"

definition cred_json :: "credentials \<Rightarrow> json" where
  "cred_json c = JObject [(''client_id'', JString (cd_client_id c)), (''token'', JString (cd_token c)),
     (''token_expire'', JNum (cd_token_expire c))]"

definition cred_save :: "json_lib \<Rightarrow> disk_io \<Rightarrow> credentials \<Rightarrow> dir \<Rightarrow> string option \<times> dir" where
  "cred_save jl io c d = replace_file io ''credentials write failed'' (''credentials rename: '' @ io_msg io)
     ''credentials.json'' (jl_pretty jl 2 (cred_json c) @ nl) d"

subsection \<open>Registration\<close>

text \<open>The identifier made of 16 random bytes.\<close>

definition uuid_bytes :: "bytes \<Rightarrow> bytes" where
  "uuid_bytes b = (let b = b[6 := (b ! 6 AND 0x0F) OR 0x40] in b[8 := (b ! 8 AND 0x3F) OR 0x80])"

definition newRequestId :: "bytes \<Rightarrow> string" where
  "newRequestId b = (let u = uuid_bytes b in
     hex_text (take 4 u) @ ''-'' @ hex_text (take 2 (drop 4 u)) @ ''-'' @ hex_text (take 2 (drop 6 u)) @ ''-'' @
     hex_text (take 2 (drop 8 u)) @ ''-'' @ hex_text (take 6 (drop 10 u)))"

definition buildInitRequest :: "json_lib \<Rightarrow> string \<Rightarrow> string \<Rightarrow> int \<Rightarrow> string \<Rightarrow> string \<Rightarrow> string list \<Rightarrow> string" where
  "buildInitRequest jl manufacturer request_id timestamp_ms vin model_code ecus = jl_dump jl (JObject
     [(''content'', JObject ((if ecus = [] then [] else [(''ecuList'', JArray (map JString ecus))]) @
        [(''modelId'', JString model_code), (''vin'', JString vin)])),
      (''manufacturer'', JString manufacturer), (''request_id'', JString request_id), (''timestamp'', JNum timestamp_ms),
      (''type'', JNum 1)])"

text \<open>\<open>None\<close> is an exception. Otherwise the result, and the error text when it is false; \<open>out\<close> is given as it is left.\<close>

definition parseInitResponse :: "json_lib \<Rightarrow> string \<Rightarrow> string \<Rightarrow> credentials \<Rightarrow> (string option \<times> credentials) option" where
  "parseInitResponse jl payload expect out = (case jl_parse jl payload of
     Inl what \<Rightarrow> Some (Some (''init response parse: '' @ what), out)
   | Inr j \<Rightarrow> do {
       rc \<leftarrow> j_value j ''rc'' get_i32 (- 1);
       if rc \<noteq> 0 then do {
         rn \<leftarrow> j_value j ''rn'' get_string ''register_response'';
         Some (Some (''register rc='' @ dec_int rc @ '' ('' @ rn @ '')''), out) }
       else do {
         rn \<leftarrow> j_value j ''rn'' get_string [];
         if rn \<noteq> ''register_response'' then Some (Some ''rn != register_response'', out)
         else do {
           rid \<leftarrow> j_value j ''request_id'' get_string [];
           if rid \<noteq> expect then Some (Some ''request_id mismatch'', out)
           else do {
             paras \<leftarrow> j_at j ''paras'';
             c \<leftarrow> j_get paras ''client_id'' get_string;
             t \<leftarrow> j_get paras ''token'' get_string;
             e \<leftarrow> j_value paras ''token_expire'' get_i64 0;
             Some (if c = [] \<or> t = [] then Some ''init response missing client_id/token'' else None,
               \<lparr> cd_client_id = c, cd_token = t, cd_token_expire = e \<rparr>) } } } })"

end
