(* ===== verification/Mgr_Main.thy ===== *)
theory Mgr_Main
  imports Mgr_Cloud
begin

text \<open>
  The main loop of \<open>linux/idsm_managerd/main.cpp\<close> as a state machine: registration with the cloud, the periodic report, and
  the queue of rejection events. A pass of the loop and the callbacks of other threads are separate steps; what the network
  answers and the clock are in the step.
\<close>

subsection \<open>State\<close>

datatype reg_state = Disabled | NeedRegister | Waiting | Registered

record main_args =
  ma_manufacturer :: string
  ma_device_id :: string
  ma_vin :: string
  ma_model_code :: string
  ma_ecu_code :: string
  ma_token :: string
  ma_registration :: bool

record main_state =
  rg_state :: reg_state
  rg_creds :: credentials
  rg_pending :: credentials
  rg_response_ready :: bool
  rg_request_id :: string
  reg_deadline_ms :: int
  reg_next_attempt_ms :: int
  reg_attempts :: int
  next_report_ms :: int
  g_report_now :: bool
  pending_events :: "string list"

definition main_new :: main_state where
  "main_new = \<lparr> rg_state = Disabled, rg_creds = no_credentials, rg_pending = no_credentials, rg_response_ready = False,
     rg_request_id = [], reg_deadline_ms = 0, reg_next_attempt_ms = 0, reg_attempts = 0, next_report_ms = 0,
     g_report_now = False, pending_events = [] \<rparr>"

text \<open>The state before the loop; \<open>f\<close> is the content of the file of credentials.\<close>

definition main_start :: "json_lib \<Rightarrow> main_args \<Rightarrow> string option \<Rightarrow> int \<Rightarrow> main_state" where
  "main_start jl args f now_sec = (if ma_token args \<noteq> []
     then main_new\<lparr>rg_creds := no_credentials\<lparr>cd_client_id := ''idsm-'' @ ma_device_id args, cd_token := ma_token args\<rparr>,
       rg_state := Registered\<rparr>
     else case cred_load jl f no_credentials of (ok, failed, creds) \<Rightarrow>
       let creds = (if ok \<and> failed then no_credentials else creds); m = main_new\<lparr>rg_creds := creds\<rparr> in
       if validAt creds now_sec then m\<lparr>rg_state := Registered\<rparr>
       else if ma_registration args then m\<lparr>rg_state := NeedRegister\<rparr> else m)"

subsection \<open>A pass of the loop\<close>

text \<open>What the pass meets: the time, whether the client is connected, and whether each call succeeds.\<close>

record pass_env =
  en_now_ms :: int
  en_connected :: bool
  en_save :: bool
  en_update :: bool
  en_subscribe :: "string \<Rightarrow> bool"
  en_publish :: "string \<Rightarrow> bool"
  en_random :: bytes
  en_jitter :: u32

datatype action = InitRequest int string | Report int | EventUp string

definition apply_response :: "pass_env \<Rightarrow> main_state \<Rightarrow> main_state" where
  "apply_response en m = (if \<not> rg_response_ready m then m
     else (if en_save en \<and> en_update en
       then m\<lparr>rg_response_ready := False, rg_creds := rg_pending m, rg_state := Registered, next_report_ms := en_now_ms en + 5000,
         rg_pending := no_credentials\<rparr>
       else m\<lparr>rg_response_ready := False, rg_state := NeedRegister, reg_next_attempt_ms := en_now_ms en + 10000,
         rg_pending := no_credentials\<rparr>))"

definition init_request_topic :: "main_args \<Rightarrow> string \<Rightarrow> string" where
  "init_request_topic args rid = ''oc/devices/'' @ ma_device_id args @ ''/sys/init/request/rid='' @ rid"

definition init_response_topic :: "main_args \<Rightarrow> string \<Rightarrow> string" where
  "init_response_topic args rid = ''oc/devices/'' @ ma_device_id args @ ''/sys/init/response/rid='' @ rid"

definition register_step :: "main_args \<Rightarrow> pass_env \<Rightarrow> main_state \<Rightarrow> action list \<times> main_state" where
  "register_step args en m = (let now = en_now_ms en in
     if rg_state m = NeedRegister \<and> en_connected en \<and> now \<ge> reg_next_attempt_ms m
     then (let rid = newRequestId (en_random en); m = m\<lparr>rg_request_id := rid\<rparr> in
       if en_subscribe en (init_response_topic args rid) \<and> en_publish en (init_request_topic args rid)
       then ([InitRequest now rid], m\<lparr>rg_state := Waiting, reg_deadline_ms := now + 30000, reg_attempts := reg_attempts m + 1\<rparr>)
       else ([], m\<lparr>reg_next_attempt_ms := now + 10000\<rparr>))
     else if rg_state m = Waiting \<and> now > reg_deadline_ms m
     then ([], m\<lparr>rg_state := NeedRegister, reg_next_attempt_ms := now + min 60000 (5000 * (reg_attempts m + 1))\<rparr>)
     else ([], m))"

definition report_step :: "main_args \<Rightarrow> pass_env \<Rightarrow> main_state \<Rightarrow> action list \<times> main_state" where
  "report_step args en m = (let now = en_now_ms en in
     if en_connected en \<and> (rg_state m = Registered \<or> rg_state m = Disabled) \<and> (now \<ge> next_report_ms m \<or> g_report_now m)
     then (let m = (if now \<ge> next_report_ms m then m else m\<lparr>g_report_now := False\<rparr>) in
       if en_publish en (propertyTopic (ma_device_id args))
       then ([Report now], m\<lparr>next_report_ms := nextReportTimeMs now (en_jitter en)\<rparr>)
       else ([], m\<lparr>next_report_ms := now + 10000\<rparr>))
     else ([], m))"

text \<open>
  The first event is taken out, published, and put back in front when that fails. This is one step here: between the two
  accesses other threads only append, which leaves the same queue in either order.
\<close>

definition event_step :: "string \<Rightarrow> pass_env \<Rightarrow> main_state \<Rightarrow> action list \<times> main_state" where
  "event_step topic en m = (if \<not> en_connected en then ([], m)
     else case pending_events m of [] \<Rightarrow> ([], m)
     | ev # evs \<Rightarrow> if ev = [] then ([], m\<lparr>pending_events := evs\<rparr>)
         else if en_publish en topic then ([EventUp ev], m\<lparr>pending_events := evs\<rparr>) else ([], m))"

definition main_pass :: "main_args \<Rightarrow> string \<Rightarrow> pass_env \<Rightarrow> main_state \<Rightarrow> action list \<times> main_state" where
  "main_pass args up_topic en m = (case register_step args en (apply_response en m) of (a, m) \<Rightarrow>
     case report_step args en m of (b, m) \<Rightarrow> case event_step up_topic en m of (c, m) \<Rightarrow> (a @ b @ c, m))"

subsection \<open>The callbacks\<close>

text \<open>A response to a registration request. An exception ends the process; it is left out here.\<close>

definition on_response :: "json_lib \<Rightarrow> string \<Rightarrow> main_state \<Rightarrow> main_state" where
  "on_response jl payload m = (case parseInitResponse jl payload (rg_request_id m) (rg_pending m) of
     None \<Rightarrow> m
   | Some (err, out) \<Rightarrow> m\<lparr>rg_pending := out, rg_response_ready := (if err = None then True else rg_response_ready m)\<rparr>)"

definition on_peer_change :: "main_state \<Rightarrow> main_state" where
  "on_peer_change m = m\<lparr>g_report_now := True\<rparr>"

definition push_event :: "json_lib \<Rightarrow> int \<Rightarrow> main_args \<Rightarrow> event_item \<Rightarrow> main_state \<Rightarrow> main_state" where
  "push_event jl now_ms args i m =
     m\<lparr>pending_events := pending_events m @ [buildEventUpEnvelope jl now_ms (ma_manufacturer args) [i]]\<rparr>"

datatype main_event = Pass pass_env | Response string | PeerChange | Reject int event_item

fun main_step :: "json_lib \<Rightarrow> main_args \<Rightarrow> string \<Rightarrow> main_event \<Rightarrow> main_state \<Rightarrow> action list \<times> main_state" where
  "main_step jl args up_topic (Pass en) m = main_pass args up_topic en m"
| "main_step jl args up_topic (Response payload) m = ([], on_response jl payload m)"
| "main_step jl args up_topic PeerChange m = ([], on_peer_change m)"
| "main_step jl args up_topic (Reject now i) m = ([], push_event jl now args i m)"

fun main_run :: "json_lib \<Rightarrow> main_args \<Rightarrow> string \<Rightarrow> main_event list \<Rightarrow> main_state \<Rightarrow> action list \<times> main_state" where
  "main_run jl args up_topic [] m = ([], m)"
| "main_run jl args up_topic (e # es) m = (case main_step jl args up_topic e m of (a, m) \<Rightarrow>
     case main_run jl args up_topic es m of (b, m) \<Rightarrow> (a @ b, m))"

end
