(* ===== verification/Mgr_Main_Facts.thy ===== *)
theory Mgr_Main_Facts
  imports Mgr_Main
begin

text \<open>
  What the messages and the main loop promise: report times stay within their jitter, credentials survive a restart,
  registration requests are spaced, nothing is reported before the registration, and rejections are reported in order.
\<close>

subsection \<open>Messages\<close>

lemma next_report_bounds: "now_ms + 270000 \<le> nextReportTimeMs now_ms j \<and> nextReportTimeMs now_ms j \<le> now_ms + 330000"
proof -
  have "uint (j mod 60001) \<le> 60000" using uint_mod_distrib [of j 60001] by simp
  then show ?thesis by (simp add: nextReportTimeMs_def Let_def)
qed

lemma hex_text_length [simp]: "length (hex_text p) = 2 * length p"
  by (induction p) (simp_all add: hex_text_def)

lemma uuid_length: "length b = 16 \<Longrightarrow> length (newRequestId b) = 36"
  by (simp add: newRequestId_def uuid_bytes_def Let_def)

lemma uuid_version: "length b = 16 \<Longrightarrow> uuid_bytes b ! 6 AND 0xF0 = 0x40 \<and> uuid_bytes b ! 8 AND 0xC0 = 0x80"
  by (simp add: uuid_bytes_def Let_def bit.conj_disj_distrib2 and.assoc)

text \<open>What is saved is read back at the next start.\<close>

lemma credentials_saved:
  assumes "cred_save jl io c d = (None, d')" "jl_parse jl (jl_pretty jl 2 (cred_json c) @ nl) = Inr (cred_json c)"
    and "- (2 ^ 63) \<le> cd_token_expire c" "cd_token_expire c < 2 ^ 63"
  shows "\<exists>s. d' ''credentials.json'' = Some (NFile s) \<and> cred_load jl (Some s) out = (True, False, c)"
proof -
  have "d' ''credentials.json'' = Some (NFile (jl_pretty jl 2 (cred_json c) @ nl))"
    using replace_file_ok(1) assms(1) unfolding cred_save_def by blast
  moreover have "cred_load jl (Some (jl_pretty jl 2 (cred_json c) @ nl)) out = (True, False, c)"
    using assms(2-4) by (simp add: cred_load_def cred_json_def j_get_def j_at_def j_value_def get_string_def get_i64_def
        get_num_def signed_take_bit_int_eq_self)
  ultimately show ?thesis by blast
qed

text \<open>The items of an envelope are those of the readable lines in order, and there is none only when no line is readable.\<close>

lemma alert_items_append: "alert_items jl sha sd (ls @ ks) = alert_items jl sha sd ls @ alert_items jl sha sd ks"
  by (simp add: alert_items_def List.map_filter_def)

lemma envelope_refused: "(\<exists>err. buildAlertEnvelope jl sha now sd ls = Inl err) \<longleftrightarrow> (\<forall>l \<in> set ls. parseAlertLine jl sha l = None)"
  by (auto simp: buildAlertEnvelope_def alert_items_def List.map_filter_def line_item_def Let_def filter_empty_conv)

subsection \<open>Registration requests\<close>

definition init_times :: "action list \<Rightarrow> int list" where
  "init_times as = List.map_filter (\<lambda>a. case a of InitRequest t _ \<Rightarrow> Some t | _ \<Rightarrow> None) as"

lemma init_times_simps [simp]: "init_times [] = []" "init_times (InitRequest t r # as) = t # init_times as"
  "init_times (Report t # as) = init_times as" "init_times (EventUp s # as) = init_times as"
  "init_times (as @ bs) = init_times as @ init_times bs"
  by (simp_all add: init_times_def List.map_filter_def)

definition paced :: "int \<Rightarrow> main_state \<Rightarrow> bool" where
  "paced last_ms m \<longleftrightarrow> (rg_state m = NeedRegister \<longrightarrow> last_ms + 10000 \<le> reg_next_attempt_ms m) \<and>
     (rg_state m = Waiting \<longrightarrow> last_ms + 10000 \<le> reg_deadline_ms m) \<and> 0 \<le> reg_attempts m"

lemma report_step_paced: "report_step args en m = (a, m') \<Longrightarrow> (paced t m' \<longleftrightarrow> paced t m) \<and> init_times a = []"
  by (auto simp: report_step_def Let_def paced_def split: if_split_asm)

lemma event_step_paced: "event_step ut en m = (a, m') \<Longrightarrow> (paced t m' \<longleftrightarrow> paced t m) \<and> init_times a = []"
  by (auto simp: event_step_def paced_def split: if_split_asm list.split_asm)

lemma apply_response_paced: "paced t m \<Longrightarrow> t \<le> en_now_ms en \<Longrightarrow> paced t (apply_response en m)"
  by (simp add: apply_response_def paced_def)

lemma register_step_paced:
  assumes "register_step args en m = (a, m')" "paced t m" "t \<le> en_now_ms en"
  shows "a = [] \<and> paced t m' \<or> (\<exists>rid. a = [InitRequest (en_now_ms en) rid] \<and> t + 10000 \<le> en_now_ms en \<and> paced (en_now_ms en) m')"
  using assms by (auto simp: register_step_def Let_def paced_def split: if_split_asm)

lemma main_pass_paced:
  assumes "main_pass args ut en m = (a, m')" "paced t m" "t \<le> en_now_ms en"
  shows "init_times a = [] \<and> paced t m' \<or>
    init_times a = [en_now_ms en] \<and> t + 10000 \<le> en_now_ms en \<and> paced (en_now_ms en) m'"
proof -
  obtain b m1 where r: "register_step args en (apply_response en m) = (b, m1)" by fastforce
  obtain c m2 where p: "report_step args en m1 = (c, m2)" by fastforce
  obtain d m3 where e: "event_step ut en m2 = (d, m3)" by fastforce
  have a: "a = b @ c @ d" "m' = m3" using assms(1) r p e by (simp_all add: main_pass_def)
  have "paced u m' \<longleftrightarrow> paced u m1" for u using a(2) report_step_paced [OF p, of u] event_step_paced [OF e, of u] by simp
  then show ?thesis
    using register_step_paced [OF r apply_response_paced [OF assms(2,3)] assms(3)] report_step_paced [OF p] event_step_paced [OF e] a(1)
    by auto
qed

lemma callback_paced: "paced t (on_response jl s m) = paced t m" "paced t (on_peer_change m) = paced t m"
  "paced t (push_event jl n args i m) = paced t m"
  by (simp_all add: on_response_def on_peer_change_def push_event_def paced_def split: option.split)

definition pass_times :: "main_event list \<Rightarrow> int list" where
  "pass_times es = List.map_filter (\<lambda>e. case e of Pass en \<Rightarrow> Some (en_now_ms en) | _ \<Rightarrow> None) es"

lemma pass_times_simps [simp]: "pass_times [] = []" "pass_times (Pass en # es) = en_now_ms en # pass_times es"
  "pass_times (Response s # es) = pass_times es" "pass_times (PeerChange # es) = pass_times es"
  "pass_times (Reject n i # es) = pass_times es"
  by (simp_all add: pass_times_def List.map_filter_def)

lemma run_paced:
  "paced t m \<Longrightarrow> sorted (t # pass_times es) \<Longrightarrow>
    sorted_wrt (\<lambda>a b. a + 10000 \<le> b) (t # init_times (fst (main_run jl args ut es m)))"
proof (induction es arbitrary: t m)
  case (Cons e es)
  show ?case
  proof (cases e)
    case (Pass en)
    obtain a m' where p: "main_pass args ut en m = (a, m')" by fastforce
    obtain b m2 where r: "main_run jl args ut es m' = (b, m2)" by fastforce
    have t: "t \<le> en_now_ms en" "sorted (en_now_ms en # pass_times es)" "sorted (t # pass_times es)"
      using Cons.prems(2) Pass by auto
    from main_pass_paced [OF p Cons.prems(1) t(1)] show ?thesis
    proof
      assume "init_times a = [] \<and> paced t m'"
      then show ?thesis using Cons.IH [of t m'] t(3) Pass p r by simp
    next
      assume "init_times a = [en_now_ms en] \<and> t + 10000 \<le> en_now_ms en \<and> paced (en_now_ms en) m'"
      then show ?thesis using Cons.IH [of "en_now_ms en" m'] t(2) Pass p r by fastforce
    qed
  next
    case (Response s)
    then show ?thesis using Cons.IH [of t "on_response jl s m"] Cons.prems by (simp add: callback_paced split: prod.splits)
  next
    case PeerChange
    then show ?thesis using Cons.IH [of t "on_peer_change m"] Cons.prems by (simp add: callback_paced split: prod.splits)
  next
    case (Reject n i)
    then show ?thesis using Cons.IH [of t "push_event jl n args i m"] Cons.prems by (simp add: callback_paced split: prod.splits)
  qed
qed simp

text \<open>
  C19: whatever responses, failures and disconnections come, two registration requests are at least 10 seconds apart, from
  any state that the daemon can start in, as long as the clock does not go back.
\<close>

theorem init_requests_spaced:
  assumes "sorted (pass_times es)" "\<forall>t \<in> set (pass_times es). 0 \<le> t"
  shows "sorted_wrt (\<lambda>a b. a + 10000 \<le> b)
    (init_times (fst (main_run jl args ut es (main_start jl args f now_sec))))"
proof -
  have "paced (- 10000) (main_start jl args f now_sec)"
    by (simp add: main_start_def main_new_def paced_def Let_def split: prod.split)
  from run_paced [OF this] assms show ?thesis by fastforce
qed

subsection \<open>Reports and rejections\<close>

text \<open>Before a response to the registration has come, nothing is reported.\<close>

lemma unregistered_pass:
  assumes "main_pass args ut en m = (a, m')" "rg_state m = NeedRegister \<or> rg_state m = Waiting" "\<not> rg_response_ready m"
  shows "(\<forall>t. Report t \<notin> set a) \<and> (rg_state m' = NeedRegister \<or> rg_state m' = Waiting) \<and> \<not> rg_response_ready m'"
proof -
  obtain b m1 where r: "register_step args en m = (b, m1)" by fastforce
  have m1: "(rg_state m1 = NeedRegister \<or> rg_state m1 = Waiting) \<and> \<not> rg_response_ready m1 \<and> (\<forall>t. Report t \<notin> set b)"
    using r assms(2,3) by (auto simp: register_step_def Let_def split: if_split_asm)
  have p: "report_step args en m1 = ([], m1)" using m1 by (auto simp: report_step_def Let_def)
  obtain d m3 where e: "event_step ut en m1 = (d, m3)" by fastforce
  have "rg_state m3 = rg_state m1 \<and> rg_response_ready m3 = rg_response_ready m1 \<and> (\<forall>t. Report t \<notin> set d)"
    using e by (auto simp: event_step_def split: if_split_asm list.split_asm)
  moreover have "a = b @ d" "m' = m3" using assms(1,3) r p e by (simp_all add: main_pass_def apply_response_def)
  ultimately show ?thesis using m1 by auto
qed

lemma no_report_unregistered:
  assumes "rg_state m = NeedRegister" "\<not> rg_response_ready m" "\<forall>s. Response s \<notin> set es"
  shows "\<forall>t. Report t \<notin> set (fst (main_run jl args ut es m))"
proof -
  have "\<forall>t. Report t \<notin> set (fst (main_run jl args ut es m))"
    if "rg_state m = NeedRegister \<or> rg_state m = Waiting" "\<not> rg_response_ready m" "\<forall>s. Response s \<notin> set es" for m
    using that
  proof (induction es arbitrary: m)
    case (Cons e es)
    obtain a m' where st: "main_step jl args ut e m = (a, m')" by fastforce
    obtain b m2 where r: "main_run jl args ut es m' = (b, m2)" by fastforce
    have "(\<forall>t. Report t \<notin> set a) \<and> (rg_state m' = NeedRegister \<or> rg_state m' = Waiting) \<and> \<not> rg_response_ready m'"
    proof (cases e)
      case (Pass en)
      then show ?thesis using unregistered_pass [of args ut en m a m'] st Cons.prems by simp
    qed (use st Cons.prems in \<open>auto simp: on_peer_change_def push_event_def\<close>)
    then show ?case using Cons.IH [of m'] Cons.prems(3) st r by auto
  qed simp
  then show ?thesis using assms by blast
qed

definition event_ups :: "action list \<Rightarrow> string list" where
  "event_ups as = List.map_filter (\<lambda>a. case a of EventUp s \<Rightarrow> Some s | _ \<Rightarrow> None) as"

lemma event_ups_simps [simp]: "event_ups [] = []" "event_ups (InitRequest t r # as) = event_ups as"
  "event_ups (Report t # as) = event_ups as" "event_ups (EventUp s # as) = s # event_ups as"
  "event_ups (as @ bs) = event_ups as @ event_ups bs"
  by (simp_all add: event_ups_def List.map_filter_def)

fun rejections :: "json_lib \<Rightarrow> main_args \<Rightarrow> main_event list \<Rightarrow> string list" where
  "rejections jl args [] = []"
| "rejections jl args (Reject n i # es) = buildEventUpEnvelope jl n (ma_manufacturer args) [i] # rejections jl args es"
| "rejections jl args (_ # es) = rejections jl args es"

lemma main_pass_events:
  assumes "main_pass args ut en m = (a, m')" "\<forall>s \<in> set (pending_events m). s \<noteq> []"
  shows "event_ups a @ pending_events m' = pending_events m"
proof -
  obtain b m1 where r: "register_step args en (apply_response en m) = (b, m1)" by fastforce
  obtain c m2 where p: "report_step args en m1 = (c, m2)" by fastforce
  obtain d m3 where e: "event_step ut en m2 = (d, m3)" by fastforce
  have a: "a = b @ c @ d" "m' = m3" using assms(1) r p e by (simp_all add: main_pass_def)
  have "pending_events m1 = pending_events m \<and> event_ups b = []"
    using r by (auto simp: register_step_def apply_response_def Let_def split: if_split_asm)
  moreover have "pending_events m2 = pending_events m1 \<and> event_ups c = []"
    using p by (auto simp: report_step_def Let_def split: if_split_asm)
  ultimately show ?thesis using e a assms(2) by (auto simp: event_step_def split: if_split_asm list.split_asm)
qed

text \<open>
  C20: every rejection is reported. The events sent so far, followed by those still queued, are exactly the rejections of
  rule and configuration bundles, in order and each once, whatever publications fail in between.
\<close>

theorem rejections_reported:
  assumes "\<forall>j. jl_dump jl j \<noteq> []" "main_run jl args ut es main_new = (acts, m')"
  shows "event_ups acts @ pending_events m' = rejections jl args es"
proof -
  have "event_ups acts @ pending_events m' = pending_events m @ rejections jl args es"
    if "main_run jl args ut es m = (acts, m')" "\<forall>s \<in> set (pending_events m). s \<noteq> []" for m acts m'
    using that
  proof (induction es arbitrary: m acts)
    case (Cons e es)
    obtain a m1 where st: "main_step jl args ut e m = (a, m1)" by fastforce
    obtain b m2 where r: "main_run jl args ut es m1 = (b, m2)" by fastforce
    have ab: "acts = a @ b" "m2 = m'" using Cons.prems(1) st r by simp_all
    show ?case
    proof (cases e)
      case (Pass en)
      have p: "event_ups a @ pending_events m1 = pending_events m"
        using main_pass_events [of args ut en m a m1] st Pass Cons.prems(2) by simp
      then have "\<forall>s \<in> set (pending_events m1). s \<noteq> []" using Cons.prems(2) by (metis Un_iff set_append)
      then have "event_ups b @ pending_events m' = pending_events m1 @ rejections jl args es"
        using Cons.IH [of m1 b] r ab(2) by simp
      then show ?thesis using p ab(1) Pass by (metis append.assoc event_ups_simps(5) rejections.simps(3))
    next
      case (Response s)
      have "a = [] \<and> pending_events m1 = pending_events m" using st Response by (auto simp: on_response_def split: option.splits)
      then show ?thesis using Cons.IH [of m1 b] r ab Cons.prems(2) Response by simp
    next
      case PeerChange
      have "a = [] \<and> pending_events m1 = pending_events m" using st PeerChange by (auto simp: on_peer_change_def)
      then show ?thesis using Cons.IH [of m1 b] r ab Cons.prems(2) PeerChange by simp
    next
      case (Reject n i)
      have m1: "a = [] \<and> pending_events m1 = pending_events m @ [buildEventUpEnvelope jl n (ma_manufacturer args) [i]]"
        using st Reject by (auto simp: push_event_def)
      moreover have "buildEventUpEnvelope jl n (ma_manufacturer args) [i] \<noteq> []"
        using assms(1) by (simp add: buildEventUpEnvelope_def)
      ultimately show ?thesis using Cons.IH [of m1 b] r ab Cons.prems(2) Reject by auto
    qed
  qed simp
  from this [OF assms(2)] show ?thesis by (simp add: main_new_def)
qed

subsection \<open>An example\<close>

definition demo_args :: main_args where
  "demo_args = \<lparr> ma_manufacturer = ''acme'', ma_device_id = ''d1'', ma_vin = ''v'', ma_model_code = ''m'', ma_ecu_code = ''e'',
     ma_token = [], ma_registration = True \<rparr>"

definition demo_env :: "int \<Rightarrow> pass_env" where
  "demo_env now = \<lparr> en_now_ms = now, en_connected = True, en_save = True, en_update = True, en_subscribe = (\<lambda>_. True),
     en_publish = (\<lambda>_. True), en_random = replicate 16 7, en_jitter = 0 \<rparr>"

definition plain_json :: json_lib where
  "plain_json = \<lparr> jl_parse = (\<lambda>_. Inl ''bad''), jl_read = (\<lambda>_. None), jl_dump = (\<lambda>_. ''{}''), jl_pretty = (\<lambda>_ _. ''{}'') \<rparr>"

definition demo_reject :: event_item where
  "demo_reject = \<lparr> ei_event_type = ''RULE_REJECT'', ei_detail = ''bad seq'', ei_severity = ''MEDIUM'', ei_timestamp_ms = 0 \<rparr>"

theorem init_requests_spaced_witness:
  "sorted_wrt (\<lambda>a b. a + 10000 \<le> b) (init_times (fst (main_run plain_json demo_args ''up''
     [Pass (demo_env 0), Pass (demo_env 500), Pass (demo_env 30001), Response ''x'', Pass (demo_env 50000)]
     (main_start plain_json demo_args None 0))))"
  by (rule init_requests_spaced) (simp_all add: demo_env_def)

theorem rejections_reported_witness:
  "case main_run plain_json demo_args ''up'' [Reject 5 demo_reject, Pass (demo_env 9), Reject 10 demo_reject] main_new of
     (acts, m) \<Rightarrow> event_ups acts @ pending_events m = [''{}'', ''{}'']"
proof (cases "main_run plain_json demo_args ''up'' [Reject 5 demo_reject, Pass (demo_env 9), Reject 10 demo_reject] main_new")
  case (Pair acts m)
  have "\<forall>j. jl_dump plain_json j \<noteq> []" by (simp add: plain_json_def)
  from rejections_reported [OF this Pair] Pair show ?thesis by (simp add: buildEventUpEnvelope_def plain_json_def)
qed

subsection \<open>Credentials that are not what they seem\<close>

text \<open>
  A file of credentials whose expiry has a wrong type fails to load, but the client identifier and the token are taken
  and count as valid for ever.
\<close>

lemma broken_credentials_accepted:
  assumes "jl_parse jl s = Inr (JObject [(''client_id'', JString (c # cs)), (''token'', JString (t # ts)),
      (''token_expire'', JString e)])" "ma_token args = []"
  shows "rg_state (main_start jl args (Some s) now_sec) = Registered"
  using assms by (simp add: main_start_def cred_load_def j_get_def j_at_def j_value_def get_string_def get_i64_def get_num_def
      validAt_def no_credentials_def Let_def)

text \<open>A second response with an empty token is refused, but has already replaced the first one, which is still to be applied.\<close>

lemma bad_response_overwrites:
  assumes "rg_response_ready m" "jl_parse jl s = Inr (JObject [(''rc'', JNum 0), (''rn'', JString ''register_response''),
      (''request_id'', JString (rg_request_id m)), (''paras'', JObject [(''client_id'', JString c), (''token'', JString [])])])"
  shows "rg_response_ready (on_response jl s m) \<and> cd_token (rg_pending (on_response jl s m)) = []"
  using assms by (simp add: on_response_def parseInitResponse_def j_value_def j_get_def j_at_def get_string_def get_i32_def
      get_num_def)

end
