(* ===== verification/Mgr_Snapshot.thy ===== *)
theory Mgr_Snapshot
  imports Mgr_Cloud
begin

text \<open>
  \<open>linux/idsm_managerd/log_snapshot.cpp\<close>: a file is staged as chunks with a record of what is still to send, and each pass
  of the main loop sends some of them. The directories \<open>pending\<close>, \<open>done\<close> and \<open>expired\<close> are lists of transfers by name;
  what the program writes into \<open>meta.json\<close> and reads back is the record \<open>snap_meta\<close>, \<open>None\<close> when it is missing or
  cannot be read.
\<close>

subsection \<open>Transfers\<close>

definition kSnapshotChunkSize :: nat where "kSnapshotChunkSize = 128 * 1024"
definition kSnapshotMaxFileSize :: nat where "kSnapshotMaxFileSize = 64 * 1024 * 1024"
definition kSnapshotTransferTtlMs :: int where "kSnapshotTransferTtlMs = 24 * 3600 * 1000"
definition kSnapshotChunksPerPump :: nat where "kSnapshotChunksPerPump = 8"

record snapshot_request =
  sr_file :: string
  sr_event_id :: string
  sr_remark :: string

record snap_meta =
  sm_transfer_id :: string
  sm_filename :: string
  sm_total_size :: nat
  sm_total_chunks :: nat
  sm_sha256 :: string
  sm_log_time :: string
  sm_event_id :: string
  sm_ecu_code :: string
  sm_remark :: string
  sm_created_ms :: int
  sm_replay :: bool
  sm_meta_sent :: bool
  sm_next_chunks :: "nat list"

record transfer =
  tf_meta :: "snap_meta option"
  tf_chunks :: "nat \<rightharpoonup> string"

record snap_store =
  ss_pending :: "(string \<times> transfer) list"
  ss_done :: "(string \<times> transfer) list"
  ss_expired :: "(string \<times> transfer) list"

definition put :: "string \<Rightarrow> transfer \<Rightarrow> (string \<times> transfer) list \<Rightarrow> (string \<times> transfer) list" where
  "put tid t d = (tid, t) # filter (\<lambda>e. fst e \<noteq> tid) d"

definition remove_dir :: "string \<Rightarrow> (string \<times> transfer) list \<Rightarrow> (string \<times> transfer) list" where
  "remove_dir tid d = filter (\<lambda>e. fst e \<noteq> tid) d"

subsection \<open>Staging\<close>

function split_chunks :: "nat \<Rightarrow> string \<Rightarrow> string list" where
  "split_chunks n s = (if n = 0 \<or> s = [] then [] else take n s # split_chunks n (drop n s))"
  by pat_completeness auto
termination by (relation "measure (\<lambda>(n, s). length s)") auto

declare split_chunks.simps [simp del]

text \<open>The part of a path after its last separator.\<close>

definition filename :: "string \<Rightarrow> string" where
  "filename path = rev (takeWhile (\<lambda>c. c \<noteq> CHR ''/'') (rev path))"

text \<open>
  What the staging meets: the content of the file, if it is a regular one, the identifier, the text of the local time, and
  which writes succeed.
\<close>

record stage_env =
  sn_content :: "string \<rightharpoonup> string"
  sn_tid :: string
  sn_log_time :: string
  sn_mkdir :: bool
  sn_chunk_ok :: "nat \<Rightarrow> bool"
  sn_meta_ok :: bool

definition chunk_name :: "nat \<Rightarrow> string" where
  "chunk_name i = ''chunk_'' @ replicate (6 - length (dec i)) CHR ''0'' @ dec i"

definition new_meta :: "(bytes \<Rightarrow> bytes) \<Rightarrow> stage_env \<Rightarrow> snapshot_request \<Rightarrow> int \<Rightarrow> string \<Rightarrow> snap_meta" where
  "new_meta sha en req now_ms content = (let n = length (split_chunks kSnapshotChunkSize content) in
     \<lparr> sm_transfer_id = sn_tid en, sm_filename = filename (sr_file req), sm_total_size = length content, sm_total_chunks = n,
       sm_sha256 = sha256Hex sha content, sm_log_time = sn_log_time en, sm_event_id = sr_event_id req, sm_ecu_code = [],
       sm_remark = sr_remark req, sm_created_ms = now_ms, sm_replay = False, sm_meta_sent = False, sm_next_chunks = [0..<n] \<rparr>)"

text \<open>\<open>Inl\<close> is the error text. A staging that fails later leaves what it has written.\<close>

definition stageUpload :: "(bytes \<Rightarrow> bytes) \<Rightarrow> stage_env \<Rightarrow> snapshot_request \<Rightarrow> int \<Rightarrow> snap_store \<Rightarrow> (string + string) \<times> snap_store" where
  "stageUpload sha en req now_ms st = (case sn_content en (sr_file req) of
     None \<Rightarrow> (Inl (''snapshot file not found: '' @ sr_file req), st)
   | Some content \<Rightarrow>
       if content = [] then (Inl (''snapshot file unreadable or empty: '' @ sr_file req), st)
       else if length content > kSnapshotMaxFileSize
       then (Inl (''snapshot file too large ('' @ dec (length content) @ '' bytes)''), st)
       else if \<not> sn_mkdir en then (Inl ''mkdir: '', st)
       else let cs = split_chunks kSnapshotChunkSize content;
         good = takeWhile (sn_chunk_ok en) [0..<length cs];
         t = \<lparr> tf_meta = None, tf_chunks = (\<lambda>i. if i \<in> set good then Some (cs ! i) else None) \<rparr> in
         if length good < length cs
         then (Inl (''chunk write: '' @ chunk_name (length good)), st\<lparr>ss_pending := put (sn_tid en) t (ss_pending st)\<rparr>)
         else if \<not> sn_meta_ok en then (Inl ''meta write failed'', st\<lparr>ss_pending := put (sn_tid en) t (ss_pending st)\<rparr>)
         else (Inr (sn_tid en), st\<lparr>ss_pending := put (sn_tid en)
           (t\<lparr>tf_meta := Some (new_meta sha en req now_ms content)\<rparr>) (ss_pending st)\<rparr>))"

subsection \<open>Sending\<close>

definition meta_envelope :: "snap_meta \<Rightarrow> string \<Rightarrow> string \<Rightarrow> int \<Rightarrow> json" where
  "meta_envelope m manufacturer ecu_code now_ms = JObject (
     [(''ecuCode'', JString (if ecu_code = [] then sm_ecu_code m else ecu_code))] @
     (if sm_event_id m = [] then [] else [(''event_id'', JString (sm_event_id m))]) @
     [(''filename'', JString (sm_filename m)), (''log_time'', JString (sm_log_time m)),
      (''manufacturer'', JString manufacturer), (''msg_type'', JString ''log_snapshot''),
      (''protocol_version'', JString ''1.0'')] @
     (if sm_remark m = [] then [] else [(''remark'', JString (sm_remark m))]) @
     [(''replay'', JBool (sm_replay m)), (''sha256'', JString (sm_sha256 m)), (''timestamp'', JNum now_ms),
      (''total_chunks'', JNum (int (sm_total_chunks m))), (''total_size'', JNum (int (sm_total_size m))),
      (''transfer_id'', JString (sm_transfer_id m))])"

definition chunk_envelope :: "(bytes \<Rightarrow> bytes) \<Rightarrow> string \<Rightarrow> int \<Rightarrow> string \<Rightarrow> nat \<Rightarrow> string \<Rightarrow> json" where
  "chunk_envelope sha manufacturer now_ms tid i data = JObject [(''chunk_index'', JNum (int i)),
     (''chunk_sha256'', JString (sha256Hex sha data)), (''data'', JString (base64Encode (string_bytes data))),
     (''manufacturer'', JString manufacturer), (''msg_type'', JString ''log_snapshot_chunk''),
     (''protocol_version'', JString ''1.0''), (''timestamp'', JNum now_ms), (''transfer_id'', JString tid)]"

text \<open>
  The messages of a pass are numbered: \<open>pe_publish k\<close> tells whether the one with number \<open>k\<close> is published. \<open>pe_save tid b\<close>
  tells whether the record can be saved after the meta message (\<open>b\<close> false) or after the chunks, \<open>pe_move tid b\<close> whether
  the transfer can be moved to \<open>expired\<close> (\<open>b\<close> false) or to \<open>done\<close>; the code does not look at that.
\<close>

record pump_env =
  pe_manufacturer :: string
  pe_ecu_code :: string
  pe_now_ms :: int
  pe_publish :: "nat \<Rightarrow> bool"
  pe_save :: "string \<Rightarrow> bool \<Rightarrow> bool"
  pe_move :: "string \<Rightarrow> bool \<Rightarrow> bool"

datatype chunk_end = Drained | Budget | Missing nat | Refused

text \<open>The chunks that are sent, at most as many as the budget says, what is left to send, and why the loop ended.\<close>

fun send_chunks :: "(nat \<Rightarrow> bool) \<Rightarrow> (nat \<rightharpoonup> string) \<Rightarrow> nat \<Rightarrow> nat \<Rightarrow> nat list \<Rightarrow> (nat \<times> string) list \<times> nat list \<times> chunk_end" where
  "send_chunks pub cs b k [] = ([], [], Drained)"
| "send_chunks pub cs 0 k (i # is) = ([], i # is, Budget)"
| "send_chunks pub cs (Suc b) k (i # is) = (case cs i of
     None \<Rightarrow> ([], i # is, Missing i)
   | Some data \<Rightarrow> if \<not> pub k then ([], i # is, Refused)
       else case send_chunks pub cs b (k + 1) is of (sent, next, e) \<Rightarrow> ((i, data) # sent, next, e))"

text \<open>What became of one transfer: it goes on to the next one or ends the pass, with the error text if there is one.\<close>

record pumped =
  pd_messages :: "json list"
  pd_store :: snap_store
  pd_stop :: bool
  pd_err :: string

definition expired :: "int \<Rightarrow> snap_meta \<Rightarrow> bool" where
  "expired now_ms m \<longleftrightarrow> now_ms - sm_created_ms m > kSnapshotTransferTtlMs"

text \<open>The chunks of a transfer whose meta message is out; \<open>t\<close> is as on the disk, \<open>m\<close> as in memory, \<open>k\<close> the number of the next message.\<close>

definition pump_chunks :: "(bytes \<Rightarrow> bytes) \<Rightarrow> pump_env \<Rightarrow> string \<Rightarrow> transfer \<Rightarrow> snap_meta \<Rightarrow> nat \<Rightarrow> snap_store \<Rightarrow> pumped" where
  "pump_chunks sha en tid t m k st = (case send_chunks (pe_publish en) (tf_chunks t) kSnapshotChunksPerPump k (sm_next_chunks m) of
     (sent, left, e) \<Rightarrow>
       let msgs = map (\<lambda>(i, data). chunk_envelope sha (pe_manufacturer en) (pe_now_ms en) (sm_transfer_id m) i data) sent;
         saved = (if pe_save en tid True
           then st\<lparr>ss_pending := put tid (t\<lparr>tf_meta := Some (m\<lparr>sm_next_chunks := left\<rparr>)\<rparr>) (ss_pending st)\<rparr> else st);
         save_err = (if pe_save en tid True then [] else ''meta write failed'');
         enough = length sent \<ge> kSnapshotChunksPerPump in
       (case e of
          Missing i \<Rightarrow> \<lparr> pd_messages = msgs, pd_store = st, pd_stop = True, pd_err = ''chunk missing: '' @ chunk_name i \<rparr>
        | Refused \<Rightarrow> \<lparr> pd_messages = msgs, pd_store = saved, pd_stop = True, pd_err = save_err \<rparr>
        | Drained \<Rightarrow> \<lparr> pd_messages = msgs, pd_store = (if pe_move en tid True
              then st\<lparr>ss_pending := remove_dir tid (ss_pending st), ss_done := put tid t (ss_done st)\<rparr> else st), pd_stop = enough, pd_err = [] \<rparr>
        | Budget \<Rightarrow> \<lparr> pd_messages = msgs, pd_store = saved, pd_stop = (\<not> pe_save en tid True \<or> enough), pd_err = save_err \<rparr>))"

definition pump_transfer :: "(bytes \<Rightarrow> bytes) \<Rightarrow> pump_env \<Rightarrow> nat \<Rightarrow> string \<times> transfer \<Rightarrow> snap_store \<Rightarrow> pumped" where
  "pump_transfer sha en k e st = (case e of (tid, t) \<Rightarrow> (case tf_meta t of
     None \<Rightarrow> \<lparr> pd_messages = [], pd_store = st, pd_stop = False, pd_err = [] \<rparr>
   | Some m \<Rightarrow>
       if expired (pe_now_ms en) m
       then \<lparr> pd_messages = [], pd_store = (if pe_move en tid False
           then st\<lparr>ss_pending := remove_dir tid (ss_pending st), ss_expired := put tid t (ss_expired st)\<rparr> else st),
         pd_stop = False, pd_err = [] \<rparr>
       else if sm_meta_sent m then pump_chunks sha en tid t m k st
       else let m = m\<lparr>sm_replay := (pe_now_ms en - sm_created_ms m > 5 * 60 * 1000)\<rparr>;
         env = meta_envelope m (pe_manufacturer en) (pe_ecu_code en) (pe_now_ms en);
         keep = (\<lambda>m. st\<lparr>ss_pending := put tid (t\<lparr>tf_meta := Some m\<rparr>) (ss_pending st)\<rparr>) in
         if \<not> pe_publish en k
         then \<lparr> pd_messages = [], pd_store = (if pe_save en tid False then keep m else st), pd_stop = True,
           pd_err = (if pe_save en tid False then [] else ''meta write failed'') \<rparr>
         else let m = m\<lparr>sm_meta_sent := True\<rparr> in
           if \<not> pe_save en tid False
           then \<lparr> pd_messages = [env], pd_store = st, pd_stop = True, pd_err = ''meta write failed'' \<rparr>
           else let p = pump_chunks sha en tid (t\<lparr>tf_meta := Some m\<rparr>) m (k + 1) (keep m) in
             p\<lparr>pd_messages := env # pd_messages p\<rparr>))"

fun pump_all :: "(bytes \<Rightarrow> bytes) \<Rightarrow> pump_env \<Rightarrow> nat \<Rightarrow> (string \<times> transfer) list \<Rightarrow> snap_store \<Rightarrow> pumped" where
  "pump_all sha en k [] st = \<lparr> pd_messages = [], pd_store = st, pd_stop = False, pd_err = [] \<rparr>"
| "pump_all sha en k (e # es) st = (let p = pump_transfer sha en k e st in
     if pd_stop p then p
     else let q = pump_all sha en (k + length (pd_messages p)) es (pd_store p) in
       q\<lparr>pd_messages := pd_messages p @ pd_messages q\<rparr>)"

text \<open>A pass sends in the order of the names; it made progress when a message went out.\<close>

definition pump :: "(bytes \<Rightarrow> bytes) \<Rightarrow> pump_env \<Rightarrow> snap_store \<Rightarrow> pumped" where
  "pump sha en st = pump_all sha en 0 (sort_key fst (ss_pending st)) st"

subsection \<open>Requests for missing chunks\<close>

definition is_unsigned :: "json \<Rightarrow> bool" where
  "is_unsigned j = (case j of JNum n \<Rightarrow> n \<ge> 0 | _ \<Rightarrow> False)"

definition missing_indices :: "nat \<Rightarrow> json list \<Rightarrow> nat list option" where
  "missing_indices n_chunks vs = (if \<exists>v \<in> set vs. \<not> is_unsigned v \<or> (case v of JNum n \<Rightarrow> nat n \<ge> n_chunks | _ \<Rightarrow> False) then None
     else Some (sorted_list_of_set (set (map (\<lambda>v. case v of JNum n \<Rightarrow> nat n | _ \<Rightarrow> 0) vs))))"

text \<open>
  The result of a request: \<open>None\<close> is an exception; otherwise the error text, if it is refused. \<open>moved\<close> tells whether a
  finished transfer can be moved back, \<open>saved\<close> whether the record can be written.
\<close>

definition reactivate :: "bool \<Rightarrow> string \<Rightarrow> snap_store \<Rightarrow> (string option \<times> snap_store)" where
  "reactivate moved tid st = (if map_of (ss_pending st) tid \<noteq> None then (None, st)
     else case map_of (ss_done st) tid of None \<Rightarrow> (Some (''unknown or finished transfer: '' @ tid), st)
     | Some t \<Rightarrow> if \<not> moved then (Some ''nack reactivate: '', st)
         else (None, st\<lparr>ss_done := remove_dir tid (ss_done st), ss_pending := put tid t (ss_pending st)\<rparr>))"

definition onNack :: "json_lib \<Rightarrow> bool \<Rightarrow> bool \<Rightarrow> string \<Rightarrow> int \<Rightarrow> snap_store \<Rightarrow> (string option \<times> snap_store) option" where
  "onNack jl moved saved payload now_ms st = (case jl_parse jl payload of
     Inl what \<Rightarrow> Some (Some (''nack parse: '' @ what), st)
   | Inr j \<Rightarrow> Option.bind (j_value j ''transfer_id'' get_string []) (\<lambda>tid.
       if tid = [] then Some (Some ''nack missing transfer_id'', st)
       else Some (case reactivate moved tid st of (Some err, st) \<Rightarrow> (Some err, st)
       | (None, st) \<Rightarrow> (case map_of (ss_pending st) tid of
           None \<Rightarrow> (Some (''unknown or finished transfer: '' @ tid), st)
         | Some t \<Rightarrow> (case tf_meta t of
             None \<Rightarrow> (Some ''meta unreadable'', st)
           | Some m \<Rightarrow>
               if expired now_ms m then (Some ''transfer expired, nack ignored'', st)
               else if \<not> (case j_at j ''missing'' of Some v \<Rightarrow> is_array v \<and> \<not> j_empty v | None \<Rightarrow> False)
               then (Some ''nack missing indices'', st)
               else (case missing_indices (sm_total_chunks m) (case j_at j ''missing'' of Some v \<Rightarrow> j_elems v | None \<Rightarrow> []) of
                 None \<Rightarrow> (Some ''nack bad chunk index'', st)
               | Some next \<Rightarrow> if \<not> saved then (Some ''meta write failed'', st)
                   else (None, st\<lparr>ss_pending := put tid (t\<lparr>tf_meta := Some (m\<lparr>sm_next_chunks := next\<rparr>)\<rparr>) (ss_pending st)\<rparr>)))))))"

end
