(* ===== verification/Mgr_Snapshot_Facts.thy ===== *)
theory Mgr_Snapshot_Facts
  imports Mgr_Snapshot
begin

text \<open>
  What the snapshots promise: the chunks of a staged file are the file, and when messages get through, enough passes send
  exactly them, in order and each once.
\<close>

subsection \<open>Chunks\<close>

lemma split_chunks_concat: "n > 0 \<Longrightarrow> concat (split_chunks n s) = s"
  by (induction n s rule: split_chunks.induct) (subst split_chunks.simps, simp)

lemma split_chunks_length: "c \<in> set (split_chunks n s) \<Longrightarrow> length c \<le> n \<and> c \<noteq> []"
proof (induction n s rule: split_chunks.induct)
  case (1 n s)
  then show ?case by (cases "n = 0 \<or> s = []") (auto simp: split_chunks.simps [of n s])
qed

lemma split_chunks_Nil [simp]: "split_chunks n s = [] \<longleftrightarrow> n = 0 \<or> s = []"
  by (subst split_chunks.simps) simp

lemma send_chunks_all:
  assumes "\<forall>k. pub k" "\<forall>i \<in> set is. cs i \<noteq> None"
  shows "send_chunks pub cs b k is = (map (\<lambda>i. (i, the (cs i))) (take b is), drop b is, if length is \<le> b then Drained else Budget)"
  using assms(2)
proof (induction "is" arbitrary: b k)
  case (Cons i "is")
  then show ?case using assms(1) by (cases b) (auto split: option.splits)
qed simp

text \<open>The bytes that a message carries.\<close>

definition message_data :: "json \<Rightarrow> bytes" where
  "message_data j = (case j_at j ''data'' of Some (JString s) \<Rightarrow> (case base64Decode s of Some p \<Rightarrow> p | None \<Rightarrow> []) | _ \<Rightarrow> [])"

lemma chunk_data [simp]: "message_data (chunk_envelope sha mf now tid i data) = string_bytes data"
  by (simp add: message_data_def chunk_envelope_def j_at_def base64_round)

lemma meta_data [simp]: "message_data (meta_envelope m mf ecu now) = []"
  by (simp add: message_data_def meta_envelope_def j_at_def)

lemma string_bytes_append [simp]: "string_bytes (a @ b) = string_bytes a @ string_bytes b" "string_bytes [] = []"
  by (simp_all add: string_bytes_def)

lemma string_bytes_concat: "string_bytes (concat cs) = concat (map string_bytes cs)"
  by (induction cs) simp_all

subsection \<open>A pass over one transfer\<close>

definition good_pass :: "int \<Rightarrow> pump_env \<Rightarrow> bool" where
  "good_pass created_ms en \<longleftrightarrow> (\<forall>k. pe_publish en k) \<and> (\<forall>t b. pe_save en t b) \<and> (\<forall>t b. pe_move en t b) \<and>
     pe_now_ms en - created_ms \<le> kSnapshotTransferTtlMs"

definition alone :: "string \<Rightarrow> transfer \<Rightarrow> snap_meta \<Rightarrow> string list \<Rightarrow> nat \<Rightarrow> snap_store \<Rightarrow> bool" where
  "alone tid t m cs i st \<longleftrightarrow> ss_pending st = [(tid, t)] \<and> tf_meta t = Some m \<and> sm_next_chunks m = [i..<length cs] \<and>
     (\<forall>k < length cs. tf_chunks t k = Some (cs ! k))"

definition payload_of :: "json list \<Rightarrow> bytes" where
  "payload_of js = concat (map message_data js)"

lemma payload_simps [simp]: "payload_of [] = []" "payload_of (j # js) = message_data j @ payload_of js"
  "payload_of (js @ ks) = payload_of js @ payload_of ks"
  by (simp_all add: payload_of_def)

lemma put_alone [simp]: "put tid t [(tid, t')] = [(tid, t)]" "remove_dir tid [(tid, t')] = []"
  by (simp_all add: put_def remove_dir_def)

lemma map_nth_range: "j \<le> length cs \<Longrightarrow> map (\<lambda>k. cs ! k) [i..<j] = drop i (take j cs)"
  by (rule nth_equalityI) auto

lemma chunk_payload: "payload_of (map (\<lambda>(i, data). chunk_envelope sha mf now tid i data) (map (\<lambda>i. (i, cs ! i)) ks)) =
    concat (map (\<lambda>i. string_bytes (cs ! i)) ks)"
  by (induction ks) simp_all

lemma pump_chunks_alone:
  assumes "alone tid t m cs i st" "\<forall>k. pe_publish en k" "\<forall>t b. pe_save en t b" "\<forall>t b. pe_move en t b"
  shows "payload_of (pd_messages (pump_chunks sha en tid t m k st)) = string_bytes (concat (take 8 (drop i cs)))"
    and "if length cs \<le> i + 8 then ss_pending (pd_store (pump_chunks sha en tid t m k st)) = []
      else \<exists>t'. alone tid t' (m\<lparr>sm_next_chunks := [i + 8..<length cs]\<rparr>) cs (i + 8) (pd_store (pump_chunks sha en tid t m k st))"
proof -
  have p: "ss_pending st = [(tid, t)]" "sm_next_chunks m = [i..<length cs]" "tf_meta t = Some m"
    and c: "\<forall>k < length cs. tf_chunks t k = Some (cs ! k)" using assms(1) by (simp_all add: alone_def)
  define ks where "ks = take 8 [i..<length cs]"
  have s: "send_chunks (pe_publish en) (tf_chunks t) kSnapshotChunksPerPump k (sm_next_chunks m) =
      (map (\<lambda>i. (i, cs ! i)) ks, [i + 8..<length cs], if length cs - i \<le> 8 then Drained else Budget)"
    using c unfolding p(2) ks_def
    by (subst send_chunks_all [OF assms(2)]) (auto simp: kSnapshotChunksPerPump_def add.commute dest: in_set_takeD)
  have t: "ks = [i..<min (i + 8) (length cs)]" by (simp add: ks_def take_upt min_def)
  have "map ((!) cs) ks = take 8 (drop i cs)"
    using map_nth_range [of "min (i + 8) (length cs)" cs i] unfolding t by (simp add: take_drop min_def add.commute)
  from arg_cong [OF this, of "map string_bytes"]
  have "map (\<lambda>i. string_bytes (cs ! i)) ks = map string_bytes (take 8 (drop i cs))" by (simp only: map_map comp_def)
  then have d: "concat (map (\<lambda>i. string_bytes (cs ! i)) ks) = string_bytes (concat (take 8 (drop i cs)))"
    by (simp only: string_bytes_concat)
  show "payload_of (pd_messages (pump_chunks sha en tid t m k st)) = string_bytes (concat (take 8 (drop i cs)))"
    unfolding pump_chunks_def s by (simp only: prod.case Let_def chunk_payload d split: chunk_end.split if_split) (simp add: chunk_payload d del: map_map)
  show "if length cs \<le> i + 8 then ss_pending (pd_store (pump_chunks sha en tid t m k st)) = []
      else \<exists>t'. alone tid t' (m\<lparr>sm_next_chunks := [i + 8..<length cs]\<rparr>) cs (i + 8) (pd_store (pump_chunks sha en tid t m k st))"
    unfolding pump_chunks_def s using p c assms(3,4) by (auto simp: alone_def)
qed

text \<open>A whole pass, when this is the only transfer.\<close>

lemma pump_single:
  assumes "ss_pending st = [(tid, t)]"
  shows "pd_messages (pump sha en st) = pd_messages (pump_transfer sha en 0 (tid, t) st)"
    and "pd_store (pump sha en st) = pd_store (pump_transfer sha en 0 (tid, t) st)"
  using assms by (simp_all add: pump_def Let_def)

lemma pump_nothing: "ss_pending st = [] \<Longrightarrow> pd_messages (pump sha en st) = [] \<and> pd_store (pump sha en st) = st"
  by (simp add: pump_def)

definition rest_of :: "int \<Rightarrow> string list \<Rightarrow> nat \<Rightarrow> snap_store \<Rightarrow> bool" where
  "rest_of created_ms cs i st \<longleftrightarrow> (if length cs \<le> i then ss_pending st = []
     else \<exists>tid t m. alone tid t m cs i st \<and> sm_created_ms m = created_ms)"

lemma pump_transfer_alone:
  assumes "alone tid t m cs i st" "good_pass (sm_created_ms m) en"
  shows "payload_of (pd_messages (pump_transfer sha en 0 (tid, t) st)) = string_bytes (concat (take 8 (drop i cs)))"
    and "rest_of (sm_created_ms m) cs (i + 8) (pd_store (pump_transfer sha en 0 (tid, t) st))"
proof -
  have pub: "\<forall>k. pe_publish en k" and sav: "\<forall>t b. pe_save en t b" and mov: "\<forall>t b. pe_move en t b" and ex: "\<not> expired (pe_now_ms en) m"
    using assms(2) by (simp_all add: good_pass_def expired_def)
  have m: "tf_meta t = Some m" "ss_pending st = [(tid, t)]" using assms(1) by (simp_all add: alone_def)
  define m1 where "m1 = (if sm_meta_sent m then m
    else m\<lparr>sm_replay := (pe_now_ms en - sm_created_ms m > 5 * 60 * 1000), sm_meta_sent := True\<rparr>)"
  define t1 where "t1 = (if sm_meta_sent m then t else t\<lparr>tf_meta := Some m1\<rparr>)"
  define st1 where "st1 = (if sm_meta_sent m then st else st\<lparr>ss_pending := [(tid, t1)]\<rparr>)"
  have a: "alone tid t1 m1 cs i st1" using assms(1) by (simp add: alone_def t1_def m1_def st1_def)
  have c: "sm_created_ms m1 = sm_created_ms m" by (simp add: m1_def)
  obtain k pre where "pump_transfer sha en 0 (tid, t) st =
      (pump_chunks sha en tid t1 m1 k st1)\<lparr>pd_messages := pre @ pd_messages (pump_chunks sha en tid t1 m1 k st1)\<rparr>"
    and pre: "payload_of pre = []"
  proof (cases "sm_meta_sent m")
    case True
    then show thesis using that [where k = 0 and pre = "[]"] m ex by (simp add: pump_transfer_def t1_def m1_def st1_def)
  next
    case False
    then show thesis using that [where k = 1 and pre = "[meta_envelope (m\<lparr>sm_replay := (pe_now_ms en - sm_created_ms m > 5 * 60 * 1000)\<rparr>)
        (pe_manufacturer en) (pe_ecu_code en) (pe_now_ms en)]"] m ex pub sav
      by (simp add: pump_transfer_def t1_def m1_def st1_def Let_def)
  qed
  then have p: "payload_of (pd_messages (pump_transfer sha en 0 (tid, t) st)) =
      payload_of (pd_messages (pump_chunks sha en tid t1 m1 k st1))"
    "pd_store (pump_transfer sha en 0 (tid, t) st) = pd_store (pump_chunks sha en tid t1 m1 k st1)" by simp_all
  note q = pump_chunks_alone [OF a pub sav mov, where sha = sha and k = k]
  show "payload_of (pd_messages (pump_transfer sha en 0 (tid, t) st)) = string_bytes (concat (take 8 (drop i cs)))"
    using p(1) q(1) by simp
  show "rest_of (sm_created_ms m) cs (i + 8) (pd_store (pump_transfer sha en 0 (tid, t) st))"
  proof (cases "length cs \<le> i + 8")
    case False
    then obtain t' where "alone tid t' (m1\<lparr>sm_next_chunks := [i + 8..<length cs]\<rparr>) cs (i + 8)
        (pd_store (pump_chunks sha en tid t1 m1 k st1))" using q(2) by auto
    moreover have "sm_created_ms (m1\<lparr>sm_next_chunks := [i + 8..<length cs]\<rparr>) = sm_created_ms m" using c by simp
    ultimately show ?thesis using False by (simp only: p(2) rest_of_def if_False) blast
  qed (use q(2) in \<open>simp add: p(2) rest_of_def\<close>)
qed

fun pump_run :: "(bytes \<Rightarrow> bytes) \<Rightarrow> pump_env list \<Rightarrow> snap_store \<Rightarrow> json list \<times> snap_store" where
  "pump_run sha [] st = ([], st)"
| "pump_run sha (en # ens) st = (let p = pump sha en st in case pump_run sha ens (pd_store p) of
     (js, st) \<Rightarrow> (pd_messages p @ js, st))"

lemma pump_run_rest:
  "rest_of c cs i st \<Longrightarrow> \<forall>en \<in> set ens. good_pass c en \<Longrightarrow>
    payload_of (fst (pump_run sha ens st)) = string_bytes (concat (take (8 * length ens) (drop i cs))) \<and>
    rest_of c cs (i + 8 * length ens) (snd (pump_run sha ens st))"
proof (induction ens arbitrary: i st)
  case (Cons en ens)
  have p: "payload_of (pd_messages (pump sha en st)) = string_bytes (concat (take 8 (drop i cs))) \<and>
    rest_of c cs (i + 8) (pd_store (pump sha en st))"
  proof (cases "length cs \<le> i")
    case True
    then show ?thesis using Cons.prems(1) pump_nothing [of st sha en] by (simp add: rest_of_def)
  next
    case False
    then obtain tid t m where a: "alone tid t m cs i st" "sm_created_ms m = c" using Cons.prems(1) by (auto simp: rest_of_def)
    have "ss_pending st = [(tid, t)]" using a(1) by (simp add: alone_def)
    then show ?thesis using pump_transfer_alone [OF a(1), of en sha] a(2) Cons.prems(2) by (simp add: pump_single)
  qed
  have "take 8 (drop i cs) @ take (8 * length ens) (drop (i + 8) cs) = take (8 + 8 * length ens) (drop i cs)"
    by (simp add: take_add add.commute)
  then have "string_bytes (concat (take 8 (drop i cs))) @ string_bytes (concat (take (8 * length ens) (drop (i + 8) cs))) =
      string_bytes (concat (take (8 * length (en # ens)) (drop i cs)))"
    by (simp flip: string_bytes_append concat_append)
  moreover obtain js st2 where r: "pump_run sha ens (pd_store (pump sha en st)) = (js, st2)" by fastforce
  ultimately show ?case using p Cons.IH [of "i + 8" "pd_store (pump sha en st)"] Cons.prems(2)
    by (simp add: Let_def add.assoc r)
qed simp

text \<open>
  C21: a snapshot arrives whole. After a file has been staged as the only transfer, passes within 24 hours in which messages,
  writes and moves get through, enough for its number of chunks, publish messages whose decoded data, one after the other, are exactly the bytes of
  the file, and leave nothing pending.
\<close>

theorem snapshot_uploaded:
  assumes "stageUpload sha sn req now_ms st = (Inr tid, st1)" "ss_pending st = []" "sn_content sn (sr_file req) = Some content"
    and "\<forall>en \<in> set ens. good_pass now_ms en" "length (split_chunks kSnapshotChunkSize content) \<le> 8 * length ens"
  shows "payload_of (fst (pump_run sha ens st1)) = string_bytes content \<and> ss_pending (snd (pump_run sha ens st1)) = []"
proof -
  let ?cs = "split_chunks kSnapshotChunkSize content"
  let ?m = "new_meta sha sn req now_ms content"
  let ?good = "takeWhile (sn_chunk_ok sn) [0..<length ?cs]"
  have size: "kSnapshotChunkSize > 0" by (simp add: kSnapshotChunkSize_def)
  have c: "content \<noteq> []" "tid = sn_tid sn" "length ?cs \<le> length ?good"
    and st1: "st1 = st\<lparr>ss_pending := put (sn_tid sn) \<lparr> tf_meta = Some ?m,
      tf_chunks = (\<lambda>i. if i \<in> set ?good then Some (?cs ! i) else None) \<rparr> (ss_pending st)\<rparr>"
    using assms(1,3) by (auto simp: stageUpload_def Let_def not_less split: if_split_asm)
  have good: "?good = [0..<length ?cs]"
    using c(3) length_takeWhile_le [of "sn_chunk_ok sn" "[0..<length ?cs]"]
    by (metis diff_zero le_antisym length_upt takeWhile_eq_take take_all)
  have mem: "i \<in> set ?good \<longleftrightarrow> i < length ?cs" for i by (simp only: good) simp
  have "alone tid \<lparr> tf_meta = Some ?m, tf_chunks = (\<lambda>i. if i \<in> set ?good then Some (?cs ! i) else None) \<rparr> ?m ?cs 0 st1"
    using assms(2) c(2) by (simp add: alone_def st1 put_def new_meta_def Let_def mem)
  moreover have "sm_created_ms ?m = now_ms" by (simp add: new_meta_def Let_def)
  moreover have "?cs \<noteq> []" using c(1) size by simp
  ultimately have "rest_of now_ms ?cs 0 st1" by (auto simp: rest_of_def)
  from pump_run_rest [OF this assms(4)] assms(5) split_chunks_concat [OF size, of content] show ?thesis
    by (simp add: rest_of_def)
qed

subsection \<open>Requests for missing chunks\<close>

text \<open>
  A request that is accepted replaces what was still to send by the indices it names: the chunks of an unfinished transfer
  that had not been sent yet are not sent any more.
\<close>

lemma nack_replaces:
  assumes "onNack jl moved saved payload now_ms st = Some (None, st')" "jl_parse jl payload = Inr j"
    "j_value j ''transfer_id'' get_string [] = Some tid" "map_of (ss_pending st) tid = Some t" "tf_meta t = Some m"
    "j_at j ''missing'' = Some (JArray vs)"
  shows "\<exists>next. missing_indices (sm_total_chunks m) vs = Some next \<and>
    map_of (ss_pending st') tid = Some (t\<lparr>tf_meta := Some (m\<lparr>sm_next_chunks := next\<rparr>)\<rparr>)"
  using assms by (auto simp: onNack_def reactivate_def put_def is_array_def j_empty_def j_elems_def split: if_split_asm option.split_asm)

lemma missing_indices_set: "missing_indices n vs = Some next \<Longrightarrow> \<forall>i \<in> set next. i < n \<and> JNum (int i) \<in> set vs"
  by (fastforce simp: missing_indices_def is_unsigned_def split: if_split_asm json.splits)

text \<open>A chunk that is missing on the disk ends the pass, so the transfers after it wait until this one has expired.\<close>

lemma missing_chunk_blocks:
  assumes "tf_meta t = Some m" "sm_meta_sent m" "\<not> expired (pe_now_ms en) m" "sm_next_chunks m = i # is" "tf_chunks t i = None"
  shows "pump_all sha en k ((tid, t) # es) st =
    \<lparr> pd_messages = [], pd_store = st, pd_stop = True, pd_err = ''chunk missing: '' @ chunk_name i \<rparr>"
  using assms by (simp add: pump_transfer_def pump_chunks_def kSnapshotChunksPerPump_def numeral_eq_Suc Let_def)

text \<open>
  A finished transfer that cannot be moved stays pending with the record of the last pass, whose chunks are sent again in
  the next one.
\<close>

lemma unmoved_sent_again:
  assumes "ss_pending st = [(tid, t)]" "tf_meta t = Some m" "sm_meta_sent m" "\<not> expired (pe_now_ms en) m" "\<not> pe_move en tid True"
    and "send_chunks (pe_publish en) (tf_chunks t) kSnapshotChunksPerPump 0 (sm_next_chunks m) = (sent, [], Drained)"
  shows "pd_store (pump sha en st) = st" "length (pd_messages (pump sha en st)) = length sent"
  using assms by (simp_all add: pump_single [OF assms(1)] pump_transfer_def pump_chunks_def)

subsection \<open>An example\<close>

definition demo_request :: snapshot_request where
  "demo_request = \<lparr> sr_file = ''/tmp/a.pcap'', sr_event_id = [], sr_remark = [] \<rparr>"

definition demo_stage :: stage_env where
  "demo_stage = \<lparr> sn_content = (\<lambda>_. Some ''abc''), sn_tid = ''t1'', sn_log_time = [], sn_mkdir = True, sn_chunk_ok = (\<lambda>_. True),
     sn_meta_ok = True \<rparr>"

definition demo_pump :: pump_env where
  "demo_pump = \<lparr> pe_manufacturer = ''acme'', pe_ecu_code = ''e'', pe_now_ms = 5, pe_publish = (\<lambda>_. True), pe_save = (\<lambda>_ _. True),
     pe_move = (\<lambda>_ _. True) \<rparr>"

definition no_transfers :: snap_store where
  "no_transfers = \<lparr> ss_pending = [], ss_done = [], ss_expired = [] \<rparr>"

lemma split_small: "s \<noteq> [] \<Longrightarrow> length s \<le> n \<Longrightarrow> split_chunks n s = [s]"
  by (subst split_chunks.simps) (cases s, simp_all)

theorem snapshot_uploaded_witness:
  "payload_of (fst (pump_run rev [demo_pump] (snd (stageUpload rev demo_stage demo_request 0 no_transfers)))) = string_bytes ''abc''"
proof -
  have c: "split_chunks kSnapshotChunkSize ''abc'' = [''abc'']" by (rule split_small) (simp_all add: kSnapshotChunkSize_def)
  have s: "fst (stageUpload rev demo_stage demo_request 0 no_transfers) = Inr ''t1''"
    by (simp add: stageUpload_def demo_stage_def kSnapshotMaxFileSize_def c Let_def)
  obtain st1 where st1: "stageUpload rev demo_stage demo_request 0 no_transfers = (Inr ''t1'', st1)"
    using s by (cases "stageUpload rev demo_stage demo_request 0 no_transfers") simp
  have "payload_of (fst (pump_run rev [demo_pump] st1)) = string_bytes ''abc'' \<and> ss_pending (snd (pump_run rev [demo_pump] st1)) = []"
    by (rule snapshot_uploaded [OF st1, where content = "''abc''"])
      (simp_all add: no_transfers_def demo_stage_def c good_pass_def demo_pump_def kSnapshotTransferTtlMs_def)
  then show ?thesis by (simp add: st1)
qed

end
