(* ===== verification/Mgr_Channel.thy ===== *)
theory Mgr_Channel
  imports Mgr_Queue_Facts Mgr_Snapshot_Facts
begin

text \<open>
  The way of a line through the daemon (\<open>linux/idsm_managerd/main.cpp\<close>): the callback of a probe's socket stages a file when
  the line is a command to upload it, and otherwise appends the line to the queue of the channel; the upload loop takes a
  batch of a queue, builds one message of those lines that can be read, publishes it, and moves the cursor. A batch of which no line
  can be read is dropped.
\<close>

subsection \<open>The callback of the socket\<close>

definition cmd_key :: string where
  "cmd_key = [CHR 0x22] @ ''cmd'' @ [CHR 0x22]"

text \<open>The command in a line, if it is one. An exception is caught, and the line is taken for an alert.\<close>

definition log_upload_of :: "json_lib \<Rightarrow> string \<Rightarrow> snapshot_request option" where
  "log_upload_of jl line = (if cut_at_sub cmd_key line = None then None
     else case jl_parse jl line of Inl _ \<Rightarrow> None
     | Inr j \<Rightarrow> do {
         cmd \<leftarrow> j_value j ''cmd'' get_string [];
         if cmd \<noteq> ''log_upload'' then None else do {
           file \<leftarrow> j_value j ''file'' get_string [];
           event_id \<leftarrow> j_value j ''event_id'' get_string [];
           remark \<leftarrow> j_value j ''remark'' get_string [];
           Some \<lparr> sr_file = file, sr_event_id = event_id, sr_remark = remark \<rparr> } })"

record channel =
  ch_queue :: alert_queue
  ch_snapshots :: snap_store

text \<open>The result of the append is ignored by the code. \<open>None\<close> is an empty line, which the connection does not hand over.\<close>

definition on_line :: "json_lib \<Rightarrow> (bytes \<Rightarrow> bytes) \<Rightarrow> stage_env \<Rightarrow> int \<Rightarrow> (string \<Rightarrow> string \<times> bool) \<Rightarrow> string \<Rightarrow> channel \<Rightarrow>
    channel option" where
  "on_line jl sha sn now_ms write line ch = (case log_upload_of jl line of
     Some req \<Rightarrow> Some (ch\<lparr>ch_snapshots := snd (stageUpload sha sn req now_ms (ch_snapshots ch))\<rparr>)
   | None \<Rightarrow> map_option (\<lambda>(_, q). ch\<lparr>ch_queue := q\<rparr>) (queue_append write line (ch_queue ch)))"

subsection \<open>The upload loop\<close>

text \<open>What a round meets: the time, the version of the rules, and which calls succeed.\<close>

record upload_env =
  ue_now_ms :: int
  ue_rule_version :: string
  ue_readable :: bool
  ue_publish :: bool
  ue_save :: bool
  ue_truncated :: bool
  ue_resave :: bool

definition log_topic :: "sender \<Rightarrow> string" where
  "log_topic sd = ''oc/devices/'' @ sd_device_id sd @ ''/sys/idps/'' @ nodeTypeToTopicSeg (sd_node_type sd) @ ''/log''"

definition mark :: "upload_env \<Rightarrow> alert_queue \<Rightarrow> alert_queue" where
  "mark en q = snd (markUploaded (ue_save en) (ue_truncated en) (ue_resave en) q)"

text \<open>One channel in a round: the message that is published, the queue, and whether the round goes on to the next channel.\<close>

definition upload_channel :: "json_lib \<Rightarrow> (bytes \<Rightarrow> bytes) \<Rightarrow> sender \<Rightarrow> upload_env \<Rightarrow> alert_queue \<Rightarrow>
    (string \<times> string) list \<times> alert_queue \<times> bool" where
  "upload_channel jl sha sd en q = (case queue_pending (ue_readable en) 64 q of (batch, q) \<Rightarrow>
     if batch = [] then ([], q, True)
     else let sd = sd\<lparr>sd_rule_version := ue_rule_version en\<rparr>;
       env = (case buildAlertEnvelope jl sha (ue_now_ms en) sd batch of Inl _ \<Rightarrow> [] | Inr e \<Rightarrow> e) in
       if env = [] then ([], mark en q, True)
       else if ue_publish en then ([(log_topic sd, env)], mark en q, True)
       else ([], q, False))"

text \<open>The round over all channels ends at the first message that is not published.\<close>

fun upload_round :: "json_lib \<Rightarrow> (bytes \<Rightarrow> bytes) \<Rightarrow> (sender \<times> upload_env \<times> alert_queue) list \<Rightarrow>
    (string \<times> string) list \<times> alert_queue list" where
  "upload_round jl sha [] = ([], [])"
| "upload_round jl sha ((sd, en, q) # cs) = (case upload_channel jl sha sd en q of (sent, q, go) \<Rightarrow>
     if go then (case upload_round jl sha cs of (later, qs) \<Rightarrow> (sent @ later, q # qs))
     else (sent, q # map (\<lambda>(_, _, q). q) cs))"

subsection \<open>A channel over time\<close>

text \<open>
  A line arrives, of which, with its newline, the first \<open>n\<close> bytes reach the file; a round takes place; the process is started
  again. A round is one step: a line that another thread appends between the reading of a batch and its marking lies behind
  the batch and keeps the file from being truncated, which is the same as that round without a truncation, then the line.
\<close>

datatype channel_op = Line stage_env int nat string | Round upload_env | Reopen bool

fun channel_step :: "json_lib \<Rightarrow> (bytes \<Rightarrow> bytes) \<Rightarrow> sender \<Rightarrow> channel_op \<Rightarrow> channel \<Rightarrow> (string \<times> string) list \<times> channel" where
  "channel_step jl sha sd (Line sn now_ms n l) ch =
     ([], case on_line jl sha sn now_ms (\<lambda>s. (take n s, length s \<le> n)) l ch of Some ch \<Rightarrow> ch | None \<Rightarrow> ch)"
| "channel_step jl sha sd (Round en) ch = (case upload_channel jl sha sd en (ch_queue ch) of
     (sent, q, _) \<Rightarrow> (sent, ch\<lparr>ch_queue := q\<rparr>))"
| "channel_step jl sha sd (Reopen sized) ch = ([], ch\<lparr>ch_queue := queue_open sized (ch_queue ch)\<rparr>)"

fun channel_run :: "json_lib \<Rightarrow> (bytes \<Rightarrow> bytes) \<Rightarrow> sender \<Rightarrow> channel_op list \<Rightarrow> channel \<Rightarrow> (string \<times> string) list \<times> channel" where
  "channel_run jl sha sd [] ch = ([], ch)"
| "channel_run jl sha sd (a # as) ch = (case channel_step jl sha sd a ch of (sent, ch) \<Rightarrow>
     case channel_run jl sha sd as ch of (later, ch) \<Rightarrow> (sent @ later, ch))"

definition channel_new :: "snap_store \<Rightarrow> channel" where
  "channel_new st = \<lparr> ch_queue = queue_open True queue_new, ch_snapshots = st \<rparr>"

text \<open>The alert lines that have reached the file whole.\<close>

fun arrived :: "json_lib \<Rightarrow> channel_op list \<Rightarrow> string list" where
  "arrived jl [] = []"
| "arrived jl (Line sn now_ms n l # as) = (if log_upload_of jl l = None \<and> length l < n then [l] else []) @ arrived jl as"
| "arrived jl (_ # as) = arrived jl as"

text \<open>
  Steps without the two known losses: a line is written whole or not at all, and the cursor is saved when the drained file is
  truncated. Lines are non-empty and without zero bytes.
\<close>

fun step_ok :: "json_lib \<Rightarrow> channel_op \<Rightarrow> bool" where
  "step_ok jl (Line sn now_ms n l) \<longleftrightarrow> proper_line l \<and> (n = 0 \<or> length l < n)"
| "step_ok jl (Round en) \<longleftrightarrow> (ue_truncated en \<longrightarrow> ue_resave en)"
| "step_ok jl (Reopen sized) \<longleftrightarrow> True"

subsection \<open>The queue behind a channel\<close>

text \<open>The message of a batch.\<close>

definition batch_message :: "json_lib \<Rightarrow> (bytes \<Rightarrow> bytes) \<Rightarrow> sender \<Rightarrow> upload_env \<Rightarrow> string list \<Rightarrow> (string \<times> string) list" where
  "batch_message jl sha sd en b = (let sd = sd\<lparr>sd_rule_version := ue_rule_version en\<rparr>; items = alert_items jl sha sd b in
     if items = [] then [] else [(log_topic sd, jl_dump jl (message (sd_manufacturer sd)
       (''alert_'' @ nodeTypeToTopicSeg (sd_node_type sd)) (ue_now_ms en) items))])"

fun saves :: "channel_op \<Rightarrow> bool" where
  "saves (Round en) \<longleftrightarrow> ue_save en"
| "saves _ \<longleftrightarrow> True"

fun is_round :: "channel_op \<Rightarrow> bool" where
  "is_round (Round en) \<longleftrightarrow> True"
| "is_round _ \<longleftrightarrow> False"

fun messages_of :: "json_lib \<Rightarrow> (bytes \<Rightarrow> bytes) \<Rightarrow> sender \<Rightarrow> channel_op \<Rightarrow> string list \<Rightarrow> (string \<times> string) list" where
  "messages_of jl sha sd (Round en) ups = batch_message jl sha sd en ups"
| "messages_of jl sha sd _ ups = []"

lemma alert_items_Nil [simp]: "alert_items jl sha sd [] = []"
  by (simp add: alert_items_def)

lemma batch_message_Nil [simp]: "batch_message jl sha sd en [] = []"
  by (simp add: batch_message_def)

lemma line_refines:
  assumes "proper_line l" "n = 0 \<or> length l < n" "channel_step jl sha sd (Line sn now n l) ch = (sent, ch')"
  shows "\<exists>b. queue_step b (ch_queue ch) = ([], ch_queue ch') \<and> op_ok b \<and> op_saves b \<and>
    appended [b] = arrived jl [Line sn now n l] \<and> sent = []"
proof (cases "log_upload_of jl l")
  case None
  let ?b = "Append l (length l < n)"
  have l: "l \<noteq> []" "last l \<noteq> CHR 0x0A" using assms(1) by (auto simp: proper_line_def plain_line_def dest: last_in_set)
  have "queue_step ?b (ch_queue ch) = ([], ch_queue ch')"
    using assms l None by (auto simp: on_line_def queue_append_def nl_def)
  then show ?thesis using assms None by (intro exI [of _ ?b]) (auto simp: on_line_def)
next
  case (Some req)
  then show ?thesis using assms by (intro exI [of _ Idle]) (auto simp: on_line_def)
qed

text \<open>A round in which a batch is published or dropped takes and marks it.\<close>

lemma round_refines:
  assumes "\<And>j. jl_dump jl j \<noteq> []" "step_ok jl (Round en)" "channel_step jl sha sd (Round en) ch = (sent, ch')"
  shows "\<exists>b ups. queue_step b (ch_queue ch) = (ups, ch_queue ch') \<and> op_ok b \<and> (ue_save en \<longrightarrow> op_saves b) \<and>
    appended [b] = [] \<and> sent = batch_message jl sha sd en ups"
proof -
  let ?take = "Take (ue_save en) (ue_truncated en) (ue_resave en)"
  obtain batch q where p: "queue_pending (ue_readable en) 64 (ch_queue ch) = (batch, q)" by fastforce
  let ?sd = "sd\<lparr>sd_rule_version := ue_rule_version en\<rparr>"
  have st: "(sent, ch_queue ch') = (if batch = [] then ([], q)
      else if alert_items jl sha ?sd batch = [] then ([], mark en q)
      else if ue_publish en then (batch_message jl sha sd en batch, mark en q) else ([], q))"
    using assms(1,3)
    by (cases "batch = []"; cases "alert_items jl sha ?sd batch = []"; cases "ue_publish en")
      (auto simp: upload_channel_def p buildAlertEnvelope_def batch_message_def Let_def)
  show ?thesis
  proof (cases "ue_readable en")
    case False
    then have "sent = []" "ch_queue ch' = ch_queue ch" using st p by (auto simp: queue_pending_def)
    then show ?thesis by (intro exI [of _ Idle] exI [of _ "[]"]) simp
  next
    case True
    consider (keep) "sent = []" "ch_queue ch' = q" | (marked) "batch \<noteq> []" "sent = batch_message jl sha sd en batch" "ch_queue ch' = mark en q"
      using st by (auto simp: batch_message_def split: if_split_asm)
    then show ?thesis
    proof cases
      case keep
      then show ?thesis using p True by (intro exI [of _ Defer] exI [of _ "[]"]) simp
    next
      case marked
      then show ?thesis using p True assms(2) by (intro exI [of _ ?take] exI [of _ batch]) (simp add: mark_def)
    qed
  qed
qed

lemma channel_refines:
  assumes "\<And>j. jl_dump jl j \<noteq> []" "step_ok jl a" "channel_step jl sha sd a ch = (sent, ch')"
  shows "\<exists>b ups. queue_step b (ch_queue ch) = (ups, ch_queue ch') \<and> op_ok b \<and> (saves a \<longrightarrow> op_saves b) \<and>
    appended [b] = arrived jl [a] \<and> sent = messages_of jl sha sd a ups \<and> (ups = [] \<or> is_round a)"
proof (cases a)
  case (Line sn now n l)
  have l: "proper_line l" "n = 0 \<or> length l < n" using assms(2) by (simp_all add: Line)
  show ?thesis using line_refines [OF l assms(3) [unfolded Line]] by (auto simp: Line)
next
  case (Round en)
  show ?thesis using round_refines [OF assms(1,2,3) [unfolded Round]] by (auto simp: Round)
next
  case (Reopen sized)
  then show ?thesis using assms(3) by (intro exI [of _ "Restart sized"] exI [of _ "[]"]) auto
qed

lemma arrived_Cons: "arrived jl (a # as) = arrived jl [a] @ arrived jl as"
  by (cases a) simp_all

lemma channel_step_inv:
  assumes "\<And>j. jl_dump jl j \<noteq> []" "step_ok jl a" "exact \<longrightarrow> saves a" "channel_step jl sha sd a ch = (sent, ch')"
    and "queue_inv exact ls up (ch_queue ch) todo" "length (as_lines ls) < 2 ^ 64"
  shows "\<exists>ups todo'. queue_inv exact (ls @ arrived jl [a]) (up @ ups) (ch_queue ch') todo' \<and> sent = messages_of jl sha sd a ups \<and>
    (ups = [] \<or> is_round a)"
proof -
  obtain b ups where b: "queue_step b (ch_queue ch) = (ups, ch_queue ch')" "op_ok b" "saves a \<longrightarrow> op_saves b"
    "appended [b] = arrived jl [a]" "sent = messages_of jl sha sd a ups" "ups = [] \<or> is_round a"
    using channel_refines [OF assms(1,2,4)] by blast
  have "exact \<longrightarrow> op_saves b" using assms(3) b(3) by blast
  from queue_step_inv [OF assms(5) b(2) this b(1) assms(6)] b(4-6) show ?thesis by metis
qed

lemma channel_run_inv:
  assumes "\<And>j. jl_dump jl j \<noteq> []"
  shows "\<forall>a \<in> set as. step_ok jl a \<and> (exact \<longrightarrow> saves a) \<Longrightarrow> channel_run jl sha sd as ch = (sent, ch') \<Longrightarrow>
    queue_inv exact ls up (ch_queue ch) todo \<Longrightarrow> length (as_lines (ls @ arrived jl as)) < 2 ^ 64 \<Longrightarrow>
    \<exists>bs todo'. length bs = length as \<and> queue_inv exact (ls @ arrived jl as) (up @ concat bs) (ch_queue ch') todo' \<and>
      sent = concat (map2 (messages_of jl sha sd) as bs) \<and> list_all2 (\<lambda>a b. b = [] \<or> is_round a) as bs"
proof (induction as arbitrary: ls up todo ch sent)
  case Nil
  then show ?case by (intro exI [of _ "[]"] exI [of _ todo]) auto
next
  case (Cons a as)
  obtain u c1 where s: "channel_step jl sha sd a ch = (u, c1)" by fastforce
  obtain us where r: "channel_run jl sha sd as c1 = (us, ch')" "sent = u @ us" using Cons.prems(2) s by (auto split: prod.splits)
  have len: "length (as_lines ls) < 2 ^ 64" "length (as_lines ((ls @ arrived jl [a]) @ arrived jl as)) < 2 ^ 64"
    using Cons.prems(4) by (simp_all add: arrived_Cons [of jl a as])
  have a: "step_ok jl a" "exact \<longrightarrow> saves a" using Cons.prems(1) by simp_all
  obtain b todo1 where b: "queue_inv exact (ls @ arrived jl [a]) (up @ b) (ch_queue c1) todo1" "u = messages_of jl sha sd a b" "b = [] \<or> is_round a"
    using channel_step_inv [OF assms a s Cons.prems(3) len(1)] by blast
  have "\<forall>a \<in> set as. step_ok jl a \<and> (exact \<longrightarrow> saves a)" using Cons.prems(1) by simp
  from Cons.IH [OF this r(1) b(1) len(2)] obtain bs todo' where bs: "length bs = length as"
    "queue_inv exact ((ls @ arrived jl [a]) @ arrived jl as) ((up @ b) @ concat bs) (ch_queue ch') todo'"
    "us = concat (map2 (messages_of jl sha sd) as bs)" "list_all2 (\<lambda>a b. b = [] \<or> is_round a) as bs" by blast
  then show ?case using b(2,3) r(2) by (intro exI [of _ "b # bs"] exI [of _ todo']) (simp add: arrived_Cons [of jl a as])
qed

lemma channel_new_inv: "queue_inv exact [] [] (ch_queue (channel_new st)) []"
  by (simp add: channel_new_def new_inv)

lemma channel_run_append: "channel_run jl sha sd (as @ bs) ch = (case channel_run jl sha sd as ch of (u, ch) \<Rightarrow>
    case channel_run jl sha sd bs ch of (v, ch) \<Rightarrow> (u @ v, ch))"
  by (induction as arbitrary: ch) (auto split: prod.splits)

subsection \<open>No alert is lost\<close>

text \<open>The line can be read as an alert, and a message with its entry was published.\<close>

definition published :: "json_lib \<Rightarrow> (bytes \<Rightarrow> bytes) \<Rightarrow> sender \<Rightarrow> string \<Rightarrow> (string \<times> string) list \<Rightarrow> bool" where
  "published jl sha sd l sent \<longleftrightarrow> (\<exists>version now_ms items it. line_item jl sha (sd\<lparr>sd_rule_version := version\<rparr>) l = Some it \<and>
     it \<in> set items \<and> (log_topic sd, jl_dump jl (message (sd_manufacturer sd) (''alert_'' @ nodeTypeToTopicSeg (sd_node_type sd))
       now_ms items)) \<in> set sent)"

lemma messages_published:
  assumes "l \<in> set ups" "parseAlertLine jl sha l \<noteq> None" "is_round a"
  shows "published jl sha sd l (messages_of jl sha sd a ups)"
proof -
  obtain en where a: "a = Round en" using assms(3) by (cases a) auto
  let ?sd = "sd\<lparr>sd_rule_version := ue_rule_version en\<rparr>"
  obtain it where it: "line_item jl sha ?sd l = Some it" using assms(2) by (auto simp: line_item_def)
  then have mem: "it \<in> set (alert_items jl sha ?sd ups)"
    using assms(1) by (force simp: alert_items_def List.map_filter_def)
  then have "alert_items jl sha ?sd ups \<noteq> []" by auto
  then show ?thesis
    using it mem unfolding published_def a
    by (intro exI [of _ "ue_rule_version en"] exI [of _ "ue_now_ms en"] exI [of _ "alert_items jl sha ?sd ups"] exI [of _ it])
      (simp add: batch_message_def log_topic_def Let_def)
qed

lemma published_mono: "published jl sha sd l sent \<Longrightarrow> set sent \<subseteq> set sent' \<Longrightarrow> published jl sha sd l sent'"
  unfolding published_def by blast

lemma batches_published:
  assumes "list_all2 (\<lambda>a b. b = [] \<or> is_round a) as bs" "l \<in> set (concat bs)" "parseAlertLine jl sha l \<noteq> None"
  shows "published jl sha sd l (concat (map2 (messages_of jl sha sd) as bs))"
  using assms(1,2)
proof (induction rule: list_all2_induct)
  case (Cons a as b bs)
  then show ?case
    using messages_published [OF _ assms(3), of b a sd] published_mono [of jl sha sd l]
    by (cases "l \<in> set b") (auto intro: published_mono)
qed simp

text \<open>
  C17: no alert is lost. Whatever mix of arriving lines, failed appends, rounds of the upload loop, failed publications, failed
  cursor writes and restarts a channel goes through, every alert line that has reached the file whole either still waits in the queue, or it was
  published, with its entry in a message, or it cannot be read as an alert. Commands to upload a file are no alerts. The
  theorem leaves out the two ways in which the program does lose lines (\<open>step_ok\<close>): a line of which only a part reaches the
  file (\<open>partial_append_merges\<close>), and a drained file that is truncated while the cursor cannot be saved
  (\<open>drained_cursor_skips\<close>). Lines have no zero byte (\<open>zero_byte_misaligns\<close>), the file has less than \<open>2 ^ 64\<close> bytes, and the
  JSON library never prints an empty text.
\<close>

theorem alerts_uploaded_at_least_once:
  assumes "\<And>j. jl_dump jl j \<noteq> []" "\<forall>a \<in> set as. step_ok jl a" "length (as_lines (arrived jl as)) < 2 ^ 64"
    and "channel_run jl sha sd as (channel_new st) = (sent, ch)"
  shows "\<forall>l \<in> set (arrived jl as). l \<in> set (waiting (ch_queue ch)) \<or> published jl sha sd l sent \<or> parseAlertLine jl sha l = None"
proof -
  obtain bs todo where b: "queue_inv False (arrived jl as) (concat bs) (ch_queue ch) todo"
    "sent = concat (map2 (messages_of jl sha sd) as bs)" "list_all2 (\<lambda>a b. b = [] \<or> is_round a) as bs"
    using channel_run_inv [OF assms(1) _ assms(4) channel_new_inv [of False]] assms(2,3) by auto
  have "l \<in> set (concat bs) \<or> l \<in> set (waiting (ch_queue ch))" if "l \<in> set (arrived jl as)" for l
    using that queue_inv_set [OF b(1)] by blast
  then show ?thesis using batches_published [OF b(3)] unfolding b(2) by blast
qed

text \<open>A line that is written in part has no newline, and the next one is appended to its part.\<close>

lemma partial_append_merges:
  "waiting (ch_queue (snd (channel_run jl sha sd [Line sn 0 2 ''abc'', Line sn 0 4 ''xyz''] (channel_new st)))) = [''abxyz'']"
  by (simp add: on_line_def log_upload_of_def cmd_key_def cut_at_sub.simps channel_new_def queue_open_def queue_new_def
      loadCursor_def queue_append_def waiting_def nl_def)

subsection \<open>From the socket to the broker\<close>

definition good_round :: "upload_env \<Rightarrow> bool" where
  "good_round en \<longleftrightarrow> ue_readable en \<and> ue_publish en \<and> ue_save en \<and> (ue_truncated en \<longrightarrow> ue_resave en)"

lemma round_good:
  assumes "\<And>j. jl_dump jl j \<noteq> []" "good_round en"
    and "queue_step (Take (ue_save en) (ue_truncated en) (ue_resave en)) (ch_queue ch) = (ups, q')"
  shows "channel_step jl sha sd (Round en) ch = (batch_message jl sha sd en ups, ch\<lparr>ch_queue := q'\<rparr>)"
proof -
  let ?sd = "sd\<lparr>sd_rule_version := ue_rule_version en\<rparr>"
  obtain batch q where p: "queue_pending True 64 (ch_queue ch) = (batch, q)" by fastforce
  show ?thesis
    using assms by (cases "batch = []"; cases "alert_items jl sha ?sd batch = []")
      (auto simp: good_round_def upload_channel_def p mark_def buildAlertEnvelope_def batch_message_def Let_def)
qed

lemma rounds_drain:
  assumes "\<And>j. jl_dump jl j \<noteq> []" "length (as_lines ls) < 2 ^ 64"
  shows "\<forall>en \<in> set ens. good_round en \<Longrightarrow> queue_inv True ls up (ch_queue ch) todo \<Longrightarrow>
    \<exists>bs ch'. channel_run jl sha sd (map Round ens) ch = (concat (map2 (batch_message jl sha sd) ens bs), ch') \<and>
      concat bs = take (64 * length ens) todo \<and> length bs = length ens \<and> (\<forall>b \<in> set bs. length b \<le> 64) \<and>
      ch_snapshots ch' = ch_snapshots ch"
proof (induction ens arbitrary: up ch todo)
  case (Cons en ens)
  let ?take = "Take (ue_save en) (ue_truncated en) (ue_resave en)"
  have en: "good_round en" "op_ok ?take" "True \<longrightarrow> ue_save en" using Cons.prems(1) by (simp_all add: good_round_def)
  obtain q1 where s: "queue_step ?take (ch_queue ch) = (take 64 todo, q1)" and q1: "queue_inv True ls (up @ take 64 todo) q1 (drop 64 todo)"
    using upload_drains [OF Cons.prems(2) assms(2) en(2,3)] by (metis prod.collapse)
  let ?ch = "ch\<lparr>ch_queue := q1\<rparr>"
  have "\<forall>en \<in> set ens. good_round en" "queue_inv True ls (up @ take 64 todo) (ch_queue ?ch) (drop 64 todo)"
    using Cons.prems(1) q1 by simp_all
  from Cons.IH [OF this] obtain bs ch' where r:
    "channel_run jl sha sd (map Round ens) ?ch = (concat (map2 (batch_message jl sha sd) ens bs), ch')"
    "concat bs = take (64 * length ens) (drop 64 todo)" "length bs = length ens" "\<forall>b \<in> set bs. length b \<le> 64"
    "ch_snapshots ch' = ch_snapshots ?ch" by blast
  have "take 64 todo @ take (64 * length ens) (drop 64 todo) = take (64 * length (en # ens)) todo"
    by (simp add: take_add [symmetric] algebra_simps)
  then show ?case
    using r round_good [OF assms(1) en(1) s, where sd = sd and sha = sha] by (intro exI [of _ "take 64 todo # bs"] exI [of _ ch']) simp
qed simp

text \<open>The lines of a stream as steps, each written whole, and the files that the commands among them stage.\<close>

definition arrive :: "(string \<Rightarrow> stage_env) \<Rightarrow> (string \<Rightarrow> int) \<Rightarrow> string \<Rightarrow> channel_op" where
  "arrive sn now l = Line (sn l) (now l) (length l + 1) l"

definition stage_line :: "json_lib \<Rightarrow> (bytes \<Rightarrow> bytes) \<Rightarrow> (string \<Rightarrow> stage_env) \<Rightarrow> (string \<Rightarrow> int) \<Rightarrow> string \<Rightarrow> snap_store \<Rightarrow> snap_store" where
  "stage_line jl sha sn now l st = (case log_upload_of jl l of None \<Rightarrow> st | Some req \<Rightarrow> snd (stageUpload sha (sn l) req (now l) st))"

lemma arrive_run:
  assumes "\<And>j. jl_dump jl j \<noteq> []"
  shows "\<forall>l \<in> set ls. proper_line l \<Longrightarrow> queue_inv True done [] (ch_queue ch) done \<Longrightarrow>
    length (as_lines (done @ filter (\<lambda>l. log_upload_of jl l = None) ls)) < 2 ^ 64 \<Longrightarrow>
    \<exists>ch'. channel_run jl sha sd (map (arrive sn now) ls) ch = ([], ch') \<and>
      queue_inv True (done @ filter (\<lambda>l. log_upload_of jl l = None) ls) [] (ch_queue ch')
        (done @ filter (\<lambda>l. log_upload_of jl l = None) ls) \<and> ch_snapshots ch' = fold (stage_line jl sha sn now) ls (ch_snapshots ch)"
proof (induction ls arbitrary: "done" ch)
  case (Cons l ls)
  obtain ch1 where s: "channel_step jl sha sd (arrive sn now l) ch = ([], ch1)" by (simp add: arrive_def)
  have ok: "step_ok jl (arrive sn now l)" using Cons.prems(1) by (simp add: arrive_def)
  let ?new = "if log_upload_of jl l = None then [l] else []"
  have arr: "arrived jl [arrive sn now l] = ?new" by (simp add: arrive_def)
  have len: "length (as_lines done) < 2 ^ 64" using Cons.prems(3) by simp
  have pl: "proper_line l" using Cons.prems(1) by simp
  obtain q1 where q1: "ch_queue ch1 = q1" "queue_inv True (done @ ?new) [] q1 (done @ ?new)"
  proof (cases "log_upload_of jl l")
    case None
    have "l \<noteq> []" "last l \<noteq> CHR 0x0A" using pl by (auto simp: proper_line_def plain_line_def dest: last_in_set)
    then have "ch_queue ch1 = snd (queue_step (Append l True) (ch_queue ch))"
      using s None by (auto simp: arrive_def on_line_def queue_append_def nl_def split: if_splits)
    then show thesis using that append_inv [OF Cons.prems(2) pl, of True] None by simp
  next
    case (Some req)
    then have "ch_queue ch1 = ch_queue ch" using s by (auto simp: arrive_def on_line_def)
    then show thesis using that Some Cons.prems(2) by simp
  qed
  have snap: "ch_snapshots ch1 = stage_line jl sha sn now l (ch_snapshots ch)"
    using s pl by (auto simp: arrive_def on_line_def stage_line_def split: option.splits)
  have "\<forall>l \<in> set ls. proper_line l" "length (as_lines ((done @ ?new) @ filter (\<lambda>l. log_upload_of jl l = None) ls)) < 2 ^ 64"
    using Cons.prems(1,3) by (cases "log_upload_of jl l"; simp)+
  from Cons.IH [OF this(1) q1(2) [folded q1(1)] this(2)] show ?case using s snap by auto
qed simp

text \<open>
  C18: from the socket to the broker. However the reads cut the stream of a probe, and however many lines it has, good rounds of the
  upload loop, enough for their number, take the non-empty lines that are no commands to upload a file, each once and in order, in batches of
  at most 64, and publish of each batch one message with the entries of the lines that can be read as alerts, in order; a batch
  without such a line is dropped. The commands stage their files, in order. In a good round the file can be read, messages are
  published and the cursor is saved. Lines have at most \<open>2 ^ 20\<close> characters and no zero byte, the file has less than \<open>2 ^ 64\<close>
  bytes, every line is written whole, and the JSON library never prints an empty text.
\<close>

theorem probe_lines_uploaded:
  assumes "\<And>j. jl_dump jl j \<noteq> []"
    and "\<forall>l \<in> set (split_on CHR 0x0A (concat cs)). length l \<le> 2 ^ 20 \<and> CHR 0x00 \<notin> set l"
    and "alerts = filter (\<lambda>l. log_upload_of jl l = None) (text_lines (concat cs))"
    and "length (as_lines alerts) < 2 ^ 64" "length alerts \<le> 64 * length ens" "\<forall>en \<in> set ens. good_round en"
    and "channel_run jl sha sd (map (arrive sn now) (handleConn [] cs) @ map Round ens) (channel_new st) = (sent, ch)"
  shows "\<exists>bs. concat bs = alerts \<and> length bs = length ens \<and> (\<forall>b \<in> set bs. length b \<le> 64) \<and>
    sent = concat (map2 (batch_message jl sha sd) ens bs) \<and>
    ch_snapshots ch = fold (stage_line jl sha sn now) (text_lines (concat cs)) st"
proof -
  have h: "handleConn [] cs = text_lines (concat cs)" using assms(2) by (intro lines_framed) blast
  have p: "\<forall>l \<in> set (text_lines (concat cs)). proper_line l"
    using assms(2) split_plain_pieces by (auto simp: text_lines_def proper_line_def)
  obtain ch1 where c1: "channel_run jl sha sd (map (arrive sn now) (text_lines (concat cs))) (channel_new st) = ([], ch1)"
    "queue_inv True alerts [] (ch_queue ch1) alerts" "ch_snapshots ch1 = fold (stage_line jl sha sn now) (text_lines (concat cs)) st"
    using arrive_run [OF assms(1) p channel_new_inv [of True st], of sha sd sn now] assms(3,4) by (auto simp: channel_new_def)
  obtain bs ch2 where b: "channel_run jl sha sd (map Round ens) ch1 = (concat (map2 (batch_message jl sha sd) ens bs), ch2)"
    "concat bs = take (64 * length ens) alerts" "length bs = length ens" "\<forall>b \<in> set bs. length b \<le> 64"
    "ch_snapshots ch2 = ch_snapshots ch1"
    using rounds_drain [OF assms(1,4,6) c1(2), of sha sd] by blast
  have "channel_run jl sha sd (map (arrive sn now) (text_lines (concat cs)) @ map Round ens) (channel_new st) =
      (concat (map2 (batch_message jl sha sd) ens bs), ch2)"
    using c1(1) b(1) by (simp add: channel_run_append)
  then show ?thesis using assms(5,7) b(2-5) c1(3) h by auto
qed

subsection \<open>Examples\<close>

text \<open>A library that reads every text but \<open>b\<close> as the same alert.\<close>

definition demo_lib :: json_lib where
  "demo_lib = \<lparr> jl_parse = (\<lambda>s. if s = ''b'' then Inl [] else Inr (JObject [(''event_id'', JNum 1)])), jl_read = (\<lambda>_. None),
     jl_dump = (\<lambda>_. ''{}''), jl_pretty = (\<lambda>_ _. ''{}'') \<rparr>"

definition demo_sender :: sender where
  "demo_sender = \<lparr> sd_manufacturer = ''acme'', sd_device_id = ''d'', sd_node_type = ''HIDPS'', sd_ecu_code = ''e'', sd_rule_version = [] \<rparr>"

definition demo_round :: upload_env where
  "demo_round = \<lparr> ue_now_ms = 0, ue_rule_version = ''2'', ue_readable = True, ue_publish = True, ue_save = True,
     ue_truncated = True, ue_resave = True \<rparr>"

definition demo_ops :: "channel_op list" where
  "demo_ops = [Line demo_stage 0 3 ''aa'', Round (demo_round\<lparr>ue_publish := False\<rparr>), Line demo_stage 0 2 ''b'', Round demo_round,
     Reopen True, Line demo_stage 0 2 ''c'']"

lemma demo_dump: "jl_dump demo_lib j \<noteq> []"
  by (simp add: demo_lib_def)

lemma demo_no_command: "length l < 5 \<Longrightarrow> log_upload_of demo_lib l = None"
proof -
  have long: "5 \<le> length s" if "cut_at_sub cmd_key s = Some r" for s r
    using that
  proof (induction s arbitrary: r)
    case Nil
    then show ?case by (simp add: cut_at_sub.simps cmd_key_def)
  next
    case (Cons c s)
    show ?case
    proof (cases "take (length cmd_key) (c # s) = cmd_key")
      case True
      from arg_cong [OF this, of length] show ?thesis by (simp add: cmd_key_def)
    next
      case False
      then show ?thesis using Cons by (cases "cut_at_sub cmd_key s") (auto simp: cut_at_sub.simps [of cmd_key "c # s"])
    qed
  qed
  assume "length l < 5"
  then have "cut_at_sub cmd_key l = None" using long by (cases "cut_at_sub cmd_key l") fastforce+
  then show ?thesis by (simp add: log_upload_of_def)
qed

theorem alerts_uploaded_at_least_once_witness:
  "\<exists>sent ch. channel_run demo_lib rev demo_sender demo_ops (channel_new no_transfers) = (sent, ch) \<and>
     (''c'' \<in> set (waiting (ch_queue ch)) \<or> published demo_lib rev demo_sender ''c'' sent)"
proof -
  obtain sent ch where r: "channel_run demo_lib rev demo_sender demo_ops (channel_new no_transfers) = (sent, ch)" by fastforce
  have c: "''c'' \<in> set (arrived demo_lib demo_ops)" by (simp add: demo_ops_def demo_no_command)
  have all: "\<forall>l \<in> set (arrived demo_lib demo_ops). l \<in> set (waiting (ch_queue ch)) \<or> published demo_lib rev demo_sender l sent \<or>
      parseAlertLine demo_lib rev l = None"
  proof (rule alerts_uploaded_at_least_once [OF demo_dump _ _ r])
    show "\<forall>a \<in> set demo_ops. step_ok demo_lib a" by (simp add: demo_ops_def demo_round_def proper_line_def plain_line_def)
    show "length (as_lines (arrived demo_lib demo_ops)) < 2 ^ 64" by (simp add: demo_ops_def demo_no_command as_lines_def nl_def)
  qed
  have pa: "parseAlertLine demo_lib rev ''c'' \<noteq> None"
    by (simp add: parseAlertLine_def demo_lib_def j_get_def j_at_def get_u32_def get_num_def j_value_def)
  from bspec [OF all c] have "''c'' \<in> set (waiting (ch_queue ch)) \<or> published demo_lib rev demo_sender ''c'' sent"
    by (elim disjE) (rule disjI1, assumption, rule disjI2, assumption, rule notE [OF pa], assumption)
  with r show ?thesis by (intro exI conjI)
qed

theorem probe_lines_uploaded_witness:
  "fst (channel_run demo_lib rev demo_sender (map (arrive (\<lambda>_. demo_stage) (\<lambda>_. 0)) (handleConn [] [''a'', ''b'' @ nl @ nl @ ''c'']) @
     map Round [demo_round]) (channel_new no_transfers)) = [(''oc/devices/d/sys/idps/host/log'', ''{}'')]"
proof -
  let ?cs = "[''a'', ''b'' @ nl @ nl @ ''c'']"
  obtain sent ch where r: "channel_run demo_lib rev demo_sender (map (arrive (\<lambda>_. demo_stage) (\<lambda>_. 0)) (handleConn [] ?cs) @
     map Round [demo_round]) (channel_new no_transfers) = (sent, ch)" by fastforce
  have lines: "text_lines (concat ?cs) = [''ab'', ''c'']" by (simp add: text_lines_def nl_def)
  then have al: "[''ab'', ''c''] = filter (\<lambda>l. log_upload_of demo_lib l = None) (text_lines (concat ?cs))" by (simp add: demo_no_command)
  have "\<exists>bs. concat bs = [''ab'', ''c''] \<and> length bs = length [demo_round] \<and> (\<forall>b \<in> set bs. length b \<le> 64) \<and>
      sent = concat (map2 (batch_message demo_lib rev demo_sender) [demo_round] bs) \<and>
      ch_snapshots ch = fold (stage_line demo_lib rev (\<lambda>_. demo_stage) (\<lambda>_. 0)) (text_lines (concat ?cs)) no_transfers"
    by (rule probe_lines_uploaded [OF demo_dump _ al _ _ _ r]) (simp_all add: good_round_def demo_round_def nl_def as_lines_def)
  then obtain bs where "concat bs = [''ab'', ''c'']" "length bs = 1"
    "sent = concat (map2 (batch_message demo_lib rev demo_sender) [demo_round] bs)" by auto
  then have "sent = batch_message demo_lib rev demo_sender demo_round [''ab'', ''c'']" by (cases bs) auto
  then have "sent = [(''oc/devices/d/sys/idps/host/log'', ''{}'')]"
    by (simp add: batch_message_def demo_lib_def parseAlertLine_def alert_items_def line_item_def List.map_filter_def j_get_def j_at_def
        get_u32_def get_num_def j_value_def log_topic_def demo_sender_def nodeTypeToTopicSeg_def)
  then show ?thesis by (simp only: r fst_conv)
qed

end
