(* ===== verification/Eve_Bridge.thy ===== *)
theory Eve_Bridge
  imports Eth_Geoip
begin

text \<open>
  \<open>apps/eve_bridge\<close>: the alert records of Suricata, one JSON text per line, are searched for a few fields and become
  security events with the context layout of \<open>apps/eth_probe\<close>.
\<close>

subsection \<open>Searching a record\<close>

definition json_key :: "string \<Rightarrow> string" where
  "json_key k = [CHR 0x22] @ k @ [CHR 0x22]"

text \<open>The text after the key and its colon; the section only moves the start of the search behind its opening brace.\<close>

definition find_key :: "string \<Rightarrow> string \<Rightarrow> string option \<Rightarrow> string option" where
  "find_key p key section_name = do {
     s \<leftarrow> (case section_name of None \<Rightarrow> Some p | Some sec \<Rightarrow> do {
       (_, r) \<leftarrow> cut_at_sub (json_key sec) p;
       (_, q) \<leftarrow> cut_at CHR 0x7B r;
       Some q });
     (_, r) \<leftarrow> cut_at_sub (json_key key) s;
     Some (dropWhile (\<lambda>c. c = CHR '' '' \<or> c = CHR 0x09 \<or> c = CHR '':'') r) }"

definition unescape :: "char \<Rightarrow> char" where
  "unescape c = (if c = CHR ''n'' then CHR 0x0A else if c = CHR ''t'' then CHR 0x09 else if c = CHR ''r'' then CHR 0x0D else c)"

text \<open>The text up to the closing quote.\<close>

fun json_body :: "string \<Rightarrow> string option" where
  "json_body [] = None"
| "json_body [c] = (if c = CHR 0x22 then Some [] else None)"
| "json_body (c # d # s) = (if c = CHR 0x22 then Some []
     else if c = CHR 0x5C then map_option (\<lambda>t. unescape d # t) (json_body s)
     else map_option (\<lambda>t. c # t) (json_body (d # s)))"

definition parse_json_string :: "string \<Rightarrow> string option" where
  "parse_json_string p = (case p of [] \<Rightarrow> None | c # s \<Rightarrow> if c = CHR 0x22 then json_body s else None)"

definition parse_json_u32 :: "string \<Rightarrow> u32 option" where
  "parse_json_u32 p = (case p of [] \<Rightarrow> None | c # _ \<Rightarrow>
     if digit_val c < 10 then map_option (\<lambda>(v, _). ucast v) (c_strtoul 10 p) else None)"

definition get_text :: "string \<Rightarrow> string \<Rightarrow> string option \<Rightarrow> string option" where
  "get_text p key sec = Option.bind (find_key p key sec) parse_json_string"

definition get_number :: "string \<Rightarrow> string \<Rightarrow> string option \<Rightarrow> u32 option" where
  "get_number p key sec = Option.bind (find_key p key sec) parse_json_u32"

subsection \<open>Addresses\<close>

text \<open>The groups before and after the double colon.\<close>

definition v6_parts :: "string \<Rightarrow> (u16 list \<times> u16 list) option" where
  "v6_parts s = (case cut_at_sub ''::'' s of
     Some (h, t) \<Rightarrow> Option.bind (parse_part h) (\<lambda>hd. map_option (\<lambda>tl. (hd, tl)) (parse_part t))
   | None \<Rightarrow> Option.bind (parse_part s) (\<lambda>hd. if length hd = 8 then Some (hd, []) else None))"

definition place_groups :: "u16 list \<Rightarrow> u16 list \<Rightarrow> bytes option" where
  "place_groups head tail = do {
     addr \<leftarrow> put_groups (replicate 16 0) 0 head;
     i \<leftarrow> size_sub 16 (2 * length tail);
     put_groups addr i tail }"

definition v4_literal :: "string \<Rightarrow> bytes option" where
  "v4_literal s = (case scan_quad s of None \<Rightarrow> None
     | Some (a, b, c, d) \<Rightarrow> if a > 255 \<or> b > 255 \<or> c > 255 \<or> d > 255 then None
         else Some ([ucast a, ucast b, ucast c, ucast d] @ replicate 12 0))"

text \<open>The inner option is the result, the outer one \<open>None\<close> when the code writes outside the 16 bytes.\<close>

definition ip_literal_to_bytes :: "string \<Rightarrow> bytes option option" where
  "ip_literal_to_bytes s = (if CHR '':'' \<notin> set s then Some (v4_literal s)
     else (case v6_parts s of None \<Rightarrow> Some None | Some (head, tail) \<Rightarrow> map_option Some (place_groups head tail)))"

subsection \<open>Alerts\<close>

record eve_alert =
  ea_src_ip :: string
  ea_src_port :: u16
  ea_dest_ip :: string
  ea_dest_port :: u16
  ea_proto :: string
  ea_signature_id :: u32
  ea_severity :: u8
  ea_signature :: string

definition found_or :: "'a \<Rightarrow> 'a option \<Rightarrow> 'a" where
  "found_or d v = (case v of None \<Rightarrow> d | Some x \<Rightarrow> x)"

text \<open>\<open>None\<close> is an alert that is not valid.\<close>

definition parse_eve_alert :: "string \<Rightarrow> eve_alert option" where
  "parse_eve_alert text_line = (let p = c_str text_line in
     if get_text p ''event_type'' None \<noteq> Some ''alert'' then None
     else do {
       src_ip \<leftarrow> get_text p ''src_ip'' None;
       dest_ip \<leftarrow> get_text p ''dest_ip'' None;
       sid \<leftarrow> get_number p ''signature_id'' (Some ''alert'');
       Some \<lparr> ea_src_ip = src_ip, ea_src_port = ucast (found_or 0 (get_number p ''src_port'' None)), ea_dest_ip = dest_ip,
         ea_dest_port = ucast (found_or 0 (get_number p ''dest_port'' None)), ea_proto = found_or [] (get_text p ''proto'' None),
         ea_signature_id = sid, ea_severity = ucast (found_or 0 (get_number p ''severity'' (Some ''alert''))),
         ea_signature = found_or [] (get_text p ''signature'' (Some ''alert'')) \<rparr> })"

definition eve_detector_type :: u8 where "eve_detector_type = 100"

definition proto_number :: "string \<Rightarrow> u8" where
  "proto_number p = (if p = ''TCP'' then 6 else if p = ''UDP'' then 17 else if p = ''ICMP'' then 1 else 0)"

text \<open>An address that cannot be read leaves zeros in its place. \<open>None\<close> is a write outside the array of an address.\<close>

definition ip_field :: "string \<Rightarrow> bytes option" where
  "ip_field s = map_option (\<lambda>a. case a of None \<Rightarrow> replicate 16 0 | Some b \<Rightarrow> b) (ip_literal_to_bytes s)"

definition alert_context :: "eve_alert \<Rightarrow> bytes option" where
  "alert_context a = do {
     src \<leftarrow> ip_field (ea_src_ip a);
     dst \<leftarrow> ip_field (ea_dest_ip a);
     Some ([eve_detector_type, proto_number (ea_proto a), hi8 (ea_src_port a), lo8 (ea_src_port a), hi8 (ea_dest_port a),
       lo8 (ea_dest_port a)] @ src @ dst @ [0, 0, 0, 1] @
       [byte3 (ea_signature_id a), byte2 (ea_signature_id a), byte1 (ea_signature_id a), byte0 (ea_signature_id a)]) }"

text \<open>A connection: the contexts that are reported for what the calls of \<open>recv\<close> return; \<open>None\<close> as before.\<close>

fun eve_lines :: "string \<Rightarrow> string \<Rightarrow> string list \<times> string" where
  "eve_lines acc [] = ([], acc)"
| "eve_lines acc (c # s) = (if c = CHR 0x0A then (case eve_lines [] s of (ls, r) \<Rightarrow> (if acc = [] then ls else acc # ls, r))
     else eve_lines (acc @ [c]) s)"

fun serve_connection :: "string \<Rightarrow> string list \<Rightarrow> bytes option list" where
  "serve_connection buf [] = []"
| "serve_connection buf (c # cs) = (case eve_lines [] (buf @ c) of (ls, r) \<Rightarrow>
     List.map_filter (\<lambda>l. map_option alert_context (parse_eve_alert l)) ls @ serve_connection r cs)"

subsection \<open>Facts\<close>

lemma put_groups_length: "put_groups addr i gs = Some r \<Longrightarrow> length r = length addr"
  by (induction addr i gs rule: put_groups.induct) (auto simp: bind_eq_Some_conv wr8_def split: if_split_asm)

lemma place_groups_length: "place_groups h t = Some b \<Longrightarrow> length b = 16"
  by (auto simp: place_groups_def bind_eq_Some_conv dest!: put_groups_length)

lemma v4_literal_length: "v4_literal s = Some b \<Longrightarrow> length b = 16"
  by (auto simp: v4_literal_def split: option.split_asm if_split_asm)

lemma ip_literal_length: "ip_literal_to_bytes s = Some (Some b) \<Longrightarrow> length b = 16"
  by (auto simp: ip_literal_to_bytes_def place_groups_length v4_literal_length split: if_split_asm option.split_asm)

lemma ip_field_length: "ip_field s = Some b \<Longrightarrow> length b = 16"
  unfolding ip_field_def by (cases "ip_literal_to_bytes s") (auto dest: ip_literal_length split: option.split_asm)

text \<open>The context has the 46 bytes of the layout whenever it is built at all.\<close>

lemma context_length: "alert_context a = Some ctx \<Longrightarrow> length ctx = 46"
  by (cases "ip_field (ea_src_ip a)"; cases "ip_field (ea_dest_ip a)") (auto simp: alert_context_def ip_field_length)

lemma ipv4_literal:
  assumes "a < 256" "b < 256" "c < 256" "d < 256"
  shows "ip_literal_to_bytes (dec a @ ''.'' @ dec b @ ''.'' @ dec c @ ''.'' @ dec d) =
    Some (Some ([of_nat a, of_nat b, of_nat c, of_nat d] @ replicate 12 0))"
proof -
  have n: "CHR '':'' \<notin> set (dec k)" for k using dec_digits [of "CHR '':''" k] by (auto simp: digit_val_def)
  have small: "\<not> (of_nat k :: u32) > 255" "(ucast (of_nat k :: u32) :: u8) = of_nat k" if "k < 256" for k
    using that by (simp_all add: word_less_nat_alt unat_of_nat unsigned_of_nat take_bit_nat_eq_self)
  show ?thesis using scan_quad_dec [of a b c d] small assms by (simp add: ip_literal_to_bytes_def v4_literal_def n)
qed

text \<open>Nine groups before the double colon are written past the array.\<close>

lemma eve_address_overflow: "ip_literal_to_bytes ''1:2:3:4:5:6:7:8:9::'' = None"
  by code_simp

text \<open>The fields are found by their quoted names anywhere in the text, also where the name is a value.\<close>

lemma eve_value_taken_for_key:
  "get_text (json_key ''host'' @ '':'' @ json_key ''src_ip'' @ '','' @ json_key ''src_ip'' @ '':'' @ json_key ''1.2.3.4'') ''src_ip'' None = None"
  by code_simp

end
