(* ===== verification/Spec2Isabelle.thy ===== *)
theory Spec2Isabelle
  imports Idsm_System Idsrm_Manager Can_Pipeline Eth_Pipeline_Alerts Host_Integrity Mgr_Rules_Facts Mgr_Config_Facts Mgr_Queue_Facts Mgr_Main_Facts Mgr_Channel Eve_Bridge
begin

text \<open>
  autosar-idsm is an intrusion detection system for vehicles after the AUTOSAR specifications of IdsM and IdsR. Its parts,
  and how an event travels through them:

  \<^item> Three probes watch a bus or a host and raise alerts: \<open>apps/can_probe\<close> (CAN frames), \<open>apps/eth_probe\<close> (Ethernet
    frames) and \<open>apps/host_probe\<close> (processes, files and kernel modules). Each probe hands its alerts as security events to
  \<^item> the IdsM manager (\<open>src/IdsM_Manager.cpp\<close>), which queues them, takes them through a chain of filters, and hands
    qualified events, serialised by \<open>src/IdsM_Protocol.c\<close>, to
  \<^item> the IdsRm manager (\<open>src/IdsRm_Manager.cpp\<close>), which posts them to a server or writes them as lines to a local socket.
  \<^item> The daemon \<open>linux/idsm_managerd\<close> reads these lines, keeps them in a file until they are published to the cloud, and takes
    signed rule and configuration bundles from there, which it installs for the probes.

  The theories follow these parts. Every definition keeps the name of the function it models where Isabelle allows it, and
  is executable; state is passed explicitly, as records with the fields of the class.

  \<^bold>\<open>Shared.\<close> \<open>Idsm_Prelude\<close> holds bytes and checked reads of buffers (\<open>None\<close> is an access outside the buffer, so
  that a result \<open>Some\<close> is memory safety), words at their width, decimal and hexadecimal text, and the list and option lemmas of
  all parts. \<open>C_Text\<close> has the C and C++ string functions that the loaders use. Interfaces with more than one provider
  are locales, interpreted on the models of the code in the theories of the providers: \<open>Tumbling_Window\<close> (counting windows of
  the flood detectors), \<open>Mute_Window\<close> (cooldowns of the host detectors), \<open>Block_Hash\<close> (MD5 and SHA-256), \<open>Lru_Table\<close>
  (tables with eviction and a memory pool), \<open>Mgr_Guard\<close> (ascending numbers of the two update managers).

  \<^bold>\<open>IdsM.\<close> \<open>Idsm_Types\<close> models \<open>include/IdsM_Types.h\<close> and the run-time state of \<open>IdsM_Internal.h\<close>;
  \<open>Idsm_Protocol\<close> the serialiser, with its size arithmetic in 16 bits as in the code; \<open>Idsm_Filters\<close> the filters Block
  State, Forward Every Nth, Aggregation and Threshold on the state of one event; \<open>Idsm_Manager\<close> all operations of the manager
  and its worker. \<open>Idsm_Manager_Ops\<close> proves what each operation does, on every branch. \<open>Idsm_System\<close> composes manager and
  worker to a step relation, whose steps are the critical sections of the code, with arbitrary clocks and arguments; its
  invariants hold in all reachable states, whatever the interleaving: sound state of every event, exact pending counts, and
  well-formed deliveries.

  \<^bold>\<open>IdsRm.\<close> \<open>Idsrm_Manager\<close> models the two queues (128 events to the server, 512 lines to the local sink), the posting loop
  with its retries, and the JSON text; libcurl and the socket are parameters. Posting ends: the loop runs at most 11 times
  and is structurally recursive on the attempts left.

  \<^bold>\<open>can_probe.\<close> \<open>Can_Frame\<close> (frames and alerts), \<open>Can_Detectors\<close> (the ten detectors, state and feed functions),
  \<open>Can_Pipeline\<close> (the order of the detectors and the reader of capture files). The lemmas show which frames alert, that
  a window alerts once, that cooldowns mute, and that no record is read outside its bytes.

  \<^bold>\<open>eth_probe.\<close> \<open>Eth_Packet\<close> is the frame parser (at most 2 VLAN tags and 8 IPv6 extension headers, as in the code);
  \<open>Eth_Protocols\<close> DoIP, SOME/IP and DNS (at most 32 hops of a compressed name); \<open>Eth_Http\<close>, \<open>Eth_Tls\<close>, \<open>Eth_Md5\<close> the other
  parsers; \<open>Eth_Geoip\<close> the prefix tries and the reader of address lists; \<open>Eth_Rules\<close> and \<open>Eth_Rules_Match\<close> the rule
  language, its loader and its matching, which is proved equivalent to a declarative placement of the patterns;
  \<open>Eth_Detectors\<close> the packet detectors, with the port scan equivalent to a reference that recounts; \<open>Eth_Defrag\<close> and
  \<open>Eth_Stream\<close>, \<open>Eth_Stream_Table\<close> the reassembly of datagrams and streams, which refine the datagram and the stream that was
  cut. \<open>Eth_Pipeline\<close> composes them; \<open>Eth_Pipeline_Safety\<close> proves that no sequence of frames makes any part read outside
  a buffer and that all tables stay bounded; \<open>Eth_Pipeline_Alerts\<close> what the composition reports.

  \<^bold>\<open>host_probe.\<close> \<open>Host_Event\<close> (events and the text format), \<open>Host_Sha256\<close>, \<open>Host_Baseline\<close> (the four loaders),
  \<open>Host_Detectors\<close>, \<open>Host_Pipeline\<close> (routing and the set-up of \<open>main.cpp\<close>), \<open>Host_Capture\<close> (replay of a log and the
  poller of /proc). \<open>Host_Muting\<close> proves for all detectors at once that they alert exactly outside the cooldown of their
  key; \<open>Host_Integrity\<close> follows a file from the list of sha256sum to the verdict of the first scan, and the processes from one
  pass of the poller to the next.

  \<^bold>\<open>eve_bridge.\<close> \<open>Eve_Bridge\<close> models \<open>apps/eve_bridge\<close>, which turns the alert records of Suricata into security
  events: the search for the fields of a record, the addresses, the context, and the lines of a connection. The context always
  has the 46 bytes of the layout of \<open>apps/eth_probe\<close>; the two flaws of the parser are stated as theorems.

  \<^bold>\<open>managerd.\<close> \<open>Json\<close> states the values and accessors of the JSON library; \<open>Mgr_Base64\<close>; \<open>Mgr_Bundle\<close> what the two update
  managers have in common (target, freshness, signature, stored number, directory); \<open>Mgr_Canonical\<close> that the canonical
  bytes determine the signed fields; \<open>Mgr_Rules\<close>, \<open>Mgr_Rules_Facts\<close> the rule manager and \<open>Mgr_Config\<close>,
  \<open>Mgr_Config_Facts\<close> the configuration manager, from the JSON text to the directory, with every failure of a system call:
  only signed, fresh bundles with ascending numbers change anything, and the configuration touches nothing but its fixed files.
  \<open>Mgr_Queue\<close>, \<open>Mgr_Queue_Facts\<close> are the lines of a connection and the queue file with its cursor. \<open>Mgr_Channel\<close> is the way of a line
  through the daemon, with the commands to upload a file, the batches, and those that are dropped; its steps refine uses of
  the queue, so that no alert that can be read is lost but in two ways that the theory names, and without failures each is published
  once and in order. \<open>Mgr_Cloud\<close> holds the messages to and from the cloud, credentials
  and the registration response; \<open>Mgr_Main\<close>, \<open>Mgr_Main_Facts\<close> the main loop as a state machine of passes and callbacks:
  registration requests are spaced, and every rejection of a bundle is reported once and in order. \<open>Mgr_Snapshot\<close>,
  \<open>Mgr_Snapshot_Facts\<close> are the uploads of files in chunks: the chunks that are sent are the file.

  \<^bold>\<open>Bounds.\<close> Machine integers are words of their width wherever the code can wrap; file offsets and container sizes are
  natural numbers. No definition uses fuel except the loops that the code itself bounds (extension headers, name hops, padding
  steps of the hashes, attempts to post); all others are structural, or have a termination proof.

  \<^bold>\<open>Parameters.\<close> What is not in the repository is an argument: PCRE2, libcurl, OpenSSL, the JSON parser and printer, the
  clocks, and the outcome of system calls. Theorems about them hold for every such argument, or name what they need of it.

  \<^bold>\<open>Not modelled.\<close> Live capture from SocketCAN, packet sockets and netlink; the command line parsing and wiring in the main
  functions; sockets, threads and TLS of the MQTT client and the certificate renewal (calls into OpenSSL and mosquitto); the
  command line tool, which only calls the interface of IdsM; the Android application (Kotlin), the dashboards, the mock server
  and the test programs; vendored code. The components of the manifest list each of them with the reason.
\<close>

end
